(* ===== verification/Codes_Prelude.thy ===== *)
theory Codes_Prelude
  imports Complex_Main "HOL-Library.Word"
begin

text \<open>
  Shared vocabulary of the development: the ways a C function of the simulator can end
  abnormally, a sequencing operator for results, bounds-checked array access, the widths
  of the machine integers, the part of a ROSS logical process that the modelled handlers
  touch, and the list lemmas that several components use.

  A function that can abort has a result of type \<open>c_error + 'a\<close>: \<open>Inl\<close> stands for a
  run that stops there (a failed \<open>assert\<close>, a call of \<open>tw_error\<close>, an access outside an
  array, a division by zero, a NULL dereference, a use of uninitialised memory), \<open>Inr\<close> for an ordinary return.
  Assertions are active, as in the build that the tests use.
\<close>

named_theorems result_iff \<open>when a sequenced computation returns normally\<close>
named_theorems c_int_simps \<open>wrap-around of C integers that are in range\<close>

subsection \<open>Results\<close>

datatype c_error =
    AssertFailed        \<comment> \<open>a false \<open>assert\<close>\<close>
  | TwError             \<comment> \<open>\<open>tw_error\<close>, which ends the simulation\<close>
  | OutOfBounds         \<comment> \<open>an index outside a C array: undefined behaviour\<close>
  | NullDeref           \<comment> \<open>a dereference of NULL\<close>
  | DivByZero           \<comment> \<open>integer division by zero\<close>
  | Uninitialised       \<comment> \<open>a use of memory that was never written\<close>

type_synonym 'a result = "c_error + 'a"

definition bind_res :: "'a result \<Rightarrow> ('a \<Rightarrow> 'b result) \<Rightarrow> 'b result" where
  "bind_res m f = (case m of Inl e \<Rightarrow> Inl e | Inr x \<Rightarrow> f x)"

definition c_assert :: "bool \<Rightarrow> unit result" where
  "c_assert b = (if b then Inr () else Inl AssertFailed)"

lemma bind_res_simps [simp]:
  "bind_res (Inl e) f = Inl e"
  "bind_res (Inr x) f = f x"
  by (simp_all add: bind_res_def)

lemma c_assert_simps [simp]:
  "c_assert True = Inr ()"
  "c_assert False = Inl AssertFailed"
  by (simp_all add: c_assert_def)

lemma bind_res_Inr_iff [result_iff]:
  "bind_res m f = Inr y \<longleftrightarrow> (\<exists>x. m = Inr x \<and> f x = Inr y)"
  by (cases m) simp_all

lemma bind_res_Inl_iff:
  "bind_res m f = Inl e \<longleftrightarrow> m = Inl e \<or> (\<exists>x. m = Inr x \<and> f x = Inl e)"
  by (cases m) simp_all

lemma c_assert_Inr_iff [result_iff]: "c_assert b = Inr u \<longleftrightarrow> b"
  by (simp add: c_assert_def)

lemma bind_res_assoc:
  "bind_res (bind_res m f) g = bind_res m (\<lambda>x. bind_res (f x) g)"
  by (cases m) simp_all

lemma bind_res_cong [fundef_cong]:
  assumes "m = m'" and "\<And>x. m' = Inr x \<Longrightarrow> f x = f' x"
  shows "bind_res m f = bind_res m' f'"
  using assms by (cases m') simp_all

subsection \<open>C arrays\<close>

definition rd :: "'a list \<Rightarrow> nat \<Rightarrow> 'a result" where
  "rd xs i = (if i < length xs then Inr (xs ! i) else Inl OutOfBounds)"

definition wr :: "'a list \<Rightarrow> nat \<Rightarrow> 'a \<Rightarrow> 'a list result" where
  "wr xs i v = (if i < length xs then Inr (xs[i := v]) else Inl OutOfBounds)"

lemma rd_in [simp]: "i < length xs \<Longrightarrow> rd xs i = Inr (xs ! i)"
  by (simp add: rd_def)

lemma wr_in [simp]: "i < length xs \<Longrightarrow> wr xs i v = Inr (xs[i := v])"
  by (simp add: wr_def)

lemma rd_out [simp]: "length xs \<le> i \<Longrightarrow> rd xs i = Inl OutOfBounds"
  by (simp add: rd_def)

lemma wr_out [simp]: "length xs \<le> i \<Longrightarrow> wr xs i v = Inl OutOfBounds"
  by (simp add: wr_def)

lemma rd_Inr_iff [result_iff]: "rd xs i = Inr v \<longleftrightarrow> i < length xs \<and> v = xs ! i"
  by (auto simp: rd_def)

lemma wr_Inr_iff [result_iff]: "wr xs i v = Inr ys \<longleftrightarrow> i < length xs \<and> ys = xs[i := v]"
  by (auto simp: wr_def)

subsection \<open>Machine integers\<close>

type_synonym u32 = "32 word"
type_synonym u64 = "64 word"
type_synonym bytes = "8 word list"

text \<open>
  Where a C \<open>uint64_t\<close> or \<open>int\<close> is only counted with, it is a \<open>nat\<close> or an \<open>int\<close>
  and the conversion that the code performs is written out: \<open>u64\<close> is the conversion
  to \<open>uint64_t\<close> and \<open>s32\<close> the conversion to \<open>int\<close> (two's complement).
\<close>

definition u64 :: "int \<Rightarrow> int" where
  "u64 x = x mod 2 ^ 64"

definition s32 :: "int \<Rightarrow> int" where
  "s32 x = (x + 2 ^ 31) mod 2 ^ 32 - 2 ^ 31"

lemma u64_id [c_int_simps]: "0 \<le> x \<Longrightarrow> x < 2 ^ 64 \<Longrightarrow> u64 x = x"
  by (simp add: u64_def)

lemma s32_id [c_int_simps]: "- (2 ^ 31) \<le> x \<Longrightarrow> x < 2 ^ 31 \<Longrightarrow> s32 x = x"
  by (simp add: s32_def)

lemma u64_bounds: "0 \<le> u64 x \<and> u64 x < 2 ^ 64"
  by (simp add: u64_def)

lemma s32_bounds: "- (2 ^ 31) \<le> s32 x \<and> s32 x < 2 ^ 31"
proof -
  have "0 \<le> (x + 2 ^ 31) mod 2 ^ 32" and "(x + 2 ^ 31) mod 2 ^ 32 < (2 ^ 32 :: int)"
    by simp_all
  then show ?thesis by (simp add: s32_def)
qed

lemma u64_idem [simp]: "u64 (u64 x) = u64 x"
  by (simp add: u64_def)

lemma u64_add_left [simp]: "u64 (u64 x + y) = u64 (x + y)"
  by (simp add: u64_def mod_add_left_eq)

lemma u64_add_right [simp]: "u64 (x + u64 y) = u64 (x + y)"
  by (simp add: u64_def mod_add_right_eq)

text \<open>Division of C, which truncates towards zero; the divisor is never 0 where it is
  used.\<close>

definition c_div :: "int \<Rightarrow> int \<Rightarrow> int" where
  "c_div a b = sgn a * sgn b * (\<bar>a\<bar> div \<bar>b\<bar>)"

definition c_mod :: "int \<Rightarrow> int \<Rightarrow> int" where
  "c_mod a b = a - c_div a b * b"

lemma c_div_nonneg [c_int_simps]: "0 \<le> a \<Longrightarrow> 0 < b \<Longrightarrow> c_div a b = a div b"
  by (cases "a = 0") (simp_all add: c_div_def)

lemma c_mod_nonneg [c_int_simps]: "0 \<le> a \<Longrightarrow> 0 < b \<Longrightarrow> c_mod a b = a mod b"
  by (simp add: c_mod_def c_div_nonneg minus_div_mult_eq_mod)

lemma word_add_le_of_sub:
  fixes a m q :: "'a::len word"
  assumes "a \<le> m" and "q \<le> m - a"
  shows "a + q \<le> m" and "unat (a + q) = unat a + unat q"
proof -
  have le: "unat a + unat q \<le> unat m"
    using assms by (simp add: word_le_nat_alt unat_sub)
  moreover have "unat m < 2 ^ LENGTH('a)" by (metis unsigned_less)
  ultimately have "unat a + unat q < 2 ^ LENGTH('a)" by linarith
  then show eq: "unat (a + q) = unat a + unat q"
    by (simp add: unat_word_ariths)
  show "a + q \<le> m"
    using le by (simp add: word_le_nat_alt eq)
qed

lemma unat_sub_le:
  fixes a q :: "'a::len word"
  shows "q \<le> a \<Longrightarrow> unat (a - q) = unat a - unat q"
  by (simp add: unat_sub word_le_nat_alt)

subsection \<open>The part of a logical process that handlers use\<close>

text \<open>Simulated time, \<open>tw_stime\<close>, is a C \<open>double\<close>; it is modelled as a real number, without
  rounding.\<close>

type_synonym tw_stime = real

text \<open>
  \<open>codes_local_latency\<close> (codes/codes.h) draws one number from the last random stream of
  the LP and \<open>codes_local_latency_reverse\<close> takes the draw back. The generator belongs to
  ROSS: the model keeps the position of the stream, and an event that is sent with a
  local latency carries the number of the draw that fixes its delay.
\<close>

record tw_lp =
  gid :: int
  draws :: int

definition codes_local_latency :: "tw_lp \<Rightarrow> int \<times> tw_lp" where
  "codes_local_latency lp = (draws lp, lp\<lparr>draws := draws lp + 1\<rparr>)"

definition codes_local_latency_reverse :: "tw_lp \<Rightarrow> tw_lp" where
  "codes_local_latency_reverse lp = lp\<lparr>draws := draws lp - 1\<rparr>"

lemma local_latency_gid [simp]:
  "gid (snd (codes_local_latency lp)) = gid lp"
  by (simp add: codes_local_latency_def)

lemma local_latency_reverse [simp]:
  "codes_local_latency_reverse (snd (codes_local_latency lp)) = lp"
  by (simp add: codes_local_latency_def codes_local_latency_reverse_def)

text \<open>The bit field of an event (\<open>tw_bf\<close>), which ROSS clears before the forward handler runs
  and passes on to the reverse handler, and the message header of codes/lp-msg.h.\<close>

record tw_bf =
  c0 :: bool
  c1 :: bool
  c2 :: bool
  c3 :: bool
  c30 :: bool
  c31 :: bool

definition bf_clear :: tw_bf where
  "bf_clear = \<lparr>c0 = False, c1 = False, c2 = False, c3 = False, c30 = False, c31 = False\<rparr>"

lemma bf_clear_simps [simp]:
  "\<not> c0 bf_clear" "\<not> c1 bf_clear" "\<not> c2 bf_clear" "\<not> c3 bf_clear" "\<not> c30 bf_clear" "\<not> c31 bf_clear"
  by (simp_all add: bf_clear_def)

record msg_header =
  mh_src :: int
  mh_event_type :: int
  mh_magic :: int

definition msg_set_header :: "int \<Rightarrow> int \<Rightarrow> int \<Rightarrow> msg_header" where
  "msg_set_header magic event_type src =
     \<lparr>mh_src = src, mh_event_type = event_type, mh_magic = magic\<rparr>"

subsection \<open>Lists\<close>

lemma list_update_undo: "i < length xs \<Longrightarrow> (xs[i := v])[i := xs ! i] = xs"
  by simp

lemma distinct_map_nth_neq:
  assumes "distinct (map f xs)" "l < length xs" "j < l"
  shows "f (xs ! j) \<noteq> f (xs ! l)"
  using nth_eq_iff_index_eq [OF assms(1), of j l] assms(2,3) by simp

lemma take_Suc_update: "k < length xs \<Longrightarrow> take (Suc k) (xs[k := v]) = take k xs @ [v]"
  by (simp add: take_Suc_conv_app_nth)

lemma sum_list_update_nat:
  fixes xs :: "nat list"
  assumes "i < length xs"
  shows "sum_list (xs[i := v]) + xs ! i = sum_list xs + v"
  using assms
proof (induction xs arbitrary: i)
  case (Cons x xs)
  then show ?case by (cases i) (auto simp: ac_simps)
qed simp

end
