(* ===== verification/Resource_Pool.thy ===== *)
theory Resource_Pool
  imports Codes_Prelude
begin

text \<open>
  The token pools of src/util/resource.c (struct in codes/resource.h): a resource has a
  general pool, index 0, and up to \<open>MAX_RESERVE\<close> reserved pools. All amounts are
  \<open>uint64_t\<close> and wrap; a token is an \<open>unsigned int\<close> used as an array index.
\<close>

subsection \<open>State\<close>

definition MAX_RESERVE :: nat where
  "MAX_RESERVE = 8"

record resource =
  avail :: "u64 list"      \<comment> \<open>currently available, per pool\<close>
  max_pool :: "u64 list"   \<comment> \<open>the C field \<open>max\<close>: maximum per pool\<close>
  min_avail :: "u64 list"  \<comment> \<open>least amount ever available, per pool\<close>
  max_all :: u64
  num_tokens :: u32

definition min_u64 :: "u64 \<Rightarrow> u64 \<Rightarrow> u64" where
  "min_u64 a b = (if a < b then a else b)"

subsection \<open>Operations\<close>

text \<open>The loop of \<open>resource_init\<close> stops before index \<open>MAX_RESERVE\<close>, which keeps what
  the memory held.\<close>

function resource_init_loop :: "nat \<Rightarrow> resource \<Rightarrow> resource" where
  "resource_init_loop i r =
     (if i < MAX_RESERVE
      then resource_init_loop (Suc i)
             (r\<lparr>avail := (avail r)[i := 0], max_pool := (max_pool r)[i := 0],
                min_avail := (min_avail r)[i := 0]\<rparr>)
      else r)"
  by pat_completeness auto
termination
  by (relation "measure (\<lambda>(i, r). MAX_RESERVE - i)") auto

declare resource_init_loop.simps [simp del]

definition resource_init :: "u64 \<Rightarrow> resource \<Rightarrow> resource" where
  "resource_init a r =
     resource_init_loop 1
       (r\<lparr>num_tokens := 0, max_all := a,
          avail := (avail r)[0 := a], max_pool := (max_pool r)[0 := a],
          min_avail := (min_avail r)[0 := a]\<rparr>)"

definition resource_get :: "u64 \<Rightarrow> u32 \<Rightarrow> resource \<Rightarrow> (int \<times> resource) result" where
  "resource_get req tok r =
     (if tok > num_tokens r then Inr (2, r)
      else bind_res (rd (avail r) (unat tok)) (\<lambda>a.
        if req > a then Inr (1, r)
        else bind_res (rd (max_pool r) (unat tok)) (\<lambda>m.
          if req > m then Inr (-1, r)
          else bind_res (wr (avail r) (unat tok) (a - req)) (\<lambda>av.
            bind_res (rd (min_avail r) (unat tok)) (\<lambda>mi.
              bind_res (wr (min_avail r) (unat tok) (min_u64 (a - req) mi)) (\<lambda>mis.
                Inr (0, r\<lparr>avail := av, min_avail := mis\<rparr>)))))))"

definition resource_free :: "u64 \<Rightarrow> u32 \<Rightarrow> resource \<Rightarrow> (int \<times> resource) result" where
  "resource_free req tok r =
     (if tok > num_tokens r then Inr (2, r)
      else bind_res (rd (avail r) (unat tok)) (\<lambda>a.
        bind_res (wr (avail r) (unat tok) (a + req)) (\<lambda>av.
          Inr (0, r\<lparr>avail := av\<rparr>))))"

text \<open>The three getters return the code and the value of the output argument, which is
  not written (\<open>None\<close>) for an invalid token.\<close>

definition resource_get_avail :: "u32 \<Rightarrow> resource \<Rightarrow> (int \<times> u64 option) result" where
  "resource_get_avail tok r =
     (if tok > num_tokens r then Inr (2, None)
      else bind_res (rd (avail r) (unat tok)) (\<lambda>a. Inr (0, Some a)))"

definition resource_get_used :: "u32 \<Rightarrow> resource \<Rightarrow> (int \<times> u64 option) result" where
  "resource_get_used tok r =
     (if tok > num_tokens r then Inr (2, None)
      else bind_res (rd (max_pool r) (unat tok)) (\<lambda>m.
        bind_res (rd (avail r) (unat tok)) (\<lambda>a. Inr (0, Some (m - a)))))"

definition resource_get_min_avail :: "u32 \<Rightarrow> resource \<Rightarrow> (int \<times> u64 option) result" where
  "resource_get_min_avail tok r =
     (if tok > num_tokens r then Inr (2, None)
      else bind_res (rd (min_avail r) (unat tok)) (\<lambda>a. Inr (0, Some a)))"

definition resource_restore_min_avail :: "u32 \<Rightarrow> u64 \<Rightarrow> resource \<Rightarrow> (int \<times> resource) result" where
  "resource_restore_min_avail tok m r =
     (if tok > num_tokens r then Inr (2, r)
      else bind_res (wr (min_avail r) (unat tok) m) (\<lambda>mis.
        Inr (0, r\<lparr>min_avail := mis\<rparr>)))"

definition resource_reserve :: "u64 \<Rightarrow> resource \<Rightarrow> (int \<times> u32 option \<times> resource) result" where
  "resource_reserve req r =
     (if unat (num_tokens r) > MAX_RESERVE then Inr (2, None, r)
      else bind_res (rd (avail r) 0) (\<lambda>a0.
        if req > a0 then Inr (1, None, r)
        else
          let tok = num_tokens r + 1; t = unat tok in
          bind_res (wr (avail r) t req) (\<lambda>av.
            bind_res (wr (max_pool r) t req) (\<lambda>mx.
              bind_res (wr (min_avail r) t req) (\<lambda>mi.
                bind_res (rd mx 0) (\<lambda>m0.
                  bind_res (wr mx 0 (m0 - req)) (\<lambda>mx'.
                    bind_res (rd av 0) (\<lambda>a.
                      bind_res (wr av 0 (a - req)) (\<lambda>av'.
                        Inr (0, Some tok,
                             r\<lparr>num_tokens := tok, avail := av', max_pool := mx',
                               min_avail := mi\<rparr>))))))))))"

subsection \<open>Invariant\<close>

text \<open>The arrays have the size the struct declares and every token handed out indexes
  them.\<close>

definition resource_shape :: "resource \<Rightarrow> bool" where
  "resource_shape r \<longleftrightarrow>
     length (avail r) = MAX_RESERVE + 1 \<and> length (max_pool r) = MAX_RESERVE + 1 \<and>
     length (min_avail r) = MAX_RESERVE + 1 \<and> unat (num_tokens r) \<le> MAX_RESERVE"

text \<open>No pool holds more than its maximum, and the pool maxima add up to the capacity the
  resource was created with.\<close>

definition pool_sum :: "resource \<Rightarrow> nat" where
  "pool_sum r = sum_list (map unat (take (Suc (unat (num_tokens r))) (max_pool r)))"

definition resource_inv :: "resource \<Rightarrow> bool" where
  "resource_inv r \<longleftrightarrow> resource_shape r \<and>
     (\<forall>i \<le> unat (num_tokens r). avail r ! i \<le> max_pool r ! i) \<and>
     pool_sum r = unat (max_all r)"

subsection \<open>Every branch of the operations on a well-shaped resource\<close>

lemma shape_token:
  assumes "resource_shape r" and "tok \<le> num_tokens r"
  shows "unat tok < length (avail r)" and "unat tok < length (max_pool r)"
    and "unat tok < length (min_avail r)"
  using assms by (auto simp: resource_shape_def word_le_nat_alt)

lemma resource_get_cases:
  assumes "resource_shape r"
  shows "resource_get req tok r =
    Inr (if tok > num_tokens r then (2, r)
         else if req > avail r ! unat tok then (1, r)
         else if req > max_pool r ! unat tok then (-1, r)
         else (0, r\<lparr>avail := (avail r)[unat tok := avail r ! unat tok - req],
                    min_avail := (min_avail r)[unat tok :=
                      min_u64 (avail r ! unat tok - req) (min_avail r ! unat tok)]\<rparr>))"
  using assms shape_token [OF assms, of tok] by (simp add: resource_get_def)

lemma resource_free_cases:
  assumes "resource_shape r"
  shows "resource_free req tok r =
    Inr (if tok > num_tokens r then (2, r)
         else (0, r\<lparr>avail := (avail r)[unat tok := avail r ! unat tok + req]\<rparr>))"
  using assms shape_token [OF assms, of tok] by (simp add: resource_free_def)

lemma resource_get_min_avail_cases:
  assumes "resource_shape r"
  shows "resource_get_min_avail tok r =
    Inr (if tok > num_tokens r then (2, None) else (0, Some (min_avail r ! unat tok)))"
  using assms shape_token [OF assms, of tok] by (simp add: resource_get_min_avail_def)

lemma resource_restore_min_avail_cases:
  assumes "resource_shape r"
  shows "resource_restore_min_avail tok m r =
    Inr (if tok > num_tokens r then (2, r)
         else (0, r\<lparr>min_avail := (min_avail r)[unat tok := m]\<rparr>))"
  using assms shape_token [OF assms, of tok] by (simp add: resource_restore_min_avail_def)

lemma unat_next_token:
  assumes "resource_shape r"
  shows "unat (num_tokens r + 1) = Suc (unat (num_tokens r))"
proof -
  have "unat (num_tokens r) + 1 < 2 ^ 32"
    using assms by (simp add: resource_shape_def MAX_RESERVE_def)
  then show ?thesis by (simp add: unat_word_ariths)
qed

lemma resource_reserve_cases:
  assumes "resource_shape r" and "unat (num_tokens r) < MAX_RESERVE"
  shows "resource_reserve req r =
    Inr (if req > avail r ! 0 then (1, None, r)
         else (0, Some (num_tokens r + 1),
               r\<lparr>num_tokens := num_tokens r + 1,
                 avail := (avail r)[Suc (unat (num_tokens r)) := req, 0 := avail r ! 0 - req],
                 max_pool := (max_pool r)[Suc (unat (num_tokens r)) := req,
                                          0 := max_pool r ! 0 - req],
                 min_avail := (min_avail r)[Suc (unat (num_tokens r)) := req]\<rparr>))"
proof -
  have "unat (num_tokens r + 1) < length (avail r)"
    and "unat (num_tokens r + 1) < length (max_pool r)"
    and "unat (num_tokens r + 1) < length (min_avail r)"
    and "0 < length (avail r)" and "0 < length (max_pool r)"
    using assms unat_next_token [OF assms(1)] by (auto simp: resource_shape_def)
  then show ?thesis
    using assms unat_next_token [OF assms(1)]
    by (simp add: resource_reserve_def Let_def)
qed

lemmas resource_op_cases =
  resource_get_cases resource_free_cases resource_get_min_avail_cases
  resource_restore_min_avail_cases

subsection \<open>Preservation of the invariant\<close>

lemma resource_init_loop_spec:
  assumes "length (avail r) = 9" "length (max_pool r) = 9" "length (min_avail r) = 9" "1 \<le> i"
  shows "length (avail (resource_init_loop i r)) = 9 \<and>
    length (max_pool (resource_init_loop i r)) = 9 \<and>
    length (min_avail (resource_init_loop i r)) = 9 \<and>
    avail (resource_init_loop i r) ! 0 = avail r ! 0 \<and>
    max_pool (resource_init_loop i r) ! 0 = max_pool r ! 0 \<and>
    min_avail (resource_init_loop i r) ! 0 = min_avail r ! 0 \<and>
    num_tokens (resource_init_loop i r) = num_tokens r \<and>
    max_all (resource_init_loop i r) = max_all r"
  using assms
proof (induction i r rule: resource_init_loop.induct)
  case (1 i r)
  show ?case
  proof (cases "i < MAX_RESERVE")
    case True
    with "1" show ?thesis
      by (subst (1 2 3 4 5 6 7 8) resource_init_loop.simps) simp
  next
    case False
    with "1.prems" show ?thesis
      by (subst (1 2 3 4 5 6 7 8) resource_init_loop.simps) simp
  qed
qed

lemma take_Suc_0_nth: "0 < length xs \<Longrightarrow> take (Suc 0) xs = [xs ! 0]"
  by (cases xs) auto

lemma resource_init_inv:
  assumes "length (avail r) = 9" "length (max_pool r) = 9" "length (min_avail r) = 9"
  shows "resource_inv (resource_init a r)" and "min_avail (resource_init a r) ! 0 = a"
    and "avail (resource_init a r) ! 0 = a"
proof -
  let ?r = "r\<lparr>num_tokens := 0, max_all := a, avail := (avail r)[0 := a],
              max_pool := (max_pool r)[0 := a], min_avail := (min_avail r)[0 := a]\<rparr>"
  have l: "length (avail ?r) = 9" "length (max_pool ?r) = 9" "length (min_avail ?r) = 9"
    using assms by simp_all
  note sp = resource_init_loop_spec [OF l, of 1, simplified]
  have av: "avail (resource_init a r) ! 0 = a" "max_pool (resource_init a r) ! 0 = a"
    "min_avail (resource_init a r) ! 0 = a" "num_tokens (resource_init a r) = 0"
    "max_all (resource_init a r) = a" "length (max_pool (resource_init a r)) = 9"
    "length (avail (resource_init a r)) = 9" "length (min_avail (resource_init a r)) = 9"
    using sp assms by (simp_all add: resource_init_def)
  then show "resource_inv (resource_init a r)"
    by (simp add: resource_inv_def resource_shape_def pool_sum_def MAX_RESERVE_def
        take_Suc_0_nth)
  show "min_avail (resource_init a r) ! 0 = a" "avail (resource_init a r) ! 0 = a"
    by (simp_all add: av)
qed

lemma resource_inv_shape: "resource_inv r \<Longrightarrow> resource_shape r"
  by (simp add: resource_inv_def)

lemma resource_inv_pool:
  "resource_inv r \<Longrightarrow> tok \<le> num_tokens r \<Longrightarrow> avail r ! unat tok \<le> max_pool r ! unat tok"
  by (simp add: resource_inv_def word_le_nat_alt [of tok])

lemma resource_get_inv:
  assumes "resource_inv r" and "resource_get req tok r = Inr (ret, r')"
  shows "resource_inv r'"
proof -
  note sh = resource_inv_shape [OF assms(1)]
  have le: "avail r ! unat tok - req \<le> max_pool r ! unat tok"
    if "\<not> req > avail r ! unat tok" and "\<not> tok > num_tokens r"
  proof -
    have "avail r ! unat tok - req \<le> avail r ! unat tok"
      using that by (simp add: word_sub_le)
    also have "\<dots> \<le> max_pool r ! unat tok"
      using resource_inv_pool [OF assms(1)] that by simp
    finally show ?thesis .
  qed
  show ?thesis
    using assms sh le shape_token [OF sh, of tok]
    by (auto simp: resource_get_cases [OF sh] resource_inv_def resource_shape_def
        pool_sum_def nth_list_update split: if_splits)
qed

text \<open>A release keeps the invariant when it gives back no more than is in use.\<close>

lemma resource_free_inv:
  assumes "resource_inv r" and "resource_free req tok r = Inr (ret, r')"
    and "tok \<le> num_tokens r \<Longrightarrow> req \<le> max_pool r ! unat tok - avail r ! unat tok"
  shows "resource_inv r'"
proof -
  note sh = resource_inv_shape [OF assms(1)]
  have le: "avail r ! unat tok + req \<le> max_pool r ! unat tok" if "\<not> tok > num_tokens r"
    using that by (intro word_add_le_of_sub(1) resource_inv_pool [OF assms(1)] assms(3)) simp_all
  show ?thesis
    using assms sh le shape_token [OF sh, of tok]
    by (auto simp: resource_free_cases [OF sh] resource_inv_def resource_shape_def
        pool_sum_def nth_list_update split: if_splits)
qed

lemma pool_sum_reserve:
  assumes "length xs = 9" and "n < 8" and "(q::u64) \<le> xs ! 0"
  shows "sum_list (map unat (take (Suc (Suc n)) (xs[Suc n := q, 0 := xs ! 0 - q]))) =
    sum_list (map unat (take (Suc n) xs))"
proof -
  have "(xs[Suc n := q, 0 := xs ! 0 - q]) = (xs[0 := xs ! 0 - q])[Suc n := q]"
    by (simp add: list_update_swap)
  then have "take (Suc (Suc n)) (xs[Suc n := q, 0 := xs ! 0 - q]) =
      (take (Suc n) xs)[0 := xs ! 0 - q] @ [q]"
    using assms(1,2) take_Suc_update [of "Suc n" "xs[0 := xs ! 0 - q]" q]
      take_update_swap [of "Suc n" xs 0 "xs ! 0 - q"] by simp
  then have "sum_list (map unat (take (Suc (Suc n)) (xs[Suc n := q, 0 := xs ! 0 - q]))) =
      sum_list ((map unat (take (Suc n) xs))[0 := unat (xs ! 0 - q)]) + unat q"
    by (simp add: map_update)
  moreover have "sum_list ((map unat (take (Suc n) xs))[0 := unat (xs ! 0 - q)]) + unat (xs ! 0)
      = sum_list (map unat (take (Suc n) xs)) + unat (xs ! 0 - q)"
    using sum_list_update_nat [of 0 "map unat (take (Suc n) xs)" "unat (xs ! 0 - q)"] assms
    by (simp add: nth_take)
  moreover have "unat (xs ! 0 - q) = unat (xs ! 0) - unat q" and "unat q \<le> unat (xs ! 0)"
    using assms(3) by (simp_all add: unat_sub_le word_le_nat_alt)
  ultimately show ?thesis by simp
qed

lemma resource_reserve_inv:
  assumes "resource_inv r" and "unat (num_tokens r) < MAX_RESERVE"
    and "resource_reserve req r = Inr (ret, tok, r')"
  shows "resource_inv r'"
proof -
  note sh = resource_inv_shape [OF assms(1)]
  let ?n = "unat (num_tokens r)"
  have le0: "avail r ! 0 \<le> max_pool r ! 0"
    using assms(1) by (simp add: resource_inv_def)
  have sub: "avail r ! 0 - req \<le> max_pool r ! 0 - req" if "req \<le> avail r ! 0"
    using that le0 by (simp add: word_le_nat_alt unat_sub)
  have ps: "pool_sum r' = pool_sum r" if "\<not> req > avail r ! 0"
    using that assms sh le0 pool_sum_reserve [of "max_pool r" ?n req]
    by (auto simp: resource_reserve_cases [OF sh] pool_sum_def unat_next_token [OF sh]
        resource_shape_def MAX_RESERVE_def)
  have pools: "avail r' ! i \<le> max_pool r' ! i"
    if "\<not> req > avail r ! 0" and "i \<le> Suc ?n" for i
    using that assms sh sub
    by (auto simp: resource_reserve_cases [OF sh] resource_inv_def resource_shape_def
        nth_list_update)
  show ?thesis
    using assms sh ps pools
    by (auto simp: resource_reserve_cases [OF sh] resource_inv_def resource_shape_def
        unat_next_token [OF sh] split: if_splits)
qed

subsection \<open>Reversal of a successful request\<close>

text \<open>Releasing what was just acquired, after the saved minimum has been put back, gives
  the resource of before the request. This is what the reverse handler of the resource
  LP relies on.\<close>

lemma resource_get_undo:
  assumes "resource_shape r" and "resource_get req tok r = Inr (0, r')"
  shows "\<exists>r1. resource_restore_min_avail tok (min_avail r ! unat tok) r' = Inr (0, r1) \<and>
              resource_free req tok r1 = Inr (0, r)"
proof -
  have tok: "\<not> tok > num_tokens r" "\<not> req > avail r ! unat tok"
    "r' = r\<lparr>avail := (avail r)[unat tok := avail r ! unat tok - req],
           min_avail := (min_avail r)[unat tok :=
             min_u64 (avail r ! unat tok - req) (min_avail r ! unat tok)]\<rparr>"
    using assms by (auto simp: resource_get_cases split: if_splits)
  then have "resource_shape r'" using assms(1) by (simp add: resource_shape_def)
  moreover have "resource_shape (r'\<lparr>min_avail := (min_avail r')[unat tok := min_avail r ! unat tok]\<rparr>)"
    using \<open>resource_shape r'\<close> by (simp add: resource_shape_def)
  ultimately show ?thesis
    using tok shape_token [OF assms(1), of tok]
    by (simp add: resource_restore_min_avail_cases resource_free_cases)
qed

text \<open>Acquiring back what was just released gives the old resource, provided the release
  did not overflow the pool and the recorded minimum was a lower bound.\<close>

lemma resource_free_undo:
  assumes "resource_inv r" and "resource_free req tok r = Inr (0, r')"
    and "req \<le> max_pool r ! unat tok - avail r ! unat tok"
    and "min_avail r ! unat tok \<le> avail r ! unat tok"
  shows "resource_get req tok r' = Inr (0, r)"
proof -
  note sh = resource_inv_shape [OF assms(1)]
  have tok: "\<not> tok > num_tokens r"
    "r' = r\<lparr>avail := (avail r)[unat tok := avail r ! unat tok + req]\<rparr>"
    using assms(2) by (auto simp: resource_free_cases [OF sh] split: if_splits)
  note pool = resource_inv_pool [OF assms(1), of tok]
  have "req \<le> max_pool r ! unat tok"
    using assms(3) pool tok by (meson le_less_trans not_le order.trans word_sub_le)
  moreover have "req \<le> avail r ! unat tok + req"
    using word_add_le_of_sub(2) [OF pool assms(3)] tok by (simp add: word_le_nat_alt [of req] not_less)
  moreover have "resource_shape r'" using tok sh by (simp add: resource_shape_def)
  moreover have "min_u64 (avail r ! unat tok) (min_avail r ! unat tok) = min_avail r ! unat tok"
    using assms(4) by (auto simp: min_u64_def)
  ultimately show ?thesis
    using tok shape_token [OF sh, of tok] by (simp add: resource_get_cases leD)
qed

subsection \<open>The ninth reservation\<close>

text \<open>C20: the guard of \<open>resource_reserve\<close> lets a ninth reservation through: when all
  \<open>MAX_RESERVE\<close> tokens are handed out and the general pool has enough, the function
  writes to index 9 of arrays of nine elements instead of refusing.\<close>
theorem resource_reserve_overruns:
  assumes "resource_shape r" and "unat (num_tokens r) = MAX_RESERVE" and "req \<le> avail r ! 0"
  shows "resource_reserve req r = Inl OutOfBounds"
proof -
  have "unat (num_tokens r + 1) = 9" "0 < length (avail r)" "length (avail r) = 9"
    using unat_next_token [OF assms(1)] assms by (simp_all add: resource_shape_def MAX_RESERVE_def)
  then show ?thesis using assms(2,3) by (simp add: resource_reserve_def Let_def leD)
qed

theorem resource_reserve_overruns_witness:
  "resource_reserve 1 \<lparr>avail = 5 # replicate 8 1, max_pool = 5 # replicate 8 1,
     min_avail = 5 # replicate 8 1, max_all = 13, num_tokens = 8\<rparr> = Inl OutOfBounds"
  by (rule resource_reserve_overruns) (simp_all add: resource_shape_def MAX_RESERVE_def)

end
