(* ===== verification/LP_Conf.thy ===== *)
theory LP_Conf
  imports Codes_Prelude
begin

text \<open>
  The LP configuration that the mapping code reads: the structures of
  codes/configuration.h, after \<open>configuration_get_lpgroups\<close> has turned name offsets into
  pointers. A name is a C string; a NULL annotation is \<open>None\<close>. The counts
  \<open>lpgroups_count\<close>, \<open>lptypes_count\<close>, \<open>lpannos_count\<close> and \<open>num_annos\<close> are the lengths of
  the lists.
\<close>

record config_lptype =
  lpt_name :: string
  lpt_anno :: "string option"
  lpt_count :: int

record config_lpgroup =
  lpg_name :: string
  repetitions :: int
  lptypes :: "config_lptype list"

record config_anno_map =
  am_lp_name :: string
  has_unanno_lp :: int
  is_unanno_first :: int
  num_anno_lps :: "int list"
  annotations :: "string list"

record config_lpgroups =
  lpgroups :: "config_lpgroup list"
  lpannos :: "config_anno_map list"
  group_names :: "string list"
  lp_names :: "string list"
  anno_names :: "string list"

text \<open>\<open>configuration_get_annotation_index\<close>: the position of an annotation in the list
  of its LP type, or -1.\<close>

fun index_from :: "string \<Rightarrow> string list \<Rightarrow> nat \<Rightarrow> int" where
  "index_from a [] i = -1"
| "index_from a (b # bs) i = (if a = b then int i else index_from a bs (Suc i))"

definition configuration_get_annotation_index :: "string option \<Rightarrow> config_anno_map \<Rightarrow> int" where
  "configuration_get_annotation_index anno m =
     (case anno of None \<Rightarrow> -1 | Some a \<Rightarrow> index_from a (annotations m) 0)"

lemma index_from_Some:
  "0 \<le> index_from a bs i \<Longrightarrow>
     int i \<le> index_from a bs i \<and> nat (index_from a bs i) - i < length bs \<and>
     bs ! (nat (index_from a bs i) - i) = a"
proof (induction bs arbitrary: i)
  case (Cons b bs)
  show ?case
  proof (cases "a = b")
    case False
    with Cons.prems Cons.IH [of "Suc i"]
    have ih: "int (Suc i) \<le> index_from a bs (Suc i)"
      "nat (index_from a bs (Suc i)) - Suc i < length bs"
      "bs ! (nat (index_from a bs (Suc i)) - Suc i) = a" by auto
    then have "nat (index_from a bs (Suc i)) - i = Suc (nat (index_from a bs (Suc i)) - Suc i)"
      by linarith
    with False ih show ?thesis by simp
  qed simp
qed simp

lemma index_from_neg: "index_from a bs i < 0 \<longleftrightarrow> a \<notin> set bs"
  by (induction bs arbitrary: i) auto

subsection \<open>Sizes\<close>

text \<open>LPs of a list of types in one repetition, of a group, of a configuration.\<close>

definition types_size :: "config_lptype list \<Rightarrow> int" where
  "types_size ls = (\<Sum>l \<leftarrow> ls. lpt_count l)"

definition group_size :: "config_lpgroup \<Rightarrow> int" where
  "group_size g = repetitions g * types_size (lptypes g)"

definition groups_size :: "config_lpgroup list \<Rightarrow> int" where
  "groups_size gs = (\<Sum>g \<leftarrow> gs. group_size g)"

text \<open>What \<open>configuration_get_lpgroups\<close> establishes (positive counts and repetitions,
  unique group names), for a number of LPs that an \<open>int\<close> can count.\<close>

definition wf_types :: "config_lptype list \<Rightarrow> bool" where
  "wf_types ls \<longleftrightarrow> list_all (\<lambda>l. 0 < lpt_count l) ls"

definition wf_groups :: "config_lpgroup list \<Rightarrow> bool" where
  "wf_groups gs \<longleftrightarrow> list_all (\<lambda>g. 0 < repetitions g \<and> wf_types (lptypes g)) gs"

definition wf_conf :: "config_lpgroups \<Rightarrow> bool" where
  "wf_conf c \<longleftrightarrow> wf_groups (lpgroups c) \<and> distinct (map lpg_name (lpgroups c)) \<and>
     groups_size (lpgroups c) < 2 ^ 31"

lemma types_size_simps [simp]:
  "types_size [] = 0"
  "types_size (l # ls) = lpt_count l + types_size ls"
  "types_size (ls @ ms) = types_size ls + types_size ms"
  by (simp_all add: types_size_def)

lemma groups_size_simps [simp]:
  "groups_size [] = 0"
  "groups_size (g # gs) = group_size g + groups_size gs"
  "groups_size (gs @ hs) = groups_size gs + groups_size hs"
  by (simp_all add: groups_size_def)

lemma wf_types_simps [simp]:
  "wf_types []"
  "wf_types (l # ls) \<longleftrightarrow> 0 < lpt_count l \<and> wf_types ls"
  by (simp_all add: wf_types_def)

lemma wf_groups_simps [simp]:
  "wf_groups []"
  "wf_groups (g # gs) \<longleftrightarrow> 0 < repetitions g \<and> wf_types (lptypes g) \<and> wf_groups gs"
  by (simp_all add: wf_groups_def)

lemma types_size_nonneg: "wf_types ls \<Longrightarrow> 0 \<le> types_size ls"
  by (induction ls) auto

lemma group_size_nonneg:
  "0 < repetitions g \<Longrightarrow> wf_types (lptypes g) \<Longrightarrow> 0 \<le> group_size g"
  by (simp add: group_size_def types_size_nonneg)

lemma groups_size_nonneg: "wf_groups gs \<Longrightarrow> 0 \<le> groups_size gs"
  by (induction gs) (auto simp: group_size_nonneg)

lemma wf_types_take: "wf_types ls \<Longrightarrow> wf_types (take n ls)"
  by (auto simp: wf_types_def list_all_iff dest: in_set_takeD)

lemma wf_types_nth: "wf_types ls \<Longrightarrow> i < length ls \<Longrightarrow> 0 < lpt_count (ls ! i)"
  by (simp add: wf_types_def list_all_length)

lemma types_size_split:
  assumes "i < length ls"
  shows "types_size ls = types_size (take i ls) + lpt_count (ls ! i) + types_size (drop (Suc i) ls)"
  by (subst id_take_nth_drop [OF assms]) (simp del: append_take_drop_id)

lemma wf_types_drop: "wf_types ls \<Longrightarrow> wf_types (drop n ls)"
  by (auto simp: wf_types_def list_all_iff dest: in_set_dropD)

lemma types_size_take_le:
  assumes "wf_types ls" and "i < length ls"
  shows "types_size (take i ls) + lpt_count (ls ! i) \<le> types_size ls"
  using types_size_split [OF assms(2)] types_size_nonneg [OF wf_types_drop [OF assms(1), of "Suc i"]]
  by linarith

subsection \<open>An example configuration\<close>

text \<open>Four repetitions of two servers, a terminal and a router, then two repetitions of
  three annotated servers and one resource: 24 LPs on which the statements of the
  development are evaluated.\<close>

definition ex_conf :: config_lpgroups where
  "ex_conf =
     \<lparr>lpgroups =
        [\<lparr>lpg_name = ''MODELNET_GRP'', repetitions = 4,
          lptypes = [\<lparr>lpt_name = ''server'', lpt_anno = None, lpt_count = 2\<rparr>,
                     \<lparr>lpt_name = ''modelnet'', lpt_anno = None, lpt_count = 1\<rparr>,
                     \<lparr>lpt_name = ''router'', lpt_anno = None, lpt_count = 1\<rparr>]\<rparr>,
         \<lparr>lpg_name = ''STORAGE_GRP'', repetitions = 2,
          lptypes = [\<lparr>lpt_name = ''server'', lpt_anno = Some ''io'', lpt_count = 3\<rparr>,
                     \<lparr>lpt_name = ''resource'', lpt_anno = None, lpt_count = 1\<rparr>]\<rparr>],
      lpannos =
        [\<lparr>am_lp_name = ''server'', has_unanno_lp = 1, is_unanno_first = 1,
          num_anno_lps = [1, 0, 0, 0, 0, 0, 0, 0, 0, 0], annotations = [''io'']\<rparr>,
         \<lparr>am_lp_name = ''modelnet'', has_unanno_lp = 1, is_unanno_first = 1,
          num_anno_lps = [0, 0, 0, 0, 0, 0, 0, 0, 0, 0], annotations = []\<rparr>,
         \<lparr>am_lp_name = ''router'', has_unanno_lp = 1, is_unanno_first = 1,
          num_anno_lps = [0, 0, 0, 0, 0, 0, 0, 0, 0, 0], annotations = []\<rparr>,
         \<lparr>am_lp_name = ''resource'', has_unanno_lp = 1, is_unanno_first = 1,
          num_anno_lps = [0, 0, 0, 0, 0, 0, 0, 0, 0, 0], annotations = []\<rparr>],
      group_names = [''MODELNET_GRP'', ''STORAGE_GRP''],
      lp_names = [''server'', ''modelnet'', ''router'', ''resource''],
      anno_names = [''io'']\<rparr>"

lemma ex_conf_wf: "wf_conf ex_conf"
  by (simp add: ex_conf_def wf_conf_def group_size_def)

end
