(* ===== verification/LP_Type_Lookup.thy ===== *)
theory LP_Type_Lookup
  imports Codes_Prelude
begin

text \<open>
  The registry of LP types, src/util/lp-type-lookup.c: a static array of
  \<open>MAX_LP_TYPES\<close> entries and its fill count. Function tables are opaque here: a type is
  a value of any type \<open>'t\<close>, an instrumentation table a value of type \<open>'s\<close>. A static
  array is zeroed, so an entry that never got a trace type holds NULL (\<open>None\<close>).
\<close>

definition MAX_LP_TYPES :: nat where
  "MAX_LP_TYPES = 64"

record ('t, 's) lp_name_mapping =
  nm_name :: string
  nm_type :: "'t option"
  nm_trace_type :: "'s option"

text \<open>The registry is the used prefix of the array; \<open>map_array_size\<close> is its length.\<close>

type_synonym ('t, 's) lp_registry = "('t, 's) lp_name_mapping list"

definition lp_type_register ::
    "string \<Rightarrow> 't option \<Rightarrow> ('t, 's) lp_registry \<Rightarrow> ('t, 's) lp_registry result" where
  "lp_type_register name type reg =
     (if length reg < MAX_LP_TYPES
      then Inr (reg @ [\<lparr>nm_name = name, nm_type = type, nm_trace_type = None\<rparr>])
      else Inl OutOfBounds)"

fun lp_type_lookup :: "string \<Rightarrow> ('t, 's) lp_registry \<Rightarrow> 't option" where
  "lp_type_lookup name [] = None"
| "lp_type_lookup name (e # reg) =
     (if name = nm_name e then nm_type e else lp_type_lookup name reg)"

fun st_model_type_register ::
    "string \<Rightarrow> 's option \<Rightarrow> ('t, 's) lp_registry \<Rightarrow> ('t, 's) lp_registry" where
  "st_model_type_register name type [] = []"
| "st_model_type_register name type (e # reg) =
     (if name = nm_name e then e\<lparr>nm_trace_type := type\<rparr> else e)
     # st_model_type_register name type reg"

fun st_model_type_lookup :: "string \<Rightarrow> ('t, 's) lp_registry \<Rightarrow> 's option" where
  "st_model_type_lookup name [] = None"
| "st_model_type_lookup name (e # reg) =
     (if name = nm_name e then nm_trace_type e else st_model_type_lookup name reg)"

subsection \<open>Lookup after registration\<close>

definition registered :: "('t, 's) lp_registry \<Rightarrow> string set" where
  "registered reg = nm_name ` set reg"

lemma lp_type_lookup_append:
  "lp_type_lookup n (reg @ reg') =
     (if n \<in> registered reg then lp_type_lookup n reg else lp_type_lookup n reg')"
  by (induction reg) (auto simp: registered_def)

lemma lp_type_lookup_unregistered: "n \<notin> registered reg \<Longrightarrow> lp_type_lookup n reg = None"
  by (induction reg) (auto simp: registered_def)

lemma st_register_names [simp]: "registered (st_model_type_register n t reg) = registered reg"
  by (induction reg) (auto simp: registered_def)

lemma st_register_keeps_types [simp]:
  "lp_type_lookup m (st_model_type_register n t reg) = lp_type_lookup m reg"
  by (induction reg) auto

lemma st_lookup_after_register:
  "st_model_type_lookup m (st_model_type_register n t reg) =
     (if m = n \<and> n \<in> registered reg then t else st_model_type_lookup m reg)"
  by (induction reg) (auto simp: registered_def)

text \<open>The first registration of a name wins: registering a name again changes no lookup.\<close>

lemma lp_type_lookup_register:
  assumes "lp_type_register n t reg = Inr reg'"
  shows "lp_type_lookup m reg' =
    (if m = n \<and> n \<notin> registered reg then t else lp_type_lookup m reg)"
proof -
  have "reg' = reg @ [\<lparr>nm_name = n, nm_type = t, nm_trace_type = None\<rparr>]"
    using assms by (simp add: lp_type_register_def split: if_splits)
  then show ?thesis
    by (auto simp: lp_type_lookup_append lp_type_lookup_unregistered)
qed

end
