(* ===== verification/Codes_Mapping.thy ===== *)
theory Codes_Mapping
  imports LP_Conf LP_Type_Lookup Complex_Main
begin

text \<open>
  src/util/codes_mapping.c: how the LPs that the configuration describes are numbered
  (global ids), how an id is turned back into group, repetition, type and offset, how ids
  are counted among LPs of one type (relative ids), and how they are spread over PEs.

  \<open>tw_lpid\<close> is a 64-bit unsigned integer: the conversions \<open>u64\<close> are written where the
  code adds or multiplies such values, \<open>s32\<close> where it stores a result in an \<open>int\<close>
  (a signed overflow, undefined in C, is taken to wrap). \<open>tw_error\<close> ends the
  simulation. The global \<open>lpconf\<close> is the argument \<open>c\<close>.
\<close>

subsection \<open>Counting\<close>

definition cmp_anno :: "string option \<Rightarrow> string option \<Rightarrow> bool" where
  "cmp_anno anno_user anno_config =
     (case anno_user of
        None \<Rightarrow> anno_config = None
      | Some u \<Rightarrow> (case anno_config of None \<Rightarrow> False | Some v \<Rightarrow> u = v))"

definition mini :: "int \<Rightarrow> int \<Rightarrow> int" where
  "mini a b = (if a < b then a else b)"

fun group_reps_loop :: "config_lpgroup list \<Rightarrow> string \<Rightarrow> int" where
  "group_reps_loop [] name = -1"
| "group_reps_loop (g # gs) name =
     (if lpg_name g = name then repetitions g else group_reps_loop gs name)"

definition codes_mapping_get_group_reps :: "config_lpgroups \<Rightarrow> string \<Rightarrow> int" where
  "codes_mapping_get_group_reps c name = group_reps_loop (lpgroups c) name"

text \<open>The sum over the types of a group, \<open>x += count\<close> on a \<open>tw_lpid\<close>.\<close>

fun count_loop :: "config_lptype list \<Rightarrow> int \<Rightarrow> int" where
  "count_loop [] acc = acc"
| "count_loop (l # ls) acc = count_loop ls (u64 (acc + lpt_count l))"

fun lps_total_types :: "config_lptype list \<Rightarrow> int \<Rightarrow> int \<Rightarrow> int" where
  "lps_total_types [] reps acc = acc"
| "lps_total_types (l # ls) reps acc =
     lps_total_types ls reps (u64 (acc + s32 (lpt_count l * reps)))"

fun lps_total_groups :: "config_lpgroup list \<Rightarrow> int \<Rightarrow> int" where
  "lps_total_groups [] acc = acc"
| "lps_total_groups (g # gs) acc =
     lps_total_groups gs (lps_total_types (lptypes g) (repetitions g) acc)"

definition codes_mapping_get_lpgroups_lp_count :: "config_lpgroups \<Rightarrow> int" where
  "codes_mapping_get_lpgroups_lp_count c = s32 (lps_total_groups (lpgroups c) 0)"

text \<open>\<open>codes_mapping_get_lp_count\<close>: the inner loop over types stops at the first match
  when \<open>ignore_annos\<close> is 1; the outer loop stops after the named group.\<close>

fun lp_count_types ::
    "config_lptype list \<Rightarrow> int \<Rightarrow> int \<Rightarrow> string \<Rightarrow> string option \<Rightarrow> int \<Rightarrow> int \<Rightarrow> int" where
  "lp_count_types [] reps ign_reps tname anno ign_annos tot = tot"
| "lp_count_types (l # ls) reps ign_reps tname anno ign_annos tot =
     (if tname = lpt_name l \<and> (ign_annos \<noteq> 0 \<or> cmp_anno anno (lpt_anno l))
      then (let tot' = (if ign_reps \<noteq> 0 then s32 (tot + lpt_count l)
                          else s32 (tot + lpt_count l * reps))
            in if ign_annos = 1 then tot'
               else lp_count_types ls reps ign_reps tname anno ign_annos tot')
      else lp_count_types ls reps ign_reps tname anno ign_annos tot)"

fun lp_count_groups ::
    "config_lpgroup list \<Rightarrow> string option \<Rightarrow> int \<Rightarrow> string \<Rightarrow> string option \<Rightarrow> int \<Rightarrow> int \<Rightarrow> int"
where
  "lp_count_groups [] gname ign_reps tname anno ign_annos tot = tot"
| "lp_count_groups (g # gs) gname ign_reps tname anno ign_annos tot =
     (if gname = None \<or> gname = Some (lpg_name g)
      then (let tot' = lp_count_types (lptypes g) (repetitions g) ign_reps tname anno
                           ign_annos tot
            in if gname \<noteq> None then tot'
               else lp_count_groups gs gname ign_reps tname anno ign_annos tot')
      else lp_count_groups gs gname ign_reps tname anno ign_annos tot)"

definition codes_mapping_get_lp_count ::
    "config_lpgroups \<Rightarrow> string option \<Rightarrow> int \<Rightarrow> string \<Rightarrow> string option \<Rightarrow> int \<Rightarrow> int" where
  "codes_mapping_get_lp_count c gname ign_reps tname anno ign_annos =
     lp_count_groups (lpgroups c) gname (if gname = None then 0 else ign_reps) tname anno
       ign_annos 0"

subsection \<open>From names to a global id\<close>

text \<open>The loop over the types of the matching group: the number of LPs before the first
  matching type, with the check of the offset.\<close>

fun lp_id_types ::
    "config_lptype list \<Rightarrow> string \<Rightarrow> string option \<Rightarrow> int \<Rightarrow> int \<Rightarrow> int \<Rightarrow> int result" where
  "lp_id_types [] tname anno ign_anno off local_lp_count = Inl TwError"
| "lp_id_types (l # ls) tname anno ign_anno off local_lp_count =
     (if lpt_name l = tname \<and> (ign_anno \<noteq> 0 \<or> cmp_anno anno (lpt_anno l))
      then (if off \<ge> lpt_count l then Inl TwError else Inr local_lp_count)
      else lp_id_types ls tname anno ign_anno off (u64 (local_lp_count + lpt_count l)))"

fun lp_id_groups ::
    "config_lpgroup list \<Rightarrow> string \<Rightarrow> string \<Rightarrow> string option \<Rightarrow> int \<Rightarrow> int \<Rightarrow> int \<Rightarrow> int
       \<Rightarrow> int result" where
  "lp_id_groups [] gname tname anno ign_anno rep off gd = Inl TwError"
| "lp_id_groups (g # gs) gname tname anno ign_anno rep off gd =
     (let rep_count = count_loop (lptypes g) 0 in
      if lpg_name g = gname
      then (if rep \<ge> repetitions g then Inl TwError
            else bind_res (lp_id_types (lptypes g) tname anno ign_anno off 0)
                   (\<lambda>local_lp_count. Inr (u64 (gd + (rep_count * rep + local_lp_count + off)))))
      else lp_id_groups gs gname tname anno ign_anno rep off
             (u64 (gd + repetitions g * rep_count)))"

definition codes_mapping_get_lp_id ::
    "config_lpgroups \<Rightarrow> string option \<Rightarrow> string option \<Rightarrow> string option \<Rightarrow> int \<Rightarrow> int \<Rightarrow> int
       \<Rightarrow> int result" where
  "codes_mapping_get_lp_id c gname tname anno ign_anno rep off =
     (if rep < 0 \<or> off < 0 then Inl TwError
      else case gname of None \<Rightarrow> Inl TwError | Some gn \<Rightarrow>
        (case tname of None \<Rightarrow> Inl TwError | Some tn \<Rightarrow>
           lp_id_groups (lpgroups c) gn tn anno ign_anno rep off 0))"

subsection \<open>From a global id to names\<close>

text \<open>The output arguments of \<open>codes_mapping_get_lp_info\<close> and
  \<open>codes_mapping_get_lp_info2\<close>.\<close>

record lp_info =
  inf_group :: string
  inf_group_index :: int
  inf_type :: string
  inf_type_index :: int
  inf_anno :: "string option"
  inf_rep :: int
  inf_offset :: int

fun lp_info_types ::
    "config_lptype list \<Rightarrow> nat \<Rightarrow> int \<Rightarrow> int \<Rightarrow> (nat \<times> config_lptype \<times> int) option" where
  "lp_info_types [] l num rem = None"
| "lp_info_types (t # ts) l num rem =
     (if rem < u64 (num + lpt_count t) then Some (l, t, s32 (rem - num))
      else lp_info_types ts (Suc l) (u64 (num + lpt_count t)) rem)"

text \<open>If no type of the group that holds the id takes it, the C loop goes on with the next
  group and the same running total; this is the \<open>None\<close> branch.\<close>

fun lp_info_groups :: "config_lpgroup list \<Rightarrow> nat \<Rightarrow> int \<Rightarrow> int \<Rightarrow> lp_info result" where
  "lp_info_groups [] g id_total gd = Inl TwError"
| "lp_info_groups (lpg # gs) g id_total gd =
     (let num_id_per_rep = count_loop (lptypes lpg) 0;
          num_id_group = u64 (num_id_per_rep * repetitions lpg)
      in if u64 (num_id_group + id_total) > gd
         then (if num_id_per_rep = 0 then Inl DivByZero
               else let rem = u64 (gd - id_total);
                        rep = s32 (rem div num_id_per_rep);
                        rem' = u64 (rem - num_id_per_rep * u64 rep)
                    in (case lp_info_types (lptypes lpg) 0 0 rem' of
                          Some (l, t, off) \<Rightarrow>
                            Inr \<lparr>inf_group = lpg_name lpg, inf_group_index = int g,
                                 inf_type = lpt_name t, inf_type_index = int l,
                                 inf_anno = lpt_anno t, inf_rep = rep, inf_offset = off\<rparr>
                        | None \<Rightarrow> lp_info_groups gs (Suc g) id_total gd))
         else lp_info_groups gs (Suc g) (u64 (id_total + num_id_group)) gd)"

text \<open>\<open>codes_mapping_get_lp_info2\<close> returns the annotation pointer of the configuration,
  \<open>codes_mapping_get_lp_info\<close> copies it and writes the empty string for NULL.\<close>

definition codes_mapping_get_lp_info2 :: "config_lpgroups \<Rightarrow> int \<Rightarrow> lp_info result" where
  "codes_mapping_get_lp_info2 c gd = lp_info_groups (lpgroups c) 0 0 gd"

definition codes_mapping_get_lp_info ::
    "config_lpgroups \<Rightarrow> int \<Rightarrow> (lp_info \<times> string) result" where
  "codes_mapping_get_lp_info c gd =
     bind_res (lp_info_groups (lpgroups c) 0 0 gd)
       (\<lambda>i. Inr (i, case inf_anno i of None \<Rightarrow> [] | Some a \<Rightarrow> a))"

subsection \<open>Relative ids\<close>

fun rel_types :: "config_lptype list \<Rightarrow> string \<Rightarrow> string option \<Rightarrow> int \<Rightarrow> int \<Rightarrow> int" where
  "rel_types [] tname anno anno_wise n = n"
| "rel_types (l # ls) tname anno anno_wise n =
     rel_types ls tname anno anno_wise
       (if tname = lpt_name l \<and> (anno_wise = 0 \<or> cmp_anno anno (lpt_anno l))
        then s32 (n + lpt_count l) else n)"

fun rel_groups :: "config_lpgroup list \<Rightarrow> string \<Rightarrow> string option \<Rightarrow> int \<Rightarrow> int \<Rightarrow> int" where
  "rel_groups [] tname anno anno_wise n = n"
| "rel_groups (g # gs) tname anno anno_wise n =
     rel_groups gs tname anno anno_wise
       (s32 (n + rel_types (lptypes g) tname anno anno_wise 0 * repetitions g))"

definition codes_mapping_get_lp_relative_id ::
    "config_lpgroups \<Rightarrow> int \<Rightarrow> int \<Rightarrow> int \<Rightarrow> int result" where
  "codes_mapping_get_lp_relative_id c gd group_wise anno_wise =
     bind_res (codes_mapping_get_lp_info c gd) (\<lambda>(i, local_annotation).
       let anno = (if local_annotation = [] then None else Some local_annotation);
           g = nat (inf_group_index i);
           group_lp_count =
             (if group_wise = 0
              then rel_groups (take g (lpgroups c)) (inf_type i) anno anno_wise 0 else 0)
       in bind_res (rd (lpgroups c) g) (\<lambda>lpg.
            let lp_count = rel_types (lptypes lpg) (inf_type i) anno anno_wise 0;
                lp_pre_count = rel_types (take (nat (inf_type_index i)) (lptypes lpg))
                                 (inf_type i) anno anno_wise 0
            in Inr (s32 (group_lp_count + lp_count * inf_rep i + lp_pre_count + inf_offset i))))"

text \<open>The last loop of \<open>codes_mapping_get_lpid_from_relative\<close>: \<open>None\<close> is its
  fall-through to \<open>NOT_FOUND\<close>.\<close>

fun from_rel_types ::
    "config_lptype list \<Rightarrow> string \<Rightarrow> string option \<Rightarrow> int \<Rightarrow> int \<Rightarrow> int \<Rightarrow> int option" where
  "from_rel_types [] tname anno anno_wise gd rem = None"
| "from_rel_types (l # ls) tname anno anno_wise gd rem =
     (if tname = lpt_name l \<and> (anno_wise = 0 \<or> cmp_anno anno (lpt_anno l))
      then (if rem < lpt_count l then Some (u64 (gd + u64 rem))
            else from_rel_types ls tname anno anno_wise (u64 (gd + lpt_count l))
                   (s32 (rem - lpt_count l)))
      else from_rel_types ls tname anno anno_wise (u64 (gd + lpt_count l)) rem)"

fun from_rel_groups ::
    "config_lpgroup list \<Rightarrow> int \<Rightarrow> string option \<Rightarrow> string \<Rightarrow> string option \<Rightarrow> int \<Rightarrow> int \<Rightarrow> int
       \<Rightarrow> int result" where
  "from_rel_groups [] rel gname tname anno anno_wise rel_id_count gid_count = Inl TwError"
| "from_rel_groups (g # gs) rel gname tname anno anno_wise rel_id_count gid_count =
     (let local_gid_count = count_loop (lptypes g) 0 in
      if gname = None \<or> gname = Some (lpg_name g)
      then (let local_rel = rel_types (lptypes g) tname anno anno_wise 0 in
            if rel < s32 (rel_id_count + repetitions g * local_rel)
            then (if local_rel = 0 then Inl DivByZero
                  else let rem = s32 (rel - rel_id_count);
                           rep = c_div rem local_rel;
                           rem' = s32 (rem - rep * local_rel)
                       in (case from_rel_types (lptypes g) tname anno anno_wise
                                  (u64 (gid_count + local_gid_count * rep)) rem' of
                             Some gd' \<Rightarrow> Inr gd'
                           | None \<Rightarrow> Inl TwError))
            else if gname \<noteq> None then Inl TwError
            else from_rel_groups gs rel gname tname anno anno_wise
                   (s32 (rel_id_count + local_rel * repetitions g))
                   (u64 (gid_count + local_gid_count * repetitions g)))
      else from_rel_groups gs rel gname tname anno anno_wise rel_id_count
             (u64 (gid_count + local_gid_count * repetitions g)))"

definition codes_mapping_get_lpid_from_relative ::
    "config_lpgroups \<Rightarrow> int \<Rightarrow> string option \<Rightarrow> string \<Rightarrow> string option \<Rightarrow> int \<Rightarrow> int result"
where
  "codes_mapping_get_lpid_from_relative c rel gname tname anno anno_wise =
     from_rel_groups (lpgroups c) rel gname tname anno anno_wise 0 0"

subsection \<open>PEs\<close>

text \<open>The static variables \<open>lps_per_pe_floor\<close> and \<open>lps_leftover\<close>.\<close>

record pe_layout =
  lps_per_pe_floor :: int
  lps_leftover :: int

definition codes_mapping_get_lps_for_pe :: "pe_layout \<Rightarrow> int \<Rightarrow> int" where
  "codes_mapping_get_lps_for_pe p mynode =
     s32 (u64 (lps_per_pe_floor p + (if u64 mynode < lps_leftover p then 1 else 0)))"

text \<open>The function \<open>codes_mapping\<close>: the PE of a global id.\<close>

definition codes_mapping :: "pe_layout \<Rightarrow> int \<Rightarrow> int result" where
  "codes_mapping p gd =
     (let lps_on_pes_with_leftover = u64 (lps_leftover p * u64 (lps_per_pe_floor p + 1)) in
      if gd < lps_on_pes_with_leftover
      then (if u64 (lps_per_pe_floor p + 1) = 0 then Inl DivByZero
            else Inr (gd div u64 (lps_per_pe_floor p + 1)))
      else (if lps_per_pe_floor p = 0 then Inl DivByZero
            else Inr (u64 (u64 (gd - lps_on_pes_with_leftover) div lps_per_pe_floor p
                           + lps_leftover p))))"

definition lp_start :: "pe_layout \<Rightarrow> int \<Rightarrow> int" where
  "lp_start p mynode =
     u64 (mynode * lps_per_pe_floor p + mini (s32 mynode) (s32 (lps_leftover p)))"

text \<open>The index computed by \<open>codes_mapping_to_lp\<close> into the local LP array.\<close>

definition codes_mapping_to_lp :: "pe_layout \<Rightarrow> int \<Rightarrow> int \<Rightarrow> int" where
  "codes_mapping_to_lp p mynode lpid =
     s32 (u64 (lpid - mynode * lps_per_pe_floor p - mini (s32 mynode) (s32 (lps_leftover p))))"

text \<open>One round of the loop of \<open>codes_mapping_init\<close>: the local id, global id, KP and type
  of an LP.\<close>

record 't lp_assignment =
  as_lid :: int
  as_gid :: int
  as_kp :: int
  as_type :: 't

function codes_mapping_init_loop ::
    "config_lpgroups \<Rightarrow> ('t, 's) lp_registry \<Rightarrow> int \<Rightarrow> int \<Rightarrow> int \<Rightarrow> int
       \<Rightarrow> 't lp_assignment list result" where
  "codes_mapping_init_loop c reg nkp start lpid lp_end =
     (if lpid < lp_end
      then (if nkp = 0 then Inl DivByZero
            else bind_res (codes_mapping_get_lp_info c lpid) (\<lambda>(i, anno).
              case lp_type_lookup (inf_type i) reg of
                None \<Rightarrow> Inl TwError
              | Some ty \<Rightarrow>
                  bind_res (codes_mapping_init_loop c reg nkp start (lpid + 1) lp_end) (\<lambda>as.
                    Inr (\<lparr>as_lid = u64 (lpid - start), as_gid = lpid,
                          as_kp = u64 (lpid - start) mod nkp, as_type = ty\<rparr> # as))))
      else Inr [])"
  by pat_completeness auto
termination
  by (relation "measure (\<lambda>(c, reg, nkp, start, lpid, lp_end). nat (lp_end - lpid))") auto

declare codes_mapping_init_loop.simps [simp del]

definition codes_mapping_init ::
    "config_lpgroups \<Rightarrow> ('t, 's) lp_registry \<Rightarrow> pe_layout \<Rightarrow> int \<Rightarrow> int
       \<Rightarrow> 't lp_assignment list result" where
  "codes_mapping_init c reg p mynode nkp =
     codes_mapping_init_loop c reg nkp (lp_start p mynode) (lp_start p mynode)
       (lp_start p (mynode + 1))"

text \<open>\<open>codes_mapping_count_lps_of_type\<close> runs over the LPs of this PE, here the list of
  their global ids. The test is \<open>if (strncmp(...))\<close>: it holds when the names differ.\<close>

definition MAX_NAME_LENGTH :: nat where
  "MAX_NAME_LENGTH = 256"

fun count_lps_loop :: "config_lpgroups \<Rightarrow> string \<Rightarrow> int list \<Rightarrow> int \<Rightarrow> int result" where
  "count_lps_loop c tname [] n = Inr n"
| "count_lps_loop c tname (gd # gds) n =
     bind_res (codes_mapping_get_lp_info c gd) (\<lambda>(i, anno).
       count_lps_loop c tname gds
         (if take MAX_NAME_LENGTH tname \<noteq> take MAX_NAME_LENGTH (inf_type i)
          then u64 (n + 1) else n))"

definition codes_mapping_count_lps_of_type ::
    "config_lpgroups \<Rightarrow> int list \<Rightarrow> string \<Rightarrow> int result" where
  "codes_mapping_count_lps_of_type c lps tname = count_lps_loop c tname lps 0"

text \<open>\<open>codes_mapping_setup_with_seed_offset\<close>: the static layout and the ROSS globals it
  sets. The configuration is read through \<open>cfg_int\<close> and \<open>cfg_double\<close>, the values of
  \<open>PARAMS\<close> keys (\<open>None\<close> when a key is not there, and then the output variable is not
  written: \<open>message_size0\<close> is what the uninitialised local variable holds).\<close>

record mapping_setup =
  ms_layout :: pe_layout
  ms_mem_factor :: int
  ms_events_per_pe :: int
  ms_ts_end :: real
  ms_message_size :: int
  ms_nRNG_per_lp :: int
  ms_nlp :: int

definition codes_mapping_layout :: "config_lpgroups \<Rightarrow> int \<Rightarrow> pe_layout result" where
  "codes_mapping_layout c pes =
     (if pes = 0 then Inl DivByZero
      else let n = lps_total_groups (lpgroups c) 0
           in Inr \<lparr>lps_per_pe_floor = n div u64 pes, lps_leftover = n mod u64 pes\<rparr>)"

definition codes_mapping_setup_with_seed_offset ::
    "config_lpgroups \<Rightarrow> (string \<Rightarrow> int option) \<Rightarrow> (string \<Rightarrow> real option) \<Rightarrow> int \<Rightarrow> int \<Rightarrow> real
       \<Rightarrow> int \<Rightarrow> int \<Rightarrow> int \<Rightarrow> mapping_setup result" where
  "codes_mapping_setup_with_seed_offset c cfg_int cfg_double pes mynode ts_end nrng
     mem_factor0 message_size0 =
     bind_res (codes_mapping_layout c pes) (\<lambda>p.
       let mem_factor = (case cfg_int ''pe_mem_factor'' of
                           Some m \<Rightarrow> if m > 0 then m else mem_factor0
                         | None \<Rightarrow> mem_factor0);
           end_time = (case cfg_double ''end_time'' of
                         Some t \<Rightarrow> if t > 0 \<and> ts_end = 100000 then t else ts_end
                       | None \<Rightarrow> ts_end);
           size0 = (case cfg_int ''message_size'' of Some m \<Rightarrow> m | None \<Rightarrow> message_size0);
           message_size = (if size0 = 0 then 256 else size0)
       in Inr \<lparr>ms_layout = p, ms_mem_factor = mem_factor,
               ms_events_per_pe = s32 (mem_factor * codes_mapping_get_lps_for_pe p mynode),
               ms_ts_end = end_time, ms_message_size = message_size,
               ms_nRNG_per_lp = nrng + 2,
               ms_nlp = codes_mapping_get_lps_for_pe p mynode\<rparr>)"

text \<open>The seeding loop: for each local LP (its global id) and each of its streams, the
  seed offset passed to \<open>tw_rand_initial_seed\<close>.\<close>

definition seed_offsets :: "int \<Rightarrow> int \<Rightarrow> int \<Rightarrow> int list \<Rightarrow> int list list" where
  "seed_offsets global_nlps offset nrng lps =
     (if offset > 0
      then map (\<lambda>l. map (\<lambda>i. u64 (u64 ((l + u64 (global_nlps * offset)) * nrng) + i))
                     [0..nrng - 1]) lps
      else [])"

subsection \<open>Annotations and canonical ids\<close>

fun anno_by_name_types :: "config_lptype list \<Rightarrow> string \<Rightarrow> string option option" where
  "anno_by_name_types [] tname = None"
| "anno_by_name_types (l # ls) tname =
     (if lpt_name l = tname then Some (lpt_anno l) else anno_by_name_types ls tname)"

fun anno_by_name_groups ::
    "config_lpgroup list \<Rightarrow> string \<Rightarrow> string \<Rightarrow> string option result" where
  "anno_by_name_groups [] gname tname = Inl TwError"
| "anno_by_name_groups (g # gs) gname tname =
     (if lpg_name g = gname
      then (case anno_by_name_types (lptypes g) tname of
              Some a \<Rightarrow> Inr a
            | None \<Rightarrow> anno_by_name_groups gs gname tname)
      else anno_by_name_groups gs gname tname)"

definition codes_mapping_get_annotation_by_name ::
    "config_lpgroups \<Rightarrow> string \<Rightarrow> string \<Rightarrow> string option result" where
  "codes_mapping_get_annotation_by_name c gname tname =
     anno_by_name_groups (lpgroups c) gname tname"

definition codes_mapping_get_annotation_by_lpid ::
    "config_lpgroups \<Rightarrow> int \<Rightarrow> string option result" where
  "codes_mapping_get_annotation_by_lpid c gd =
     bind_res (codes_mapping_get_lp_info c gd) (\<lambda>(i, anno).
       bind_res (rd (lpgroups c) (nat (inf_group_index i))) (\<lambda>g.
         bind_res (rd (lptypes g) (nat (inf_type_index i))) (\<lambda>t. Inr (lpt_anno t))))"

fun anno_map_loop :: "config_anno_map list \<Rightarrow> string \<Rightarrow> config_anno_map option" where
  "anno_map_loop [] name = None"
| "anno_map_loop (m # ms) name = (if name = am_lp_name m then Some m else anno_map_loop ms name)"

definition codes_mapping_get_lp_anno_map ::
    "config_lpgroups \<Rightarrow> string \<Rightarrow> config_anno_map option" where
  "codes_mapping_get_lp_anno_map c name = anno_map_loop (lpannos c) name"

definition get_cid_by_name :: "string \<Rightarrow> string list \<Rightarrow> int" where
  "get_cid_by_name name names = index_from name names 0"

definition get_name_by_cid :: "int \<Rightarrow> string list \<Rightarrow> string option" where
  "get_name_by_cid cid names =
     (if cid < 0 \<or> cid \<ge> int (length names) then None else Some (names ! nat cid))"

definition codes_mapping_get_group_cid_by_name :: "config_lpgroups \<Rightarrow> string \<Rightarrow> int" where
  "codes_mapping_get_group_cid_by_name c name = get_cid_by_name name (group_names c)"

definition codes_mapping_get_group_cid_by_lpid :: "config_lpgroups \<Rightarrow> int \<Rightarrow> int result" where
  "codes_mapping_get_group_cid_by_lpid c gd =
     bind_res (codes_mapping_get_lp_info c gd) (\<lambda>(i, anno).
       Inr (codes_mapping_get_group_cid_by_name c (inf_group i)))"

definition codes_mapping_get_group_name_by_cid :: "config_lpgroups \<Rightarrow> int \<Rightarrow> string option" where
  "codes_mapping_get_group_name_by_cid c cid = get_name_by_cid cid (group_names c)"

definition codes_mapping_get_lp_cid_by_name :: "config_lpgroups \<Rightarrow> string \<Rightarrow> int" where
  "codes_mapping_get_lp_cid_by_name c name = get_cid_by_name name (lp_names c)"

definition codes_mapping_get_lp_cid_by_lpid :: "config_lpgroups \<Rightarrow> int \<Rightarrow> int result" where
  "codes_mapping_get_lp_cid_by_lpid c gd =
     bind_res (codes_mapping_get_lp_info c gd) (\<lambda>(i, anno).
       Inr (codes_mapping_get_lp_cid_by_name c (inf_type i)))"

definition codes_mapping_get_lp_name_by_cid :: "config_lpgroups \<Rightarrow> int \<Rightarrow> string option" where
  "codes_mapping_get_lp_name_by_cid c cid = get_name_by_cid cid (lp_names c)"

definition codes_mapping_get_anno_cid_by_name ::
    "config_lpgroups \<Rightarrow> string option \<Rightarrow> int" where
  "codes_mapping_get_anno_cid_by_name c anno =
     (if anno = None \<or> anno = Some [] then int (length (anno_names c))
      else get_cid_by_name (the anno) (anno_names c))"

definition codes_mapping_get_anno_cid_by_lpid :: "config_lpgroups \<Rightarrow> int \<Rightarrow> int result" where
  "codes_mapping_get_anno_cid_by_lpid c gd =
     bind_res (codes_mapping_get_lp_info c gd) (\<lambda>(i, anno).
       Inr (codes_mapping_get_anno_cid_by_name c (Some anno)))"

definition codes_mapping_get_anno_name_by_cid :: "config_lpgroups \<Rightarrow> int \<Rightarrow> string option" where
  "codes_mapping_get_anno_name_by_cid c cid = get_name_by_cid cid (anno_names c)"

end
