(* ===== verification/Mapping_Ids.thy ===== *)
theory Mapping_Ids
  imports Codes_Mapping
begin

text \<open>
  The numbering of LPs that codes_mapping.c computes. A global id is a mixed-radix code
  \<open>lp_gid\<close> of four coordinates: group, repetition, entry of the group's type list, and
  offset. The theory shows that \<open>codes_mapping_get_lp_info\<close> decodes it, that
  \<open>codes_mapping_get_lp_id\<close> encodes it, and that every id below the number of LPs is
  the code of exactly one LP. The two functions are the provider of the interface
  \<open>lp_numbering\<close>.
\<close>

subsection \<open>The code of an LP\<close>

definition lp_in :: "config_lpgroup list \<Rightarrow> nat \<Rightarrow> int \<Rightarrow> nat \<Rightarrow> int \<Rightarrow> bool" where
  "lp_in gs k rep l off \<longleftrightarrow> k < length gs \<and> 0 \<le> rep \<and> rep < repetitions (gs ! k) \<and>
     l < length (lptypes (gs ! k)) \<and> 0 \<le> off \<and> off < lpt_count (lptypes (gs ! k) ! l)"

definition lp_gid :: "config_lpgroup list \<Rightarrow> nat \<Rightarrow> int \<Rightarrow> nat \<Rightarrow> int \<Rightarrow> int" where
  "lp_gid gs k rep l off =
     groups_size (take k gs) + rep * types_size (lptypes (gs ! k)) +
     types_size (take l (lptypes (gs ! k))) + off"

definition info_of :: "config_lpgroup list \<Rightarrow> nat \<Rightarrow> nat \<Rightarrow> int \<Rightarrow> nat \<Rightarrow> int \<Rightarrow> lp_info" where
  "info_of gs g k rep l off =
     \<lparr>inf_group = lpg_name (gs ! k), inf_group_index = int (g + k),
      inf_type = lpt_name (lptypes (gs ! k) ! l), inf_type_index = int l,
      inf_anno = lpt_anno (lptypes (gs ! k) ! l), inf_rep = rep, inf_offset = off\<rparr>"

definition conf_size :: "config_lpgroups \<Rightarrow> int" where
  "conf_size c = groups_size (lpgroups c)"

subsection \<open>The loops without wrap-around\<close>

lemma count_loop_eq:
  assumes "wf_types ls" "0 \<le> acc" "acc + types_size ls < 2 ^ 64"
  shows "count_loop ls acc = acc + types_size ls"
  using assms
proof (induction ls arbitrary: acc)
  case (Cons l ls)
  have "u64 (acc + lpt_count l) = acc + lpt_count l"
    using Cons.prems types_size_nonneg [of ls] by (intro u64_id) auto
  with Cons show ?case by simp
qed simp

lemma lp_info_types_hit:
  assumes "wf_types ts" "i < length ts" "0 \<le> off" "off < lpt_count (ts ! i)"
    "0 \<le> num" "num + types_size ts < 2 ^ 31"
  shows "lp_info_types ts l num (num + types_size (take i ts) + off) = Some (l + i, ts ! i, off)"
  using assms
proof (induction ts arbitrary: i l num)
  case (Cons t ts)
  have u: "u64 (num + lpt_count t) = num + lpt_count t"
    using Cons.prems types_size_nonneg [of ts] by (intro u64_id) auto
  show ?case
  proof (cases i)
    case 0
    then show ?thesis
      using Cons.prems u types_size_nonneg [of ts] by (simp add: s32_id)
  next
    case (Suc j)
    have "types_size (take j ts) \<ge> 0"
      using Cons.prems(1) by (simp add: wf_types_take types_size_nonneg)
    then have "\<not> num + (lpt_count t + types_size (take j ts)) + off < num + lpt_count t"
      using Cons.prems(3) by linarith
    then show ?thesis
      using Cons.IH [of j "num + lpt_count t" "Suc l"] Cons.prems Suc u
      by (simp add: add.assoc)
  qed
qed simp

lemma type_part_bounds:
  assumes "wf_types ts" "l < length ts" "0 \<le> off" "off < lpt_count (ts ! l)"
  shows "0 \<le> types_size (take l ts) + off" and "types_size (take l ts) + off < types_size ts"
  using assms types_size_take_le [OF assms(1,2)] types_size_nonneg [OF wf_types_take [OF assms(1), of l]]
  by linarith+

lemma rep_part_bounds:
  fixes P :: int
  assumes "0 \<le> rep" "rep < R" "0 \<le> x" "x < P"
  shows "0 \<le> rep * P + x" and "rep * P + x < R * P"
proof -
  show "0 \<le> rep * P + x" using assms by simp
  have "(rep + 1) * P \<le> R * P" using assms by (intro mult_right_mono) auto
  then show "rep * P + x < R * P" using assms by (simp add: algebra_simps)
qed

lemma lp_info_group_hit:
  assumes wf: "0 < repetitions g" "wf_types (lptypes g)"
    and l: "l < length (lptypes g)" "0 \<le> off" "off < lpt_count (lptypes g ! l)"
    and rep: "0 \<le> rep" "rep < repetitions g"
    and t: "0 \<le> t" "t + group_size g < 2 ^ 31"
  shows "lp_info_groups (g # gs) n t
           (t + (rep * types_size (lptypes g) + types_size (take l (lptypes g)) + off)) =
         Inr (info_of (g # gs) n 0 rep l off)"
proof -
  let ?P = "types_size (lptypes g)" and ?x = "types_size (take l (lptypes g)) + off"
  note x = type_part_bounds [OF wf(2) l]
  note r = rep_part_bounds [OF rep x]
  have P: "0 < ?P" "?P \<le> group_size g"
    using x wf(1) mult_right_mono [of 1 "repetitions g" ?P] by (auto simp: group_size_def)
  have gs: "group_size g = ?P * repetitions g" by (simp add: group_size_def)
  have c: "count_loop (lptypes g) 0 = ?P"
    using P t by (subst count_loop_eq) (use wf in auto)
  have u: "u64 (?P * repetitions g) = group_size g" "u64 (group_size g + t) = group_size g + t"
    using P t gs by (auto intro!: u64_id simp: ac_simps)
  have m: "u64 (rep * ?P + ?x) = rep * ?P + ?x"
    using r P t gs by (intro u64_id) (auto simp: ac_simps)
  have d: "(rep * ?P + ?x) div ?P = rep"
    using x P by (simp add: div_pos_pos_trivial)
  have "rep < 2 ^ 31"
    using rep P t gs r(2) x(1) mult_left_mono [of 1 ?P rep] by (simp add: ac_simps)
  then have s: "s32 rep = rep" "u64 rep = rep"
    using rep by (simp_all add: s32_id u64_id)
  have x64: "u64 ?x = ?x" using x P t by (intro u64_id) auto
  have hit: "lp_info_types (lptypes g) 0 0 ?x = Some (l, lptypes g ! l, off)"
    using lp_info_types_hit [OF wf(2) l, of 0 0] P t by simp
  have e: "t + (rep * ?P + types_size (take l (lptypes g)) + off) = t + (rep * ?P + ?x)"
    by simp
  show ?thesis
    unfolding e using c u m d s x64 hit P r gs
    by (simp add: Let_def info_of_def ac_simps)
qed

lemma lp_info_group_skip:
  assumes "0 < repetitions g" "wf_types (lptypes g)" "0 \<le> t" "t + group_size g < 2 ^ 31"
    and "t + group_size g \<le> x"
  shows "lp_info_groups (g # gs) n t x = lp_info_groups gs (Suc n) (t + group_size g) x"
proof -
  let ?P = "types_size (lptypes g)"
  have P: "0 \<le> ?P" "?P \<le> group_size g" and gs: "group_size g = ?P * repetitions g"
    using assms mult_right_mono [of 1 "repetitions g" ?P] types_size_nonneg [of "lptypes g"]
    by (auto simp: group_size_def)
  have c: "count_loop (lptypes g) 0 = ?P"
    using P assms by (subst count_loop_eq) auto
  have "u64 (?P * repetitions g) = group_size g"
    "u64 (group_size g + t) = group_size g + t" "u64 (t + group_size g) = t + group_size g"
    using P assms gs by (auto intro!: u64_id)
  then show ?thesis using c assms(5) by (simp add: Let_def gs)
qed

lemma lp_info_groups_hit:
  assumes "wf_groups gs" "lp_in gs k rep l off" "0 \<le> t" "t + groups_size gs < 2 ^ 31"
  shows "lp_info_groups gs n t (t + lp_gid gs k rep l off) = Inr (info_of gs n k rep l off)"
  using assms
proof (induction gs arbitrary: k n t)
  case (Cons g gs)
  have tot: "t + group_size g < 2 ^ 31" "0 \<le> groups_size gs"
    using Cons.prems groups_size_nonneg [of gs] by auto
  show ?case
  proof (cases k)
    case 0
    then show ?thesis
      using lp_info_group_hit [of g l off rep t gs n] Cons.prems tot
      by (auto simp: lp_in_def lp_gid_def)
  next
    case (Suc j)
    have in': "lp_in gs j rep l off" using Cons.prems(2) Suc by (simp add: lp_in_def)
    have wf_k: "wf_types (lptypes (gs ! j))"
      using Cons.prems(1) in' by (auto simp: lp_in_def wf_groups_def list_all_length)
    have nn: "0 \<le> lp_gid gs j rep l off"
    proof -
      have "0 \<le> groups_size (take j gs)"
        using Cons.prems(1) by (intro groups_size_nonneg)
          (auto simp: wf_groups_def list_all_iff dest: in_set_takeD)
      moreover have "0 \<le> types_size (take l (lptypes (gs ! j)))" "0 \<le> types_size (lptypes (gs ! j))"
        using wf_k by (simp_all add: wf_types_take types_size_nonneg)
      ultimately show ?thesis using in' by (simp add: lp_gid_def lp_in_def)
    qed
    have e: "t + lp_gid (g # gs) k rep l off = t + group_size g + lp_gid gs j rep l off"
      using Suc by (simp add: lp_gid_def)
    have "lp_info_groups (g # gs) n t (t + group_size g + lp_gid gs j rep l off) =
        lp_info_groups gs (Suc n) (t + group_size g) (t + group_size g + lp_gid gs j rep l off)"
      using Cons.prems tot nn by (intro lp_info_group_skip) auto
    also have "\<dots> = Inr (info_of gs (Suc n) j rep l off)"
      using Cons.prems tot in' group_size_nonneg [of g] by (intro Cons.IH) auto
    finally show ?thesis
      unfolding e using Suc by (simp add: info_of_def del: lp_info_groups.simps)
  qed
qed (simp add: lp_in_def)

subsection \<open>Every id is the code of an LP\<close>

lemma types_decode:
  assumes "wf_types ts" "0 \<le> x" "x < types_size ts"
  shows "\<exists>l off. l < length ts \<and> 0 \<le> off \<and> off < lpt_count (ts ! l) \<and>
    x = types_size (take l ts) + off"
  using assms
proof (induction ts arbitrary: x)
  case (Cons t ts)
  show ?case
  proof (cases "x < lpt_count t")
    case True
    then show ?thesis using Cons.prems by (intro exI [of _ 0] exI [of _ x]) auto
  next
    case False
    have "0 \<le> x - lpt_count t" "x - lpt_count t < types_size ts" "wf_types ts"
      using Cons.prems False by auto
    then obtain l off where "l < length ts" "0 \<le> off" "off < lpt_count (ts ! l)"
      "x - lpt_count t = types_size (take l ts) + off"
      using Cons.IH by metis
    then show ?thesis by (intro exI [of _ "Suc l"] exI [of _ off]) auto
  qed
qed simp

lemma groups_decode:
  assumes "wf_groups gs" "0 \<le> x" "x < groups_size gs"
  shows "\<exists>k rep l off. lp_in gs k rep l off \<and> x = lp_gid gs k rep l off"
  using assms
proof (induction gs arbitrary: x)
  case (Cons g gs)
  show ?case
  proof (cases "x < group_size g")
    case True
    let ?P = "types_size (lptypes g)"
    have "0 < repetitions g * ?P" using True Cons.prems by (simp add: group_size_def)
    then have P: "0 < ?P" using Cons.prems by (simp add: zero_less_mult_iff)
    have "x div ?P * ?P \<le> x"
      using P div_mult_mod_eq [of x ?P] pos_mod_sign [of ?P x] by linarith
    also have "x < repetitions g * ?P" using True by (simp add: group_size_def)
    finally have "x div ?P < repetitions g" using P by simp
    then have rep: "0 \<le> x div ?P" "x div ?P < repetitions g"
      using Cons.prems P by (auto simp: pos_imp_zdiv_nonneg_iff)
    obtain l off where "l < length (lptypes g)" "0 \<le> off" "off < lpt_count (lptypes g ! l)"
      "x mod ?P = types_size (take l (lptypes g)) + off"
      using types_decode [of "lptypes g" "x mod ?P"] Cons.prems P by auto
    moreover have "x = x div ?P * ?P + x mod ?P" by simp
    ultimately show ?thesis
      using rep by (intro exI [of _ 0] exI [of _ "x div ?P"] exI [of _ l] exI [of _ off])
        (auto simp: lp_in_def lp_gid_def)
  next
    case False
    then obtain k rep l off where "lp_in gs k rep l off" "x - group_size g = lp_gid gs k rep l off"
      using Cons.IH [of "x - group_size g"] Cons.prems by auto
    then show ?thesis
      by (intro exI [of _ "Suc k"] exI [of _ rep] exI [of _ l] exI [of _ off])
        (auto simp: lp_in_def lp_gid_def)
  qed
qed simp

lemma groups_size_take_le:
  assumes "wf_groups gs" "k < length gs"
  shows "groups_size (take k gs) + group_size (gs ! k) \<le> groups_size gs"
proof -
  have "groups_size gs = groups_size (take k gs) + group_size (gs ! k) + groups_size (drop (Suc k) gs)"
    by (subst id_take_nth_drop [OF assms(2)]) (simp del: append_take_drop_id)
  moreover have "0 \<le> groups_size (drop (Suc k) gs)"
    using assms(1) by (intro groups_size_nonneg)
      (auto simp: wf_groups_def list_all_iff dest: in_set_dropD)
  ultimately show ?thesis by linarith
qed

lemma lp_gid_bounds:
  assumes "wf_groups gs" "lp_in gs k rep l off"
  shows "0 \<le> lp_gid gs k rep l off" and "lp_gid gs k rep l off < groups_size gs"
proof -
  let ?g = "gs ! k"
  have wf: "0 < repetitions ?g" "wf_types (lptypes ?g)" and k: "k < length gs"
    using assms by (auto simp: lp_in_def wf_groups_def list_all_length)
  have x: "0 \<le> types_size (take l (lptypes ?g)) + off"
    "types_size (take l (lptypes ?g)) + off < types_size (lptypes ?g)"
    using type_part_bounds wf assms(2) by (simp_all add: lp_in_def)
  have r: "0 \<le> rep * types_size (lptypes ?g) + (types_size (take l (lptypes ?g)) + off)"
    "rep * types_size (lptypes ?g) + (types_size (take l (lptypes ?g)) + off) < group_size ?g"
    using rep_part_bounds [of rep "repetitions ?g"] x assms(2) by (simp_all add: lp_in_def group_size_def)
  have t: "0 \<le> groups_size (take k gs)"
    using assms(1) by (intro groups_size_nonneg)
      (auto simp: wf_groups_def list_all_iff dest: in_set_takeD)
  show "0 \<le> lp_gid gs k rep l off" using r t by (simp add: lp_gid_def)
  show "lp_gid gs k rep l off < groups_size gs"
    using r groups_size_take_le [OF assms(1) k] by (simp add: lp_gid_def)
qed

subsection \<open>Encoding by names\<close>

definition type_matches :: "string \<Rightarrow> string option \<Rightarrow> int \<Rightarrow> config_lptype \<Rightarrow> bool" where
  "type_matches tname anno ign l \<longleftrightarrow>
     lpt_name l = tname \<and> (ign \<noteq> 0 \<or> cmp_anno anno (lpt_anno l))"

lemma cmp_anno_eq [simp]: "cmp_anno a b \<longleftrightarrow> a = b"
  by (auto simp: cmp_anno_def split: option.splits)

lemma lp_id_types_step:
  "lp_id_types (t # ts) tname anno ign off acc =
     (if type_matches tname anno ign t
      then (if off \<ge> lpt_count t then Inl TwError else Inr acc)
      else lp_id_types ts tname anno ign off (u64 (acc + lpt_count t)))"
  by (simp add: type_matches_def)

lemma lp_id_types_Inr:
  assumes "wf_types ts" "0 \<le> acc" "acc + types_size ts < 2 ^ 31"
    and "lp_id_types ts tname anno ign off acc = Inr n"
  obtains l where "l < length ts" "type_matches tname anno ign (ts ! l)"
    "\<forall>j < l. \<not> type_matches tname anno ign (ts ! j)" "off < lpt_count (ts ! l)"
    "n = acc + types_size (take l ts)"
  using assms
proof (induction ts arbitrary: acc thesis)
  case (Cons t ts)
  show ?case
  proof (cases "type_matches tname anno ign t")
    case True
    then show ?thesis
      using Cons.prems by (intro Cons.prems(1) [of 0]) (auto simp: type_matches_def split: if_splits)
  next
    case False
    have u: "u64 (acc + lpt_count t) = acc + lpt_count t"
      using Cons.prems types_size_nonneg [of ts] by (intro u64_id) auto
    obtain l where "l < length ts" "type_matches tname anno ign (ts ! l)"
      "\<forall>j < l. \<not> type_matches tname anno ign (ts ! j)" "off < lpt_count (ts ! l)"
      "n = acc + lpt_count t + types_size (take l ts)"
      using Cons.IH [of "acc + lpt_count t"] Cons.prems False u
      by (auto simp: type_matches_def split: if_splits)
    then show ?thesis
      using False by (intro Cons.prems(1) [of "Suc l"]) (auto simp: less_Suc_eq_0_disj)
  qed
qed simp

lemma lp_id_types_find:
  assumes "wf_types ts" "0 \<le> acc" "acc + types_size ts < 2 ^ 31"
    and "l < length ts" "type_matches tname anno ign (ts ! l)"
    and "\<forall>j < l. \<not> type_matches tname anno ign (ts ! j)" "off < lpt_count (ts ! l)"
  shows "lp_id_types ts tname anno ign off acc = Inr (acc + types_size (take l ts))"
  using assms
proof (induction ts arbitrary: acc l)
  case (Cons t ts)
  show ?case
  proof (cases l)
    case 0
    then show ?thesis using Cons.prems by (simp add: type_matches_def)
  next
    case (Suc j)
    have u: "u64 (acc + lpt_count t) = acc + lpt_count t"
      using Cons.prems types_size_nonneg [of ts] by (intro u64_id) auto
    have no: "\<not> type_matches tname anno ign t"
      and less: "\<forall>i < j. \<not> type_matches tname anno ign (ts ! i)"
      using Cons.prems(6) Suc by (auto simp: less_Suc_eq_0_disj)
    have "lp_id_types ts tname anno ign off (acc + lpt_count t) =
        Inr (acc + lpt_count t + types_size (take j ts))"
      using Cons.prems Suc by (intro Cons.IH less) auto
    with no u Suc show ?thesis by (simp add: lp_id_types_step del: lp_id_types.simps)
  qed
qed simp

declare lp_id_groups.simps(2) [simp del] lp_info_groups.simps(2) [simp del]

lemma lp_id_groups_Inr:
  assumes "wf_groups gs" "0 \<le> t" "t + groups_size gs < 2 ^ 31" "0 \<le> rep" "0 \<le> off"
    and "lp_id_groups gs gname tname anno ign rep off t = Inr gd"
  obtains k l where "lp_in gs k rep l off" "lpg_name (gs ! k) = gname"
    "\<forall>j < k. lpg_name (gs ! j) \<noteq> gname"
    "type_matches tname anno ign (lptypes (gs ! k) ! l)"
    "\<forall>j < l. \<not> type_matches tname anno ign (lptypes (gs ! k) ! j)"
    "gd = t + lp_gid gs k rep l off"
  using assms
proof (induction gs arbitrary: t thesis)
  case (Cons g gs)
  let ?P = "types_size (lptypes g)"
  have P: "0 \<le> ?P" "?P \<le> group_size g" "0 \<le> groups_size gs"
    using Cons.prems mult_right_mono [of 1 "repetitions g" ?P] types_size_nonneg [of "lptypes g"]
    by (auto simp: group_size_def groups_size_nonneg)
  have c: "count_loop (lptypes g) 0 = ?P"
    using P Cons.prems by (subst count_loop_eq) auto
  have u: "u64 (t + repetitions g * ?P) = t + group_size g"
    using P Cons.prems by (subst u64_id) (auto simp: group_size_def)
  show ?case
  proof (cases "lpg_name g = gname")
    case True
    then obtain n where n: "rep < repetitions g"
      "lp_id_types (lptypes g) tname anno ign off 0 = Inr n"
      "gd = u64 (t + (?P * rep + n + off))"
      using Cons.prems(7) c by (auto simp: lp_id_groups.simps(2) result_iff split: if_splits)
    obtain l where l: "l < length (lptypes g)" "type_matches tname anno ign (lptypes g ! l)"
      "\<forall>j < l. \<not> type_matches tname anno ign (lptypes g ! j)" "off < lpt_count (lptypes g ! l)"
      "n = types_size (take l (lptypes g))"
      using lp_id_types_Inr [OF _ _ _ n(2)] Cons.prems P by auto
    have in0: "lp_in (g # gs) 0 rep l off"
      using l n(1) Cons.prems by (simp add: lp_in_def)
    have "gd = t + lp_gid (g # gs) 0 rep l off"
      using lp_gid_bounds [OF Cons.prems(2) in0] Cons.prems n(3) l(5)
      by (simp add: lp_gid_def u64_id ac_simps)
    with in0 l True show ?thesis by (intro Cons.prems(1) [of 0 l]) auto
  next
    case False
    then have "lp_id_groups gs gname tname anno ign rep off (t + group_size g) = Inr gd"
      using Cons.prems(7) c u by (simp add: lp_id_groups.simps(2))
    then obtain k l where kl: "lp_in gs k rep l off" "lpg_name (gs ! k) = gname"
      "\<forall>j < k. lpg_name (gs ! j) \<noteq> gname"
      "type_matches tname anno ign (lptypes (gs ! k) ! l)"
      "\<forall>j < l. \<not> type_matches tname anno ign (lptypes (gs ! k) ! j)"
      "gd = t + group_size g + lp_gid gs k rep l off"
      using Cons.IH [of "t + group_size g"] Cons.prems P by auto
    with False show ?thesis
      by (intro Cons.prems(1) [of "Suc k" l])
        (auto simp: lp_in_def lp_gid_def less_Suc_eq_0_disj)
  qed
qed simp

lemma lp_id_groups_find:
  assumes "wf_groups gs" "0 \<le> t" "t + groups_size gs < 2 ^ 31"
    and "lp_in gs k rep l off" "\<forall>j < k. lpg_name (gs ! j) \<noteq> lpg_name (gs ! k)"
    and "type_matches tname anno ign (lptypes (gs ! k) ! l)"
    and "\<forall>j < l. \<not> type_matches tname anno ign (lptypes (gs ! k) ! j)"
  shows "lp_id_groups gs (lpg_name (gs ! k)) tname anno ign rep off t =
    Inr (t + lp_gid gs k rep l off)"
  using assms
proof (induction gs arbitrary: t k)
  case (Cons g gs)
  let ?P = "types_size (lptypes g)"
  have P: "0 \<le> ?P" "?P \<le> group_size g" "0 \<le> groups_size gs"
    using Cons.prems mult_right_mono [of 1 "repetitions g" ?P] types_size_nonneg [of "lptypes g"]
    by (auto simp: group_size_def groups_size_nonneg)
  have c: "count_loop (lptypes g) 0 = ?P"
    using P Cons.prems by (subst count_loop_eq) auto
  have u: "u64 (t + repetitions g * ?P) = t + group_size g"
    using P Cons.prems by (subst u64_id) (auto simp: group_size_def)
  show ?case
  proof (cases k)
    case 0
    then have "lp_id_types (lptypes g) tname anno ign off 0 =
        Inr (types_size (take l (lptypes g)))"
      using lp_id_types_find [of "lptypes g" 0 l tname anno ign off] Cons.prems P
      by (auto simp: lp_in_def)
    then show ?thesis
      using lp_gid_bounds [OF Cons.prems(1,4)] Cons.prems c 0
      by (simp add: lp_id_groups.simps(2) lp_in_def lp_gid_def u64_id ac_simps)
  next
    case (Suc j)
    have "lpg_name g \<noteq> lpg_name (gs ! j)" using Cons.prems(5) Suc by auto
    moreover have "lp_id_groups gs (lpg_name (gs ! j)) tname anno ign rep off (t + group_size g) =
        Inr (t + group_size g + lp_gid gs j rep l off)"
      using Cons.prems Suc P by (intro Cons.IH) (auto simp: lp_in_def)
    ultimately show ?thesis
      using c u Suc by (simp add: lp_id_groups.simps(2) lp_gid_def)
  qed
qed (simp add: lp_in_def)

subsection \<open>The interface\<close>

text \<open>What the clients of the mapping use: ids below \<open>size\<close> name an LP, and the id
  obtained for a group, type, repetition and offset names that LP.\<close>

locale lp_numbering =
  fixes wf :: "'c \<Rightarrow> bool"
    and size :: "'c \<Rightarrow> int"
    and info :: "'c \<Rightarrow> int \<Rightarrow> lp_info result"
    and lpid :: "'c \<Rightarrow> string \<Rightarrow> string \<Rightarrow> string option \<Rightarrow> int \<Rightarrow> int \<Rightarrow> int \<Rightarrow> int result"
  assumes info_defined: "wf c \<Longrightarrow> 0 \<le> gd \<Longrightarrow> gd < size c \<Longrightarrow> \<exists>i. info c gd = Inr i"
    and lpid_range: "wf c \<Longrightarrow> lpid c g t a ign rep off = Inr gd \<Longrightarrow> 0 \<le> gd \<and> gd < size c"
    and lpid_info: "wf c \<Longrightarrow> lpid c g t a ign rep off = Inr gd \<Longrightarrow> info c gd = Inr i \<Longrightarrow>
      inf_group i = g \<and> inf_type i = t \<and> inf_rep i = rep \<and> inf_offset i = off \<and>
      (ign = 0 \<longrightarrow> inf_anno i = a)"
begin

lemma lpid_names:
  assumes "wf c" "lpid c g t a ign rep off = Inr gd"
  obtains i where "info c gd = Inr i" "inf_group i = g" "inf_type i = t" "inf_rep i = rep"
    "inf_offset i = off" "ign = 0 \<longrightarrow> inf_anno i = a"
  using info_defined lpid_range [OF assms] lpid_info [OF assms] assms(1) by metis

lemma lpid_inj:
  assumes "wf c" "lpid c g t a ign rep off = Inr gd" "lpid c g' t' a' ign' rep' off' = Inr gd"
  shows "g' = g \<and> t' = t \<and> rep' = rep \<and> off' = off \<and> (ign = 0 \<and> ign' = 0 \<longrightarrow> a' = a)"
  using lpid_names [OF assms(1,2)] lpid_info [OF assms(1,3)] by metis

end

lemma get_lp_info2_hit:
  assumes "wf_conf c" "lp_in (lpgroups c) k rep l off"
  shows "codes_mapping_get_lp_info2 c (lp_gid (lpgroups c) k rep l off) =
    Inr (info_of (lpgroups c) 0 k rep l off)"
  using lp_info_groups_hit [of "lpgroups c" k rep l off 0 0] assms
  by (simp add: codes_mapping_get_lp_info2_def wf_conf_def)

lemma conf_decode:
  assumes "wf_conf c" "0 \<le> gd" "gd < conf_size c"
  obtains k rep l off where "lp_in (lpgroups c) k rep l off" "gd = lp_gid (lpgroups c) k rep l off"
  using groups_decode [of "lpgroups c" gd] assms by (auto simp: wf_conf_def conf_size_def)

lemma get_lp_id_Inr:
  assumes "wf_conf c" "codes_mapping_get_lp_id c (Some g) (Some t) a ign rep off = Inr gd"
  obtains k l where "lp_in (lpgroups c) k rep l off" "lpg_name (lpgroups c ! k) = g"
    "type_matches t a ign (lptypes (lpgroups c ! k) ! l)"
    "\<forall>j < l. \<not> type_matches t a ign (lptypes (lpgroups c ! k) ! j)"
    "gd = lp_gid (lpgroups c) k rep l off"
proof -
  have "0 \<le> rep" "0 \<le> off" "lp_id_groups (lpgroups c) g t a ign rep off 0 = Inr gd"
    using assms(2) by (auto simp: codes_mapping_get_lp_id_def split: if_splits)
  then show ?thesis
    using lp_id_groups_Inr [of "lpgroups c" 0 rep off g t a ign gd] assms(1) that
    by (auto simp: wf_conf_def)
qed

lemma conf_names_before:
  "wf_conf c \<Longrightarrow> k < length (lpgroups c) \<Longrightarrow>
     \<forall>j < k. lpg_name (lpgroups c ! j) \<noteq> lpg_name (lpgroups c ! k)"
  using distinct_map_nth_neq by (fastforce simp: wf_conf_def)

interpretation ids: lp_numbering wf_conf conf_size codes_mapping_get_lp_info2
  "\<lambda>c g t. codes_mapping_get_lp_id c (Some g) (Some t)"
proof (unfold_locales, goal_cases)
  case (1 c gd)
  then show ?case by (metis conf_decode get_lp_info2_hit)
next
  case (2 c g t a ign rep off gd)
  then show ?case
    by (metis get_lp_id_Inr lp_gid_bounds wf_conf_def conf_size_def)
next
  case (3 c g t a ign rep off gd i)
  obtain k l where kl: "lp_in (lpgroups c) k rep l off" "lpg_name (lpgroups c ! k) = g"
    "type_matches t a ign (lptypes (lpgroups c ! k) ! l)"
    "gd = lp_gid (lpgroups c) k rep l off"
    using get_lp_id_Inr [OF 3(1,2)] by metis
  then have "i = info_of (lpgroups c) 0 k rep l off"
    using get_lp_info2_hit [OF 3(1) kl(1)] 3(3) by simp
  with kl show ?case by (auto simp: info_of_def type_matches_def)
qed

subsection \<open>Properties\<close>

text \<open>C15: the id that \<open>codes_mapping_get_lp_id\<close> returns for a group, LP type, annotation,
  repetition and offset is a valid global id, and looking that id up gives the group,
  type, repetition and offset back (and the annotation, unless it was ignored).\<close>

theorem lp_id_then_info:
  assumes "wf_conf c"
    and "codes_mapping_get_lp_id c (Some g) (Some t) a ign rep off = Inr gd"
  shows "0 \<le> gd \<and> gd < conf_size c \<and>
    (\<exists>i. codes_mapping_get_lp_info2 c gd = Inr i \<and> inf_group i = g \<and> inf_type i = t \<and>
         inf_rep i = rep \<and> inf_offset i = off \<and> (ign = 0 \<longrightarrow> inf_anno i = a))"
  using ids.lpid_range [OF assms] ids.lpid_names [OF assms] by metis

lemma ex_lp_id:
  "codes_mapping_get_lp_id ex_conf (Some ''STORAGE_GRP'') (Some ''server'') (Some ''io'') 0 1 2 =
    Inr 22"
  by code_simp

theorem lp_id_then_info_witness:
  "codes_mapping_get_lp_id ex_conf (Some ''STORAGE_GRP'') (Some ''server'') (Some ''io'') 0 1 2 =
     Inr 22 \<and>
   (\<exists>i. codes_mapping_get_lp_info2 ex_conf 22 = Inr i \<and> inf_type i = ''server'' \<and> inf_rep i = 1)"
  using lp_id_then_info [OF ex_conf_wf ex_lp_id] ex_lp_id by auto

text \<open>C3: every id below the number of LPs is the id of exactly the LP that
  \<open>codes_mapping_get_lp_info2\<close> describes: asking for the id of that group, type,
  annotation, repetition and offset returns it, when no two entries of a group agree in
  name and annotation.\<close>

theorem lp_info_then_id:
  assumes "wf_conf c" and "0 \<le> gd" and "gd < conf_size c"
    and "list_all (\<lambda>g. distinct (map (\<lambda>l. (lpt_name l, lpt_anno l)) (lptypes g))) (lpgroups c)"
  shows "\<exists>i. codes_mapping_get_lp_info2 c gd = Inr i \<and>
    codes_mapping_get_lp_id c (Some (inf_group i)) (Some (inf_type i)) (inf_anno i) 0
      (inf_rep i) (inf_offset i) = Inr gd"
proof -
  obtain k rep l off where lp: "lp_in (lpgroups c) k rep l off"
    and gd: "gd = lp_gid (lpgroups c) k rep l off"
    using conf_decode [OF assms(1-3)] by blast
  let ?ts = "lptypes (lpgroups c ! k)"
  have k: "k < length (lpgroups c)" and l: "l < length ?ts" "0 \<le> off" "0 \<le> rep"
    using lp by (auto simp: lp_in_def)
  have "distinct (map (\<lambda>l. (lpt_name l, lpt_anno l)) ?ts)"
    using assms(4) k by (simp add: list_all_length)
  then have "\<forall>j < l. \<not> type_matches (lpt_name (?ts ! l)) (lpt_anno (?ts ! l)) 0 (?ts ! j)"
    using distinct_map_nth_neq [OF _ l(1)] by (fastforce simp: type_matches_def)
  moreover have "\<forall>j < k. lpg_name (lpgroups c ! j) \<noteq> lpg_name (lpgroups c ! k)"
    using conf_names_before [OF assms(1) k] .
  ultimately have "codes_mapping_get_lp_id c (Some (lpg_name (lpgroups c ! k)))
      (Some (lpt_name (?ts ! l))) (lpt_anno (?ts ! l)) 0 rep off = Inr gd"
    using lp_id_groups_find [of "lpgroups c" 0 k rep l off] lp gd l assms(1)
    by (simp add: codes_mapping_get_lp_id_def wf_conf_def type_matches_def)
  then show ?thesis
    using get_lp_info2_hit [OF assms(1) lp] gd by (simp add: info_of_def)
qed

theorem lp_info_then_id_witness:
  "\<exists>i. codes_mapping_get_lp_info2 ex_conf 17 = Inr i \<and>
    codes_mapping_get_lp_id ex_conf (Some (inf_group i)) (Some (inf_type i)) (inf_anno i) 0
      (inf_rep i) (inf_offset i) = Inr 17"
  by (rule lp_info_then_id [OF ex_conf_wf]) (simp_all add: ex_conf_def conf_size_def group_size_def)

text \<open>two requests to \<open>codes_mapping_get_lp_id\<close> that return the same global id asked
  for the same group, type, repetition and offset: ids are never shared.\<close>

theorem lp_id_injective:
  assumes "wf_conf c"
    and "codes_mapping_get_lp_id c (Some g) (Some t) a ign rep off = Inr gd"
    and "codes_mapping_get_lp_id c (Some g') (Some t') a' ign' rep' off' = Inr gd"
  shows "g' = g \<and> t' = t \<and> rep' = rep \<and> off' = off \<and> (ign = 0 \<and> ign' = 0 \<longrightarrow> a' = a)"
  by (rule ids.lpid_inj [OF assms])

theorem lp_id_injective_witness:
  "codes_mapping_get_lp_id ex_conf (Some ''STORAGE_GRP'') (Some ''server'') (Some ''io'') 0 1 2 =
     Inr 22 \<and> (2 :: int) = 2"
  using lp_id_injective [OF ex_conf_wf ex_lp_id ex_lp_id] ex_lp_id by simp

end
