(* ===== verification/Mapping_Relative.thy ===== *)
theory Mapping_Relative
  imports Mapping_Ids
begin

text \<open>
  Relative ids: the numbering of the LPs of one type (and, on request, one annotation),
  within the whole configuration or within a group.
  \<open>codes_mapping_get_lpid_from_relative\<close> inverts \<open>codes_mapping_get_lp_relative_id\<close>.
  The proof follows the plan of the global ids: the sizes of the matching entries take
  the place of the sizes of all entries.
\<close>

subsection \<open>Sizes of the matching entries\<close>

definition rel_match :: "string \<Rightarrow> string option \<Rightarrow> int \<Rightarrow> config_lptype \<Rightarrow> bool" where
  "rel_match tname anno aw l \<longleftrightarrow> tname = lpt_name l \<and> (aw = 0 \<or> anno = lpt_anno l)"

definition rel_size :: "string \<Rightarrow> string option \<Rightarrow> int \<Rightarrow> config_lptype list \<Rightarrow> int" where
  "rel_size tname anno aw ts = types_size (filter (rel_match tname anno aw) ts)"

definition rel_groups_size ::
    "string \<Rightarrow> string option \<Rightarrow> int \<Rightarrow> config_lpgroup list \<Rightarrow> int" where
  "rel_groups_size tname anno aw gs =
     (\<Sum>g \<leftarrow> gs. repetitions g * rel_size tname anno aw (lptypes g))"

lemma rel_size_simps [simp]:
  "rel_size tname anno aw [] = 0"
  "rel_size tname anno aw (l # ls) =
     (if rel_match tname anno aw l then lpt_count l else 0) + rel_size tname anno aw ls"
  "rel_size tname anno aw (ks @ ls) = rel_size tname anno aw ks + rel_size tname anno aw ls"
  by (simp_all add: rel_size_def)

lemma rel_groups_size_simps [simp]:
  "rel_groups_size tname anno aw [] = 0"
  "rel_groups_size tname anno aw (g # gs) =
     repetitions g * rel_size tname anno aw (lptypes g) + rel_groups_size tname anno aw gs"
  by (simp_all add: rel_groups_size_def)

lemma rel_size_bounds:
  "wf_types ts \<Longrightarrow> 0 \<le> rel_size tname anno aw ts \<and> rel_size tname anno aw ts \<le> types_size ts"
  by (induction ts) auto

lemma rel_group_bounds:
  assumes "0 < repetitions g" "wf_types (lptypes g)"
  shows "0 \<le> repetitions g * rel_size tname anno aw (lptypes g)"
    and "repetitions g * rel_size tname anno aw (lptypes g) \<le> group_size g"
    and "rel_size tname anno aw (lptypes g) \<le> group_size g"
proof -
  note b = rel_size_bounds [OF assms(2), of tname anno aw]
  show "0 \<le> repetitions g * rel_size tname anno aw (lptypes g)"
    using b assms(1) by simp
  show le: "repetitions g * rel_size tname anno aw (lptypes g) \<le> group_size g"
    using b assms(1) by (simp add: group_size_def)
  have "1 * rel_size tname anno aw (lptypes g) \<le> repetitions g * rel_size tname anno aw (lptypes g)"
    using b assms(1) by (intro mult_right_mono) auto
  with le show "rel_size tname anno aw (lptypes g) \<le> group_size g" by simp
qed

lemma rel_groups_bounds:
  "wf_groups gs \<Longrightarrow> 0 \<le> rel_groups_size tname anno aw gs \<and>
     rel_groups_size tname anno aw gs \<le> groups_size gs"
proof (induction gs)
  case (Cons g gs)
  then show ?case using rel_group_bounds [of g tname anno aw] by auto
qed simp

subsection \<open>The counting loops\<close>

lemma rel_types_step:
  "rel_types (l # ls) tname anno aw n =
     rel_types ls tname anno aw (if rel_match tname anno aw l then s32 (n + lpt_count l) else n)"
  by (simp add: rel_match_def)

lemma rel_types_eq:
  assumes "wf_types ts" "0 \<le> n" "n + types_size ts < 2 ^ 31"
  shows "rel_types ts tname anno aw n = n + rel_size tname anno aw ts"
  using assms
proof (induction ts arbitrary: n)
  case (Cons l ls)
  have "0 \<le> types_size ls" using Cons.prems by (auto intro: types_size_nonneg)
  then have s: "s32 (n + lpt_count l) = n + lpt_count l"
    using Cons.prems by (intro s32_id) auto
  show ?case
    using Cons.IH [of "n + lpt_count l"] Cons.IH [of n] Cons.prems \<open>0 \<le> types_size ls\<close> s
    by (simp add: rel_types_step del: rel_types.simps(2))
qed simp

lemma rel_groups_eq:
  assumes "wf_groups gs" "0 \<le> n" "n + groups_size gs < 2 ^ 31"
  shows "rel_groups gs tname anno aw n = n + rel_groups_size tname anno aw gs"
  using assms
proof (induction gs arbitrary: n)
  case (Cons g gs)
  let ?m = "rel_size tname anno aw (lptypes g)"
  have g: "0 < repetitions g" "wf_types (lptypes g)" and n: "0 \<le> groups_size gs"
    using Cons.prems groups_size_nonneg [of gs] by auto
  note b = rel_group_bounds [OF g, of tname anno aw]
  have P: "types_size (lptypes g) \<le> group_size g"
    using types_size_nonneg [OF g(2)] g(1) mult_right_mono [of 1 "repetitions g" "types_size (lptypes g)"]
    by (simp add: group_size_def)
  have r: "rel_types (lptypes g) tname anno aw 0 = ?m"
    using rel_types_eq [OF g(2), of 0] P Cons.prems n by simp
  have "s32 (n + ?m * repetitions g) = n + ?m * repetitions g"
    using b Cons.prems n by (intro s32_id) (auto simp: ac_simps)
  moreover have "n + ?m * repetitions g + groups_size gs < 2 ^ 31"
    using b Cons.prems by (simp add: ac_simps)
  ultimately show ?case
    using Cons.IH [of "n + ?m * repetitions g"] Cons.prems r b by (simp add: ac_simps)
qed simp

subsection \<open>Back from a relative id\<close>

lemma from_rel_types_step:
  "from_rel_types (l # ls) tname anno aw gd rem =
     (if rel_match tname anno aw l
      then (if rem < lpt_count l then Some (u64 (gd + u64 rem))
            else from_rel_types ls tname anno aw (u64 (gd + lpt_count l)) (s32 (rem - lpt_count l)))
      else from_rel_types ls tname anno aw (u64 (gd + lpt_count l)) rem)"
  by (simp add: rel_match_def)

lemma from_rel_types_hit:
  assumes "wf_types ts" "l < length ts" "rel_match tname anno aw (ts ! l)"
    and "0 \<le> off" "off < lpt_count (ts ! l)" "0 \<le> gd" "gd + types_size ts < 2 ^ 31"
  shows "from_rel_types ts tname anno aw gd (rel_size tname anno aw (take l ts) + off) =
    Some (gd + types_size (take l ts) + off)"
  using assms
proof (induction ts arbitrary: l gd)
  case (Cons t ts)
  have t: "0 \<le> types_size ts" "0 < lpt_count t" "wf_types ts"
    using Cons.prems(1) by (auto intro: types_size_nonneg)
  show ?case
  proof (cases l)
    case 0
    then have "u64 off = off" "u64 (gd + off) = gd + off"
      using Cons.prems t by (auto intro!: u64_id)
    then show ?thesis
      using Cons.prems 0 by (simp add: from_rel_types_step del: from_rel_types.simps(2))
  next
    case (Suc j)
    let ?m = "rel_size tname anno aw (take j ts)"
    have b: "0 \<le> ?m" "?m \<le> types_size (take j ts)"
      using rel_size_bounds [OF wf_types_take [OF t(3)]] by auto
    have "types_size (take j ts) + off < types_size ts"
      using type_part_bounds [OF t(3)] Cons.prems Suc by auto
    then have s: "s32 (?m + off) = ?m + off"
      using b Cons.prems t by (intro s32_id) auto
    have u: "u64 (gd + lpt_count t) = gd + lpt_count t"
      using Cons.prems t by (intro u64_id) auto
    have "from_rel_types ts tname anno aw (gd + lpt_count t) (?m + off) =
        Some (gd + lpt_count t + types_size (take j ts) + off)"
      using Cons.prems Suc t by (intro Cons.IH) auto
    then show ?thesis
      using Suc s u b(1) Cons.prems(4)
      by (simp add: from_rel_types_step add.assoc del: from_rel_types.simps(2))
  qed
qed simp

declare from_rel_groups.simps(2) [simp del]

text \<open>The branch of the loop for the group that holds the LP.\<close>

lemma from_rel_group_hit:
  assumes g: "0 < repetitions g" "wf_types (lptypes g)"
    and l: "l < length (lptypes g)" "rel_match tname anno aw (lptypes g ! l)"
      "0 \<le> off" "off < lpt_count (lptypes g ! l)"
    and rep: "0 \<le> rep" "rep < repetitions g"
    and n: "0 \<le> n" "n + group_size g < 2 ^ 31" "0 \<le> t" "t + group_size g < 2 ^ 31"
    and gname: "gname = None \<or> gname = Some (lpg_name g)"
  shows "from_rel_groups (g # gs)
           (n + (rep * rel_size tname anno aw (lptypes g) +
                 (rel_size tname anno aw (take l (lptypes g)) + off))) gname tname anno aw n t =
         Inr (t + lp_gid (g # gs) 0 rep l off)"
proof -
  let ?M = "rel_size tname anno aw (lptypes g)" and ?P = "types_size (lptypes g)"
  let ?x = "rel_size tname anno aw (take l (lptypes g)) + off"
  have x: "0 \<le> ?x" "?x < ?M"
  proof -
    note w = wf_types_take [OF g(2), of l] wf_types_drop [OF g(2), of "Suc l"]
    show "0 \<le> ?x" using rel_size_bounds [OF w(1)] l(3) by (meson add_nonneg_nonneg)
    have "?M = rel_size tname anno aw
        (take l (lptypes g) @ lptypes g ! l # drop (Suc l) (lptypes g))"
      by (rule arg_cong [OF id_take_nth_drop [OF l(1)]])
    also have "\<dots> = rel_size tname anno aw (take l (lptypes g)) + lpt_count (lptypes g ! l) +
        rel_size tname anno aw (drop (Suc l) (lptypes g))"
      using l(2) by (simp only: rel_size_simps if_True add.assoc)
    finally have "?M = rel_size tname anno aw (take l (lptypes g)) + lpt_count (lptypes g ! l) +
        rel_size tname anno aw (drop (Suc l) (lptypes g))" .
    then show "?x < ?M" using rel_size_bounds [OF w(2), of tname anno aw] l(4) by linarith
  qed
  note r = rep_part_bounds [OF rep x]
  note b = rel_group_bounds [OF g, of tname anno aw]
  have P: "0 \<le> ?P" "?P \<le> group_size g"
    using types_size_nonneg [OF g(2)] g(1) mult_right_mono [of 1 "repetitions g" ?P]
    by (auto simp: group_size_def)
  have c: "count_loop (lptypes g) 0 = ?P" using P n by (subst count_loop_eq) (auto simp: g)
  have m: "rel_types (lptypes g) tname anno aw 0 = ?M"
    using rel_types_eq [OF g(2), of 0] P n by simp
  have s: "s32 (n + repetitions g * ?M) = n + repetitions g * ?M"
    "s32 (rep * ?M + ?x) = rep * ?M + ?x" "s32 ?x = ?x"
    using b n r x by (auto intro!: s32_id)
  have d: "c_div (rep * ?M + ?x) ?M = rep"
    using r x by (simp add: c_div_nonneg div_pos_pos_trivial)
  have base: "0 \<le> t + ?P * rep" "t + ?P * rep + ?P \<le> t + group_size g"
  proof -
    show "0 \<le> t + ?P * rep" using P n rep by simp
    have "(rep + 1) * ?P \<le> repetitions g * ?P" using rep P by (intro mult_right_mono) auto
    then show "t + ?P * rep + ?P \<le> t + group_size g" by (simp add: group_size_def algebra_simps)
  qed
  have u: "u64 (t + ?P * rep) = t + ?P * rep"
    using base P n by (intro u64_id) auto
  have "from_rel_types (lptypes g) tname anno aw (t + ?P * rep) ?x =
      Some (t + ?P * rep + types_size (take l (lptypes g)) + off)"
    using base n by (intro from_rel_types_hit [OF g(2) l(1,2,3,4)]) auto
  then show ?thesis
    using gname r x c m s d u
    by (simp add: from_rel_groups.simps(2) Let_def lp_gid_def ac_simps)
qed

lemma from_rel_groups_all:
  assumes "wf_groups gs" "lp_in gs k rep l off" "rel_match tname anno aw (lptypes (gs ! k) ! l)"
    and "0 \<le> n" "n + groups_size gs < 2 ^ 31" "0 \<le> t" "t + groups_size gs < 2 ^ 31"
  shows "from_rel_groups gs
           (n + (rel_groups_size tname anno aw (take k gs) +
             (rep * rel_size tname anno aw (lptypes (gs ! k)) +
              (rel_size tname anno aw (take l (lptypes (gs ! k))) + off)))) None tname anno aw n t =
         Inr (t + lp_gid gs k rep l off)"
  using assms
proof (induction gs arbitrary: k n t)
  case (Cons g gs)
  have g: "0 < repetitions g" "wf_types (lptypes g)" and gs: "0 \<le> groups_size gs"
    using Cons.prems groups_size_nonneg [of gs] by auto
  show ?case
  proof (cases k)
    case 0
    then show ?thesis
      using from_rel_group_hit [OF g, of l tname anno aw off rep n t None gs] Cons.prems gs
      by (simp add: lp_in_def)
  next
    case (Suc j)
    let ?M = "rel_size tname anno aw (lptypes g)" and ?P = "types_size (lptypes g)"
    let ?y = "rel_groups_size tname anno aw (take j gs) +
      (rep * rel_size tname anno aw (lptypes (gs ! j)) +
       (rel_size tname anno aw (take l (lptypes (gs ! j))) + off))"
    have in': "lp_in gs j rep l off" using Cons.prems Suc by (simp add: lp_in_def)
    note b = rel_group_bounds [OF g, of tname anno aw]
    have P: "0 \<le> ?P" "?P \<le> group_size g"
      using types_size_nonneg [OF g(2)] g(1) mult_right_mono [of 1 "repetitions g" ?P]
      by (auto simp: group_size_def)
    have y: "0 \<le> ?y"
    proof -
      have "wf_types (lptypes (gs ! j))"
        using Cons.prems(1) in' by (auto simp: lp_in_def wf_groups_def list_all_length)
      moreover have "wf_groups (take j gs)"
        using Cons.prems(1) by (auto simp: wf_groups_def list_all_iff dest: in_set_takeD)
      ultimately show ?thesis
        using in' rel_size_bounds wf_types_take rel_groups_bounds
        by (auto simp: lp_in_def intro!: add_nonneg_nonneg mult_nonneg_nonneg)
    qed
    have c: "count_loop (lptypes g) 0 = ?P" using P Cons.prems gs by (subst count_loop_eq) auto
    have m: "rel_types (lptypes g) tname anno aw 0 = ?M"
      using rel_types_eq [OF g(2), of 0] P Cons.prems gs by simp
    have s: "s32 (n + repetitions g * ?M) = n + repetitions g * ?M"
      using b Cons.prems gs by (intro s32_id) auto
    have u: "u64 (t + repetitions g * ?P) = t + group_size g"
      using P Cons.prems gs by (subst u64_id) (auto simp: group_size_def)
    have "from_rel_groups gs (n + repetitions g * ?M + ?y) None tname anno aw
        (n + repetitions g * ?M) (t + group_size g) = Inr (t + group_size g + lp_gid gs j rep l off)"
      using Cons.prems Suc in' b P by (intro Cons.IH) auto
    then show ?thesis
      using Suc c m s u y
      by (simp add: from_rel_groups.simps(2) Let_def lp_gid_def ac_simps)
  qed
qed (simp add: lp_in_def)

lemma from_rel_groups_named:
  assumes "wf_groups gs" "lp_in gs k rep l off" "rel_match tname anno aw (lptypes (gs ! k) ! l)"
    and "\<forall>j < k. lpg_name (gs ! j) \<noteq> lpg_name (gs ! k)" "0 \<le> t" "t + groups_size gs < 2 ^ 31"
  shows "from_rel_groups gs
           (rep * rel_size tname anno aw (lptypes (gs ! k)) +
              (rel_size tname anno aw (take l (lptypes (gs ! k))) + off))
           (Some (lpg_name (gs ! k))) tname anno aw 0 t =
         Inr (t + lp_gid gs k rep l off)"
  using assms
proof (induction gs arbitrary: k t)
  case (Cons g gs)
  have g: "0 < repetitions g" "wf_types (lptypes g)" and gs: "0 \<le> groups_size gs"
    using Cons.prems groups_size_nonneg [of gs] by auto
  show ?case
  proof (cases k)
    case 0
    then show ?thesis
      using from_rel_group_hit [OF g, of l tname anno aw off rep 0 t "Some (lpg_name g)" gs]
        Cons.prems gs by (simp add: lp_in_def)
  next
    case (Suc j)
    let ?P = "types_size (lptypes g)"
    have P: "0 \<le> ?P" "?P \<le> group_size g"
      using types_size_nonneg [OF g(2)] g(1) mult_right_mono [of 1 "repetitions g" ?P]
      by (auto simp: group_size_def)
    have c: "count_loop (lptypes g) 0 = ?P" using P Cons.prems gs by (subst count_loop_eq) auto
    have u: "u64 (t + ?P * repetitions g) = t + group_size g"
      using P Cons.prems gs by (subst u64_id) (auto simp: group_size_def ac_simps)
    have "lpg_name g \<noteq> lpg_name (gs ! j)" using Cons.prems(4) Suc by auto
    moreover have "from_rel_groups gs
        (rep * rel_size tname anno aw (lptypes (gs ! j)) +
           (rel_size tname anno aw (take l (lptypes (gs ! j))) + off))
        (Some (lpg_name (gs ! j))) tname anno aw 0 (t + group_size g) =
        Inr (t + group_size g + lp_gid gs j rep l off)"
      using Cons.prems Suc P by (intro Cons.IH) (auto simp: lp_in_def)
    ultimately show ?thesis
      using c u Suc by (simp add: from_rel_groups.simps(2) Let_def lp_gid_def)
  qed
qed (simp add: lp_in_def)

subsection \<open>The relative id of an LP\<close>

text \<open>An empty annotation string is read back as no annotation, so the annotations of the
  configuration have to be non-empty (the lexer of the configuration files has no empty
  annotation).\<close>

definition annos_nonempty :: "config_lpgroups \<Rightarrow> bool" where
  "annos_nonempty c \<longleftrightarrow>
     list_all (\<lambda>g. list_all (\<lambda>l. lpt_anno l \<noteq> Some []) (lptypes g)) (lpgroups c)"

lemma annos_nonempty_nth:
  "annos_nonempty c \<Longrightarrow> lp_in (lpgroups c) k rep l off \<Longrightarrow>
     lpt_anno (lptypes (lpgroups c ! k) ! l) \<noteq> Some []"
  by (simp add: annos_nonempty_def lp_in_def list_all_length)

lemma get_lp_info_hit:
  assumes "wf_conf c" "lp_in (lpgroups c) k rep l off"
  shows "codes_mapping_get_lp_info c (lp_gid (lpgroups c) k rep l off) =
    Inr (info_of (lpgroups c) 0 k rep l off,
         case lpt_anno (lptypes (lpgroups c ! k) ! l) of None \<Rightarrow> [] | Some a \<Rightarrow> a)"
  using get_lp_info2_hit [OF assms]
  by (simp add: codes_mapping_get_lp_info_def codes_mapping_get_lp_info2_def info_of_def)

lemma relative_id_hit:
  assumes "wf_conf c" "annos_nonempty c" "lp_in (lpgroups c) k rep l off"
  defines "t \<equiv> lptypes (lpgroups c ! k) ! l"
  shows "codes_mapping_get_lp_relative_id c (lp_gid (lpgroups c) k rep l off) gw aw =
    Inr ((if gw = 0 then rel_groups_size (lpt_name t) (lpt_anno t) aw (take k (lpgroups c)) else 0) +
         (rep * rel_size (lpt_name t) (lpt_anno t) aw (lptypes (lpgroups c ! k)) +
          (rel_size (lpt_name t) (lpt_anno t) aw (take l (lptypes (lpgroups c ! k))) + off)))"
proof -
  let ?gs = "lpgroups c" and ?ts = "lptypes (lpgroups c ! k)"
  let ?G = "rel_groups_size (lpt_name t) (lpt_anno t) aw (take k ?gs)"
  let ?M = "rel_size (lpt_name t) (lpt_anno t) aw ?ts"
  let ?x = "rel_size (lpt_name t) (lpt_anno t) aw (take l ?ts)"
  have wf: "wf_groups ?gs" "groups_size ?gs < 2 ^ 31" and k: "k < length ?gs"
    and l: "l < length ?ts" "0 \<le> off" "off < lpt_count (?ts ! l)"
    and rep: "0 \<le> rep" "rep < repetitions (?gs ! k)"
    using assms(1,3) by (auto simp: wf_conf_def lp_in_def)
  have g: "0 < repetitions (?gs ! k)" "wf_types ?ts"
    using wf(1) k by (auto simp: wf_groups_def list_all_length)
  have wt: "wf_groups (take k ?gs)"
    using wf(1) by (auto simp: wf_groups_def list_all_iff dest: in_set_takeD)
  have le: "groups_size (take k ?gs) + group_size (?gs ! k) < 2 ^ 31" "0 \<le> groups_size (take k ?gs)"
    using groups_size_take_le [OF wf(1) k] wf(2) groups_size_nonneg [OF wt] by auto
  have P: "types_size ?ts \<le> group_size (?gs ! k)"
    using types_size_nonneg [OF g(2)] g(1) mult_right_mono [of 1 "repetitions (?gs ! k)" "types_size ?ts"]
    by (simp add: group_size_def)
  have x: "0 \<le> ?x" "?x \<le> types_size (take l ?ts)"
    using rel_size_bounds [OF wf_types_take [OF g(2)]] by auto
  have tb: "types_size (take l ?ts) + off < types_size ?ts"
    using type_part_bounds [OF g(2) l] by simp
  have M: "0 \<le> ?M" "?M \<le> types_size ?ts" using rel_size_bounds [OF g(2)] by auto
  have e1: "rel_groups (take k ?gs) (lpt_name t) (lpt_anno t) aw 0 = ?G"
    using rel_groups_eq [OF wt, of 0] le group_size_nonneg [OF g] by simp
  have e2: "rel_types ?ts (lpt_name t) (lpt_anno t) aw 0 = ?M"
    using rel_types_eq [OF g(2), of 0] P le by simp
  have e3: "rel_types (take l ?ts) (lpt_name t) (lpt_anno t) aw 0 = ?x"
    using rel_types_eq [OF wf_types_take [OF g(2)], of 0] P le tb l(2) by simp
  have rM: "0 \<le> rep * ?M" "rep * ?M + types_size ?ts \<le> group_size (?gs ! k)"
  proof -
    show "0 \<le> rep * ?M" using rep M by simp
    have "rep * ?M \<le> rep * types_size ?ts" using rep M by (intro mult_left_mono) auto
    moreover have "(rep + 1) * types_size ?ts \<le> repetitions (?gs ! k) * types_size ?ts"
      using rep types_size_nonneg [OF g(2)] by (intro mult_right_mono) auto
    ultimately show "rep * ?M + types_size ?ts \<le> group_size (?gs ! k)"
      by (simp add: group_size_def algebra_simps)
  qed
  note G = rel_groups_bounds [OF wt, of "lpt_name t" "lpt_anno t" aw]
  have s: "s32 ((if gw = 0 then ?G else 0) + ?M * rep + ?x + off) =
      (if gw = 0 then ?G else 0) + (rep * ?M + (?x + off))"
    using G x tb rM le l(2) by (subst s32_id) (auto simp: ac_simps)
  show ?thesis
  proof (cases "lpt_anno t")
    case None
    then show ?thesis
      using get_lp_info_hit [OF assms(1,3)] e1 e2 e3 s k
      by (cases "gw = 0") (simp_all add: codes_mapping_get_lp_relative_id_def info_of_def t_def Let_def)
  next
    case (Some a)
    then have "a \<noteq> []" using annos_nonempty_nth [OF assms(2,3)] by (auto simp: t_def)
    with Some show ?thesis
      using get_lp_info_hit [OF assms(1,3)] e1 e2 e3 s k
      by (cases "gw = 0") (simp_all add: codes_mapping_get_lp_relative_id_def info_of_def t_def Let_def)
  qed
qed

subsection \<open>Properties\<close>

text \<open>C16: for every LP, converting its global id to a relative id (over all groups or within
  its group, over all annotations or within its annotation) and back with
  \<open>codes_mapping_get_lpid_from_relative\<close> gives the same global id; neither conversion
  fails.\<close>

theorem relative_id_roundtrip:
  assumes "wf_conf c" and "annos_nonempty c" and "0 \<le> gd" and "gd < conf_size c"
  shows "\<exists>i rel. codes_mapping_get_lp_info2 c gd = Inr i \<and>
    codes_mapping_get_lp_relative_id c gd group_wise annotation_wise = Inr rel \<and>
    codes_mapping_get_lpid_from_relative c rel
      (if group_wise = 0 then None else Some (inf_group i)) (inf_type i) (inf_anno i)
      annotation_wise = Inr gd"
proof -
  obtain k rep l off where lp: "lp_in (lpgroups c) k rep l off"
    and gd: "gd = lp_gid (lpgroups c) k rep l off"
    using conf_decode [OF assms(1,3,4)] by blast
  let ?t = "lptypes (lpgroups c ! k) ! l"
  have wf: "wf_groups (lpgroups c)" "groups_size (lpgroups c) < 2 ^ 31"
    using assms(1) by (auto simp: wf_conf_def)
  have m: "rel_match (lpt_name ?t) (lpt_anno ?t) annotation_wise ?t" by (simp add: rel_match_def)
  have names: "\<forall>j < k. lpg_name (lpgroups c ! j) \<noteq> lpg_name (lpgroups c ! k)"
    using conf_names_before [OF assms(1)] lp by (simp add: lp_in_def)
  show ?thesis
    using relative_id_hit [OF assms(1,2) lp, of group_wise annotation_wise]
      get_lp_info2_hit [OF assms(1) lp] gd
      from_rel_groups_all [OF wf(1) lp m, of 0 0] from_rel_groups_named [OF wf(1) lp m names, of 0]
      wf(2)
    by (cases "group_wise = 0")
      (simp_all add: info_of_def codes_mapping_get_lpid_from_relative_def)
qed

theorem relative_id_roundtrip_witness:
  "\<exists>i rel. codes_mapping_get_lp_info2 ex_conf 21 = Inr i \<and>
    codes_mapping_get_lp_relative_id ex_conf 21 0 0 = Inr rel \<and>
    codes_mapping_get_lpid_from_relative ex_conf rel
      (if (0 :: int) = 0 then None else Some (inf_group i)) (inf_type i) (inf_anno i) 0 = Inr 21"
  by (rule relative_id_roundtrip [OF ex_conf_wf])
    (simp_all add: ex_conf_def conf_size_def group_size_def annos_nonempty_def)

end
