(* ===== verification/Mapping_PEs.thy ===== *)
theory Mapping_PEs
  imports Mapping_Relative
begin

text \<open>
  Distribution of the LPs over PEs: the first \<open>lps_leftover\<close> PEs hold one LP more than
  the others. \<open>codes_mapping\<close> (the PE of an id), \<open>codes_mapping_init\<close> (the ids that a PE
  creates), \<open>codes_mapping_to_lp\<close> (the local index of an id) and
  \<open>codes_mapping_get_lps_for_pe\<close> (how many LPs a PE has) compute the same partition.
\<close>

subsection \<open>The number of LPs\<close>

lemma lps_total_types_eq:
  assumes "wf_types ts" "0 < reps" "0 \<le> acc" "acc + reps * types_size ts < 2 ^ 31"
  shows "lps_total_types ts reps acc = acc + reps * types_size ts"
  using assms
proof (induction ts arbitrary: acc)
  case (Cons t ts)
  have t: "0 \<le> reps * types_size ts" "0 \<le> reps * lpt_count t"
    using Cons.prems types_size_nonneg [of ts] by auto
  have "acc + (reps * lpt_count t + reps * types_size ts) < 2147483648"
    using Cons.prems(4) by (simp add: distrib_left)
  with t Cons.prems(3) have bd: "0 \<le> acc + reps * lpt_count t \<and> reps * lpt_count t < 2147483648 \<and>
    acc + reps * lpt_count t < 2147483648 \<and> - 2147483648 \<le> reps * lpt_count t"
    by linarith
  have "s32 (lpt_count t * reps) = reps * lpt_count t"
    unfolding mult.commute [of "lpt_count t"] by (rule s32_id) (use bd in simp_all)
  moreover have "u64 (acc + reps * lpt_count t) = acc + reps * lpt_count t"
    by (rule u64_id) (use bd in simp_all)
  ultimately show ?case
    using Cons.IH [of "acc + reps * lpt_count t"] Cons.prems t by (simp add: algebra_simps)
qed simp

lemma lps_total_groups_eq:
  assumes "wf_groups gs" "0 \<le> acc" "acc + groups_size gs < 2 ^ 31"
  shows "lps_total_groups gs acc = acc + groups_size gs"
  using assms
proof (induction gs arbitrary: acc)
  case (Cons g gs)
  have g: "0 < repetitions g" "wf_types (lptypes g)" "0 \<le> groups_size gs" "0 \<le> group_size g"
    using Cons.prems by (auto intro: groups_size_nonneg group_size_nonneg)
  have "lps_total_types (lptypes g) (repetitions g) acc = acc + group_size g"
    using lps_total_types_eq [OF g(2,1), of acc] Cons.prems g by (simp add: group_size_def)
  then show ?case using Cons.IH [of "acc + group_size g"] Cons.prems g by simp
qed simp

subsection \<open>The layout\<close>

definition layout_of :: "pe_layout \<Rightarrow> int \<Rightarrow> int \<Rightarrow> bool" where
  "layout_of p n pes \<longleftrightarrow> 0 < pes \<and> pes < 2 ^ 31 \<and> 0 \<le> n \<and> n < 2 ^ 31 \<and>
     lps_per_pe_floor p = n div pes \<and> lps_leftover p = n mod pes"

lemma codes_mapping_layout_eq:
  assumes "wf_conf c" "0 < pes" "pes < 2 ^ 31"
  shows "\<exists>p. codes_mapping_layout c pes = Inr p \<and> layout_of p (conf_size c) pes"
proof -
  have "lps_total_groups (lpgroups c) 0 = conf_size c"
    using lps_total_groups_eq [of "lpgroups c" 0] assms(1) by (simp add: wf_conf_def conf_size_def)
  moreover have "0 \<le> conf_size c" "conf_size c < 2 ^ 31"
    using assms(1) by (auto simp: wf_conf_def conf_size_def intro: groups_size_nonneg)
  moreover have "u64 pes = pes" using assms by (simp add: u64_id)
  ultimately show ?thesis
    using assms by (simp add: codes_mapping_layout_def layout_of_def Let_def)
qed

lemma layout_bounds:
  assumes "layout_of p n pes"
  shows "0 \<le> lps_per_pe_floor p" "lps_per_pe_floor p \<le> n" "0 \<le> lps_leftover p"
    "lps_leftover p < pes" "lps_leftover p \<le> n" "n = pes * lps_per_pe_floor p + lps_leftover p"
proof -
  have n: "0 < pes" "0 \<le> n" and p: "lps_per_pe_floor p = n div pes" "lps_leftover p = n mod pes"
    using assms by (auto simp: layout_of_def)
  show "0 \<le> lps_per_pe_floor p" using n p by (simp add: pos_imp_zdiv_nonneg_iff)
  show "lps_per_pe_floor p \<le> n" using n p int_div_less_self [of n pes] zdiv_mono2 [of n 1 pes] by simp
  show "0 \<le> lps_leftover p" "lps_leftover p < pes" using n p by auto
  show "lps_leftover p \<le> n" using n p zmod_le_nonneg_dividend [of n pes] by simp
  show "n = pes * lps_per_pe_floor p + lps_leftover p" using p by simp
qed

text \<open>First id of a PE, without wrap-around.\<close>

definition first_id :: "pe_layout \<Rightarrow> int \<Rightarrow> int" where
  "first_id p pe = pe * lps_per_pe_floor p + min pe (lps_leftover p)"

lemma first_id_bounds:
  assumes "layout_of p n pes" "0 \<le> pe" "pe \<le> pes"
  shows "0 \<le> first_id p pe" "first_id p pe \<le> n"
proof -
  note b = layout_bounds [OF assms(1)]
  show "0 \<le> first_id p pe" using assms(2) b by (simp add: first_id_def)
  have "pe * lps_per_pe_floor p \<le> pes * lps_per_pe_floor p"
    using assms(3) b(1) by (intro mult_right_mono) auto
  then show "first_id p pe \<le> n" using b by (simp add: first_id_def)
qed

lemma lp_start_eq:
  assumes "layout_of p n pes" "0 \<le> pe" "pe \<le> pes"
  shows "lp_start p pe = first_id p pe"
proof -
  note b = layout_bounds [OF assms(1)] first_id_bounds [OF assms]
  have "s32 pe = pe" "s32 (lps_leftover p) = lps_leftover p"
    using assms b by (auto intro!: s32_id simp: layout_of_def)
  then have "lp_start p pe = u64 (first_id p pe)"
    by (simp add: lp_start_def first_id_def mini_def min_def)
  also have "\<dots> = first_id p pe"
    using b assms(1) by (intro u64_id) (auto simp: layout_of_def)
  finally show ?thesis .
qed

lemma lps_for_pe_eq:
  assumes "layout_of p n pes" "0 \<le> pe" "pe < pes"
  shows "codes_mapping_get_lps_for_pe p pe = first_id p (pe + 1) - first_id p pe"
proof -
  note b = layout_bounds [OF assms(1)]
  have u: "u64 pe = pe" using assms by (intro u64_id) (auto simp: layout_of_def)
  have d: "first_id p (pe + 1) - first_id p pe =
      lps_per_pe_floor p + (if pe < lps_leftover p then 1 else 0)"
    by (simp add: first_id_def algebra_simps min_def)
  have r: "0 \<le> first_id p pe" "first_id p (pe + 1) \<le> n"
    using first_id_bounds [OF assms(1)] assms by auto
  have "0 \<le> first_id p (pe + 1) - first_id p pe" unfolding d using b(1) by simp
  moreover have "first_id p (pe + 1) - first_id p pe < 2 ^ 31"
    using r assms(1) by (simp add: layout_of_def)
  ultimately show ?thesis
    unfolding codes_mapping_get_lps_for_pe_def u
    by (subst d [symmetric]) (simp add: s32_id u64_id)
qed

lemma to_lp_eq:
  assumes "layout_of p n pes" "0 \<le> pe" "pe < pes" "first_id p pe \<le> gd" "gd < n"
  shows "codes_mapping_to_lp p pe gd = gd - first_id p pe"
proof -
  note b = layout_bounds [OF assms(1)]
  have "s32 pe = pe" "s32 (lps_leftover p) = lps_leftover p"
    using assms b by (auto intro!: s32_id simp: layout_of_def)
  then have "codes_mapping_to_lp p pe gd = s32 (u64 (gd - first_id p pe))"
    by (simp add: codes_mapping_to_lp_def first_id_def mini_def min_def algebra_simps)
  moreover have "0 \<le> first_id p pe" using first_id_bounds [OF assms(1)] assms by auto
  ultimately show ?thesis
    using assms by (simp add: layout_of_def s32_id u64_id)
qed

lemma codes_mapping_partition:
  assumes "layout_of p n pes" "0 \<le> gd" "gd < n"
  shows "\<exists>pe. codes_mapping p gd = Inr pe \<and> 0 \<le> pe \<and> pe < pes \<and>
    first_id p pe \<le> gd \<and> gd < first_id p (pe + 1)"
proof -
  let ?F = "lps_per_pe_floor p" and ?L = "lps_leftover p"
  note b = layout_bounds [OF assms(1)]
  have n: "n < 2 ^ 31" using assms(1) by (simp add: layout_of_def)
  have LF: "0 \<le> ?L * ?F" "?L * (?F + 1) \<le> n"
  proof -
    show "0 \<le> ?L * ?F" using b by simp
    have "?L * ?F \<le> pes * ?F" using b by (intro mult_right_mono) auto
    then show "?L * (?F + 1) \<le> n" using b(6) by (simp add: algebra_simps)
  qed
  have u: "u64 (?F + 1) = ?F + 1" "u64 (?L * (?F + 1)) = ?L * (?F + 1)"
    using b LF n by (auto intro!: u64_id)
  show ?thesis
  proof (cases "gd < ?L * (?F + 1)")
    case True
    let ?pe = "gd div (?F + 1)"
    have F1: "0 < ?F + 1" using b by simp
    have m: "?pe * (?F + 1) \<le> gd" "gd < ?pe * (?F + 1) + (?F + 1)"
      using F1 div_mult_mod_eq [of gd "?F + 1"] pos_mod_bound [OF F1, of gd]
        pos_mod_sign [OF F1, of gd] by linarith+
    have "?pe * (?F + 1) < ?L * (?F + 1)" using m(1) True by linarith
    then have L: "?pe < ?L" using F1 by simp
    have "0 \<le> ?pe" using assms(2) F1 by (simp add: pos_imp_zdiv_nonneg_iff)
    moreover have "first_id p ?pe \<le> gd" "gd < first_id p (?pe + 1)"
      using L m by (simp_all add: first_id_def algebra_simps)
    moreover have "codes_mapping p gd = Inr ?pe"
      using True u F1 by (simp add: codes_mapping_def Let_def)
    ultimately show ?thesis using L b(4) by (intro exI [of _ ?pe]) auto
  next
    case False
    let ?x = "gd - ?L * (?F + 1)" and ?q = "(gd - ?L * (?F + 1)) div ?F"
    have F: "0 < ?F"
    proof (rule ccontr)
      assume "\<not> 0 < ?F"
      then have "?F = 0" using b(1) by simp
      then show False using False assms(3) b(6) by simp
    qed
    have x: "0 \<le> ?x" using False by simp
    have m: "?q * ?F \<le> ?x" "?x < ?q * ?F + ?F"
      using F div_mult_mod_eq [of ?x ?F] pos_mod_bound [OF F, of ?x]
        pos_mod_sign [OF F, of ?x] by linarith+
    have q0: "0 \<le> ?q" using x F by (simp add: pos_imp_zdiv_nonneg_iff)
    have "?q * ?F + ?L * (?F + 1) < pes * ?F + ?L" using m(1) assms(3) b(6) by linarith
    then have "(?q + ?L) * ?F < pes * ?F" by (simp add: algebra_simps)
    then have lt: "?q + ?L < pes" using F by simp
    have "0 \<le> ?L * (?F + 1)" using b by simp
    then have "?x < 2 ^ 64" using assms(3) n by simp
    then have ux: "u64 ?x = ?x" using x by (intro u64_id)
    have uq: "u64 (?q + ?L) = ?q + ?L"
      using q0 b lt assms(1) by (intro u64_id) (auto simp: layout_of_def)
    have "codes_mapping p gd = Inr (?q + ?L)"
      using False u ux uq F by (simp add: codes_mapping_def Let_def)
    moreover have "first_id p (?q + ?L) \<le> gd" "gd < first_id p (?q + ?L + 1)"
      using m q0 by (simp_all add: first_id_def algebra_simps)
    ultimately show ?thesis using q0 lt b(3) by (intro exI [of _ "?q + ?L"]) auto
  qed
qed

subsection \<open>Properties\<close>

text \<open>C8: the layout that \<open>codes_mapping_setup\<close> computes partitions the LPs: every global id
  belongs to exactly the PE that \<open>codes_mapping\<close> names, lies in the range of ids which that
  PE creates in \<open>codes_mapping_init\<close>, and \<open>codes_mapping_to_lp\<close> gives it an index into the
  PE's array of \<open>codes_mapping_get_lps_for_pe\<close> LPs.\<close>

theorem pe_partition:
  assumes "wf_conf c" and "0 < pes" and "pes < 2 ^ 31" and "0 \<le> gd" and "gd < conf_size c"
  shows "\<exists>p pe. codes_mapping_layout c pes = Inr p \<and> codes_mapping p gd = Inr pe \<and>
    0 \<le> pe \<and> pe < pes \<and> lp_start p pe \<le> gd \<and> gd < lp_start p (pe + 1) \<and>
    codes_mapping_to_lp p pe gd = gd - lp_start p pe \<and>
    0 \<le> codes_mapping_to_lp p pe gd \<and>
    codes_mapping_to_lp p pe gd < codes_mapping_get_lps_for_pe p pe"
proof -
  obtain p where p: "codes_mapping_layout c pes = Inr p" and lay: "layout_of p (conf_size c) pes"
    using codes_mapping_layout_eq [OF assms(1-3)] by blast
  obtain pe where pe: "codes_mapping p gd = Inr pe" "0 \<le> pe" "pe < pes"
    "first_id p pe \<le> gd" "gd < first_id p (pe + 1)"
    using codes_mapping_partition [OF lay assms(4,5)] by blast
  have "lp_start p pe = first_id p pe" "lp_start p (pe + 1) = first_id p (pe + 1)"
    using lp_start_eq [OF lay] pe by auto
  moreover have "codes_mapping_to_lp p pe gd = gd - first_id p pe"
    using to_lp_eq [OF lay pe(2,3,4) assms(5)] .
  moreover have "codes_mapping_get_lps_for_pe p pe = first_id p (pe + 1) - first_id p pe"
    using lps_for_pe_eq [OF lay pe(2,3)] .
  ultimately show ?thesis using p pe by auto
qed

theorem pe_partition_witness:
  "\<exists>p pe. codes_mapping_layout ex_conf 5 = Inr p \<and> codes_mapping p 23 = Inr pe \<and> pe < 5"
  using pe_partition [OF ex_conf_wf, of 5 23] by (auto simp: ex_conf_def conf_size_def group_size_def)

text \<open>the id ranges of the PEs follow each other without gap from 0 to the number of LPs,
  so the PEs together create every LP exactly once.\<close>

theorem pe_ranges_cover:
  assumes "wf_conf c" and "0 < pes" and "pes < 2 ^ 31"
  shows "\<exists>p. codes_mapping_layout c pes = Inr p \<and> lp_start p 0 = 0 \<and>
    lp_start p pes = conf_size c \<and>
    (\<forall>pe. 0 \<le> pe \<and> pe < pes \<longrightarrow>
       lp_start p (pe + 1) = lp_start p pe + codes_mapping_get_lps_for_pe p pe)"
proof -
  obtain p where p: "codes_mapping_layout c pes = Inr p" and lay: "layout_of p (conf_size c) pes"
    using codes_mapping_layout_eq [OF assms] by blast
  note b = layout_bounds [OF lay]
  have "lp_start p 0 = 0"
    using lp_start_eq [OF lay, of 0] assms(2) b by (simp add: first_id_def)
  moreover have "lp_start p pes = conf_size c"
    using lp_start_eq [OF lay, of pes] assms(2) b by (simp add: first_id_def)
  moreover have "lp_start p (pe + 1) = lp_start p pe + codes_mapping_get_lps_for_pe p pe"
    if "0 \<le> pe \<and> pe < pes" for pe
    using lp_start_eq [OF lay, of pe] lp_start_eq [OF lay, of "pe + 1"]
      lps_for_pe_eq [OF lay, of pe] that by auto
  ultimately show ?thesis using p by blast
qed

theorem pe_ranges_cover_witness:
  "\<exists>p. codes_mapping_layout ex_conf 5 = Inr p \<and> lp_start p 0 = 0 \<and> lp_start p 5 = 24"
  using pe_ranges_cover [OF ex_conf_wf, of 5] by (auto simp: ex_conf_def conf_size_def group_size_def)

text \<open>\<open>codes_mapping_count_lps_of_type\<close> counts the LPs of this PE whose type name differs
  from the one asked for, and not those that have it.\<close>

theorem count_lps_of_type_counts_others:
  assumes "wf_conf c" and "list_all (\<lambda>gd. 0 \<le> gd \<and> gd < conf_size c) lps"
    and "int (length lps) < 2 ^ 64"
  shows "codes_mapping_count_lps_of_type c lps tname =
    Inr (int (length (filter (\<lambda>gd. case codes_mapping_get_lp_info2 c gd of
           Inr i \<Rightarrow> take MAX_NAME_LENGTH tname \<noteq> take MAX_NAME_LENGTH (inf_type i)
         | Inl e \<Rightarrow> False) lps)))"
proof -
  have "count_lps_loop c tname lps n =
      Inr (n + int (length (filter (\<lambda>gd. case codes_mapping_get_lp_info2 c gd of
           Inr i \<Rightarrow> take MAX_NAME_LENGTH tname \<noteq> take MAX_NAME_LENGTH (inf_type i)
         | Inl e \<Rightarrow> False) lps)))"
    if "list_all (\<lambda>gd. 0 \<le> gd \<and> gd < conf_size c) lps" "0 \<le> n" "n + int (length lps) < 2 ^ 64"
    for lps n
    using that
  proof (induction lps arbitrary: n)
    case (Cons gd lps)
    obtain i where i: "codes_mapping_get_lp_info2 c gd = Inr i"
      using ids.info_defined [OF assms(1), of gd] Cons.prems(1) by auto
    then have i': "\<exists>a. codes_mapping_get_lp_info c gd = Inr (i, a)"
      by (simp add: codes_mapping_get_lp_info_def codes_mapping_get_lp_info2_def)
    have "u64 (n + 1) = n + 1" using Cons.prems by (intro u64_id) auto
    then show ?case
      using Cons.IH [of n] Cons.IH [of "n + 1"] Cons.prems i i' by auto
  qed simp
  from this [OF assms(2), of 0] assms(3) show ?thesis
    by (simp add: codes_mapping_count_lps_of_type_def)
qed

theorem count_lps_of_type_counts_others_witness:
  "codes_mapping_count_lps_of_type ex_conf [0, 1, 2, 3] ''server'' = Inr 2 \<and>
   codes_mapping_count_lps_of_type ex_conf [0, 1] ''server'' = Inr 0"
proof -
  have h: "list_all (\<lambda>gd. 0 \<le> gd \<and> gd < conf_size ex_conf) [0, 1, 2, 3]"
    "list_all (\<lambda>gd. 0 \<le> gd \<and> gd < conf_size ex_conf) [0, 1]"
    by (simp_all add: ex_conf_def conf_size_def group_size_def)
  have i: "codes_mapping_get_lp_info2 ex_conf 0 = Inr (info_of (lpgroups ex_conf) 0 0 0 0 0)"
    "codes_mapping_get_lp_info2 ex_conf 1 = Inr (info_of (lpgroups ex_conf) 0 0 0 0 1)"
    "codes_mapping_get_lp_info2 ex_conf 2 = Inr (info_of (lpgroups ex_conf) 0 0 0 1 0)"
    "codes_mapping_get_lp_info2 ex_conf 3 = Inr (info_of (lpgroups ex_conf) 0 0 0 2 0)"
    by code_simp+
  show ?thesis
    using count_lps_of_type_counts_others [OF ex_conf_wf h(1), of "''server''"]
      count_lps_of_type_counts_others [OF ex_conf_wf h(2), of "''server''"] i
    by (simp add: info_of_def ex_conf_def MAX_NAME_LENGTH_def)
qed

end
