(* ===== verification/Mapping_Context.thy ===== *)
theory Mapping_Context
  imports Mapping_PEs
begin

text \<open>
  src/util/codes-mapping-context.c: a mapping context says to which LP of a given type a
  sender's request goes. The tagged union \<open>struct codes_mctx\<close> is a datatype whose
  constructors are the enumerators; the integer \<open>cid\<close> is the canonical id of an
  annotation, -1 for "ignore annotations".
\<close>

datatype codes_mctx =
    CODES_MCTX_GLOBAL_DIRECT int
  | CODES_MCTX_GROUP_RATIO int
  | CODES_MCTX_GROUP_RATIO_REVERSE int
  | CODES_MCTX_GROUP_MODULO int
  | CODES_MCTX_GROUP_MODULO_REVERSE int
  | CODES_MCTX_GROUP_DIRECT int int   \<comment> \<open>annotation, offset\<close>
  | CODES_MCTX_UNKNOWN

definition CODES_MCTX_DEFAULT :: codes_mctx where
  "CODES_MCTX_DEFAULT = CODES_MCTX_GROUP_MODULO (-1)"

subsection \<open>Setters\<close>

definition codes_mctx_set_global_direct :: "int \<Rightarrow> codes_mctx" where
  "codes_mctx_set_global_direct lpid = CODES_MCTX_GLOBAL_DIRECT lpid"

definition mctx_cid :: "config_lpgroups \<Rightarrow> string option \<Rightarrow> bool \<Rightarrow> int" where
  "mctx_cid c annotation ignore_annotations =
     (if ignore_annotations then -1 else codes_mapping_get_anno_cid_by_name c annotation)"

definition set_group_modulo_common ::
    "config_lpgroups \<Rightarrow> (int \<Rightarrow> codes_mctx) \<Rightarrow> string option \<Rightarrow> bool \<Rightarrow> codes_mctx" where
  "set_group_modulo_common c type annotation ign = type (mctx_cid c annotation ign)"

definition codes_mctx_set_group_modulo ::
    "config_lpgroups \<Rightarrow> string option \<Rightarrow> bool \<Rightarrow> codes_mctx" where
  "codes_mctx_set_group_modulo c a ign = set_group_modulo_common c CODES_MCTX_GROUP_MODULO a ign"

definition codes_mctx_set_group_modulo_reverse ::
    "config_lpgroups \<Rightarrow> string option \<Rightarrow> bool \<Rightarrow> codes_mctx" where
  "codes_mctx_set_group_modulo_reverse c a ign =
     set_group_modulo_common c CODES_MCTX_GROUP_MODULO_REVERSE a ign"

definition set_group_ratio_common ::
    "config_lpgroups \<Rightarrow> (int \<Rightarrow> codes_mctx) \<Rightarrow> string option \<Rightarrow> bool \<Rightarrow> codes_mctx" where
  "set_group_ratio_common c type annotation ign = type (mctx_cid c annotation ign)"

definition codes_mctx_set_group_ratio ::
    "config_lpgroups \<Rightarrow> string option \<Rightarrow> bool \<Rightarrow> codes_mctx" where
  "codes_mctx_set_group_ratio c a ign = set_group_ratio_common c CODES_MCTX_GROUP_RATIO a ign"

definition codes_mctx_set_group_ratio_reverse ::
    "config_lpgroups \<Rightarrow> string option \<Rightarrow> bool \<Rightarrow> codes_mctx" where
  "codes_mctx_set_group_ratio_reverse c a ign =
     set_group_ratio_common c CODES_MCTX_GROUP_RATIO_REVERSE a ign"

definition codes_mctx_set_group_direct ::
    "config_lpgroups \<Rightarrow> int \<Rightarrow> string option \<Rightarrow> bool \<Rightarrow> codes_mctx" where
  "codes_mctx_set_group_direct c off a ign = CODES_MCTX_GROUP_DIRECT (mctx_cid c a ign) off"

subsection \<open>Resolution\<close>

text \<open>The destination offset of the modulo and ratio contexts.\<close>

definition mctx_dest_offset ::
    "config_lpgroups \<Rightarrow> codes_mctx \<Rightarrow> int \<Rightarrow> string \<Rightarrow> string option \<Rightarrow> lp_info \<Rightarrow> int result" where
  "mctx_dest_offset c ctx cid dest_lp_name anno_str i =
     (let is_group_modulo = (case ctx of CODES_MCTX_GROUP_MODULO _ \<Rightarrow> True
                             | CODES_MCTX_GROUP_MODULO_REVERSE _ \<Rightarrow> True | _ \<Rightarrow> False);
          is_group_reverse = (case ctx of CODES_MCTX_GROUP_MODULO_REVERSE _ \<Rightarrow> True
                              | CODES_MCTX_GROUP_RATIO_REVERSE _ \<Rightarrow> True | _ \<Rightarrow> False);
          num_dest_lps = codes_mapping_get_lp_count c (Some (inf_group i)) 1 dest_lp_name anno_str
                           (if cid = -1 then 1 else 0)
      in if num_dest_lps = 0 then Inl TwError
         else bind_res
           (if is_group_modulo then Inr (c_mod (inf_offset i) num_dest_lps)
            else let num_src_lps =
                       codes_mapping_get_lp_count c (Some (inf_group i)) 1 (inf_type i) None 1
                 in if num_src_lps \<le> num_dest_lps then Inr (inf_offset i)
                    else let d = c_div (s32 (inf_offset i * num_dest_lps)) num_src_lps
                         in Inr (if d \<ge> num_dest_lps then num_dest_lps - 1 else d))
           (\<lambda>d. Inr (if is_group_reverse then num_dest_lps - 1 - d else d)))"

definition codes_mctx_to_lpid :: "config_lpgroups \<Rightarrow> codes_mctx \<Rightarrow> string \<Rightarrow> int \<Rightarrow> int result" where
  "codes_mctx_to_lpid c ctx dest_lp_name sender_gid =
     (let group_wise = (\<lambda>cid.
        bind_res (codes_mapping_get_lp_info2 c sender_gid) (\<lambda>i.
          let anno_str = (if cid < 0 then None else codes_mapping_get_anno_name_by_cid c cid) in
          bind_res (case ctx of CODES_MCTX_GROUP_DIRECT _ off \<Rightarrow> Inr off
                    | _ \<Rightarrow> mctx_dest_offset c ctx cid dest_lp_name anno_str i) (\<lambda>dest_offset.
            codes_mapping_get_lp_id c (Some (inf_group i)) (Some dest_lp_name) anno_str
              (if cid = -1 then 1 else 0) (inf_rep i) dest_offset)))
      in case ctx of
           CODES_MCTX_GLOBAL_DIRECT lpid \<Rightarrow> Inr lpid
         | CODES_MCTX_GROUP_RATIO cid \<Rightarrow> group_wise cid
         | CODES_MCTX_GROUP_RATIO_REVERSE cid \<Rightarrow> group_wise cid
         | CODES_MCTX_GROUP_MODULO cid \<Rightarrow> group_wise cid
         | CODES_MCTX_GROUP_MODULO_REVERSE cid \<Rightarrow> group_wise cid
         | CODES_MCTX_GROUP_DIRECT cid _ \<Rightarrow> group_wise cid
         | CODES_MCTX_UNKNOWN \<Rightarrow> Inl AssertFailed)"

definition codes_mctx_get_annotation ::
    "config_lpgroups \<Rightarrow> codes_mctx \<Rightarrow> string \<Rightarrow> int \<Rightarrow> string option result" where
  "codes_mctx_get_annotation c ctx dest_lp_name sender_id =
     (let group_wise = (\<lambda>cid.
        if cid \<ge> 0 then Inr (codes_mapping_get_anno_name_by_cid c cid)
        else bind_res (codes_mapping_get_lp_info c sender_id) (\<lambda>(i, anno).
               codes_mapping_get_annotation_by_name c (inf_group i) dest_lp_name))
      in case ctx of
           CODES_MCTX_GLOBAL_DIRECT _ \<Rightarrow> codes_mapping_get_annotation_by_lpid c sender_id
         | CODES_MCTX_GROUP_RATIO cid \<Rightarrow> group_wise cid
         | CODES_MCTX_GROUP_RATIO_REVERSE cid \<Rightarrow> group_wise cid
         | CODES_MCTX_GROUP_MODULO cid \<Rightarrow> group_wise cid
         | CODES_MCTX_GROUP_MODULO_REVERSE cid \<Rightarrow> group_wise cid
         | CODES_MCTX_GROUP_DIRECT cid _ \<Rightarrow> group_wise cid
         | CODES_MCTX_UNKNOWN \<Rightarrow> Inl TwError)"

subsection \<open>Counting the destinations\<close>

text \<open>Within a repetition of a group the count is the count of the first matching entry,
  which is the entry that \<open>codes_mapping_get_lp_id\<close> uses, when annotations are ignored or
  no two entries of the group agree in name and annotation.\<close>

definition types_distinct :: "config_lptype list \<Rightarrow> bool" where
  "types_distinct ts \<longleftrightarrow> distinct (map (\<lambda>l. (lpt_name l, lpt_anno l)) ts)"

lemma lp_count_types_none:
  "\<forall>j < length ts. \<not> type_matches tname anno ign (ts ! j) \<Longrightarrow>
     lp_count_types ts reps ir tname anno ign tot = tot"
proof (induction ts)
  case (Cons t ts)
  have "\<not> type_matches tname anno ign t"
    and "\<forall>j < length ts. \<not> type_matches tname anno ign (ts ! j)"
    using Cons.prems by (auto simp: less_Suc_eq_0_disj All_less_Suc2)
  with Cons.IH show ?case by (auto simp: type_matches_def)
qed simp

lemma lp_count_types_first:
  assumes "wf_types ts" "types_size ts < 2 ^ 31" "l < length ts"
    and "type_matches tname anno ign (ts ! l)"
    and "\<forall>j < l. \<not> type_matches tname anno ign (ts ! j)"
    and "ign = 1 \<or> ign = 0 \<and> types_distinct ts"
  shows "lp_count_types ts reps 1 tname anno ign 0 = lpt_count (ts ! l)"
  using assms
proof (induction ts arbitrary: l)
  case (Cons t ts)
  have t: "0 \<le> types_size ts" "0 < lpt_count t" "wf_types ts"
    using Cons.prems(1) by (auto intro: types_size_nonneg)
  have s: "s32 (lpt_count t) = lpt_count t"
    using Cons.prems(2) t by (intro s32_id) auto
  show ?case
  proof (cases l)
    case 0
    show ?thesis
    proof (cases "ign = 1")
      case True
      then show ?thesis using Cons.prems 0 s by (simp add: type_matches_def)
    next
      case False
      then have z: "ign = 0" and d: "types_distinct (t # ts)" using Cons.prems(6) by auto
      have "\<not> type_matches tname anno ign (ts ! j)" if "j < length ts" for j
        using d that Cons.prems(4) 0 z nth_mem [OF that]
        by (auto simp: types_distinct_def type_matches_def image_iff)
      then show ?thesis
        using Cons.prems 0 s z lp_count_types_none [of ts tname anno 0 reps 1 "lpt_count t"]
        by (simp add: type_matches_def)
    qed
  next
    case (Suc j)
    have no: "\<not> type_matches tname anno ign t"
      and less: "\<forall>i < j. \<not> type_matches tname anno ign (ts ! i)"
      using Cons.prems(5) Suc by (auto simp: less_Suc_eq_0_disj)
    have "lp_count_types ts reps 1 tname anno ign 0 = lpt_count (ts ! j)"
      using Cons.prems Suc t by (intro Cons.IH less) (auto simp: types_distinct_def)
    with no Suc show ?thesis by (auto simp: type_matches_def)
  qed
qed simp

lemma lp_count_groups_named:
  assumes "k < length gs" "\<forall>j < k. lpg_name (gs ! j) \<noteq> lpg_name (gs ! k)"
  shows "lp_count_groups gs (Some (lpg_name (gs ! k))) ir tname anno ign tot =
    lp_count_types (lptypes (gs ! k)) (repetitions (gs ! k)) ir tname anno ign tot"
  using assms
proof (induction gs arbitrary: k)
  case (Cons g gs)
  show ?case
  proof (cases k)
    case (Suc j)
    then have "lpg_name g \<noteq> lpg_name (gs ! j)"
      and "\<forall>i < j. lpg_name (gs ! i) \<noteq> lpg_name (gs ! j)"
      using Cons.prems(2) by (auto simp: less_Suc_eq_0_disj)
    then show ?thesis using Cons.IH [of j] Cons.prems(1) Suc by auto
  qed simp
qed simp

lemma lp_count_first:
  assumes "wf_conf c" "k < length (lpgroups c)"
    and "l < length (lptypes (lpgroups c ! k))"
    and "type_matches tname anno ign (lptypes (lpgroups c ! k) ! l)"
    and "\<forall>j < l. \<not> type_matches tname anno ign (lptypes (lpgroups c ! k) ! j)"
    and "ign = 1 \<or> ign = 0 \<and> types_distinct (lptypes (lpgroups c ! k))"
  shows "codes_mapping_get_lp_count c (Some (lpg_name (lpgroups c ! k))) 1 tname anno ign =
    lpt_count (lptypes (lpgroups c ! k) ! l)"
proof -
  let ?g = "lpgroups c ! k"
  have wf: "wf_groups (lpgroups c)" "groups_size (lpgroups c) < 2 ^ 31"
    using assms(1) by (auto simp: wf_conf_def)
  then have g: "0 < repetitions ?g" "wf_types (lptypes ?g)"
    using assms(2) by (auto simp: wf_groups_def list_all_length)
  have "wf_groups (take k (lpgroups c))"
    using wf(1) by (auto simp: wf_groups_def list_all_iff dest: in_set_takeD)
  then have "group_size ?g < 2 ^ 31"
    using groups_size_take_le [OF wf(1) assms(2)] wf(2) groups_size_nonneg by fastforce
  then have "types_size (lptypes ?g) < 2 ^ 31"
    using types_size_nonneg [OF g(2)] g(1)
      mult_right_mono [of 1 "repetitions ?g" "types_size (lptypes ?g)"]
    by (simp add: group_size_def)
  then show ?thesis
    using lp_count_types_first [OF g(2)] assms(3-6)
      lp_count_groups_named [OF assms(2) conf_names_before [OF assms(1,2)]]
    by (simp add: codes_mapping_get_lp_count_def)
qed

subsection \<open>Destinations exist\<close>

text \<open>The destination entry of a context for a sender: the first entry of the sender's group
  that has the requested name and, unless annotations are ignored, annotation.\<close>

definition dest_entry :: "config_lpgroups \<Rightarrow> nat \<Rightarrow> int \<Rightarrow> string \<Rightarrow> nat \<Rightarrow> bool" where
  "dest_entry c k cid tname d \<longleftrightarrow>
     (let ts = lptypes (lpgroups c ! k);
          anno = (if cid < 0 then None else codes_mapping_get_anno_name_by_cid c cid);
          ign = (if cid = -1 then 1 else 0)
      in d < length ts \<and> type_matches tname anno ign (ts ! d) \<and>
         (\<forall>j < d. \<not> type_matches tname anno ign (ts ! j)) \<and>
         (cid = -1 \<or> types_distinct ts))"

lemma get_lp_id_find:
  assumes "wf_conf c" "lp_in (lpgroups c) k rep d off"
    and "type_matches tname anno ign (lptypes (lpgroups c ! k) ! d)"
    and "\<forall>j < d. \<not> type_matches tname anno ign (lptypes (lpgroups c ! k) ! j)"
  shows "codes_mapping_get_lp_id c (Some (lpg_name (lpgroups c ! k))) (Some tname) anno ign rep off =
    Inr (lp_gid (lpgroups c) k rep d off)"
proof -
  have "k < length (lpgroups c)" "0 \<le> rep" "0 \<le> off" using assms(2) by (auto simp: lp_in_def)
  then show ?thesis
    using lp_id_groups_find [of "lpgroups c" 0 k rep d off tname anno ign] assms
      conf_names_before [OF assms(1)]
    by (simp add: codes_mapping_get_lp_id_def wf_conf_def)
qed

lemma dest_count:
  assumes "wf_conf c" "k < length (lpgroups c)" "dest_entry c k cid tname d"
  shows "codes_mapping_get_lp_count c (Some (lpg_name (lpgroups c ! k))) 1 tname
      (if cid < 0 then None else codes_mapping_get_anno_name_by_cid c cid)
      (if cid = -1 then 1 else 0) = lpt_count (lptypes (lpgroups c ! k) ! d)"
    and "0 < lpt_count (lptypes (lpgroups c ! k) ! d)"
proof -
  show "0 < lpt_count (lptypes (lpgroups c ! k) ! d)"
    using assms by (auto simp: wf_conf_def wf_groups_def list_all_length dest_entry_def Let_def
        intro: wf_types_nth)
  show "codes_mapping_get_lp_count c (Some (lpg_name (lpgroups c ! k))) 1 tname
      (if cid < 0 then None else codes_mapping_get_anno_name_by_cid c cid)
      (if cid = -1 then 1 else 0) = lpt_count (lptypes (lpgroups c ! k) ! d)"
    using assms(3) by (intro lp_count_first [OF assms(1,2)])
      (auto simp: dest_entry_def Let_def split: if_splits)
qed

text \<open>The LP that a group-wise context with an in-range destination offset resolves to.\<close>

lemma mctx_dest:
  assumes "wf_conf c" "lp_in (lpgroups c) k rep l off" "dest_entry c k cid tname d"
    and "0 \<le> x" "x < lpt_count (lptypes (lpgroups c ! k) ! d)"
  shows "codes_mapping_get_lp_id c (Some (lpg_name (lpgroups c ! k))) (Some tname)
      (if cid < 0 then None else codes_mapping_get_anno_name_by_cid c cid)
      (if cid = -1 then 1 else 0) rep x = Inr (lp_gid (lpgroups c) k rep d x)"
proof -
  have "lp_in (lpgroups c) k rep d x"
    using assms by (auto simp: lp_in_def dest_entry_def Let_def)
  then show ?thesis
    using assms(3) by (intro get_lp_id_find [OF assms(1)]) (auto simp: dest_entry_def Let_def)
qed

lemma mctx_modulo_eq:
  fixes c k d
  defines "n \<equiv> lpt_count (lptypes (lpgroups c ! k) ! d)"
  assumes "wf_conf c" "lp_in (lpgroups c) k rep l off" "dest_entry c k cid tname d"
  shows "codes_mctx_to_lpid c (CODES_MCTX_GROUP_MODULO cid) tname (lp_gid (lpgroups c) k rep l off) =
      Inr (lp_gid (lpgroups c) k rep d (off mod n))" (is ?A)
    and "codes_mctx_to_lpid c (CODES_MCTX_GROUP_MODULO_REVERSE cid) tname
        (lp_gid (lpgroups c) k rep l off) =
      Inr (lp_gid (lpgroups c) k rep d (n - 1 - off mod n))" (is ?B)
proof -
  have k: "k < length (lpgroups c)" and off: "0 \<le> off" using assms(3) by (auto simp: lp_in_def)
  note cnt = dest_count [OF assms(2) k assms(4), folded n_def]
  have m: "0 \<le> off mod n" "off mod n < n" "c_mod off n = off mod n"
    using cnt(2) off by (simp_all add: c_mod_nonneg)
  note info = get_lp_info2_hit [OF assms(2,3)]
  have r: "0 \<le> n - 1 - off mod n" "n - 1 - off mod n < n" using m by linarith+
  show ?A
    using cnt m info mctx_dest [OF assms(2-4), of "off mod n"]
    by (simp add: codes_mctx_to_lpid_def mctx_dest_offset_def info_of_def n_def Let_def split del: if_split)
  show ?B
    using cnt m info mctx_dest [OF assms(2-4) r [unfolded n_def]]
    by (simp add: codes_mctx_to_lpid_def mctx_dest_offset_def info_of_def n_def Let_def split del: if_split)
qed

text \<open>The ratio contexts count the senders by name only, so the sender has to belong to the
  first entry of its name in the group.\<close>

lemma mctx_ratio_eq:
  fixes c k d l
  defines "n \<equiv> lpt_count (lptypes (lpgroups c ! k) ! d)"
    and "m \<equiv> lpt_count (lptypes (lpgroups c ! k) ! l)"
  assumes "wf_conf c" "lp_in (lpgroups c) k rep l off" "dest_entry c k cid tname d"
    and "\<forall>j < l. lpt_name (lptypes (lpgroups c ! k) ! j) \<noteq> lpt_name (lptypes (lpgroups c ! k) ! l)"
    and "off * n < 2 ^ 31"
  shows "codes_mctx_to_lpid c (CODES_MCTX_GROUP_RATIO cid) tname (lp_gid (lpgroups c) k rep l off) =
      Inr (lp_gid (lpgroups c) k rep d (if m \<le> n then off else off * n div m))"
    and "0 \<le> (if m \<le> n then off else off * n div m)"
    and "(if m \<le> n then off else off * n div m) < n"
proof -
  have k: "k < length (lpgroups c)" and l: "l < length (lptypes (lpgroups c ! k))"
    and off: "0 \<le> off" "off < m" using assms(4) by (auto simp: lp_in_def m_def)
  note cnt = dest_count [OF assms(3) k assms(5), folded n_def]
  have src: "codes_mapping_get_lp_count c (Some (lpg_name (lpgroups c ! k))) 1
      (lpt_name (lptypes (lpgroups c ! k) ! l)) None 1 = m"
    unfolding m_def
    by (rule lp_count_first [OF assms(3) k l]) (use assms(6) in \<open>auto simp: type_matches_def\<close>)
  have s: "s32 (off * n) = off * n"
    using assms(7) off cnt(2) by (intro s32_id) (auto intro: order_trans [of _ 0])
  have lt: "off * n div m < n"
  proof -
    have "off * n < m * n" using off cnt(2) by (intro mult_strict_right_mono) auto
    then show ?thesis
      using off by (smt (verit) div_mult_mod_eq mult.commute mult_less_cancel_left_pos pos_mod_sign)
  qed
  have d: "c_div (off * n) m = off * n div m" "0 \<le> off * n div m"
    using off cnt(2) by (simp_all add: c_div_nonneg pos_imp_zdiv_nonneg_iff)
  show bounds: "0 \<le> (if m \<le> n then off else off * n div m)"
    "(if m \<le> n then off else off * n div m) < n"
    using off lt d by auto
  show "codes_mctx_to_lpid c (CODES_MCTX_GROUP_RATIO cid) tname (lp_gid (lpgroups c) k rep l off) =
      Inr (lp_gid (lpgroups c) k rep d (if m \<le> n then off else off * n div m))"
    using cnt src s d lt get_lp_info2_hit [OF assms(3,4)]
      mctx_dest [OF assms(3-5) bounds [unfolded n_def], folded n_def]
    by (cases "m \<le> n")
      (simp_all add: codes_mctx_to_lpid_def mctx_dest_offset_def info_of_def Let_def
        split del: if_split)
qed

subsection \<open>Properties\<close>

text \<open>C17: a group-modulo context always resolves. For a sender whose group has an entry of the
  requested type, \<open>codes_mctx_to_lpid\<close> returns a valid id, of an LP of that type in the
  sender's own group and repetition, whose offset is the sender's offset modulo the number
  of destinations; the reverse context counts the same offset from the end.\<close>

theorem mctx_modulo_resolves:
  assumes "wf_conf c" and "0 \<le> s" and "s < conf_size c"
    and "codes_mapping_get_lp_info2 c s = Inr i"
    and "dest_entry c (nat (inf_group_index i)) cid tname d"
  shows "\<exists>gd j gd' j'. let n = lpt_count (lptypes (lpgroups c ! nat (inf_group_index i)) ! d) in
    codes_mctx_to_lpid c (CODES_MCTX_GROUP_MODULO cid) tname s = Inr gd \<and>
    codes_mapping_get_lp_info2 c gd = Inr j \<and>
    inf_group j = inf_group i \<and> inf_rep j = inf_rep i \<and> inf_type j = tname \<and>
    inf_offset j = inf_offset i mod n \<and>
    codes_mctx_to_lpid c (CODES_MCTX_GROUP_MODULO_REVERSE cid) tname s = Inr gd' \<and>
    codes_mapping_get_lp_info2 c gd' = Inr j' \<and>
    inf_group j' = inf_group i \<and> inf_rep j' = inf_rep i \<and> inf_type j' = tname \<and>
    inf_offset j' = n - 1 - inf_offset i mod n"
proof -
  obtain k rep l off where lp: "lp_in (lpgroups c) k rep l off"
    and s: "s = lp_gid (lpgroups c) k rep l off"
    using conf_decode [OF assms(1-3)] by blast
  have i: "i = info_of (lpgroups c) 0 k rep l off"
    using get_lp_info2_hit [OF assms(1) lp] assms(4) s by simp
  then have de: "dest_entry c k cid tname d" using assms(5) by (simp add: info_of_def)
  let ?n = "lpt_count (lptypes (lpgroups c ! k) ! d)"
  have k: "k < length (lpgroups c)" using lp by (simp add: lp_in_def)
  have n: "0 < ?n" using dest_count(2) [OF assms(1) k de] .
  have "off mod ?n < ?n" "0 \<le> off mod ?n" using n by simp_all
  then have in1: "lp_in (lpgroups c) k rep d (off mod ?n)"
    and in2: "lp_in (lpgroups c) k rep d (?n - 1 - off mod ?n)"
    using lp de by (auto simp: lp_in_def dest_entry_def Let_def)
  have tn: "lpt_name (lptypes (lpgroups c ! k) ! d) = tname"
    using de by (simp add: dest_entry_def Let_def type_matches_def)
  show ?thesis
    using mctx_modulo_eq [OF assms(1) lp de] get_lp_info2_hit [OF assms(1) in1]
      get_lp_info2_hit [OF assms(1) in2] i s tn
    by (simp add: info_of_def Let_def)
qed

lemma ex_dest_entry: "dest_entry ex_conf 0 (-1) ''modelnet'' 1"
  by (simp add: dest_entry_def ex_conf_def type_matches_def)

lemma ex_info_5: "codes_mapping_get_lp_info2 ex_conf 5 =
    Inr \<lparr>inf_group = ''MODELNET_GRP'', inf_group_index = 0, inf_type = ''server'',
         inf_type_index = 0, inf_anno = None, inf_rep = 1, inf_offset = 1\<rparr>"
  by code_simp

theorem mctx_modulo_resolves_witness:
  "\<exists>gd j. codes_mctx_to_lpid ex_conf (CODES_MCTX_GROUP_MODULO (-1)) ''modelnet'' 5 = Inr gd \<and>
    codes_mapping_get_lp_info2 ex_conf gd = Inr j \<and> inf_rep j = 1 \<and> inf_type j = ''modelnet''"
proof -
  have "5 < conf_size ex_conf" by (simp add: ex_conf_def conf_size_def group_size_def)
  with mctx_modulo_resolves [OF ex_conf_wf _ _ ex_info_5, of "-1" "''modelnet''" 1] ex_dest_entry
  show ?thesis by (auto simp: Let_def)
qed

text \<open>a group-ratio context resolves to a valid LP of the requested type in the sender's
  group and repetition; the destination offset is the sender's offset when there are enough
  destinations and is scaled by the ratio of the counts otherwise, always in range, so the
  clamp of the code is never needed.\<close>

theorem mctx_ratio_resolves:
  assumes "wf_conf c" and "0 \<le> s" and "s < conf_size c"
    and "codes_mapping_get_lp_info2 c s = Inr i"
    and "dest_entry c (nat (inf_group_index i)) cid tname d"
    and "\<forall>j < nat (inf_type_index i).
           lpt_name (lptypes (lpgroups c ! nat (inf_group_index i)) ! j) \<noteq> inf_type i"
    and "inf_offset i * lpt_count (lptypes (lpgroups c ! nat (inf_group_index i)) ! d) < 2 ^ 31"
  shows "\<exists>gd j. let ts = lptypes (lpgroups c ! nat (inf_group_index i));
                    n = lpt_count (ts ! d); m = lpt_count (ts ! nat (inf_type_index i)) in
    codes_mctx_to_lpid c (CODES_MCTX_GROUP_RATIO cid) tname s = Inr gd \<and>
    codes_mapping_get_lp_info2 c gd = Inr j \<and>
    inf_group j = inf_group i \<and> inf_rep j = inf_rep i \<and> inf_type j = tname \<and>
    inf_offset j = (if m \<le> n then inf_offset i else inf_offset i * n div m) \<and> inf_offset j < n"
proof -
  obtain k rep l off where lp: "lp_in (lpgroups c) k rep l off"
    and s: "s = lp_gid (lpgroups c) k rep l off"
    using conf_decode [OF assms(1-3)] by blast
  have i: "i = info_of (lpgroups c) 0 k rep l off"
    using get_lp_info2_hit [OF assms(1) lp] assms(4) s by simp
  then have de: "dest_entry c k cid tname d" using assms(5) by (simp add: info_of_def)
  let ?n = "lpt_count (lptypes (lpgroups c ! k) ! d)" and ?m = "lpt_count (lptypes (lpgroups c ! k) ! l)"
  have "\<forall>j < l. lpt_name (lptypes (lpgroups c ! k) ! j) \<noteq> lpt_name (lptypes (lpgroups c ! k) ! l)"
    and "off * ?n < 2 ^ 31"
    using assms(6,7) i by (auto simp: info_of_def)
  note r = mctx_ratio_eq [OF assms(1) lp de this]
  have "lp_in (lpgroups c) k rep d (if ?m \<le> ?n then off else off * ?n div ?m)"
    using r(2,3) lp de by (auto simp: lp_in_def dest_entry_def Let_def)
  then show ?thesis
    using r get_lp_info2_hit [OF assms(1)] i s de
    by (simp add: info_of_def dest_entry_def Let_def type_matches_def cong: if_cong split del: if_split)
qed

theorem mctx_ratio_resolves_witness:
  "\<exists>gd j. codes_mctx_to_lpid ex_conf (CODES_MCTX_GROUP_RATIO (-1)) ''modelnet'' 5 = Inr gd \<and>
    codes_mapping_get_lp_info2 ex_conf gd = Inr j \<and> inf_rep j = 1 \<and> inf_offset j = 0"
proof -
  have "5 < conf_size ex_conf" by (simp add: ex_conf_def conf_size_def group_size_def)
  with mctx_ratio_resolves [OF ex_conf_wf _ _ ex_info_5, of "-1" "''modelnet''" 1] ex_dest_entry
  show ?thesis by (auto simp: Let_def ex_conf_def)
qed

text \<open>a context that is set for an annotation that the configuration does not have is the
  context that ignores annotations: the lookup answers -1 for an unknown name, which is also
  the code for "ignore", so the mistake is not reported.\<close>

theorem mctx_unknown_annotation_ignored:
  assumes "a \<noteq> []" and "a \<notin> set (anno_names c)"
  shows "codes_mctx_set_group_modulo c (Some a) False = codes_mctx_set_group_modulo c None True"
proof -
  have "index_from a (anno_names c) 0 = -1" if "a \<notin> set (anno_names c)" for c
  proof -
    have "index_from a xs n = -1" if "a \<notin> set xs" for xs n
      using that by (induction xs arbitrary: n) auto
    with that show ?thesis by blast
  qed
  then show ?thesis
    using assms
    by (simp add: codes_mctx_set_group_modulo_def set_group_modulo_common_def mctx_cid_def
        codes_mapping_get_anno_cid_by_name_def get_cid_by_name_def)
qed

theorem mctx_unknown_annotation_ignored_witness:
  "codes_mctx_set_group_modulo ex_conf (Some ''disk'') False =
    codes_mctx_set_group_modulo ex_conf None True"
  by (rule mctx_unknown_annotation_ignored) (simp_all add: ex_conf_def)

end
