(* ===== verification/Quicklist.thy ===== *)
theory Quicklist
  imports Codes_Prelude
begin

text \<open>
  The intrusive doubly linked lists of codes/quicklist.h. The memory is the pair of
  fields of every \<open>struct qlist_head\<close>, by address; address 0 is NULL. Each operation
  performs the assignments of the C function in their order. A loop over a list is a
  \<open>partial_function\<close>: not returning is \<open>None\<close>.
\<close>

record qheap =
  next_of :: "nat \<Rightarrow> nat"
  prev_of :: "nat \<Rightarrow> nat"

definition set_next :: "nat \<Rightarrow> nat \<Rightarrow> qheap \<Rightarrow> qheap" where
  "set_next a v h = h\<lparr>next_of := (next_of h)(a := v)\<rparr>"

definition set_prev :: "nat \<Rightarrow> nat \<Rightarrow> qheap \<Rightarrow> qheap" where
  "set_prev a v h = h\<lparr>prev_of := (prev_of h)(a := v)\<rparr>"

lemma set_next_prev_simps [simp]:
  "next_of (set_next a v h) = (next_of h)(a := v)"
  "prev_of (set_next a v h) = prev_of h"
  "next_of (set_prev a v h) = next_of h"
  "prev_of (set_prev a v h) = (prev_of h)(a := v)"
  by (simp_all add: set_next_def set_prev_def)

subsection \<open>Operations\<close>

definition INIT_QLIST_HEAD :: "nat \<Rightarrow> qheap \<Rightarrow> qheap" where
  "INIT_QLIST_HEAD p h = set_prev p p (set_next p p h)"

definition qlist_add_between :: "nat \<Rightarrow> nat \<Rightarrow> nat \<Rightarrow> qheap \<Rightarrow> qheap" where
  "qlist_add_between newi prv nxt h =
     set_next prv newi (set_prev newi prv (set_next newi nxt (set_prev nxt newi h)))"

definition qlist_add :: "nat \<Rightarrow> nat \<Rightarrow> qheap \<Rightarrow> qheap" where
  "qlist_add newi head h = qlist_add_between newi head (next_of h head) h"

definition qlist_add_tail :: "nat \<Rightarrow> nat \<Rightarrow> qheap \<Rightarrow> qheap" where
  "qlist_add_tail newi head h = qlist_add_between newi (prev_of h head) head h"

definition qlist_del_between :: "nat \<Rightarrow> nat \<Rightarrow> qheap \<Rightarrow> qheap" where
  "qlist_del_between prv nxt h = set_next prv nxt (set_prev nxt prv h)"

definition qlist_del :: "nat \<Rightarrow> qheap \<Rightarrow> qheap" where
  "qlist_del entry h = qlist_del_between (prev_of h entry) (next_of h entry) h"

definition qlist_del_init :: "nat \<Rightarrow> qheap \<Rightarrow> qheap" where
  "qlist_del_init entry h =
     INIT_QLIST_HEAD entry (qlist_del_between (prev_of h entry) (next_of h entry) h)"

definition qlist_empty :: "nat \<Rightarrow> qheap \<Rightarrow> bool" where
  "qlist_empty head h \<longleftrightarrow> next_of h head = head"

definition qlist_pop :: "nat \<Rightarrow> qheap \<Rightarrow> nat \<times> qheap" where
  "qlist_pop head h =
     (if \<not> qlist_empty head h then (next_of h head, qlist_del (next_of h head) h) else (0, h))"

definition qlist_pop_back :: "nat \<Rightarrow> qheap \<Rightarrow> nat \<times> qheap" where
  "qlist_pop_back head h =
     (if \<not> qlist_empty head h then (prev_of h head, qlist_del (prev_of h head) h) else (0, h))"

definition qlist_splice :: "nat \<Rightarrow> nat \<Rightarrow> qheap \<Rightarrow> qheap" where
  "qlist_splice ql head h =
     (let first = next_of h ql in
      if first \<noteq> ql
      then let last' = prev_of h ql; nx = next_of h head in
           set_prev nx last' (set_next last' nx (set_next head first (set_prev first head h)))
      else h)"

text \<open>\<open>qlist_for_each\<close>: the nodes that the loop visits, in order.\<close>

partial_function (option) qlist_for_each_from :: "nat \<Rightarrow> nat \<Rightarrow> qheap \<Rightarrow> nat list option" where
  "qlist_for_each_from pos head h =
     (if pos \<noteq> head
      then Option.bind (qlist_for_each_from (next_of h pos) head h) (\<lambda>r. Some (pos # r))
      else Some [])"

definition qlist_for_each :: "nat \<Rightarrow> qheap \<Rightarrow> nat list option" where
  "qlist_for_each head h = qlist_for_each_from (next_of h head) head h"

partial_function (option) qlist_find_from ::
    "nat \<Rightarrow> nat \<Rightarrow> (nat \<Rightarrow> bool) \<Rightarrow> qheap \<Rightarrow> nat option" where
  "qlist_find_from pos head compare h =
     (if pos \<noteq> head
      then if compare pos then Some pos
           else qlist_find_from (next_of h pos) head compare h
      else Some 0)"

definition qlist_find :: "nat \<Rightarrow> (nat \<Rightarrow> bool) \<Rightarrow> qheap \<Rightarrow> nat option" where
  "qlist_find ql compare h = qlist_find_from (next_of h ql) ql compare h"

partial_function (option) qlist_exists_from :: "nat \<Rightarrow> nat \<Rightarrow> nat \<Rightarrow> qheap \<Rightarrow> bool option" where
  "qlist_exists_from pos head qlink h =
     (if pos \<noteq> head
      then if pos = qlink then Some True
           else qlist_exists_from (next_of h pos) head qlink h
      else Some False)"

definition qlist_exists :: "nat \<Rightarrow> nat \<Rightarrow> qheap \<Rightarrow> bool option" where
  "qlist_exists ql qlink h =
     (if qlist_empty ql h then Some False
      else qlist_exists_from (next_of h ql) ql qlink h)"

partial_function (option) qlist_count_from :: "nat \<Rightarrow> nat \<Rightarrow> int \<Rightarrow> qheap \<Rightarrow> int option" where
  "qlist_count_from pos head count h =
     (if pos \<noteq> head then qlist_count_from (next_of h pos) head (count + 1) h else Some count)"

definition qlist_count :: "nat \<Rightarrow> qheap \<Rightarrow> int option" where
  "qlist_count ql h = qlist_count_from (next_of h ql) ql 0 h"

text \<open>The two walks of \<open>qlist_add_at_index\<close>: \<open>while (index++)\<close> from a negative index and
  \<open>while (index--)\<close> from a non-negative one both take \<open>|index|\<close> steps.\<close>

primrec walk :: "(nat \<Rightarrow> nat) \<Rightarrow> nat \<Rightarrow> nat \<Rightarrow> nat" where
  "walk f 0 p = p"
| "walk f (Suc n) p = walk f n (f p)"

definition qlist_add_at_index :: "nat \<Rightarrow> nat \<Rightarrow> int \<Rightarrow> qheap \<Rightarrow> qheap" where
  "qlist_add_at_index newi ql index h =
     (let p = (if index < 0 then walk (prev_of h) (nat (- index)) ql
               else walk (next_of h) (nat index) ql)
      in qlist_add_between newi p (next_of h p) h)"

text \<open>\<open>are_qlist_equal\<close>: the element loop carries the counter \<open>i\<close> of the final
  assertions. \<open>cmp\<close> compares the structures that the two nodes are embedded in.\<close>

partial_function (option) qlist_equal_from ::
    "nat \<Rightarrow> nat \<Rightarrow> int \<Rightarrow> nat \<Rightarrow> nat \<Rightarrow> int \<Rightarrow> (nat \<Rightarrow> nat \<Rightarrow> bool) \<Rightarrow> qheap \<Rightarrow> bool result option" where
  "qlist_equal_from el er i left right num_elems cmp h =
     (if el \<noteq> left
      then if \<not> cmp el er then Some (Inr False)
           else qlist_equal_from (next_of h el) (next_of h er) (i + 1) left right num_elems cmp h
      else Some (bind_res (c_assert (i = num_elems)) (\<lambda>_.
                 bind_res (c_assert (er = right)) (\<lambda>_. Inr True))))"

definition are_qlist_equal ::
    "nat \<Rightarrow> nat \<Rightarrow> (nat \<Rightarrow> nat \<Rightarrow> bool) \<Rightarrow> qheap \<Rightarrow> bool result option" where
  "are_qlist_equal left right cmp h =
     Option.bind (qlist_count left h) (\<lambda>num_elems.
       Option.bind (qlist_count right h) (\<lambda>n.
         if num_elems \<noteq> n then Some (Inr False)
         else qlist_equal_from (next_of h left) (next_of h right) 0 left right num_elems cmp h))"

subsection \<open>Rings\<close>

text \<open>Consecutive nodes of a segment point at each other; a list head with its entries is
  a segment that returns to the head.\<close>

fun linked :: "qheap \<Rightarrow> nat list \<Rightarrow> bool" where
  "linked h [] = True"
| "linked h [a] = True"
| "linked h (a # b # xs) \<longleftrightarrow> next_of h a = b \<and> prev_of h b = a \<and> linked h (b # xs)"

definition ring :: "qheap \<Rightarrow> nat \<Rightarrow> nat list \<Rightarrow> bool" where
  "ring h hd' xs \<longleftrightarrow> distinct (hd' # xs) \<and> 0 \<notin> set (hd' # xs) \<and> linked h (hd' # xs @ [hd'])"

lemma linked_append:
  "linked h (xs @ a # ys) \<longleftrightarrow> linked h (xs @ [a]) \<and> linked h (a # ys)"
proof (induction xs)
  case (Cons x xs)
  then show ?case by (cases xs) auto
qed simp

lemma linked_cong:
  assumes "linked h xs"
    and "\<And>a. a \<in> set (butlast xs) \<Longrightarrow> next_of h' a = next_of h a"
    and "\<And>a. a \<in> set (tl xs) \<Longrightarrow> prev_of h' a = prev_of h a"
  shows "linked h' xs"
  using assms
proof (induction h xs rule: linked.induct)
  case (3 h a b xs)
  then show ?case by (cases xs) auto
qed simp_all

lemma linked_prev_last: "linked h (a # xs @ [b]) \<Longrightarrow> prev_of h b = last (a # xs)"
proof (induction xs arbitrary: a)
  case (Cons x xs)
  then show ?case by simp
qed simp

lemma linked_next_hd: "linked h (a # xs @ [b]) \<Longrightarrow> next_of h a = hd (xs @ [b])"
  by (cases xs) auto

lemma ring_next: "ring h l xs \<Longrightarrow> next_of h l = hd (xs @ [l])"
  using linked_next_hd [of h l xs l] by (simp add: ring_def)

lemma ring_prev: "ring h l xs \<Longrightarrow> prev_of h l = last (l # xs)"
  using linked_prev_last [of h l xs l] by (simp add: ring_def)

lemma ring_empty_iff: "ring h l xs \<Longrightarrow> qlist_empty l h \<longleftrightarrow> xs = []"
  by (cases xs) (auto simp: qlist_empty_def ring_next ring_def)

text \<open>A ring does not notice changes of other nodes.\<close>

lemma ring_frame:
  assumes "ring h l xs"
    and "\<And>a. a \<in> set (l # xs) \<Longrightarrow> next_of h' a = next_of h a \<and> prev_of h' a = prev_of h a"
  shows "ring h' l xs"
proof -
  have "linked h' (l # xs @ [l])"
    by (rule linked_cong [of h]) (use assms in \<open>auto simp: ring_def butlast_append\<close>)
  with assms(1) show ?thesis by (simp add: ring_def)
qed

subsection \<open>Insertion and deletion\<close>

lemma linked_join:
  "linked h (ps @ p # n # ns) \<longleftrightarrow>
     linked h (ps @ [p]) \<and> next_of h p = n \<and> prev_of h n = p \<and> linked h (n # ns)"
  using linked_append [of h ps p "n # ns"] by auto

text \<open>A ring cut between two neighbours \<open>p\<close> and \<open>n\<close>.\<close>

lemma ring_cut:
  assumes "ring h l (us @ vs)"
  obtains ps p n ns where "l # us = ps @ [p]" and "vs @ [l] = n # ns"
    and "linked h (ps @ [p])" and "linked h (n # ns)"
    and "next_of h p = n" and "prev_of h n = p" and "p = last (l # us)" and "n = hd (vs @ [l])"
proof -
  obtain ps p where 1: "l # us = ps @ [p]" by (metis rev_exhaust list.distinct(1))
  obtain n ns where 2: "vs @ [l] = n # ns" by (cases "vs @ [l]") auto
  have "linked h ((l # us) @ (vs @ [l]))" using assms by (simp add: ring_def)
  then have "linked h (ps @ p # n # ns)" unfolding 1 2 by simp
  moreover have "p = last (l # us)" "n = hd (vs @ [l])" unfolding 1 2 by simp_all
  ultimately show ?thesis using that [OF 1 2] unfolding linked_join by blast
qed

lemma ring_insert:
  assumes ring: "ring h l (us @ vs)" and fresh: "a \<notin> set (l # us @ vs)" "a \<noteq> 0"
  shows "ring (qlist_add_between a (last (l # us)) (hd (vs @ [l])) h) l (us @ a # vs)"
proof -
  obtain ps p n ns where c: "l # us = ps @ [p]" "vs @ [l] = n # ns"
    "linked h (ps @ [p])" "linked h (n # ns)" "p = last (l # us)" "n = hd (vs @ [l])"
    using ring by (rule ring_cut)
  let ?h = "qlist_add_between a p n h"
  have d: "distinct (l # us @ vs)" using ring by (simp add: ring_def)
  have sets: "set (ps @ [p]) = set (l # us)" "set (n # ns) = set (vs @ [l])"
    using c(1,2) by metis+
  have dps: "distinct (ps @ [p])" using d c(1) by (metis distinct_append append_Cons)
  have dns: "distinct (n # ns)" unfolding c(2) [symmetric] using d by simp
  have tl_ps: "set (tl (ps @ [p])) = set us" using c(1) by (metis list.sel(3))
  have bl_ns: "set (butlast (n # ns)) = set vs" using c(2) by (metis butlast_snoc)
  have "p \<noteq> a" "n \<noteq> a" using sets fresh by auto
  have nus: "n \<notin> set us" using sets(2) d by auto
  have pvs: "p \<notin> set vs" using sets(1) d by auto
  have "linked ?h (ps @ [p])"
    by (rule linked_cong [OF c(3)])
      (use dps tl_ps nus fresh sets in \<open>auto simp: qlist_add_between_def\<close>)
  moreover have "linked ?h (n # ns)"
    by (rule linked_cong [OF c(4)])
      (use bl_ns pvs dns fresh sets in \<open>auto simp: qlist_add_between_def\<close>)
  moreover have "next_of ?h p = a" "prev_of ?h a = p" "next_of ?h a = n" "prev_of ?h n = a"
    using \<open>p \<noteq> a\<close> \<open>n \<noteq> a\<close> by (simp_all add: qlist_add_between_def)
  ultimately have "linked ?h (ps @ p # a # n # ns)" by (simp add: linked_join)
  then have "linked ?h ((l # us) @ a # (vs @ [l]))" unfolding c(1,2) by simp
  with d fresh ring show ?thesis unfolding ring_def c(5,6) by simp
qed

lemma ring_remove:
  assumes ring: "ring h l (us @ a # vs)"
  shows "ring (qlist_del a h) l (us @ vs)"
proof -
  obtain ps p n' ns' where c: "l # us = ps @ [p]" "linked h (ps @ [p])" "prev_of h a = p"
    "(a # vs) @ [l] = n' # ns'" "linked h (n' # ns')" "n' = a"
    using ring_cut [OF ring] by (metis append_Cons list.sel(1))
  obtain n ns where v: "vs @ [l] = n # ns" by (cases "vs @ [l]") auto
  have "linked h (a # n # ns)" using c(4-6) v by (metis append_Cons)
  then have l2: "linked h (n # ns)" "next_of h a = n" by auto
  let ?h = "qlist_del a h"
  have hd: "?h = set_next p n (set_prev n p h)"
    by (simp add: qlist_del_def qlist_del_between_def c(3) l2(2))
  have d: "distinct (l # us @ a # vs)" using ring by (simp add: ring_def)
  have sets: "set (ps @ [p]) = set (l # us)" "set (n # ns) = set (vs @ [l])"
    using c(1) v by metis+
  have dps: "distinct (ps @ [p])" using d c(1) by (metis distinct_append append_Cons)
  have dns: "distinct (n # ns)" unfolding v [symmetric] using d by simp
  have tl_ps: "set (tl (ps @ [p])) = set us" using c(1) by (metis list.sel(3))
  have bl_ns: "set (butlast (n # ns)) = set vs" using v by (metis butlast_snoc)
  have nus: "n \<notin> set us" using sets(2) d by auto
  have pvs: "p \<notin> set vs" using sets(1) d by auto
  have "linked ?h (ps @ [p])"
    unfolding hd by (rule linked_cong [OF c(2)]) (use dps tl_ps nus sets in auto)
  moreover have "linked ?h (n # ns)"
    unfolding hd by (rule linked_cong [OF l2(1)]) (use bl_ns pvs dns sets in auto)
  moreover have "next_of ?h p = n" "prev_of ?h n = p" by (simp_all add: hd)
  ultimately have "linked ?h (ps @ p # n # ns)" by (simp add: linked_join)
  then have "linked ?h ((l # us) @ (vs @ [l]))" unfolding c(1) v by simp
  with d ring show ?thesis by (simp add: ring_def)
qed

text \<open>Both operations leave every node outside the list as it was.\<close>

lemma ring_nodes_near:
  assumes "ring h l (us @ a # vs)"
  shows "prev_of h a \<in> set (l # us)" and "next_of h a \<in> set (vs @ [l])"
proof -
  have "linked h ((l # us) @ a # (vs @ [l]))" using assms by (simp add: ring_def)
  then have 1: "linked h ((l # us) @ [a])" "linked h (a # (vs @ [l]))"
    using linked_append by blast+
  have "prev_of h a = last (l # us)" using linked_prev_last [of h l us a] 1(1) by simp
  then show "prev_of h a \<in> set (l # us)" by (metis last_in_set list.distinct(1))
  have "next_of h a = hd (vs @ [l])" using linked_next_hd [of h a vs l] 1(2) by simp
  then show "next_of h a \<in> set (vs @ [l])" by (metis hd_in_set snoc_eq_iff_butlast)
qed

definition same_outside :: "nat set \<Rightarrow> qheap \<Rightarrow> qheap \<Rightarrow> bool" where
  "same_outside S h h' \<longleftrightarrow>
     (\<forall>b. b \<notin> S \<longrightarrow> next_of h' b = next_of h b \<and> prev_of h' b = prev_of h b)"

lemma ring_same_outside:
  "same_outside S h h' \<Longrightarrow> ring h m ys \<Longrightarrow> set (m # ys) \<inter> S = {} \<Longrightarrow> ring h' m ys"
  by (rule ring_frame [of h]) (auto simp: same_outside_def)

lemma add_between_same_outside:
  "{a, p, n} \<subseteq> S \<Longrightarrow> same_outside S h (qlist_add_between a p n h)"
  by (auto simp: same_outside_def qlist_add_between_def)

lemma last_in_ring: "last (l # us) \<in> set (l # us)"
  by (metis last_in_set list.distinct(1))

lemma hd_in_ring: "hd (vs @ [l]) \<in> set (l # vs)"
  by (cases vs) auto

lemma qlist_add_ring:
  assumes "ring h l xs" "a \<notin> set (l # xs)" "a \<noteq> 0"
  shows "ring (qlist_add a l h) l (a # xs)"
    and "same_outside (set (l # a # xs)) h (qlist_add a l h)"
proof -
  have eq: "qlist_add a l h = qlist_add_between a l (hd (xs @ [l])) h"
    by (simp add: qlist_add_def ring_next [OF assms(1)])
  show "ring (qlist_add a l h) l (a # xs)"
    unfolding eq using ring_insert [of h l "[]" xs a] assms by simp
  show "same_outside (set (l # a # xs)) h (qlist_add a l h)"
    unfolding eq by (rule add_between_same_outside) (use hd_in_ring [of xs l] in auto)
qed

lemma qlist_add_tail_ring:
  assumes "ring h l xs" "a \<notin> set (l # xs)" "a \<noteq> 0"
  shows "ring (qlist_add_tail a l h) l (xs @ [a])"
    and "same_outside (set (l # a # xs)) h (qlist_add_tail a l h)"
proof -
  have eq: "qlist_add_tail a l h = qlist_add_between a (last (l # xs)) l h"
    using ring_prev [OF assms(1)] by (simp only: qlist_add_tail_def)
  show "ring (qlist_add_tail a l h) l (xs @ [a])"
    unfolding eq using ring_insert [of h l xs "[]" a] assms by simp
  show "same_outside (set (l # a # xs)) h (qlist_add_tail a l h)"
    unfolding eq by (rule add_between_same_outside) (use last_in_ring [of l xs] in auto)
qed

lemma qlist_del_ring:
  assumes "ring h l (us @ a # vs)"
  shows "ring (qlist_del a h) l (us @ vs)"
    and "same_outside (set (l # us @ a # vs)) h (qlist_del a h)"
    and "next_of (qlist_del a h) a = next_of h a"
proof -
  show "ring (qlist_del a h) l (us @ vs)" by (rule ring_remove [OF assms])
  have "a \<noteq> prev_of h a"
    using ring_nodes_near(1) [OF assms] assms by (auto simp: ring_def)
  then show "next_of (qlist_del a h) a = next_of h a"
    by (simp add: qlist_del_def qlist_del_between_def)
  show "same_outside (set (l # us @ a # vs)) h (qlist_del a h)"
    using ring_nodes_near [OF assms]
    by (auto simp: same_outside_def qlist_del_def qlist_del_between_def)
qed

lemma qlist_del_init_ring:
  assumes "ring h l (us @ a # vs)"
  shows "ring (qlist_del_init a h) l (us @ vs)" and "ring (qlist_del_init a h) a []"
proof -
  have h: "qlist_del_init a h = INIT_QLIST_HEAD a (qlist_del a h)"
    by (simp add: qlist_del_init_def qlist_del_def)
  show "ring (qlist_del_init a h) l (us @ vs)"
    unfolding h by (rule ring_frame [OF qlist_del_ring(1) [OF assms]])
      (use assms in \<open>auto simp: INIT_QLIST_HEAD_def ring_def\<close>)
  show "ring (qlist_del_init a h) a []"
    using assms by (simp add: h INIT_QLIST_HEAD_def ring_def)
qed

lemma INIT_QLIST_HEAD_ring: "p \<noteq> 0 \<Longrightarrow> ring (INIT_QLIST_HEAD p h) p []"
  by (simp add: INIT_QLIST_HEAD_def ring_def)

lemma qlist_pop_ring:
  assumes "ring h l (x # xs)"
  shows "fst (qlist_pop l h) = x" and "ring (snd (qlist_pop l h)) l xs"
    and "same_outside (set (l # x # xs)) h (snd (qlist_pop l h))"
proof -
  have "qlist_pop l h = (x, qlist_del x h)"
    using ring_empty_iff [OF assms] ring_next [OF assms] by (simp add: qlist_pop_def)
  with qlist_del_ring [of h l "[]" x xs] assms
  show "fst (qlist_pop l h) = x" "ring (snd (qlist_pop l h)) l xs"
    "same_outside (set (l # x # xs)) h (snd (qlist_pop l h))" by simp_all
qed

lemma qlist_pop_back_ring:
  assumes "ring h l (xs @ [x])"
  shows "fst (qlist_pop_back l h) = x" and "ring (snd (qlist_pop_back l h)) l xs"
    and "same_outside (set (l # x # xs)) h (snd (qlist_pop_back l h))"
proof -
  have "qlist_pop_back l h = (x, qlist_del x h)"
    using ring_empty_iff [OF assms] ring_prev [OF assms] by (simp add: qlist_pop_back_def)
  with qlist_del_ring [of h l xs x "[]"] assms
  show "fst (qlist_pop_back l h) = x" "ring (snd (qlist_pop_back l h)) l xs"
    "same_outside (set (l # x # xs)) h (snd (qlist_pop_back l h))"
    by (simp_all add: insert_commute)
qed

lemma qlist_pop_empty:
  "ring h l [] \<Longrightarrow> qlist_pop l h = (0, h) \<and> qlist_pop_back l h = (0, h)"
  by (simp add: qlist_pop_def qlist_pop_back_def ring_empty_iff)

subsection \<open>The contract of a double-ended queue\<close>

text \<open>
  What the simulator's queues rely on. \<open>lst h l xs\<close>: in memory \<open>h\<close> the head \<open>l\<close> holds the
  entries \<open>xs\<close>; \<open>same S h h'\<close>: only the nodes of \<open>S\<close> may differ.
\<close>

locale qlist_contract =
  fixes lst :: "'h \<Rightarrow> nat \<Rightarrow> nat list \<Rightarrow> bool"
    and same :: "nat set \<Rightarrow> 'h \<Rightarrow> 'h \<Rightarrow> bool"
    and add :: "nat \<Rightarrow> nat \<Rightarrow> 'h \<Rightarrow> 'h"
    and add_tail :: "nat \<Rightarrow> nat \<Rightarrow> 'h \<Rightarrow> 'h"
    and pop :: "nat \<Rightarrow> 'h \<Rightarrow> nat \<times> 'h"
    and pop_back :: "nat \<Rightarrow> 'h \<Rightarrow> nat \<times> 'h"
  assumes nodes: "lst h l xs \<Longrightarrow> distinct (l # xs) \<and> 0 \<notin> set (l # xs)"
    and frame: "same S h h' \<Longrightarrow> lst h m ys \<Longrightarrow> set (m # ys) \<inter> S = {} \<Longrightarrow> lst h' m ys"
    and add: "lst h l xs \<Longrightarrow> a \<notin> set (l # xs) \<Longrightarrow> a \<noteq> 0 \<Longrightarrow>
      lst (add a l h) l (a # xs) \<and> same (set (l # a # xs)) h (add a l h)"
    and add_tail: "lst h l xs \<Longrightarrow> a \<notin> set (l # xs) \<Longrightarrow> a \<noteq> 0 \<Longrightarrow>
      lst (add_tail a l h) l (xs @ [a]) \<and> same (set (l # a # xs)) h (add_tail a l h)"
    and pop: "lst h l (x # xs) \<Longrightarrow> fst (pop l h) = x \<and> lst (snd (pop l h)) l xs \<and>
      same (set (l # x # xs)) h (snd (pop l h))"
    and pop_back: "lst h l (xs @ [x]) \<Longrightarrow> fst (pop_back l h) = x \<and>
      lst (snd (pop_back l h)) l xs \<and> same (set (l # x # xs)) h (snd (pop_back l h))"
    and pop_Nil: "lst h l [] \<Longrightarrow> pop l h = (0, h) \<and> pop_back l h = (0, h)"
begin

text \<open>The two reversal patterns of the event handlers: an entry appended by a forward
  handler is what the reverse handler takes off the back, and an entry that a forward
  handler took off the front can be put back there.\<close>

lemma undo_add_tail:
  assumes "lst h l xs" "a \<notin> set (l # xs)" "a \<noteq> 0"
  shows "fst (pop_back l (add_tail a l h)) = a"
    and "lst (snd (pop_back l (add_tail a l h))) l xs"
  using add_tail [OF assms] pop_back by blast+

lemma undo_pop:
  assumes "lst h l (x # xs)"
  shows "lst (add x l (snd (pop l h))) l (x # xs)"
  using nodes [OF assms] pop [OF assms] add [of "snd (pop l h)" l xs x] by auto

text \<open>First in, first out.\<close>

lemma add_tail_all:
  "lst h l xs \<Longrightarrow> distinct (l # xs @ as) \<Longrightarrow> 0 \<notin> set as \<Longrightarrow>
     lst (fold (\<lambda>a. add_tail a l) as h) l (xs @ as)"
proof (induction as arbitrary: h xs)
  case (Cons a as)
  then have "lst (add_tail a l h) l (xs @ [a])" using add_tail [of h l xs a] by auto
  with Cons.IH [of "add_tail a l h" "xs @ [a]"] Cons.prems show ?case by simp
qed simp

lemma fifo:
  assumes "lst h l []" "distinct (l # a # as)" "0 \<notin> set (a # as)"
  shows "fst (pop l (fold (\<lambda>a. add_tail a l) (a # as) h)) = a"
  using add_tail_all [of h l "[]" "a # as"] assms pop [of _ l a as] by simp

end

interpretation ql: qlist_contract ring same_outside qlist_add qlist_add_tail qlist_pop
  qlist_pop_back
proof
  show "ring h l xs \<Longrightarrow> distinct (l # xs) \<and> 0 \<notin> set (l # xs)" for h l xs
    by (simp add: ring_def)
  show "same_outside S h h' \<Longrightarrow> ring h m ys \<Longrightarrow> set (m # ys) \<inter> S = {} \<Longrightarrow> ring h' m ys"
    for S h h' m ys by (rule ring_same_outside)
  show "ring (qlist_add a l h) l (a # xs) \<and> same_outside (set (l # a # xs)) h (qlist_add a l h)"
    if "ring h l xs" "a \<notin> set (l # xs)" "a \<noteq> 0" for h l xs a
    using qlist_add_ring [OF that] by blast
  show "ring (qlist_add_tail a l h) l (xs @ [a]) \<and>
      same_outside (set (l # a # xs)) h (qlist_add_tail a l h)"
    if "ring h l xs" "a \<notin> set (l # xs)" "a \<noteq> 0" for h l xs a
    using qlist_add_tail_ring [OF that] by blast
qed (simp_all add: qlist_pop_ring qlist_pop_back_ring qlist_pop_empty del: set_simps)

subsection \<open>Sequences of operations\<close>

datatype qop = Add nat | AddTail nat | Pop | PopBack

fun run_qops :: "qop list \<Rightarrow> nat \<Rightarrow> qheap \<Rightarrow> nat list \<times> qheap" where
  "run_qops [] l h = ([], h)"
| "run_qops (Add a # ops) l h = run_qops ops l (qlist_add a l h)"
| "run_qops (AddTail a # ops) l h = run_qops ops l (qlist_add_tail a l h)"
| "run_qops (Pop # ops) l h =
     (let (x, h1) = qlist_pop l h; (out, h2) = run_qops ops l h1 in (x # out, h2))"
| "run_qops (PopBack # ops) l h =
     (let (x, h1) = qlist_pop_back l h; (out, h2) = run_qops ops l h1 in (x # out, h2))"

text \<open>The same on a plain list; popping an empty list gives NULL.\<close>

fun spec_qops :: "qop list \<Rightarrow> nat list \<Rightarrow> nat list \<times> nat list" where
  "spec_qops [] xs = ([], xs)"
| "spec_qops (Add a # ops) xs = spec_qops ops (a # xs)"
| "spec_qops (AddTail a # ops) xs = spec_qops ops (xs @ [a])"
| "spec_qops (Pop # ops) xs =
     (case xs of [] \<Rightarrow> (let (out, ys) = spec_qops ops [] in (0 # out, ys))
      | y # zs \<Rightarrow> (let (out, ys) = spec_qops ops zs in (y # out, ys)))"
| "spec_qops (PopBack # ops) xs =
     (if xs = [] then (let (out, ys) = spec_qops ops [] in (0 # out, ys))
      else (let (out, ys) = spec_qops ops (butlast xs) in (last xs # out, ys)))"

text \<open>Every entry that is added is not in the list at that time.\<close>

fun qops_ok :: "qop list \<Rightarrow> nat \<Rightarrow> nat list \<Rightarrow> bool" where
  "qops_ok [] l xs = True"
| "qops_ok (Add a # ops) l xs \<longleftrightarrow> a \<noteq> 0 \<and> a \<notin> set (l # xs) \<and> qops_ok ops l (a # xs)"
| "qops_ok (AddTail a # ops) l xs \<longleftrightarrow> a \<noteq> 0 \<and> a \<notin> set (l # xs) \<and> qops_ok ops l (xs @ [a])"
| "qops_ok (Pop # ops) l xs \<longleftrightarrow> qops_ok ops l (tl xs)"
| "qops_ok (PopBack # ops) l xs \<longleftrightarrow> qops_ok ops l (butlast xs)"

fun qops_nodes :: "qop list \<Rightarrow> nat set" where
  "qops_nodes [] = {}"
| "qops_nodes (Add a # ops) = insert a (qops_nodes ops)"
| "qops_nodes (AddTail a # ops) = insert a (qops_nodes ops)"
| "qops_nodes (Pop # ops) = qops_nodes ops"
| "qops_nodes (PopBack # ops) = qops_nodes ops"

lemma run_qops_refines:
  assumes "ring h l xs" and "qops_ok ops l xs"
    and "ring h m ys" and "set (m # ys) \<inter> (set (l # xs) \<union> qops_nodes ops) = {}"
  shows "fst (run_qops ops l h) = fst (spec_qops ops xs) \<and>
    ring (snd (run_qops ops l h)) l (snd (spec_qops ops xs)) \<and>
    ring (snd (run_qops ops l h)) m ys"
  using assms
proof (induction ops arbitrary: h xs)
  case (Cons op ops)
  note IH = Cons.IH
  show ?case
  proof (cases op)
    case (Add a)
    have "ring (qlist_add a l h) l (a # xs)" "ring (qlist_add a l h) m ys"
      using Cons.prems Add ql.add [of h l xs a] ql.frame [of _ h "qlist_add a l h" m ys] by auto
    then show ?thesis using IH [of "qlist_add a l h" "a # xs"] Cons.prems Add by auto
  next
    case (AddTail a)
    have "ring (qlist_add_tail a l h) l (xs @ [a])" "ring (qlist_add_tail a l h) m ys"
      using Cons.prems AddTail ql.add_tail [of h l xs a]
        ql.frame [of _ h "qlist_add_tail a l h" m ys] by auto
    then show ?thesis using IH [of "qlist_add_tail a l h" "xs @ [a]"] Cons.prems AddTail by auto
  next
    case Pop
    show ?thesis
    proof (cases xs)
      case Nil
      then show ?thesis
        using IH [of h "[]"] Cons.prems Pop ql.pop_Nil [of h l] by (simp add: split_beta)
    next
      case (Cons x zs)
      let ?h = "snd (qlist_pop l h)"
      have "fst (qlist_pop l h) = x" "ring ?h l zs" "ring ?h m ys"
        using Cons.prems Cons ql.pop [of h l x zs] ql.frame [of _ h ?h m ys] by auto
      then show ?thesis using IH [of ?h zs] Cons.prems Pop Cons by (simp add: split_beta)
    qed
  next
    case PopBack
    show ?thesis
    proof (cases xs rule: rev_cases)
      case Nil
      then show ?thesis
        using IH [of h "[]"] Cons.prems PopBack ql.pop_Nil [of h l] by (simp add: split_beta)
    next
      case (snoc zs x)
      let ?h = "snd (qlist_pop_back l h)"
      have "fst (qlist_pop_back l h) = x" "ring ?h l zs" "ring ?h m ys"
        using Cons.prems snoc ql.pop_back [of h l zs x] ql.frame [of _ h ?h m ys] by auto
      then show ?thesis using IH [of ?h zs] Cons.prems PopBack snoc by (simp add: split_beta)
    qed
  qed
qed simp

subsection \<open>Loops\<close>

lemma linked_tail: "linked h (a # xs) \<Longrightarrow> linked h xs"
  by (cases xs) auto

text \<open>A walk along the entries of a ring ends at its head.\<close>

lemma for_each_from_segment:
  "linked h (xs @ [l]) \<Longrightarrow> l \<notin> set xs \<Longrightarrow> qlist_for_each_from (hd (xs @ [l])) l h = Some xs"
proof (induction xs)
  case Nil
  then show ?case by (simp add: qlist_for_each_from.simps)
next
  case (Cons x xs)
  then have "next_of h x = hd (xs @ [l])" using linked_next_hd [of h x xs l] by simp
  then show ?case
    using Cons linked_tail [of h x "xs @ [l]"]
    by (subst qlist_for_each_from.simps) (auto simp: qlist_for_each_from.simps)
qed

lemma find_from_segment:
  "linked h (xs @ [l]) \<Longrightarrow> l \<notin> set xs \<Longrightarrow>
     qlist_find_from (hd (xs @ [l])) l P h =
       Some (case List.find P xs of None \<Rightarrow> 0 | Some a \<Rightarrow> a)"
proof (induction xs)
  case Nil
  then show ?case by (simp add: qlist_find_from.simps)
next
  case (Cons x xs)
  then have "next_of h x = hd (xs @ [l])" using linked_next_hd [of h x xs l] by simp
  then show ?case
    using Cons linked_tail [of h x "xs @ [l]"] by (subst qlist_find_from.simps) auto
qed

lemma exists_from_segment:
  "linked h (xs @ [l]) \<Longrightarrow> l \<notin> set xs \<Longrightarrow>
     qlist_exists_from (hd (xs @ [l])) l q h = Some (q \<in> set xs)"
proof (induction xs)
  case Nil
  then show ?case by (simp add: qlist_exists_from.simps)
next
  case (Cons x xs)
  then have "next_of h x = hd (xs @ [l])" using linked_next_hd [of h x xs l] by simp
  then show ?case
    using Cons linked_tail [of h x "xs @ [l]"] by (subst qlist_exists_from.simps) auto
qed

lemma count_from_segment:
  "linked h (xs @ [l]) \<Longrightarrow> l \<notin> set xs \<Longrightarrow>
     qlist_count_from (hd (xs @ [l])) l c h = Some (c + int (length xs))"
proof (induction xs arbitrary: c)
  case Nil
  then show ?case by (simp add: qlist_count_from.simps)
next
  case (Cons x xs)
  then have "next_of h x = hd (xs @ [l])" using linked_next_hd [of h x xs l] by simp
  then show ?case
    using Cons linked_tail [of h x "xs @ [l]"] by (subst qlist_count_from.simps) auto
qed

lemma ring_segment:
  assumes "ring h l xs"
  shows "linked h (xs @ [l])" and "l \<notin> set xs" and "next_of h l = hd (xs @ [l])"
  using assms linked_tail [of h l "xs @ [l]"] ring_next [OF assms] by (auto simp: ring_def)

lemma ring_loops:
  assumes "ring h l xs"
  shows "qlist_for_each l h = Some xs"
    and "qlist_count l h = Some (int (length xs))"
    and "qlist_exists l q h = Some (q \<in> set xs)"
    and "qlist_find l P h = Some (case List.find P xs of None \<Rightarrow> 0 | Some a \<Rightarrow> a)"
  using ring_segment [OF assms] ring_empty_iff [OF assms]
  by (auto simp: qlist_for_each_def qlist_count_def qlist_exists_def qlist_find_def
      for_each_from_segment count_from_segment exists_from_segment find_from_segment
      simp del: hd_append2)

lemma equal_from_segment:
  assumes "linked h (xs @ [l])" "l \<notin> set xs" "linked h (ys @ [r])" "length xs = length ys"
  shows "qlist_equal_from (hd (xs @ [l])) (hd (ys @ [r])) i l r (i + int (length xs)) cmp h =
    Some (Inr (list_all2 cmp xs ys))"
  using assms(4,1,2,3)
proof (induction xs ys arbitrary: i rule: list_induct2)
  case Nil
  then show ?case by (simp add: qlist_equal_from.simps)
next
  case (Cons x xs y ys)
  have "next_of h x = hd (xs @ [l])" "next_of h y = hd (ys @ [r])"
    using Cons.prems linked_next_hd [of h x xs l] linked_next_hd [of h y ys r] by simp_all
  moreover have "linked h (xs @ [l])" "linked h (ys @ [r])"
    using Cons.prems linked_tail [of h x "xs @ [l]"] linked_tail [of h y "ys @ [r]"] by simp_all
  ultimately show ?case
    using Cons.IH [of "i + 1"] Cons.prems
    by (subst qlist_equal_from.simps) (auto simp: algebra_simps)
qed

text \<open>Positions of a ring: following \<open>next\<close> counts up, following \<open>prev\<close> counts down.\<close>

lemma linked_nth:
  "linked h zs \<Longrightarrow> Suc i < length zs \<Longrightarrow>
     next_of h (zs ! i) = zs ! Suc i \<and> prev_of h (zs ! Suc i) = zs ! i"
proof (induction h zs arbitrary: i rule: linked.induct)
  case (3 h a b xs)
  then show ?case by (cases i) auto
qed simp_all

lemma walk_next: "linked h zs \<Longrightarrow> i + n < length zs \<Longrightarrow> walk (next_of h) n (zs ! i) = zs ! (i + n)"
proof (induction n arbitrary: i)
  case (Suc n)
  then show ?case using linked_nth [of h zs i] Suc.IH [of "Suc i"] by simp
qed simp

lemma walk_prev: "linked h zs \<Longrightarrow> i + n < length zs \<Longrightarrow> walk (prev_of h) n (zs ! (i + n)) = zs ! i"
proof (induction n arbitrary: i)
  case (Suc n)
  then show ?case using linked_nth [of h zs "i + n"] Suc.IH [of i] by simp
qed simp

lemma ring_insert_at:
  assumes "ring h l xs" "a \<notin> set (l # xs)" "a \<noteq> 0" "i \<le> length xs"
  shows "ring (qlist_add_between a ((l # xs) ! i) (next_of h ((l # xs) ! i)) h) l
           (take i xs @ a # drop i xs)"
proof -
  have xs: "take i xs @ drop i xs = xs" by simp
  have l: "linked h ((l # xs) @ [l])" using assms(1) by (simp add: ring_def)
  have e: "((l # xs) @ [l]) ! i = (l # xs) ! i" "((l # xs) @ [l]) ! Suc i = (xs @ [l]) ! i"
    using assms(4) unfolding nth_append by simp_all
  have "Suc i < length ((l # xs) @ [l])" using assms(4) by simp
  from linked_nth [OF l this] have "next_of h ((l # xs) ! i) = (xs @ [l]) ! i"
    unfolding e by simp
  also have "\<dots> = hd (drop i xs @ [l])"
    using assms(4) by (cases "i < length xs") (simp_all add: nth_append hd_drop_conv_nth)
  finally have n: "next_of h ((l # xs) ! i) = hd (drop i xs @ [l])" .
  have p: "(l # xs) ! i = last (l # take i xs)"
    using assms(4) by (cases i) (auto simp: last_conv_nth take_Suc_conv_app_nth)
  show ?thesis
    unfolding n unfolding p
    by (rule ring_insert) (use assms in \<open>simp_all del: last.simps\<close>)
qed

text \<open>Splicing: the entries of the first list go to the front of the second.\<close>

lemma qlist_splice_ring:
  assumes "ring h q xs" and "ring h l ys" and "set (q # xs) \<inter> set (l # ys) = {}"
  shows "ring (qlist_splice q l h) l (xs @ ys)"
proof (cases xs rule: rev_cases)
  case Nil
  then show ?thesis using assms ring_next [OF assms(1)] by (simp add: qlist_splice_def)
next
  case (snoc us p)
  obtain f fs where f: "xs = f # fs" using snoc by (metis neq_Nil_conv snoc_eq_iff_butlast)
  let ?nx = "hd (ys @ [l])" and ?h = "qlist_splice q l h"
  have fq: "f \<noteq> q" using assms(1) f by (auto simp: ring_def)
  have nq: "next_of h q = f" using ring_next [OF assms(1)] f by simp
  have pq: "prev_of h q = p" using ring_prev [OF assms(1)] unfolding snoc by simp
  have h: "?h = set_prev ?nx p (set_next p ?nx (set_next l f (set_prev f l h)))"
    using nq pq fq by (simp add: qlist_splice_def ring_next [OF assms(2)] Let_def)
  have dx: "distinct (q # xs)" and dy: "distinct (l # ys)"
    using assms by (simp_all add: ring_def)
  have nx_in: "?nx \<in> set (l # ys)" by (rule hd_in_ring)
  have lx: "linked h (us @ [p])" using ring_segment(1) [OF assms(1)] snoc
    linked_append [of h us p "[q]"] by simp
  have ly: "linked h (ys @ [l])" by (rule ring_segment(1) [OF assms(2)])
  have in_xs: "f \<in> set xs" by (simp add: f)
  have in_xs': "p \<in> set xs" by (simp add: snoc)
  have disj: "p \<notin> set (l # ys)" "f \<notin> set (l # ys)" "?nx \<notin> set xs" "l \<notin> set xs"
    using assms(3) in_xs in_xs' nx_in by auto
  have us: "set us \<subseteq> set xs" "p \<notin> set us" using dx unfolding snoc by auto
  have fs: "set (tl (us @ [p])) \<subseteq> set xs" "f \<notin> set (tl (us @ [p]))"
    using dx f unfolding snoc by auto
  have "linked ?h (us @ [p])"
    unfolding h by (rule linked_cong [OF lx]) (use us fs disj in auto)
  moreover have "linked ?h (?nx # tl (ys @ [l]))"
    unfolding h by (rule linked_cong [of h]) (use ly dy disj in \<open>cases ys; auto\<close>)+
  ultimately have "linked ?h (us @ p # ?nx # tl (ys @ [l]))"
    unfolding linked_join using disj by (simp add: h)
  then have "linked ?h (xs @ ys @ [l])" by (simp add: snoc)
  moreover have "next_of ?h l = f" "prev_of ?h f = l"
    using disj nx_in f snoc by (auto simp: h)
  ultimately have "linked ?h (l # xs @ ys @ [l])" by (simp add: f)
  with assms show ?thesis by (auto simp: ring_def)
qed

subsection \<open>Properties\<close>

definition ex_heap :: qheap where
  "ex_heap = qlist_add_tail 12 10 (qlist_add_tail 11 10
     (INIT_QLIST_HEAD 20 (INIT_QLIST_HEAD 10 \<lparr>next_of = (\<lambda>_. 0), prev_of = (\<lambda>_. 0)\<rparr>)))"

lemma ex_heap_rings: "ring ex_heap 10 [11, 12]" "ring ex_heap 20 []"
  by (simp_all add: ex_heap_def ring_def qlist_add_tail_def qlist_add_between_def
      INIT_QLIST_HEAD_def)

text \<open>C6: the pointer manipulations implement a double-ended queue. For every sequence of
  \<open>qlist_add\<close>, \<open>qlist_add_tail\<close>, \<open>qlist_pop\<close> and \<open>qlist_pop_back\<close> on a well-formed list
  in which every added entry is a new node, the entries popped (NULL from an empty list)
  and the final content are those of the same operations on a plain list, the result is
  again a well-formed ring, and any other list in the same memory is untouched.\<close>
theorem qlist_refines_list:
  assumes "ring h l xs" and "qops_ok ops l xs"
    and "ring h m ys" and "set (m # ys) \<inter> (set (l # xs) \<union> qops_nodes ops) = {}"
  shows "fst (run_qops ops l h) = fst (spec_qops ops xs) \<and>
    ring (snd (run_qops ops l h)) l (snd (spec_qops ops xs)) \<and>
    ring (snd (run_qops ops l h)) m ys"
  using assms by (rule run_qops_refines)

theorem qlist_refines_list_witness:
  "let ops = [Pop, Add 13, AddTail 14, PopBack, Pop, Pop, Pop, Add 15] in
   fst (run_qops ops 10 ex_heap) = [11, 14, 13, 12, 0] \<and>
   ring (snd (run_qops ops 10 ex_heap)) 10 [15] \<and> ring (snd (run_qops ops 10 ex_heap)) 20 []"
  using qlist_refines_list [of ex_heap 10 "[11, 12]"
      "[Pop, Add 13, AddTail 14, PopBack, Pop, Pop, Pop, Add 15]" 20 "[]", OF ex_heap_rings(1)]
    ex_heap_rings(2)
  by simp

text \<open>\<open>qlist_add_at_index\<close> inserts at the given position of the list; a negative index
  counts from the end, -1 being the position after the last entry.\<close>
theorem qlist_add_at_index_position:
  assumes "ring h l xs" and "a \<notin> set (l # xs)" and "a \<noteq> 0"
    and "- int (length xs) - 1 \<le> index" and "index \<le> int (length xs)"
  shows "let i = (if index < 0 then nat (int (length xs) + 1 + index) else nat index) in
    ring (qlist_add_at_index a l index h) l (take i xs @ a # drop i xs)"
proof -
  define i where "i = (if index < 0 then nat (int (length xs) + 1 + index) else nat index)"
  let ?zs = "(l # xs) @ [l]"
  have i: "i \<le> length xs" using assms(4,5) unfolding i_def by (auto simp: nat_le_iff)
  have zs: "linked h ?zs" using assms(1) by (simp add: ring_def)
  have "(if index < 0 then walk (prev_of h) (nat (- index)) l else walk (next_of h) (nat index) l)
      = (l # xs) ! i"
  proof (cases "index < 0")
    case True
    have n: "i + nat (- index) = Suc (length xs)" using True assms(4) by (simp add: i_def)
    then have "walk (prev_of h) (nat (- index)) (?zs ! Suc (length xs)) = ?zs ! i"
      using walk_prev [OF zs, of i "nat (- index)"] by simp
    then show ?thesis using True i by (simp add: nth_append nth_Cons' split: if_splits)
  next
    case False
    then have "walk (next_of h) (nat index) (?zs ! 0) = ?zs ! i"
      using walk_next [OF zs, of 0 "nat index"] i by (simp add: i_def)
    then show ?thesis using False i by (simp add: nth_append nth_Cons' split: if_splits)
  qed
  then show ?thesis
    using ring_insert_at [OF assms(1-3) i] by (simp add: qlist_add_at_index_def Let_def i_def)
qed

theorem qlist_add_at_index_position_witness:
  "ring (qlist_add_at_index 13 10 1 ex_heap) 10 [11, 13, 12] \<and>
   ring (qlist_add_at_index 13 10 (-1) ex_heap) 10 [11, 12, 13]"
  using qlist_add_at_index_position [of ex_heap 10 "[11, 12]" 13 1, OF ex_heap_rings(1)]
    qlist_add_at_index_position [of ex_heap 10 "[11, 12]" 13 "-1", OF ex_heap_rings(1)]
  by simp

text \<open>C19: \<open>are_qlist_equal\<close> on two well-formed lists always returns, its two final
  assertions never fail, and the answer is whether the lists have the same length and the
  comparison holds for every pair of entries.\<close>
theorem are_qlist_equal_correct:
  assumes "ring h l xs" and "ring h r ys"
  shows "are_qlist_equal l r cmp h = Some (Inr (list_all2 cmp xs ys))"
proof (cases "length xs = length ys")
  case True
  note sl = ring_segment [OF assms(1)] and sr = ring_segment [OF assms(2)]
  have "qlist_equal_from (next_of h l) (next_of h r) 0 l r (int (length xs)) cmp h =
      Some (Inr (list_all2 cmp xs ys))"
    using equal_from_segment [OF sl(1,2) sr(1) True, of 0 cmp] unfolding sl(3) sr(3) by simp
  with True show ?thesis
    by (simp add: are_qlist_equal_def ring_loops(2) [OF assms(1)] ring_loops(2) [OF assms(2)])
next
  case False
  then show ?thesis
    using list_all2_lengthD [of cmp xs ys]
    by (auto simp: are_qlist_equal_def ring_loops(2) [OF assms(1)] ring_loops(2) [OF assms(2)])
qed

theorem are_qlist_equal_correct_witness:
  "are_qlist_equal 10 10 (=) ex_heap = Some (Inr True) \<and>
   are_qlist_equal 10 20 (=) ex_heap = Some (Inr False)"
  using are_qlist_equal_correct [OF ex_heap_rings(1) ex_heap_rings(1), of "(=)"]
    are_qlist_equal_correct [OF ex_heap_rings, of "(=)"] by simp

end
