(* ===== verification/Resource_LP.thy ===== *)
theory Resource_LP
  imports Resource_Pool Mapping_Context Quicklist
begin

text \<open>
  src/util/resource-lp.c: the LP that serves acquire, release and reserve requests on a
  resource, its event handlers, their reverse handlers, and the functions by which other
  LPs send it requests. The callback structures are those of codes/codes-callback.h.

  The pending queues are kept as the list of queued messages, oldest first, which is what
  the operations of codes/quicklist.h maintain (theory \<open>Quicklist\<close>): \<open>qlist_add_tail\<close>
  appends, \<open>qlist_add\<close> puts in front, \<open>qlist_pop_back\<close> drops the last and \<open>qlist_del\<close> of the
  front drops the first entry. An event that is sent appears in the output of the handler
  with its destination and the number of the random draw that fixes its delay.
\<close>

subsection \<open>Callbacks\<close>

record codes_cb_info =
  event_size :: int
  header_offset :: int
  tag_offset :: int
  cb_ret_offset :: int

record codes_cb_params =
  cb_info :: codes_cb_info
  cb_h :: msg_header
  cb_tag :: int

text \<open>Sizes of \<open>int\<close> and of the header; the third size is that of the return structure.\<close>

definition SANITY_CHECK_CB :: "codes_cb_info \<Rightarrow> int \<Rightarrow> unit result" where
  "SANITY_CHECK_CB i sizeof_ret =
     (let sizeof_int = 4; sizeof_header = 16; esize = event_size i in
      bind_res (c_assert (event_size i > 0 \<and> header_offset i \<ge> 0 \<and> tag_offset i \<ge> 0 \<and>
                          cb_ret_offset i \<ge> 0)) (\<lambda>_.
      bind_res (c_assert (esize \<ge> sizeof_ret + sizeof_int + sizeof_header)) (\<lambda>_.
      bind_res (c_assert (esize \<ge> header_offset i + sizeof_header)) (\<lambda>_.
      bind_res (c_assert (esize \<ge> tag_offset i + sizeof_int)) (\<lambda>_.
      c_assert (esize \<ge> cb_ret_offset i + sizeof_ret))))))"

subsection \<open>State and messages\<close>

definition TOKEN_DUMMY :: u32 where
  "TOKEN_DUMMY = -1"

definition RESOURCE_GET :: int where "RESOURCE_GET = 100"
definition RESOURCE_FREE :: int where "RESOURCE_FREE = 101"
definition RESOURCE_DEQ :: int where "RESOURCE_DEQ = 102"
definition RESOURCE_RESERVE :: int where "RESOURCE_RESERVE = 103"

definition sizeof_resource_return :: int where
  "sizeof_resource_return = 8"

record resource_msg_internal =
  rm_h :: msg_header
  rm_req :: u64
  rm_tok :: u32
  block_on_unavail :: int
  rm_cb :: codes_cb_params

record resource_msg =
  rm_i :: resource_msg_internal
  rm_i_rc :: resource_msg_internal
  min_avail_rc :: u64

record resource_state =
  rs_r :: resource
  rs_pending :: "resource_msg_internal list list"

datatype resource_out =
    ReturnEv (ev_dest: int) (ev_draw: int) (ev_header: msg_header) (ev_tag: int)
      (ev_layout: codes_cb_info) (ev_ret: int) (ev_tok: u32)
  | DeqEv (ev_dest: int) (ev_draw: int) (ev_header: msg_header) (ev_tok: u32)

type_synonym resource_step =
  "(resource_state \<times> tw_bf \<times> resource_msg \<times> tw_lp \<times> resource_out list) result"

type_synonym resource_rc_step = "(resource_state \<times> tw_lp) result"

subsection \<open>Initialisation\<close>

text \<open>The pools are initialised in place: \<open>mem\<close> is what the LP state held before.\<close>

definition resource_lp_ind_init ::
    "config_lpgroups \<Rightarrow> u64 \<Rightarrow> u64 list \<Rightarrow> config_anno_map \<Rightarrow> tw_lp \<Rightarrow> resource \<Rightarrow>
     resource_state result" where
  "resource_lp_ind_init c avail_unanno avail_per_anno anno_map lp mem =
     bind_res (codes_mapping_get_annotation_by_lpid c (gid lp)) (\<lambda>anno.
     bind_res
       (case anno of
          None \<Rightarrow> Inr (resource_init avail_unanno mem)
        | Some a \<Rightarrow>
            let idx = configuration_get_annotation_index (Some a) anno_map in
            if idx < 0 then Inl TwError
            else bind_res (rd avail_per_anno (nat idx)) (\<lambda>v. Inr (resource_init v mem)))
       (\<lambda>r. Inr \<lparr>rs_r = r, rs_pending = replicate (MAX_RESERVE + 1) []\<rparr>))"

subsection \<open>Responses\<close>

definition resource_response ::
    "codes_cb_params \<Rightarrow> tw_lp \<Rightarrow> int \<Rightarrow> u32 \<Rightarrow> (tw_lp \<times> resource_out) result" where
  "resource_response p lp ret tok =
     bind_res (SANITY_CHECK_CB (cb_info p) sizeof_resource_return) (\<lambda>_.
       let (d, lp') = codes_local_latency lp in
       Inr (lp', ReturnEv (mh_src (cb_h p)) d
                   (msg_set_header (mh_magic (cb_h p)) (mh_event_type (cb_h p)) (gid lp))
                   (cb_tag p) (cb_info p) ret tok))"

definition resource_response_rc :: "tw_lp \<Rightarrow> tw_lp" where
  "resource_response_rc lp = codes_local_latency_reverse lp"

subsection \<open>Handlers\<close>

text \<open>The first part of \<open>handle_resource_get\<close>: the pool is asked only when no request
  waits for it.\<close>

definition get_attempt ::
    "resource_state \<Rightarrow> resource_msg \<Rightarrow> resource_msg_internal list \<Rightarrow> (int \<times> resource) result" where
  "get_attempt ns m q =
     (if q \<noteq> [] then Inr (1, rs_r ns)
      else resource_get (rm_req (rm_i m)) (rm_tok (rm_i m)) (rs_r ns))"

definition handle_resource_get ::
    "resource_state \<Rightarrow> tw_bf \<Rightarrow> resource_msg \<Rightarrow> tw_lp \<Rightarrow> resource_step" where
  "handle_resource_get ns b m lp =
     (let tok = rm_tok (rm_i m) in
      bind_res (resource_get_min_avail tok (rs_r ns)) (\<lambda>(e, v).
      bind_res (c_assert (e = 0)) (\<lambda>_.
      let m1 = (case v of Some x \<Rightarrow> m\<lparr>min_avail_rc := x\<rparr> | None \<Rightarrow> m) in
      bind_res (rd (rs_pending ns) (unat tok)) (\<lambda>q.
      bind_res (get_attempt ns m1 q) (\<lambda>(ret, r).
      if ret = 2 \<or> ret = -1 then Inl TwError
      else
        let ns1 = ns\<lparr>rs_r := r\<rparr>; b1 = b\<lparr>c2 := (ret = 0)\<rparr> in
        if ret \<noteq> 0 \<and> block_on_unavail (rm_i m) \<noteq> 0
        then bind_res (wr (rs_pending ns1) (unat tok) (q @ [rm_i m])) (\<lambda>pend.
               Inr (ns1\<lparr>rs_pending := pend\<rparr>, b1\<lparr>c0 := True\<rparr>, m1, lp, []))
        else bind_res (resource_response (rm_cb (rm_i m)) lp ret TOKEN_DUMMY) (\<lambda>(lp', ev).
               Inr (ns1, b1\<lparr>c1 := True\<rparr>, m1, lp', [ev])))))))"

definition handle_resource_get_rc ::
    "resource_state \<Rightarrow> tw_bf \<Rightarrow> resource_msg \<Rightarrow> tw_lp \<Rightarrow> resource_rc_step" where
  "handle_resource_get_rc ns b m lp =
     (let tok = rm_tok (rm_i m) in
      bind_res
        (if c0 b
         then bind_res (rd (rs_pending ns) (unat tok)) (\<lambda>q.
                bind_res (c_assert (q \<noteq> [])) (\<lambda>_.
                bind_res (wr (rs_pending ns) (unat tok) (butlast q)) (\<lambda>pend.
                  Inr (ns\<lparr>rs_pending := pend\<rparr>, lp))))
         else if c1 b then Inr (ns, resource_response_rc lp)
         else Inr (ns, lp)) (\<lambda>(ns1, lp1).
      if c2 b
      then bind_res (resource_restore_min_avail tok (min_avail_rc m) (rs_r ns1)) (\<lambda>(e1, r1).
             bind_res (c_assert (e1 = 0)) (\<lambda>_.
             bind_res (resource_free (rm_req (rm_i m)) tok r1) (\<lambda>(e2, r2).
             bind_res (c_assert (e2 = 0)) (\<lambda>_. Inr (ns1\<lparr>rs_r := r2\<rparr>, lp1)))))
      else Inr (ns1, lp1)))"

definition deq_event :: "int \<Rightarrow> u32 \<Rightarrow> tw_lp \<Rightarrow> tw_lp \<times> resource_out" where
  "deq_event magic tok lp =
     (let (d, lp') = codes_local_latency lp in
      (lp', DeqEv (gid lp) d (msg_set_header magic RESOURCE_DEQ (gid lp)) tok))"

definition handle_resource_free ::
    "int \<Rightarrow> resource_state \<Rightarrow> tw_bf \<Rightarrow> resource_msg \<Rightarrow> tw_lp \<Rightarrow> resource_step" where
  "handle_resource_free magic ns b m lp =
     bind_res (resource_free (rm_req (rm_i m)) (rm_tok (rm_i m)) (rs_r ns)) (\<lambda>(e, r).
     bind_res (c_assert (e = 0)) (\<lambda>_.
       let (lp', ev) = deq_event magic (rm_tok (rm_i m)) lp in
       Inr (ns\<lparr>rs_r := r\<rparr>, b, m, lp', [ev])))"

definition handle_resource_free_rc ::
    "resource_state \<Rightarrow> tw_bf \<Rightarrow> resource_msg \<Rightarrow> tw_lp \<Rightarrow> resource_rc_step" where
  "handle_resource_free_rc ns b m lp =
     bind_res (resource_get (rm_req (rm_i m)) (rm_tok (rm_i m)) (rs_r ns)) (\<lambda>(e, r).
     bind_res (c_assert (e = 0)) (\<lambda>_.
       Inr (ns\<lparr>rs_r := r\<rparr>, codes_local_latency_reverse lp)))"

definition handle_resource_deq ::
    "int \<Rightarrow> resource_state \<Rightarrow> tw_bf \<Rightarrow> resource_msg \<Rightarrow> tw_lp \<Rightarrow> resource_step" where
  "handle_resource_deq magic ns b m lp =
     (let tok = rm_tok (rm_i m) in
      bind_res (rd (rs_pending ns) (unat tok)) (\<lambda>q.
      case q of
        [] \<Rightarrow> Inr (ns, b\<lparr>c0 := True\<rparr>, m, lp, [])
      | p # rest \<Rightarrow>
          bind_res (resource_get_min_avail tok (rs_r ns)) (\<lambda>(e, v).
          bind_res (c_assert (e = 0)) (\<lambda>_.
          let m1 = (case v of Some x \<Rightarrow> m\<lparr>min_avail_rc := x\<rparr> | None \<Rightarrow> m) in
          bind_res (resource_get (rm_req p) (rm_tok p) (rs_r ns)) (\<lambda>(ret, r).
          bind_res (c_assert (ret \<noteq> 2 \<and> ret \<noteq> -1)) (\<lambda>_.
          if ret = 0
          then bind_res (wr (rs_pending ns) (unat tok) rest) (\<lambda>pend.
               bind_res (resource_response (rm_cb p) lp ret TOKEN_DUMMY) (\<lambda>(lp1, ev1).
               let (lp2, ev2) = deq_event magic tok lp1 in
               Inr (ns\<lparr>rs_r := r, rs_pending := pend\<rparr>, b\<lparr>c1 := True\<rparr>, m1\<lparr>rm_i_rc := p\<rparr>,
                    lp2, [ev1, ev2])))
          else Inr (ns\<lparr>rs_r := r\<rparr>, b, m1, lp, [])))))))"

definition handle_resource_deq_rc ::
    "resource_state \<Rightarrow> tw_bf \<Rightarrow> resource_msg \<Rightarrow> tw_lp \<Rightarrow> resource_rc_step" where
  "handle_resource_deq_rc ns b m lp =
     (let tok = rm_tok (rm_i m) in
      if c0 b then Inr (ns, lp)
      else if c1 b
      then bind_res (rd (rs_pending ns) (unat tok)) (\<lambda>q.
           bind_res (wr (rs_pending ns) (unat tok) (rm_i_rc m # q)) (\<lambda>pend.
           let lp1 = resource_response_rc lp in
           bind_res (resource_restore_min_avail tok (min_avail_rc m) (rs_r ns)) (\<lambda>(e1, r1).
           bind_res (c_assert (e1 = 0)) (\<lambda>_.
           bind_res (resource_free (rm_req (rm_i_rc m)) (rm_tok (rm_i_rc m)) r1) (\<lambda>(e2, r2).
           bind_res (c_assert (e2 = 0)) (\<lambda>_.
             Inr (ns\<lparr>rs_r := r2, rs_pending := pend\<rparr>, codes_local_latency_reverse lp1)))))))
      else Inr (ns, lp))"

definition handle_resource_reserve ::
    "resource_state \<Rightarrow> tw_bf \<Rightarrow> resource_msg \<Rightarrow> tw_lp \<Rightarrow> resource_step" where
  "handle_resource_reserve ns b m lp =
     bind_res (resource_reserve (rm_req (rm_i m)) (rs_r ns)) (\<lambda>(ret, tok, r).
     bind_res (c_assert (ret = 0)) (\<lambda>_.
     bind_res (resource_response (rm_cb (rm_i m)) lp ret (the tok)) (\<lambda>(lp', ev).
       Inr (ns\<lparr>rs_r := r\<rparr>, b, m, lp', [ev]))))"

definition handle_resource_reserve_rc ::
    "resource_state \<Rightarrow> tw_bf \<Rightarrow> resource_msg \<Rightarrow> tw_lp \<Rightarrow> resource_rc_step" where
  "handle_resource_reserve_rc ns b m lp =
     (let r = rs_r ns; req = rm_req (rm_i m) in
      bind_res (rd (max_pool r) 0) (\<lambda>mx. bind_res (wr (max_pool r) 0 (mx + req)) (\<lambda>mxs.
      bind_res (rd (avail r) 0) (\<lambda>av. bind_res (wr (avail r) 0 (av + req)) (\<lambda>avs.
        Inr (ns\<lparr>rs_r := r\<lparr>num_tokens := num_tokens r - 1, max_pool := mxs, avail := avs\<rparr>\<rparr>,
             resource_response_rc lp))))))"

definition resource_event_handler ::
    "int \<Rightarrow> resource_state \<Rightarrow> tw_bf \<Rightarrow> resource_msg \<Rightarrow> tw_lp \<Rightarrow> resource_step" where
  "resource_event_handler magic ns b m lp =
     bind_res (c_assert (mh_magic (rm_h (rm_i m)) = magic)) (\<lambda>_.
       let t = mh_event_type (rm_h (rm_i m)) in
       if t = RESOURCE_GET then handle_resource_get ns b m lp
       else if t = RESOURCE_FREE then handle_resource_free magic ns b m lp
       else if t = RESOURCE_DEQ then handle_resource_deq magic ns b m lp
       else if t = RESOURCE_RESERVE then handle_resource_reserve ns b m lp
       else Inl AssertFailed)"

definition resource_rev_handler ::
    "int \<Rightarrow> resource_state \<Rightarrow> tw_bf \<Rightarrow> resource_msg \<Rightarrow> tw_lp \<Rightarrow> resource_rc_step" where
  "resource_rev_handler magic ns b m lp =
     bind_res (c_assert (mh_magic (rm_h (rm_i m)) = magic)) (\<lambda>_.
       let t = mh_event_type (rm_h (rm_i m)) in
       if t = RESOURCE_GET then handle_resource_get_rc ns b m lp
       else if t = RESOURCE_FREE then handle_resource_free_rc ns b m lp
       else if t = RESOURCE_DEQ then handle_resource_deq_rc ns b m lp
       else if t = RESOURCE_RESERVE then handle_resource_reserve_rc ns b m lp
       else Inl AssertFailed)"

text \<open>What \<open>resource_finalize\<close> reports: the warnings for operations still pending, whether
  the format line is written, and the line of the LP (its id and the peak usage of each
  pool, a difference of two \<open>uint64_t\<close>).\<close>

record resource_report =
  rep_warnings :: nat
  rep_format_line :: bool
  rep_lp :: int
  rep_peaks :: "u64 list"

fun finalize_peaks :: "nat \<Rightarrow> u64 list \<Rightarrow> u64 list \<Rightarrow> u64 list" where
  "finalize_peaks 0 _ _ = []"
| "finalize_peaks (Suc n) (x # xs) (y # ys) = (x - y) # finalize_peaks n xs ys"
| "finalize_peaks (Suc n) _ _ = []"

definition resource_finalize ::
    "config_lpgroups \<Rightarrow> resource_state \<Rightarrow> tw_lp \<Rightarrow> resource_report result" where
  "resource_finalize c ns lp =
     bind_res (codes_mapping_get_lp_relative_id c (gid lp) 0 0) (\<lambda>rel.
       if unat (num_tokens (rs_r ns)) + 1 > length (max_pool (rs_r ns)) then Inl OutOfBounds
       else Inr \<lparr>rep_warnings = sum_list (map length (rs_pending ns)),
                 rep_format_line = (rel = 0), rep_lp = gid lp,
                 rep_peaks = finalize_peaks (unat (num_tokens (rs_r ns)) + 1)
                               (max_pool (rs_r ns)) (min_avail (rs_r ns))\<rparr>)"

subsection \<open>Requests\<close>

definition RESOURCE_LP_NM :: string where
  "RESOURCE_LP_NM = ''resource''"

record resource_request =
  rq_dest :: int
  rq_draw :: int
  rq_msg :: resource_msg

text \<open>\<open>m0\<close> is what the event buffer held; without a callback its callback part is sent as
  it is. A NULL pointer is \<open>None\<close>.\<close>

definition resource_lp_issue_event_base ::
    "config_lpgroups \<Rightarrow> int \<Rightarrow> resource_msg \<Rightarrow> int \<Rightarrow> u64 \<Rightarrow> u32 \<Rightarrow> int \<Rightarrow> tw_lp \<Rightarrow>
     codes_mctx option \<Rightarrow> int \<Rightarrow> msg_header option \<Rightarrow> codes_cb_info option \<Rightarrow>
     (tw_lp \<times> resource_request) result" where
  "resource_lp_issue_event_base c magic m0 type req tok block sender map_ctx return_tag
      return_header cb =
     bind_res (case cb of None \<Rightarrow> Inr () | Some i \<Rightarrow> SANITY_CHECK_CB i sizeof_resource_return) (\<lambda>_.
     bind_res (case map_ctx of None \<Rightarrow> Inl NullDeref
               | Some ctx \<Rightarrow> codes_mctx_to_lpid c ctx RESOURCE_LP_NM (gid sender)) (\<lambda>dest.
       let (d, sender') = codes_local_latency sender;
           i1 = (rm_i m0)\<lparr>rm_h := msg_set_header magic type (gid sender), rm_req := req,
                          rm_tok := tok, block_on_unavail := block\<rparr>;
           i2 = (case (map_ctx, cb, return_header) of
                   (Some _, Some i, Some rh) \<Rightarrow>
                     i1\<lparr>rm_cb := \<lparr>cb_info = i, cb_h = rh, cb_tag = return_tag\<rparr>\<rparr>
                 | _ \<Rightarrow> i1)
       in Inr (sender', \<lparr>rq_dest = dest, rq_draw = d, rq_msg = m0\<lparr>rm_i := i2\<rparr>\<rparr>)))"

definition resource_lp_get where
  "resource_lp_get c magic m0 req block sender map_ctx tag rh cb =
     resource_lp_issue_event_base c magic m0 RESOURCE_GET req 0 block sender map_ctx tag rh cb"

definition resource_lp_free where
  "resource_lp_free c magic m0 req sender map_ctx =
     resource_lp_issue_event_base c magic m0 RESOURCE_FREE req 0 (-1) sender map_ctx 0 None None"

definition resource_lp_reserve where
  "resource_lp_reserve c magic m0 req block sender map_ctx tag rh cb =
     resource_lp_issue_event_base c magic m0 RESOURCE_RESERVE req 0 block sender map_ctx tag rh cb"

definition resource_lp_get_reserved where
  "resource_lp_get_reserved c magic m0 req tok block sender map_ctx tag rh cb =
     resource_lp_issue_event_base c magic m0 RESOURCE_GET req tok block sender map_ctx tag rh cb"

definition resource_lp_free_reserved where
  "resource_lp_free_reserved c magic m0 req tok sender map_ctx =
     resource_lp_issue_event_base c magic m0 RESOURCE_FREE req tok (-1) sender map_ctx 0 None None"

definition resource_lp_issue_event_base_rc :: "tw_lp \<Rightarrow> tw_lp" where
  "resource_lp_issue_event_base_rc sender = codes_local_latency_reverse sender"

subsection \<open>Invariant\<close>

text \<open>The pools are consistent, and every queued request waits for the pool in whose
  queue it is, a pool that exists.\<close>

definition resource_lp_inv :: "resource_state \<Rightarrow> bool" where
  "resource_lp_inv ns \<longleftrightarrow> resource_inv (rs_r ns) \<and> length (rs_pending ns) = MAX_RESERVE + 1 \<and>
     (\<forall>i < length (rs_pending ns). list_all (\<lambda>p. unat (rm_tok p) = i \<and> rm_tok p \<le> num_tokens (rs_r ns))
        (rs_pending ns ! i))"

text \<open>The recorded minimum is at most what is available.\<close>

definition minima_ok :: "resource \<Rightarrow> bool" where
  "minima_ok r \<longleftrightarrow> (\<forall>i \<le> unat (num_tokens r). min_avail r ! i \<le> avail r ! i)"

lemma lp_inv_shape: "resource_lp_inv ns \<Longrightarrow> resource_shape (rs_r ns)"
  by (simp add: resource_lp_inv_def resource_inv_shape)

lemma lp_inv_token:
  assumes "resource_lp_inv ns" and "tok \<le> num_tokens (rs_r ns)"
  shows "unat tok < length (rs_pending ns)"
  using shape_token(1) [OF lp_inv_shape [OF assms(1)] assms(2)] assms(1)
  by (simp add: resource_lp_inv_def resource_shape_def resource_inv_def)

lemma lp_inv_head:
  assumes "resource_lp_inv ns" and "unat tok < length (rs_pending ns)"
    and "rs_pending ns ! unat tok = p # rest"
  shows "rm_tok p = tok" and "tok \<le> num_tokens (rs_r ns)"
proof -
  have "list_all (\<lambda>p. unat (rm_tok p) = unat tok \<and> rm_tok p \<le> num_tokens (rs_r ns))
      (rs_pending ns ! unat tok)"
    using assms(1,2) unfolding resource_lp_inv_def by blast
  then have "unat (rm_tok p) = unat tok \<and> rm_tok p \<le> num_tokens (rs_r ns)"
    by (simp add: assms(3))
  then have "rm_tok p = tok \<and> rm_tok p \<le> num_tokens (rs_r ns)"
    by (simp add: word_unat_eq_iff)
  then show "rm_tok p = tok" "tok \<le> num_tokens (rs_r ns)" by auto
qed

text \<open>A request is never refused as unsatisfiable: what exceeds the maximum of a pool
  exceeds what is available, which is tested first.\<close>

lemma resource_get_codes:
  assumes "resource_inv r" and "tok \<le> num_tokens r"
  shows "resource_get req tok r =
    (if req > avail r ! unat tok then Inr (1, r)
     else Inr (0, r\<lparr>avail := (avail r)[unat tok := avail r ! unat tok - req],
                    min_avail := (min_avail r)[unat tok :=
                      min_u64 (avail r ! unat tok - req) (min_avail r ! unat tok)]\<rparr>))"
  using resource_get_cases [OF resource_inv_shape [OF assms(1)]] resource_inv_pool [OF assms]
    assms(2)
  by (auto simp: not_less dest: order.trans)

lemma resource_response_Inr:
  "resource_response p lp ret tok = Inr (lp', ev) \<longleftrightarrow>
     SANITY_CHECK_CB (cb_info p) sizeof_resource_return = Inr () \<and>
     lp' = snd (codes_local_latency lp) \<and>
     ev = ReturnEv (mh_src (cb_h p)) (draws lp)
            (msg_set_header (mh_magic (cb_h p)) (mh_event_type (cb_h p)) (gid lp))
            (cb_tag p) (cb_info p) ret tok"
  by (auto simp: resource_response_def bind_res_Inr_iff codes_local_latency_def)

lemma response_rc_undo [simp]: "resource_response_rc (snd (codes_local_latency lp)) = lp"
  by (simp add: resource_response_rc_def)

subsection \<open>What the handlers do\<close>

text \<open>The outcomes of an acquire request. \<open>got\<close>: the pool as \<open>resource_get\<close> leaves it.\<close>

lemma handle_resource_get_outcome:
  assumes inv: "resource_lp_inv ns"
    and h: "handle_resource_get ns b m lp = Inr (ns', b', m', lp', out)"
  defines "tok \<equiv> rm_tok (rm_i m)" and "req \<equiv> rm_req (rm_i m)"
  defines "q \<equiv> rs_pending ns ! unat tok"
  shows "tok \<le> num_tokens (rs_r ns)"
    and "m' = m\<lparr>min_avail_rc := min_avail (rs_r ns) ! unat tok\<rparr>"
    and "q = [] \<and> req \<le> avail (rs_r ns) ! unat tok \<and>
           resource_get req tok (rs_r ns) = Inr (0, rs_r ns') \<and>
           rs_pending ns' = rs_pending ns \<and> b' = b\<lparr>c2 := True, c1 := True\<rparr> \<and>
           resource_response (rm_cb (rm_i m)) lp 0 TOKEN_DUMMY = Inr (lp', hd out) \<and> length out = 1
       \<or> (q \<noteq> [] \<or> req > avail (rs_r ns) ! unat tok) \<and> block_on_unavail (rm_i m) = 0 \<and> ns' = ns \<and>
           b' = b\<lparr>c2 := False, c1 := True\<rparr> \<and>
           resource_response (rm_cb (rm_i m)) lp 1 TOKEN_DUMMY = Inr (lp', hd out) \<and> length out = 1
       \<or> (q \<noteq> [] \<or> req > avail (rs_r ns) ! unat tok) \<and> block_on_unavail (rm_i m) \<noteq> 0 \<and>
           ns' = ns\<lparr>rs_pending := (rs_pending ns)[unat tok := q @ [rm_i m]]\<rparr> \<and>
           b' = b\<lparr>c2 := False, c0 := True\<rparr> \<and> lp' = lp \<and> out = []"
proof -
  note sh = lp_inv_shape [OF inv]
  show tok: "tok \<le> num_tokens (rs_r ns)"
    using h resource_get_min_avail_cases [OF sh, of tok]
    by (auto simp: handle_resource_get_def tok_def bind_res_Inr_iff c_assert_Inr_iff Let_def not_less
        split: if_splits)
  have len: "unat tok < length (rs_pending ns)" by (rule lp_inv_token [OF inv tok])
  have inv': "resource_inv (rs_r ns)" using inv by (simp add: resource_lp_inv_def)
  have ma: "resource_get_min_avail tok (rs_r ns) = Inr (0, Some (min_avail (rs_r ns) ! unat tok))"
    using resource_get_min_avail_cases [OF sh, of tok] tok by simp
  let ?m = "m\<lparr>min_avail_rc := min_avail (rs_r ns) ! unat tok\<rparr>"
  have ret: "get_attempt ns ?m q = Inr (1, rs_r ns) \<and> (q \<noteq> [] \<or> req > avail (rs_r ns) ! unat tok) \<or>
      (\<exists>r. get_attempt ns ?m q = Inr (0, r) \<and> resource_get req tok (rs_r ns) = Inr (0, r) \<and>
        q = [] \<and> req \<le> avail (rs_r ns) ! unat tok)"
    using resource_get_codes [OF inv' tok, of req]
    by (auto simp: get_attempt_def req_def tok_def not_less)
  note h' = h [unfolded handle_resource_get_def Let_def, folded tok_def]
  show "m' = ?m"
    using h' ma len ret
    by (auto simp: q_def [symmetric] result_iff split: if_splits)
  show "q = [] \<and> req \<le> avail (rs_r ns) ! unat tok \<and>
           resource_get req tok (rs_r ns) = Inr (0, rs_r ns') \<and>
           rs_pending ns' = rs_pending ns \<and> b' = b\<lparr>c2 := True, c1 := True\<rparr> \<and>
           resource_response (rm_cb (rm_i m)) lp 0 TOKEN_DUMMY = Inr (lp', hd out) \<and> length out = 1
       \<or> (q \<noteq> [] \<or> req > avail (rs_r ns) ! unat tok) \<and> block_on_unavail (rm_i m) = 0 \<and> ns' = ns \<and>
           b' = b\<lparr>c2 := False, c1 := True\<rparr> \<and>
           resource_response (rm_cb (rm_i m)) lp 1 TOKEN_DUMMY = Inr (lp', hd out) \<and> length out = 1
       \<or> (q \<noteq> [] \<or> req > avail (rs_r ns) ! unat tok) \<and> block_on_unavail (rm_i m) \<noteq> 0 \<and>
           ns' = ns\<lparr>rs_pending := (rs_pending ns)[unat tok := q @ [rm_i m]]\<rparr> \<and>
           b' = b\<lparr>c2 := False, c0 := True\<rparr> \<and> lp' = lp \<and> out = []"
    using h' ma len ret
    by (elim disjE exE conjE)
      (auto simp: q_def [symmetric] result_iff split: if_splits)
qed

lemma handle_resource_deq_outcome:
  assumes inv: "resource_lp_inv ns"
    and h: "handle_resource_deq magic ns b m lp = Inr (ns', b', m', lp', out)"
  defines "tok \<equiv> rm_tok (rm_i m)"
  defines "q \<equiv> rs_pending ns ! unat tok"
  shows "unat tok < length (rs_pending ns)"
    and "q = [] \<and> ns' = ns \<and> b' = b\<lparr>c0 := True\<rparr> \<and> m' = m \<and> lp' = lp \<and> out = []
       \<or> q \<noteq> [] \<and> rm_req (hd q) > avail (rs_r ns) ! unat tok \<and> ns' = ns \<and> b' = b \<and>
           m' = m\<lparr>min_avail_rc := min_avail (rs_r ns) ! unat tok\<rparr> \<and> lp' = lp \<and> out = []
       \<or> q \<noteq> [] \<and> rm_req (hd q) \<le> avail (rs_r ns) ! unat tok \<and>
           resource_get (rm_req (hd q)) tok (rs_r ns) = Inr (0, rs_r ns') \<and>
           rs_pending ns' = (rs_pending ns)[unat tok := tl q] \<and> b' = b\<lparr>c1 := True\<rparr> \<and>
           m' = m\<lparr>min_avail_rc := min_avail (rs_r ns) ! unat tok, rm_i_rc := hd q\<rparr> \<and>
           lp' = snd (codes_local_latency (snd (codes_local_latency lp))) \<and>
           (\<exists>ev. resource_response (rm_cb (hd q)) lp 0 TOKEN_DUMMY
                   = Inr (snd (codes_local_latency lp), ev) \<and>
                 out = [ev, snd (deq_event magic tok (snd (codes_local_latency lp)))])"
proof -
  show len: "unat tok < length (rs_pending ns)"
    using h unfolding handle_resource_deq_def tok_def Let_def by (auto simp: result_iff)
  note h' = h [unfolded handle_resource_deq_def Let_def, folded tok_def]
  show "q = [] \<and> ns' = ns \<and> b' = b\<lparr>c0 := True\<rparr> \<and> m' = m \<and> lp' = lp \<and> out = []
       \<or> q \<noteq> [] \<and> rm_req (hd q) > avail (rs_r ns) ! unat tok \<and> ns' = ns \<and> b' = b \<and>
           m' = m\<lparr>min_avail_rc := min_avail (rs_r ns) ! unat tok\<rparr> \<and> lp' = lp \<and> out = []
       \<or> q \<noteq> [] \<and> rm_req (hd q) \<le> avail (rs_r ns) ! unat tok \<and>
           resource_get (rm_req (hd q)) tok (rs_r ns) = Inr (0, rs_r ns') \<and>
           rs_pending ns' = (rs_pending ns)[unat tok := tl q] \<and> b' = b\<lparr>c1 := True\<rparr> \<and>
           m' = m\<lparr>min_avail_rc := min_avail (rs_r ns) ! unat tok, rm_i_rc := hd q\<rparr> \<and>
           lp' = snd (codes_local_latency (snd (codes_local_latency lp))) \<and>
           (\<exists>ev. resource_response (rm_cb (hd q)) lp 0 TOKEN_DUMMY
                   = Inr (snd (codes_local_latency lp), ev) \<and>
                 out = [ev, snd (deq_event magic tok (snd (codes_local_latency lp)))])"
  proof (cases q)
    case Nil
    with h' len show ?thesis by (auto simp: q_def [symmetric])
  next
    case (Cons p rest)
    have inv': "resource_inv (rs_r ns)" using inv by (simp add: resource_lp_inv_def)
    have p: "rm_tok p = tok" and tok: "tok \<le> num_tokens (rs_r ns)"
      using lp_inv_head [OF inv len] Cons q_def by auto
    have ma: "resource_get_min_avail tok (rs_r ns) = Inr (0, Some (min_avail (rs_r ns) ! unat tok))"
      using resource_get_min_avail_cases [OF lp_inv_shape [OF inv], of tok] tok by simp
    show ?thesis
    proof (cases "rm_req p > avail (rs_r ns) ! unat tok")
      case True
      then have "resource_get (rm_req p) tok (rs_r ns) = Inr (1, rs_r ns)"
        by (simp add: resource_get_codes [OF inv' tok])
      with h' ma len p Cons True show ?thesis by (auto simp: q_def [symmetric])
    next
      case False
      then obtain r where r: "resource_get (rm_req p) tok (rs_r ns) = Inr (0, r)"
        by (simp add: resource_get_codes [OF inv' tok])
      have lp: "fst (deq_event magic tok l) = snd (codes_local_latency l)" for l
        by (simp add: deq_event_def split_beta)
      from h' ma len p Cons False r show ?thesis
        by (auto simp: q_def [symmetric] result_iff resource_response_Inr lp split_beta not_less)
    qed
  qed
qed

lemma handle_resource_free_outcome:
  assumes inv: "resource_lp_inv ns"
    and h: "handle_resource_free magic ns b m lp = Inr (ns', b', m', lp', out)"
  shows "rm_tok (rm_i m) \<le> num_tokens (rs_r ns)"
    and "resource_free (rm_req (rm_i m)) (rm_tok (rm_i m)) (rs_r ns) = Inr (0, rs_r ns')"
    and "ns' = ns\<lparr>rs_r := rs_r ns'\<rparr>" and "b' = b" and "m' = m"
    and "lp' = snd (codes_local_latency lp)"
    and "out = [snd (deq_event magic (rm_tok (rm_i m)) lp)]"
  using h resource_free_cases [OF lp_inv_shape [OF inv], of "rm_req (rm_i m)" "rm_tok (rm_i m)"]
  by (auto simp: handle_resource_free_def result_iff deq_event_def codes_local_latency_def
      split: if_splits)

lemma handle_resource_reserve_outcome:
  assumes inv: "resource_lp_inv ns" and room: "unat (num_tokens (rs_r ns)) < MAX_RESERVE"
    and h: "handle_resource_reserve ns b m lp = Inr (ns', b', m', lp', out)"
  defines "req \<equiv> rm_req (rm_i m)" and "tok \<equiv> num_tokens (rs_r ns) + 1"
  shows "req \<le> avail (rs_r ns) ! 0"
    and "resource_reserve req (rs_r ns) = Inr (0, Some tok, rs_r ns')"
    and "ns' = ns\<lparr>rs_r := rs_r ns'\<rparr>" and "b' = b" and "m' = m"
    and "\<exists>ev. resource_response (rm_cb (rm_i m)) lp 0 tok = Inr (lp', ev) \<and> out = [ev]"
  using h resource_reserve_cases [OF lp_inv_shape [OF inv] room, of req]
  by (auto simp: handle_resource_reserve_def result_iff req_def tok_def not_less split: if_splits)

subsection \<open>The invariant\<close>

lemma get_keeps_tokens:
  "resource_shape r \<Longrightarrow> resource_get req tok r = Inr (c, r') \<Longrightarrow> num_tokens r' = num_tokens r"
  by (auto simp: resource_get_cases split: if_splits)

lemma free_keeps_tokens:
  "resource_shape r \<Longrightarrow> resource_free req tok r = Inr (c, r') \<Longrightarrow> num_tokens r' = num_tokens r"
  by (auto simp: resource_free_cases split: if_splits)

lemma pool_update_inv:
  assumes "resource_lp_inv ns" and "resource_inv r'" and le: "num_tokens (rs_r ns) \<le> num_tokens r'"
  shows "resource_lp_inv (ns\<lparr>rs_r := r'\<rparr>)"
  using assms(1,2) order.trans [OF _ le] by (auto simp: resource_lp_inv_def list_all_iff)

lemma pending_update_inv:
  assumes "resource_lp_inv ns" and "list_all (\<lambda>p. unat (rm_tok p) = t \<and> rm_tok p \<le> num_tokens (rs_r ns)) q"
  shows "resource_lp_inv (ns\<lparr>rs_pending := (rs_pending ns)[t := q]\<rparr>)"
proof -
  have "list_all (\<lambda>p. unat (rm_tok p) = i \<and> rm_tok p \<le> num_tokens (rs_r ns))
      ((rs_pending ns)[t := q] ! i)" if "i < length (rs_pending ns)" for i
    using assms that by (cases "i = t") (auto simp: resource_lp_inv_def)
  with assms(1) show ?thesis by (simp add: resource_lp_inv_def)
qed

lemma pending_inv:
  "resource_lp_inv ns \<Longrightarrow> i < length (rs_pending ns) \<Longrightarrow>
     list_all (\<lambda>p. unat (rm_tok p) = i \<and> rm_tok p \<le> num_tokens (rs_r ns)) (rs_pending ns ! i)"
  by (simp add: resource_lp_inv_def)

text \<open>A release is legitimate when it gives back no more than is in use in its pool; a
  reservation needs a free slot.\<close>

definition request_ok :: "resource_state \<Rightarrow> resource_msg \<Rightarrow> bool" where
  "request_ok ns m \<longleftrightarrow>
     (let t = mh_event_type (rm_h (rm_i m)); tok = rm_tok (rm_i m); r = rs_r ns in
      (t = RESOURCE_FREE \<longrightarrow> tok \<le> num_tokens r \<longrightarrow>
         rm_req (rm_i m) \<le> max_pool r ! unat tok - avail r ! unat tok) \<and>
      (t = RESOURCE_RESERVE \<longrightarrow> unat (num_tokens r) < MAX_RESERVE))"

lemma handle_resource_get_inv:
  assumes "resource_lp_inv ns" and h: "handle_resource_get ns b m lp = Inr (ns', b', m', lp', out)"
  shows "resource_lp_inv ns'"
proof -
  let ?tok = "rm_tok (rm_i m)"
  note o = handle_resource_get_outcome [OF assms]
  have len: "unat ?tok < length (rs_pending ns)" using lp_inv_token [OF assms(1) o(1)] .
  consider (got) "resource_get (rm_req (rm_i m)) ?tok (rs_r ns) = Inr (0, rs_r ns')"
      "rs_pending ns' = rs_pending ns"
    | (no) "ns' = ns"
    | (queued) "ns' = ns\<lparr>rs_pending := (rs_pending ns)[unat ?tok := rs_pending ns ! unat ?tok @ [rm_i m]]\<rparr>"
    using o(3) by blast
  then show ?thesis
  proof cases
    case got
    then have "ns' = ns\<lparr>rs_r := rs_r ns'\<rparr>" by simp
    then show ?thesis
      using pool_update_inv [OF assms(1) resource_get_inv [OF _ got(1)]]
        get_keeps_tokens [OF lp_inv_shape [OF assms(1)] got(1)] assms(1)
      by (metis order_refl resource_lp_inv_def)
  next
    case queued
    show ?thesis
      unfolding queued by (rule pending_update_inv [OF assms(1)])
        (use o(1) pending_inv [OF assms(1) len] in simp)
  qed (use assms in simp)
qed

lemma handle_resource_deq_inv:
  assumes "resource_lp_inv ns"
    and h: "handle_resource_deq magic ns b m lp = Inr (ns', b', m', lp', out)"
  shows "resource_lp_inv ns'"
proof -
  let ?tok = "rm_tok (rm_i m)" and ?q = "rs_pending ns ! unat (rm_tok (rm_i m))"
  note o = handle_resource_deq_outcome [OF assms]
  consider (no) "ns' = ns"
    | (got) "?q \<noteq> []" "resource_get (rm_req (hd ?q)) ?tok (rs_r ns) = Inr (0, rs_r ns')"
      "rs_pending ns' = (rs_pending ns)[unat ?tok := tl ?q]"
    using o(2) by blast
  then show ?thesis
  proof cases
    case got
    let ?ns = "ns\<lparr>rs_pending := (rs_pending ns)[unat ?tok := tl ?q]\<rparr>"
    have "resource_lp_inv ?ns"
      by (rule pending_update_inv [OF assms(1)])
        (use pending_inv [OF assms(1) o(1)] in \<open>auto simp: list_all_iff dest: list.set_sel(2) [OF got(1)]\<close>)
    moreover have "ns' = ?ns\<lparr>rs_r := rs_r ns'\<rparr>" using got by simp
    moreover have "resource_inv (rs_r ns')"
      using resource_get_inv [OF _ got(2)] assms(1) by (simp add: resource_lp_inv_def)
    ultimately show ?thesis
      using pool_update_inv [of ?ns "rs_r ns'"] get_keeps_tokens [OF lp_inv_shape [OF assms(1)] got(2)]
      by (metis (no_types, lifting) order_refl resource_state.ext_inject resource_state.surjective
          resource_state.update_convs(2))
  qed (use assms in simp)
qed

lemma handle_resource_free_inv:
  assumes "resource_lp_inv ns"
    and h: "handle_resource_free magic ns b m lp = Inr (ns', b', m', lp', out)"
    and ok: "rm_req (rm_i m) \<le> max_pool (rs_r ns) ! unat (rm_tok (rm_i m))
               - avail (rs_r ns) ! unat (rm_tok (rm_i m))"
  shows "resource_lp_inv ns'"
proof -
  note o = handle_resource_free_outcome [OF assms(1,2)]
  have "resource_inv (rs_r ns')"
    using resource_free_inv [OF _ o(2)] ok assms(1) by (simp add: resource_lp_inv_def)
  then show ?thesis
    using pool_update_inv [OF assms(1), of "rs_r ns'"] o(3)
      free_keeps_tokens [OF lp_inv_shape [OF assms(1)] o(2)] by simp
qed

lemma reserve_tokens:
  assumes "resource_shape r" and "unat (num_tokens r) < MAX_RESERVE"
    and "resource_reserve req r = Inr (0, tok, r')"
  shows "num_tokens r' = num_tokens r + 1"
  using assms(3) by (auto simp: resource_reserve_cases [OF assms(1,2)] split: if_splits)

lemma handle_resource_reserve_inv:
  assumes "resource_lp_inv ns" and room: "unat (num_tokens (rs_r ns)) < MAX_RESERVE"
    and h: "handle_resource_reserve ns b m lp = Inr (ns', b', m', lp', out)"
  shows "resource_lp_inv ns'"
proof -
  note o = handle_resource_reserve_outcome [OF assms]
  note sh = lp_inv_shape [OF assms(1)]
  have "resource_inv (rs_r ns')"
    using resource_reserve_inv [OF _ room o(2)] assms(1) by (simp add: resource_lp_inv_def)
  moreover have "num_tokens (rs_r ns) \<le> num_tokens (rs_r ns')"
    using reserve_tokens [OF sh room o(2)] unat_next_token [OF sh] by (simp add: word_le_nat_alt)
  ultimately show ?thesis using pool_update_inv [OF assms(1), of "rs_r ns'"] o(3) by simp
qed

text \<open>Every event that the LP processes keeps the invariant.\<close>

lemma resource_event_handler_inv:
  assumes "resource_lp_inv ns" and "request_ok ns m"
    and "resource_event_handler magic ns b m lp = Inr (ns', b', m', lp', out)"
  shows "resource_lp_inv ns'"
proof -
  let ?t = "mh_event_type (rm_h (rm_i m))"
  consider (get) "?t = RESOURCE_GET" "handle_resource_get ns b m lp = Inr (ns', b', m', lp', out)"
    | (free) "?t = RESOURCE_FREE" "handle_resource_free magic ns b m lp = Inr (ns', b', m', lp', out)"
    | (deq) "?t = RESOURCE_DEQ" "handle_resource_deq magic ns b m lp = Inr (ns', b', m', lp', out)"
    | (reserve) "?t = RESOURCE_RESERVE" "handle_resource_reserve ns b m lp = Inr (ns', b', m', lp', out)"
    using assms(3) by (auto simp: resource_event_handler_def result_iff Let_def split: if_splits)
  then show ?thesis
  proof cases
    case free
    then show ?thesis
      using handle_resource_free_inv [OF assms(1) free(2)] assms(2)
        handle_resource_free_outcome(1) [OF assms(1) free(2)]
      by (simp add: request_ok_def Let_def)
  next
    case reserve
    then show ?thesis
      using handle_resource_reserve_inv [OF assms(1)] assms(2) by (simp add: request_ok_def Let_def)
  qed (use handle_resource_get_inv handle_resource_deq_inv assms(1) in blast)+
qed

subsection \<open>Recorded minima\<close>

lemma min_u64_le [simp]: "min_u64 a b \<le> a" "min_u64 a b \<le> b"
  by (auto simp: min_u64_def)

lemma get_minima_ok:
  assumes "resource_inv r" "minima_ok r" "tok \<le> num_tokens r" "resource_get req tok r = Inr (0, r')"
  shows "minima_ok r'"
  using assms shape_token [OF resource_inv_shape [OF assms(1)] assms(3)]
  by (auto simp: resource_get_codes minima_ok_def nth_list_update split: if_splits)

lemma free_minima_ok:
  assumes "resource_inv r" "minima_ok r" "tok \<le> num_tokens r" "resource_free req tok r = Inr (0, r')"
    and "req \<le> max_pool r ! unat tok - avail r ! unat tok"
  shows "minima_ok r'"
proof -
  note sh = resource_inv_shape [OF assms(1)]
  have "unat (avail r ! unat tok + req) = unat (avail r ! unat tok) + unat req"
    by (rule word_add_le_of_sub(2) [OF resource_inv_pool [OF assms(1,3)] assms(5)])
  then have "avail r ! unat tok \<le> avail r ! unat tok + req" by (simp add: word_le_nat_alt)
  moreover have "min_avail r ! unat tok \<le> avail r ! unat tok"
    using assms(2,3) by (simp add: minima_ok_def word_le_nat_alt [of tok])
  ultimately have "min_avail r ! unat tok \<le> avail r ! unat tok + req" by (rule order.trans [rotated])
  with assms sh shape_token [OF sh assms(3)] show ?thesis
    by (auto simp: resource_free_cases minima_ok_def nth_list_update split: if_splits)
qed

subsection \<open>Reversal of one event\<close>



lemma handle_resource_get_reverse:
  assumes "resource_lp_inv ns"
    and h: "handle_resource_get ns bf_clear m lp = Inr (ns', b', m', lp', out)"
  shows "handle_resource_get_rc ns' b' m' lp' = Inr (ns, lp)"
proof -
  let ?tok = "rm_tok (rm_i m)" and ?q = "rs_pending ns ! unat (rm_tok (rm_i m))"
  note o = handle_resource_get_outcome [OF assms]
  have len: "unat ?tok < length (rs_pending ns)" by (rule lp_inv_token [OF assms(1) o(1)])
  consider (got) "resource_get (rm_req (rm_i m)) ?tok (rs_r ns) = Inr (0, rs_r ns')"
      "rs_pending ns' = rs_pending ns" "b' = bf_clear\<lparr>c2 := True, c1 := True\<rparr>"
      "resource_response (rm_cb (rm_i m)) lp 0 TOKEN_DUMMY = Inr (lp', hd out)"
    | (no) "ns' = ns" "b' = bf_clear\<lparr>c2 := False, c1 := True\<rparr>"
      "resource_response (rm_cb (rm_i m)) lp 1 TOKEN_DUMMY = Inr (lp', hd out)"
    | (queued) "ns' = ns\<lparr>rs_pending := (rs_pending ns)[unat ?tok := ?q @ [rm_i m]]\<rparr>"
      "b' = bf_clear\<lparr>c2 := False, c0 := True\<rparr>" "lp' = lp"
    using o(3) by blast
  then show ?thesis
  proof cases
    case got
    obtain r1 where "resource_restore_min_avail ?tok (min_avail (rs_r ns) ! unat ?tok) (rs_r ns')
        = Inr (0, r1)" "resource_free (rm_req (rm_i m)) ?tok r1 = Inr (0, rs_r ns)"
      using resource_get_undo [OF lp_inv_shape [OF assms(1)] got(1)] by blast
    moreover have "ns'\<lparr>rs_r := rs_r ns\<rparr> = ns" using got(2) by simp
    ultimately show ?thesis
      using got by (simp add: handle_resource_get_rc_def o(2) resource_response_Inr Let_def)
  next
    case no
    then show ?thesis by (simp add: handle_resource_get_rc_def resource_response_Inr Let_def)
  next
    case queued
    then show ?thesis using len by (simp add: handle_resource_get_rc_def o(2) Let_def)
  qed
qed

lemma handle_resource_deq_reverse:
  assumes "resource_lp_inv ns"
    and h: "handle_resource_deq magic ns bf_clear m lp = Inr (ns', b', m', lp', out)"
  shows "handle_resource_deq_rc ns' b' m' lp' = Inr (ns, lp)"
proof -
  let ?tok = "rm_tok (rm_i m)" and ?q = "rs_pending ns ! unat (rm_tok (rm_i m))"
  note o = handle_resource_deq_outcome [OF assms]
  consider (no) "ns' = ns" "lp' = lp" "\<not> c1 b'"
    | (got) "?q \<noteq> []" "resource_get (rm_req (hd ?q)) ?tok (rs_r ns) = Inr (0, rs_r ns')"
      "rs_pending ns' = (rs_pending ns)[unat ?tok := tl ?q]" "b' = bf_clear\<lparr>c1 := True\<rparr>"
      "m' = m\<lparr>min_avail_rc := min_avail (rs_r ns) ! unat ?tok, rm_i_rc := hd ?q\<rparr>"
      "lp' = snd (codes_local_latency (snd (codes_local_latency lp)))"
    using o(2) by auto
  then show ?thesis
  proof cases
    case got
    have tok: "rm_tok (hd ?q) = ?tok"
      using lp_inv_head(1) [OF assms(1) o(1), of "hd ?q" "tl ?q"] got(1) by simp
    obtain r1 where "resource_restore_min_avail ?tok (min_avail (rs_r ns) ! unat ?tok) (rs_r ns')
        = Inr (0, r1)" "resource_free (rm_req (hd ?q)) ?tok r1 = Inr (0, rs_r ns)"
      using resource_get_undo [OF lp_inv_shape [OF assms(1)] got(2)] by blast
    then show ?thesis
      using got o(1) tok by (simp add: handle_resource_deq_rc_def Let_def resource_response_rc_def)
  qed (simp add: handle_resource_deq_rc_def Let_def)
qed

lemma handle_resource_free_reverse:
  assumes "resource_lp_inv ns" and "minima_ok (rs_r ns)"
    and h: "handle_resource_free magic ns b m lp = Inr (ns', b', m', lp', out)"
    and ok: "rm_req (rm_i m) \<le> max_pool (rs_r ns) ! unat (rm_tok (rm_i m))
               - avail (rs_r ns) ! unat (rm_tok (rm_i m))"
  shows "handle_resource_free_rc ns' b' m' lp' = Inr (ns, lp)"
proof -
  note o = handle_resource_free_outcome [OF assms(1,3)]
  have "min_avail (rs_r ns) ! unat (rm_tok (rm_i m)) \<le> avail (rs_r ns) ! unat (rm_tok (rm_i m))"
    using assms(2) o(1) by (simp add: minima_ok_def word_le_nat_alt [of "rm_tok (rm_i m)"])
  then have "resource_get (rm_req (rm_i m)) (rm_tok (rm_i m)) (rs_r ns') = Inr (0, rs_r ns)"
    using resource_free_undo [OF _ o(2) ok] assms(1) by (simp add: resource_lp_inv_def)
  moreover have "ns'\<lparr>rs_r := rs_r ns\<rparr> = ns"
    using o(3) by (metis resource_state.surjective resource_state.update_convs(1))
  ultimately show ?thesis using o(5,6) by (simp add: handle_resource_free_rc_def)
qed

text \<open>Two pools that differ at most in slots beyond the tokens handed out.\<close>

definition resource_agree :: "resource \<Rightarrow> resource \<Rightarrow> bool" where
  "resource_agree r s \<longleftrightarrow> num_tokens r = num_tokens s \<and> max_all r = max_all s \<and>
     (\<forall>i \<le> unat (num_tokens r). avail r ! i = avail s ! i \<and> max_pool r ! i = max_pool s ! i \<and>
        min_avail r ! i = min_avail s ! i)"

lemma handle_resource_reserve_reverse:
  assumes "resource_lp_inv ns" and room: "unat (num_tokens (rs_r ns)) < MAX_RESERVE"
    and h: "handle_resource_reserve ns b m lp = Inr (ns', b', m', lp', out)"
  shows "\<exists>ns0. handle_resource_reserve_rc ns' b' m' lp' = Inr (ns0, lp) \<and>
    resource_agree (rs_r ns0) (rs_r ns) \<and> rs_pending ns0 = rs_pending ns"
proof -
  note o = handle_resource_reserve_outcome [OF assms]
  note sh = lp_inv_shape [OF assms(1)]
  let ?r = "rs_r ns" and ?q = "rm_req (rm_i m)"
  have r': "rs_r ns' = ?r\<lparr>num_tokens := num_tokens ?r + 1,
      avail := (avail ?r)[Suc (unat (num_tokens ?r)) := ?q, 0 := avail ?r ! 0 - ?q],
      max_pool := (max_pool ?r)[Suc (unat (num_tokens ?r)) := ?q, 0 := max_pool ?r ! 0 - ?q],
      min_avail := (min_avail ?r)[Suc (unat (num_tokens ?r)) := ?q]\<rparr>"
    using o(1,2) by (simp add: resource_reserve_cases [OF sh room] split: if_splits)
  have len: "0 < length (avail ?r)" "0 < length (max_pool ?r)"
    using sh by (simp_all add: resource_shape_def)
  have lp: "resource_response_rc lp' = lp" using o(6) by (auto simp: resource_response_Inr)
  have "rs_pending ns' = rs_pending ns" using o(3) by (metis resource_state.ext_inject
      resource_state.surjective resource_state.update_convs(1))
  with len lp o(5) show ?thesis
    by (auto simp: handle_resource_reserve_rc_def Let_def r' resource_agree_def nth_list_update)
qed

subsection \<open>Reversal of a sequence of events\<close>

text \<open>Forward processing of a list of messages keeps, as ROSS does, the message and the
  bit field of every event, newest first; rolling back runs the reverse handler on them in
  that order.\<close>

fun run_events ::
    "int \<Rightarrow> resource_msg list \<Rightarrow> resource_state \<Rightarrow> tw_lp \<Rightarrow> (tw_bf \<times> resource_msg) list \<Rightarrow>
     (resource_state \<times> tw_lp \<times> (tw_bf \<times> resource_msg) list) result" where
  "run_events magic [] ns lp done' = Inr (ns, lp, done')"
| "run_events magic (m # ms) ns lp done' =
     bind_res (resource_event_handler magic ns bf_clear m lp) (\<lambda>(ns', b, m', lp', out).
       run_events magic ms ns' lp' ((b, m') # done'))"

fun roll_back ::
    "int \<Rightarrow> nat \<Rightarrow> (tw_bf \<times> resource_msg) list \<Rightarrow> resource_state \<Rightarrow> tw_lp \<Rightarrow>
     (resource_state \<times> tw_lp) result" where
  "roll_back magic (Suc n) ((b, m) # done') ns lp =
     bind_res (resource_rev_handler magic ns b m lp) (\<lambda>(ns', lp').
       roll_back magic n done' ns' lp')"
| "roll_back magic _ done' ns lp = Inr (ns, lp)"

text \<open>Along the run, releases give back no more than is in use, and no reservation takes
  place (those come first, as the code notes).\<close>

fun events_ok :: "int \<Rightarrow> resource_msg list \<Rightarrow> resource_state \<Rightarrow> tw_lp \<Rightarrow> bool" where
  "events_ok magic [] ns lp = True"
| "events_ok magic (m # ms) ns lp \<longleftrightarrow>
     request_ok ns m \<and> mh_event_type (rm_h (rm_i m)) \<noteq> RESOURCE_RESERVE \<and>
     (case resource_event_handler magic ns bf_clear m lp of
        Inl _ \<Rightarrow> True | Inr (ns', b, m', lp', out) \<Rightarrow> events_ok magic ms ns' lp')"

lemma event_reverse:
  assumes "resource_lp_inv ns" "minima_ok (rs_r ns)" "request_ok ns m"
    and "mh_event_type (rm_h (rm_i m)) \<noteq> RESOURCE_RESERVE"
    and "resource_event_handler magic ns bf_clear m lp = Inr (ns', b', m', lp', out)"
  shows "resource_rev_handler magic ns' b' m' lp' = Inr (ns, lp)" and "minima_ok (rs_r ns')"
proof -
  let ?t = "mh_event_type (rm_h (rm_i m))"
  have inv: "resource_inv (rs_r ns)" using assms(1) by (simp add: resource_lp_inv_def)
  have mg: "mh_magic (rm_h (rm_i m)) = magic"
    using assms(5) by (auto simp: resource_event_handler_def result_iff)
  consider (get) "?t = RESOURCE_GET" "handle_resource_get ns bf_clear m lp = Inr (ns', b', m', lp', out)"
    | (free) "?t = RESOURCE_FREE" "handle_resource_free magic ns bf_clear m lp = Inr (ns', b', m', lp', out)"
    | (deq) "?t = RESOURCE_DEQ" "handle_resource_deq magic ns bf_clear m lp = Inr (ns', b', m', lp', out)"
    using assms(4,5) by (auto simp: resource_event_handler_def result_iff Let_def split: if_splits)
  then have "resource_rev_handler magic ns' b' m' lp' = Inr (ns, lp) \<and> minima_ok (rs_r ns')"
  proof cases
    case get
    note o = handle_resource_get_outcome [OF assms(1) get(2)]
    have "minima_ok (rs_r ns')"
      using o(3) get_minima_ok [OF inv assms(2) o(1)] assms(2) by auto
    then show ?thesis
      using handle_resource_get_reverse [OF assms(1) get(2)] o(2) get(1) mg
      by (simp add: resource_rev_handler_def Let_def)
  next
    case free
    note o = handle_resource_free_outcome [OF assms(1) free(2)]
    have ok: "rm_req (rm_i m) \<le> max_pool (rs_r ns) ! unat (rm_tok (rm_i m))
               - avail (rs_r ns) ! unat (rm_tok (rm_i m))"
      using assms(3) o(1) free(1) by (simp add: request_ok_def Let_def)
    show ?thesis
      using handle_resource_free_reverse [OF assms(1,2) free(2) ok] o(5) free(1) mg
        free_minima_ok [OF inv assms(2) o(1,2) ok]
      by (simp add: resource_rev_handler_def Let_def RESOURCE_GET_def RESOURCE_FREE_def)
  next
    case deq
    note o = handle_resource_deq_outcome [OF assms(1) deq(2)]
    have "minima_ok (rs_r ns')"
      using o(2) get_minima_ok [OF inv assms(2) lp_inv_head(2) [OF assms(1) o(1)]] assms(2)
      by (metis list.exhaust_sel)
    moreover have "rm_i m' = rm_i m" using o(2) by auto
    ultimately show ?thesis
      using handle_resource_deq_reverse [OF assms(1) deq(2)] deq(1) mg
      by (simp add: resource_rev_handler_def Let_def RESOURCE_GET_def RESOURCE_FREE_def
          RESOURCE_DEQ_def)
  qed
  then show "resource_rev_handler magic ns' b' m' lp' = Inr (ns, lp)" "minima_ok (rs_r ns')"
    by blast+
qed

lemma run_events_roll_back:
  assumes "resource_lp_inv ns" "minima_ok (rs_r ns)" "events_ok magic ms ns lp"
    and "run_events magic ms ns lp done' = Inr (ns', lp', done'')"
  shows "roll_back magic (length ms + k) done'' ns' lp' = roll_back magic k done' ns lp \<and>
    resource_lp_inv ns' \<and> minima_ok (rs_r ns')"
  using assms
proof (induction ms arbitrary: ns lp done' k)
  case (Cons m ms)
  obtain ns1 b m' lp1 out where
    ev: "resource_event_handler magic ns bf_clear m lp = Inr (ns1, b, m', lp1, out)"
    and run: "run_events magic ms ns1 lp1 ((b, m') # done') = Inr (ns', lp', done'')"
    using Cons.prems(4) by (auto simp: result_iff)
  have ok: "request_ok ns m" "mh_event_type (rm_h (rm_i m)) \<noteq> RESOURCE_RESERVE"
    "events_ok magic ms ns1 lp1" using Cons.prems(3) ev by auto
  note rev = event_reverse [OF Cons.prems(1,2) ok(1,2) ev]
  note inv1 = resource_event_handler_inv [OF Cons.prems(1) ok(1) ev]
  have "roll_back magic (length ms + Suc k) done'' ns' lp' =
      roll_back magic (Suc k) ((b, m') # done') ns1 lp1 \<and>
      resource_lp_inv ns' \<and> minima_ok (rs_r ns')"
    by (rule Cons.IH [OF inv1 rev(2) ok(3) run])
  with rev(1) show ?case by simp
qed simp

subsection \<open>Reversal with stale minima\<close>

text \<open>The same state with other recorded minima. After a reservation the minimum of the general
  pool can lie above what is available; the reversal of a release then lowers it.\<close>

definition with_minima :: "u64 list \<Rightarrow> resource_state \<Rightarrow> resource_state" where
  "with_minima mins ns = ns\<lparr>rs_r := (rs_r ns)\<lparr>min_avail := mins\<rparr>\<rparr>"

lemma with_minima_simps [simp]:
  "rs_pending (with_minima mins ns) = rs_pending ns"
  "rs_r (with_minima mins ns) = (rs_r ns)\<lparr>min_avail := mins\<rparr>"
  "with_minima mins (ns\<lparr>rs_pending := p\<rparr>) = (with_minima mins ns)\<lparr>rs_pending := p\<rparr>"
  "with_minima (min_avail (rs_r ns)) ns = ns"
  by (simp_all add: with_minima_def)

lemma with_minima_pool: "(with_minima mins ns)\<lparr>rs_r := r\<lparr>min_avail := mins'\<rparr>\<rparr> = with_minima mins' (ns\<lparr>rs_r := r\<rparr>)"
  by (simp add: with_minima_def)

text \<open>The operations on a pool do not read the minima, except to lower them.\<close>

lemma pool_other_minima:
  assumes "length mins = length (min_avail r)"
  shows "resource_get req tok r = Inr (c, r') \<Longrightarrow> \<exists>mins'. length mins' = length (min_avail r') \<and>
      resource_get req tok (r\<lparr>min_avail := mins\<rparr>) = Inr (c, r'\<lparr>min_avail := mins'\<rparr>)"
    and "resource_free req tok r = Inr (c, r') \<Longrightarrow> length mins = length (min_avail r') \<and>
      resource_free req tok (r\<lparr>min_avail := mins\<rparr>) = Inr (c, r'\<lparr>min_avail := mins\<rparr>)"
    and "resource_restore_min_avail tok x r = Inr (c, r') \<Longrightarrow> \<exists>mins'. length mins' = length (min_avail r') \<and>
      resource_restore_min_avail tok x (r\<lparr>min_avail := mins\<rparr>) = Inr (c, r'\<lparr>min_avail := mins'\<rparr>)"
proof -
  show "\<exists>mins'. length mins' = length (min_avail r') \<and>
      resource_get req tok (r\<lparr>min_avail := mins\<rparr>) = Inr (c, r'\<lparr>min_avail := mins'\<rparr>)"
    if "resource_get req tok r = Inr (c, r')"
  proof (cases "c = 0")
    case True
    with that assms show ?thesis
      by (intro exI [of _ "mins[unat tok := min_u64 (avail r ! unat tok - req) (mins ! unat tok)]"])
        (auto simp: resource_get_def result_iff split: if_splits)
  next
    case False
    with that assms show ?thesis
      by (intro exI [of _ mins]) (auto simp: resource_get_def result_iff split: if_splits)
  qed
  show "resource_free req tok r = Inr (c, r') \<Longrightarrow> length mins = length (min_avail r') \<and>
      resource_free req tok (r\<lparr>min_avail := mins\<rparr>) = Inr (c, r'\<lparr>min_avail := mins\<rparr>)"
    using assms by (auto simp: resource_free_def result_iff split: if_splits)
  show "\<exists>mins'. length mins' = length (min_avail r') \<and>
      resource_restore_min_avail tok x (r\<lparr>min_avail := mins\<rparr>) = Inr (c, r'\<lparr>min_avail := mins'\<rparr>)"
    if "resource_restore_min_avail tok x r = Inr (c, r')"
  proof (cases "c = 0")
    case True
    with that assms show ?thesis
      by (intro exI [of _ "mins[unat tok := x]"])
        (auto simp: resource_restore_min_avail_def result_iff split: if_splits)
  next
    case False
    with that assms show ?thesis
      by (intro exI [of _ mins]) (auto simp: resource_restore_min_avail_def result_iff split: if_splits)
  qed
qed

lemma undo_other_minima:
  assumes "length mins = length (min_avail r)"
    and "resource_restore_min_avail tok x r = Inr (e, r1)" and "resource_free req tok' r1 = Inr (e', r2)"
  shows "\<exists>mins1 mins'. resource_restore_min_avail tok x (r\<lparr>min_avail := mins\<rparr>) = Inr (e, r1\<lparr>min_avail := mins1\<rparr>) \<and>
    resource_free req tok' (r1\<lparr>min_avail := mins1\<rparr>) = Inr (e', r2\<lparr>min_avail := mins'\<rparr>) \<and>
    length mins' = length (min_avail r2)"
  using pool_other_minima(3) [OF assms(1,2)] pool_other_minima(2) [OF _ assms(3)] by blast

lemma rev_handler_other_minima:
  assumes "resource_rev_handler magic ns b m lp = Inr (ns0, lp0)"
    and "mh_event_type (rm_h (rm_i m)) \<noteq> RESOURCE_RESERVE"
    and len: "length mins = length (min_avail (rs_r ns))"
  shows "\<exists>mins'. length mins' = length (min_avail (rs_r ns0)) \<and>
    resource_rev_handler magic (with_minima mins ns) b m lp = Inr (with_minima mins' ns0, lp0)"
proof -
  let ?t = "mh_event_type (rm_h (rm_i m))"
  have mg: "mh_magic (rm_h (rm_i m)) = magic"
    using assms(1) by (auto simp: resource_rev_handler_def result_iff)
  consider (get) "?t = RESOURCE_GET" "handle_resource_get_rc ns b m lp = Inr (ns0, lp0)"
    | (free) "?t = RESOURCE_FREE" "handle_resource_free_rc ns b m lp = Inr (ns0, lp0)"
    | (deq) "?t = RESOURCE_DEQ" "handle_resource_deq_rc ns b m lp = Inr (ns0, lp0)"
    using assms(1,2) by (auto simp: resource_rev_handler_def result_iff Let_def split: if_splits)
  then show ?thesis
  proof cases
    case get
    have "\<exists>mins'. length mins' = length (min_avail (rs_r ns0)) \<and>
        handle_resource_get_rc (with_minima mins ns) b m lp = Inr (with_minima mins' ns0, lp0)"
      using get(2) len undo_other_minima [OF len]
      by (fastforce simp: handle_resource_get_rc_def Let_def result_iff with_minima_pool split: if_splits)
    then show ?thesis using get(1) mg by (simp add: resource_rev_handler_def Let_def)
  next
    case free
    have "\<exists>mins'. length mins' = length (min_avail (rs_r ns0)) \<and>
        handle_resource_free_rc (with_minima mins ns) b m lp = Inr (with_minima mins' ns0, lp0)"
      using free(2) pool_other_minima(1) [OF len]
      by (fastforce simp: handle_resource_free_rc_def result_iff with_minima_pool)
    then show ?thesis using free(1) mg by (simp add: resource_rev_handler_def Let_def RESOURCE_GET_def RESOURCE_FREE_def)
  next
    case deq
    have "\<exists>mins'. length mins' = length (min_avail (rs_r ns0)) \<and>
        handle_resource_deq_rc (with_minima mins ns) b m lp = Inr (with_minima mins' ns0, lp0)"
    proof (cases "c1 b \<and> \<not> c0 b")
      case False
      then show ?thesis using deq(2) len by (auto simp: handle_resource_deq_rc_def Let_def split: if_splits)
    next
      case True
      then obtain r1 r2 where r: "unat (rm_tok (rm_i m)) < length (rs_pending ns)"
        "resource_restore_min_avail (rm_tok (rm_i m)) (min_avail_rc m) (rs_r ns) = Inr (0, r1)"
        "resource_free (rm_req (rm_i_rc m)) (rm_tok (rm_i_rc m)) r1 = Inr (0, r2)"
        "ns0 = ns\<lparr>rs_r := r2, rs_pending := (rs_pending ns)[unat (rm_tok (rm_i m)) := rm_i_rc m # rs_pending ns ! unat (rm_tok (rm_i m))]\<rparr>"
        "lp0 = codes_local_latency_reverse (resource_response_rc lp)"
        using deq(2) by (auto simp: handle_resource_deq_rc_def Let_def result_iff)
      obtain mins1 mins' where "resource_restore_min_avail (rm_tok (rm_i m)) (min_avail_rc m) ((rs_r ns)\<lparr>min_avail := mins\<rparr>)
          = Inr (0, r1\<lparr>min_avail := mins1\<rparr>)"
        "resource_free (rm_req (rm_i_rc m)) (rm_tok (rm_i_rc m)) (r1\<lparr>min_avail := mins1\<rparr>) = Inr (0, r2\<lparr>min_avail := mins'\<rparr>)"
        "length mins' = length (min_avail r2)"
        using undo_other_minima [OF len r(2,3)] by blast
      then show ?thesis using True r
        by (intro exI [of _ mins']) (simp add: handle_resource_deq_rc_def Let_def with_minima_pool)
    qed
    then show ?thesis using deq(1) mg
      by (simp add: resource_rev_handler_def Let_def RESOURCE_GET_def RESOURCE_FREE_def RESOURCE_DEQ_def)
  qed
qed

text \<open>Without a condition on the minima, one event is undone up to the minima.\<close>

lemma free_undo_but_minima:
  assumes "resource_inv r" and "resource_free req tok r = Inr (0, r')"
    and "req \<le> max_pool r ! unat tok - avail r ! unat tok"
  shows "\<exists>mins. length mins = length (min_avail r) \<and> resource_get req tok r' = Inr (0, r\<lparr>min_avail := mins\<rparr>)"
proof -
  let ?low = "r\<lparr>min_avail := (min_avail r)[unat tok := min_u64 (avail r ! unat tok) (min_avail r ! unat tok)]\<rparr>"
  have sh: "resource_shape r" by (rule resource_inv_shape [OF assms(1)])
  have tok: "tok \<le> num_tokens r" using assms(2) by (auto simp: resource_free_cases [OF sh] split: if_splits)
  have inv: "resource_inv ?low" using assms(1) by (simp add: resource_inv_def resource_shape_def pool_sum_def)
  have free: "resource_free req tok ?low = Inr (0, r'\<lparr>min_avail := min_avail ?low\<rparr>)"
    using assms(2) by (auto simp: resource_free_def result_iff split: if_splits)
  have "resource_get req tok (r'\<lparr>min_avail := min_avail ?low\<rparr>) = Inr (0, ?low)"
    by (rule resource_free_undo [OF inv free])
      (use assms(3) shape_token [OF sh tok] in simp_all)
  from pool_other_minima(1) [OF _ this, of "min_avail r'"] assms(2) show ?thesis
    by (auto simp: resource_free_def result_iff split: if_splits)
qed

lemma event_reverse_but_minima:
  assumes "resource_lp_inv ns" "request_ok ns m"
    and "mh_event_type (rm_h (rm_i m)) \<noteq> RESOURCE_RESERVE"
    and ev: "resource_event_handler magic ns bf_clear m lp = Inr (ns', b', m', lp', out)"
  shows "\<exists>mins. length mins = length (min_avail (rs_r ns)) \<and>
      resource_rev_handler magic ns' b' m' lp' = Inr (with_minima mins ns, lp)"
    and "mh_event_type (rm_h (rm_i m')) \<noteq> RESOURCE_RESERVE"
proof -
  let ?t = "mh_event_type (rm_h (rm_i m))"
  have inv: "resource_inv (rs_r ns)" using assms(1) by (simp add: resource_lp_inv_def)
  have mg: "mh_magic (rm_h (rm_i m)) = magic"
    using ev by (auto simp: resource_event_handler_def result_iff)
  consider (get) "?t = RESOURCE_GET" "handle_resource_get ns bf_clear m lp = Inr (ns', b', m', lp', out)"
    | (free) "?t = RESOURCE_FREE" "handle_resource_free magic ns bf_clear m lp = Inr (ns', b', m', lp', out)"
    | (deq) "?t = RESOURCE_DEQ" "handle_resource_deq magic ns bf_clear m lp = Inr (ns', b', m', lp', out)"
    using assms(3) ev by (auto simp: resource_event_handler_def result_iff Let_def split: if_splits)
  then have "(\<exists>mins. length mins = length (min_avail (rs_r ns)) \<and>
      resource_rev_handler magic ns' b' m' lp' = Inr (with_minima mins ns, lp)) \<and> rm_i m' = rm_i m"
  proof cases
    case get
    note o = handle_resource_get_outcome [OF assms(1) get(2)]
    have "resource_rev_handler magic ns' b' m' lp' = Inr (with_minima (min_avail (rs_r ns)) ns, lp)"
      using handle_resource_get_reverse [OF assms(1) get(2)] o(2) get(1) mg
      by (simp add: resource_rev_handler_def Let_def)
    then show ?thesis using o(2) by (intro conjI exI [of _ "min_avail (rs_r ns)"]) simp_all
  next
    case free
    note o = handle_resource_free_outcome [OF assms(1) free(2)]
    have ok: "rm_req (rm_i m) \<le> max_pool (rs_r ns) ! unat (rm_tok (rm_i m))
               - avail (rs_r ns) ! unat (rm_tok (rm_i m))"
      using assms(2) o(1) free(1) by (simp add: request_ok_def Let_def)
    obtain mins where mins: "length mins = length (min_avail (rs_r ns))"
      "resource_get (rm_req (rm_i m)) (rm_tok (rm_i m)) (rs_r ns') = Inr (0, (rs_r ns)\<lparr>min_avail := mins\<rparr>)"
      using free_undo_but_minima [OF inv o(2) ok] by blast
    moreover have "ns'\<lparr>rs_r := r\<rparr> = ns\<lparr>rs_r := r\<rparr>" for r
      by (subst o(3)) simp
    ultimately have "handle_resource_free_rc ns' b' m' lp' = Inr (with_minima mins ns, lp)"
      using o(5,6) by (simp add: handle_resource_free_rc_def with_minima_def)
    then show ?thesis using o(5) free(1) mg mins(1)
      by (auto simp: resource_rev_handler_def Let_def RESOURCE_GET_def RESOURCE_FREE_def)
  next
    case deq
    note o = handle_resource_deq_outcome [OF assms(1) deq(2)]
    have i: "rm_i m' = rm_i m" using o(2) by auto
    then have "resource_rev_handler magic ns' b' m' lp' = Inr (with_minima (min_avail (rs_r ns)) ns, lp)"
      using handle_resource_deq_reverse [OF assms(1) deq(2)] deq(1) mg
      by (simp add: resource_rev_handler_def Let_def RESOURCE_GET_def RESOURCE_FREE_def RESOURCE_DEQ_def)
    then show ?thesis using i by (intro conjI exI [of _ "min_avail (rs_r ns)"]) simp_all
  qed
  then show "\<exists>mins. length mins = length (min_avail (rs_r ns)) \<and>
      resource_rev_handler magic ns' b' m' lp' = Inr (with_minima mins ns, lp)"
    and "mh_event_type (rm_h (rm_i m')) \<noteq> RESOURCE_RESERVE"
    using assms(3) by auto
qed

lemma roll_back_but_minima:
  assumes "resource_lp_inv ns" "events_ok magic ms ns lp"
    and "run_events magic ms ns lp done' = Inr (ns', lp', done'')"
    and "length mins = length (min_avail (rs_r ns'))"
  shows "\<exists>mins'. length mins' = length (min_avail (rs_r ns)) \<and>
    roll_back magic (length ms + k) done'' (with_minima mins ns') lp' = roll_back magic k done' (with_minima mins' ns) lp"
  using assms
proof (induction ms arbitrary: ns lp done' k)
  case (Cons m ms)
  obtain ns1 b m' lp1 out where
    ev: "resource_event_handler magic ns bf_clear m lp = Inr (ns1, b, m', lp1, out)"
    and run: "run_events magic ms ns1 lp1 ((b, m') # done') = Inr (ns', lp', done'')"
    using Cons.prems(3) by (auto simp: result_iff)
  have ok: "request_ok ns m" "mh_event_type (rm_h (rm_i m)) \<noteq> RESOURCE_RESERVE"
    "events_ok magic ms ns1 lp1" using Cons.prems(2) ev by auto
  note inv1 = resource_event_handler_inv [OF Cons.prems(1) ok(1) ev]
  obtain mins1 where 1: "length mins1 = length (min_avail (rs_r ns1))"
    "roll_back magic (length ms + Suc k) done'' (with_minima mins ns') lp' =
      roll_back magic (Suc k) ((b, m') # done') (with_minima mins1 ns1) lp1"
    using Cons.IH [OF inv1 ok(3) run Cons.prems(4), of "Suc k"] by blast
  obtain mins2 where 2: "length mins2 = length (min_avail (rs_r ns))"
    "resource_rev_handler magic ns1 b m' lp1 = Inr (with_minima mins2 ns, lp)"
    using event_reverse_but_minima(1) [OF Cons.prems(1) ok(1,2) ev] by blast
  obtain mins' where "length mins' = length mins2"
    "resource_rev_handler magic (with_minima mins1 ns1) b m' lp1 = Inr (with_minima mins' (with_minima mins2 ns), lp)"
    using rev_handler_other_minima [OF 2(2) event_reverse_but_minima(2) [OF Cons.prems(1) ok(1,2) ev] 1(1)] by auto
  with 1(2) 2(1) show ?case by (intro exI [of _ mins']) (simp add: with_minima_def)
qed auto

subsection \<open>Requests that can never be satisfied\<close>

lemma get_keeps_max:
  "resource_shape r \<Longrightarrow> resource_get req tok r = Inr (c, r') \<Longrightarrow> max_pool r' = max_pool r"
  by (auto simp: resource_get_cases split: if_splits)

lemma free_keeps_max:
  "resource_shape r \<Longrightarrow> resource_free req tok r = Inr (c, r') \<Longrightarrow> max_pool r' = max_pool r"
  by (auto simp: resource_free_cases split: if_splits)

definition stuck :: "resource_state \<Rightarrow> nat \<Rightarrow> resource_msg_internal \<Rightarrow> bool" where
  "stuck ns t p \<longleftrightarrow> t < length (rs_pending ns) \<and> rs_pending ns ! t \<noteq> [] \<and>
     hd (rs_pending ns ! t) = p \<and> rm_req p > max_pool (rs_r ns) ! t"

text \<open>A reservation only makes pools smaller.\<close>

lemma stuck_reserve:
  assumes inv: "resource_lp_inv ns" and st: "stuck ns t p"
    and room: "unat (num_tokens (rs_r ns)) < MAX_RESERVE"
    and h: "handle_resource_reserve ns b m lp = Inr (ns', b', m', lp', out)"
  shows "stuck ns' t p"
proof -
  let ?r = "rs_r ns" and ?q = "rm_req (rm_i m)"
  note o = handle_resource_reserve_outcome [OF inv room h]
  note sh = lp_inv_shape [OF inv]
  have pend: "rs_pending ns' = rs_pending ns" by (subst o(3)) simp
  have mx: "max_pool (rs_r ns') = (max_pool ?r)[Suc (unat (num_tokens ?r)) := ?q, 0 := max_pool ?r ! 0 - ?q]"
    using o(1,2) by (auto simp: resource_reserve_cases [OF sh room] split: if_splits dest!: sym [of _ "rs_r ns'"])
  have "p \<in> set (rs_pending ns ! t)" using st by (auto simp: stuck_def)
  then have t: "unat (rm_tok p) = t" "t \<le> unat (num_tokens ?r)"
    using pending_inv [OF inv, of t] st by (auto simp: stuck_def list_all_iff word_le_nat_alt)
  have "?q \<le> max_pool ?r ! 0"
    using o(1) resource_inv_pool [of ?r 0] inv by (auto simp: resource_lp_inv_def)
  then have "max_pool ?r ! 0 - ?q \<le> max_pool ?r ! 0" by (rule word_sub_le)
  moreover have "0 < length (max_pool ?r)" using sh by (simp add: resource_shape_def)
  ultimately have "max_pool (rs_r ns') ! t \<le> max_pool ?r ! t"
    using t(2) by (cases "t = 0") (simp_all add: mx)
  then show ?thesis using st by (auto simp: stuck_def pend intro: le_less_trans)
qed

lemma stuck_step:
  assumes inv: "resource_lp_inv ns" and "stuck ns t p" and "request_ok ns m"
    and "resource_event_handler magic ns b m lp = Inr (ns', b', m', lp', out)"
  shows "stuck ns' t p"
proof -
  let ?t = "mh_event_type (rm_h (rm_i m))" and ?tok = "rm_tok (rm_i m)"
  note sh = lp_inv_shape [OF inv]
  consider (get) "handle_resource_get ns b m lp = Inr (ns', b', m', lp', out)"
    | (free) "handle_resource_free magic ns b m lp = Inr (ns', b', m', lp', out)"
    | (deq) "handle_resource_deq magic ns b m lp = Inr (ns', b', m', lp', out)"
    | (reserve) "?t = RESOURCE_RESERVE" "handle_resource_reserve ns b m lp = Inr (ns', b', m', lp', out)"
    using assms(4) by (auto simp: resource_event_handler_def result_iff Let_def split: if_splits)
  then show ?thesis
  proof cases
    case reserve
    then show ?thesis using stuck_reserve [OF inv assms(2)] assms(3) by (simp add: request_ok_def Let_def)
  next
    case get
    have "max_pool (rs_r ns') = max_pool (rs_r ns)"
      and "rs_pending ns' = rs_pending ns \<or>
        rs_pending ns' = (rs_pending ns)[unat ?tok := rs_pending ns ! unat ?tok @ [rm_i m]]"
      using handle_resource_get_outcome(3) [OF inv get] get_keeps_max [OF sh] by auto
    then show ?thesis
      using assms(2) by (cases "t = unat ?tok") (auto simp: stuck_def)
  next
    case free
    have "max_pool (rs_r ns') = max_pool (rs_r ns)" "rs_pending ns' = rs_pending ns"
      using handle_resource_free_outcome(2,3) [OF inv free] free_keeps_max [OF sh]
      by (auto, metis resource_state.ext_inject resource_state.surjective
          resource_state.update_convs(1))
    then show ?thesis using assms(2) by (simp add: stuck_def)
  next
    case deq
    note o = handle_resource_deq_outcome [OF inv deq]
    have "ns' = ns \<or> t \<noteq> unat ?tok"
    proof (rule ccontr)
      assume "\<not> (ns' = ns \<or> t \<noteq> unat ?tok)"
      then have a: "rs_pending ns ! unat ?tok \<noteq> []" "rm_req p \<le> avail (rs_r ns) ! unat ?tok"
        and t: "t = unat ?tok"
        using o(2) assms(2) by (auto simp: stuck_def)
      have "?tok \<le> num_tokens (rs_r ns)"
        using lp_inv_head(2) [OF inv o(1), of "hd (rs_pending ns ! unat ?tok)"
            "tl (rs_pending ns ! unat ?tok)"] a(1) by simp
      then have "avail (rs_r ns) ! unat ?tok \<le> max_pool (rs_r ns) ! unat ?tok"
        using resource_inv_pool inv by (simp add: resource_lp_inv_def)
      with a(2) have "rm_req p \<le> max_pool (rs_r ns) ! unat ?tok" by (rule order.trans)
      with assms(2) t show False by (auto simp: stuck_def dest: leD)
    qed
    moreover have "max_pool (rs_r ns') = max_pool (rs_r ns)"
      and "rs_pending ns' = rs_pending ns \<or>
        rs_pending ns' = (rs_pending ns)[unat ?tok := tl (rs_pending ns ! unat ?tok)]"
      using o(2) get_keeps_max [OF sh] by auto
    ultimately show ?thesis using assms(2) by (auto simp: stuck_def)
  qed
qed

text \<open>Every event of a run is legitimate, reservations included.\<close>

fun legitimate :: "int \<Rightarrow> resource_msg list \<Rightarrow> resource_state \<Rightarrow> tw_lp \<Rightarrow> bool" where
  "legitimate magic [] ns lp = True"
| "legitimate magic (m # ms) ns lp \<longleftrightarrow>
     request_ok ns m \<and>
     (case resource_event_handler magic ns bf_clear m lp of
        Inl _ \<Rightarrow> True | Inr (ns', b, m', lp', out) \<Rightarrow> legitimate magic ms ns' lp')"

lemma stuck_run:
  assumes "resource_lp_inv ns" "stuck ns t p" "legitimate magic ms ns lp"
    and "run_events magic ms ns lp done' = Inr (ns', lp', done'')"
  shows "stuck ns' t p"
  using assms
proof (induction ms arbitrary: ns lp done')
  case (Cons m ms)
  obtain ns1 b m' lp1 out where
    ev: "resource_event_handler magic ns bf_clear m lp = Inr (ns1, b, m', lp1, out)"
    and run: "run_events magic ms ns1 lp1 ((b, m') # done') = Inr (ns', lp', done'')"
    using Cons.prems(4) by (auto simp: result_iff)
  have ok: "request_ok ns m" "legitimate magic ms ns1 lp1" using Cons.prems(3) ev by auto
  show ?case
    by (rule Cons.IH [OF resource_event_handler_inv [OF Cons.prems(1) ok(1) ev]
          stuck_step [OF Cons.prems(1,2) ok(1) ev] ok(2) run])
qed simp

subsection \<open>Properties\<close>

text \<open>An example LP: ten units, with callbacks of a well-formed layout.\<close>

definition ex_cb :: codes_cb_params where
  "ex_cb = \<lparr>cb_info = \<lparr>event_size = 64, header_offset = 0, tag_offset = 16, cb_ret_offset = 24\<rparr>,
     cb_h = \<lparr>mh_src = 3, mh_event_type = 7, mh_magic = 99\<rparr>, cb_tag = 1\<rparr>"

definition ex_rmsg :: "int \<Rightarrow> u64 \<Rightarrow> int \<Rightarrow> resource_msg" where
  "ex_rmsg t q blk =
     (let i = \<lparr>rm_h = \<lparr>mh_src = 3, mh_event_type = t, mh_magic = 42\<rparr>, rm_req = q, rm_tok = 0,
               block_on_unavail = blk, rm_cb = ex_cb\<rparr>
      in \<lparr>rm_i = i, rm_i_rc = i, min_avail_rc = 0\<rparr>)"

definition ex_resource :: resource where
  "ex_resource = resource_init 10
     \<lparr>avail = replicate 9 0, max_pool = replicate 9 0, min_avail = replicate 9 0,
      max_all = 0, num_tokens = 0\<rparr>"

definition ex_rs :: resource_state where
  "ex_rs = \<lparr>rs_r = ex_resource, rs_pending = replicate (MAX_RESERVE + 1) []\<rparr>"

definition ex_lp :: tw_lp where
  "ex_lp = \<lparr>gid = 19, draws = 5\<rparr>"

lemma ex_rs_inv: "resource_lp_inv ex_rs" "minima_ok (rs_r ex_rs)"
proof -
  have "resource_inv ex_resource" unfolding ex_resource_def
    by (rule resource_init_inv(1)) simp_all
  then show "resource_lp_inv ex_rs"
    by (simp add: resource_lp_inv_def ex_rs_def del: replicate.simps)
  show "minima_ok (rs_r ex_rs)" by code_simp
qed

text \<open>C2: optimistic execution of the resource LP is reversible. After any sequence of acquire,
  release and dequeue events (no reservations, which the code makes before) in which no release
  gives back more than is in use, running the reverse handlers on the events in reverse order
  restores the available amounts and the maxima of all pools, all pending queues and the position of
  the random stream. The recorded minima are restored as well if none of them was above the
  available amount at the start; after a reservation the minimum of the general pool can be, and
  then the reversal of a release lowers it.\<close>
theorem resource_rollback:
  assumes "resource_lp_inv ns" and "events_ok magic ms ns lp"
    and "run_events magic ms ns lp [] = Inr (ns', lp', done')"
  shows "(\<exists>mins. length mins = length (min_avail (rs_r ns)) \<and>
      roll_back magic (length ms) done' ns' lp' = Inr (with_minima mins ns, lp)) \<and>
    (minima_ok (rs_r ns) \<longrightarrow> roll_back magic (length ms) done' ns' lp' = Inr (ns, lp))"
  using run_events_roll_back [OF assms(1) _ assms(2,3), of 0]
    roll_back_but_minima [OF assms, of "min_avail (rs_r ns')" 0] by auto

theorem resource_rollback_witness:
  "\<exists>ns' lp' d.
     run_events 42 [ex_rmsg RESOURCE_GET 6 0, ex_rmsg RESOURCE_GET 5 1, ex_rmsg RESOURCE_FREE 6 0,
       ex_rmsg RESOURCE_DEQ 0 0] ex_rs ex_lp [] = Inr (ns', lp', d) \<and>
     avail (rs_r ns') ! 0 = 5 \<and> roll_back 42 4 d ns' lp' = Inr (ex_rs, ex_lp)"
proof -
  let ?ms = "[ex_rmsg RESOURCE_GET 6 0, ex_rmsg RESOURCE_GET 5 1, ex_rmsg RESOURCE_FREE 6 0,
       ex_rmsg RESOURCE_DEQ 0 0]"
  have ok: "events_ok 42 ?ms ex_rs ex_lp" by code_simp
  have r: "case run_events 42 ?ms ex_rs ex_lp [] of Inl e \<Rightarrow> False
      | Inr (ns', lp', d) \<Rightarrow> avail (rs_r ns') ! 0 = 5" by code_simp
  then obtain ns' lp' d where run: "run_events 42 ?ms ex_rs ex_lp [] = Inr (ns', lp', d)"
    and av: "avail (rs_r ns') ! 0 = 5" by (auto split: sum.splits)
  have "roll_back 42 (length ?ms) d ns' lp' = Inr (ex_rs, ex_lp)"
    using resource_rollback [OF ex_rs_inv(1) ok run] ex_rs_inv(2) by blast
  moreover have "length ?ms = 4" by simp
  ultimately show ?thesis using run av by metis
qed

text \<open>C14: every legitimate event that the resource LP accepts keeps its invariant: the pool maxima
  add up to the capacity, no pool holds more than its maximum, and every queued request sits
  in the queue of the existing pool it asks for. An event is legitimate if it is not a release of
  more than is in use in its pool, which the code does not check, nor a reservation when all
  slots are taken.\<close>
theorem resource_lp_invariant:
  assumes "resource_lp_inv ns" and "request_ok ns m"
    and "resource_event_handler magic ns b m lp = Inr (ns', b', m', lp', out)"
  shows "resource_lp_inv ns'"
  using assms by (rule resource_event_handler_inv)

theorem resource_lp_invariant_witness:
  "\<exists>ns' b' m' lp' out.
     resource_event_handler 42 ex_rs bf_clear (ex_rmsg RESOURCE_GET 11 1) ex_lp
       = Inr (ns', b', m', lp', out) \<and> length (rs_pending ns' ! 0) = 1 \<and> resource_lp_inv ns'"
proof -
  let ?m = "ex_rmsg RESOURCE_GET 11 1"
  have ok: "request_ok ex_rs ?m" by code_simp
  have "case resource_event_handler 42 ex_rs bf_clear ?m ex_lp of Inl e \<Rightarrow> False
      | Inr (ns', b', m', lp', out) \<Rightarrow> length (rs_pending ns' ! 0) = 1" by code_simp
  then obtain ns' b' m' lp' out where
    run: "resource_event_handler 42 ex_rs bf_clear ?m ex_lp = Inr (ns', b', m', lp', out)"
    and "length (rs_pending ns' ! 0) = 1" by (auto split: sum.splits)
  with resource_lp_invariant [OF ex_rs_inv(1) ok run] show ?thesis by blast
qed

text \<open>an accepted acquire request has exactly one of three outcomes. It is granted, which
  happens only when no earlier request waits for the pool and enough is available; or it
  is refused with return code 1 to a requester that does not want to wait; or it is
  appended to the queue and nothing is sent. In the first two cases exactly one reply goes
  to the requester, carrying its tag.\<close>
theorem resource_get_outcomes:
  assumes "resource_lp_inv ns"
    and "handle_resource_get ns b m lp = Inr (ns', b', m', lp', out)"
  defines "tok \<equiv> unat (rm_tok (rm_i m))" and "req \<equiv> rm_req (rm_i m)" and "cb \<equiv> rm_cb (rm_i m)"
  defines "free_now \<equiv> rs_pending ns ! tok = [] \<and> req \<le> avail (rs_r ns) ! tok"
  shows "if free_now
    then avail (rs_r ns') ! tok = avail (rs_r ns) ! tok - req \<and> rs_pending ns' = rs_pending ns \<and>
         map ev_dest out = [mh_src (cb_h cb)] \<and> map ev_tag out = [cb_tag cb] \<and> map ev_ret out = [0]
    else if block_on_unavail (rm_i m) = 0
    then ns' = ns \<and> map ev_dest out = [mh_src (cb_h cb)] \<and> map ev_tag out = [cb_tag cb] \<and>
         map ev_ret out = [1]
    else rs_r ns' = rs_r ns \<and> rs_pending ns' ! tok = rs_pending ns ! tok @ [rm_i m] \<and> out = [] \<and>
         lp' = lp"
proof -
  note o = handle_resource_get_outcome [OF assms(1,2)]
  have len: "tok < length (rs_pending ns)"
    unfolding tok_def by (rule lp_inv_token [OF assms(1) o(1)])
  have "tok < length (avail (rs_r ns))"
    unfolding tok_def by (rule shape_token(1) [OF lp_inv_shape [OF assms(1)] o(1)])
  then have got: "avail r' ! tok = avail (rs_r ns) ! tok - req"
    if "resource_get req (rm_tok (rm_i m)) (rs_r ns) = Inr (0, r')" for r'
    using that o(1) resource_get_codes [of "rs_r ns" "rm_tok (rm_i m)" req] assms(1)
    by (auto simp: resource_lp_inv_def tok_def split: if_splits)
  from o(3) show ?thesis
    unfolding tok_def [symmetric] req_def [symmetric] cb_def [symmetric]
    by (elim disjE conjE)
      (use got len in \<open>auto simp: free_now_def resource_response_Inr length_Suc_conv\<close>)
qed

theorem resource_get_outcomes_witness:
  "\<exists>ns' b' m' lp' out.
     handle_resource_get ex_rs bf_clear (ex_rmsg RESOURCE_GET 4 1) ex_lp
       = Inr (ns', b', m', lp', out) \<and> avail (rs_r ns') ! 0 = 6 \<and> map ev_ret out = [0]"
proof -
  let ?m = "ex_rmsg RESOURCE_GET 4 1"
  have "case handle_resource_get ex_rs bf_clear ?m ex_lp of Inl e \<Rightarrow> False | Inr _ \<Rightarrow> True"
    by code_simp
  then obtain ns' b' m' lp' out where
    run: "handle_resource_get ex_rs bf_clear ?m ex_lp = Inr (ns', b', m', lp', out)"
    by (auto split: sum.splits)
  have e: "unat (rm_tok (rm_i ?m)) = 0" "rs_pending ex_rs ! 0 = []" "avail (rs_r ex_rs) ! 0 = 10"
    "rm_req (rm_i ?m) = 4" by code_simp+
  have "avail (rs_r ns') ! 0 = 6 \<and> map ev_ret out = [0]"
    using resource_get_outcomes [OF ex_rs_inv(1) run] unfolding e by (simp del: length_map)
  with run show ?thesis by (intro exI) (rule conjI)
qed

text \<open>C18: waiting requests are served in the order of their arrival. A dequeue event serves
  the oldest request of its queue or none: it serves it exactly when the pool holds enough
  for it, replies to its requester with code 0, and schedules the next dequeue; otherwise
  pools, queues and random stream stay as they are and nothing is sent.\<close>
theorem resource_deq_fifo:
  assumes "resource_lp_inv ns"
    and "handle_resource_deq magic ns b m lp = Inr (ns', b', m', lp', out)"
  defines "tok \<equiv> unat (rm_tok (rm_i m))"
  shows "case rs_pending ns ! tok of
      [] \<Rightarrow> ns' = ns \<and> lp' = lp \<and> out = []
    | p # rest \<Rightarrow>
        if rm_req p \<le> avail (rs_r ns) ! tok
        then avail (rs_r ns') ! tok = avail (rs_r ns) ! tok - rm_req p \<and>
             rs_pending ns' = (rs_pending ns)[tok := rest] \<and>
             map ev_dest out = [mh_src (cb_h (rm_cb p)), gid lp] \<and> ev_ret (hd out) = 0
        else ns' = ns \<and> lp' = lp \<and> out = []"
proof -
  note o = handle_resource_deq_outcome [OF assms(1,2)]
  show ?thesis
  proof (cases "rs_pending ns ! tok")
    case Nil
    with o(2) show ?thesis by (auto simp: tok_def)
  next
    case (Cons p rest)
    have le: "rm_tok (rm_i m) \<le> num_tokens (rs_r ns)"
      using lp_inv_head(2) [OF assms(1) o(1)] Cons by (simp add: tok_def)
    have "tok < length (avail (rs_r ns))"
      unfolding tok_def by (rule shape_token(1) [OF lp_inv_shape [OF assms(1)] le])
    then have got: "avail r' ! tok = avail (rs_r ns) ! tok - rm_req p"
      if "resource_get (rm_req p) (rm_tok (rm_i m)) (rs_r ns) = Inr (0, r')" for r'
      using that le resource_get_codes [of "rs_r ns" "rm_tok (rm_i m)" "rm_req p"] assms(1)
      by (auto simp: resource_lp_inv_def tok_def split: if_splits)
    note o2 = o(2) [folded tok_def, unfolded Cons, simplified]
    show ?thesis
    proof (cases "rm_req p \<le> avail (rs_r ns) ! tok")
      case True
      then obtain ev where
        g: "resource_get (rm_req p) (rm_tok (rm_i m)) (rs_r ns) = Inr (0, rs_r ns')"
        "rs_pending ns' = (rs_pending ns)[tok := rest]"
        "resource_response (rm_cb p) lp 0 TOKEN_DUMMY = Inr (snd (codes_local_latency lp), ev)"
        "out = [ev, snd (deq_event magic (rm_tok (rm_i m)) (snd (codes_local_latency lp)))]"
        using o2 by auto
      then show ?thesis
        using True Cons got [OF g(1)]
        by (simp add: resource_response_Inr deq_event_def codes_local_latency_def)
    next
      case False
      with o2 show ?thesis by (simp add: Cons)
    qed
  qed
qed

theorem resource_deq_fifo_witness:
  "\<exists>ns' b' m' lp' out.
     handle_resource_deq 42
       (ex_rs\<lparr>rs_pending := (rs_pending ex_rs)[0 := [rm_i (ex_rmsg RESOURCE_GET 4 1),
                                                  rm_i (ex_rmsg RESOURCE_GET 2 1)]]\<rparr>)
       bf_clear (ex_rmsg RESOURCE_DEQ 0 0) ex_lp = Inr (ns', b', m', lp', out) \<and>
     avail (rs_r ns') ! 0 = 6 \<and> map ev_dest out = [3, 19]"
proof -
  let ?q = "[rm_i (ex_rmsg RESOURCE_GET 4 1), rm_i (ex_rmsg RESOURCE_GET 2 1)]"
  let ?ns = "ex_rs\<lparr>rs_pending := (rs_pending ex_rs)[0 := ?q]\<rparr>" and ?m = "ex_rmsg RESOURCE_DEQ 0 0"
  have inv: "resource_lp_inv ?ns"
    by (rule pending_update_inv [OF ex_rs_inv(1)]) (simp add: ex_rmsg_def Let_def)
  have "case handle_resource_deq 42 ?ns bf_clear ?m ex_lp of Inl e \<Rightarrow> False | Inr _ \<Rightarrow> True"
    by code_simp
  then obtain ns' b' m' lp' out where
    run: "handle_resource_deq 42 ?ns bf_clear ?m ex_lp = Inr (ns', b', m', lp', out)"
    by (auto split: sum.splits)
  have e: "unat (rm_tok (rm_i ?m)) = 0" "rs_pending ?ns ! 0 = ?q" "avail (rs_r ?ns) ! 0 = 10"
    "rm_req (rm_i (ex_rmsg RESOURCE_GET 4 1)) = 4"
    "mh_src (cb_h (rm_cb (rm_i (ex_rmsg RESOURCE_GET 4 1)))) = 3" "gid ex_lp = 19" by code_simp+
  have "avail (rs_r ns') ! 0 = 6 \<and> map ev_dest out = [3, 19]"
    using resource_deq_fifo [OF inv run] unfolding e by (simp add: e)
  with run show ?thesis by (intro exI) (rule conjI)
qed

text \<open>A blocking request for more than its pool can ever hold that finds no other request
  waiting for the pool is queued without an error. From then on it stays the oldest request of
  that pool through every run of legitimate events (acquire, dequeue, reservations into free
  slots, releases of no more than is in use), so that no request of the pool is granted any more.
  (The handler has an error exit for such requests, which \<open>resource_get\<close> never takes: it compares
  with what is available first.)\<close>
theorem unsatisfiable_request_blocks_pool:
  assumes "resource_lp_inv ns" and "rm_tok (rm_i m) \<le> num_tokens (rs_r ns)"
    and "rs_pending ns ! unat (rm_tok (rm_i m)) = []" and "block_on_unavail (rm_i m) \<noteq> 0"
    and "rm_req (rm_i m) > max_pool (rs_r ns) ! unat (rm_tok (rm_i m))"
  shows "\<exists>ns1 b1 m1. handle_resource_get ns b m lp = Inr (ns1, b1, m1, lp, []) \<and>
    (\<forall>magic ms lp2 ns2 lp3 d. legitimate magic ms ns1 lp2 \<longrightarrow>
       run_events magic ms ns1 lp2 [] = Inr (ns2, lp3, d) \<longrightarrow>
       hd (rs_pending ns2 ! unat (rm_tok (rm_i m))) = rm_i m \<and>
       rs_pending ns2 ! unat (rm_tok (rm_i m)) \<noteq> [])"
proof -
  let ?tok = "rm_tok (rm_i m)"
  let ?ns = "ns\<lparr>rs_pending := (rs_pending ns)[unat ?tok := [rm_i m]]\<rparr>"
  have inv: "resource_inv (rs_r ns)" using assms(1) by (simp add: resource_lp_inv_def)
  have len: "unat ?tok < length (rs_pending ns)" by (rule lp_inv_token [OF assms(1,2)])
  have "rm_req (rm_i m) > avail (rs_r ns) ! unat ?tok"
    using resource_inv_pool [OF inv assms(2)] assms(5) by simp
  then have g: "resource_get (rm_req (rm_i m)) ?tok (rs_r ns) = Inr (1, rs_r ns)"
    by (simp add: resource_get_codes [OF inv assms(2)])
  have "resource_get_min_avail ?tok (rs_r ns) = Inr (0, Some (min_avail (rs_r ns) ! unat ?tok))"
    using resource_get_min_avail_cases [OF lp_inv_shape [OF assms(1)], of ?tok] assms(2) by simp
  with g len assms(3,4) have "\<exists>b1 m1. handle_resource_get ns b m lp = Inr (?ns, b1, m1, lp, [])"
    by (simp add: handle_resource_get_def get_attempt_def Let_def)
  moreover have "resource_lp_inv ?ns"
    by (rule pending_update_inv [OF assms(1)]) (simp add: assms(2))
  moreover have "stuck ?ns (unat ?tok) (rm_i m)" using len assms(5) by (simp add: stuck_def)
  ultimately show ?thesis using stuck_run unfolding stuck_def by blast
qed

theorem unsatisfiable_request_blocks_pool_witness:
  "\<exists>ns1 b1 m1. handle_resource_get ex_rs bf_clear (ex_rmsg RESOURCE_GET 11 1) ex_lp
     = Inr (ns1, b1, m1, ex_lp, []) \<and>
   (\<forall>magic ms lp2 ns2 lp3 d. legitimate magic ms ns1 lp2 \<longrightarrow>
      run_events magic ms ns1 lp2 [] = Inr (ns2, lp3, d) \<longrightarrow>
      hd (rs_pending ns2 ! 0) = rm_i (ex_rmsg RESOURCE_GET 11 1) \<and> rs_pending ns2 ! 0 \<noteq> [])"
proof -
  let ?m = "ex_rmsg RESOURCE_GET 11 1"
  have t: "unat (rm_tok (rm_i ?m)) = 0" by (simp add: ex_rmsg_def Let_def)
  have "rm_tok (rm_i ?m) \<le> num_tokens (rs_r ex_rs)"
    "rs_pending ex_rs ! unat (rm_tok (rm_i ?m)) = []"
    "block_on_unavail (rm_i ?m) \<noteq> 0"
    "max_pool (rs_r ex_rs) ! unat (rm_tok (rm_i ?m)) < rm_req (rm_i ?m)" by code_simp+
  from unsatisfiable_request_blocks_pool [OF ex_rs_inv(1) this, of bf_clear ex_lp]
  show ?thesis unfolding t .
qed

text \<open>reserving part of the general pool does not lower the recorded minimum of that pool.
  So the peak usage that \<open>resource_finalize\<close> prints for it, the pool's maximum minus its
  minimum, wraps around below zero when the pool was not in use before, and the reversal
  of a later release does not restore the state: it lowers the minimum.\<close>
theorem reserve_leaves_stale_minimum:
  "\<exists>ns b m lp out. handle_resource_reserve ex_rs bf_clear (ex_rmsg RESOURCE_RESERVE 3 0) ex_lp
       = Inr (ns, b, m, lp, out) \<and>
     finalize_peaks 1 (max_pool (rs_r ns)) (min_avail (rs_r ns)) = [2 ^ 64 - 3] \<and>
     (\<exists>ns1 b1 m1 lp1 o1 ns2 b2 m2 lp2 o2 ns3 lp3.
        handle_resource_get ns bf_clear (ex_rmsg RESOURCE_GET 2 0) lp = Inr (ns1, b1, m1, lp1, o1) \<and>
        handle_resource_reserve ns1 bf_clear (ex_rmsg RESOURCE_RESERVE 1 0) lp1
          = Inr (ns2, b2, m2, lp2, o2) \<and>
        (\<exists>ns4 b4 m4 lp4 o4.
           handle_resource_free 42 ns2 bf_clear (ex_rmsg RESOURCE_FREE 2 0) lp2
             = Inr (ns4, b4, m4, lp4, o4) \<and>
           handle_resource_free_rc ns4 b4 m4 lp4 = Inr (ns3, lp3)) \<and>
        min_avail (rs_r ns2) ! 0 = 5 \<and> min_avail (rs_r ns3) ! 0 = 4)"
proof -
  let ?run = "bind_res (handle_resource_reserve ex_rs bf_clear (ex_rmsg RESOURCE_RESERVE 3 0) ex_lp)
      (\<lambda>(ns, b, m, lp, out).
    bind_res (handle_resource_get ns bf_clear (ex_rmsg RESOURCE_GET 2 0) lp) (\<lambda>(ns1, b1, m1, lp1, o1).
    bind_res (handle_resource_reserve ns1 bf_clear (ex_rmsg RESOURCE_RESERVE 1 0) lp1)
      (\<lambda>(ns2, b2, m2, lp2, o2).
    bind_res (handle_resource_free 42 ns2 bf_clear (ex_rmsg RESOURCE_FREE 2 0) lp2)
      (\<lambda>(ns4, b4, m4, lp4, o4).
    bind_res (handle_resource_free_rc ns4 b4 m4 lp4) (\<lambda>(ns3, lp3).
      Inr (finalize_peaks 1 (max_pool (rs_r ns)) (min_avail (rs_r ns)),
           min_avail (rs_r ns2) ! 0, min_avail (rs_r ns3) ! 0))))))"
  have "?run = Inr ([2 ^ 64 - 3], 5, 4)" by code_simp
  then show ?thesis by (simp only: bind_res_Inr_iff split_paired_Ex split_beta) (auto; blast)
qed

text \<open>the reversal of a reservation gives back the random draw, the queues, and every
  pool that exists without the reservation; only the slot of the reserved pool, which no
  token refers to any more, keeps its values.\<close>
theorem reserve_reversal:
  assumes "resource_lp_inv ns" and "unat (num_tokens (rs_r ns)) < MAX_RESERVE"
    and "handle_resource_reserve ns b m lp = Inr (ns', b', m', lp', out)"
  shows "\<exists>ns0. handle_resource_reserve_rc ns' b' m' lp' = Inr (ns0, lp) \<and>
    resource_agree (rs_r ns0) (rs_r ns) \<and> rs_pending ns0 = rs_pending ns"
  using assms by (rule handle_resource_reserve_reverse)

theorem reserve_reversal_witness:
  "\<exists>ns' b' m' lp' out ns0.
     handle_resource_reserve ex_rs bf_clear (ex_rmsg RESOURCE_RESERVE 3 0) ex_lp
       = Inr (ns', b', m', lp', out) \<and> max_pool (rs_r ns') ! 1 = 3 \<and>
     handle_resource_reserve_rc ns' b' m' lp' = Inr (ns0, ex_lp) \<and>
     resource_agree (rs_r ns0) (rs_r ex_rs)"
proof -
  let ?m = "ex_rmsg RESOURCE_RESERVE 3 0"
  have "case handle_resource_reserve ex_rs bf_clear ?m ex_lp of Inl e \<Rightarrow> False
      | Inr (ns', b', m', lp', out) \<Rightarrow> max_pool (rs_r ns') ! 1 = 3" by code_simp
  then obtain ns' b' m' lp' out where
    run: "handle_resource_reserve ex_rs bf_clear ?m ex_lp = Inr (ns', b', m', lp', out)"
    and "max_pool (rs_r ns') ! 1 = 3" by (auto split: sum.splits)
  moreover have "unat (num_tokens (rs_r ex_rs)) < MAX_RESERVE" by code_simp
  ultimately show ?thesis using reserve_reversal [OF ex_rs_inv(1) _ run] by blast
qed

text \<open>a request goes to the LP that its mapping context resolves to, carries the amount,
  token and callback as the caller gave them under a header with the resource magic, and
  takes exactly one random draw, which the reverse function gives back.\<close>
theorem resource_request_delivery:
  assumes "codes_mctx_to_lpid c ctx RESOURCE_LP_NM (gid sender) = Inr dest"
    and "SANITY_CHECK_CB cb sizeof_resource_return = Inr ()"
  shows "\<exists>sender' rq. resource_lp_get_reserved c magic m0 req tok block sender (Some ctx) tag
      (Some rh) (Some cb) = Inr (sender', rq) \<and>
    rq_dest rq = dest \<and> rm_req (rm_i (rq_msg rq)) = req \<and> rm_tok (rm_i (rq_msg rq)) = tok \<and>
    rm_cb (rm_i (rq_msg rq)) = \<lparr>cb_info = cb, cb_h = rh, cb_tag = tag\<rparr> \<and>
    rm_h (rm_i (rq_msg rq)) = msg_set_header magic RESOURCE_GET (gid sender) \<and>
    resource_lp_issue_event_base_rc sender' = sender"
  using assms
  by (simp add: resource_lp_get_reserved_def resource_lp_issue_event_base_def
      resource_lp_issue_event_base_rc_def codes_local_latency_def codes_local_latency_reverse_def)

theorem resource_request_delivery_witness:
  "\<exists>sender' rq. resource_lp_get_reserved ex_conf 42 (ex_rmsg 0 0 0) 5 1 1 \<lparr>gid = 17, draws = 0\<rparr>
      (Some CODES_MCTX_DEFAULT) 1 (Some (cb_h ex_cb)) (Some (cb_info ex_cb)) = Inr (sender', rq) \<and>
    rq_dest rq = 19 \<and> rm_req (rm_i (rq_msg rq)) = 5"
proof -
  have "codes_mctx_to_lpid ex_conf CODES_MCTX_DEFAULT RESOURCE_LP_NM (gid \<lparr>gid = 17, draws = 0\<rparr>)
      = Inr 19" by code_simp
  moreover have "SANITY_CHECK_CB (cb_info ex_cb) sizeof_resource_return = Inr ()" by code_simp
  ultimately show ?thesis
    using resource_request_delivery [of ex_conf CODES_MCTX_DEFAULT "\<lparr>gid = 17, draws = 0\<rparr>" 19
        "cb_info ex_cb"] by blast
qed

end
