(* ===== verification/MN_Sched.thy ===== *)
theory MN_Sched
  imports Quicklist
begin

text \<open>
  The message schedulers of model-net: src/networks/model-net/core/model-net-sched-impl.c
  (first come first served, round robin, priorities) and model-net-sched.c. A scheduler
  cuts messages into packets, hands them to the network method, and can undo each step.

  The network method is the table of function pointers \<open>struct model_net_method\<close>. It is
  an argument of the scheduler operations: a record of functions on the state \<open>'lp\<close> of the
  calling LP, with a result of type \<open>'t\<close>, the time offset. An entry that may be NULL is an
  option. A queue of requests is the list that \<open>qlist_add_tail\<close>, \<open>qlist_add\<close>, \<open>qlist_pop\<close>
  and \<open>qlist_pop_back\<close> maintain (theory \<open>Quicklist\<close>).
\<close>

subsection \<open>Requests and queues\<close>

record model_net_request =
  final_dest_lp :: int
  dest_mn_lp :: int
  src_lp :: int
  msg_start_time :: tw_stime
  msg_new_mn_event :: tw_stime
  msg_size :: u64
  pull_size :: u64
  packet_size :: u64
  msg_id :: u64
  net_id :: int
  is_pull :: int
  queue_offset :: int
  remote_event_size :: int
  self_event_size :: int
  category :: string
  app_id :: int

record mn_sched_qitem =
  qi_req :: model_net_request
  qi_prio :: int                       \<comment> \<open>\<open>sched_params.prio\<close>\<close>
  qi_rem :: u64
  qi_remote_event :: "bytes option"
  qi_local_event :: "bytes option"

record mn_sched_queue =
  is_recv_queue :: int
  queue_len :: int
  reqs :: "mn_sched_qitem list"

record model_net_sched_rc =
  rc_req :: model_net_request
  rc_sched_prio :: int                 \<comment> \<open>\<open>sched_params.prio\<close>\<close>
  rc_rtn :: int
  rc_prio :: int

text \<open>The arguments of the calls into the network method.\<close>

datatype mn_call =
    PacketEvent (pk_req: model_net_request) (pk_offset: u64) (pk_size: u64) (pk_prio: int)
      (pk_remote: "bytes option") (pk_local: "bytes option") (pk_last: bool) (pk_more: bool)
  | RecvEvent (rv_req: model_net_request) (rv_size: u64) (rv_remote: "bytes option")

record ('lp, 't) model_net_method =
  mn_packet_event :: "mn_call \<Rightarrow> 'lp \<Rightarrow> 't \<times> 'lp"
  mn_packet_event_rc :: "'lp \<Rightarrow> 'lp"
  mn_recv_msg_event :: "(mn_call \<Rightarrow> 'lp \<Rightarrow> 't \<times> 'lp) option"
  mn_recv_msg_event_rc :: "('lp \<Rightarrow> 'lp) option"

text \<open>\<open>memcpy\<close> of the first \<open>n\<close> bytes of a buffer.\<close>

definition memcpy :: "bytes option \<Rightarrow> int \<Rightarrow> bytes result" where
  "memcpy p n = (case p of None \<Rightarrow> Inl NullDeref
                 | Some b \<Rightarrow> if nat n \<le> length b then Inr (take (nat n) b) else Inl OutOfBounds)"

definition copy_event :: "int \<Rightarrow> bytes option \<Rightarrow> bytes option result" where
  "copy_event n p = (if n > 0 then bind_res (memcpy p n) (\<lambda>b. Inr (Some b)) else Inr None)"

subsection \<open>First come, first served\<close>

definition fcfs_init :: "int \<Rightarrow> mn_sched_queue" where
  "fcfs_init recv_queue = \<lparr>is_recv_queue = recv_queue, queue_len = 0, reqs = []\<rparr>"

definition fcfs_add ::
    "model_net_request \<Rightarrow> int \<Rightarrow> int \<Rightarrow> bytes option \<Rightarrow> int \<Rightarrow> bytes option \<Rightarrow> mn_sched_queue \<Rightarrow>
     mn_sched_queue result" where
  "fcfs_add req prio remote_sz remote_event local_sz local_event s =
     bind_res (c_assert (remote_event_size req = remote_sz)) (\<lambda>_.
     bind_res (copy_event remote_sz remote_event) (\<lambda>re.
     bind_res (c_assert (self_event_size req = local_sz)) (\<lambda>_.
     bind_res (copy_event local_sz local_event) (\<lambda>le.
       let q = \<lparr>qi_req = req, qi_prio = prio, qi_rem = msg_size req, qi_remote_event = re,
                qi_local_event = le\<rparr>
       in Inr (s\<lparr>queue_len := queue_len s + 1, reqs := reqs s @ [q]\<rparr>)))))"

definition fcfs_add_rc :: "mn_sched_queue \<Rightarrow> mn_sched_queue result" where
  "fcfs_add_rc s =
     bind_res (c_assert (reqs s \<noteq> [])) (\<lambda>_.
       Inr (s\<lparr>queue_len := queue_len s - 1, reqs := butlast (reqs s)\<rparr>))"

text \<open>The size of the next packet of an item and whether it is the last one.\<close>

definition next_packet :: "mn_sched_qitem \<Rightarrow> u64 \<times> bool" where
  "next_packet q =
     (if packet_size (qi_req q) \<ge> qi_rem q then (qi_rem q, True)
      else (packet_size (qi_req q), False))"

definition packet_call :: "mn_sched_queue \<Rightarrow> mn_sched_qitem \<Rightarrow> mn_call" where
  "packet_call s q =
     (let (psize, is_last) = next_packet q in
      if is_recv_queue s \<noteq> 0 then RecvEvent (qi_req q) psize (qi_remote_event q)
      else PacketEvent (qi_req q) (msg_size (qi_req q) - qi_rem q) psize (qi_prio q)
             (qi_remote_event q) (qi_local_event q) is_last (\<not> is_last \<or> queue_len s > 1))"

definition call_method ::
    "('lp, 't) model_net_method \<Rightarrow> mn_sched_queue \<Rightarrow> mn_call \<Rightarrow> 'lp \<Rightarrow> ('t \<times> 'lp) result" where
  "call_method mt s c lp =
     (if is_recv_queue s \<noteq> 0
      then case mn_recv_msg_event mt of None \<Rightarrow> Inl NullDeref | Some f \<Rightarrow> Inr (f c lp)
      else Inr (mn_packet_event mt c lp))"

definition call_method_rc ::
    "('lp, 't) model_net_method \<Rightarrow> mn_sched_queue \<Rightarrow> 'lp \<Rightarrow> 'lp result" where
  "call_method_rc mt s lp =
     (if is_recv_queue s \<noteq> 0
      then case mn_recv_msg_event_rc mt of None \<Rightarrow> Inl NullDeref | Some f \<Rightarrow> Inr (f lp)
      else Inr (mn_packet_event_rc mt lp))"

text \<open>What is saved for the reverse handler when an item is finished: the remote event, then
  the local one.\<close>

definition save_events :: "mn_sched_qitem \<Rightarrow> bytes result" where
  "save_events q =
     bind_res (copy_event (remote_event_size (qi_req q)) (qi_remote_event q)) (\<lambda>re.
     bind_res (copy_event (self_event_size (qi_req q)) (qi_local_event q)) (\<lambda>le.
       Inr ((case re of None \<Rightarrow> [] | Some b \<Rightarrow> b) @ (case le of None \<Rightarrow> [] | Some b \<Rightarrow> b))))"

text \<open>The result of a \<open>next\<close> step: return code, time offset and call of the method (none for
  an empty queue), the queue, the reverse information, the saved bytes, the LP.\<close>

record ('lp, 't, 's) sched_step =
  st_ret :: int
  st_offset :: "'t option"
  st_call :: "mn_call option"
  st_sched :: 's
  st_rc :: model_net_sched_rc
  st_save :: bytes
  st_lp :: 'lp

definition fcfs_next ::
    "('lp, 't) model_net_method \<Rightarrow> mn_sched_queue \<Rightarrow> bytes \<Rightarrow> model_net_sched_rc \<Rightarrow> 'lp \<Rightarrow>
     ('lp, 't, mn_sched_queue) sched_step result" where
  "fcfs_next mt s save rc lp =
     (case reqs s of
        [] \<Rightarrow> Inr \<lparr>st_ret = -1, st_offset = None, st_call = None, st_sched = s,
                  st_rc = rc\<lparr>rc_rtn := -1\<rparr>, st_save = save, st_lp = lp\<rparr>
      | q # rest \<Rightarrow>
          let (psize, is_last) = next_packet q; c = packet_call s q in
          bind_res (call_method mt s c lp) (\<lambda>(off, lp').
          if is_last
          then bind_res (save_events q) (\<lambda>sv.
                 Inr \<lparr>st_ret = 1, st_offset = Some off, st_call = Some c,
                      st_sched = s\<lparr>reqs := rest, queue_len := queue_len s - 1\<rparr>,
                      st_rc = rc\<lparr>rc_req := qi_req q, rc_sched_prio := qi_prio q, rc_rtn := 1\<rparr>,
                      st_save = sv, st_lp = lp'\<rparr>)
          else Inr \<lparr>st_ret = 0, st_offset = Some off, st_call = Some c,
                    st_sched = s\<lparr>reqs := q\<lparr>qi_rem := qi_rem q - psize\<rparr> # rest\<rparr>,
                    st_rc = rc\<lparr>rc_rtn := 0\<rparr>, st_save = save, st_lp = lp'\<rparr>))"

definition restore_event :: "int \<Rightarrow> bytes \<Rightarrow> bytes option result" where
  "restore_event n b = copy_event n (Some b)"

definition rebuild_qitem :: "model_net_sched_rc \<Rightarrow> bytes \<Rightarrow> mn_sched_qitem result" where
  "rebuild_qitem rc save =
     (let req = rc_req rc in
      if packet_size req = 0 then Inl DivByZero
      else
        let r0 = msg_size req mod packet_size req;
            r = (if r0 = 0 \<and> msg_size req \<noteq> 0 then packet_size req else r0)
        in bind_res (restore_event (remote_event_size req) save) (\<lambda>re.
           bind_res (restore_event (self_event_size req)
               (if remote_event_size req > 0 then drop (nat (remote_event_size req)) save else save))
             (\<lambda>le. Inr \<lparr>qi_req = req, qi_prio = rc_sched_prio rc, qi_rem = r,
                        qi_remote_event = re, qi_local_event = le\<rparr>)))"

definition fcfs_next_rc ::
    "('lp, 't) model_net_method \<Rightarrow> mn_sched_queue \<Rightarrow> bytes \<Rightarrow> model_net_sched_rc \<Rightarrow> 'lp \<Rightarrow>
     (mn_sched_queue \<times> 'lp) result" where
  "fcfs_next_rc mt s save rc lp =
     (if rc_rtn rc = -1 then Inr (s, lp)
      else bind_res (call_method_rc mt s lp) (\<lambda>lp'.
        if rc_rtn rc = 0
        then case reqs s of
               [] \<Rightarrow> Inl OutOfBounds
             | q # rest \<Rightarrow>
                 Inr (s\<lparr>reqs := q\<lparr>qi_rem := qi_rem q + packet_size (qi_req q)\<rparr> # rest\<rparr>, lp')
        else if rc_rtn rc = 1
        then bind_res (rebuild_qitem rc save) (\<lambda>q.
               Inr (s\<lparr>reqs := q # reqs s, queue_len := queue_len s + 1\<rparr>, lp'))
        else Inl AssertFailed))"

subsection \<open>Round robin\<close>

definition rr_init :: "int \<Rightarrow> mn_sched_queue" where
  "rr_init recv_queue = fcfs_init recv_queue"

definition rr_add where
  "rr_add req prio remote_sz remote_event local_sz local_event s =
     fcfs_add req prio remote_sz remote_event local_sz local_event s"

definition rr_add_rc where
  "rr_add_rc s = fcfs_add_rc s"

text \<open>\<open>qlist_add_tail(qlist_pop(..))\<close> and \<open>qlist_add(qlist_pop_back(..))\<close>.\<close>

definition rotate_out :: "'a list \<Rightarrow> 'a list" where
  "rotate_out xs = (case xs of [] \<Rightarrow> [] | x # ys \<Rightarrow> ys @ [x])"

definition rotate_in :: "'a list \<Rightarrow> 'a list" where
  "rotate_in xs = (if xs = [] then [] else last xs # butlast xs)"

definition rr_next ::
    "('lp, 't) model_net_method \<Rightarrow> mn_sched_queue \<Rightarrow> bytes \<Rightarrow> model_net_sched_rc \<Rightarrow> 'lp \<Rightarrow>
     ('lp, 't, mn_sched_queue) sched_step result" where
  "rr_next mt s save rc lp =
     bind_res (fcfs_next mt s save rc lp) (\<lambda>r.
       if st_ret r = -1 \<or> st_ret r = 1 then Inr r
       else Inr (r\<lparr>st_sched := (st_sched r)\<lparr>reqs := rotate_out (reqs (st_sched r))\<rparr>\<rparr>))"

definition rr_next_rc ::
    "('lp, 't) model_net_method \<Rightarrow> mn_sched_queue \<Rightarrow> bytes \<Rightarrow> model_net_sched_rc \<Rightarrow> 'lp \<Rightarrow>
     (mn_sched_queue \<times> 'lp) result" where
  "rr_next_rc mt s save rc lp =
     fcfs_next_rc mt (if rc_rtn rc = 0 then s\<lparr>reqs := rotate_in (reqs s)\<rparr> else s) save rc lp"

subsection \<open>Priorities\<close>

text \<open>The kinds of scheduler. A priority scheduler has one queue per priority, all of the kind
  \<open>sub_stype\<close>; the configuration refuses a priority scheduler as sub-scheduler.\<close>

datatype sched_type = MN_SCHED_FCFS | MN_SCHED_FCFS_FULL | MN_SCHED_RR | MN_SCHED_PRIO

record mn_sched_prio =
  sub_stype :: sched_type
  sub_scheds :: "mn_sched_queue list"

definition sub_next where
  "sub_next t = (case t of MN_SCHED_RR \<Rightarrow> rr_next | _ \<Rightarrow> fcfs_next)"

definition sub_next_rc where
  "sub_next_rc t = (case t of MN_SCHED_RR \<Rightarrow> rr_next_rc | _ \<Rightarrow> fcfs_next_rc)"

definition prio_init :: "int \<Rightarrow> sched_type \<Rightarrow> int \<Rightarrow> mn_sched_prio" where
  "prio_init num_prios st recv_queue =
     \<lparr>sub_stype = st, sub_scheds = replicate (nat num_prios) (fcfs_init recv_queue)\<rparr>"

definition prio_add ::
    "model_net_request \<Rightarrow> int \<Rightarrow> int \<Rightarrow> bytes option \<Rightarrow> int \<Rightarrow> bytes option \<Rightarrow> mn_sched_prio \<Rightarrow>
     model_net_sched_rc \<Rightarrow> (mn_sched_prio \<times> model_net_sched_rc) result" where
  "prio_add req prio0 remote_sz remote_event local_sz local_event ss rc =
     (let num_prios = int (length (sub_scheds ss));
          prio = (if prio0 = -1 then num_prios - 1 else prio0) in
      if prio0 \<noteq> -1 \<and> prio0 \<ge> num_prios then Inl TwError
      else if prio < 0 then Inl OutOfBounds
      else bind_res (rd (sub_scheds ss) (nat prio)) (\<lambda>s.
           bind_res (fcfs_add req prio0 remote_sz remote_event local_sz local_event s) (\<lambda>s'.
             Inr (ss\<lparr>sub_scheds := (sub_scheds ss)[nat prio := s']\<rparr>, rc\<lparr>rc_prio := prio\<rparr>))))"

definition prio_add_rc :: "mn_sched_prio \<Rightarrow> model_net_sched_rc \<Rightarrow> mn_sched_prio result" where
  "prio_add_rc ss rc =
     (if rc_prio rc < 0 then Inl OutOfBounds
      else bind_res (rd (sub_scheds ss) (nat (rc_prio rc))) (\<lambda>s.
           bind_res (fcfs_add_rc s) (\<lambda>s'.
             Inr (ss\<lparr>sub_scheds := (sub_scheds ss)[nat (rc_prio rc) := s']\<rparr>))))"

text \<open>The first queue, by priority, that is not empty.\<close>

fun first_ready :: "mn_sched_queue list \<Rightarrow> nat \<Rightarrow> nat option" where
  "first_ready [] i = None"
| "first_ready (s # ss) i = (if reqs s \<noteq> [] then Some i else first_ready ss (Suc i))"

definition prio_next ::
    "('lp, 't) model_net_method \<Rightarrow> mn_sched_prio \<Rightarrow> bytes \<Rightarrow> model_net_sched_rc \<Rightarrow> 'lp \<Rightarrow>
     ('lp, 't, mn_sched_prio) sched_step result" where
  "prio_next mt ss save rc lp =
     (case first_ready (sub_scheds ss) 0 of
        None \<Rightarrow> Inr \<lparr>st_ret = -1, st_offset = None, st_call = None, st_sched = ss,
                     st_rc = rc\<lparr>rc_prio := -1\<rparr>, st_save = save, st_lp = lp\<rparr>
      | Some i \<Rightarrow>
          bind_res (sub_next (sub_stype ss) mt (sub_scheds ss ! i) save (rc\<lparr>rc_prio := int i\<rparr>) lp)
            (\<lambda>r. Inr \<lparr>st_ret = st_ret r, st_offset = st_offset r, st_call = st_call r,
                      st_sched = ss\<lparr>sub_scheds := (sub_scheds ss)[i := st_sched r]\<rparr>,
                      st_rc = st_rc r, st_save = st_save r, st_lp = st_lp r\<rparr>))"

definition prio_next_rc ::
    "('lp, 't) model_net_method \<Rightarrow> mn_sched_prio \<Rightarrow> bytes \<Rightarrow> model_net_sched_rc \<Rightarrow> 'lp \<Rightarrow>
     (mn_sched_prio \<times> 'lp) result" where
  "prio_next_rc mt ss save rc lp =
     (if rc_prio rc \<noteq> -1
      then if rc_prio rc < 0 then Inl OutOfBounds
           else bind_res (rd (sub_scheds ss) (nat (rc_prio rc))) (\<lambda>s.
             bind_res (sub_next_rc (sub_stype ss) mt s save rc lp) (\<lambda>(s', lp').
               Inr (ss\<lparr>sub_scheds := (sub_scheds ss)[nat (rc_prio rc) := s']\<rparr>, lp')))
      else Inr (ss, lp))"

subsection \<open>The scheduler interface\<close>

text \<open>\<open>model_net_sched\<close> pairs the type with the data of the implementation, a type pun in C.
  The dispatch tables are cases on the type.\<close>

datatype mn_sched_dat = SQueue mn_sched_queue | SPrio mn_sched_prio

record model_net_sched =
  ms_type :: sched_type
  ms_dat :: mn_sched_dat

definition model_net_sched_init :: "sched_type \<Rightarrow> int \<Rightarrow> sched_type \<Rightarrow> int \<Rightarrow> model_net_sched" where
  "model_net_sched_init t num_prios sub recv_queue =
     \<lparr>ms_type = t,
      ms_dat = (case t of MN_SCHED_PRIO \<Rightarrow> SPrio (prio_init num_prios sub recv_queue)
                | MN_SCHED_RR \<Rightarrow> SQueue (rr_init recv_queue)
                | _ \<Rightarrow> SQueue (fcfs_init recv_queue))\<rparr>"

definition lift_step :: "('s \<Rightarrow> 'r) \<Rightarrow> ('lp, 't, 's) sched_step \<Rightarrow> ('lp, 't, 'r) sched_step" where
  "lift_step f r = \<lparr>st_ret = st_ret r, st_offset = st_offset r, st_call = st_call r,
     st_sched = f (st_sched r), st_rc = st_rc r, st_save = st_save r, st_lp = st_lp r\<rparr>"

definition model_net_sched_next ::
    "('lp, 't) model_net_method \<Rightarrow> model_net_sched \<Rightarrow> bytes \<Rightarrow> model_net_sched_rc \<Rightarrow> 'lp \<Rightarrow>
     ('lp, 't, model_net_sched) sched_step result" where
  "model_net_sched_next mt sd save rc lp =
     (case ms_dat sd of
        SPrio p \<Rightarrow> bind_res (prio_next mt p save rc lp)
                     (\<lambda>r. Inr (lift_step (\<lambda>p'. sd\<lparr>ms_dat := SPrio p'\<rparr>) r))
      | SQueue q \<Rightarrow> bind_res (sub_next (ms_type sd) mt q save rc lp)
                     (\<lambda>r. Inr (lift_step (\<lambda>q'. sd\<lparr>ms_dat := SQueue q'\<rparr>) r)))"

definition model_net_sched_next_rc ::
    "('lp, 't) model_net_method \<Rightarrow> model_net_sched \<Rightarrow> bytes \<Rightarrow> model_net_sched_rc \<Rightarrow> 'lp \<Rightarrow>
     (model_net_sched \<times> 'lp) result" where
  "model_net_sched_next_rc mt sd save rc lp =
     (case ms_dat sd of
        SPrio p \<Rightarrow> bind_res (prio_next_rc mt p save rc lp)
                     (\<lambda>(p', lp'). Inr (sd\<lparr>ms_dat := SPrio p'\<rparr>, lp'))
      | SQueue q \<Rightarrow> bind_res (sub_next_rc (ms_type sd) mt q save rc lp)
                     (\<lambda>(q', lp'). Inr (sd\<lparr>ms_dat := SQueue q'\<rparr>, lp')))"

definition model_net_sched_add ::
    "model_net_request \<Rightarrow> int \<Rightarrow> int \<Rightarrow> bytes option \<Rightarrow> int \<Rightarrow> bytes option \<Rightarrow> model_net_sched \<Rightarrow>
     model_net_sched_rc \<Rightarrow> (model_net_sched \<times> model_net_sched_rc) result" where
  "model_net_sched_add req prio rsz re lsz le sd rc =
     (case ms_dat sd of
        SPrio p \<Rightarrow> bind_res (prio_add req prio rsz re lsz le p rc)
                     (\<lambda>(p', rc'). Inr (sd\<lparr>ms_dat := SPrio p'\<rparr>, rc'))
      | SQueue q \<Rightarrow> bind_res (fcfs_add req prio rsz re lsz le q)
                     (\<lambda>q'. Inr (sd\<lparr>ms_dat := SQueue q'\<rparr>, rc)))"

definition model_net_sched_add_rc ::
    "model_net_sched \<Rightarrow> model_net_sched_rc \<Rightarrow> model_net_sched result" where
  "model_net_sched_add_rc sd rc =
     (case ms_dat sd of
        SPrio p \<Rightarrow> bind_res (prio_add_rc p rc) (\<lambda>p'. Inr (sd\<lparr>ms_dat := SPrio p'\<rparr>))
      | SQueue q \<Rightarrow> bind_res (fcfs_add_rc q) (\<lambda>q'. Inr (sd\<lparr>ms_dat := SQueue q'\<rparr>)))"

subsection \<open>Checkpoints of a queue\<close>

text \<open>The functions by which the rollback checker copies a queue and compares it with the
  queue after an event and its reversal. \<open>strncmp\<close> and \<open>memcmp\<close> are used for equality
  only.\<close>

definition CATEGORY_NAME_MAX :: nat where
  "CATEGORY_NAME_MAX = 16"

definition strncmp_eq :: "string \<Rightarrow> string \<Rightarrow> nat \<Rightarrow> bool" where
  "strncmp_eq a b n \<longleftrightarrow> take n a = take n b"

definition memcmp_eq :: "bytes option \<Rightarrow> bytes option \<Rightarrow> int \<Rightarrow> bool result" where
  "memcmp_eq a b n =
     (if n \<le> 0 then Inr True
      else bind_res (memcpy a n) (\<lambda>x. bind_res (memcpy b n) (\<lambda>y. Inr (x = y))))"

definition check_model_net_request :: "model_net_request \<Rightarrow> model_net_request \<Rightarrow> bool" where
  "check_model_net_request before after \<longleftrightarrow>
     final_dest_lp before = final_dest_lp after \<and> dest_mn_lp before = dest_mn_lp after \<and>
     src_lp before = src_lp after \<and> msg_start_time before = msg_start_time after \<and>
     msg_new_mn_event before = msg_new_mn_event after \<and> msg_size before = msg_size after \<and>
     pull_size before = pull_size after \<and> packet_size before = packet_size after \<and>
     msg_id before = msg_id after \<and> net_id before = net_id after \<and> is_pull before = is_pull after \<and>
     queue_offset before = queue_offset after \<and> remote_event_size before = remote_event_size after \<and>
     self_event_size before = self_event_size after \<and> app_id before = app_id after \<and>
     strncmp_eq (category before) (category after) CATEGORY_NAME_MAX"

definition save_buffer :: "int \<Rightarrow> bytes option \<Rightarrow> bytes option result" where
  "save_buffer n b =
     (case b of None \<Rightarrow> Inr None
      | Some _ \<Rightarrow> bind_res (c_assert (n > 0)) (\<lambda>_. copy_event n b))"

definition save_mn_sched_qitem :: "mn_sched_qitem \<Rightarrow> mn_sched_qitem result" where
  "save_mn_sched_qitem q =
     bind_res (save_buffer (remote_event_size (qi_req q)) (qi_remote_event q)) (\<lambda>re.
     bind_res (save_buffer (self_event_size (qi_req q)) (qi_local_event q)) (\<lambda>le.
       Inr \<lparr>qi_req = qi_req q, qi_prio = qi_prio q, qi_rem = qi_rem q, qi_remote_event = re,
            qi_local_event = le\<rparr>))"

fun save_items :: "mn_sched_qitem list \<Rightarrow> mn_sched_qitem list result" where
  "save_items [] = Inr []"
| "save_items (q # qs) =
     bind_res (save_mn_sched_qitem q) (\<lambda>q'. bind_res (save_items qs) (\<lambda>qs'. Inr (q' # qs')))"

definition save_state_fcfs_state :: "mn_sched_queue \<Rightarrow> mn_sched_queue result" where
  "save_state_fcfs_state s =
     bind_res (save_items (reqs s)) (\<lambda>qs.
       Inr \<lparr>is_recv_queue = is_recv_queue s, queue_len = queue_len s, reqs = qs\<rparr>)"

definition check_mn_sched_qitem :: "mn_sched_qitem \<Rightarrow> mn_sched_qitem \<Rightarrow> bool result" where
  "check_mn_sched_qitem before after =
     bind_res (memcmp_eq (qi_remote_event before) (qi_remote_event after)
                 (remote_event_size (qi_req before))) (\<lambda>e1.
     bind_res (memcmp_eq (qi_local_event before) (qi_local_event after)
                 (self_event_size (qi_req before))) (\<lambda>e2.
       Inr (check_model_net_request (qi_req before) (qi_req after) \<and>
            qi_prio before = qi_prio after \<and> qi_rem before = qi_rem after \<and> e1 \<and> e2)))"

fun check_items :: "mn_sched_qitem list \<Rightarrow> mn_sched_qitem list \<Rightarrow> bool result" where
  "check_items (a # as) (b # bs) =
     bind_res (check_mn_sched_qitem a b) (\<lambda>e. if \<not> e then Inr False else check_items as bs)"
| "check_items _ _ = Inr True"

text \<open>The first count comparison of the source compares the list with itself; the second is
  the one of \<open>are_qlist_equal\<close>.\<close>

definition check_fcfs_state :: "mn_sched_queue \<Rightarrow> mn_sched_queue \<Rightarrow> bool result" where
  "check_fcfs_state before after =
     (if length (reqs before) \<noteq> length (reqs before) then Inr False
      else bind_res
        (if length (reqs before) \<noteq> length (reqs after) then Inr False
         else check_items (reqs before) (reqs after)) (\<lambda>e.
        Inr (is_recv_queue before = is_recv_queue after \<and> queue_len before = queue_len after \<and> e)))"

subsection \<open>Invariant\<close>

text \<open>The state of an item in a queue: whole packets have been sent, something is left unless
  the message is empty, and the event buffers have the sizes of the request.\<close>

definition buffer_ok :: "int \<Rightarrow> bytes option \<Rightarrow> bool" where
  "buffer_ok n b = (if n > 0 then (\<exists>x. b = Some x \<and> length x = nat n) else b = None)"

definition qitem_wf :: "mn_sched_qitem \<Rightarrow> bool" where
  "qitem_wf q \<longleftrightarrow> packet_size (qi_req q) \<noteq> 0 \<and> qi_rem q \<le> msg_size (qi_req q) \<and>
     unat (packet_size (qi_req q)) dvd unat (msg_size (qi_req q)) - unat (qi_rem q) \<and>
     (qi_rem q = 0 \<longrightarrow> msg_size (qi_req q) = 0) \<and>
     buffer_ok (remote_event_size (qi_req q)) (qi_remote_event q) \<and>
     buffer_ok (self_event_size (qi_req q)) (qi_local_event q)"

definition queue_wf :: "mn_sched_queue \<Rightarrow> bool" where
  "queue_wf s \<longleftrightarrow> queue_len s = int (length (reqs s)) \<and> list_all qitem_wf (reqs s)"

definition prio_wf :: "mn_sched_prio \<Rightarrow> bool" where
  "prio_wf ss \<longleftrightarrow> list_all queue_wf (sub_scheds ss)"

definition sched_wf :: "model_net_sched \<Rightarrow> bool" where
  "sched_wf sd = (case ms_dat sd of SQueue q \<Rightarrow> queue_wf q | SPrio p \<Rightarrow> prio_wf p)"

lemma copy_event_buffer:
  "buffer_ok n b \<Longrightarrow> copy_event n b = Inr b"
  by (auto simp: buffer_ok_def copy_event_def memcpy_def split: if_splits)

lemma copy_event_ok:
  "copy_event n b = Inr b' \<Longrightarrow> buffer_ok n b'"
  by (auto simp: buffer_ok_def copy_event_def memcpy_def result_iff split: if_splits option.splits)

lemma next_packet_cases:
  assumes "qitem_wf q"
  obtains (last) "next_packet q = (qi_rem q, True)" "qi_rem q \<le> packet_size (qi_req q)"
  | (more) "next_packet q = (packet_size (qi_req q), False)" "packet_size (qi_req q) < qi_rem q"
      "qitem_wf (q\<lparr>qi_rem := qi_rem q - packet_size (qi_req q)\<rparr>)"
proof (cases "packet_size (qi_req q) \<ge> qi_rem q")
  case True
  then show ?thesis by (intro last) (simp_all add: next_packet_def)
next
  case False
  let ?p = "packet_size (qi_req q)" and ?r = "qi_rem q" and ?m = "msg_size (qi_req q)"
  have lt: "?p < ?r" using False by simp
  have u: "unat (?r - ?p) = unat ?r - unat ?p" using lt by (simp add: unat_sub_le)
  have "unat ?p < unat ?r" "unat ?r \<le> unat ?m"
    using lt assms by (simp_all add: qitem_wf_def word_less_nat_alt word_le_nat_alt)
  then have "unat ?m - (unat ?r - unat ?p) = (unat ?m - unat ?r) + unat ?p" by linarith
  moreover have "?r - ?p \<noteq> 0" using lt by auto
  moreover have "?r - ?p \<le> ?m"
    using \<open>unat ?r \<le> unat ?m\<close> by (simp add: word_le_nat_alt u)
  ultimately show ?thesis
    using False lt assms by (intro more) (simp_all add: next_packet_def qitem_wf_def u)
qed

text \<open>The remainder of the last packet, as the reverse handler recomputes it.\<close>

lemma last_packet_size:
  assumes "qitem_wf q" and "qi_rem q \<le> packet_size (qi_req q)"
  shows "(let r0 = msg_size (qi_req q) mod packet_size (qi_req q) in
          if r0 = 0 \<and> msg_size (qi_req q) \<noteq> 0 then packet_size (qi_req q) else r0) = qi_rem q"
proof -
  let ?p = "packet_size (qi_req q)" and ?r = "qi_rem q" and ?m = "msg_size (qi_req q)"
  have p: "unat ?p \<noteq> 0" using assms(1) by (simp add: qitem_wf_def unat_eq_0)
  have le: "unat ?r \<le> unat ?m" "unat ?r \<le> unat ?p"
    using assms by (simp_all add: qitem_wf_def word_le_nat_alt)
  obtain k where k: "unat ?m - unat ?r = unat ?p * k"
    using assms(1) by (auto simp: qitem_wf_def dvd_def)
  then have m: "unat ?m = unat ?r + unat ?p * k" using le by linarith
  then have mm: "unat ?m mod unat ?p = unat ?r mod unat ?p" by simp
  have um: "unat (?m mod ?p) = unat ?m mod unat ?p" by (simp add: unat_mod)
  show ?thesis
  proof (cases "unat ?r = unat ?p")
    case True
    then have "?r = ?p" by (simp add: word_unat_eq_iff)
    moreover have "?m mod ?p = 0" using True mm um by (simp add: unat_eq_0 [symmetric])
    moreover have "?m \<noteq> 0" using True le p by (auto simp: unat_eq_0 [symmetric])
    ultimately show ?thesis by (simp add: Let_def)
  next
    case False
    then have "unat (?m mod ?p) = unat ?r" using mm um le by simp
    then have e: "?m mod ?p = ?r" by (simp add: word_unat_eq_iff)
    show ?thesis using assms(1) e by (auto simp: Let_def qitem_wf_def)
  qed
qed

subsection \<open>Steps keep the invariant\<close>

lemma fcfs_add_wf:
  assumes "queue_wf s" and "packet_size req \<noteq> 0" and "fcfs_add req prio rsz re lsz le s = Inr s'"
  shows "queue_wf s'"
  using assms by (auto simp: fcfs_add_def result_iff queue_wf_def qitem_wf_def copy_event_ok)

lemma fcfs_next_wf:
  assumes wf: "queue_wf s" and step: "fcfs_next mt s save rc lp = Inr r"
  shows "queue_wf (st_sched r) \<and> is_recv_queue (st_sched r) = is_recv_queue s"
proof (cases "reqs s")
  case Nil
  then show ?thesis using assms by (auto simp: fcfs_next_def)
next
  case (Cons q rest)
  then have q: "qitem_wf q" and r: "list_all qitem_wf rest"
    using wf by (simp_all add: queue_wf_def)
  from q show ?thesis
    by (cases rule: next_packet_cases)
      (use step Cons wf r in \<open>auto simp: fcfs_next_def Let_def result_iff queue_wf_def\<close>)
qed

lemma rr_next_wf:
  assumes wf: "queue_wf s" and step: "rr_next mt s save rc lp = Inr r"
  shows "queue_wf (st_sched r) \<and> is_recv_queue (st_sched r) = is_recv_queue s"
proof -
  obtain r0 where r0: "fcfs_next mt s save rc lp = Inr r0" and
    r: "r = r0 \<or> r = r0\<lparr>st_sched := (st_sched r0)\<lparr>reqs := rotate_out (reqs (st_sched r0))\<rparr>\<rparr>"
    using step by (auto simp: rr_next_def result_iff split: if_splits)
  show ?thesis
    using fcfs_next_wf [OF wf r0] r by (auto simp: queue_wf_def rotate_out_def split: list.split)
qed

lemma sub_next_wf:
  "queue_wf s \<Longrightarrow> sub_next t mt s save rc lp = Inr r \<Longrightarrow>
     queue_wf (st_sched r) \<and> is_recv_queue (st_sched r) = is_recv_queue s"
  by (cases t) (simp_all add: sub_next_def rr_next_wf fcfs_next_wf)

lemma first_ready_Some:
  "first_ready ss i = Some k \<longleftrightarrow>
     i \<le> k \<and> k - i < length ss \<and> reqs (ss ! (k - i)) \<noteq> [] \<and> (\<forall>j < k - i. reqs (ss ! j) = [])"
proof (induction ss arbitrary: i)
  case (Cons s ss)
  show ?case
  proof (cases "reqs s = []")
    case True
    show ?thesis
    proof (cases "Suc i \<le> k")
      case True
      then have "k - i = Suc (k - Suc i)" by linarith
      with \<open>reqs s = []\<close> True Cons.IH [of "Suc i"] show ?thesis
        by (auto simp: All_less_Suc2)
    next
      case False
      then show ?thesis using \<open>reqs s = []\<close> Cons.IH [of "Suc i"] by auto
    qed
  next
    case False
    then show ?thesis by (cases "k - i") auto
  qed
qed simp

lemma first_ready_None: "first_ready ss i = None \<longleftrightarrow> (\<forall>s \<in> set ss. reqs s = [])"
  by (induction ss arbitrary: i) auto

lemma prio_next_wf:
  assumes wf: "prio_wf ss" and step: "prio_next mt ss save rc lp = Inr r"
  shows "prio_wf (st_sched r)"
proof (cases "first_ready (sub_scheds ss) 0")
  case None
  then show ?thesis using assms by (auto simp: prio_next_def)
next
  case (Some i)
  then have i: "i < length (sub_scheds ss)" by (simp add: first_ready_Some)
  then have "queue_wf (sub_scheds ss ! i)" using wf by (simp add: prio_wf_def list_all_length)
  moreover obtain r0 where
    r0: "sub_next (sub_stype ss) mt (sub_scheds ss ! i) save (rc\<lparr>rc_prio := int i\<rparr>) lp = Inr r0"
    and r: "st_sched r = ss\<lparr>sub_scheds := (sub_scheds ss)[i := st_sched r0]\<rparr>"
    using step Some by (auto simp: prio_next_def result_iff)
  ultimately have "queue_wf (st_sched r0)" using sub_next_wf [OF _ r0] by simp
  with wf i show ?thesis by (auto simp: r prio_wf_def list_all_length nth_list_update)
qed

lemma sched_next_wf:
  assumes "sched_wf sd" and "model_net_sched_next mt sd save rc lp = Inr r"
  shows "sched_wf (st_sched r)"
  using assms
  by (auto simp: sched_wf_def model_net_sched_next_def result_iff lift_step_def
      dest: sub_next_wf prio_next_wf split: mn_sched_dat.splits)

lemma fcfs_next_prio: "fcfs_next mt s save rc lp = Inr r \<Longrightarrow> rc_prio (st_rc r) = rc_prio rc"
  by (auto simp: fcfs_next_def Let_def result_iff split: list.splits prod.splits if_splits)

lemma sub_next_prio: "sub_next t mt s save rc lp = Inr r \<Longrightarrow> rc_prio (st_rc r) = rc_prio rc"
  by (cases t) (auto simp: sub_next_def rr_next_def result_iff dest: fcfs_next_prio split: if_splits)

lemma sub_next_ret: "sub_next t mt s save rc lp = Inr r \<Longrightarrow> st_ret r = -1 \<longleftrightarrow> reqs s = []"
  by (cases t) (auto simp: sub_next_def rr_next_def fcfs_next_def Let_def result_iff
      split: list.splits prod.splits if_splits)

subsection \<open>Reversal\<close>

text \<open>The contract between a scheduler and a network method: the reverse functions undo the
  effect of the calls on the LP.\<close>

locale reversible_method =
  fixes mt :: "('lp, 't) model_net_method"
  assumes packet_rc: "mn_packet_event_rc mt (snd (mn_packet_event mt c lp)) = lp"
    and recv_rc: "mn_recv_msg_event mt = Some f \<Longrightarrow>
      \<exists>g. mn_recv_msg_event_rc mt = Some g \<and> (\<forall>c lp. g (snd (f c lp)) = lp)"
begin

lemma call_undo:
  assumes "call_method mt s c lp = Inr (off, lp')" and "is_recv_queue s' = is_recv_queue s"
  shows "call_method_rc mt s' lp' = Inr lp"
proof (cases "is_recv_queue s = 0")
  case True
  then show ?thesis
    using assms packet_rc [of c lp] by (auto simp: call_method_def call_method_rc_def)
next
  case False
  then obtain f where f: "mn_recv_msg_event mt = Some f" "f c lp = (off, lp')"
    using assms(1) by (auto simp: call_method_def split: option.splits)
  obtain g where "mn_recv_msg_event_rc mt = Some g" "\<forall>c lp. g (snd (f c lp)) = lp"
    using recv_rc [OF f(1)] by blast
  moreover from this(2) have "g lp' = lp" using f(2) by (metis snd_conv)
  ultimately show ?thesis using False assms(2) by (simp add: call_method_rc_def)
qed

lemma fcfs_next_undo:
  assumes wf: "queue_wf s" and step: "fcfs_next mt s save rc lp = Inr r"
  shows "fcfs_next_rc mt (st_sched r) (st_save r) (st_rc r) (st_lp r) = Inr (s, lp)"
proof (cases "reqs s")
  case Nil
  then show ?thesis using step by (auto simp: fcfs_next_def fcfs_next_rc_def Let_def)
next
  case (Cons q rest)
  then have q: "qitem_wf q" using wf by (simp add: queue_wf_def)
  obtain off lp' where c: "call_method mt s (packet_call s q) lp = Inr (off, lp')"
    using step Cons by (auto simp: fcfs_next_def Let_def result_iff split: prod.splits)
  have undo: "call_method_rc mt s' lp' = Inr lp" if "is_recv_queue s' = is_recv_queue s" for s'
    using call_undo [OF c that] .
  from q show ?thesis
  proof (cases rule: next_packet_cases)
    case more
    with step Cons c undo show ?thesis
      by (auto simp: fcfs_next_def fcfs_next_rc_def Let_def)
  next
    case last
    have buf: "buffer_ok (remote_event_size (qi_req q)) (qi_remote_event q)"
      "buffer_ok (self_event_size (qi_req q)) (qi_local_event q)"
      using q by (simp_all add: qitem_wf_def)
    obtain sv where sv: "save_events q = Inr sv" "st_save r = sv"
      "st_sched r = s\<lparr>reqs := rest, queue_len := queue_len s - 1\<rparr>"
      "st_rc r = rc\<lparr>rc_req := qi_req q, rc_sched_prio := qi_prio q, rc_rtn := 1\<rparr>" "st_lp r = lp'"
      using step Cons c last by (auto simp: fcfs_next_def Let_def result_iff)
    have "rebuild_qitem (st_rc r) sv = Inr q"
      using sv(1) buf q last_packet_size [OF q last(2)]
      by (auto simp: rebuild_qitem_def sv(4) save_events_def copy_event_buffer qitem_wf_def
          restore_event_def Let_def buffer_ok_def copy_event_def memcpy_def split: if_splits)
    then show ?thesis
      using sv undo [of "s\<lparr>reqs := rest, queue_len := queue_len s - 1\<rparr>"] Cons
      by (simp add: fcfs_next_rc_def)
  qed
qed

lemma rr_next_undo:
  assumes wf: "queue_wf s" and step: "rr_next mt s save rc lp = Inr r"
  shows "rr_next_rc mt (st_sched r) (st_save r) (st_rc r) (st_lp r) = Inr (s, lp)"
proof -
  obtain r0 where r0: "fcfs_next mt s save rc lp = Inr r0" and
    r: "if st_ret r0 = -1 \<or> st_ret r0 = 1 then r = r0
        else r = r0\<lparr>st_sched := (st_sched r0)\<lparr>reqs := rotate_out (reqs (st_sched r0))\<rparr>\<rparr>"
    using step by (auto simp: rr_next_def result_iff split: if_splits)
  have rot: "rotate_in (rotate_out xs) = xs" for xs :: "mn_sched_qitem list"
    by (cases xs) (simp_all add: rotate_in_def rotate_out_def)
  have rtn: "rc_rtn (st_rc r0) = st_ret r0"
    using r0 by (auto simp: fcfs_next_def result_iff Let_def split: list.splits prod.splits if_splits)
  have codes: "st_ret r0 \<in> {-1, 0, 1}"
    using r0 by (auto simp: fcfs_next_def result_iff Let_def split: list.splits prod.splits if_splits)
  have "r = r0 \<and> rc_rtn (st_rc r0) \<noteq> 0 \<or>
      r = r0\<lparr>st_sched := (st_sched r0)\<lparr>reqs := rotate_out (reqs (st_sched r0))\<rparr>\<rparr> \<and>
      rc_rtn (st_rc r0) = 0"
    using r rtn codes by (auto split: if_splits)
  then show ?thesis
    using fcfs_next_undo [OF wf r0] by (auto simp: rr_next_rc_def rot)
qed

lemma sub_next_undo:
  "queue_wf s \<Longrightarrow> sub_next t mt s save rc lp = Inr r \<Longrightarrow>
     sub_next_rc t mt (st_sched r) (st_save r) (st_rc r) (st_lp r) = Inr (s, lp)"
  by (cases t) (simp_all add: sub_next_def sub_next_rc_def rr_next_undo fcfs_next_undo)

lemma prio_next_undo:
  assumes wf: "prio_wf ss" and step: "prio_next mt ss save rc lp = Inr r"
  shows "prio_next_rc mt (st_sched r) (st_save r) (st_rc r) (st_lp r) = Inr (ss, lp)"
proof (cases "first_ready (sub_scheds ss) 0")
  case None
  then show ?thesis using step by (auto simp: prio_next_def prio_next_rc_def)
next
  case (Some i)
  then have i: "i < length (sub_scheds ss)" by (simp add: first_ready_Some)
  then have w: "queue_wf (sub_scheds ss ! i)" using wf by (simp add: prio_wf_def list_all_length)
  obtain r0 where r0:
    "sub_next (sub_stype ss) mt (sub_scheds ss ! i) save (rc\<lparr>rc_prio := int i\<rparr>) lp = Inr r0"
    and r: "st_sched r = ss\<lparr>sub_scheds := (sub_scheds ss)[i := st_sched r0]\<rparr>"
    "st_rc r = st_rc r0" "st_save r = st_save r0" "st_lp r = st_lp r0"
    using step Some by (auto simp: prio_next_def result_iff)
  have p: "rc_prio (st_rc r0) = int i" using sub_next_prio [OF r0] by simp
  show ?thesis
    using sub_next_undo [OF w r0] i p by (simp add: prio_next_rc_def r)
qed

lemma sched_next_undo:
  assumes "sched_wf sd" and "model_net_sched_next mt sd save rc lp = Inr r"
  shows "model_net_sched_next_rc mt (st_sched r) (st_save r) (st_rc r) (st_lp r) = Inr (sd, lp)"
proof (cases "ms_dat sd")
  case (SQueue q)
  with assms obtain r0 where "sub_next (ms_type sd) mt q save rc lp = Inr r0"
    "r = lift_step (\<lambda>q'. sd\<lparr>ms_dat := SQueue q'\<rparr>) r0" "queue_wf q"
    by (auto simp: model_net_sched_next_def result_iff sched_wf_def)
  with sub_next_undo SQueue show ?thesis by (simp add: lift_step_def model_net_sched_next_rc_def)
next
  case (SPrio p)
  with assms obtain r0 where "prio_next mt p save rc lp = Inr r0"
    "r = lift_step (\<lambda>p'. sd\<lparr>ms_dat := SPrio p'\<rparr>) r0" "prio_wf p"
    by (auto simp: model_net_sched_next_def result_iff sched_wf_def)
  with prio_next_undo SPrio show ?thesis by (simp add: lift_step_def model_net_sched_next_rc_def)
qed

end

lemma prio_add_outcome:
  assumes "prio_add req prio rsz re lsz le p rc = Inr (p', rc')"
  shows "\<exists>i s'. i < length (sub_scheds p) \<and> fcfs_add req prio rsz re lsz le (sub_scheds p ! i) = Inr s' \<and>
    p' = p\<lparr>sub_scheds := (sub_scheds p)[i := s']\<rparr> \<and> rc' = rc\<lparr>rc_prio := int i\<rparr>"
proof -
  define pr where "pr = (if prio = -1 then int (length (sub_scheds p)) - 1 else prio)"
  from assms obtain s' where "0 \<le> pr" "nat pr < length (sub_scheds p)"
    "fcfs_add req prio rsz re lsz le (sub_scheds p ! nat pr) = Inr s'"
    "p' = p\<lparr>sub_scheds := (sub_scheds p)[nat pr := s']\<rparr>" "rc' = rc\<lparr>rc_prio := pr\<rparr>"
    by (auto simp: prio_add_def result_iff Let_def pr_def split: if_splits)
  then show ?thesis by (intro exI [of _ "nat pr"] exI [of _ s']) simp
qed

lemma sched_add_wf:
  assumes "sched_wf sd" and "packet_size req \<noteq> 0"
    and "model_net_sched_add req prio rsz re lsz le sd rc = Inr (sd', rc')"
  shows "sched_wf sd'"
proof (cases "ms_dat sd")
  case (SQueue q)
  with assms show ?thesis
    by (auto simp: model_net_sched_add_def result_iff sched_wf_def dest: fcfs_add_wf)
next
  case (SPrio p)
  with assms obtain p' where p: "prio_add req prio rsz re lsz le p rc = Inr (p', rc')"
    "sd' = sd\<lparr>ms_dat := SPrio p'\<rparr>" and wf: "prio_wf p"
    by (auto simp: model_net_sched_add_def result_iff sched_wf_def)
  then obtain i s s' where "i < length (sub_scheds p)" "s = sub_scheds p ! i"
    "fcfs_add req prio rsz re lsz le s = Inr s'" "p' = p\<lparr>sub_scheds := (sub_scheds p)[i := s']\<rparr>"
    by (auto simp: prio_add_def result_iff Let_def split: if_splits)
  moreover from this have "queue_wf s" using wf by (simp add: prio_wf_def list_all_length)
  moreover have "queue_wf s'" if "queue_wf s" "fcfs_add req prio rsz re lsz le s = Inr s'"
    using fcfs_add_wf [OF that(1) assms(2) that(2)] .
  ultimately have "prio_wf p'"
    using wf by (auto simp: prio_wf_def list_all_length nth_list_update)
  with p(2) show ?thesis by (simp add: sched_wf_def)
qed

lemma sched_add_undo:
  assumes "sched_wf sd" and "model_net_sched_add req prio rsz re lsz le sd rc = Inr (sd', rc')"
  shows "model_net_sched_add_rc sd' rc' = Inr sd"
proof (cases "ms_dat sd")
  case (SQueue q)
  with assms show ?thesis
    by (auto simp: model_net_sched_add_def model_net_sched_add_rc_def result_iff fcfs_add_def
        fcfs_add_rc_def Let_def)
next
  case (SPrio p)
  with assms obtain p' where "prio_add req prio rsz re lsz le p rc = Inr (p', rc')"
    "sd' = sd\<lparr>ms_dat := SPrio p'\<rparr>"
    by (auto simp: model_net_sched_add_def result_iff)
  then have "prio_add_rc p' rc' = Inr p"
    by (auto simp: prio_add_def prio_add_rc_def result_iff fcfs_add_def fcfs_add_rc_def Let_def
        split: if_splits)
  with \<open>sd' = sd\<lparr>ms_dat := SPrio p'\<rparr>\<close> SPrio show ?thesis
    by (simp add: model_net_sched_add_rc_def)
qed

subsection \<open>Draining a send queue\<close>

text \<open>The scheduler loop of a model-net LP: \<open>next\<close> until the queue is empty, at most \<open>n\<close>
  times. The calls into the method are collected.\<close>

fun fcfs_drain ::
    "nat \<Rightarrow> ('lp, 't) model_net_method \<Rightarrow> mn_sched_queue \<Rightarrow> bytes \<Rightarrow> model_net_sched_rc \<Rightarrow> 'lp \<Rightarrow>
     (mn_call list \<times> mn_sched_queue \<times> 'lp) result" where
  "fcfs_drain 0 mt s save rc lp = Inr ([], s, lp)"
| "fcfs_drain (Suc n) mt s save rc lp =
     bind_res (fcfs_next mt s save rc lp) (\<lambda>r.
       case st_call r of
         None \<Rightarrow> Inr ([], st_sched r, st_lp r)
       | Some c \<Rightarrow> bind_res (fcfs_drain n mt (st_sched r) (st_save r) (st_rc r) (st_lp r))
                     (\<lambda>(cs, s', lp'). Inr (c # cs, s', lp')))"

text \<open>How many packets an item still needs; an empty message needs one.\<close>

definition packets_left :: "mn_sched_qitem \<Rightarrow> nat" where
  "packets_left q = (unat (qi_rem q) - 1) div unat (packet_size (qi_req q)) + 1"

text \<open>A list of packet events that sends the rest of an item: consecutive offsets, full
  packets but for the last one, sizes that add up, the last one and only it marked.\<close>

definition packets_cover :: "mn_sched_qitem \<Rightarrow> mn_call list \<Rightarrow> bool" where
  "packets_cover q cs \<longleftrightarrow>
     (let m = unat (msg_size (qi_req q)); r = unat (qi_rem q); p = unat (packet_size (qi_req q)) in
      cs \<noteq> [] \<and> sum_list (map (\<lambda>c. unat (pk_size c)) cs) = r \<and>
      (\<forall>k < length cs. cs ! k = PacketEvent (qi_req q) (pk_offset (cs ! k)) (pk_size (cs ! k))
           (qi_prio q) (qi_remote_event q) (qi_local_event q) (k = length cs - 1) (pk_more (cs ! k)) \<and>
         unat (pk_offset (cs ! k)) = m - r + k * p \<and>
         (k < length cs - 1 \<longrightarrow> unat (pk_size (cs ! k)) = p)))"

lemma packets_cover_last:
  assumes "qitem_wf q" and "qi_rem q \<le> packet_size (qi_req q)"
  shows "packets_cover q [PacketEvent (qi_req q) (msg_size (qi_req q) - qi_rem q) (qi_rem q)
    (qi_prio q) (qi_remote_event q) (qi_local_event q) True mo]"
  using assms by (simp add: packets_cover_def qitem_wf_def Let_def unat_sub_le)

lemma packets_cover_Cons:
  assumes wf: "qitem_wf q" and lt: "packet_size (qi_req q) < qi_rem q"
    and cov: "packets_cover (q\<lparr>qi_rem := qi_rem q - packet_size (qi_req q)\<rparr>) cs"
  shows "packets_cover q (PacketEvent (qi_req q) (msg_size (qi_req q) - qi_rem q)
    (packet_size (qi_req q)) (qi_prio q) (qi_remote_event q) (qi_local_event q) False mo # cs)"
proof -
  let ?p = "packet_size (qi_req q)" and ?r = "qi_rem q" and ?m = "msg_size (qi_req q)"
  have u: "unat (?r - ?p) = unat ?r - unat ?p" using lt by (simp add: unat_sub_le)
  have le: "unat ?p < unat ?r" "unat ?r \<le> unat ?m"
    using lt wf by (simp_all add: qitem_wf_def word_less_nat_alt word_le_nat_alt)
  have off: "unat (?m - ?r) = unat ?m - unat ?r" using wf by (simp add: qitem_wf_def unat_sub_le)
  have arith: "unat ?m - (unat ?r - unat ?p) + k * unat ?p = unat ?m - unat ?r + Suc k * unat ?p" for k
    using le by simp
  have cs: "cs \<noteq> []" "sum_list (map (\<lambda>c. unat (pk_size c)) cs) = unat ?r - unat ?p"
    and el: "\<And>k. k < length cs \<Longrightarrow> cs ! k = PacketEvent (qi_req q) (pk_offset (cs ! k))
        (pk_size (cs ! k)) (qi_prio q) (qi_remote_event q) (qi_local_event q) (k = length cs - 1)
        (pk_more (cs ! k)) \<and> unat (pk_offset (cs ! k)) = unat ?m - unat ?r + Suc k * unat ?p \<and>
        (k < length cs - 1 \<longrightarrow> unat (pk_size (cs ! k)) = unat ?p)"
    using cov by (simp_all add: packets_cover_def Let_def u arith)
  show ?thesis
    unfolding packets_cover_def Let_def
  proof (intro conjI allI impI)
    fix k
    assume k: "k < length (PacketEvent (qi_req q) (?m - ?r) ?p (qi_prio q) (qi_remote_event q)
        (qi_local_event q) False mo # cs)"
    let ?c = "PacketEvent (qi_req q) (?m - ?r) ?p (qi_prio q) (qi_remote_event q)
        (qi_local_event q) False mo # cs"
    show "?c ! k = PacketEvent (qi_req q) (pk_offset (?c ! k)) (pk_size (?c ! k)) (qi_prio q)
        (qi_remote_event q) (qi_local_event q) (k = length ?c - 1) (pk_more (?c ! k))"
    proof (cases k)
      case (Suc j)
      have "(j = length cs - 1) = (Suc j = length cs)" using cs(1) by (cases cs) auto
      then show ?thesis using el [of j] k Suc by simp
    qed (use cs(1) in simp)
    show "unat (pk_offset (?c ! k)) = unat ?m - unat ?r + k * unat ?p"
      using el [of "k - 1"] k by (cases k) (simp_all add: off)
    assume "k < length ?c - 1"
    then show "unat (pk_size (?c ! k)) = unat ?p"
      using el [of "k - 1"] by (cases k) simp_all
  qed (use cs le in simp_all)
qed

lemma packets_left_step:
  assumes "packet_size (qi_req q) < qi_rem q" and "packet_size (qi_req q) \<noteq> 0"
  shows "packets_left q = Suc (packets_left (q\<lparr>qi_rem := qi_rem q - packet_size (qi_req q)\<rparr>))"
proof -
  let ?p = "unat (packet_size (qi_req q))" and ?r = "unat (qi_rem q)"
  have p: "0 < ?p" "?p < ?r" using assms by (simp_all add: word_less_nat_alt unat_gt_0)
  have "unat (qi_rem q - packet_size (qi_req q)) = ?r - ?p"
    using assms(1) by (simp add: unat_sub_le)
  moreover have "(?r - 1) div ?p = Suc ((?r - ?p - 1) div ?p)"
    using p le_div_geq [of ?p "?r - 1"] by (simp add: diff_commute)
  ultimately show ?thesis by (simp add: packets_left_def)
qed

lemma fcfs_drain_covers:
  assumes "queue_wf s" and "is_recv_queue s = 0" and "(\<Sum>q \<leftarrow> reqs s. packets_left q) \<le> n"
  shows "\<exists>css lp'. fcfs_drain n mt s save rc lp = Inr (concat css, s\<lparr>reqs := [], queue_len := 0\<rparr>, lp') \<and>
    list_all2 packets_cover (reqs s) css"
  using assms
proof (induction n arbitrary: s save rc lp)
  case 0
  have "reqs s = []" using "0.prems"(3) by (cases "reqs s") (simp_all add: packets_left_def)
  with 0 show ?case by (intro exI [of _ "[]"]) (simp add: queue_wf_def)
next
  case (Suc n)
  show ?case
  proof (cases "reqs s")
    case Nil
    then show ?thesis using Suc.prems by (intro exI [of _ "[]"]) (simp add: fcfs_next_def queue_wf_def)
  next
    case (Cons q rest)
    have q: "qitem_wf q" and rest: "list_all qitem_wf rest" and ql: "queue_len s = 1 + int (length rest)"
      using Suc.prems(1) Cons by (simp_all add: queue_wf_def)
    obtain off lp1 where call: "call_method mt s (packet_call s q) lp = Inr (off, lp1)"
      using Suc.prems(2) by (cases "mn_packet_event mt (packet_call s q) lp")
        (simp add: call_method_def)
    from q show ?thesis
    proof (cases rule: next_packet_cases)
      case last
      obtain sv where sv: "save_events q = Inr sv"
        using q by (auto simp: save_events_def qitem_wf_def copy_event_buffer)
      let ?s = "s\<lparr>reqs := rest, queue_len := queue_len s - 1\<rparr>"
      let ?rc = "rc\<lparr>rc_req := qi_req q, rc_sched_prio := qi_prio q, rc_rtn := 1\<rparr>"
      have "queue_wf ?s" "is_recv_queue ?s = 0" "(\<Sum>q \<leftarrow> reqs ?s. packets_left q) \<le> n"
        using Suc.prems Cons rest ql by (simp_all add: queue_wf_def packets_left_def)
      from Suc.IH [OF this, of sv ?rc lp1] obtain css lp' where
        ih: "fcfs_drain n mt ?s sv ?rc lp1 = Inr (concat css, ?s\<lparr>reqs := [], queue_len := 0\<rparr>, lp')"
        "list_all2 packets_cover rest css" by auto
      have "packets_cover q [packet_call s q]"
        using packets_cover_last [OF q last(2)] Suc.prems(2) last(1) by (simp add: packet_call_def)
      then show ?thesis
        using ih Cons call last(1) sv
        by (intro exI [of _ "[packet_call s q] # css"]) (simp add: fcfs_next_def Let_def)
    next
      case more
      let ?q = "q\<lparr>qi_rem := qi_rem q - packet_size (qi_req q)\<rparr>"
      let ?s = "s\<lparr>reqs := ?q # rest\<rparr>" and ?rc = "rc\<lparr>rc_rtn := 0\<rparr>"
      have "packets_left q = Suc (packets_left ?q)"
        using packets_left_step [OF more(2)] q by (simp add: qitem_wf_def)
      then have "queue_wf ?s" "is_recv_queue ?s = 0" "(\<Sum>q \<leftarrow> reqs ?s. packets_left q) \<le> n"
        using Suc.prems Cons rest ql more(3) by (simp_all add: queue_wf_def)
      from Suc.IH [OF this, of save ?rc lp1] obtain cs css lp' where
        ih: "fcfs_drain n mt ?s save ?rc lp1 = Inr (concat (cs # css), ?s\<lparr>reqs := [], queue_len := 0\<rparr>, lp')"
        "packets_cover ?q cs" "list_all2 packets_cover rest css" by (auto simp: list_all2_Cons1)
      have "packets_cover q (packet_call s q # cs)"
        using packets_cover_Cons [OF q more(2) ih(2)] Suc.prems(2) more(1)
        by (simp add: packet_call_def)
      then show ?thesis
        using ih Cons call more(1)
        by (intro exI [of _ "(packet_call s q # cs) # css"]) (simp add: fcfs_next_def Let_def)
    qed
  qed
qed

subsection \<open>Checkpoints are exact\<close>

lemma save_items_wf: "list_all qitem_wf qs \<Longrightarrow> save_items qs = Inr qs"
proof (induction qs)
  case (Cons q qs)
  then have "buffer_ok (remote_event_size (qi_req q)) (qi_remote_event q)"
    "buffer_ok (self_event_size (qi_req q)) (qi_local_event q)" by (simp_all add: qitem_wf_def)
  then have "save_buffer (remote_event_size (qi_req q)) (qi_remote_event q) = Inr (qi_remote_event q)"
    "save_buffer (self_event_size (qi_req q)) (qi_local_event q) = Inr (qi_local_event q)"
    using copy_event_buffer by (auto simp: save_buffer_def buffer_ok_def split: if_splits)
  then show ?case using Cons by (simp add: save_mn_sched_qitem_def)
qed simp

lemma memcmp_eq_buffer:
  assumes "buffer_ok n a" "buffer_ok n b"
  shows "memcmp_eq a b n = Inr (a = b)"
  using assms by (auto simp: memcmp_eq_def buffer_ok_def memcpy_def split: if_splits)

definition category_ok :: "mn_sched_qitem \<Rightarrow> bool" where
  "category_ok q \<longleftrightarrow> length (category (qi_req q)) < CATEGORY_NAME_MAX"

lemma check_qitem_exact:
  assumes "qitem_wf a" "qitem_wf b" "category_ok a" "category_ok b"
    and same: "remote_event_size (qi_req a) = remote_event_size (qi_req b)"
      "self_event_size (qi_req a) = self_event_size (qi_req b)"
  shows "check_mn_sched_qitem a b = Inr (a = b)"
proof -
  have "memcmp_eq (qi_remote_event a) (qi_remote_event b) (remote_event_size (qi_req a))
      = Inr (qi_remote_event a = qi_remote_event b)"
    "memcmp_eq (qi_local_event a) (qi_local_event b) (self_event_size (qi_req a))
      = Inr (qi_local_event a = qi_local_event b)"
    using assms by (auto intro!: memcmp_eq_buffer simp: qitem_wf_def)
  moreover have "check_model_net_request (qi_req a) (qi_req b) \<longleftrightarrow> qi_req a = qi_req b"
    using assms(3,4) by (auto simp: check_model_net_request_def strncmp_eq_def category_ok_def
        intro: model_net_request.equality)
  ultimately show ?thesis
    by (auto simp: check_mn_sched_qitem_def intro: mn_sched_qitem.equality)
qed

lemma check_items_exact:
  assumes "length as = length bs" "list_all qitem_wf as" "list_all qitem_wf bs"
    and "list_all category_ok as" "list_all category_ok bs"
  shows "check_items as bs = Inr True \<longleftrightarrow> as = bs"
  using assms
proof (induction as bs rule: list_induct2)
  case (Cons a as b bs)
  show ?case
  proof (cases "remote_event_size (qi_req a) = remote_event_size (qi_req b) \<and>
      self_event_size (qi_req a) = self_event_size (qi_req b)")
    case True
    then show ?thesis using Cons check_qitem_exact [of a b] by auto
  next
    case False
    then have ne: "a \<noteq> b" by auto
    have "\<not> check_model_net_request (qi_req a) (qi_req b)"
      using False by (auto simp: check_model_net_request_def)
    then have "check_mn_sched_qitem a b \<noteq> Inr True"
      by (auto simp: check_mn_sched_qitem_def result_iff)
    then have "check_items (a # as) (b # bs) \<noteq> Inr True"
      by (auto simp: result_iff split: if_splits)
    with ne show ?thesis by simp
  qed
qed simp

subsection \<open>Properties\<close>

text \<open>C4: first come, first served: with at least as many \<open>next\<close> steps as there are packets
  left, \<open>fcfs_next\<close> empties a send queue and hands the method exactly the packets of the
  queued messages, message by message in queue order. The packets of a message follow each
  other without gap or overlap from where the message stood, all full but the last, their
  sizes add up to what remained, and the last one and only it is marked as last. (An empty
  message gives one empty packet.)\<close>
theorem fcfs_sends_everything:
  assumes "queue_wf s" and "is_recv_queue s = 0" and "(\<Sum>q \<leftarrow> reqs s. packets_left q) \<le> n"
  shows "\<exists>css lp'. fcfs_drain n mt s save rc lp = Inr (concat css, s\<lparr>reqs := [], queue_len := 0\<rparr>, lp') \<and>
    list_all2 packets_cover (reqs s) css"
  using assms by (rule fcfs_drain_covers)

definition ex_request :: model_net_request where
  "ex_request = \<lparr>final_dest_lp = 9, dest_mn_lp = 6, src_lp = 0, msg_start_time = 0,
     msg_new_mn_event = 0, msg_size = 1200, pull_size = 0, packet_size = 512, msg_id = 7, net_id = 0,
     is_pull = 0, queue_offset = 0, remote_event_size = 2, self_event_size = 0,
     category = ''test'', app_id = 0\<rparr>"

definition ex_qitem :: mn_sched_qitem where
  "ex_qitem = \<lparr>qi_req = ex_request, qi_prio = -1, qi_rem = 1200, qi_remote_event = Some [1, 2],
     qi_local_event = None\<rparr>"

definition ex_queue :: mn_sched_queue where
  "ex_queue = \<lparr>is_recv_queue = 0, queue_len = 2, reqs = [ex_qitem, ex_qitem\<lparr>qi_rem := 176\<rparr>]\<rparr>"

definition ex_rc :: model_net_sched_rc where
  "ex_rc = \<lparr>rc_req = ex_request, rc_sched_prio = 0, rc_rtn = 0, rc_prio = 0\<rparr>"

text \<open>A method that takes one random draw per packet.\<close>

definition ex_method :: "(tw_lp, int) model_net_method" where
  "ex_method = \<lparr>mn_packet_event = (\<lambda>c lp. codes_local_latency lp),
     mn_packet_event_rc = codes_local_latency_reverse, mn_recv_msg_event = None,
     mn_recv_msg_event_rc = None\<rparr>"

definition ex_mlp :: tw_lp where
  "ex_mlp = \<lparr>gid = 2, draws = 0\<rparr>"

interpretation exm: reversible_method ex_method
  by unfold_locales (simp_all add: ex_method_def)

lemma ex_queue_wf: "queue_wf ex_queue"
  by (simp add: ex_queue_def queue_wf_def qitem_wf_def ex_qitem_def ex_request_def buffer_ok_def
      dvd_eq_mod_eq_0)

theorem fcfs_sends_everything_witness:
  "\<exists>css lp'. fcfs_drain 4 ex_method ex_queue [] ex_rc ex_mlp =
       Inr (concat css, fcfs_init 0, lp') \<and>
     list_all2 packets_cover [ex_qitem, ex_qitem\<lparr>qi_rem := 176\<rparr>] css"
proof -
  have "(\<Sum>q \<leftarrow> reqs ex_queue. packets_left q) \<le> 4" by code_simp
  moreover have "is_recv_queue ex_queue = 0" "reqs ex_queue = [ex_qitem, ex_qitem\<lparr>qi_rem := 176\<rparr>]"
    "ex_queue\<lparr>reqs := [], queue_len := 0\<rparr> = fcfs_init 0"
    by (simp_all add: ex_queue_def fcfs_init_def)
  ultimately show ?thesis
    using fcfs_sends_everything [OF ex_queue_wf, of 4 ex_method "[]" ex_rc ex_mlp] by simp
qed

text \<open>C7: undoing a scheduler step. For each of the schedulers (first come first served, round
  robin, priorities with either below), if the network method undoes its own calls, the
  reverse of \<open>model_net_sched_next\<close> restores the queues (the order of the items, the bytes
  that remain, a finished item with its event buffers) and the LP.\<close>
theorem sched_next_reversible:
  assumes "reversible_method mt" and "sched_wf sd"
    and "model_net_sched_next mt sd save rc lp = Inr r"
  shows "model_net_sched_next_rc mt (st_sched r) (st_save r) (st_rc r) (st_lp r) = Inr (sd, lp)"
  using reversible_method.sched_next_undo [OF assms] .

theorem sched_next_reversible_witness:
  "\<exists>r. model_net_sched_next ex_method \<lparr>ms_type = MN_SCHED_RR, ms_dat = SQueue ex_queue\<rparr> [] ex_rc ex_mlp
      = Inr r \<and> st_ret r = 0 \<and>
    model_net_sched_next_rc ex_method (st_sched r) (st_save r) (st_rc r) (st_lp r) =
      Inr (\<lparr>ms_type = MN_SCHED_RR, ms_dat = SQueue ex_queue\<rparr>, ex_mlp)"
proof -
  let ?sd = "\<lparr>ms_type = MN_SCHED_RR, ms_dat = SQueue ex_queue\<rparr>"
  have wf: "sched_wf ?sd" using ex_queue_wf by (simp add: sched_wf_def)
  have "case model_net_sched_next ex_method ?sd [] ex_rc ex_mlp of Inl e \<Rightarrow> False
      | Inr r \<Rightarrow> st_ret r = 0" by code_simp
  then obtain r where r: "model_net_sched_next ex_method ?sd [] ex_rc ex_mlp = Inr r" "st_ret r = 0"
    by (auto split: sum.splits)
  with sched_next_reversible [OF exm.reversible_method_axioms wf r(1)] show ?thesis by blast
qed

text \<open>C9: undoing an insertion: \<open>model_net_sched_add_rc\<close> with the reverse information of a
  \<open>model_net_sched_add\<close> restores the scheduler.\<close>
theorem sched_add_reversible:
  assumes "sched_wf sd" and "model_net_sched_add req prio rsz re lsz le sd rc = Inr (sd', rc')"
  shows "model_net_sched_add_rc sd' rc' = Inr sd"
  using assms by (rule sched_add_undo)

theorem sched_add_reversible_witness:
  "\<exists>sd' rc'. model_net_sched_add ex_request 1 2 (Some [5, 6, 7]) 0 None
      \<lparr>ms_type = MN_SCHED_PRIO, ms_dat = SPrio (prio_init 3 MN_SCHED_RR 0)\<rparr> ex_rc = Inr (sd', rc') \<and>
    rc_prio rc' = 1 \<and>
    model_net_sched_add_rc sd' rc' =
      Inr \<lparr>ms_type = MN_SCHED_PRIO, ms_dat = SPrio (prio_init 3 MN_SCHED_RR 0)\<rparr>"
proof -
  let ?sd = "\<lparr>ms_type = MN_SCHED_PRIO, ms_dat = SPrio (prio_init 3 MN_SCHED_RR 0)\<rparr>"
  have wf: "sched_wf ?sd"
    by (simp add: sched_wf_def prio_wf_def prio_init_def queue_wf_def fcfs_init_def list_all_iff)
  have "case model_net_sched_add ex_request 1 2 (Some [5, 6, 7]) 0 None ?sd ex_rc of
      Inl e \<Rightarrow> False | Inr (sd', rc') \<Rightarrow> rc_prio rc' = 1" by code_simp
  then obtain sd' rc' where
    r: "model_net_sched_add ex_request 1 2 (Some [5, 6, 7]) 0 None ?sd ex_rc = Inr (sd', rc')"
    "rc_prio rc' = 1" by (auto split: sum.splits)
  with sched_add_reversible [OF wf r(1)] show ?thesis by blast
qed

text \<open>C21: every step of a scheduler keeps its queues well-formed: the recorded length is the
  length of the queue, every item has something left to send (unless its message is
  empty), has sent whole packets so far, and holds event buffers of the announced sizes.\<close>
theorem sched_steps_keep_wf:
  assumes "sched_wf sd" and "packet_size req \<noteq> 0"
  shows "(\<forall>r. model_net_sched_next mt sd save rc lp = Inr r \<longrightarrow> sched_wf (st_sched r)) \<and>
    (\<forall>sd' rc'. model_net_sched_add req prio rsz re lsz le sd rc = Inr (sd', rc') \<longrightarrow> sched_wf sd')"
  using assms sched_next_wf [of sd mt save rc lp] sched_add_wf [of sd req prio rsz re lsz le rc]
  by blast

theorem sched_steps_keep_wf_witness:
  "let sd = \<lparr>ms_type = MN_SCHED_RR, ms_dat = SQueue ex_queue\<rparr> in
   (\<forall>r. model_net_sched_next ex_method sd [] ex_rc ex_mlp = Inr r \<longrightarrow> sched_wf (st_sched r)) \<and>
   (\<forall>sd' rc'. model_net_sched_add ex_request 0 2 (Some [5, 6]) 0 None sd ex_rc = Inr (sd', rc') \<longrightarrow>
      sched_wf sd')"
proof -
  have "sched_wf \<lparr>ms_type = MN_SCHED_RR, ms_dat = SQueue ex_queue\<rparr>"
    using ex_queue_wf by (simp add: sched_wf_def)
  moreover have "packet_size ex_request \<noteq> 0" by (simp add: ex_request_def)
  ultimately show ?thesis unfolding Let_def by (rule sched_steps_keep_wf)
qed

text \<open>C22: the rollback checker is exact on queues: for well-formed queues whose category names
  fit their buffer, \<open>check_fcfs_state\<close> accepts exactly equal queues, and it accepts the
  copy that \<open>save_state_fcfs_state\<close> makes.\<close>
theorem fcfs_checkpoint_exact:
  assumes "queue_wf s" and "queue_wf t"
    and "list_all category_ok (reqs s)" and "list_all category_ok (reqs t)"
  shows "save_state_fcfs_state s = Inr s \<and> (check_fcfs_state s t = Inr True \<longleftrightarrow> s = t)"
proof -
  have "save_state_fcfs_state s = Inr s"
    using save_items_wf assms(1) by (simp add: save_state_fcfs_state_def queue_wf_def)
  moreover have "check_fcfs_state s t = Inr True \<longleftrightarrow> s = t"
  proof (cases "length (reqs s) = length (reqs t)")
    case True
    then have "check_items (reqs s) (reqs t) = Inr True \<longleftrightarrow> reqs s = reqs t"
      using check_items_exact assms by (simp add: queue_wf_def)
    then show ?thesis
      using True by (auto simp: check_fcfs_state_def result_iff intro: mn_sched_queue.equality)
  next
    case False
    then show ?thesis by (auto simp: check_fcfs_state_def)
  qed
  ultimately show ?thesis by blast
qed

theorem fcfs_checkpoint_exact_witness:
  "save_state_fcfs_state ex_queue = Inr ex_queue \<and>
   (check_fcfs_state ex_queue (fcfs_init 0) = Inr True \<longleftrightarrow> ex_queue = fcfs_init 0)"
  by (rule fcfs_checkpoint_exact [OF ex_queue_wf])
    (simp_all add: queue_wf_def fcfs_init_def ex_queue_def category_ok_def ex_qitem_def
      ex_request_def CATEGORY_NAME_MAX_def)

end
