(* ===== verification/Model_Net.thy ===== *)
theory Model_Net
  imports MN_Sched Mapping_Context
begin

text \<open>
  The user interface of model-net, src/networks/model-net/core/model-net.c: registering
  networks, sending messages through a network device, per-message parameters, statistics
  by category.

  The global variables of the file are the record \<open>mn_globals\<close>. \<open>lat\<close> is the random delay
  of a draw of \<open>codes_local_latency\<close> (the generator belongs to ROSS), \<open>now\<close> the value of
  \<open>tw_now\<close>. \<open>jobmap\<close> is the job that the congestion controller's job map gives to the
  sender, \<open>None\<close> when no job map is set.
\<close>

subsection \<open>Networks\<close>

definition model_net_lp_config_names :: "string list" where
  "model_net_lp_config_names =
     [''modelnet_simplenet'', ''modelnet_simplep2p'', ''modelnet_torus'', ''modelnet_slimfly'',
      ''modelnet_slimfly_router'', ''modelnet_fattree'', ''modelnet_dragonfly'',
      ''modelnet_dragonfly_router'', ''modelnet_dragonfly_custom'',
      ''modelnet_dragonfly_custom_router'', ''modelnet_loggp'', ''modelnet_express_mesh'',
      ''modelnet_express_mesh_router'', ''modelnet_dragonfly_plus'',
      ''modelnet_dragonfly_plus_router'', ''modelnet_dragonfly_dally'',
      ''modelnet_dragonfly_dally_router'', ''congestion_controller'']"

definition model_net_method_names :: "string list" where
  "model_net_method_names =
     [''simplenet'', ''simplep2p'', ''torus'', ''slimfly'', ''slimfly_router'', ''fattree'',
      ''dragonfly'', ''dragonfly_router'', ''dragonfly_custom'', ''dragonfly_custom_router'',
      ''loggp'', ''express_mesh'', ''express_mesh_router'', ''dragonfly_plus'',
      ''dragonfly_plus_router'', ''dragonfly_dally'', ''dragonfly_dally_router'',
      ''congestion_controller'']"

definition SIMPLENET :: int where "SIMPLENET = 0"
definition SIMPLEP2P :: int where "SIMPLEP2P = 1"
definition TORUS :: int where "TORUS = 2"
definition CONGESTION_CONTROLLER :: nat where "CONGESTION_CONTROLLER = 17"
definition MAX_NETS :: nat where "MAX_NETS = 18"

fun find_name :: "string \<Rightarrow> string list \<Rightarrow> nat \<Rightarrow> int" where
  "find_name n [] i = -1"
| "find_name n (x # xs) i = (if x = n then int i else find_name n xs (Suc i))"

text \<open>\<open>model_net_get_id\<close> stops at the first NULL of \<open>method_array\<close>, the entry of the
  congestion controller.\<close>

definition model_net_get_id :: "string \<Rightarrow> int" where
  "model_net_get_id name = find_name name (take CONGESTION_CONTROLLER model_net_method_names) 0"

text \<open>\<open>model_net_register\<close>: which networks occur in the configuration. The inner loop marks
  the first unmarked network of that name.\<close>

fun mark_net :: "string \<Rightarrow> bool list \<Rightarrow> string list \<Rightarrow> bool list" where
  "mark_net nm (d # ds) (n # ns) = (if \<not> d \<and> n = nm then True # ds else d # mark_net nm ds ns)"
| "mark_net nm ds _ = ds"

definition model_net_register :: "config_lpgroups \<Rightarrow> bool list" where
  "model_net_register c =
     fold (\<lambda>g ds. fold (\<lambda>l ds. mark_net (lpt_name l) ds model_net_lp_config_names) (lptypes g) ds)
       (lpgroups c) (replicate MAX_NETS False)"

definition model_net_find_local_device_mctx ::
    "config_lpgroups \<Rightarrow> int \<Rightarrow> codes_mctx \<Rightarrow> int \<Rightarrow> int result" where
  "model_net_find_local_device_mctx c netid map_ctx sender_gid =
     (if netid < 0 then Inl OutOfBounds
      else bind_res (rd model_net_lp_config_names (nat netid)) (\<lambda>nm.
             codes_mctx_to_lpid c map_ctx nm sender_gid))"

definition model_net_find_local_device ::
    "config_lpgroups \<Rightarrow> int \<Rightarrow> string option \<Rightarrow> bool \<Rightarrow> int \<Rightarrow> int result" where
  "model_net_find_local_device c netid annotation ignore_annotations sender_gid =
     model_net_find_local_device_mctx c netid
       (if ignore_annotations then CODES_MCTX_DEFAULT
        else codes_mctx_set_group_modulo c annotation ignore_annotations) sender_gid"

subsection \<open>Messages\<close>

record model_net_base_msg =
  bm_req :: model_net_request
  is_from_remote :: int
  isQueueReq :: int
  save_ts :: tw_stime
  bm_prio :: int                    \<comment> \<open>\<open>sched_params.prio\<close>\<close>
  bm_rc :: model_net_sched_rc
  created_in_surrogate :: int

text \<open>The base member of the message union, and the bytes behind the structure (\<open>m + 1\<close>).\<close>

record model_net_wrap_msg =
  wm_h :: msg_header
  wm_base :: model_net_base_msg
  wm_data :: bytes

datatype mn_body = BaseMsg model_net_wrap_msg | UserMsg bytes

record mn_event =
  ev_to :: int
  ev_delay :: tw_stime
  ev_body :: mn_body

definition MN_BASE_NEW_MSG :: int where "MN_BASE_NEW_MSG = 1"
definition MN_BASE_SCHED_NEXT :: int where "MN_BASE_SCHED_NEXT = 2"
definition MN_BASE_SAMPLE :: int where "MN_BASE_SAMPLE = 4"
definition MN_BASE_PASS :: int where "MN_BASE_PASS = 8"
definition MN_BASE_END_NOTIF :: int where "MN_BASE_END_NOTIF = 16"
definition MN_CONGESTION_EVENT :: int where "MN_CONGESTION_EVENT = 32"

definition PULL_MSG_SIZE :: u64 where "PULL_MSG_SIZE = 128"

subsection \<open>Global state\<close>

record mn_globals =
  mn_in_sequence :: int
  mn_msg_offset :: tw_stime
  msg_sched_set :: bool             \<comment> \<open>\<open>is_msg_params_set[MN_MSG_PARAM_SCHED]\<close>\<close>
  msg_start_set :: bool             \<comment> \<open>\<open>is_msg_params_set[MN_MSG_PARAM_START_TIME]\<close>\<close>
  g_prio :: int                     \<comment> \<open>\<open>sched_params.prio\<close>\<close>
  start_time_param :: tw_stime
  codes_cn_delay :: tw_stime
  node_eager_limit :: int
  noop_bypass :: int
  base_magic :: int
  wrap_msg_size :: int              \<comment> \<open>\<open>sizeof(model_net_wrap_msg)\<close>\<close>
  g_tw_msg_sz :: int

definition MN_START_SEQ :: "mn_globals \<Rightarrow> mn_globals" where
  "MN_START_SEQ g = g\<lparr>mn_in_sequence := 1, mn_msg_offset := 0\<rparr>"

definition MN_END_SEQ :: "mn_globals \<Rightarrow> mn_globals" where
  "MN_END_SEQ g = g\<lparr>mn_in_sequence := 0\<rparr>"

text \<open>\<open>model_net_set_msg_param\<close>: the parameters apply to the next message. Each type has one
  subtype, number 0.\<close>

datatype msg_param = ParamSched int int | ParamStartTime int tw_stime

definition model_net_set_msg_param :: "msg_param \<Rightarrow> mn_globals \<Rightarrow> mn_globals result" where
  "model_net_set_msg_param p g =
     (case p of
        ParamSched sub v \<Rightarrow>
          if sub = 0 then Inr (g\<lparr>msg_sched_set := True, g_prio := v\<rparr>) else Inl TwError
      | ParamStartTime sub v \<Rightarrow>
          if sub = 0 then Inr (g\<lparr>msg_start_set := True, start_time_param := v\<rparr>) else Inl TwError)"

subsection \<open>Sending\<close>

definition model_net_noop_event ::
    "(int \<Rightarrow> tw_stime) \<Rightarrow> int \<Rightarrow> bool \<Rightarrow> tw_stime \<Rightarrow> u64 \<Rightarrow> int \<Rightarrow> bytes option \<Rightarrow> int \<Rightarrow>
     bytes option \<Rightarrow> mn_globals \<Rightarrow> tw_lp \<Rightarrow> (int \<times> mn_globals \<times> tw_lp \<times> mn_event list) result" where
  "model_net_noop_event lat final_dest pull offset message_size remote_sz remote_event self_sz
      self_event g sender =
     (let poffset0 = (if mn_in_sequence g \<noteq> 0 then mn_msg_offset g else 0);
          (d, sender') = codes_local_latency sender;
          delay = lat d;
          sendTime = real (unat message_size) * codes_cn_delay g;
          has_self = (self_sz \<noteq> 0 \<and> self_event \<noteq> None);
          has_remote = (remote_sz \<noteq> 0 \<and> remote_event \<noteq> None);
          poffset1 = (if has_self then poffset0 + delay else poffset0);
          poffset2 = (if has_remote then poffset1 + delay else poffset1) in
      bind_res (if has_self then memcpy self_event self_sz else Inr []) (\<lambda>sdata.
      bind_res (if has_remote then memcpy remote_event remote_sz else Inr []) (\<lambda>rdata.
        let outs1 = (if has_self
              then [\<lparr>ev_to = gid sender, ev_delay = poffset1 + offset + sendTime, ev_body = UserMsg sdata\<rparr>]
              else []);
            outs2 = (if has_remote
              then [\<lparr>ev_to = (if pull then gid sender else final_dest),
                     ev_delay = poffset2 + offset + sendTime, ev_body = UserMsg rdata\<rparr>]
              else []);
            g' = (if mn_in_sequence g \<noteq> 0 then g\<lparr>mn_msg_offset := mn_msg_offset g + poffset2\<rparr> else g)
        in Inr (1, g', sender', outs1 @ outs2))))"

text \<open>The request as the sender fills it in; \<open>r0\<close> is what the event buffer held.\<close>

definition fill_request ::
    "model_net_request \<Rightarrow> int \<Rightarrow> int \<Rightarrow> int \<Rightarrow> int \<Rightarrow> bool \<Rightarrow> u64 \<Rightarrow> int \<Rightarrow> int \<Rightarrow> string \<Rightarrow>
     tw_stime \<Rightarrow> int option \<Rightarrow> model_net_request" where
  "fill_request r0 netid final_dest dest_mn src pull message_size remote_sz self_sz cat start job =
     r0\<lparr>final_dest_lp := final_dest, dest_mn_lp := dest_mn, src_lp := src,
        is_pull := (if pull then 1 else 0),
        msg_size := (if pull then PULL_MSG_SIZE else message_size),
        pull_size := (if pull then message_size else 0),
        net_id := netid, remote_event_size := remote_sz, self_event_size := self_sz,
        category := take (CATEGORY_NAME_MAX - 1) cat, msg_start_time := start,
        app_id := (case job of None \<Rightarrow> app_id r0 | Some j \<Rightarrow> j)\<rparr>"

record mn_env =
  me_conf :: config_lpgroups
  me_lat :: "int \<Rightarrow> tw_stime"
  me_now :: tw_stime
  me_job :: "int option"
  me_buf :: model_net_wrap_msg      \<comment> \<open>what the new event's buffer held\<close>

definition model_net_event_impl_base ::
    "mn_env \<Rightarrow> int \<Rightarrow> codes_mctx \<Rightarrow> codes_mctx \<Rightarrow> string \<Rightarrow> int \<Rightarrow> u64 \<Rightarrow> bool \<Rightarrow> tw_stime \<Rightarrow> int \<Rightarrow>
     bytes option \<Rightarrow> int \<Rightarrow> bytes option \<Rightarrow> mn_globals \<Rightarrow> tw_lp \<Rightarrow>
     (int \<times> mn_globals \<times> tw_lp \<times> mn_event list) result" where
  "model_net_event_impl_base env netid send_ctx recv_ctx cat final_dest message_size pull offset
      remote_sz remote_event self_sz self_event g sender =
     (if remote_sz + self_sz + wrap_msg_size g > g_tw_msg_sz g then Inl TwError
      else
        bind_res (model_net_find_local_device_mctx (me_conf env) netid send_ctx (gid sender)) (\<lambda>src_mn.
        bind_res (model_net_find_local_device_mctx (me_conf env) netid recv_ctx final_dest) (\<lambda>dest_mn.
        if src_mn = dest_mn \<and> message_size < word_of_int (node_eager_limit g) \<and> noop_bypass g = 0
        then model_net_noop_event (me_lat env) final_dest pull offset message_size remote_sz
               remote_event self_sz self_event g sender
        else
          let (d, sender') = codes_local_latency sender;
              lat_d = me_lat env d;
              poffset = (if mn_in_sequence g \<noteq> 0 then lat_d + mn_msg_offset g else lat_d);
              g1 = (if mn_in_sequence g \<noteq> 0 then g\<lparr>mn_msg_offset := mn_msg_offset g + lat_d\<rparr> else g);
              start = (if msg_start_set g then start_time_param g else me_now env);
              req = fill_request (bm_req (wm_base (me_buf env))) netid final_dest dest_mn (gid sender)
                      pull message_size remote_sz self_sz cat start (me_job env);
              base = (wm_base (me_buf env))\<lparr>bm_req := req, is_from_remote := 0, isQueueReq := 1,
                        bm_prio := (if msg_sched_set g then g_prio g else -1)\<rparr>;
              g2 = g1\<lparr>msg_sched_set := False, msg_start_set := False\<rparr> in
          bind_res (copy_event remote_sz remote_event) (\<lambda>re.
          bind_res (copy_event self_sz self_event) (\<lambda>le.
            let dat = (case re of None \<Rightarrow> [] | Some b \<Rightarrow> b) @ (case le of None \<Rightarrow> [] | Some b \<Rightarrow> b);
                m = \<lparr>wm_h = msg_set_header (base_magic g) MN_BASE_NEW_MSG (gid sender),
                     wm_base = base, wm_data = dat\<rparr>
            in Inr (1, g2, sender', [\<lparr>ev_to = src_mn, ev_delay = poffset + offset, ev_body = BaseMsg m\<rparr>]))))))"

definition model_net_event_impl_base_rc :: "tw_lp \<Rightarrow> tw_lp" where
  "model_net_event_impl_base_rc sender = codes_local_latency_reverse sender"

definition model_net_event where
  "model_net_event env netid cat final_dest message_size offset remote_sz remote_event self_sz self_event =
     model_net_event_impl_base env netid CODES_MCTX_DEFAULT CODES_MCTX_DEFAULT cat final_dest
       message_size False offset remote_sz remote_event self_sz self_event"

definition model_net_event_annotated where
  "model_net_event_annotated env netid annotation cat final_dest message_size offset remote_sz
      remote_event self_sz self_event =
     (let mc = codes_mctx_set_group_modulo (me_conf env) annotation False in
      model_net_event_impl_base env netid mc mc cat final_dest message_size False offset remote_sz
        remote_event self_sz self_event)"

definition model_net_event_mctx where
  "model_net_event_mctx env netid send_ctx recv_ctx cat final_dest message_size offset remote_sz
      remote_event self_sz self_event =
     model_net_event_impl_base env netid send_ctx recv_ctx cat final_dest message_size False offset
       remote_sz remote_event self_sz self_event"

definition model_net_pull_event where
  "model_net_pull_event env netid cat final_dest message_size offset self_sz self_event =
     model_net_event_impl_base env netid CODES_MCTX_DEFAULT CODES_MCTX_DEFAULT cat final_dest
       message_size True offset self_sz self_event 0 None"

definition model_net_pull_event_annotated where
  "model_net_pull_event_annotated env netid annotation cat final_dest message_size offset self_sz
      self_event =
     (let mc = codes_mctx_set_group_modulo (me_conf env) annotation False in
      model_net_event_impl_base env netid mc mc cat final_dest message_size True offset self_sz
        self_event 0 None)"

definition model_net_pull_event_mctx where
  "model_net_pull_event_mctx env netid send_ctx recv_ctx cat final_dest message_size offset self_sz
      self_event =
     model_net_event_impl_base env netid send_ctx recv_ctx cat final_dest message_size True offset
       self_sz self_event 0 None"

definition model_net_event_rc2 :: "tw_lp \<Rightarrow> int \<Rightarrow> tw_lp" where
  "model_net_event_rc2 sender ret = (codes_local_latency_reverse ^^ nat ret) sender"

definition model_net_event_rc :: "tw_lp \<Rightarrow> tw_lp" where
  "model_net_event_rc sender = model_net_event_impl_base_rc sender"

definition model_net_pull_event_rc :: "tw_lp \<Rightarrow> tw_lp" where
  "model_net_pull_event_rc sender = model_net_event_impl_base_rc sender"

subsection \<open>Statistics\<close>

record mn_stats =
  st_category :: string
  send_count :: int
  send_bytes :: int
  send_time :: tw_stime
  recv_count :: int
  recv_bytes :: int
  recv_time :: tw_stime
  max_event_size :: int

definition CATEGORY_MAX :: nat where
  "CATEGORY_MAX = 15"

definition stats_zero :: mn_stats where
  "stats_zero = \<lparr>st_category = [], send_count = 0, send_bytes = 0, send_time = 0, recv_count = 0,
     recv_bytes = 0, recv_time = 0, max_event_size = 0\<rparr>"

text \<open>The search loop of \<open>model_net_find_stats\<close>: the index of the first entry that is free
  (\<open>True\<close>) or has the category.\<close>

fun find_stats_loop :: "string \<Rightarrow> mn_stats list \<Rightarrow> nat \<Rightarrow> (nat \<times> bool) option" where
  "find_stats_loop cat [] i = None"
| "find_stats_loop cat (s # ss) i =
     (if st_category s = [] then Some (i, True)
      else if cat = st_category s then Some (i, False)
      else find_stats_loop cat ss (Suc i))"

definition model_net_find_stats :: "string \<Rightarrow> mn_stats list \<Rightarrow> (nat \<times> mn_stats list) result" where
  "model_net_find_stats cat arr =
     (case find_stats_loop cat (take CATEGORY_MAX arr) 0 of
        None \<Rightarrow> Inl AssertFailed
      | Some (i, new_flag) \<Rightarrow>
          if new_flag
          then if length cat < CATEGORY_NAME_MAX
               then Inr (i, arr[i := (arr ! i)\<lparr>st_category := cat\<rparr>])
               else Inl OutOfBounds
          else Inr (i, arr))"

text \<open>\<open>model_net_print_stats\<close>: the lines it writes, one per used entry and the totals.\<close>

definition add_stats :: "mn_stats \<Rightarrow> mn_stats \<Rightarrow> mn_stats" where
  "add_stats all s =
     all\<lparr>send_count := send_count all + send_count s, send_bytes := send_bytes all + send_bytes s,
         send_time := send_time all + send_time s, recv_count := recv_count all + recv_count s,
         recv_bytes := recv_bytes all + recv_bytes s, recv_time := recv_time all + recv_time s,
         max_event_size := (if max_event_size s > max_event_size all then max_event_size s
                            else max_event_size all)\<rparr>"

definition model_net_print_stats :: "mn_stats list \<Rightarrow> mn_stats list" where
  "model_net_print_stats arr =
     (let used = filter (\<lambda>s. st_category s \<noteq> []) (take CATEGORY_MAX arr) in
      used @ [fold (\<lambda>s all. add_stats all s) used (stats_zero\<lparr>st_category := ''all''\<rparr>)])"

definition check_mn_stats :: "mn_stats \<Rightarrow> mn_stats \<Rightarrow> bool" where
  "check_mn_stats before after \<longleftrightarrow>
     strncmp_eq (st_category before) (st_category after) CATEGORY_NAME_MAX \<and>
     send_count before = send_count after \<and> send_bytes before = send_bytes after \<and>
     send_time before = send_time after \<and> recv_count before = recv_count after \<and>
     recv_bytes before = recv_bytes after \<and> recv_time before = recv_time after \<and>
     max_event_size before = max_event_size after"

subsection \<open>Lemmas\<close>

lemma find_stats_loop_Some:
  "find_stats_loop cat ss i = Some (k, new) \<Longrightarrow>
     i \<le> k \<and> k - i < length ss \<and> (\<forall>j < k - i. st_category (ss ! j) \<noteq> [] \<and> st_category (ss ! j) \<noteq> cat) \<and>
     (if new then st_category (ss ! (k - i)) = []
      else st_category (ss ! (k - i)) = cat \<and> cat \<noteq> [])"
proof (induction ss arbitrary: i)
  case (Cons s ss)
  show ?case
  proof (cases "st_category s = [] \<or> cat = st_category s")
    case True
    then show ?thesis using Cons.prems by (auto split: if_splits)
  next
    case False
    then have "find_stats_loop cat ss (Suc i) = Some (k, new)" using Cons.prems by auto
    from Cons.IH [OF this] have ih: "Suc i \<le> k" "k - Suc i < length ss"
      "\<forall>j < k - Suc i. st_category (ss ! j) \<noteq> [] \<and> st_category (ss ! j) \<noteq> cat"
      "if new then st_category (ss ! (k - Suc i)) = []
       else st_category (ss ! (k - Suc i)) = cat \<and> cat \<noteq> []" by auto
    have "k - i = Suc (k - Suc i)" using ih(1) by linarith
    with ih False show ?thesis by (auto simp: All_less_Suc2)
  qed
qed simp

lemma find_stats_loop_hit:
  assumes "k < length ss" "st_category (ss ! k) = cat"
    and "\<forall>j < k. st_category (ss ! j) \<noteq> [] \<and> st_category (ss ! j) \<noteq> cat"
  shows "find_stats_loop cat ss i = Some (i + k, cat = [])"
  using assms
proof (induction ss arbitrary: i k)
  case (Cons s ss)
  show ?case
  proof (cases k)
    case 0
    with Cons.prems show ?thesis by auto
  next
    case (Suc k')
    then have "st_category s \<noteq> []" "cat \<noteq> st_category s" using Cons.prems(3) by force+
    with Suc Cons.prems Cons.IH [of k' "Suc i"] show ?thesis by (simp add: All_less_Suc2)
  qed
qed simp

lemma noop_event_result:
  assumes "model_net_noop_event lat fd pull off sz rs re ss se g lp = Inr (ret, g', lp', out)"
  shows "ret = 1 \<and> lp' = snd (codes_local_latency lp) \<and>
    g' = (if mn_in_sequence g \<noteq> 0
          then g\<lparr>mn_msg_offset := 2 * mn_msg_offset g +
                   lat (draws lp) * ((if ss \<noteq> 0 \<and> se \<noteq> None then 1 else 0) +
                                     (if rs \<noteq> 0 \<and> re \<noteq> None then 1 else 0))\<rparr>
          else g)"
  using assms
  by (auto simp: model_net_noop_event_def Let_def result_iff codes_local_latency_def split: if_splits)

lemma event_impl_base_lp:
  assumes "model_net_event_impl_base env netid sc rc cat fd sz pull off rs re ss se g lp
    = Inr (ret, g', lp', out)"
  shows "ret = 1 \<and> lp' = snd (codes_local_latency lp)"
  using assms noop_event_result
  by (auto simp: model_net_event_impl_base_def result_iff Let_def split_beta codes_local_latency_def
      split: if_splits)

text \<open>The arguments of one call, and the calls that the network carries, not the short cut within a node.\<close>

record event_call =
  cl_net :: int
  cl_send_ctx :: codes_mctx
  cl_recv_ctx :: codes_mctx
  cl_cat :: string
  cl_dest :: int
  cl_size :: u64
  cl_pull :: bool
  cl_offset :: tw_stime
  cl_remote_sz :: int
  cl_remote :: "bytes option"
  cl_self_sz :: int
  cl_self :: "bytes option"

definition src_device :: "mn_env \<Rightarrow> tw_lp \<Rightarrow> event_call \<Rightarrow> int result" where
  "src_device env lp c = model_net_find_local_device_mctx (me_conf env) (cl_net c) (cl_send_ctx c) (gid lp)"

definition over_network :: "mn_env \<Rightarrow> mn_globals \<Rightarrow> tw_lp \<Rightarrow> event_call \<Rightarrow> bool" where
  "over_network env g lp c \<longleftrightarrow> noop_bypass g \<noteq> 0 \<or> word_of_int (node_eager_limit g) \<le> cl_size c \<or>
     src_device env lp c \<noteq> model_net_find_local_device_mctx (me_conf env) (cl_net c) (cl_recv_ctx c) (cl_dest c)"

definition send_one :: "mn_env \<Rightarrow> event_call \<Rightarrow> mn_globals \<Rightarrow> tw_lp \<Rightarrow> (int \<times> mn_globals \<times> tw_lp \<times> mn_event list) result" where
  "send_one env c = model_net_event_impl_base env (cl_net c) (cl_send_ctx c) (cl_recv_ctx c) (cl_cat c) (cl_dest c) (cl_size c)
     (cl_pull c) (cl_offset c) (cl_remote_sz c) (cl_remote c) (cl_self_sz c) (cl_self c)"

lemma send_one_remote:
  assumes run: "send_one env c g lp = Inr (ret, g', lp', out)"
    and net: "over_network env g lp c" and inseq: "mn_in_sequence g \<noteq> 0"
  shows "\<exists>src m. src_device env lp c = Inr src \<and>
      out = [\<lparr>ev_to = src, ev_delay = me_lat env (draws lp) + mn_msg_offset g + cl_offset c, ev_body = BaseMsg m\<rparr>]"
    and "mn_msg_offset g' = mn_msg_offset g + me_lat env (draws lp)" and "mn_in_sequence g' \<noteq> 0"
    and "lp' = lp\<lparr>draws := draws lp + 1\<rparr>" and "noop_bypass g' = noop_bypass g" and "node_eager_limit g' = node_eager_limit g"
proof -
  obtain src dst where sd: "src_device env lp c = Inr src"
      "model_net_find_local_device_mctx (me_conf env) (cl_net c) (cl_recv_ctx c) (cl_dest c) = Inr dst"
    using run by (auto simp: send_one_def model_net_event_impl_base_def src_device_def result_iff split: if_split_asm)
  then have "\<not> (src = dst \<and> cl_size c < word_of_int (node_eager_limit g) \<and> noop_bypass g = 0)"
    using net by (auto simp: over_network_def)
  note r = run [unfolded send_one_def model_net_event_impl_base_def] this sd inseq
  show "\<exists>src m. src_device env lp c = Inr src \<and>
      out = [\<lparr>ev_to = src, ev_delay = me_lat env (draws lp) + mn_msg_offset g + cl_offset c, ev_body = BaseMsg m\<rparr>]"
    and "mn_msg_offset g' = mn_msg_offset g + me_lat env (draws lp)" and "mn_in_sequence g' \<noteq> 0"
    and "lp' = lp\<lparr>draws := draws lp + 1\<rparr>" and "noop_bypass g' = noop_bypass g" and "node_eager_limit g' = node_eager_limit g"
    using r by (auto simp: src_device_def result_iff Let_def codes_local_latency_def split: if_split_asm)
qed

text \<open>Several messages sent by one event handler.\<close>

fun send_all :: "mn_env \<Rightarrow> event_call list \<Rightarrow> mn_globals \<Rightarrow> tw_lp \<Rightarrow> (mn_globals \<times> tw_lp \<times> mn_event list) result" where
  "send_all env [] g lp = Inr (g, lp, [])"
| "send_all env (c # cs) g lp =
     bind_res (send_one env c g lp) (\<lambda>(ret, g1, lp1, out1).
     bind_res (send_all env cs g1 lp1) (\<lambda>(g2, lp2, out2). Inr (g2, lp2, out1 @ out2)))"

lemma send_all_delays:
  assumes "send_all env cs g lp = Inr (g', lp', out)"
    and "\<forall>c \<in> set cs. over_network env g lp c" and "mn_in_sequence g \<noteq> 0"
  shows "length out = length cs \<and> (\<forall>i < length cs. src_device env lp (cs ! i) = Inr (ev_to (out ! i)) \<and>
    ev_delay (out ! i) = cl_offset (cs ! i) + mn_msg_offset g + (\<Sum>k \<le> i. me_lat env (draws lp + int k)))"
  using assms
proof (induction cs arbitrary: g lp out)
  case (Cons c cs)
  obtain ret g1 lp1 out1 out2 where s1: "send_one env c g lp = Inr (ret, g1, lp1, out1)"
    and s2: "send_all env cs g1 lp1 = Inr (g', lp', out2)" and out: "out = out1 @ out2"
    using Cons.prems(1) by (auto simp: result_iff)
  note r = send_one_remote [OF s1 _ Cons.prems(3)]
  have net: "over_network env g lp c" using Cons.prems(2) by simp
  note r = r [OF net]
  have "\<forall>c \<in> set cs. over_network env g1 lp1 c"
    using Cons.prems(2) r(4-6) by (simp add: over_network_def src_device_def)
  from Cons.IH [OF s2 this r(3)] have l: "length out2 = length cs"
    and ih: "\<And>i. i < length cs \<Longrightarrow> src_device env lp (cs ! i) = Inr (ev_to (out2 ! i)) \<and>
      ev_delay (out2 ! i) = cl_offset (cs ! i) + mn_msg_offset g1 + (\<Sum>k \<le> i. me_lat env (draws lp + 1 + int k))"
    using r(4) by (simp_all add: src_device_def)
  obtain src m where o1: "src_device env lp c = Inr src"
    "out1 = [\<lparr>ev_to = src, ev_delay = me_lat env (draws lp) + mn_msg_offset g + cl_offset c, ev_body = BaseMsg m\<rparr>]"
    using r(1) by blast
  have "src_device env lp ((c # cs) ! i) = Inr (ev_to (out ! i)) \<and>
      ev_delay (out ! i) = cl_offset ((c # cs) ! i) + mn_msg_offset g + (\<Sum>k \<le> i. me_lat env (draws lp + int k))"
    if i: "i < length (c # cs)" for i
  proof (cases i)
    case 0
    then show ?thesis by (simp add: out o1)
  next
    case (Suc j)
    have "(\<Sum>k \<le> Suc j. me_lat env (draws lp + int k)) = me_lat env (draws lp) + (\<Sum>k \<le> j. me_lat env (draws lp + 1 + int k))"
      by (simp add: sum.atMost_Suc_shift add.assoc del: sum.atMost_Suc)
    then show ?thesis using ih [of j] i Suc r(2) by (simp add: out o1(2))
  qed
  then show ?case using l by (simp add: out o1(2))
qed simp

lemma partial_sums_increase:
  assumes "\<And>k. 0 < f k" and "i < j"
  shows "(\<Sum>k \<le> i. f (a + int k)) < (\<Sum>k \<le> j. f (a + int k) :: real)"
proof (rule sum_strict_mono2)
  show "{..i} \<subseteq> {..j}" and "j \<in> {..j} - {..i}" using assms(2) by auto
  show "0 < f (a + int j)" by (rule assms(1))
  show "0 \<le> f (a + int b)" for b by (rule less_imp_le [OF assms(1)])
qed simp

lemma find_stats_hit:
  assumes "model_net_find_stats c arr = Inr (j, arr)" and "c \<noteq> []"
  shows "find_stats_loop c (take CATEGORY_MAX arr) 0 = Some (j, False)"
    and "j < CATEGORY_MAX" "j < length arr" "st_category (arr ! j) = c"
    and "\<forall>k < j. st_category (arr ! k) \<noteq> [] \<and> st_category (arr ! k) \<noteq> c"
proof -
  obtain new where l: "find_stats_loop c (take CATEGORY_MAX arr) 0 = Some (j, new)"
    and e: "new \<Longrightarrow> arr[j := (arr ! j)\<lparr>st_category := c\<rparr>] = arr"
    using assms(1) by (auto simp: model_net_find_stats_def split: option.splits if_splits)
  from find_stats_loop_Some [OF l] have f: "j < CATEGORY_MAX" "j < length arr"
    "\<forall>k < j. st_category (arr ! k) \<noteq> [] \<and> st_category (arr ! k) \<noteq> c"
    "if new then st_category (arr ! j) = [] else st_category (arr ! j) = c" by auto
  have "\<not> new"
  proof
    assume new
    from e [OF this] have "arr ! j = (arr ! j)\<lparr>st_category := c\<rparr>"
      using f(2) by (metis nth_list_update_eq)
    then have "st_category (arr ! j) = c" by (metis mn_stats.select_convs(1) mn_stats.surjective
      mn_stats.update_convs(1))
    with f(4) \<open>new\<close> assms(2) show False by simp
  qed
  with l f show "find_stats_loop c (take CATEGORY_MAX arr) 0 = Some (j, False)"
    "j < CATEGORY_MAX" "j < length arr" "st_category (arr ! j) = c"
    "\<forall>k < j. st_category (arr ! k) \<noteq> [] \<and> st_category (arr ! k) \<noteq> c" by auto
qed

lemma find_stats_again:
  assumes "j < CATEGORY_MAX" "j < length arr" "st_category (arr ! j) = c"
    and "\<forall>k < j. st_category (arr ! k) \<noteq> [] \<and> st_category (arr ! k) \<noteq> c"
  shows "model_net_find_stats c arr = Inr (j, arr)"
proof -
  have "(arr ! j)\<lparr>st_category := c\<rparr> = arr ! j" using assms(3) by (auto intro: mn_stats.equality)
  then have "arr[j := (arr ! j)\<lparr>st_category := c\<rparr>] = arr" by simp
  then show ?thesis
    using find_stats_loop_hit [of j "take CATEGORY_MAX arr" c 0] assms
    by (auto simp add: model_net_find_stats_def CATEGORY_NAME_MAX_def)
qed

lemma find_stats_entry:
  assumes "model_net_find_stats cat arr = Inr (i, arr')"
  shows "i < CATEGORY_MAX" and "i < length arr"
    and "arr' = arr[i := (arr ! i)\<lparr>st_category := cat\<rparr>]"
    and "\<forall>k < i. st_category (arr ! k) \<noteq> [] \<and> st_category (arr ! k) \<noteq> cat"
proof -
  obtain new where l: "find_stats_loop cat (take CATEGORY_MAX arr) 0 = Some (i, new)"
    and a': "arr' = (if new then arr[i := (arr ! i)\<lparr>st_category := cat\<rparr>] else arr)"
    using assms(1) by (auto simp: model_net_find_stats_def split: option.splits if_splits)
  from find_stats_loop_Some [OF l] have f: "i < CATEGORY_MAX" "i < length arr"
    "\<forall>k < i. st_category (arr ! k) \<noteq> [] \<and> st_category (arr ! k) \<noteq> cat"
    "if new then st_category (arr ! i) = [] else st_category (arr ! i) = cat" by auto
  then show "i < CATEGORY_MAX" "i < length arr"
    "\<forall>k < i. st_category (arr ! k) \<noteq> [] \<and> st_category (arr ! k) \<noteq> cat" by auto
  have "(arr ! i)\<lparr>st_category := cat\<rparr> = arr ! i" if "\<not> new"
    using f(4) that by auto
  then show "arr' = arr[i := (arr ! i)\<lparr>st_category := cat\<rparr>]" using a' by auto
qed

text \<open>After entry \<open>i\<close> has been found and updated, the category is found there again.\<close>

lemma find_stats_updated:
  assumes "model_net_find_stats cat arr = Inr (i, arr')" and "st_category s = cat"
  shows "model_net_find_stats cat (arr'[i := s]) = Inr (i, arr'[i := s])"
  using find_stats_entry [OF assms(1)] assms(2) by (intro find_stats_again) auto

subsection \<open>Properties\<close>

text \<open>An example: two repetitions of two servers and a simplenet device.\<close>

definition ex_net_conf :: config_lpgroups where
  "ex_net_conf =
     \<lparr>lpgroups = [\<lparr>lpg_name = ''MODELNET_GRP'', repetitions = 2,
        lptypes = [\<lparr>lpt_name = ''server'', lpt_anno = None, lpt_count = 2\<rparr>,
                   \<lparr>lpt_name = ''modelnet_simplenet'', lpt_anno = None, lpt_count = 1\<rparr>]\<rparr>],
      lpannos = [], group_names = [''MODELNET_GRP''],
      lp_names = [''server'', ''modelnet_simplenet''], anno_names = []\<rparr>"

definition ex_glob :: mn_globals where
  "ex_glob = \<lparr>mn_in_sequence = 0, mn_msg_offset = 0, msg_sched_set = True, msg_start_set = False,
     g_prio = 3, start_time_param = 0, codes_cn_delay = 1, node_eager_limit = 16000, noop_bypass = 0,
     base_magic = 11, wrap_msg_size = 400, g_tw_msg_sz = 1024\<rparr>"

definition ex_wrap :: model_net_wrap_msg where
  "ex_wrap = \<lparr>wm_h = msg_set_header 0 0 0,
     wm_base = \<lparr>bm_req = ex_request, is_from_remote = 0, isQueueReq = 0, save_ts = 0, bm_prio = 0,
                bm_rc = ex_rc, created_in_surrogate = 0\<rparr>, wm_data = []\<rparr>"

definition ex_env :: mn_env where
  "ex_env = \<lparr>me_conf = ex_net_conf, me_lat = (\<lambda>k. 1), me_now = 100, me_job = None, me_buf = ex_wrap\<rparr>"

text \<open>whatever a \<open>model_net_event\<close> call does (hand the message to the network device, or
  deliver it directly within the node), it takes exactly one random draw, and both reverse
  functions give it back.\<close>
theorem model_net_event_reversible:
  assumes "model_net_event_impl_base env netid sc rc cat fd sz pull off rs re ss se g lp
    = Inr (ret, g', lp', out)"
  shows "model_net_event_rc2 lp' ret = lp \<and> model_net_event_rc lp' = lp"
  using event_impl_base_lp [OF assms]
  by (simp add: model_net_event_rc2_def model_net_event_rc_def model_net_event_impl_base_rc_def)

theorem model_net_event_reversible_witness:
  "\<exists>ret g' lp' out. model_net_event_impl_base ex_env SIMPLENET CODES_MCTX_DEFAULT CODES_MCTX_DEFAULT
      ''test'' 4 1000 False 0 2 (Some [1, 2]) 0 None ex_glob \<lparr>gid = 0, draws = 9\<rparr>
      = Inr (ret, g', lp', out) \<and> map ev_to out = [2] \<and>
    model_net_event_rc2 lp' ret = \<lparr>gid = 0, draws = 9\<rparr>"
proof -
  let ?e = "model_net_event_impl_base ex_env SIMPLENET CODES_MCTX_DEFAULT CODES_MCTX_DEFAULT
      ''test'' 4 1000 False 0 2 (Some [1, 2]) 0 None ex_glob \<lparr>gid = 0, draws = 9\<rparr>"
  have "case ?e of Inl e \<Rightarrow> False | Inr (ret, g', lp', out) \<Rightarrow> map ev_to out = [2]" by code_simp
  then obtain ret g' lp' out where "?e = Inr (ret, g', lp', out)" "map ev_to out = [2]"
    by (auto split: sum.splits)
  with model_net_event_reversible [OF this(1)] show ?thesis by metis
qed


definition ex_call :: "int \<Rightarrow> tw_stime \<Rightarrow> event_call" where
  "ex_call fd off = \<lparr>cl_net = SIMPLENET, cl_send_ctx = CODES_MCTX_DEFAULT, cl_recv_ctx = CODES_MCTX_DEFAULT, cl_cat = ''test'',
     cl_dest = fd, cl_size = 1000, cl_pull = False, cl_offset = off, cl_remote_sz = 0, cl_remote = None, cl_self_sz = 0, cl_self = None\<rparr>"


text \<open>The offset of a call is not added to that of the sequence, so a call with offset 1000 that is followed
  by one with offset 0 is overtaken by it.\<close>

lemma sequence_offset_overtakes:
  "case send_all ex_env [ex_call 4 1000, ex_call 3 0] (MN_START_SEQ ex_glob) \<lparr>gid = 0, draws = 9\<rparr> of Inl e \<Rightarrow> False
   | Inr (g', lp', out) \<Rightarrow> ev_delay (out ! 1) < ev_delay (out ! 0)"
  by code_simp

text \<open>a message that is delivered within the node leaves the per-message parameters set:
  the scheduling priority or start time that the caller set for it is then used for the
  next message that goes through the network.\<close>
theorem noop_keeps_message_params:
  assumes "model_net_noop_event lat fd pull off sz rs re ss se g lp = Inr (ret, g', lp', out)"
  shows "msg_sched_set g' = msg_sched_set g \<and> msg_start_set g' = msg_start_set g \<and>
    g_prio g' = g_prio g \<and> start_time_param g' = start_time_param g"
  using noop_event_result [OF assms] by simp

theorem noop_keeps_message_params_witness:
  "\<exists>ret g' lp' out. model_net_event_impl_base ex_env SIMPLENET CODES_MCTX_DEFAULT CODES_MCTX_DEFAULT
      ''test'' 1 1000 False 0 2 (Some [1, 2]) 0 None ex_glob \<lparr>gid = 0, draws = 9\<rparr>
      = Inr (ret, g', lp', out) \<and> msg_sched_set g' \<and> g_prio g' = 3"
proof -
  let ?n = "model_net_noop_event (\<lambda>k. 1) 1 False 0 1000 2 (Some [1, 2]) 0 None ex_glob
      \<lparr>gid = 0, draws = 9\<rparr>"
  have "case ?n of Inl e \<Rightarrow> False | Inr _ \<Rightarrow> True" by code_simp
  then obtain ret g' lp' out where n: "?n = Inr (ret, g', lp', out)" by (auto split: sum.splits)
  have src: "model_net_find_local_device_mctx (me_conf ex_env) SIMPLENET CODES_MCTX_DEFAULT
      (gid \<lparr>gid = 0, draws = 9\<rparr>) = Inr 2"
    "model_net_find_local_device_mctx (me_conf ex_env) SIMPLENET CODES_MCTX_DEFAULT 1 = Inr 2"
    by code_simp+
  have "model_net_event_impl_base ex_env SIMPLENET CODES_MCTX_DEFAULT CODES_MCTX_DEFAULT
      ''test'' 1 1000 False 0 2 (Some [1, 2]) 0 None ex_glob \<lparr>gid = 0, draws = 9\<rparr> = ?n"
    unfolding model_net_event_impl_base_def using src
    by (simp add: ex_glob_def) (simp add: ex_env_def)
  with n noop_keeps_message_params [OF n] show ?thesis by (simp add: ex_glob_def)
qed

text \<open>the statistics entry of a category is stable: looking a category up again finds the
  same entry and changes nothing, and the lookup of one category never moves the entry that
  another category already has.\<close>
theorem find_stats_stable:
  assumes "model_net_find_stats cat arr = Inr (i, arr')" and "cat \<noteq> []"
  shows "model_net_find_stats cat arr' = Inr (i, arr') \<and>
    (\<forall>c j. model_net_find_stats c arr = Inr (j, arr) \<longrightarrow> c \<noteq> [] \<longrightarrow>
       model_net_find_stats c arr' = Inr (j, arr'))"
proof -
  obtain new where l: "find_stats_loop cat (take CATEGORY_MAX arr) 0 = Some (i, new)"
    and a': "arr' = (if new then arr[i := (arr ! i)\<lparr>st_category := cat\<rparr>] else arr)"
    using assms(1) by (auto simp: model_net_find_stats_def split: option.splits if_splits)
  from find_stats_loop_Some [OF l] have f: "i < CATEGORY_MAX" "i < length arr"
    "\<forall>k < i. st_category (arr ! k) \<noteq> [] \<and> st_category (arr ! k) \<noteq> cat"
    "if new then st_category (arr ! i) = [] else st_category (arr ! i) = cat" by auto
  have "model_net_find_stats cat arr' = Inr (i, arr')"
    by (rule find_stats_again) (use f a' assms(2) in \<open>auto split: if_splits\<close>)
  moreover have "model_net_find_stats c arr' = Inr (j, arr')"
    if "model_net_find_stats c arr = Inr (j, arr)" "c \<noteq> []" for c j
  proof -
    note h = find_stats_hit [OF that]
    show ?thesis
    proof (cases new)
      case True
      have "i \<noteq> k" if "k \<le> j" for k
        using h(4,5) \<open>c \<noteq> []\<close> f(4) True that by (cases "k = j") auto
      then show ?thesis
        by (intro find_stats_again) (use h \<open>c \<noteq> []\<close> a' True in auto)
    qed (use that a' in simp)
  qed
  ultimately show ?thesis by blast
qed

theorem find_stats_stable_witness:
  "\<exists>arr'. model_net_find_stats ''req'' (replicate 15 stats_zero) = Inr (0, arr') \<and>
     model_net_find_stats ''req'' arr' = Inr (0, arr')"
proof -
  have "case model_net_find_stats ''req'' (replicate 15 stats_zero) of Inl e \<Rightarrow> False
      | Inr (i, arr') \<Rightarrow> i = 0" by code_simp
  then obtain arr' where a: "model_net_find_stats ''req'' (replicate 15 stats_zero) = Inr (0, arr')"
    by (auto split: sum.splits)
  with find_stats_stable [OF a] show ?thesis by simp
qed

end
