(* ===== verification/Simplenet.thy ===== *)
theory Simplenet
  imports Model_Net
begin

text \<open>
  The simplenet network model, src/networks/model-net/simplenet-upd.c: a latency and
  bandwidth model of a network device, with its packet function, its two event handlers and
  their reverse handlers. The structures are those of codes/net/simplenet-upd.h.

  \<open>now\<close> is \<open>tw_now(lp)\<close>, \<open>lat\<close> the delay of a random draw. The payload that follows a
  message in its event is the argument \<open>data\<close>. Times are real numbers.
\<close>

record simplenet_param =
  net_startup_ns :: real
  net_bw_mbps :: real

record sn_state =
  net_send_next_idle :: tw_stime
  net_recv_next_idle :: tw_stime
  sn_anno :: "string option"
  sn_params :: simplenet_param
  sn_stats_array :: "mn_stats list"

definition SN_MSG_READY :: int where "SN_MSG_READY = 1"
definition SN_MSG_START :: int where "SN_MSG_START = 2"

record sn_message =
  sm_magic :: int
  sm_event_type :: int
  sm_src_gid :: int
  sm_src_mn_lp :: int
  sm_final_dest_gid :: int
  sm_dest_mn_lp :: int
  net_msg_size_bytes :: u64
  event_size_bytes :: int
  local_event_size_bytes :: int
  sm_category :: string
  event_rc :: int
  sm_is_pull :: int
  sm_pull_size :: u64
  net_send_next_idle_saved :: tw_stime
  net_recv_next_idle_saved :: tw_stime
  send_time_saved :: tw_stime
  recv_time_saved :: tw_stime

text \<open>Events that the handlers send: a simplenet message to a device, the idle event to the
  scheduler of this device, an event of the user, a message through model-net.\<close>

datatype sn_out =
    SnMessage (so_dest: int) (so_delay: tw_stime) (so_msg: sn_message) (so_data: bytes)
  | SnIdle (so_delay: tw_stime)
  | SnUser (so_dest: int) (so_delay: tw_stime) (so_data: bytes)
  | SnNet (so_event: mn_event)

definition rate_to_ns :: "u64 \<Rightarrow> real \<Rightarrow> tw_stime" where
  "rate_to_ns b MB_p_s =
     real (unat b) / (1024 * 1024) / MB_p_s * 1000 * 1000 * 1000"

subsection \<open>Initialisation\<close>

text \<open>\<open>all_params\<close> has the annotated entries first and the unannotated one last.\<close>

definition sn_init ::
    "config_lpgroups \<Rightarrow> simplenet_param list \<Rightarrow> config_anno_map \<Rightarrow> tw_stime \<Rightarrow> tw_lp \<Rightarrow> sn_state result" where
  "sn_init c all_params amap now lp =
     bind_res (codes_mapping_get_annotation_by_lpid c (gid lp)) (\<lambda>anno.
     let idx = (case anno of None \<Rightarrow> int (length all_params) - 1
                | Some a \<Rightarrow> configuration_get_annotation_index (Some a) amap) in
     if idx < 0 then Inl OutOfBounds
     else bind_res (rd all_params (nat idx)) (\<lambda>p.
       Inr \<lparr>net_send_next_idle = now, net_recv_next_idle = now, sn_anno = anno, sn_params = p,
            sn_stats_array = replicate CATEGORY_MAX stats_zero\<rparr>))"

subsection \<open>Packets\<close>

text \<open>\<open>simplenet_packet_event\<close> on the arguments of the scheduler's call; \<open>msg0\<close> is what the
  event buffer held. The result is the time, the sender, the message and its payload.\<close>

definition simplenet_packet_event ::
    "int \<Rightarrow> sn_message \<Rightarrow> mn_call \<Rightarrow> tw_lp \<Rightarrow> (int \<times> tw_lp \<times> sn_message \<times> bytes) result" where
  "simplenet_packet_event sn_magic msg0 call sender =
     (let (xfer, sender') = codes_local_latency sender; req = pk_req call; is_last = pk_last call;
          has_remote = (is_last \<and> remote_event_size req \<noteq> 0);
          has_self = (is_last \<and> self_event_size req \<noteq> 0);
          msg = msg0\<lparr>sm_category := category req, sm_src_gid := src_lp req, sm_src_mn_lp := gid sender,
                     sm_final_dest_gid := final_dest_lp req, sm_dest_mn_lp := dest_mn_lp req,
                     sm_magic := sn_magic, net_msg_size_bytes := pk_size call,
                     event_size_bytes := (if has_remote then remote_event_size req else 0),
                     local_event_size_bytes := (if has_self then self_event_size req else 0),
                     sm_event_type := SN_MSG_START, sm_is_pull := is_pull req,
                     sm_pull_size := pull_size req\<rparr> in
      bind_res (if has_remote then memcpy (pk_remote call) (remote_event_size req) else Inr []) (\<lambda>re.
      bind_res (if has_self then memcpy (pk_local call) (self_event_size req) else Inr []) (\<lambda>le.
        Inr (xfer, sender', msg, re @ le))))"

definition simplenet_packet_event_rc :: "tw_lp \<Rightarrow> tw_lp" where
  "simplenet_packet_event_rc sender = codes_local_latency_reverse sender"

text \<open>The entry of \<open>method_array\<close>: what the scheduler sees of these functions.\<close>

definition simplenet_method :: "(int \<Rightarrow> tw_stime) \<Rightarrow> (tw_lp, tw_stime) model_net_method" where
  "simplenet_method lat =
     \<lparr>mn_packet_event = (\<lambda>c lp. let (d, lp') = codes_local_latency lp in (lat d, lp')),
      mn_packet_event_rc = simplenet_packet_event_rc,
      mn_recv_msg_event = None, mn_recv_msg_event_rc = None\<rparr>"

lemma simplenet_packet_event_method:
  "simplenet_packet_event magic msg0 call sender = Inr (d, sender', msg, b) \<Longrightarrow>
     mn_packet_event (simplenet_method lat) call sender = (lat d, sender')"
  by (auto simp: simplenet_packet_event_def simplenet_method_def Let_def result_iff split: prod.splits)

interpretation sn: reversible_method "simplenet_method lat" for lat
  by unfold_locales (simp_all add: simplenet_method_def simplenet_packet_event_rc_def
      codes_local_latency_def codes_local_latency_reverse_def)

subsection \<open>Handlers\<close>

definition stat_started :: "real \<Rightarrow> u64 \<Rightarrow> int \<Rightarrow> mn_stats \<Rightarrow> mn_stats" where
  "stat_started t sz total_event_size s =
     s\<lparr>send_count := send_count s + 1, send_bytes := send_bytes s + int (unat sz),
       send_time := send_time s + t,
       max_event_size := (if max_event_size s < total_event_size then total_event_size
                          else max_event_size s)\<rparr>"

definition handle_msg_start_event ::
    "int \<Rightarrow> (int \<Rightarrow> tw_stime) \<Rightarrow> tw_stime \<Rightarrow> sn_state \<Rightarrow> sn_message \<Rightarrow> bytes \<Rightarrow> tw_lp \<Rightarrow>
     (sn_state \<times> sn_message \<times> tw_lp \<times> sn_out list) result" where
  "handle_msg_start_event wrap_size lat now ns m data lp =
     bind_res (model_net_find_stats (sm_category m) (sn_stats_array ns)) (\<lambda>(i, arr).
     let startup = net_startup_ns (sn_params ns);
         xfer = rate_to_ns (net_msg_size_bytes m) (net_bw_mbps (sn_params ns));
         total_event_size = wrap_size + event_size_bytes m + local_event_size_bytes m;
         stat = arr ! i;
         m1 = m\<lparr>send_time_saved := send_time stat, net_send_next_idle_saved := net_send_next_idle ns\<rparr>;
         arr' = arr[i := stat_started (startup + xfer) (net_msg_size_bytes m) total_event_size stat];
         send_queue_time = (if net_send_next_idle ns > now
                            then startup + (net_send_next_idle ns - now) else startup);
         idle = send_queue_time + now + xfer;
         ns' = ns\<lparr>sn_stats_array := arr', net_send_next_idle := idle\<rparr>;
         (d1, lp1) = codes_local_latency lp in
     bind_res (if event_size_bytes m \<noteq> 0 then memcpy (Some data) (event_size_bytes m) else Inr []) (\<lambda>re.
     if local_event_size_bytes m > 0
     then bind_res (memcpy (Some (drop (nat (event_size_bytes m)) data)) (local_event_size_bytes m)) (\<lambda>le.
            let (d2, lp2) = codes_local_latency lp1 in
            Inr (ns', m1, lp2,
                 [SnMessage (sm_dest_mn_lp m) send_queue_time (m1\<lparr>sm_event_type := SN_MSG_READY\<rparr>) re,
                  SnIdle (lat d1 + idle - now),
                  SnUser (sm_src_gid m) (send_queue_time + lat d2) le]))
     else Inr (ns', m1, lp1,
               [SnMessage (sm_dest_mn_lp m) send_queue_time (m1\<lparr>sm_event_type := SN_MSG_READY\<rparr>) re,
                SnIdle (lat d1 + idle - now)])))"

definition handle_msg_start_rev_event ::
    "sn_state \<Rightarrow> sn_message \<Rightarrow> tw_lp \<Rightarrow> (sn_state \<times> tw_lp) result" where
  "handle_msg_start_rev_event ns m lp =
     (let lp1 = codes_local_latency_reverse lp;
          lp2 = (if local_event_size_bytes m > 0 then codes_local_latency_reverse lp1 else lp1) in
      bind_res (model_net_find_stats (sm_category m) (sn_stats_array ns)) (\<lambda>(i, arr).
        let stat = arr ! i;
            stat' = stat\<lparr>send_count := send_count stat - 1,
                         send_bytes := send_bytes stat - int (unat (net_msg_size_bytes m)),
                         send_time := send_time_saved m\<rparr>
        in Inr (ns\<lparr>net_send_next_idle := net_send_next_idle_saved m, sn_stats_array := arr[i := stat']\<rparr>,
                lp2)))"

definition handle_msg_ready_event ::
    "mn_env \<Rightarrow> mn_globals \<Rightarrow> sn_state \<Rightarrow> sn_message \<Rightarrow> bytes \<Rightarrow> tw_lp \<Rightarrow>
     (sn_state \<times> sn_message \<times> mn_globals \<times> tw_lp \<times> sn_out list) result" where
  "handle_msg_ready_event env g ns m data lp =
     bind_res (model_net_find_stats (sm_category m) (sn_stats_array ns)) (\<lambda>(i, arr).
     let xfer = rate_to_ns (net_msg_size_bytes m) (net_bw_mbps (sn_params ns));
         now = me_now env; stat = arr ! i;
         arr' = arr[i := stat\<lparr>recv_count := recv_count stat + 1,
                             recv_bytes := recv_bytes stat + int (unat (net_msg_size_bytes m)),
                             recv_time := recv_time stat + xfer\<rparr>];
         recv_queue_time = (if net_recv_next_idle ns > now then net_recv_next_idle ns - now else 0) + xfer;
         m1 = m\<lparr>recv_time_saved := recv_time stat, net_recv_next_idle_saved := net_recv_next_idle ns\<rparr>;
         ns' = ns\<lparr>sn_stats_array := arr', net_recv_next_idle := recv_queue_time + now\<rparr> in
     if event_size_bytes m \<noteq> 0
     then if sm_is_pull m \<noteq> 0
          then bind_res (model_net_event_mctx env SIMPLENET
                   (codes_mctx_set_global_direct (gid lp)) (codes_mctx_set_global_direct (sm_src_mn_lp m))
                   (sm_category m) (sm_src_gid m) (sm_pull_size m) recv_queue_time
                   (event_size_bytes m) (Some data) 0 None g lp) (\<lambda>(ret, g', lp', outs).
                 Inr (ns', m1\<lparr>event_rc := ret\<rparr>, g', lp', map SnNet outs))
          else bind_res (memcpy (Some data) (event_size_bytes m)) (\<lambda>re.
                 Inr (ns', m1, g, lp, [SnUser (sm_final_dest_gid m) recv_queue_time re]))
     else Inr (ns', m1, g, lp, []))"

definition handle_msg_ready_rev_event ::
    "sn_state \<Rightarrow> sn_message \<Rightarrow> tw_lp \<Rightarrow> (sn_state \<times> tw_lp) result" where
  "handle_msg_ready_rev_event ns m lp =
     bind_res (model_net_find_stats (sm_category m) (sn_stats_array ns)) (\<lambda>(i, arr).
       let stat = arr ! i;
           stat' = stat\<lparr>recv_count := recv_count stat - 1,
                        recv_bytes := recv_bytes stat - int (unat (net_msg_size_bytes m)),
                        recv_time := recv_time_saved m\<rparr>;
           ns' = ns\<lparr>net_recv_next_idle := net_recv_next_idle_saved m, sn_stats_array := arr[i := stat']\<rparr>
       in Inr (ns', if event_size_bytes m \<noteq> 0 \<and> sm_is_pull m \<noteq> 0
                    then model_net_event_rc2 lp (event_rc m) else lp))"

definition sn_event ::
    "int \<Rightarrow> int \<Rightarrow> mn_env \<Rightarrow> mn_globals \<Rightarrow> sn_state \<Rightarrow> sn_message \<Rightarrow> bytes \<Rightarrow> tw_lp \<Rightarrow>
     (sn_state \<times> sn_message \<times> mn_globals \<times> tw_lp \<times> sn_out list) result" where
  "sn_event sn_magic wrap_size env g ns m data lp =
     bind_res (c_assert (sm_magic m = sn_magic)) (\<lambda>_.
       if sm_event_type m = SN_MSG_START
       then bind_res (handle_msg_start_event wrap_size (me_lat env) (me_now env) ns m data lp)
              (\<lambda>(ns', m', lp', out). Inr (ns', m', g, lp', out))
       else if sm_event_type m = SN_MSG_READY then handle_msg_ready_event env g ns m data lp
       else Inl AssertFailed)"

definition sn_rev_event :: "int \<Rightarrow> sn_state \<Rightarrow> sn_message \<Rightarrow> tw_lp \<Rightarrow> (sn_state \<times> tw_lp) result" where
  "sn_rev_event sn_magic ns m lp =
     bind_res (c_assert (sm_magic m = sn_magic)) (\<lambda>_.
       if sm_event_type m = SN_MSG_START then handle_msg_start_rev_event ns m lp
       else if sm_event_type m = SN_MSG_READY then handle_msg_ready_rev_event ns m lp
       else Inl AssertFailed)"

subsection \<open>Reversal\<close>

text \<open>What a pair of forward and reverse handler leaves in the statistics entry it used: the
  name of the category, and (for a sender) the largest event size.\<close>

definition stats_touched :: "sn_state \<Rightarrow> nat \<Rightarrow> string \<Rightarrow> int \<Rightarrow> sn_state" where
  "stats_touched ns i cat esz =
     ns\<lparr>sn_stats_array := (sn_stats_array ns)[i :=
          (sn_stats_array ns ! i)\<lparr>st_category := cat,
             max_event_size := max (max_event_size (sn_stats_array ns ! i)) esz\<rparr>]\<rparr>"

lemma start_outcome:
  assumes "handle_msg_start_event w lat now ns m data lp = Inr (ns', m', lp', out)"
  defines "startup \<equiv> net_startup_ns (sn_params ns)"
    and "xfer \<equiv> rate_to_ns (net_msg_size_bytes m) (net_bw_mbps (sn_params ns))"
  defines "sqt \<equiv> if net_send_next_idle ns > now then startup + (net_send_next_idle ns - now) else startup"
  shows "\<exists>i arr. model_net_find_stats (sm_category m) (sn_stats_array ns) = Inr (i, arr) \<and>
    ns' = ns\<lparr>sn_stats_array := arr[i := stat_started (startup + xfer) (net_msg_size_bytes m)
                (w + event_size_bytes m + local_event_size_bytes m) (arr ! i)],
             net_send_next_idle := sqt + now + xfer\<rparr> \<and>
    m' = m\<lparr>send_time_saved := send_time (arr ! i), net_send_next_idle_saved := net_send_next_idle ns\<rparr> \<and>
    lp' = (if local_event_size_bytes m > 0
           then snd (codes_local_latency (snd (codes_local_latency lp)))
           else snd (codes_local_latency lp)) \<and> so_delay (hd out) = sqt"
proof -
  obtain i arr where f: "model_net_find_stats (sm_category m) (sn_stats_array ns) = Inr (i, arr)"
    using assms(1) by (auto simp: handle_msg_start_event_def result_iff)
  show ?thesis
    by (rule exI [of _ i], rule exI [of _ arr], cases "local_event_size_bytes m > 0")
      (use assms(1) f in \<open>auto simp: handle_msg_start_event_def result_iff Let_def
        codes_local_latency_def startup_def xfer_def sqt_def cong: if_cong split del: if_split\<close>)
qed

lemma start_reverse:
  assumes h: "handle_msg_start_event w lat now ns m data lp = Inr (ns', m', lp', out)"
  shows "\<exists>i. handle_msg_start_rev_event ns' m' lp' =
    Inr (stats_touched ns i (sm_category m) (w + event_size_bytes m + local_event_size_bytes m), lp)"
proof -
  let ?t = "net_startup_ns (sn_params ns) + rate_to_ns (net_msg_size_bytes m) (net_bw_mbps (sn_params ns))"
  let ?tot = "w + event_size_bytes m + local_event_size_bytes m"
  obtain i arr idle where f: "model_net_find_stats (sm_category m) (sn_stats_array ns) = Inr (i, arr)"
    and ns': "ns' = ns\<lparr>sn_stats_array := arr[i := stat_started ?t (net_msg_size_bytes m) ?tot (arr ! i)],
      net_send_next_idle := idle\<rparr>"
    and m': "m' = m\<lparr>send_time_saved := send_time (arr ! i), net_send_next_idle_saved := net_send_next_idle ns\<rparr>"
    and lp': "lp' = (if local_event_size_bytes m > 0
      then snd (codes_local_latency (snd (codes_local_latency lp))) else snd (codes_local_latency lp))"
    using start_outcome [OF h] by blast
  note e = find_stats_entry [OF f]
  let ?s = "stat_started ?t (net_msg_size_bytes m) ?tot (arr ! i)"
  have stat: "arr ! i = (sn_stats_array ns ! i)\<lparr>st_category := sm_category m\<rparr>" using e(2,3) by simp
  have "st_category ?s = sm_category m" using e(2,3) by (simp add: stat_started_def)
  note g = find_stats_updated [OF f this]
  have "handle_msg_start_rev_event ns' m' lp' = Inr (stats_touched ns i (sm_category m) ?tot, lp)"
    using g e by (simp add: handle_msg_start_rev_event_def ns' m' lp' stats_touched_def Let_def
        stat_started_def stat max_def)
  then show ?thesis by blast
qed

lemma ready_outcome:
  assumes h: "handle_msg_ready_event env g ns m data lp = Inr (ns', m', g', lp', out)"
  shows "\<exists>i arr rt r. model_net_find_stats (sm_category m) (sn_stats_array ns) = Inr (i, arr) \<and>
    ns' = ns\<lparr>sn_stats_array := arr[i := (arr ! i)\<lparr>recv_count := recv_count (arr ! i) + 1,
        recv_bytes := recv_bytes (arr ! i) + int (unat (net_msg_size_bytes m)),
        recv_time := recv_time (arr ! i) +
          rate_to_ns (net_msg_size_bytes m) (net_bw_mbps (sn_params ns))\<rparr>],
      net_recv_next_idle := rt\<rparr> \<and>
    m' = m\<lparr>recv_time_saved := recv_time (arr ! i),
        net_recv_next_idle_saved := net_recv_next_idle ns, event_rc := r\<rparr> \<and>
    (if event_size_bytes m \<noteq> 0 \<and> sm_is_pull m \<noteq> 0
     then r = 1 \<and> lp' = snd (codes_local_latency lp) else lp' = lp)"
proof -
  obtain i arr where f: "model_net_find_stats (sm_category m) (sn_stats_array ns) = Inr (i, arr)"
    using h by (auto simp: handle_msg_ready_event_def result_iff)
  let ?rt = "(if net_recv_next_idle ns > me_now env then net_recv_next_idle ns - me_now env else 0)
      + rate_to_ns (net_msg_size_bytes m) (net_bw_mbps (sn_params ns)) + me_now env"
  show ?thesis
  proof (cases "event_size_bytes m \<noteq> 0 \<and> sm_is_pull m \<noteq> 0")
    case True
    show ?thesis
      by (rule exI [of _ i], rule exI [of _ arr], rule exI [of _ ?rt], rule exI [of _ 1])
        (use True h f in \<open>auto simp: handle_msg_ready_event_def result_iff Let_def model_net_event_mctx_def
          dest!: event_impl_base_lp\<close>)
  next
    case False
    show ?thesis
      by (rule exI [of _ i], rule exI [of _ arr], rule exI [of _ ?rt],
          rule exI [of _ "event_rc m"])
        (use False h f in \<open>auto simp: handle_msg_ready_event_def result_iff Let_def split: if_splits\<close>)
  qed
qed

lemma ready_reverse:
  assumes h: "handle_msg_ready_event env g ns m data lp = Inr (ns', m', g', lp', out)"
  shows "\<exists>i. handle_msg_ready_rev_event ns' m' lp' =
    Inr (stats_touched ns i (sm_category m) (max_event_size (sn_stats_array ns ! i)), lp)"
proof -
  let ?s = "\<lambda>a. a\<lparr>recv_count := recv_count a + 1,
      recv_bytes := recv_bytes a + int (unat (net_msg_size_bytes m)),
      recv_time := recv_time a + rate_to_ns (net_msg_size_bytes m) (net_bw_mbps (sn_params ns))\<rparr>"
  obtain i arr rt r where f: "model_net_find_stats (sm_category m) (sn_stats_array ns) = Inr (i, arr)"
    and ns': "ns' = ns\<lparr>sn_stats_array := arr[i := ?s (arr ! i)], net_recv_next_idle := rt\<rparr>"
    and m': "m' = m\<lparr>recv_time_saved := recv_time (arr ! i),
        net_recv_next_idle_saved := net_recv_next_idle ns, event_rc := r\<rparr>"
    and lp': "if event_size_bytes m \<noteq> 0 \<and> sm_is_pull m \<noteq> 0
      then r = 1 \<and> lp' = snd (codes_local_latency lp) else lp' = lp"
    using ready_outcome [OF h] by blast
  note e = find_stats_entry [OF f]
  have stat: "arr ! i = (sn_stats_array ns ! i)\<lparr>st_category := sm_category m\<rparr>" using e(2,3) by simp
  have "st_category (?s (arr ! i)) = sm_category m" using e(2,3) by simp
  note g = find_stats_updated [OF f this]
  have "(if event_size_bytes m \<noteq> 0 \<and> sm_is_pull m \<noteq> 0 then model_net_event_rc2 lp' r else lp') = lp"
    using lp' by (simp add: model_net_event_rc2_def split: if_splits)
  then have "handle_msg_ready_rev_event ns' m' lp' =
      Inr (stats_touched ns i (sm_category m) (max_event_size (sn_stats_array ns ! i)), lp)"
    using g e by (simp add: handle_msg_ready_rev_event_def ns' m' stats_touched_def Let_def stat
        cong: if_cong split del: if_split)
  then show ?thesis by blast
qed

lemma sn_events_undo:
  assumes "sn_event magic w env g ns m data lp = Inr (ns', m', g', lp', out)"
  shows "\<exists>i esz. sn_rev_event magic ns' m' lp' = Inr (stats_touched ns i (sm_category m) esz, lp)"
proof (cases "sm_event_type m = SN_MSG_START")
  case True
  then have mg: "sm_magic m = magic"
    and h: "handle_msg_start_event w (me_lat env) (me_now env) ns m data lp = Inr (ns', m', lp', out)"
    using assms by (auto simp: sn_event_def result_iff)
  have "sm_magic m' = magic" "sm_event_type m' = SN_MSG_START"
    using start_outcome [OF h] mg True by auto
  then show ?thesis using start_reverse [OF h] by (auto simp: sn_rev_event_def)
next
  case False
  then have mg: "sm_magic m = magic" "sm_event_type m = SN_MSG_READY"
    and h: "handle_msg_ready_event env g ns m data lp = Inr (ns', m', g', lp', out)"
    using assms by (auto simp: sn_event_def result_iff split: if_splits)
  have "sm_magic m' = magic" "sm_event_type m' = SN_MSG_READY"
    using ready_outcome [OF h] mg by auto
  then show ?thesis
    using ready_reverse [OF h] by (auto simp: sn_rev_event_def SN_MSG_READY_def SN_MSG_START_def)
qed

subsection \<open>Properties\<close>

text \<open>the reverse handlers of simplenet undo a message event: the idle times, all counters
  and times of the statistics, the random stream are as before. Only the name of a
  category that was new, and the largest event size seen by a sender, stay in the entry
  that the event used.\<close>
theorem simplenet_events_reversible:
  assumes "sn_event magic w env g ns m data lp = Inr (ns', m', g', lp', out)"
  shows "\<exists>i esz. sn_rev_event magic ns' m' lp' = Inr (stats_touched ns i (sm_category m) esz, lp)"
  using assms by (rule sn_events_undo)

definition ex_sn_state :: sn_state where
  "ex_sn_state = \<lparr>net_send_next_idle = 150, net_recv_next_idle = 0, sn_anno = None,
     sn_params = \<lparr>net_startup_ns = 10, net_bw_mbps = 1000\<rparr>,
     sn_stats_array = replicate 15 stats_zero\<rparr>"

definition ex_sn_msg :: sn_message where
  "ex_sn_msg = \<lparr>sm_magic = 5, sm_event_type = SN_MSG_START, sm_src_gid = 0, sm_src_mn_lp = 2,
     sm_final_dest_gid = 4, sm_dest_mn_lp = 5, net_msg_size_bytes = 1048576, event_size_bytes = 2,
     local_event_size_bytes = 1, sm_category = ''test'', event_rc = 0, sm_is_pull = 0, sm_pull_size = 0,
     net_send_next_idle_saved = 0, net_recv_next_idle_saved = 0, send_time_saved = 0,
     recv_time_saved = 0\<rparr>"

lemma ex_sn_find:
  "model_net_find_stats ''test'' (replicate 15 stats_zero) =
     Inr (0, stats_zero\<lparr>st_category := ''test''\<rparr> # replicate 14 stats_zero)"
  by (simp add: model_net_find_stats_def CATEGORY_MAX_def CATEGORY_NAME_MAX_def numeral_eq_Suc
      stats_zero_def)

lemma ex_sn_start:
  "\<exists>ns' m' lp' out. handle_msg_start_event 400 lat now ex_sn_state ex_sn_msg [1, 2, 3]
     \<lparr>gid = 2, draws = 0\<rparr> = Inr (ns', m', lp', out) \<and> draws lp' = 2"
  by (simp add: handle_msg_start_event_def ex_sn_state_def ex_sn_msg_def ex_sn_find Let_def memcpy_def
      codes_local_latency_def)

lemma ex_sn_event:
  "\<exists>ns' m' g' lp' out. sn_event 5 400 ex_env ex_glob ex_sn_state ex_sn_msg [1, 2, 3] \<lparr>gid = 2, draws = 0\<rparr>
     = Inr (ns', m', g', lp', out) \<and> draws lp' = 2"
  using ex_sn_start [of "me_lat ex_env" "me_now ex_env"]
  by (auto simp: sn_event_def) (simp_all add: ex_sn_msg_def)

theorem simplenet_events_reversible_witness:
  "\<exists>ns' m' g' lp' out i esz.
     sn_event 5 400 ex_env ex_glob ex_sn_state ex_sn_msg [1, 2, 3] \<lparr>gid = 2, draws = 0\<rparr>
       = Inr (ns', m', g', lp', out) \<and> draws lp' = 2 \<and>
     sn_rev_event 5 ns' m' lp' = Inr (stats_touched ex_sn_state i ''test'' esz, \<lparr>gid = 2, draws = 0\<rparr>)"
proof -
  obtain ns' m' g' lp' out where
    h: "sn_event 5 400 ex_env ex_glob ex_sn_state ex_sn_msg [1, 2, 3] \<lparr>gid = 2, draws = 0\<rparr>
       = Inr (ns', m', g', lp', out)" "draws lp' = 2" using ex_sn_event by blast
  have "sm_category ex_sn_msg = ''test''" by (simp add: ex_sn_msg_def)
  with simplenet_events_reversible [OF h(1)] obtain i esz where
    "sn_rev_event 5 ns' m' lp' = Inr (stats_touched ex_sn_state i ''test'' esz, \<lparr>gid = 2, draws = 0\<rparr>)"
    by auto
  with h show ?thesis by (intro exI conjI)
qed

text \<open>a simplenet device sends one message after the other. The message reaches the
  receiver no earlier than when the device was idle again plus the start-up cost, and the
  device is busy until exactly the transfer time after that.\<close>
theorem simplenet_sends_serialised:
  assumes "handle_msg_start_event w lat now ns m data lp = Inr (ns', m', lp', out)"
    and "0 \<le> net_startup_ns (sn_params ns)" and "0 < net_bw_mbps (sn_params ns)"
  shows "now + so_delay (hd out) \<ge> max now (net_send_next_idle ns) + net_startup_ns (sn_params ns) \<and>
    net_send_next_idle ns' = now + so_delay (hd out) +
      rate_to_ns (net_msg_size_bytes m) (net_bw_mbps (sn_params ns)) \<and>
    net_send_next_idle ns' \<ge> net_send_next_idle ns"
proof -
  have x: "0 \<le> rate_to_ns (net_msg_size_bytes m) (net_bw_mbps (sn_params ns))"
    using assms(3) by (simp add: rate_to_ns_def del: of_nat_unat)
  have "so_delay (hd out) = (if net_send_next_idle ns > now
        then net_startup_ns (sn_params ns) + (net_send_next_idle ns - now)
        else net_startup_ns (sn_params ns))"
    "net_send_next_idle ns' = so_delay (hd out) + now +
      rate_to_ns (net_msg_size_bytes m) (net_bw_mbps (sn_params ns))"
    using start_outcome [OF assms(1)] by auto
  with x assms(2) show ?thesis by (auto simp: max_def)
qed

theorem simplenet_sends_serialised_witness:
  "\<exists>ns' m' lp' out. handle_msg_start_event 400 (\<lambda>k. 1) 100 ex_sn_state ex_sn_msg [1, 2, 3]
      \<lparr>gid = 2, draws = 0\<rparr> = Inr (ns', m', lp', out) \<and>
    net_send_next_idle ns' \<ge> 150 \<and> 100 + so_delay (hd out) \<ge> 160"
proof -
  obtain ns' m' lp' out where h: "handle_msg_start_event 400 (\<lambda>k. 1) 100 ex_sn_state ex_sn_msg [1, 2, 3]
      \<lparr>gid = 2, draws = 0\<rparr> = Inr (ns', m', lp', out)" using ex_sn_start by blast
  have "0 \<le> net_startup_ns (sn_params ex_sn_state)" "0 < net_bw_mbps (sn_params ex_sn_state)"
    by (simp_all add: ex_sn_state_def)
  from simplenet_sends_serialised [OF h this] h show ?thesis by (simp add: ex_sn_state_def)
qed

end
