(* ===== verification/Model_Net_LP.thy ===== *)
theory Model_Net_LP
  imports Simplenet
begin

text \<open>
  The base LP of model-net, src/networks/model-net/core/model-net-lp.c: it queues the
  messages of a node, runs the scheduler loops of its send and receive queues, and passes
  network events on to the LP type of the network.

  The state of the network below it has the type \<open>'sub\<close>, its messages the type \<open>'msg\<close>; its
  handlers are the record \<open>mn_hooks\<close>. The scheduler calls the network through the table
  \<open>mt\<close> of theory \<open>MN_Sched\<close>. \<open>env\<close> is the environment of theory \<open>Model_Net\<close> (the
  configuration, the delays of the random draws, the current time, the buffer of a new
  event), \<open>g\<close> the globals of model-net.
\<close>

subsection \<open>State\<close>

record model_net_base_params =
  bp_sched_type :: sched_type
  bp_num_prios :: int
  bp_sub_stype :: sched_type
  bp_packet_size :: u64
  num_queues :: int
  nic_seq_delay :: tw_stime
  node_copy_queues :: int

record 'sub model_net_base_state =
  bs_net_id :: int
  nics_per_router :: int
  in_sched_send_loop :: "int list"
  in_sched_recv_loop :: int
  bs_msg_id :: u64
  sched_send :: "model_net_sched list"
  sched_recv :: model_net_sched
  bs_params :: model_net_base_params
  sub_state :: 'sub
  next_available_time :: tw_stime
  node_copy_next_available_time :: "tw_stime list"
  sched_loop_pre_surrogate :: "int list"
  sched_recv_loop_pre_surrogate :: int

text \<open>The static variables of \<open>handle_new_msg\<close>, -1 until the first message.\<close>

record node_cache =
  num_servers :: int
  servers_per_node :: int
  servers_per_node_queue :: int

definition cache_init :: node_cache where
  "cache_init = \<lparr>num_servers = -1, servers_per_node = -1, servers_per_node_queue = -1\<rparr>"

subsection \<open>Choosing the queue\<close>

text \<open>The scheduler and the loop flag that a message belongs to.\<close>

definition the_sched :: "'sub model_net_base_state \<Rightarrow> int \<Rightarrow> int \<Rightarrow> model_net_sched result" where
  "the_sched ns remote q =
     (if remote \<noteq> 0 then Inr (sched_recv ns)
      else if q < 0 then Inl OutOfBounds else rd (sched_send ns) (nat q))"

definition put_sched ::
    "'sub model_net_base_state \<Rightarrow> int \<Rightarrow> int \<Rightarrow> model_net_sched \<Rightarrow> 'sub model_net_base_state" where
  "put_sched ns remote q s =
     (if remote \<noteq> 0 then ns\<lparr>sched_recv := s\<rparr>
      else ns\<lparr>sched_send := (sched_send ns)[nat q := s]\<rparr>)"

definition the_loop :: "'sub model_net_base_state \<Rightarrow> int \<Rightarrow> int \<Rightarrow> int result" where
  "the_loop ns remote q =
     (if remote \<noteq> 0 then Inr (in_sched_recv_loop ns)
      else if q < 0 then Inl OutOfBounds else rd (in_sched_send_loop ns) (nat q))"

definition put_loop ::
    "'sub model_net_base_state \<Rightarrow> int \<Rightarrow> int \<Rightarrow> int \<Rightarrow> 'sub model_net_base_state" where
  "put_loop ns remote q v =
     (if remote \<noteq> 0 then ns\<lparr>in_sched_recv_loop := v\<rparr>
      else ns\<lparr>in_sched_send_loop := (in_sched_send_loop ns)[nat q := v]\<rparr>)"

subsection \<open>The scheduler loop\<close>

definition sched_next_msg ::
    "mn_globals \<Rightarrow> model_net_wrap_msg \<Rightarrow> int \<Rightarrow> int \<Rightarrow> int \<Rightarrow> model_net_wrap_msg" where
  "sched_next_msg g buf self remote q =
     buf\<lparr>wm_h := msg_set_header (base_magic g) MN_BASE_SCHED_NEXT self,
         wm_base := (wm_base buf)\<lparr>is_from_remote := remote,
                      bm_req := (bm_req (wm_base buf))\<lparr>queue_offset := q\<rparr>\<rparr>\<rparr>"

definition handle_sched_next ::
    "mn_env \<Rightarrow> mn_globals \<Rightarrow> (tw_lp, tw_stime) model_net_method \<Rightarrow> 'sub model_net_base_state \<Rightarrow> tw_bf \<Rightarrow>
     model_net_wrap_msg \<Rightarrow> tw_lp \<Rightarrow>
     ('sub model_net_base_state \<times> tw_bf \<times> model_net_wrap_msg \<times> tw_lp \<times> mn_event list) result" where
  "handle_sched_next env g mt ns b m lp =
     (let remote = is_from_remote (wm_base m); q = queue_offset (bm_req (wm_base m)) in
      bind_res (the_sched ns remote q) (\<lambda>ss.
      bind_res (the_loop ns remote q) (\<lambda>_.
      bind_res (model_net_sched_next mt ss (wm_data m) (bm_rc (wm_base m)) lp) (\<lambda>r.
        let ns1 = put_sched ns remote q (st_sched r);
            m1 = m\<lparr>wm_base := (wm_base m)\<lparr>bm_rc := st_rc r\<rparr>, wm_data := st_save r\<rparr> in
        if st_ret r = -1
        then Inr (put_loop ns1 remote q 0, b\<lparr>c0 := True\<rparr>, m1, st_lp r, [])
        else if bs_net_id ns = SIMPLEP2P \<or> bs_net_id ns = TORUS
        then let (d, lp') = codes_local_latency (st_lp r) in
             Inr (ns1, b, m1, lp',
                  [\<lparr>ev_to = gid lp, ev_delay = (case st_offset r of Some t \<Rightarrow> t | None \<Rightarrow> 0) + me_lat env d,
                    ev_body = BaseMsg (sched_next_msg g (me_buf env) (gid lp) remote q)\<rparr>])
        else Inr (ns1, b, m1, st_lp r, [])))))"

definition handle_sched_next_rc ::
    "(tw_lp, tw_stime) model_net_method \<Rightarrow> 'sub model_net_base_state \<Rightarrow> tw_bf \<Rightarrow> model_net_wrap_msg \<Rightarrow>
     tw_lp \<Rightarrow> ('sub model_net_base_state \<times> tw_lp) result" where
  "handle_sched_next_rc mt ns b m lp =
     (let remote = is_from_remote (wm_base m); q = queue_offset (bm_req (wm_base m)) in
      bind_res (the_sched ns remote q) (\<lambda>ss.
      bind_res (the_loop ns remote q) (\<lambda>_.
      bind_res (model_net_sched_next_rc mt ss (wm_data m) (bm_rc (wm_base m)) lp) (\<lambda>(ss', lp').
        let ns1 = put_sched ns remote q ss' in
        if c0 b then Inr (put_loop ns1 remote q 1, lp')
        else if bs_net_id ns = SIMPLEP2P \<or> bs_net_id ns = TORUS
        then Inr (ns1, codes_local_latency_reverse lp')
        else Inr (ns1, lp')))))"

subsection \<open>New messages\<close>

text \<open>The static variables are computed from the first message that the process sees.\<close>

definition div_res :: "int \<Rightarrow> int \<Rightarrow> int result" where
  "div_res a b = (if b = 0 then Inl DivByZero else Inr (c_div a b))"

definition fill_cache ::
    "config_lpgroups \<Rightarrow> 'sub model_net_base_state \<Rightarrow> int \<Rightarrow> node_cache \<Rightarrow> node_cache result" where
  "fill_cache c ns src cache =
     (if num_servers cache = -1
      then bind_res (codes_mapping_get_lp_info2 c src) (\<lambda>i.
           let n = codes_mapping_get_lp_count c (Some (inf_group i)) 1 (inf_type i) None 1 in
           bind_res (div_res n (num_queues (bs_params ns))) (\<lambda>a.
           bind_res (div_res n (nics_per_router ns)) (\<lambda>b1.
           bind_res (div_res b1 (node_copy_queues (bs_params ns))) (\<lambda>b2.
             Inr \<lparr>num_servers = n, servers_per_node = (if a = 0 then 1 else a),
                  servers_per_node_queue = (if b2 = 0 then 1 else b2)\<rparr>))))
      else Inr cache)"

text \<open>A message for this very device is copied within the node.\<close>

definition copy_queue ::
    "config_lpgroups \<Rightarrow> 'sub model_net_base_state \<Rightarrow> node_cache \<Rightarrow> int \<Rightarrow> nat result" where
  "copy_queue c ns cache src =
     bind_res (codes_mapping_get_lp_info2 c src) (\<lambda>i.
     bind_res (div_res (inf_offset i) (nics_per_router ns)) (\<lambda>a.
     bind_res (div_res a (servers_per_node_queue cache)) (\<lambda>q.
       if q < 0 then Inl OutOfBounds else Inr (nat q))))"

definition new_msg_local ::
    "mn_env \<Rightarrow> mn_globals \<Rightarrow> 'sub model_net_base_state \<Rightarrow> node_cache \<Rightarrow> model_net_wrap_msg \<Rightarrow> tw_lp \<Rightarrow>
     ('sub model_net_base_state \<times> model_net_wrap_msg \<times> tw_lp \<times> mn_event list) result" where
  "new_msg_local env g ns cache m lp =
     (let r = bm_req (wm_base m); now = me_now env; rsz = remote_event_size r; lsz = self_event_size r in
      bind_res (copy_queue (me_conf env) ns cache (src_lp r)) (\<lambda>queue.
      bind_res (rd (node_copy_next_available_time ns) queue) (\<lambda>t.
        let m1 = m\<lparr>wm_base := (wm_base m)\<lparr>save_ts := t\<rparr>\<rparr>;
            exp0 = (if t > now then t else now) + real (unat (msg_size r)) * codes_cn_delay g - now;
            (d, lp') = codes_local_latency lp; delay = me_lat env d;
            ns' = ns\<lparr>node_copy_next_available_time := (node_copy_next_available_time ns)[queue := now + exp0]\<rparr>;
            exp1 = (if rsz > 0 then exp0 + delay else exp0) in
        bind_res (if rsz > 0 then memcpy (Some (wm_data m)) rsz else Inr []) (\<lambda>re.
        bind_res (if lsz > 0 then memcpy (Some (if rsz > 0 then drop (nat rsz) (wm_data m) else wm_data m)) lsz
                  else Inr []) (\<lambda>le.
          Inr (ns', m1, lp',
               (if rsz > 0 then [\<lparr>ev_to = final_dest_lp r, ev_delay = exp1, ev_body = UserMsg re\<rparr>] else []) @
               (if lsz > 0 then [\<lparr>ev_to = src_lp r, ev_delay = exp1 + delay, ev_body = UserMsg le\<rparr>] else [])))))))"

text \<open>A message fresh from its sender waits for the injection of earlier ones: it is sent to
  this LP again with \<open>isQueueReq\<close> cleared. The structure and the event bytes are copied.\<close>

definition new_msg_queue_req ::
    "mn_env \<Rightarrow> 'sub model_net_base_state \<Rightarrow> model_net_wrap_msg \<Rightarrow> tw_lp \<Rightarrow>
     ('sub model_net_base_state \<times> model_net_wrap_msg \<times> tw_lp \<times> mn_event list) result" where
  "new_msg_queue_req env ns m lp =
     (let now = me_now env; rsz = remote_event_size (bm_req (wm_base m));
          lsz = self_event_size (bm_req (wm_base m));
          m1 = m\<lparr>wm_base := (wm_base m)\<lparr>save_ts := next_available_time ns\<rparr>\<rparr>;
          (d, lp') = codes_local_latency lp;
          exp = (if next_available_time ns > now then next_available_time ns else now)
                  + (nic_seq_delay (bs_params ns) + me_lat env d);
          rest = (if rsz > 0 then drop (nat rsz) (wm_data m) else wm_data m) in
      bind_res (if rsz > 0 then memcpy (Some (wm_data m)) rsz else Inr []) (\<lambda>re.
      bind_res (if lsz > 0 then memcpy (Some rest) lsz else Inr []) (\<lambda>le.
        let m_new = m1\<lparr>wm_base := (wm_base m1)\<lparr>isQueueReq := 0\<rparr>, wm_data := re @ le\<rparr> in
        Inr (ns\<lparr>next_available_time := exp\<rparr>, m1, lp',
             [\<lparr>ev_to = gid lp, ev_delay = exp - now, ev_body = BaseMsg m_new\<rparr>]))))"

text \<open>The send queue of a message, by the offset of its sender within the node.\<close>

definition choose_queue ::
    "config_lpgroups \<Rightarrow> 'sub model_net_base_state \<Rightarrow> node_cache \<Rightarrow> model_net_base_msg \<Rightarrow> int result" where
  "choose_queue c ns cache bm =
     (if is_from_remote bm = 0 \<and> num_queues (bs_params ns) \<noteq> 1
      then bind_res (codes_mapping_get_lp_info2 c (src_lp (bm_req bm))) (\<lambda>i.
           bind_res (div_res (inf_offset i) (servers_per_node cache)) (\<lambda>a.
             if num_queues (bs_params ns) = 0 then Inl DivByZero
             else Inr (c_mod a (num_queues (bs_params ns)))))
      else Inr 0)"

text \<open>The fields that this LP fills in.\<close>

definition stamp_req ::
    "tw_stime \<Rightarrow> 'sub model_net_base_state \<Rightarrow> int \<Rightarrow> model_net_request \<Rightarrow> model_net_request" where
  "stamp_req now ns q r =
     r\<lparr>msg_new_mn_event := now, packet_size := bp_packet_size (bs_params ns), msg_id := bs_msg_id ns,
       queue_offset := q\<rparr>"

definition new_msg_schedule ::
    "mn_env \<Rightarrow> mn_globals \<Rightarrow> (tw_lp, tw_stime) model_net_method \<Rightarrow> 'sub model_net_base_state \<Rightarrow>
     node_cache \<Rightarrow> tw_bf \<Rightarrow> model_net_wrap_msg \<Rightarrow> tw_lp \<Rightarrow>
     ('sub model_net_base_state \<times> tw_bf \<times> model_net_wrap_msg \<times> tw_lp \<times> mn_event list) result" where
  "new_msg_schedule env g mt ns cache b m lp =
     bind_res (choose_queue (me_conf env) ns cache (wm_base m)) (\<lambda>q.
     let bm = wm_base m; remote = is_from_remote bm;
         r = stamp_req (me_now env) ns q (bm_req bm);
         rsz = remote_event_size r; lsz = self_event_size r;
         re = (if rsz > 0 then Some (wm_data m) else None);
         le = (if lsz > 0 then Some (if rsz > 0 then drop (nat rsz) (wm_data m) else wm_data m) else None);
         ns1 = ns\<lparr>bs_msg_id := bs_msg_id ns + 1\<rparr>; b1 = b\<lparr>c30 := True\<rparr> in
     bind_res (the_sched ns1 remote q) (\<lambda>ss.
     bind_res (the_loop ns1 remote q) (\<lambda>loop.
     bind_res (model_net_sched_add r (bm_prio bm) rsz re lsz le ss (bm_rc bm)) (\<lambda>(ss', rc').
       let ns2 = put_sched ns1 remote q ss';
           m1 = m\<lparr>wm_base := bm\<lparr>bm_req := r, bm_rc := rc'\<rparr>\<rparr> in
       if loop = 0
       then bind_res (handle_sched_next env g mt (put_loop ns2 remote q 1) (b1\<lparr>c31 := True\<rparr>) m1 lp)
              (\<lambda>(ns3, b3, m3, lp3, outs).
              bind_res (the_loop ns3 remote q) (\<lambda>l.
              bind_res (c_assert (l \<noteq> 0)) (\<lambda>_. Inr (ns3, b3, m3, lp3, outs))))
       else Inr (ns2, b1, m1, lp, [])))))"

definition handle_new_msg ::
    "mn_env \<Rightarrow> mn_globals \<Rightarrow> (tw_lp, tw_stime) model_net_method \<Rightarrow> 'sub model_net_base_state \<Rightarrow>
     node_cache \<Rightarrow> tw_bf \<Rightarrow> model_net_wrap_msg \<Rightarrow> tw_lp \<Rightarrow>
     ('sub model_net_base_state \<times> node_cache \<times> tw_bf \<times> model_net_wrap_msg \<times> tw_lp \<times> mn_event list) result" where
  "handle_new_msg env g mt ns cache0 b m lp =
     bind_res (fill_cache (me_conf env) ns (src_lp (bm_req (wm_base m))) cache0) (\<lambda>cache.
       if gid lp = dest_mn_lp (bm_req (wm_base m))
       then bind_res (new_msg_local env g ns cache m lp) (\<lambda>(ns', m', lp', outs).
              Inr (ns', cache, b, m', lp', outs))
       else if isQueueReq (wm_base m) \<noteq> 0
       then bind_res (new_msg_queue_req env ns m lp) (\<lambda>(ns', m', lp', outs).
              Inr (ns', cache, b, m', lp', outs))
       else bind_res (new_msg_schedule env g mt ns cache b m lp) (\<lambda>(ns', b', m', lp', outs).
              Inr (ns', cache, b', m', lp', outs)))"

definition handle_new_msg_rc ::
    "config_lpgroups \<Rightarrow> (tw_lp, tw_stime) model_net_method \<Rightarrow> 'sub model_net_base_state \<Rightarrow> node_cache \<Rightarrow>
     tw_bf \<Rightarrow> model_net_wrap_msg \<Rightarrow> tw_lp \<Rightarrow> ('sub model_net_base_state \<times> tw_lp) result" where
  "handle_new_msg_rc c mt ns cache b m lp =
     (let r = bm_req (wm_base m); remote = is_from_remote (wm_base m); q = queue_offset r in
      if gid lp = dest_mn_lp r
      then bind_res (copy_queue c ns cache (src_lp r)) (\<lambda>queue.
           bind_res (wr (node_copy_next_available_time ns) queue (save_ts (wm_base m))) (\<lambda>ts.
             Inr (ns\<lparr>node_copy_next_available_time := ts\<rparr>, codes_local_latency_reverse lp)))
      else if isQueueReq (wm_base m) \<noteq> 0
      then Inr (ns\<lparr>next_available_time := save_ts (wm_base m)\<rparr>, codes_local_latency_reverse lp)
      else
        bind_res (if c31 b
                  then bind_res (handle_sched_next_rc mt ns b m lp) (\<lambda>(ns1, lp1).
                         Inr (put_loop ns1 remote q 0, lp1))
                  else Inr (ns, lp)) (\<lambda>(ns1, lp1).
        bind_res (the_sched ns1 remote q) (\<lambda>ss.
        bind_res (model_net_sched_add_rc ss (bm_rc (wm_base m))) (\<lambda>ss'.
          let ns2 = put_sched ns1 remote q ss' in
          Inr (if c30 b then ns2\<lparr>bs_msg_id := bs_msg_id ns2 - 1\<rparr> else ns2, lp1)))))"

subsection \<open>Access laws\<close>

lemma sched_access [simp]:
  assumes "the_sched ns r q = Inr x"
  shows "the_sched (put_sched ns r q s) r q = Inr s"
    and "put_sched (put_sched ns r q s) r q t = put_sched ns r q t"
    and "put_sched ns r q x = ns"
    and "the_sched (put_loop ns r q v) r q = Inr x"
    and "the_loop (put_sched ns r q s) r q = the_loop ns r q"
  using assms
  by (auto simp: the_sched_def put_sched_def the_loop_def put_loop_def result_iff split: if_splits)

lemma loop_access [simp]:
  assumes "the_loop ns r q = Inr x"
  shows "the_loop (put_loop ns r q v) r q = Inr v"
    and "put_loop (put_loop ns r q v) r q w = put_loop ns r q w"
    and "put_loop ns r q x = ns"
  using assms by (auto simp: the_loop_def put_loop_def result_iff split: if_splits)

lemma put_sched_loop: "put_sched (put_loop ns r q v) r q s = put_loop (put_sched ns r q s) r q v"
  by (simp add: put_sched_def put_loop_def)

lemma put_fields [simp]:
  "bs_net_id (put_sched ns r q s) = bs_net_id ns" "bs_net_id (put_loop ns r q v) = bs_net_id ns"
  "bs_msg_id (put_sched ns r q s) = bs_msg_id ns" "bs_msg_id (put_loop ns r q v) = bs_msg_id ns"
  by (simp_all add: put_sched_def put_loop_def)

lemma access_msg_id [simp]:
  "the_sched (ns\<lparr>bs_msg_id := i\<rparr>) r q = the_sched ns r q"
  "the_loop (ns\<lparr>bs_msg_id := i\<rparr>) r q = the_loop ns r q"
  "put_sched (ns\<lparr>bs_msg_id := i\<rparr>) r q s = (put_sched ns r q s)\<lparr>bs_msg_id := i\<rparr>"
  "put_loop (ns\<lparr>bs_msg_id := i\<rparr>) r q v = (put_loop ns r q v)\<lparr>bs_msg_id := i\<rparr>"
  by (simp_all add: the_sched_def the_loop_def put_sched_def put_loop_def)

subsection \<open>Invariant\<close>

text \<open>A scheduler whose loop is not running has nothing to send.\<close>

definition sched_idle :: "model_net_sched \<Rightarrow> bool" where
  "sched_idle sd = (case ms_dat sd of SQueue s \<Rightarrow> reqs s = []
                    | SPrio p \<Rightarrow> list_all (\<lambda>s. reqs s = []) (sub_scheds p))"

definition base_inv :: "'sub model_net_base_state \<Rightarrow> bool" where
  "base_inv ns \<longleftrightarrow> bp_packet_size (bs_params ns) \<noteq> 0 \<and>
     length (in_sched_send_loop ns) = length (sched_send ns) \<and>
     (\<forall>i < length (sched_send ns). sched_wf (sched_send ns ! i) \<and>
        (in_sched_send_loop ns ! i = 0 \<longrightarrow> sched_idle (sched_send ns ! i))) \<and>
     sched_wf (sched_recv ns) \<and> (in_sched_recv_loop ns = 0 \<longrightarrow> sched_idle (sched_recv ns))"

lemma base_inv_sched:
  assumes "base_inv ns" and "the_sched ns r q = Inr s"
  shows "sched_wf s" and "the_loop ns r q = Inr 0 \<Longrightarrow> sched_idle s"
  using assms by (auto simp: base_inv_def the_sched_def the_loop_def result_iff split: if_splits)

text \<open>After an insertion into an idle scheduler the next step has something to do and picks
  the queue of the insertion, so that it leaves the recorded priority as it is.\<close>

lemma add_then_next:
  assumes "sched_idle sd" and "model_net_sched_add req prio rsz re lsz le sd rc = Inr (sd', rc')"
    and "model_net_sched_next mt sd' save rc' lp = Inr r"
  shows "st_ret r \<noteq> -1" and "model_net_sched_add_rc sd (st_rc r) = model_net_sched_add_rc sd rc'"
    and "model_net_sched_add_rc sd2 (st_rc r) = model_net_sched_add_rc sd2 rc'"
proof -
  have "st_ret r \<noteq> -1 \<and> rc_prio (st_rc r) = rc_prio rc'"
  proof (cases "ms_dat sd")
    case (SQueue s)
    with assms(1,2) obtain q where q: "ms_dat sd' = SQueue q" "reqs q \<noteq> []" "ms_type sd' = ms_type sd"
      by (auto simp: model_net_sched_add_def fcfs_add_def result_iff Let_def)
    with assms(3) obtain r0 where r0: "sub_next (ms_type sd') mt q save rc' lp = Inr r0"
      "st_ret r = st_ret r0" "st_rc r = st_rc r0"
      by (auto simp: model_net_sched_next_def result_iff lift_step_def)
    with q(2) sub_next_prio [OF r0(1)] show ?thesis
      by (auto simp: sub_next_ret)
  next
    case (SPrio p)
    with assms(1,2) obtain p' where p': "ms_dat sd' = SPrio p'" "prio_add req prio rsz re lsz le p rc = Inr (p', rc')"
      by (auto simp: model_net_sched_add_def result_iff)
    have idle: "list_all (\<lambda>s. reqs s = []) (sub_scheds p)" using assms(1) SPrio by (simp add: sched_idle_def)
    obtain i s' where o: "i < length (sub_scheds p)" "p' = p\<lparr>sub_scheds := (sub_scheds p)[i := s']\<rparr>"
      "fcfs_add req prio rsz re lsz le (sub_scheds p ! i) = Inr s'" "rc' = rc\<lparr>rc_prio := int i\<rparr>"
      using prio_add_outcome [OF p'(2)] by blast
    then have i: "i < length (sub_scheds p)" "reqs s' \<noteq> []" "rc_prio rc' = int i"
      "p' = p\<lparr>sub_scheds := (sub_scheds p)[i := s']\<rparr>" "rc'\<lparr>rc_prio := int i\<rparr> = rc'"
      by (auto simp: fcfs_add_def result_iff Let_def)
    have fr: "first_ready (sub_scheds p') 0 = Some i"
      using i idle by (auto simp: first_ready_Some list_all_length nth_list_update)
    then obtain r0 where r0: "sub_next (sub_stype p') mt s' save rc' lp = Inr r0"
      "st_ret r = st_ret r0" "st_rc r = st_rc r0"
      using assms(3) p'(1) i by (auto simp: model_net_sched_next_def prio_next_def result_iff lift_step_def)
    with i(2) sub_next_prio [OF r0(1)] show ?thesis by (auto simp: sub_next_ret)
  qed
  then show "st_ret r \<noteq> -1" "model_net_sched_add_rc sd (st_rc r) = model_net_sched_add_rc sd rc'"
    "model_net_sched_add_rc sd2 (st_rc r) = model_net_sched_add_rc sd2 rc'"
    by (auto simp: model_net_sched_add_rc_def prio_add_rc_def split: mn_sched_dat.splits)
qed

lemma sched_next_idle:
  assumes "model_net_sched_next mt sd save rc lp = Inr r"
  shows "st_ret r = -1 \<longleftrightarrow> sched_idle sd" and "st_ret r = -1 \<Longrightarrow> st_sched r = sd"
proof -
  have sub: "sub_next t mt s save rc lp = Inr r \<Longrightarrow> st_ret r = -1 \<Longrightarrow> st_sched r = s" for t s rc r
    by (cases t) (auto simp: sub_next_def rr_next_def fcfs_next_def result_iff Let_def
        split: list.splits prod.splits if_splits)
  show "st_ret r = -1 \<longleftrightarrow> sched_idle sd"
    using assms
    by (auto simp: model_net_sched_next_def prio_next_def result_iff lift_step_def sched_idle_def
        sub_next_ret first_ready_None list_all_iff split: mn_sched_dat.splits option.splits)
      (auto simp: first_ready_Some)
  show "st_ret r = -1 \<Longrightarrow> st_sched r = sd"
    using assms
    by (auto simp: model_net_sched_next_def prio_next_def result_iff lift_step_def
        split: mn_sched_dat.splits option.splits dest: sub)
qed

lemma base_inv_put:
  assumes "base_inv ns" and "the_sched ns r q = Inr s0" and "sched_wf s"
    and "v = 0 \<Longrightarrow> sched_idle s" and "the_loop ns r q = Inr w"
  shows "base_inv (put_loop (put_sched ns r q s) r q v)"
  using assms
  by (auto simp: base_inv_def put_sched_def put_loop_def the_sched_def the_loop_def result_iff
      nth_list_update split: if_splits)

lemma base_inv_put_sched:
  assumes "base_inv ns" and "the_sched ns r q = Inr s0" and "sched_wf s"
    and "the_loop ns r q = Inr w" and "w = 0 \<Longrightarrow> sched_idle s"
  shows "base_inv (put_sched ns r q s)"
  using base_inv_put [OF assms(1-3), of w w] assms(4,5) by (simp add: assms(2))

lemma handle_sched_next_inv:
  assumes inv: "base_inv ns" and h: "handle_sched_next env g mt ns b m lp = Inr (ns', b', m', lp', outs)"
  shows "base_inv ns'"
proof -
  let ?r = "is_from_remote (wm_base m)" and ?q = "queue_offset (bm_req (wm_base m))"
  obtain ss w r where o: "the_sched ns ?r ?q = Inr ss" "the_loop ns ?r ?q = Inr w"
    "model_net_sched_next mt ss (wm_data m) (bm_rc (wm_base m)) lp = Inr r"
    using h by (auto simp: handle_sched_next_def result_iff Let_def)
  have wf: "sched_wf (st_sched r)"
    using sched_next_wf [OF base_inv_sched(1) [OF inv o(1)] o(3)] .
  have ns': "ns' = (if st_ret r = -1 then put_loop (put_sched ns ?r ?q (st_sched r)) ?r ?q 0
      else put_sched ns ?r ?q (st_sched r))"
    using h o by (auto simp: handle_sched_next_def result_iff Let_def codes_local_latency_def
        split: if_splits)
  show ?thesis
  proof (cases "st_ret r = -1")
    case True
    then have "sched_idle (st_sched r)" using sched_next_idle [OF o(3)] by simp
    then show ?thesis using ns' True base_inv_put [OF inv o(1) wf _ o(2)] by simp
  next
    case False
    then have "w \<noteq> 0" using sched_next_idle(1) [OF o(3)] base_inv_sched(2) [OF inv o(1)] o(2) by auto
    then show ?thesis using ns' False base_inv_put_sched [OF inv o(1) wf o(2)] by simp
  qed
qed

lemma base_inv_msg_id [simp]: "base_inv (ns\<lparr>bs_msg_id := i\<rparr>) = base_inv ns"
  "base_inv (ns\<lparr>node_copy_next_available_time := ts\<rparr>) = base_inv ns"
  "base_inv (ns\<lparr>next_available_time := t\<rparr>) = base_inv ns"
  by (simp_all add: base_inv_def)

lemma new_msg_schedule_outcome:
  assumes h: "new_msg_schedule env g mt ns cache b m lp = Inr (ns', b', m', lp', outs)"
  defines "rm \<equiv> is_from_remote (wm_base m)" and "rq \<equiv> \<lambda>q. stamp_req (me_now env) ns q (bm_req (wm_base m))"
  shows "\<exists>q ss w ss' rc' re le. the_sched ns rm q = Inr ss \<and> the_loop ns rm q = Inr w \<and>
    model_net_sched_add (rq q) (bm_prio (wm_base m)) (remote_event_size (rq q)) re
      (self_event_size (rq q)) le ss (bm_rc (wm_base m)) = Inr (ss', rc') \<and>
    (w \<noteq> 0 \<and> ns' = (put_sched ns rm q ss')\<lparr>bs_msg_id := bs_msg_id ns + 1\<rparr> \<and>
       b' = b\<lparr>c30 := True\<rparr> \<and> m' = m\<lparr>wm_base := (wm_base m)\<lparr>bm_req := rq q, bm_rc := rc'\<rparr>\<rparr> \<and> lp' = lp \<or>
     w = 0 \<and> handle_sched_next env g mt
        ((put_loop (put_sched ns rm q ss') rm q 1)\<lparr>bs_msg_id := bs_msg_id ns + 1\<rparr>)
        (b\<lparr>c30 := True, c31 := True\<rparr>) (m\<lparr>wm_base := (wm_base m)\<lparr>bm_req := rq q, bm_rc := rc'\<rparr>\<rparr>) lp
        = Inr (ns', b', m', lp', outs))"
proof -
  obtain q where q: "choose_queue (me_conf env) ns cache (wm_base m) = Inr q"
    using h by (auto simp: new_msg_schedule_def result_iff)
  define r where "r = stamp_req (me_now env) ns q (bm_req (wm_base m))"
  have rq: "rq q = r" by (simp add: rq_def r_def)
  define re where "re = (if remote_event_size r > 0 then Some (wm_data m) else None)"
  define le where "le = (if self_event_size r > 0 then Some (if remote_event_size r > 0
    then drop (nat (remote_event_size r)) (wm_data m) else wm_data m) else None)"
  obtain ss w where s: "the_sched ns rm q = Inr ss" "the_loop ns rm q = Inr w"
    using h q by (auto simp: new_msg_schedule_def result_iff Let_def rm_def)
  note h1 = h [unfolded new_msg_schedule_def q bind_res_simps Let_def access_msg_id,
    folded rm_def r_def, folded re_def le_def, unfolded s bind_res_simps]
  obtain ss' rc' where add: "model_net_sched_add r (bm_prio (wm_base m)) (remote_event_size r) re
      (self_event_size r) le ss (bm_rc (wm_base m)) = Inr (ss', rc')"
    using h1 by (cases "model_net_sched_add r (bm_prio (wm_base m)) (remote_event_size r) re
      (self_event_size r) le ss (bm_rc (wm_base m))") auto
  note h2 = h1 [unfolded add bind_res_simps prod.case]
  show ?thesis
    by (rule exI [of _ q], rule exI [of _ ss], rule exI [of _ w], rule exI [of _ ss'],
        rule exI [of _ rc'], rule exI [of _ re], rule exI [of _ le])
      (use h2 s add rq in \<open>auto simp: result_iff split: if_splits\<close>)
qed

lemma new_msg_schedule_inv:
  assumes inv: "base_inv ns"
    and h: "new_msg_schedule env g mt ns cache b m lp = Inr (ns', b', m', lp', outs)"
  shows "base_inv ns'"
proof -
  let ?rm = "is_from_remote (wm_base m)"
  obtain q ss w ss' rc' re le where o: "the_sched ns ?rm q = Inr ss" "the_loop ns ?rm q = Inr w"
    "model_net_sched_add (stamp_req (me_now env) ns q (bm_req (wm_base m))) (bm_prio (wm_base m))
       (remote_event_size (stamp_req (me_now env) ns q (bm_req (wm_base m)))) re
       (self_event_size (stamp_req (me_now env) ns q (bm_req (wm_base m)))) le ss (bm_rc (wm_base m))
       = Inr (ss', rc')"
    and c: "w \<noteq> 0 \<and> ns' = (put_sched ns ?rm q ss')\<lparr>bs_msg_id := bs_msg_id ns + 1\<rparr> \<or>
      w = 0 \<and> (\<exists>b1 m1. handle_sched_next env g mt
        ((put_loop (put_sched ns ?rm q ss') ?rm q 1)\<lparr>bs_msg_id := bs_msg_id ns + 1\<rparr>) b1 m1 lp
        = Inr (ns', b', m', lp', outs))"
    using new_msg_schedule_outcome [OF h] by blast
  have "packet_size (stamp_req (me_now env) ns q (bm_req (wm_base m))) \<noteq> 0"
    using inv by (simp add: stamp_req_def base_inv_def)
  then have wf: "sched_wf ss'" using sched_add_wf [OF base_inv_sched(1) [OF inv o(1)] _ o(3)] by blast
  have inv1: "base_inv ((put_loop (put_sched ns ?rm q ss') ?rm q 1)\<lparr>bs_msg_id := bs_msg_id ns + 1\<rparr>)"
    using base_inv_put [OF inv o(1) wf _ o(2), of 1] by simp
  from c show ?thesis
    using handle_sched_next_inv [OF inv1] base_inv_put_sched [OF inv o(1) wf o(2)] by auto
qed

lemma handle_new_msg_inv:
  assumes inv: "base_inv ns"
    and h: "handle_new_msg env g mt ns cache b m lp = Inr (ns', cache', b', m', lp', outs)"
  shows "base_inv ns'"
proof -
  have loc: "new_msg_local env g ns c0 m lp = Inr (ns1, m1, lp1, o1) \<Longrightarrow> base_inv ns1" for c0 ns1 m1 lp1 o1
    using inv by (auto simp: new_msg_local_def result_iff Let_def codes_local_latency_def)
  have que: "new_msg_queue_req env ns m lp = Inr (ns1, m1, lp1, o1) \<Longrightarrow> base_inv ns1" for ns1 m1 lp1 o1
    using inv by (auto simp: new_msg_queue_req_def result_iff Let_def codes_local_latency_def)
  show ?thesis
    using h loc que new_msg_schedule_inv [OF inv]
    by (auto simp: handle_new_msg_def result_iff split: if_splits)
qed

subsection \<open>Messages that are not scheduled\<close>

lemma new_msg_local_undo:
  assumes h: "new_msg_local env g ns cache m lp = Inr (ns', m', lp', outs)"
    and dest: "gid lp = dest_mn_lp (bm_req (wm_base m))"
  shows "handle_new_msg_rc (me_conf env) mt ns' cache b m' lp' = Inr (ns, lp)"
proof -
  obtain q where q: "copy_queue (me_conf env) ns cache (src_lp (bm_req (wm_base m))) = Inr q"
    "q < length (node_copy_next_available_time ns)"
    using h by (auto simp: new_msg_local_def result_iff Let_def)
  have same: "copy_queue c (ns\<lparr>node_copy_next_available_time := ts\<rparr>) cache s = copy_queue c ns cache s"
    for c ts s by (simp add: copy_queue_def)
  obtain v where o: "ns' = ns\<lparr>node_copy_next_available_time := (node_copy_next_available_time ns)[q := v]\<rparr>"
    "m' = m\<lparr>wm_base := (wm_base m)\<lparr>save_ts := node_copy_next_available_time ns ! q\<rparr>\<rparr>"
    "lp' = snd (codes_local_latency lp)"
    using h q by (auto simp: new_msg_local_def result_iff Let_def codes_local_latency_def)
  then show ?thesis
    using dest q by (simp add: handle_new_msg_rc_def Let_def same wr_def)
qed

lemma new_msg_queue_undo:
  assumes h: "new_msg_queue_req env ns m lp = Inr (ns', m', lp', outs)"
    and "gid lp \<noteq> dest_mn_lp (bm_req (wm_base m))" and "isQueueReq (wm_base m) \<noteq> 0"
  shows "handle_new_msg_rc c mt ns' cache b m' lp' = Inr (ns, lp)"
proof -
  obtain v where "ns' = ns\<lparr>next_available_time := v\<rparr>" "lp' = snd (codes_local_latency lp)"
    "m' = m\<lparr>wm_base := (wm_base m)\<lparr>save_ts := next_available_time ns\<rparr>\<rparr>"
    using h by (auto simp: new_msg_queue_req_def result_iff Let_def codes_local_latency_def)
  then show ?thesis using assms(2,3) by (simp add: handle_new_msg_rc_def Let_def)
qed

subsection \<open>Network methods that only draw\<close>

text \<open>The base LP takes its own draw after the call of the method and gives it back before
  (or after) the method gives back its draws. The contract it relies on: besides undoing
  its calls, the method's reverse functions commute with a draw, and calls keep the
  identity of the LP.\<close>

locale draw_method = reversible_method mt for mt :: "(tw_lp, tw_stime) model_net_method" +
  assumes packet_gid: "gid (snd (mn_packet_event mt c lp)) = gid lp"
    and recv_gid: "mn_recv_msg_event mt = Some f \<Longrightarrow> gid (snd (f c lp)) = gid lp"
    and packet_rc_draw: "mn_packet_event_rc mt (snd (codes_local_latency lp)) =
      snd (codes_local_latency (mn_packet_event_rc mt lp))"
    and recv_rc_draw: "mn_recv_msg_event_rc mt = Some g \<Longrightarrow>
      g (snd (codes_local_latency lp)) = snd (codes_local_latency (g lp))"
begin

lemma call_method_rc_draw:
  "call_method_rc mt s lp = Inr lp1 \<Longrightarrow>
     call_method_rc mt s (snd (codes_local_latency lp)) = Inr (snd (codes_local_latency lp1))"
  by (auto simp: call_method_rc_def packet_rc_draw recv_rc_draw split: if_splits option.splits)

lemma fcfs_next_rc_draw:
  "fcfs_next_rc mt s save rc lp = Inr (s', lp1) \<Longrightarrow>
     fcfs_next_rc mt s save rc (snd (codes_local_latency lp)) = Inr (s', snd (codes_local_latency lp1))"
  by (auto simp: fcfs_next_rc_def result_iff dest: call_method_rc_draw split: if_splits list.splits)

lemma sched_next_rc_draw:
  assumes "model_net_sched_next_rc mt sd save rc lp = Inr (sd', lp1)"
  shows "model_net_sched_next_rc mt sd save rc (snd (codes_local_latency lp)) =
    Inr (sd', snd (codes_local_latency lp1))"
proof -
  have sub: "sub_next_rc t mt s save rc lp = Inr (s', lp1) \<Longrightarrow>
      sub_next_rc t mt s save rc (snd (codes_local_latency lp)) = Inr (s', snd (codes_local_latency lp1))"
    for t s s' by (cases t) (auto simp: sub_next_rc_def rr_next_rc_def intro: fcfs_next_rc_draw)
  show ?thesis
    using assms
    by (auto simp: model_net_sched_next_rc_def prio_next_rc_def result_iff dest: sub
        split: mn_sched_dat.splits if_splits)
qed

lemma call_method_gid: "call_method mt s c lp = Inr (off, lp') \<Longrightarrow> gid lp' = gid lp"
  using packet_gid [of c lp] recv_gid by (auto simp: call_method_def split: if_splits option.splits)
    (metis snd_conv)+

lemma fcfs_next_gid: "fcfs_next mt s save rc lp = Inr r \<Longrightarrow> gid (st_lp r) = gid lp"
  by (auto simp: fcfs_next_def result_iff Let_def dest: call_method_gid
      split: list.splits prod.splits if_splits)

lemma sched_next_gid:
  assumes "model_net_sched_next mt sd save rc lp = Inr r" shows "gid (st_lp r) = gid lp"
proof -
  have sub: "sub_next t mt s save rc lp = Inr r \<Longrightarrow> gid (st_lp r) = gid lp" for t s rc r
    by (cases t) (auto simp: sub_next_def rr_next_def result_iff dest: fcfs_next_gid split: if_splits)
  show ?thesis
    using assms
    by (auto simp: model_net_sched_next_def prio_next_def result_iff lift_step_def dest: sub
        split: mn_sched_dat.splits option.splits)
qed

text \<open>One round of a scheduler loop, undone: the loop was running if the round stops it.\<close>

lemma handle_sched_next_undo:
  assumes h: "handle_sched_next env g mt ns b m lp = Inr (ns', b', m', lp', outs)"
    and ss: "the_sched ns (is_from_remote (wm_base m)) (queue_offset (bm_req (wm_base m))) = Inr ss"
    and wf: "sched_wf ss" and b: "\<not> c0 b"
    and run: "the_loop ns (is_from_remote (wm_base m)) (queue_offset (bm_req (wm_base m))) = Inr 1"
  shows "handle_sched_next_rc mt ns' b' m' lp' = Inr (ns, lp)"
proof -
  let ?r = "is_from_remote (wm_base m)" and ?q = "queue_offset (bm_req (wm_base m))"
  obtain r where r: "model_net_sched_next mt ss (wm_data m) (bm_rc (wm_base m)) lp = Inr r"
    using h ss by (auto simp: handle_sched_next_def result_iff Let_def)
  have undo: "model_net_sched_next_rc mt (st_sched r) (st_save r) (st_rc r) (st_lp r) = Inr (ss, lp)"
    by (rule sched_next_undo [OF wf r])
  note draw = sched_next_rc_draw [OF undo]
  show ?thesis
  proof (cases "st_ret r = -1")
    case True
    then show ?thesis
      using h ss run undo r b
      by (auto simp: handle_sched_next_def handle_sched_next_rc_def Let_def put_sched_loop)
  next
    case False
    then show ?thesis
      using h ss run undo draw r b
      by (auto simp: handle_sched_next_def handle_sched_next_rc_def Let_def
          codes_local_latency_def codes_local_latency_reverse_def split: if_splits)
  qed
qed

lemma handle_sched_next_outcome:
  assumes "handle_sched_next env g mt ns b m lp = Inr (ns', b', m', lp', outs)"
  shows "\<exists>ss r. the_sched ns (is_from_remote (wm_base m)) (queue_offset (bm_req (wm_base m))) = Inr ss \<and>
    model_net_sched_next mt ss (wm_data m) (bm_rc (wm_base m)) lp = Inr r \<and>
    m' = m\<lparr>wm_base := (wm_base m)\<lparr>bm_rc := st_rc r\<rparr>, wm_data := st_save r\<rparr> \<and> gid lp' = gid lp \<and>
    (st_ret r \<noteq> -1 \<longrightarrow> b' = b \<and>
       ns' = put_sched ns (is_from_remote (wm_base m)) (queue_offset (bm_req (wm_base m))) (st_sched r)) \<and>
    (st_ret r = -1 \<longrightarrow> b' = b\<lparr>c0 := True\<rparr> \<and>
       ns' = put_loop (put_sched ns (is_from_remote (wm_base m)) (queue_offset (bm_req (wm_base m)))
               (st_sched r)) (is_from_remote (wm_base m)) (queue_offset (bm_req (wm_base m))) 0)"
proof -
  obtain ss r where o: "the_sched ns (is_from_remote (wm_base m)) (queue_offset (bm_req (wm_base m))) = Inr ss"
    "model_net_sched_next mt ss (wm_data m) (bm_rc (wm_base m)) lp = Inr r"
    using assms by (auto simp: handle_sched_next_def result_iff Let_def)
  show ?thesis
    by (rule exI [of _ ss], rule exI [of _ r])
      (use assms o sched_next_gid [OF o(2)] in \<open>auto simp: handle_sched_next_def result_iff Let_def
        codes_local_latency_def split: if_splits\<close>)
qed

lemma new_msg_schedule_undo:
  assumes inv: "base_inv ns" and b: "b = bf_clear"
    and h: "new_msg_schedule env g mt ns cache b m lp = Inr (ns', b', m', lp', outs)"
    and dest: "gid lp \<noteq> dest_mn_lp (bm_req (wm_base m))" and q0: "isQueueReq (wm_base m) = 0"
  shows "handle_new_msg_rc c mt ns' cache b' m' lp' = Inr (ns, lp)"
proof -
  let ?bm = "wm_base m" and ?rm = "is_from_remote (wm_base m)"
  let ?rq = "\<lambda>q. stamp_req (me_now env) ns q (bm_req ?bm)"
  obtain q ss w ss' rc' re le where s: "the_sched ns ?rm q = Inr ss" "the_loop ns ?rm q = Inr w"
    "model_net_sched_add (?rq q) (bm_prio ?bm) (remote_event_size (?rq q)) re
       (self_event_size (?rq q)) le ss (bm_rc ?bm) = Inr (ss', rc')"
    and c: "w \<noteq> 0 \<and> ns' = (put_sched ns ?rm q ss')\<lparr>bs_msg_id := bs_msg_id ns + 1\<rparr> \<and>
       b' = b\<lparr>c30 := True\<rparr> \<and> m' = m\<lparr>wm_base := ?bm\<lparr>bm_req := ?rq q, bm_rc := rc'\<rparr>\<rparr> \<and> lp' = lp \<or>
     w = 0 \<and> handle_sched_next env g mt
        ((put_loop (put_sched ns ?rm q ss') ?rm q 1)\<lparr>bs_msg_id := bs_msg_id ns + 1\<rparr>)
        (b\<lparr>c30 := True, c31 := True\<rparr>) (m\<lparr>wm_base := ?bm\<lparr>bm_req := ?rq q, bm_rc := rc'\<rparr>\<rparr>) lp
        = Inr (ns', b', m', lp', outs)"
    using new_msg_schedule_outcome [OF h] by blast
  have pk: "packet_size (?rq q) \<noteq> 0" using inv by (simp add: stamp_req_def base_inv_def)
  have wf: "sched_wf ss" using base_inv_sched(1) [OF inv s(1)] .
  have wf': "sched_wf ss'" using sched_add_wf [OF wf pk s(3)] .
  have undo_add: "model_net_sched_add_rc ss' rc' = Inr ss" using sched_add_undo [OF wf s(3)] .
  have rq: "queue_offset (?rq q) = q" "dest_mn_lp (?rq q) = dest_mn_lp (bm_req ?bm)"
    by (simp_all add: stamp_req_def)
  from c show ?thesis
  proof (elim disjE conjE)
    assume "w \<noteq> 0" "ns' = (put_sched ns ?rm q ss')\<lparr>bs_msg_id := bs_msg_id ns + 1\<rparr>"
      "b' = b\<lparr>c30 := True\<rparr>" "m' = m\<lparr>wm_base := ?bm\<lparr>bm_req := ?rq q, bm_rc := rc'\<rparr>\<rparr>" "lp' = lp"
    then show ?thesis
      using dest q0 s undo_add b rq by (simp add: handle_new_msg_rc_def Let_def)
  next
    let ?m1 = "m\<lparr>wm_base := ?bm\<lparr>bm_req := ?rq q, bm_rc := rc'\<rparr>\<rparr>"
    let ?b1 = "b\<lparr>c30 := True, c31 := True\<rparr>"
    let ?ns2 = "(put_loop (put_sched ns ?rm q ss') ?rm q 1)\<lparr>bs_msg_id := bs_msg_id ns + 1\<rparr>"
    assume w: "w = 0" and hn: "handle_sched_next env g mt ?ns2 ?b1 ?m1 lp = Inr (ns', b', m', lp', outs)"
    have sc: "the_sched ?ns2 ?rm q = Inr ss'" "the_loop ?ns2 ?rm q = Inr 1" using s by simp_all
    obtain rr where rr: "model_net_sched_next mt ss' (wm_data ?m1) rc' lp = Inr rr"
      "m' = ?m1\<lparr>wm_base := (wm_base ?m1)\<lparr>bm_rc := st_rc rr\<rparr>, wm_data := st_save rr\<rparr>" "gid lp' = gid lp"
      "st_ret rr \<noteq> -1 \<Longrightarrow> b' = ?b1"
      using handle_sched_next_outcome [OF hn] sc rq by auto
    note nx = add_then_next [OF base_inv_sched(2) [OF inv s(1)] s(3) rr(1)]
    have b': "b' = ?b1" using rr(4) nx(1) s(2) w by simp
    have "handle_sched_next_rc mt ns' b' m' lp' = Inr (?ns2, lp)"
      by (rule handle_sched_next_undo [OF hn _ wf']) (use sc rq b in simp_all)
    then show ?thesis
      using dest q0 s undo_add b rq b' rr(2,3) nx(3) w
      by (simp add: handle_new_msg_rc_def Let_def put_sched_loop)
  qed
qed

lemma handle_new_msg_undo:
  assumes inv: "base_inv ns"
    and h: "handle_new_msg env g mt ns cache bf_clear m lp = Inr (ns', cache', b', m', lp', outs)"
  shows "handle_new_msg_rc (me_conf env) mt ns' cache' b' m' lp' = Inr (ns, lp)"
proof -
  consider (local) "gid lp = dest_mn_lp (bm_req (wm_base m))"
    | (queue) "gid lp \<noteq> dest_mn_lp (bm_req (wm_base m))" "isQueueReq (wm_base m) \<noteq> 0"
    | (sched) "gid lp \<noteq> dest_mn_lp (bm_req (wm_base m))" "isQueueReq (wm_base m) = 0" by blast
  then show ?thesis
  proof cases
    case local
    then have "new_msg_local env g ns cache' m lp = Inr (ns', m', lp', outs)"
      using h by (auto simp: handle_new_msg_def result_iff)
    from new_msg_local_undo [OF this local] show ?thesis .
  next
    case queue
    then have "new_msg_queue_req env ns m lp = Inr (ns', m', lp', outs)"
      using h by (auto simp: handle_new_msg_def result_iff)
    from new_msg_queue_undo [OF this queue] show ?thesis .
  next
    case sched
    then have "new_msg_schedule env g mt ns cache' bf_clear m lp = Inr (ns', b', m', lp', outs)"
      using h by (auto simp: handle_new_msg_def result_iff)
    from new_msg_schedule_undo [OF inv refl this sched] show ?thesis .
  qed
qed

end

interpretation snd_draw: draw_method "simplenet_method lat" for lat
  by unfold_locales (simp_all add: simplenet_method_def simplenet_packet_event_rc_def
      codes_local_latency_def codes_local_latency_reverse_def)

end
