(* ===== verification/Model_Net_Base.thy ===== *)
theory Model_Net_Base
  imports Model_Net_LP
begin

text \<open>
  The event dispatcher of the base LP of model-net and the functions that networks and
  workloads call on it, src/networks/model-net/core/model-net-lp.c: initialisation, forward,
  reverse and commit handler, sampling, idle events, messages from other devices, the end
  notification, the switch between the detailed and the surrogate network model.

  The LP type of the network is the record \<open>mn_hooks\<close> of its handlers, on its state \<open>'sub\<close>,
  its messages \<open>'msg\<close> and the messages \<open>'cc\<close> of the congestion controller; \<open>'out\<close> is what
  it sends. Entries that may be NULL are options. The globals \<open>mn_globals\<close> of model-net pass
  through the handlers, since networks send messages through model-net themselves.
\<close>

unbundle bit_operations_syntax

subsection \<open>Hooks and globals\<close>

type_synonym ('s, 'm, 'out) event_f =
  "'s \<Rightarrow> tw_bf \<Rightarrow> 'm \<Rightarrow> mn_globals \<Rightarrow> tw_lp \<Rightarrow> ('s \<times> tw_bf \<times> 'm \<times> mn_globals \<times> tw_lp \<times> 'out list) result"

type_synonym ('s, 'm) revent_f = "'s \<Rightarrow> tw_bf \<Rightarrow> 'm \<Rightarrow> tw_lp \<Rightarrow> ('s \<times> tw_lp) result"

record ('sub, 'msg, 'cc, 'out) mn_hooks =
  hk_event :: "('sub, 'msg, 'out) event_f"
  hk_revent :: "('sub, 'msg) revent_f"
  hk_commit :: "('sub \<Rightarrow> tw_bf \<Rightarrow> 'msg \<Rightarrow> tw_lp \<Rightarrow> 'sub) option"
  hk_sample :: "('sub, 'msg, 'out) event_f option"
  hk_sample_rc :: "('sub, 'msg) revent_f option"
  hk_end_notif :: "('sub, model_net_wrap_msg, 'out) event_f option"
  hk_end_notif_rc :: "('sub, model_net_wrap_msg) revent_f option"
  hk_congestion :: "('sub, 'cc, 'out) event_f option"
  hk_congestion_rc :: "('sub, 'cc) revent_f option"
  hk_congestion_commit :: "('sub \<Rightarrow> tw_bf \<Rightarrow> 'cc \<Rightarrow> tw_lp \<Rightarrow> 'sub) option"

record lp_globals =
  is_freezing_on :: bool
  mn_sample_enabled :: bool
  mn_sample_interval :: tw_stime
  mn_sample_end :: tw_stime
  g_congestion_control_enabled :: bool

text \<open>An event: the header and base part, and the parts at \<open>msg_offsets\<close> of the network and of
  the congestion controller.\<close>

record ('msg, 'cc) base_msg =
  be_wrap :: model_net_wrap_msg
  be_sub :: 'msg
  be_cc :: 'cc

datatype 'out base_out = BaseOut mn_event | NetOut 'out

abbreviation be_type :: "('msg, 'cc) base_msg \<Rightarrow> int" where
  "be_type m \<equiv> mh_event_type (wm_h (be_wrap m))"

abbreviation be_magic :: "('msg, 'cc) base_msg \<Rightarrow> int" where
  "be_magic m \<equiv> mh_magic (wm_h (be_wrap m))"

definition non_null :: "'a option \<Rightarrow> 'a result" where
  "non_null p = (case p of None \<Rightarrow> Inl NullDeref | Some f \<Rightarrow> Inr f)"

lemma non_null_Inr_iff [result_iff]: "non_null p = Inr f \<longleftrightarrow> p = Some f"
  by (cases p) (simp_all add: non_null_def)

subsection \<open>Events of the base LP\<close>

definition model_net_enable_sampling :: "tw_stime \<Rightarrow> tw_stime \<Rightarrow> lp_globals \<Rightarrow> lp_globals" where
  "model_net_enable_sampling interval end_time lg =
     lg\<lparr>mn_sample_interval := interval, mn_sample_end := end_time, mn_sample_enabled := True\<rparr>"

definition issue_sample_event :: "mn_env \<Rightarrow> mn_globals \<Rightarrow> lp_globals \<Rightarrow> tw_lp \<Rightarrow> mn_event list" where
  "issue_sample_event env g lg lp =
     (if me_now env + mn_sample_interval lg < mn_sample_end lg + 1 / 10000
      then [\<lparr>ev_to = gid lp, ev_delay = mn_sample_interval lg,
             ev_body = BaseMsg ((me_buf env)\<lparr>wm_h := msg_set_header (base_magic g) MN_BASE_SAMPLE (gid lp)\<rparr>)\<rparr>]
      else [])"

definition model_net_method_idle_event2 ::
    "mn_env \<Rightarrow> mn_globals \<Rightarrow> lp_globals \<Rightarrow> tw_stime \<Rightarrow> int \<Rightarrow> int \<Rightarrow> tw_lp \<Rightarrow> mn_event" where
  "model_net_method_idle_event2 env g lg offset_ts recv_q q lp =
     (let w = sched_next_msg g (me_buf env) (gid lp) recv_q q in
      \<lparr>ev_to = gid lp, ev_delay = offset_ts,
       ev_body = BaseMsg (w\<lparr>wm_base := (wm_base w)\<lparr>created_in_surrogate := of_bool (is_freezing_on lg)\<rparr>\<rparr>)\<rparr>)"

definition model_net_method_idle_event ::
    "mn_env \<Rightarrow> mn_globals \<Rightarrow> lp_globals \<Rightarrow> tw_stime \<Rightarrow> int \<Rightarrow> tw_lp \<Rightarrow> mn_event" where
  "model_net_method_idle_event env g lg offset_ts recv_q lp =
     model_net_method_idle_event2 env g lg offset_ts recv_q 0 lp"

text \<open>A message that arrives from another device: \<open>sched_prio\<close> is the priority of
  \<open>sched_params\<close>, none for a NULL pointer; \<open>msg_data\<close> are the bytes behind the message.\<close>

definition strncpy_category :: "string \<Rightarrow> string" where
  "strncpy_category c = take (CATEGORY_NAME_MAX - 1) c"

definition model_net_method_send_msg_recv_event ::
    "mn_env \<Rightarrow> mn_globals \<Rightarrow> int \<Rightarrow> int \<Rightarrow> int \<Rightarrow> u64 \<Rightarrow> int \<Rightarrow> u64 \<Rightarrow> int \<Rightarrow> int option \<Rightarrow> string \<Rightarrow> int \<Rightarrow>
     bytes \<Rightarrow> tw_stime \<Rightarrow> tw_lp \<Rightarrow> (tw_lp \<times> mn_event) result" where
  "model_net_method_send_msg_recv_event env g final_dest dest_mn src sz pull pull_sz rsz sched_prio
      cat netid msg_data offset sender =
     (let (d, sender') = codes_local_latency sender; base = wm_base (me_buf env);
          r = (bm_req base)\<lparr>final_dest_lp := final_dest, src_lp := src, dest_mn_lp := gid sender,
                pull_size := pull_sz, msg_size := sz, packet_size := sz, net_id := netid,
                is_pull := pull, remote_event_size := rsz, self_event_size := 0,
                category := strncpy_category cat\<rparr> in
      bind_res (if rsz > 0 then memcpy (Some msg_data) rsz else Inr []) (\<lambda>dat.
        Inr (sender', \<lparr>ev_to = dest_mn, ev_delay = offset + me_lat env d,
          ev_body = BaseMsg \<lparr>wm_h = msg_set_header (base_magic g) MN_BASE_NEW_MSG (gid sender),
            wm_base = base\<lparr>bm_req := r, is_from_remote := 1,
                           bm_prio := (case sched_prio of None \<Rightarrow> -1 | Some p \<Rightarrow> p)\<rparr>,
            wm_data = dat\<rparr>\<rparr>)))"

definition model_net_method_send_msg_recv_event_rc :: "tw_lp \<Rightarrow> tw_lp" where
  "model_net_method_send_msg_recv_event_rc sender = codes_local_latency_reverse sender"

definition model_net_method_end_sim_notification ::
    "mn_env \<Rightarrow> mn_globals \<Rightarrow> int \<Rightarrow> tw_stime \<Rightarrow> tw_lp \<Rightarrow> mn_event" where
  "model_net_method_end_sim_notification env g dest_gid offset_ts sender =
     \<lparr>ev_to = dest_gid, ev_delay = offset_ts,
      ev_body = BaseMsg ((me_buf env)\<lparr>wm_h := msg_set_header (base_magic g) MN_BASE_END_NOTIF (gid sender)\<rparr>)\<rparr>"

text \<open>The loops of \<open>model_net_method_end_sim_broadcast\<close>: every LP of every type of the
  configuration that is a network.\<close>

fun notify_lids ::
    "mn_env \<Rightarrow> mn_globals \<Rightarrow> tw_stime \<Rightarrow> tw_lp \<Rightarrow> string \<Rightarrow> nat \<Rightarrow> mn_event list result" where
  "notify_lids env g ts sender nm 0 = Inr []"
| "notify_lids env g ts sender nm (Suc n) =
     bind_res (notify_lids env g ts sender nm n) (\<lambda>evs.
     bind_res (codes_mapping_get_lpid_from_relative (me_conf env) (int n) None nm None 0) (\<lambda>lpgid.
       Inr (evs @ [model_net_method_end_sim_notification env g lpgid ts sender])))"

fun notify_types ::
    "mn_env \<Rightarrow> mn_globals \<Rightarrow> tw_stime \<Rightarrow> tw_lp \<Rightarrow> string list \<Rightarrow> mn_event list result" where
  "notify_types env g ts sender [] = Inr []"
| "notify_types env g ts sender (nm # nms) =
     bind_res (if nm \<in> set model_net_lp_config_names
               then notify_lids env g ts sender nm
                      (nat (codes_mapping_get_lp_count (me_conf env) (Some ''MODELNET_GRP'') 0 nm None 1))
               else Inr []) (\<lambda>evs.
     bind_res (notify_types env g ts sender nms) (\<lambda>evs'. Inr (evs @ evs')))"

definition model_net_method_end_sim_broadcast ::
    "mn_env \<Rightarrow> mn_globals \<Rightarrow> tw_stime \<Rightarrow> tw_lp \<Rightarrow> mn_event list result" where
  "model_net_method_end_sim_broadcast env g offset_ts sender =
     notify_types env g offset_ts sender (lp_names (me_conf env))"

definition model_net_method_congestion_event ::
    "mn_env \<Rightarrow> mn_globals \<Rightarrow> int \<Rightarrow> tw_stime \<Rightarrow> tw_lp \<Rightarrow> mn_event" where
  "model_net_method_congestion_event env g dest_gid offset_ts sender =
     \<lparr>ev_to = dest_gid, ev_delay = offset_ts,
      ev_body = BaseMsg ((me_buf env)\<lparr>wm_h := msg_set_header (base_magic g) MN_CONGESTION_EVENT (gid sender)\<rparr>)\<rparr>"

definition model_net_method_event_new ::
    "mn_env \<Rightarrow> mn_globals \<Rightarrow> int \<Rightarrow> tw_stime \<Rightarrow> tw_lp \<Rightarrow> mn_event" where
  "model_net_method_event_new env g dest_gid offset_ts sender =
     \<lparr>ev_to = dest_gid, ev_delay = offset_ts,
      ev_body = BaseMsg ((me_buf env)\<lparr>wm_h := msg_set_header (base_magic g) MN_BASE_PASS (gid sender)\<rparr>)\<rparr>"

subsection \<open>The handlers\<close>

text \<open>A \<open>sched-next\<close> event of the surrogate phase is dropped in the detailed phase.\<close>

definition stale_sched_next :: "lp_globals \<Rightarrow> ('msg, 'cc) base_msg \<Rightarrow> bool" where
  "stale_sched_next lg m \<longleftrightarrow> \<not> is_freezing_on lg \<and> be_type m = MN_BASE_SCHED_NEXT \<and>
     created_in_surrogate (wm_base (be_wrap m)) \<noteq> 0"

text \<open>The result of the forward handler: state, static variables, bit field, message, globals,
  LP, events.\<close>

type_synonym ('sub, 'msg, 'cc, 'out) base_result =
  "('sub model_net_base_state \<times> node_cache \<times> tw_bf \<times> ('msg, 'cc) base_msg \<times> mn_globals \<times> tw_lp \<times>
    'out base_out list) result"

text \<open>Running a hook on the network's state and its part of the message.\<close>

definition run_hook ::
    "('sub, 'm, 'out) event_f \<Rightarrow> ('m \<Rightarrow> ('msg, 'cc) base_msg) \<Rightarrow> 'sub model_net_base_state \<Rightarrow> node_cache \<Rightarrow>
     tw_bf \<Rightarrow> 'm \<Rightarrow> mn_globals \<Rightarrow> tw_lp \<Rightarrow> ('sub, 'msg, 'cc, 'out) base_result" where
  "run_hook f put ns cache b sub_msg g lp =
     bind_res (f (sub_state ns) b sub_msg g lp) (\<lambda>(s', b', sm', g', lp', outs).
       Inr (ns\<lparr>sub_state := s'\<rparr>, cache, b', put sm', g', lp', map NetOut outs))"

definition run_rhook ::
    "('sub, 'm) revent_f \<Rightarrow> 'sub model_net_base_state \<Rightarrow> tw_bf \<Rightarrow> 'm \<Rightarrow> tw_lp \<Rightarrow>
     ('sub model_net_base_state \<times> tw_lp) result" where
  "run_rhook f ns b sub_msg lp =
     bind_res (f (sub_state ns) b sub_msg lp) (\<lambda>(s', lp'). Inr (ns\<lparr>sub_state := s'\<rparr>, lp'))"

definition model_net_base_event ::
    "mn_env \<Rightarrow> lp_globals \<Rightarrow> ('sub, 'msg, 'cc, 'out) mn_hooks \<Rightarrow> (tw_lp, tw_stime) model_net_method \<Rightarrow>
     'sub model_net_base_state \<Rightarrow> node_cache \<Rightarrow> ('msg, 'cc) base_msg \<Rightarrow> mn_globals \<Rightarrow> tw_lp \<Rightarrow>
     ('sub, 'msg, 'cc, 'out) base_result" where
  "model_net_base_event env lg hk mt ns cache m g lp =
     (let b = bf_clear in
      bind_res (c_assert (be_magic m = base_magic g)) (\<lambda>_.
        if stale_sched_next lg m then Inr (ns, cache, b, m, g, lp, [])
        else if be_type m = MN_BASE_NEW_MSG
        then bind_res (handle_new_msg env g mt ns cache b (be_wrap m) lp)
               (\<lambda>(ns', cache', b', w', lp', outs).
                 Inr (ns', cache', b', m\<lparr>be_wrap := w'\<rparr>, g, lp', map BaseOut outs))
        else if be_type m = MN_BASE_SCHED_NEXT
        then bind_res (handle_sched_next env g mt ns b (be_wrap m) lp)
               (\<lambda>(ns', b', w', lp', outs).
                 Inr (ns', cache, b', m\<lparr>be_wrap := w'\<rparr>, g, lp', map BaseOut outs))
        else if be_type m = MN_BASE_SAMPLE
        then bind_res (c_assert (mn_sample_enabled lg \<and> hk_sample hk \<noteq> None)) (\<lambda>_.
             bind_res (run_hook (the (hk_sample hk)) (\<lambda>sm. m\<lparr>be_sub := sm\<rparr>) ns cache b (be_sub m) g lp)
               (\<lambda>(ns', cache', b', m', g', lp', outs).
                 Inr (ns', cache', b', m', g', lp',
                      outs @ map BaseOut (issue_sample_event env g lg lp'))))
        else if be_type m = MN_BASE_PASS
        then run_hook (hk_event hk) (\<lambda>sm. m\<lparr>be_sub := sm\<rparr>) ns cache b (be_sub m) g lp
        else if be_type m = MN_BASE_END_NOTIF
        then bind_res (non_null (hk_end_notif hk)) (\<lambda>f.
               run_hook f (\<lambda>w. m\<lparr>be_wrap := w\<rparr>) ns cache b (be_wrap m) g lp)
        else if be_type m = MN_CONGESTION_EVENT
        then bind_res (c_assert (g_congestion_control_enabled lg \<and> hk_congestion hk \<noteq> None)) (\<lambda>_.
               run_hook (the (hk_congestion hk)) (\<lambda>sm. m\<lparr>be_cc := sm\<rparr>) ns cache b (be_cc m) g lp)
        else Inl AssertFailed))"

definition model_net_base_event_rc ::
    "config_lpgroups \<Rightarrow> lp_globals \<Rightarrow> int \<Rightarrow> ('sub, 'msg, 'cc, 'out) mn_hooks \<Rightarrow>
     (tw_lp, tw_stime) model_net_method \<Rightarrow> 'sub model_net_base_state \<Rightarrow> node_cache \<Rightarrow> tw_bf \<Rightarrow>
     ('msg, 'cc) base_msg \<Rightarrow> tw_lp \<Rightarrow> ('sub model_net_base_state \<times> tw_lp) result" where
  "model_net_base_event_rc c lg magic hk mt ns cache b m lp =
     bind_res (c_assert (be_magic m = magic)) (\<lambda>_.
       if stale_sched_next lg m then Inr (ns, lp)
       else if be_type m = MN_BASE_NEW_MSG then handle_new_msg_rc c mt ns cache b (be_wrap m) lp
       else if be_type m = MN_BASE_SCHED_NEXT then handle_sched_next_rc mt ns b (be_wrap m) lp
       else if be_type m = MN_BASE_SAMPLE
       then bind_res (c_assert (mn_sample_enabled lg \<and> hk_sample_rc hk \<noteq> None)) (\<lambda>_.
              run_rhook (the (hk_sample_rc hk)) ns b (be_sub m) lp)
       else if be_type m = MN_BASE_PASS then run_rhook (hk_revent hk) ns b (be_sub m) lp
       else if be_type m = MN_BASE_END_NOTIF
       then bind_res (non_null (hk_end_notif_rc hk)) (\<lambda>f. run_rhook f ns b (be_wrap m) lp)
       else if be_type m = MN_CONGESTION_EVENT
       then bind_res (c_assert (g_congestion_control_enabled lg \<and> hk_congestion_rc hk \<noteq> None)) (\<lambda>_.
              run_rhook (the (hk_congestion_rc hk)) ns b (be_cc m) lp)
       else Inl AssertFailed)"

definition model_net_commit_event ::
    "('sub, 'msg, 'cc, 'out) mn_hooks \<Rightarrow> 'sub model_net_base_state \<Rightarrow> tw_bf \<Rightarrow> ('msg, 'cc) base_msg \<Rightarrow>
     tw_lp \<Rightarrow> 'sub model_net_base_state" where
  "model_net_commit_event hk ns b m lp =
     (let ns1 = (if be_type m = MN_BASE_PASS
                 then case hk_commit hk of None \<Rightarrow> ns
                      | Some f \<Rightarrow> ns\<lparr>sub_state := f (sub_state ns) b (be_sub m) lp\<rparr>
                 else ns) in
      if be_type m = MN_CONGESTION_EVENT
      then case hk_congestion_commit hk of None \<Rightarrow> ns1
           | Some f \<Rightarrow> ns1\<lparr>sub_state := f (sub_state ns1) b (be_cc m) lp\<rparr>
      else ns1)"

subsection \<open>The surrogate network\<close>

definition model_net_method_switch_to_surrogate :: "lp_globals \<Rightarrow> lp_globals" where
  "model_net_method_switch_to_surrogate lg = lg\<lparr>is_freezing_on := True\<rparr>"

definition model_net_method_switch_to_highdef :: "lp_globals \<Rightarrow> lp_globals" where
  "model_net_method_switch_to_highdef lg = lg\<lparr>is_freezing_on := False\<rparr>"

text \<open>The loops over the queues; the arrays have \<open>num_queues\<close> entries.\<close>

fun surrogate_queues ::
    "mn_env \<Rightarrow> mn_globals \<Rightarrow> lp_globals \<Rightarrow> tw_lp \<Rightarrow> nat \<Rightarrow> int list \<Rightarrow> int list \<times> mn_event list" where
  "surrogate_queues env g lg lp i [] = ([], [])"
| "surrogate_queues env g lg lp i (l # ls) =
     (let (pre, evs) = surrogate_queues env g lg lp (Suc i) ls in
      (l # pre, (if l \<noteq> 0 then [model_net_method_idle_event2 env g lg 0 0 (int i) lp] else []) @ evs))"

definition model_net_method_switch_to_surrogate_lp ::
    "mn_env \<Rightarrow> mn_globals \<Rightarrow> lp_globals \<Rightarrow> 'sub model_net_base_state \<Rightarrow> tw_lp \<Rightarrow>
     'sub model_net_base_state \<times> mn_event list" where
  "model_net_method_switch_to_surrogate_lp env g lg ns lp =
     (let (pre, evs) = surrogate_queues env g lg lp 0 (in_sched_send_loop ns) in
      (ns\<lparr>sched_loop_pre_surrogate := pre, sched_recv_loop_pre_surrogate := in_sched_recv_loop ns\<rparr>,
       evs @ (if in_sched_recv_loop ns \<noteq> 0 then [model_net_method_idle_event env g lg 0 1 lp] else [])))"

fun highdef_queues ::
    "mn_env \<Rightarrow> mn_globals \<Rightarrow> lp_globals \<Rightarrow> tw_lp \<Rightarrow> nat \<Rightarrow> int list \<Rightarrow> int list \<Rightarrow>
     (int list \<times> mn_event list) result" where
  "highdef_queues env g lg lp i [] pre = Inr ([], [])"
| "highdef_queues env g lg lp i (l # ls) [] = Inl OutOfBounds"
| "highdef_queues env g lg lp i (l # ls) (p # ps) =
     bind_res (highdef_queues env g lg lp (Suc i) ls ps) (\<lambda>(ls', evs).
       Inr ((l OR p) # ls',
            (if p = 0 \<and> l = 1 then [model_net_method_idle_event2 env g lg 0 0 (int i) lp] else []) @ evs))"

definition model_net_method_switch_to_highdef_lp ::
    "mn_env \<Rightarrow> mn_globals \<Rightarrow> lp_globals \<Rightarrow> 'sub model_net_base_state \<Rightarrow> tw_lp \<Rightarrow>
     ('sub model_net_base_state \<times> mn_event list) result" where
  "model_net_method_switch_to_highdef_lp env g lg ns lp =
     bind_res (highdef_queues env g lg lp 0 (in_sched_send_loop ns) (sched_loop_pre_surrogate ns))
       (\<lambda>(ls', evs).
         Inr (ns\<lparr>in_sched_send_loop := ls',
                 in_sched_recv_loop := in_sched_recv_loop ns OR sched_recv_loop_pre_surrogate ns\<rparr>,
              evs @ (if sched_recv_loop_pre_surrogate ns = 0 \<and> in_sched_recv_loop ns = 1
                     then [model_net_method_idle_event env g lg 0 1 lp] else [])))"

definition model_net_method_call_inner ::
    "('sub \<Rightarrow> tw_lp \<Rightarrow> 'd \<Rightarrow> 'sub) \<Rightarrow> 'sub model_net_base_state \<Rightarrow> tw_lp \<Rightarrow> 'd \<Rightarrow> 'sub model_net_base_state" where
  "model_net_method_call_inner f ns lp dat = ns\<lparr>sub_state := f (sub_state ns) lp dat\<rparr>"

definition model_net_method_msg_from_tw_event :: "('msg, 'cc) base_msg \<Rightarrow> 'msg option" where
  "model_net_method_msg_from_tw_event m =
     (if be_type m AND MN_BASE_PASS \<noteq> 0 then Some (be_sub m) else None)"

lemmas mn_event_types = MN_BASE_NEW_MSG_def MN_BASE_SCHED_NEXT_def MN_BASE_SAMPLE_def
  MN_BASE_PASS_def MN_BASE_END_NOTIF_def MN_CONGESTION_EVENT_def

subsection \<open>The invariant\<close>

lemma base_inv_sub [simp]: "base_inv (ns\<lparr>sub_state := s\<rparr>) = base_inv ns"
  by (simp add: base_inv_def)

lemma run_hook_frame:
  assumes "run_hook f put ns cache b sm g lp = Inr (ns', cache', b', m', g', lp', outs)"
  shows "\<exists>s'. ns' = ns\<lparr>sub_state := s'\<rparr>"
  using assms by (auto simp: run_hook_def result_iff)

lemma base_event_inv:
  assumes "base_inv ns"
    and "model_net_base_event env lg hk mt ns cache m g lp = Inr (ns', cache', b', m', g', lp', outs)"
  shows "base_inv ns'"
  using assms
  by (auto simp: model_net_base_event_def Let_def result_iff split: if_splits
      intro: handle_new_msg_inv handle_sched_next_inv dest: run_hook_frame)

text \<open>The handlers keep the header of the event.\<close>

lemma sched_next_header:
  assumes "handle_sched_next env g mt ns b w lp = Inr (ns', b', w', lp', o')"
  shows "wm_h w' = wm_h w \<and> created_in_surrogate (wm_base w') = created_in_surrogate (wm_base w)"
  using assms by (auto simp: handle_sched_next_def Let_def result_iff codes_local_latency_def
      split: if_splits)

lemma new_msg_header:
  assumes "handle_new_msg env g mt ns cache b w lp = Inr (ns', cache', b', w', lp', o')"
  shows "wm_h w' = wm_h w"
proof -
  have sch: "wm_h m' = wm_h w" if "new_msg_schedule env g mt ns c b w lp = Inr (n1, b1, m', l1, o1)" for c n1 b1 m' l1 o1
    using new_msg_schedule_outcome [OF that] by (auto dest!: sched_next_header)
  have loc: "wm_h m' = wm_h w" if "new_msg_local env g ns c w lp = Inr (n1, m', l1, o1)" for c n1 m' l1 o1
    using that by (auto simp: new_msg_local_def result_iff Let_def codes_local_latency_def)
  have que: "wm_h m' = wm_h w" if "new_msg_queue_req env ns w lp = Inr (n1, m', l1, o1)" for n1 m' l1 o1
    using that by (auto simp: new_msg_queue_req_def result_iff Let_def codes_local_latency_def)
  show ?thesis
    using assms by (auto simp: handle_new_msg_def result_iff dest: sch loc que split: if_splits)
qed

subsection \<open>Reversal\<close>

text \<open>What a network promises of its handlers: the reverse handler gives back the LP and a
  state that is as good as the one before. \<open>R s t\<close> says that \<open>t\<close> may stand for \<open>s\<close>
  (networks leave some statistics behind).\<close>

definition undoes :: "('s \<Rightarrow> 's \<Rightarrow> bool) \<Rightarrow> ('s, 'm, 'out) event_f \<Rightarrow> ('s, 'm) revent_f \<Rightarrow> bool" where
  "undoes R f rf \<longleftrightarrow> (\<forall>s m g lp s' b' m' g' lp' outs.
     f s bf_clear m g lp = Inr (s', b', m', g', lp', outs) \<longrightarrow>
     (\<exists>t. rf s' b' m' lp' = Inr (t, lp) \<and> R s t))"

lemma undoesD:
  "undoes R f rf \<Longrightarrow> f s bf_clear m g lp = Inr (s', b', m', g', lp', outs) \<Longrightarrow>
     \<exists>t. rf s' b' m' lp' = Inr (t, lp) \<and> R s t"
  unfolding undoes_def by blast

text \<open>The contract of a reversible LP type, on which the base LP relies: the scheduler's calls
  are reversible, and so is each handler that is present.\<close>

locale reversible_network = draw_method mt for mt :: "(tw_lp, tw_stime) model_net_method" +
  fixes hk :: "('sub, 'msg, 'cc, 'out) mn_hooks" and R :: "'sub \<Rightarrow> 'sub \<Rightarrow> bool"
  assumes refl_R: "R s s"
    and event_undo: "undoes R (hk_event hk) (hk_revent hk)"
    and sample_undo: "hk_sample hk = Some f \<Longrightarrow> \<exists>rf. hk_sample_rc hk = Some rf \<and> undoes R f rf"
    and end_undo: "hk_end_notif hk = Some f2 \<Longrightarrow> \<exists>rf. hk_end_notif_rc hk = Some rf \<and> undoes R f2 rf"
    and congestion_undo:
      "hk_congestion hk = Some f3 \<Longrightarrow> \<exists>rf. hk_congestion_rc hk = Some rf \<and> undoes R f3 rf"
    and end_header: "hk_end_notif hk = Some f2 \<Longrightarrow> f2 s b w g lp = Inr (s', b', w', g', lp', outs) \<Longrightarrow>
      wm_h w' = wm_h w"
begin

lemma run_hook_undo:
  assumes "undoes R f rf"
    and "run_hook f put ns cache bf_clear sm g lp = Inr (ns', cache', b', m', g', lp', outs)"
  shows "\<exists>t sm'. m' = put sm' \<and> run_rhook rf ns' b' sm' lp' = Inr (ns\<lparr>sub_state := t\<rparr>, lp) \<and>
    R (sub_state ns) t"
proof -
  obtain s' sm' o' where h: "f (sub_state ns) bf_clear sm g lp = Inr (s', b', sm', g', lp', o')"
    "ns' = ns\<lparr>sub_state := s'\<rparr>" "m' = put sm'"
    using assms(2) by (auto simp: run_hook_def result_iff)
  obtain t where "rf s' b' sm' lp' = Inr (t, lp)" "R (sub_state ns) t"
    using undoesD [OF assms(1) h(1)] by blast
  then show ?thesis
    by (intro exI [of _ t] exI [of _ sm']) (simp add: run_rhook_def h)
qed

lemma base_messages_undo:
  assumes inv: "base_inv ns"
    and h: "model_net_base_event env lg hk mt ns cache m g lp = Inr (ns', cache', b', m', g', lp', outs)"
    and fresh: "\<not> stale_sched_next lg m"
    and ty: "be_type m = MN_BASE_NEW_MSG \<or> be_type m = MN_BASE_SCHED_NEXT"
    and run: "be_type m = MN_BASE_SCHED_NEXT \<Longrightarrow>
      the_loop ns (is_from_remote (wm_base (be_wrap m))) (queue_offset (bm_req (wm_base (be_wrap m)))) = Inr 1"
  shows "\<exists>t. model_net_base_event_rc (me_conf env) lg (base_magic g) hk mt ns' cache' b' m' lp' =
    Inr (ns\<lparr>sub_state := t\<rparr>, lp) \<and> R (sub_state ns) t"
proof -
  have magic: "be_magic m = base_magic g"
    using h by (simp add: model_net_base_event_def Let_def result_iff)
  note ev = h [unfolded model_net_base_event_def Let_def magic, simplified]
  note rc = model_net_base_event_rc_def stale_sched_next_def mn_event_types
  let ?w = "be_wrap m"
  from ty consider (new) "be_type m = MN_BASE_NEW_MSG" | (next_round) "be_type m = MN_BASE_SCHED_NEXT"
    by blast
  then show ?thesis
  proof cases
    case new
    then obtain w' o' where n: "handle_new_msg env g mt ns cache bf_clear ?w lp = Inr (ns', cache', b', w', lp', o')"
      "m' = m\<lparr>be_wrap := w'\<rparr>" using ev fresh by (auto simp: mn_event_types result_iff)
    then show ?thesis
      using handle_new_msg_undo [OF inv n(1)] new_msg_header [OF n(1)] magic new refl_R
      by (intro exI [of _ "sub_state ns"]) (simp add: rc)
  next
    case next_round
    then obtain w' o' where n: "handle_sched_next env g mt ns bf_clear ?w lp = Inr (ns', b', w', lp', o')"
      "m' = m\<lparr>be_wrap := w'\<rparr>" using ev fresh by (auto simp: mn_event_types result_iff)
    obtain ss where ss: "the_sched ns (is_from_remote (wm_base ?w)) (queue_offset (bm_req (wm_base ?w))) = Inr ss"
      using n(1) by (auto simp: handle_sched_next_def result_iff Let_def)
    show ?thesis
      using handle_sched_next_undo [OF n(1) ss base_inv_sched(1) [OF inv ss] _ run [OF next_round]]
        sched_next_header [OF n(1)] magic next_round refl_R fresh n(2)
      by (intro exI [of _ "sub_state ns"]) (auto simp: rc)
  qed
qed

lemma base_hooks_undo:
  assumes h: "model_net_base_event env lg hk mt ns cache m g lp = Inr (ns', cache', b', m', g', lp', outs)"
    and fresh: "\<not> stale_sched_next lg m"
    and ty: "be_type m \<noteq> MN_BASE_NEW_MSG" "be_type m \<noteq> MN_BASE_SCHED_NEXT"
  shows "\<exists>t. model_net_base_event_rc (me_conf env) lg (base_magic g) hk mt ns' cache' b' m' lp' =
    Inr (ns\<lparr>sub_state := t\<rparr>, lp) \<and> R (sub_state ns) t"
proof -
  have magic: "be_magic m = base_magic g"
    using h by (simp add: model_net_base_event_def Let_def result_iff)
  note ev = h [unfolded model_net_base_event_def Let_def magic, simplified]
  note rc = model_net_base_event_rc_def stale_sched_next_def mn_event_types
  let ?w = "be_wrap m"
  consider (sample) "be_type m = MN_BASE_SAMPLE" | (pass) "be_type m = MN_BASE_PASS"
    | (fin) "be_type m = MN_BASE_END_NOTIF" | (congestion) "be_type m = MN_CONGESTION_EVENT"
    using ev fresh ty by (auto split: if_splits)
  then show ?thesis
  proof cases
    case sample
    then obtain f c1 n1 o1 where n: "hk_sample hk = Some f" "mn_sample_enabled lg"
      "run_hook f (\<lambda>sm. m\<lparr>be_sub := sm\<rparr>) ns cache bf_clear (be_sub m) g lp = Inr (ns', c1, b', m', g', lp', o1)"
      using ev fresh by (auto simp: mn_event_types result_iff)
    obtain rf where rf: "hk_sample_rc hk = Some rf" "undoes R f rf" using sample_undo [OF n(1)] by blast
    obtain t sm' where "m' = m\<lparr>be_sub := sm'\<rparr>" "R (sub_state ns) t"
      "run_rhook rf ns' b' sm' lp' = Inr (ns\<lparr>sub_state := t\<rparr>, lp)"
      using run_hook_undo [OF rf(2) n(3)] by blast
    then show ?thesis
      using rf(1) n(2) magic sample by (intro exI [of _ t]) (simp add: rc)
  next
    case pass
    then have "run_hook (hk_event hk) (\<lambda>sm. m\<lparr>be_sub := sm\<rparr>) ns cache bf_clear (be_sub m) g lp
        = Inr (ns', cache', b', m', g', lp', outs)" using ev fresh by (simp add: mn_event_types)
    from run_hook_undo [OF event_undo this] obtain t sm' where "m' = m\<lparr>be_sub := sm'\<rparr>"
      "R (sub_state ns) t" "run_rhook (hk_revent hk) ns' b' sm' lp' = Inr (ns\<lparr>sub_state := t\<rparr>, lp)" by blast
    then show ?thesis using magic pass by (intro exI [of _ t]) (simp add: rc)
  next
    case fin
    then obtain f where n: "hk_end_notif hk = Some f"
      "run_hook f (\<lambda>w. m\<lparr>be_wrap := w\<rparr>) ns cache bf_clear ?w g lp = Inr (ns', cache', b', m', g', lp', outs)"
      using ev fresh by (auto simp: mn_event_types result_iff)
    obtain rf where rf: "hk_end_notif_rc hk = Some rf" "undoes R f rf" using end_undo [OF n(1)] by blast
    have "wm_h (be_wrap m') = wm_h ?w"
      using n(2) end_header [OF n(1)] by (auto simp: run_hook_def result_iff)
    moreover obtain t w' where "m' = m\<lparr>be_wrap := w'\<rparr>" "R (sub_state ns) t"
      "run_rhook rf ns' b' w' lp' = Inr (ns\<lparr>sub_state := t\<rparr>, lp)"
      using run_hook_undo [OF rf(2) n(2)] by blast
    ultimately show ?thesis
      using rf(1) magic fin by (intro exI [of _ t]) (simp add: rc non_null_def)
  next
    case congestion
    then obtain f where n: "hk_congestion hk = Some f" "g_congestion_control_enabled lg"
      "run_hook f (\<lambda>sm. m\<lparr>be_cc := sm\<rparr>) ns cache bf_clear (be_cc m) g lp = Inr (ns', cache', b', m', g', lp', outs)"
      using ev fresh by (auto simp: mn_event_types result_iff)
    obtain rf where rf: "hk_congestion_rc hk = Some rf" "undoes R f rf"
      using congestion_undo [OF n(1)] by blast
    obtain t sm' where "m' = m\<lparr>be_cc := sm'\<rparr>" "R (sub_state ns) t"
      "run_rhook rf ns' b' sm' lp' = Inr (ns\<lparr>sub_state := t\<rparr>, lp)"
      using run_hook_undo [OF rf(2) n(3)] by blast
    then show ?thesis
      using rf(1) n(2) magic congestion by (intro exI [of _ t]) (simp add: rc)
  qed
qed

lemma base_event_undo:
  assumes inv: "base_inv ns"
    and h: "model_net_base_event env lg hk mt ns cache m g lp = Inr (ns', cache', b', m', g', lp', outs)"
    and run: "be_type m = MN_BASE_SCHED_NEXT \<Longrightarrow> \<not> stale_sched_next lg m \<Longrightarrow>
      the_loop ns (is_from_remote (wm_base (be_wrap m))) (queue_offset (bm_req (wm_base (be_wrap m)))) = Inr 1"
  shows "\<exists>t. model_net_base_event_rc (me_conf env) lg (base_magic g) hk mt ns' cache' b' m' lp' =
    Inr (ns\<lparr>sub_state := t\<rparr>, lp) \<and> R (sub_state ns) t"
proof (cases "stale_sched_next lg m")
  case True
  then show ?thesis using h refl_R
    by (intro exI [of _ "sub_state ns"])
      (auto simp: model_net_base_event_def model_net_base_event_rc_def Let_def result_iff)
next
  case False
  then show ?thesis
    using base_messages_undo [OF inv h False _ run] base_hooks_undo [OF h False] by blast
qed

end

subsection \<open>Simplenet as the network\<close>

text \<open>Simplenet's entry: forward and reverse handler, nothing else. The message is the structure
  with the bytes behind it.\<close>

definition simplenet_hooks ::
    "int \<Rightarrow> int \<Rightarrow> mn_env \<Rightarrow> (sn_state, sn_message \<times> bytes, unit, sn_out) mn_hooks" where
  "simplenet_hooks sn_magic wrap_size env =
     \<lparr>hk_event = (\<lambda>s b m g lp. bind_res (sn_event sn_magic wrap_size env g s (fst m) (snd m) lp)
        (\<lambda>(s', m', g', lp', outs). Inr (s', b, (m', snd m), g', lp', outs))),
      hk_revent = (\<lambda>s b m lp. sn_rev_event sn_magic s (fst m) lp),
      hk_commit = None, hk_sample = None, hk_sample_rc = None, hk_end_notif = None,
      hk_end_notif_rc = None, hk_congestion = None, hk_congestion_rc = None, hk_congestion_commit = None\<rparr>"

text \<open>What simplenet leaves behind: entries of the statistics may have got their category name
  and a larger maximal event size.\<close>

definition same_but_stats :: "sn_state \<Rightarrow> sn_state \<Rightarrow> bool" where
  "same_but_stats s t \<longleftrightarrow> t = s \<or> (\<exists>i cat esz. t = stats_touched s i cat esz)"

interpretation snet: reversible_network "simplenet_method (me_lat env)"
    "simplenet_hooks sn_magic wrap_size env" same_but_stats for env sn_magic wrap_size
proof
  show "undoes same_but_stats (hk_event (simplenet_hooks sn_magic wrap_size env))
      (hk_revent (simplenet_hooks sn_magic wrap_size env))"
    by (auto simp: undoes_def simplenet_hooks_def result_iff same_but_stats_def
        dest!: sn_events_undo)
qed (simp_all add: simplenet_hooks_def same_but_stats_def)

subsection \<open>Switching to the surrogate and back\<close>

lemma surrogate_queues_result:
  "surrogate_queues env g lg lp i ls =
     (ls, map (\<lambda>k. model_net_method_idle_event2 env g lg 0 0 (int (i + k)) lp)
            (filter (\<lambda>k. ls ! k \<noteq> 0) [0..<length ls]))"
proof (induction ls arbitrary: i)
  case (Cons l ls)
  have "[0..<length (l # ls)] = 0 # map Suc [0..<length ls]"
    by (simp add: upt_conv_Cons map_Suc_upt del: upt_Suc)
  then show ?case using Cons by (simp add: filter_map o_def add.assoc add.left_commute)
qed simp

lemma highdef_queues_same: "highdef_queues env g lg lp i ls ls = Inr (ls, [])"
  by (induction ls arbitrary: i) auto

lemma sched_next_msg_fields [simp]:
  "wm_h (sched_next_msg g buf self remote q) = msg_set_header (base_magic g) MN_BASE_SCHED_NEXT self"
  by (simp add: sched_next_msg_def)

subsection \<open>Properties\<close>


definition ex_base_state :: "sn_state model_net_base_state" where
  "ex_base_state = \<lparr>bs_net_id = SIMPLENET, nics_per_router = 1, in_sched_send_loop = [0],
     in_sched_recv_loop = 0, bs_msg_id = 7,
     sched_send = [model_net_sched_init MN_SCHED_FCFS 0 MN_SCHED_FCFS 0],
     sched_recv = model_net_sched_init MN_SCHED_FCFS 0 MN_SCHED_FCFS 1,
     bs_params = \<lparr>bp_sched_type = MN_SCHED_FCFS, bp_num_prios = 0, bp_sub_stype = MN_SCHED_FCFS,
       bp_packet_size = 512, num_queues = 1, nic_seq_delay = 10, node_copy_queues = 1\<rparr>,
     sub_state = ex_sn_state, next_available_time = 0, node_copy_next_available_time = [0],
     sched_loop_pre_surrogate = [0], sched_recv_loop_pre_surrogate = 0\<rparr>"

definition ex_lp_globals :: lp_globals where
  "ex_lp_globals = \<lparr>is_freezing_on = False, mn_sample_enabled = False, mn_sample_interval = 0,
     mn_sample_end = 0, g_congestion_control_enabled = False\<rparr>"

definition ex_new_msg :: "(sn_message \<times> bytes, unit) base_msg" where
  "ex_new_msg = \<lparr>be_wrap = ex_wrap\<lparr>wm_h := msg_set_header 11 MN_BASE_NEW_MSG 0, wm_data := [1, 2]\<rparr>,
     be_sub = (ex_sn_msg, []), be_cc = ()\<rparr>"

definition ex_cache :: node_cache where
  "ex_cache = \<lparr>num_servers = 2, servers_per_node = 2, servers_per_node_queue = 2\<rparr>"

lemma ex_base_inv: "base_inv ex_base_state"
  by (simp add: base_inv_def ex_base_state_def model_net_sched_init_def sched_wf_def sched_idle_def
      queue_wf_def fcfs_init_def)

lemma ex_base_event:
  "\<exists>ns' b' m' g' lp'. model_net_base_event ex_env ex_lp_globals (simplenet_hooks 5 400 ex_env)
      (simplenet_method (me_lat ex_env)) ex_base_state ex_cache ex_new_msg ex_glob ex_mlp =
    Inr (ns', ex_cache, b', m', g', lp', []) \<and> in_sched_send_loop ns' = [1] \<and> c31 b'"
  by (simp add: model_net_base_event_def ex_new_msg_def msg_set_header_def ex_glob_def
      stale_sched_next_def mn_event_types ex_lp_globals_def handle_new_msg_def fill_cache_def
      ex_cache_def ex_wrap_def ex_request_def ex_mlp_def new_msg_schedule_def choose_queue_def
      ex_base_state_def Let_def the_sched_def the_loop_def rd_def model_net_sched_init_def
      fcfs_init_def model_net_sched_add_def fcfs_add_def stamp_req_def copy_event_def memcpy_def
      put_sched_def put_loop_def handle_sched_next_def model_net_sched_next_def sub_next_def
      fcfs_next_def next_packet_def packet_call_def call_method_def simplenet_method_def
      codes_local_latency_def lift_step_def SIMPLENET_def SIMPLEP2P_def TORUS_def ex_rc_def)


text \<open>Every event keeps the queues of the base LP well-formed and a queue whose scheduler loop is not
  running empty, whatever the network does. (That a queue that is not empty is served needs the rounds
  in flight as well: theory \<open>Sched_Rounds\<close>.)\<close>
theorem base_event_keeps_inv:
  assumes "base_inv ns"
    and "model_net_base_event env lg hk mt ns cache m g lp = Inr (ns', cache', b', m', g', lp', outs)"
  shows "base_inv ns'"
  using assms by (rule base_event_inv)

theorem base_event_keeps_inv_witness:
  "\<exists>ns' b' m' g' lp'. model_net_base_event ex_env ex_lp_globals (simplenet_hooks 5 400 ex_env)
      (simplenet_method (me_lat ex_env)) ex_base_state ex_cache ex_new_msg ex_glob ex_mlp =
    Inr (ns', ex_cache, b', m', g', lp', []) \<and> base_inv ns'"
proof -
  obtain ns' b' m' g' lp' where h: "model_net_base_event ex_env ex_lp_globals (simplenet_hooks 5 400 ex_env)
      (simplenet_method (me_lat ex_env)) ex_base_state ex_cache ex_new_msg ex_glob ex_mlp =
    Inr (ns', ex_cache, b', m', g', lp', [])" using ex_base_event by blast
  with base_event_keeps_inv [OF ex_base_inv h] show ?thesis by blast
qed

text \<open>switching an LP to the surrogate sends one idle event for each running scheduler loop
  and changes no loop flag; switching back with no event in between sends nothing and
  changes nothing. An idle event that was created while the surrogate was active is dropped
  by the detailed model: its handler changes nothing and sends nothing.\<close>
theorem surrogate_switch:
  "(let (ns1, evs) = model_net_method_switch_to_surrogate_lp env g lg ns lp in
      in_sched_send_loop ns1 = in_sched_send_loop ns \<and> in_sched_recv_loop ns1 = in_sched_recv_loop ns \<and>
      length evs = length (filter (\<lambda>l. l \<noteq> 0) (in_sched_send_loop ns @ [in_sched_recv_loop ns])) \<and>
      model_net_method_switch_to_highdef_lp env g lg' ns1 lp = Inr (ns1, [])) \<and>
   (case ev_body (model_net_method_idle_event2 env g (model_net_method_switch_to_surrogate lg) t recv_q q lp)
    of BaseMsg w \<Rightarrow>
         model_net_base_event env' (model_net_method_switch_to_highdef lg') hk mt ns cache
           \<lparr>be_wrap = w, be_sub = sm, be_cc = cc\<rparr> g lp =
         Inr (ns, cache, bf_clear, \<lparr>be_wrap = w, be_sub = sm, be_cc = cc\<rparr>, g, lp, [])
     | UserMsg u \<Rightarrow> False)"
proof -
  have "length (filter (\<lambda>k. ls ! k \<noteq> 0) [0..<length ls]) = length (filter (\<lambda>l. l \<noteq> 0) ls)"
    for ls :: "int list"
    by (metis (no_types, lifting) filter_map length_map map_nth o_def filter_cong)
  then show ?thesis
    by (auto simp: model_net_method_switch_to_surrogate_lp_def model_net_method_switch_to_highdef_lp_def
        surrogate_queues_result highdef_queues_same model_net_base_event_def stale_sched_next_def
        model_net_method_idle_event2_def model_net_method_switch_to_surrogate_def
        model_net_method_switch_to_highdef_def msg_set_header_def Let_def)
qed

end
