(* ===== verification/Sched_Rounds.thy ===== *)
theory Sched_Rounds
  imports Model_Net_Base "HOL-Library.Multiset"
begin

text \<open>
  The scheduler loop of the base LP of model-net (src/networks/model-net/core/model-net-lp.c) over
  whole executions. For simplep2p and torus the loop drives itself: a round that finds a packet
  sends the event of the next round, and a round that finds the queue empty clears the flag of the
  loop. The theory follows a device together with its rounds in flight, the \<open>MN_BASE_SCHED_NEXT\<close>
  events that it has sent to itself and not yet handled, and shows that a queue with something to
  send always has exactly one of them.
\<close>

subsection \<open>Rounds in flight\<close>

definition is_round :: "model_net_wrap_msg \<Rightarrow> bool" where
  "is_round w \<longleftrightarrow> mh_event_type (wm_h w) = MN_BASE_SCHED_NEXT"

text \<open>The queue that a pair of \<open>is_from_remote\<close> and \<open>queue_offset\<close> names: there is one receive
  queue.\<close>

definition queue_key :: "int \<Rightarrow> int \<Rightarrow> bool \<times> int" where
  "queue_key remote q = (remote \<noteq> 0, if remote \<noteq> 0 then 0 else q)"

definition round_queue :: "model_net_wrap_msg \<Rightarrow> bool \<times> int" where
  "round_queue w = queue_key (is_from_remote (wm_base w)) (queue_offset (bm_req (wm_base w)))"

text \<open>The rounds among the events that a handler sends to its own LP.\<close>

fun rounds_sent :: "tw_lp \<Rightarrow> 'out base_out list \<Rightarrow> model_net_wrap_msg multiset" where
  "rounds_sent lp [] = {#}"
| "rounds_sent lp (NetOut x # os) = rounds_sent lp os"
| "rounds_sent lp (BaseOut e # os) =
     (case ev_body e of
        BaseMsg w \<Rightarrow> (if ev_to e = gid lp \<and> is_round w then {#w#} else {#})
      | UserMsg u \<Rightarrow> {#}) + rounds_sent lp os"

definition rounds_in :: "tw_lp \<Rightarrow> mn_event list \<Rightarrow> model_net_wrap_msg multiset" where
  "rounds_in lp es = rounds_sent lp (map BaseOut es :: unit base_out list)"

definition rounds_of :: "bool \<times> int \<Rightarrow> model_net_wrap_msg multiset \<Rightarrow> nat" where
  "rounds_of k P = size (filter_mset (\<lambda>w. round_queue w = k) P)"

lemma rounds_of_simps [simp]:
  "rounds_of k {#} = 0"
  "rounds_of k (add_mset w P) = (if round_queue w = k then 1 else 0) + rounds_of k P"
  by (simp_all add: rounds_of_def)

lemma rounds_sent_append [simp]: "rounds_sent lp (xs @ ys) = rounds_sent lp xs + rounds_sent lp ys"
proof (induction xs)
  case (Cons x xs)
  then show ?case by (cases x) (simp_all split: mn_body.split)
qed simp

lemma rounds_in_simps [simp]:
  "rounds_in lp [] = {#}"
  "rounds_in lp (e # es) =
     (case ev_body e of
        BaseMsg w \<Rightarrow> (if ev_to e = gid lp \<and> is_round w then {#w#} else {#})
      | UserMsg u \<Rightarrow> {#}) + rounds_in lp es"
  by (simp_all add: rounds_in_def)

lemma rounds_sent_base [simp]: "rounds_sent lp (map BaseOut es) = rounds_in lp es"
  by (induction es) simp_all

lemma rounds_sent_net [simp]: "rounds_sent lp (map NetOut xs) = {#}"
  by (induction xs) simp_all

text \<open>A device that drives its loops itself. Its state, the static variables of the process, the
  globals of model-net, its LP and the rounds in flight; the events come in any order, but a round
  is handled only if it is in flight. New event buffers do not carry the mark of the surrogate
  (\<open>created_in_surrogate\<close> is not written in the events of the loop).\<close>

inductive device_run ::
  "('sub, 'msg, 'cc, 'out) mn_hooks \<Rightarrow> (tw_lp, tw_stime) model_net_method \<Rightarrow>
   'sub model_net_base_state \<Rightarrow> node_cache \<Rightarrow> mn_globals \<Rightarrow> tw_lp \<Rightarrow> model_net_wrap_msg multiset \<Rightarrow> bool"
  for hk :: "('sub, 'msg, 'cc, 'out) mn_hooks" and mt :: "(tw_lp, tw_stime) model_net_method" where
  device_start: "base_inv ns \<Longrightarrow> bs_net_id ns = SIMPLEP2P \<or> bs_net_id ns = TORUS \<Longrightarrow>
    \<forall>l\<in>set (in_sched_send_loop ns). l = 0 \<Longrightarrow> in_sched_recv_loop ns = 0 \<Longrightarrow>
    device_run hk mt ns cache g lp {#}"
| device_event: "device_run hk mt ns cache g lp P \<Longrightarrow> \<not> is_round (be_wrap m) \<Longrightarrow>
    created_in_surrogate (wm_base (me_buf env)) = 0 \<Longrightarrow>
    model_net_base_event env lg hk mt ns cache m g lp = Inr (ns', cache', b', m', g', lp', outs) \<Longrightarrow>
    device_run hk mt ns' cache' g' lp' (P + rounds_sent lp outs)"
| device_round: "device_run hk mt ns cache g lp (add_mset (be_wrap m) P) \<Longrightarrow>
    created_in_surrogate (wm_base (me_buf env)) = 0 \<Longrightarrow>
    model_net_base_event env lg hk mt ns cache m g lp = Inr (ns', cache', b', m', g', lp', outs) \<Longrightarrow>
    device_run hk mt ns' cache' g' lp' (P + rounds_sent lp outs)"

subsection \<open>The invariant\<close>

definition rounds_inv :: "'sub model_net_base_state \<Rightarrow> model_net_wrap_msg multiset \<Rightarrow> bool" where
  "rounds_inv ns P \<longleftrightarrow>
     base_inv ns \<and> (bs_net_id ns = SIMPLEP2P \<or> bs_net_id ns = TORUS) \<and>
     (\<forall>w\<in>#P. is_round w \<and> created_in_surrogate (wm_base w) = 0) \<and>
     (\<forall>remote q v. the_loop ns remote q = Inr v \<longrightarrow>
        v = int (rounds_of (queue_key remote q) P) \<and> v \<le> 1)"

lemma rounds_invD:
  "rounds_inv ns P \<Longrightarrow> the_loop ns r q = Inr v \<Longrightarrow> v = int (rounds_of (queue_key r q) P) \<and> v \<le> 1"
  by (simp add: rounds_inv_def)

lemma the_loop_frame [simp]:
  "the_loop (ns\<lparr>sub_state := s\<rparr>) r q = the_loop ns r q"
  "the_loop (ns\<lparr>next_available_time := t\<rparr>) r q = the_loop ns r q"
  "the_loop (ns\<lparr>node_copy_next_available_time := ts\<rparr>) r q = the_loop ns r q"
  "the_loop (put_sched ns r' q' sd) r q = the_loop ns r q"
  by (simp_all add: the_loop_def put_sched_def)

lemma the_loop_put:
  assumes "the_loop ns r q = Inr x"
  shows "the_loop (put_loop ns r q v) r' q' =
    (if queue_key r' q' = queue_key r q then Inr v else the_loop ns r' q')"
  using assms
  by (auto simp: the_loop_def put_loop_def queue_key_def rd_def nth_list_update split: if_splits)

lemma the_loop_key: "queue_key r q = queue_key r' q' \<Longrightarrow> the_loop ns r q = the_loop ns r' q'"
  by (auto simp: the_loop_def queue_key_def split: if_splits)

text \<open>A round either stops the loop and sends nothing, or sends the next round of its queue.\<close>

lemma handle_sched_next_rounds:
  assumes "handle_sched_next env g mt ns b m lp = Inr (ns', b', m', lp', outs)"
    and "bs_net_id ns = SIMPLEP2P \<or> bs_net_id ns = TORUS"
  defines "r \<equiv> is_from_remote (wm_base m)" and "q \<equiv> queue_offset (bm_req (wm_base m))"
  obtains (stops) v s where "the_loop ns r q = Inr v" and "ns' = put_loop (put_sched ns r q s) r q 0"
    and "outs = []"
  | (goes_on) v s t where "the_loop ns r q = Inr v" and "ns' = put_sched ns r q s"
    and "outs = [\<lparr>ev_to = gid lp, ev_delay = t, ev_body = BaseMsg (sched_next_msg g (me_buf env) (gid lp) r q)\<rparr>]"
  using assms
  by (auto simp: handle_sched_next_def result_iff Let_def codes_local_latency_def split: if_splits)

lemma sched_next_msg_round [simp]:
  "is_round (sched_next_msg g buf self r q)"
  "round_queue (sched_next_msg g buf self r q) = queue_key r q"
  "created_in_surrogate (wm_base (sched_next_msg g buf self r q)) = created_in_surrogate (wm_base buf)"
  by (simp_all add: is_round_def round_queue_def sched_next_msg_def msg_set_header_def)

text \<open>The effect of a handler on the flag of one queue and on the rounds in flight, as far as the
  invariant is concerned.\<close>

lemma rounds_inv_step:
  assumes inv: "base_inv ns'" "bs_net_id ns' = SIMPLEP2P \<or> bs_net_id ns' = TORUS"
    and fl: "\<forall>w\<in>#P'. is_round w \<and> created_in_surrogate (wm_base w) = 0"
    and old: "rounds_inv ns P"
    and same: "\<And>r q. queue_key r q \<noteq> k \<Longrightarrow> the_loop ns' r q = the_loop ns r q"
      "\<And>j. j \<noteq> k \<Longrightarrow> rounds_of j P' = rounds_of j P"
    and new: "\<And>r q v. queue_key r q = k \<Longrightarrow> the_loop ns' r q = Inr v \<Longrightarrow> v = int (rounds_of k P') \<and> v \<le> 1"
  shows "rounds_inv ns' P'"
  unfolding rounds_inv_def
proof (intro conjI allI impI)
  fix r q v assume v: "the_loop ns' r q = Inr v"
  have "v = int (rounds_of (queue_key r q) P') \<and> v \<le> 1"
  proof (cases "queue_key r q = k")
    case True
    then show ?thesis using new [OF True v] by simp
  next
    case False
    then have "the_loop ns r q = Inr v" using v same(1) by simp
    then show ?thesis using old same(2) [OF False] by (simp add: rounds_inv_def)
  qed
  then show "v = int (rounds_of (queue_key r q) P')" and "v \<le> 1" by simp_all
qed (use inv fl in auto)

lemma sched_next_keeps_rounds:
  assumes h: "handle_sched_next env g mt ns b m lp = Inr (ns', b', m', lp', outs)"
    and inv: "rounds_inv ns (add_mset w P)" and w: "round_queue w = round_queue m"
    and clean: "created_in_surrogate (wm_base (me_buf env)) = 0"
  shows "rounds_inv ns' (P + rounds_in lp outs)"
proof -
  let ?r = "is_from_remote (wm_base m)" and ?q = "queue_offset (bm_req (wm_base m))"
  have net: "bs_net_id ns = SIMPLEP2P \<or> bs_net_id ns = TORUS" and fl: "\<forall>x\<in>#P. is_round x \<and> created_in_surrogate (wm_base x) = 0"
    and base: "base_inv ns'"
    using inv handle_sched_next_inv [OF _ h] by (auto simp: rounds_inv_def)
  have k: "round_queue w = queue_key ?r ?q" using w by (simp add: round_queue_def)
  have none: "rounds_of (queue_key ?r ?q) P = 0" if "the_loop ns ?r ?q = Inr v" for v
  proof -
    have "v = 1 + int (rounds_of (queue_key ?r ?q) P)" "v \<le> 1"
      using rounds_invD [OF inv that] k by simp_all
    then show ?thesis by simp
  qed
  from h net show ?thesis
  proof (cases rule: handle_sched_next_rounds)
    case (stops v s)
    show ?thesis
    proof (rule rounds_inv_step [OF base _ _ inv, of _ "queue_key ?r ?q"])
      show "the_loop ns' r q = the_loop ns r q" if "queue_key r q \<noteq> queue_key ?r ?q" for r q
        using that stops(1) by (simp add: stops(2) the_loop_put [of "put_sched ns ?r ?q s" ?r ?q v])
      show "x = int (rounds_of (queue_key ?r ?q) (P + rounds_in lp outs)) \<and> x \<le> 1"
        if "queue_key r q = queue_key ?r ?q" "the_loop ns' r q = Inr x" for r q x
        using that stops(1) none [OF stops(1)]
        by (simp add: stops(2,3) the_loop_put [of "put_sched ns ?r ?q s" ?r ?q v])
    qed (use net fl stops k in auto)
  next
    case (goes_on v s t)
    have sent: "rounds_in lp outs = {#sched_next_msg g (me_buf env) (gid lp) ?r ?q#}"
      by (simp add: goes_on(3))
    show ?thesis
    proof (rule rounds_inv_step [OF base _ _ inv, of _ "queue_key ?r ?q"])
      show "x = int (rounds_of (queue_key ?r ?q) (P + rounds_in lp outs)) \<and> x \<le> 1"
        if "queue_key r q = queue_key ?r ?q" "the_loop ns' r q = Inr x" for r q x
      proof -
        have "the_loop ns ?r ?q = Inr x" using that the_loop_key [OF that(1), of ns] by (simp add: goes_on(2))
        then show ?thesis using rounds_invD [OF inv, of ?r ?q x] by (simp add: sent k)
      qed
    qed (use net fl goes_on k clean sent in auto)
  qed
qed

text \<open>A message that is queued changes the flag only if it starts the loop, and then the first
  round is run at once.\<close>

lemma new_msg_schedule_rounds:
  assumes h: "new_msg_schedule env g mt ns cache b m lp = Inr (ns', b', m', lp', outs)"
    and inv: "rounds_inv ns P" and clean: "created_in_surrogate (wm_base (me_buf env)) = 0"
  shows "rounds_inv ns' (P + rounds_in lp outs)"
proof -
  let ?r = "is_from_remote (wm_base m)"
  have base: "base_inv ns'" "base_inv ns" using inv new_msg_schedule_inv [OF _ h] by (auto simp: rounds_inv_def)
  have net: "bs_net_id ns = SIMPLEP2P \<or> bs_net_id ns = TORUS"
    and fl: "\<forall>x\<in>#P. is_round x \<and> created_in_surrogate (wm_base x) = 0"
    using inv by (auto simp: rounds_inv_def)
  obtain q where q: "choose_queue (me_conf env) ns cache (wm_base m) = Inr q"
    using h by (auto simp: new_msg_schedule_def result_iff)
  define rq where "rq = stamp_req (me_now env) ns q (bm_req (wm_base m))"
  define re where "re = (if remote_event_size rq > 0 then Some (wm_data m) else None)"
  define le where "le = (if self_event_size rq > 0 then Some (if remote_event_size rq > 0
    then drop (nat (remote_event_size rq)) (wm_data m) else wm_data m) else None)"
  obtain ss v where o: "the_sched ns ?r q = Inr ss" "the_loop ns ?r q = Inr v"
    using h q by (auto simp: new_msg_schedule_def result_iff Let_def)
  note h1 = h [unfolded new_msg_schedule_def q bind_res_simps Let_def access_msg_id,
    folded rq_def, folded re_def le_def, unfolded o bind_res_simps]
  obtain ss' rc' where add: "model_net_sched_add rq (bm_prio (wm_base m)) (remote_event_size rq) re
      (self_event_size rq) le ss (bm_rc (wm_base m)) = Inr (ss', rc')"
    using h1 by (cases "model_net_sched_add rq (bm_prio (wm_base m)) (remote_event_size rq) re
      (self_event_size rq) le ss (bm_rc (wm_base m))") auto
  note h2 = h1 [unfolded add bind_res_simps prod.case]
  define m1 where "m1 = m\<lparr>wm_base := (wm_base m)\<lparr>bm_req := rq, bm_rc := rc'\<rparr>\<rparr>"
  have m1: "is_from_remote (wm_base m1) = ?r" "queue_offset (bm_req (wm_base m1)) = q"
    by (simp_all add: m1_def rq_def stamp_req_def)
  have c: "v \<noteq> 0 \<and> ns' = (put_sched ns ?r q ss')\<lparr>bs_msg_id := bs_msg_id ns + 1\<rparr> \<and> outs = [] \<or>
      v = 0 \<and> (\<exists>b1. handle_sched_next env g mt
        ((put_loop (put_sched ns ?r q ss') ?r q 1)\<lparr>bs_msg_id := bs_msg_id ns + 1\<rparr>) b1 m1 lp
        = Inr (ns', b', m', lp', outs)) \<and> (\<exists>l. the_loop ns' ?r q = Inr l \<and> l \<noteq> 0)"
    using h2 unfolding m1_def by (cases "v = 0") (auto simp: result_iff)
  from c show ?thesis
  proof (elim disjE conjE exE)
    assume "ns' = (put_sched ns ?r q ss')\<lparr>bs_msg_id := bs_msg_id ns + 1\<rparr>" "outs = []"
    then show ?thesis using inv base(1) by (auto simp: rounds_inv_def)
  next
    fix l b1 assume v: "v = 0" and l: "the_loop ns' ?r q = Inr l" "l \<noteq> 0"
      and run: "handle_sched_next env g mt
        ((put_loop (put_sched ns ?r q ss') ?r q 1)\<lparr>bs_msg_id := bs_msg_id ns + 1\<rparr>) b1 m1 lp = Inr (ns', b', m', lp', outs)"
    let ?ns1 = "(put_loop (put_sched ns ?r q ss') ?r q 1)\<lparr>bs_msg_id := bs_msg_id ns + 1\<rparr>"
    have loop1: "the_loop ?ns1 r' q' = (if queue_key r' q' = queue_key ?r q then Inr 1 else the_loop ns r' q')" for r' q'
      using o(2) by (simp add: the_loop_put [of "put_sched ns ?r q ss'" ?r q v])
    have zero: "rounds_of (queue_key ?r q) P = 0" using rounds_invD [OF inv o(2)] v by simp
    have net1: "bs_net_id ?ns1 = SIMPLEP2P \<or> bs_net_id ?ns1 = TORUS" using net by simp
    from run net1 show ?thesis
    proof (cases rule: handle_sched_next_rounds)
      case (stops x s)
      note stops = stops [unfolded m1]
      show ?thesis using l stops(1) by (simp add: stops(2) the_loop_put [of "put_sched ?ns1 ?r q s" ?r q x])
    next
      case (goes_on x s t)
      note goes_on = goes_on [unfolded m1]
      have sent: "rounds_in lp outs = {#sched_next_msg g (me_buf env) (gid lp) ?r q#}"
        by (simp add: goes_on(3))
      show ?thesis
        by (rule rounds_inv_step [OF base(1) _ _ inv, of _ "queue_key ?r q"])
          (use net fl goes_on(2) clean sent loop1 zero in auto)
    qed
  qed
qed

lemma new_msg_rounds:
  assumes h: "handle_new_msg env g mt ns cache b m lp = Inr (ns', cache', b', m', lp', outs)"
    and type: "mh_event_type (wm_h m) = MN_BASE_NEW_MSG"
    and inv: "rounds_inv ns P" and clean: "created_in_surrogate (wm_base (me_buf env)) = 0"
  shows "rounds_inv ns' (P + rounds_in lp outs)"
proof -
  have local: "rounds_inv n (P + rounds_in lp os)"
    if "new_msg_local env g ns c m lp = Inr (n, w, l, os)" for c n w l os
  proof -
    have "\<exists>ts. n = ns\<lparr>node_copy_next_available_time := ts\<rparr>"
      using that by (auto simp: new_msg_local_def result_iff Let_def codes_local_latency_def)
    moreover have "rounds_in lp os = {#}"
      using that by (auto simp: new_msg_local_def result_iff Let_def codes_local_latency_def)
    ultimately show ?thesis using inv by (auto simp: rounds_inv_def)
  qed
  have queued: "rounds_inv n (P + rounds_in lp os)"
    if "new_msg_queue_req env ns m lp = Inr (n, w, l, os)" for n w l os
  proof -
    have "\<exists>t. n = ns\<lparr>next_available_time := t\<rparr>"
      using that by (auto simp: new_msg_queue_req_def result_iff Let_def codes_local_latency_def)
    moreover have "rounds_in lp os = {#}"
      using that type
      by (auto simp: new_msg_queue_req_def result_iff Let_def codes_local_latency_def is_round_def mn_event_types)
    ultimately show ?thesis using inv by (auto simp: rounds_inv_def)
  qed
  show ?thesis
    using h new_msg_schedule_rounds [OF _ inv clean]
    by (auto simp: handle_new_msg_def result_iff dest: local queued split: if_splits)
qed

lemma rounds_inv_hook:
  assumes "run_hook f put ns cache b sm g lp = Inr (ns', cache', b', m', g', lp', outs)"
  shows "rounds_inv ns' P = rounds_inv ns P" and "rounds_sent lp0 outs = {#}"
proof -
  obtain s' os where "ns' = ns\<lparr>sub_state := s'\<rparr>" "outs = map NetOut os"
    using assms by (auto simp: run_hook_def result_iff)
  then show "rounds_inv ns' P = rounds_inv ns P" "rounds_sent lp0 outs = {#}"
    by (simp_all add: rounds_inv_def)
qed

lemma sample_no_round [simp]: "rounds_in lp0 (issue_sample_event env g lg lp) = {#}"
  by (simp add: issue_sample_event_def is_round_def msg_set_header_def mn_event_types)

lemma event_rounds:
  assumes h: "model_net_base_event env lg hk mt ns cache m g lp = Inr (ns', cache', b', m', g', lp', outs)"
    and inv: "rounds_inv ns P" and other: "\<not> is_round (be_wrap m)"
    and clean: "created_in_surrogate (wm_base (me_buf env)) = 0"
  shows "rounds_inv ns' (P + rounds_sent lp outs)"
proof -
  have type: "be_type m \<noteq> MN_BASE_SCHED_NEXT" using other by (simp add: is_round_def)
  have magic: "be_magic m = base_magic g"
    using h by (simp add: model_net_base_event_def Let_def result_iff)
  note ev = h [unfolded model_net_base_event_def Let_def magic stale_sched_next_def, simplified]
  show ?thesis
  proof (cases "be_type m = MN_BASE_NEW_MSG")
    case True
    then obtain w o' where "handle_new_msg env g mt ns cache bf_clear (be_wrap m) lp = Inr (ns', cache', b', w, lp', o')"
      "outs = map BaseOut o'"
      using ev type by (auto simp: result_iff)
    then show ?thesis using new_msg_rounds [OF _ True inv clean] by simp
  next
    case False
    show ?thesis
    proof (cases "be_type m = MN_BASE_SAMPLE")
      case True
      then obtain o' n c b2 m2 g2 l2 where run: "run_hook (the (hk_sample hk)) (\<lambda>sm. m\<lparr>be_sub := sm\<rparr>) ns cache bf_clear (be_sub m) g lp =
          Inr (n, c, b2, m2, g2, l2, o')" and n: "ns' = n" "outs = o' @ map BaseOut (issue_sample_event env g lg l2)"
        using ev type False by (auto simp: result_iff)
      then show ?thesis using inv by (simp add: n rounds_inv_hook [OF run])
    next
      case no_sample: False
      consider (pass) "run_hook (hk_event hk) (\<lambda>sm. m\<lparr>be_sub := sm\<rparr>) ns cache bf_clear (be_sub m) g lp =
            Inr (ns', cache', b', m', g', lp', outs)"
        | (notif) f where "run_hook f (\<lambda>w. m\<lparr>be_wrap := w\<rparr>) ns cache bf_clear (be_wrap m) g lp =
            Inr (ns', cache', b', m', g', lp', outs)"
        | (cong) f where "run_hook f (\<lambda>sm. m\<lparr>be_cc := sm\<rparr>) ns cache bf_clear (be_cc m) g lp =
            Inr (ns', cache', b', m', g', lp', outs)"
        using ev type False no_sample by (auto simp: result_iff split: if_splits)
      then show ?thesis using inv by cases (simp_all add: rounds_inv_hook)
    qed
  qed
qed

lemma round_rounds:
  assumes h: "model_net_base_event env lg hk mt ns cache m g lp = Inr (ns', cache', b', m', g', lp', outs)"
    and inv: "rounds_inv ns (add_mset (be_wrap m) P)"
    and clean: "created_in_surrogate (wm_base (me_buf env)) = 0"
  shows "rounds_inv ns' (P + rounds_sent lp outs)"
proof -
  have m: "be_type m = MN_BASE_SCHED_NEXT" "created_in_surrogate (wm_base (be_wrap m)) = 0"
    using inv by (auto simp: rounds_inv_def is_round_def)
  then obtain w o' where "handle_sched_next env g mt ns bf_clear (be_wrap m) lp = Inr (ns', b', w, lp', o')"
    "outs = map BaseOut o'"
    using h by (auto simp: model_net_base_event_def Let_def result_iff stale_sched_next_def mn_event_types)
  then show ?thesis using sched_next_keeps_rounds [OF _ inv refl clean] by simp
qed

lemma device_run_inv: "device_run hk mt ns cache g lp P \<Longrightarrow> rounds_inv ns P"
proof (induction rule: device_run.induct)
  case (device_start ns cache g lp)
  have "v = 0" if "the_loop ns r q = Inr v" for r q v
    using that device_start(3,4) by (auto simp: the_loop_def rd_def split: if_splits)
  then show ?case using device_start(1,2) by (fastforce simp: rounds_inv_def)
next
  case (device_event ns cache g lp P m env lg ns' cache' b' m' g' lp' outs)
  then show ?case by (intro event_rounds)
next
  case (device_round ns cache g lp m P env lg ns' cache' b' m' g' lp' outs)
  then show ?case by (intro round_rounds)
qed

subsection \<open>Properties\<close>

text \<open>C5: no message is stranded. In every execution of a device that drives its own scheduler
  loop (simplep2p and torus), with the events in any order, each queue that holds something to send
  has exactly one scheduler round in flight, addressed to that queue, and a queue whose loop flag is
  0 is empty and has none. (Event buffers are assumed not to carry a stale mark of the surrogate,
  which the code does not clear.)\<close>
theorem no_message_stranded:
  assumes "device_run hk mt ns cache g lp P" and "the_sched ns remote q = Inr sd"
    and "the_loop ns remote q = Inr flag"
  shows "(\<not> sched_idle sd \<longrightarrow> flag = 1) \<and> (flag = 0 \<or> flag = 1) \<and>
    int (size (filter_mset (\<lambda>w. is_round w \<and> round_queue w = queue_key remote q) P)) = flag"
proof -
  have inv: "rounds_inv ns P" by (rule device_run_inv [OF assms(1)])
  have "filter_mset (\<lambda>w. is_round w \<and> round_queue w = queue_key remote q) P =
      filter_mset (\<lambda>w. round_queue w = queue_key remote q) P"
    using inv by (intro filter_mset_cong refl) (auto simp: rounds_inv_def)
  then have n: "int (size (filter_mset (\<lambda>w. is_round w \<and> round_queue w = queue_key remote q) P)) = flag"
    and le: "flag \<le> 1" "0 \<le> flag"
    using rounds_invD [OF inv assms(3)] by (simp_all add: rounds_of_def)
  moreover have "flag \<noteq> 0" if "\<not> sched_idle sd"
    using that base_inv_sched(2) [OF _ assms(2)] inv assms(3) by (auto simp: rounds_inv_def)
  moreover have "flag = 0 \<or> flag = 1" using le by arith
  ultimately show ?thesis by blast
qed

definition ex_own_loop :: "sn_state model_net_base_state" where
  "ex_own_loop = ex_base_state\<lparr>bs_net_id := SIMPLEP2P\<rparr>"

lemma ex_own_loop_event:
  "\<exists>ns' b' m' g' lp' outs sd. model_net_base_event ex_env ex_lp_globals (simplenet_hooks 5 400 ex_env)
      (simplenet_method (me_lat ex_env)) ex_own_loop ex_cache ex_new_msg ex_glob ex_mlp =
    Inr (ns', ex_cache, b', m', g', lp', outs) \<and> the_sched ns' 0 0 = Inr sd \<and> the_loop ns' 0 0 = Inr 1"
  by (simp add: model_net_base_event_def ex_new_msg_def msg_set_header_def ex_glob_def
      stale_sched_next_def mn_event_types ex_lp_globals_def handle_new_msg_def fill_cache_def
      ex_cache_def ex_wrap_def ex_request_def ex_mlp_def new_msg_schedule_def choose_queue_def
      ex_own_loop_def ex_base_state_def Let_def the_sched_def the_loop_def rd_def model_net_sched_init_def
      fcfs_init_def model_net_sched_add_def fcfs_add_def stamp_req_def copy_event_def memcpy_def
      put_sched_def put_loop_def handle_sched_next_def model_net_sched_next_def sub_next_def
      fcfs_next_def next_packet_def packet_call_def call_method_def simplenet_method_def
      codes_local_latency_def lift_step_def SIMPLENET_def SIMPLEP2P_def TORUS_def ex_rc_def)

theorem no_message_stranded_witness:
  "\<exists>ns cache g lp P. device_run (simplenet_hooks 5 400 ex_env) (simplenet_method (me_lat ex_env)) ns cache g lp P \<and>
     size (filter_mset (\<lambda>w. is_round w \<and> round_queue w = queue_key 0 0) P) = 1"
proof -
  let ?hk = "simplenet_hooks 5 400 ex_env" and ?mt = "simplenet_method (me_lat ex_env)"
  obtain ns' b' m' g' lp' outs sd where ev: "model_net_base_event ex_env ex_lp_globals ?hk ?mt ex_own_loop ex_cache
      ex_new_msg ex_glob ex_mlp = Inr (ns', ex_cache, b', m', g', lp', outs)"
    and q: "the_sched ns' 0 0 = Inr sd" "the_loop ns' 0 0 = Inr 1"
    using ex_own_loop_event by blast
  have "device_run ?hk ?mt ex_own_loop ex_cache ex_glob ex_mlp {#}"
    by (rule device_start) (use ex_base_inv in \<open>simp_all add: ex_own_loop_def ex_base_state_def base_inv_def\<close>)
  then have run: "device_run ?hk ?mt ns' ex_cache g' lp' ({#} + rounds_sent ex_mlp outs)"
    by (rule device_event [OF _ _ _ ev])
      (simp_all add: is_round_def ex_new_msg_def msg_set_header_def mn_event_types ex_env_def ex_wrap_def)
  from no_message_stranded [OF run q] run show ?thesis by force
qed

end
