(* ===== verification/Config_Store.thy ===== *)
theory Config_Store
  imports Codes_Prelude
begin

text \<open>
  The configuration store: src/modelconfig/configstore.c (a tree of sections and keys),
  configstoreadapter.c (its function table \<open>ConfigVTable\<close>) and configfile.c (the comparison
  of two stores).

  An entry is a section with its chain of children, or a key with its chain of values; a
  NULL name or value is \<open>None\<close>. Functions that only read take the entry itself. Functions
  that add entries take the root and the position of a section as a path of child indices,
  since the C code changes a section in place through a pointer; \<open>ROOT_SECTION\<close> is the empty
  path. A handle stays valid, because entries are added at the end of a chain.
\<close>

subsection \<open>Entries\<close>

datatype mcs_entry =
    Section (en_name: "string option") (en_children: "mcs_entry list")
  | Key (en_name: "string option") (en_values: "string option list")

definition mcs_initroot :: mcs_entry where
  "mcs_initroot = Section None []"

fun mcs_issection :: "mcs_entry \<Rightarrow> bool" where
  "mcs_issection (Section _ _) = True"
| "mcs_issection (Key _ _) = False"

text \<open>The length of the chain below an entry (\<open>mcs_chaincount\<close>).\<close>

fun mcs_chaincount :: "mcs_entry \<Rightarrow> nat" where
  "mcs_chaincount (Section _ cs) = length cs"
| "mcs_chaincount (Key _ vs) = length vs"

definition mcs_childcount :: "mcs_entry \<Rightarrow> nat result" where
  "mcs_childcount e = bind_res (c_assert (mcs_issection e)) (\<lambda>_. Inr (mcs_chaincount e))"

definition mcs_valuecount :: "mcs_entry \<Rightarrow> nat result" where
  "mcs_valuecount e = bind_res (c_assert (\<not> mcs_issection e)) (\<lambda>_. Inr (mcs_chaincount e))"

text \<open>\<open>mcs_getvaluesingle\<close> returns the length of the value and what it leaves in a buffer of
  the given size (\<open>None\<close>: the buffer is not written; size 0 stands for no buffer).\<close>

definition MCS_WRONGTYPE :: int where "MCS_WRONGTYPE = -3"

fun mcs_getvaluesingle :: "mcs_entry \<Rightarrow> nat \<Rightarrow> int \<times> string option" where
  "mcs_getvaluesingle (Section _ _) bufsize = (MCS_WRONGTYPE, None)"
| "mcs_getvaluesingle (Key _ []) bufsize = (-1, if bufsize = 0 then None else Some [])"
| "mcs_getvaluesingle (Key _ (None # vs)) bufsize = (0, if bufsize = 0 then None else Some [])"
| "mcs_getvaluesingle (Key _ (Some v # vs)) bufsize =
     (int (length v), if bufsize = 0 then None else Some (take (bufsize - 1) v))"

text \<open>\<open>mcs_getvaluemultiple\<close>: return code, copied values, \<open>*maxcount\<close> afterwards.\<close>

definition mcs_getvaluemultiple ::
    "mcs_entry \<Rightarrow> nat \<Rightarrow> (int \<times> string option list \<times> nat) result" where
  "mcs_getvaluemultiple e maxcount =
     (case e of Section _ _ \<Rightarrow> Inl AssertFailed
      | Key _ vs \<Rightarrow> if length vs > maxcount then Inr (0, take maxcount vs, maxcount)
                   else Inr (1, vs, length vs))"

subsection \<open>Lookup\<close>

text \<open>Keys are found by their exact name among all children; the values of a key have no name.\<close>

fun find_child :: "mcs_entry list \<Rightarrow> string \<Rightarrow> mcs_entry option result" where
  "find_child [] name = Inr None"
| "find_child (c # cs) name =
     (case en_name c of None \<Rightarrow> Inl NullDeref
      | Some n \<Rightarrow> if n = name then Inr (Some c) else find_child cs name)"

definition mcs_findchild :: "mcs_entry \<Rightarrow> string \<Rightarrow> mcs_entry option result" where
  "mcs_findchild e name =
     (case e of Section _ cs \<Rightarrow> find_child cs name
      | Key _ vs \<Rightarrow> if vs = [] then Inr None else Inl NullDeref)"

definition mcs_findkey :: "mcs_entry \<Rightarrow> string \<Rightarrow> mcs_entry option result" where
  "mcs_findkey e name =
     bind_res (mcs_findchild e name) (\<lambda>r.
       Inr (case r of None \<Rightarrow> None | Some c \<Rightarrow> if mcs_issection c then None else Some c))"

text \<open>Section names are compared without regard to case (\<open>strcasecmp\<close> in the C locale).\<close>

definition to_lower :: "char \<Rightarrow> char" where
  "to_lower c = (if 65 \<le> (of_char c :: nat) \<and> (of_char c :: nat) \<le> 90
                 then char_of ((of_char c :: nat) + 32) else c)"

definition str_lower :: "string \<Rightarrow> string" where
  "str_lower s = map to_lower s"

definition strcasecmp_eq :: "string \<Rightarrow> string \<Rightarrow> bool" where
  "strcasecmp_eq a b \<longleftrightarrow> str_lower a = str_lower b"

fun find_section :: "mcs_entry list \<Rightarrow> string \<Rightarrow> mcs_entry option" where
  "find_section [] name = None"
| "find_section (c # cs) name =
     (if mcs_issection c \<and> (case en_name c of None \<Rightarrow> False | Some n \<Rightarrow> strcasecmp_eq n name)
      then Some c else find_section cs name)"

definition mcs_findsubsection :: "mcs_entry \<Rightarrow> string \<Rightarrow> mcs_entry option" where
  "mcs_findsubsection e name =
     (case e of Section _ cs \<Rightarrow> find_section cs name | Key _ vs \<Rightarrow> None)"

record mcs_section_entry =
  se_name :: "string option"
  se_is_section :: bool
  se_childcount :: nat

definition list_entry :: "mcs_entry \<Rightarrow> mcs_section_entry" where
  "list_entry c = \<lparr>se_name = en_name c, se_is_section = mcs_issection c, se_childcount = mcs_chaincount c\<rparr>"

definition mcs_listsection :: "mcs_entry option \<Rightarrow> nat \<Rightarrow> int \<times> mcs_section_entry list" where
  "mcs_listsection e maxcount =
     (case e of None \<Rightarrow> (0, [])
      | Some (Key _ _) \<Rightarrow> (-1, [])
      | Some (Section _ cs) \<Rightarrow>
          (int (length (take maxcount cs)), map list_entry (take maxcount cs)))"

subsection \<open>Adding and removing entries\<close>

fun sub_entry :: "mcs_entry \<Rightarrow> nat list \<Rightarrow> mcs_entry option" where
  "sub_entry e [] = Some e"
| "sub_entry (Section n cs) (i # p) = (if i < length cs then sub_entry (cs ! i) p else None)"
| "sub_entry (Key n vs) (i # p) = None"

fun upd_entry :: "mcs_entry \<Rightarrow> nat list \<Rightarrow> (mcs_entry \<Rightarrow> mcs_entry) \<Rightarrow> mcs_entry" where
  "upd_entry e [] f = f e"
| "upd_entry (Section n cs) (i # p) f =
     (if i < length cs then Section n (cs[i := upd_entry (cs ! i) p f]) else Section n cs)"
| "upd_entry (Key n vs) (i # p) f = Key n vs"

text \<open>\<open>mcs_addchild\<close> appends to the chain of children. (On a key the C code would append the
  child to the chain of its values; sections are the only handles that the code hands out.)\<close>

fun mcs_addchild :: "mcs_entry \<Rightarrow> mcs_entry \<Rightarrow> mcs_entry" where
  "mcs_addchild (Section n cs) c = Section n (cs @ [c])"
| "mcs_addchild (Key n vs) c = Key n vs"

definition mcs_createvalue :: "string option \<Rightarrow> string option list \<Rightarrow> mcs_entry" where
  "mcs_createvalue name vals = Key name vals"

definition mcs_addsection :: "mcs_entry \<Rightarrow> nat list \<Rightarrow> string option \<Rightarrow> (mcs_entry \<times> nat list) result" where
  "mcs_addsection rt sec name =
     (case sub_entry rt sec of
        Some (Section n cs) \<Rightarrow>
          Inr (upd_entry rt sec (\<lambda>e. mcs_addchild e (Section name [])), sec @ [length cs])
      | _ \<Rightarrow> Inl NullDeref)"

definition mcs_addkey ::
    "mcs_entry \<Rightarrow> nat list \<Rightarrow> string option \<Rightarrow> string option list \<Rightarrow> mcs_entry result" where
  "mcs_addkey rt sec name vals =
     (case sub_entry rt sec of
        Some (Section n cs) \<Rightarrow>
          Inr (upd_entry rt sec (\<lambda>e. mcs_addchild e (mcs_createvalue name vals)))
      | _ \<Rightarrow> Inl NullDeref)"

text \<open>\<open>mcs_removechild\<close> as it is written: the assertion and the test look at the first child
  instead of the section, and \<open>prev\<close> is never advanced, so that the chain restarts after
  the removed entry. The result is the return code and the children that remain.\<close>

fun remove_loop :: "mcs_entry list \<Rightarrow> mcs_entry list \<Rightarrow> string \<Rightarrow> (int \<times> mcs_entry list) result" where
  "remove_loop all [] name = Inr (0, all)"
| "remove_loop all (c # cs) name =
     (case en_name c of None \<Rightarrow> Inl NullDeref
      | Some n \<Rightarrow> if name = n then Inr (1, cs) else remove_loop all cs name)"

definition mcs_removechild :: "mcs_entry \<Rightarrow> string \<Rightarrow> (int \<times> mcs_entry) result" where
  "mcs_removechild e name =
     (case e of
        Key _ _ \<Rightarrow> Inl AssertFailed
      | Section n [] \<Rightarrow> Inl NullDeref
      | Section n (c # cs) \<Rightarrow>
          bind_res (c_assert (mcs_issection c)) (\<lambda>_.
            if mcs_chaincount c = 0 then Inr (0, e)
            else bind_res (remove_loop (c # cs) (c # cs) name) (\<lambda>(r, cs'). Inr (r, Section n cs'))))"

subsection \<open>The function table\<close>

text \<open>\<open>cfsa_getKey\<close>: return code and buffer contents for a buffer of the given size.\<close>

definition cfsa_getKey :: "mcs_entry \<Rightarrow> string \<Rightarrow> nat \<Rightarrow> (int \<times> string option) result" where
  "cfsa_getKey sec name bufsize =
     bind_res (mcs_findkey sec name) (\<lambda>k.
     case k of None \<Rightarrow> Inr (-1, None)
     | Some key \<Rightarrow>
         bind_res (mcs_valuecount key) (\<lambda>count.
         if count > 1 then Inr (-2, None)
         else if bufsize = 0 then Inr (mcs_getvaluesingle key 0)
         else bind_res (mcs_getvaluemultiple key 1) (\<lambda>(r, vals, dcount).
           if dcount = 0 then Inr (0, Some [])
           else case vals ! 0 of None \<Rightarrow> Inl NullDeref
                | Some tmp \<Rightarrow> Inr (int (length tmp), Some (take (bufsize - 1) tmp)))))"

definition cfsa_getMultiKey :: "mcs_entry \<Rightarrow> string \<Rightarrow> (int \<times> string option list) result" where
  "cfsa_getMultiKey sec name =
     bind_res (mcs_findkey sec name) (\<lambda>k.
     case k of None \<Rightarrow> Inr (-1, [])
     | Some key \<Rightarrow>
         bind_res (mcs_valuecount key) (\<lambda>count.
         bind_res (mcs_getvaluemultiple key count) (\<lambda>(r, vals, dcount). Inr (1, vals))))"

datatype se_type = SE_SECTION | SE_KEY | SE_MULTIKEY

record SectionEntry =
  e_name :: "string option"
  e_type :: se_type

definition section_entry :: "mcs_section_entry \<Rightarrow> SectionEntry" where
  "section_entry o1 = \<lparr>e_name = se_name o1,
     e_type = (if se_is_section o1 then SE_SECTION else if se_childcount o1 \<le> 1 then SE_KEY else SE_MULTIKEY)\<rparr>"

definition cfsa_listSection :: "mcs_entry \<Rightarrow> nat \<Rightarrow> (int \<times> SectionEntry list) result" where
  "cfsa_listSection sec maxentries =
     bind_res (mcs_childcount sec) (\<lambda>count.
       if count = 0 then Inr (0, [])
       else Inr (int count, map section_entry (snd (mcs_listsection (Some sec) maxentries))))"

definition cfsa_openSection :: "mcs_entry \<Rightarrow> string \<Rightarrow> int \<times> mcs_entry option" where
  "cfsa_openSection sec name =
     (let e = mcs_findsubsection sec name in (if e \<noteq> None then 1 else -1, e))"

definition cfsa_getSectionSize :: "mcs_entry \<Rightarrow> nat result" where
  "cfsa_getSectionSize sec = mcs_childcount sec"

definition cfsa_createSection :: "mcs_entry \<Rightarrow> nat list \<Rightarrow> string option \<Rightarrow> (mcs_entry \<times> nat list) result" where
  "cfsa_createSection rt sec name = mcs_addsection rt sec name"

definition cfsa_createKey ::
    "mcs_entry \<Rightarrow> nat list \<Rightarrow> string option \<Rightarrow> string option list \<Rightarrow> mcs_entry result" where
  "cfsa_createKey rt sec name vals = mcs_addkey rt sec name vals"

subsection \<open>Comparing two stores\<close>

definition cf_has_entry :: "mcs_entry \<Rightarrow> string \<Rightarrow> bool result" where
  "cf_has_entry sec name =
     (if fst (cfsa_openSection sec name) = 1 then Inr True
      else bind_res (cfsa_getMultiKey sec name) (\<lambda>(r, vals). Inr (r \<ge> 0)))"

definition text_of :: "string option \<Rightarrow> string" where
  "text_of v = (case v of None \<Rightarrow> [] | Some s \<Rightarrow> s)"

definition cf_value_lists_equal :: "string option list \<Rightarrow> string option list \<Rightarrow> bool" where
  "cf_value_lists_equal a b \<longleftrightarrow> length a = length b \<and> list_all2 (\<lambda>x y. text_of x = text_of y) a b"

lemma find_section_mem:
  "find_section cs name = Some c \<Longrightarrow> c \<in> set cs \<and> mcs_issection c"
  by (induction cs) (auto split: if_splits)

lemma findsubsection_size: "mcs_findsubsection e name = Some c \<Longrightarrow> size c < size e"
proof (cases e)
  case (Section n cs)
  assume "mcs_findsubsection e name = Some c"
  then have "c \<in> set cs" using Section find_section_mem by (auto simp: mcs_findsubsection_def)
  then have "size c \<le> size_list size cs" by (rule size_list_estimation') simp
  then show ?thesis by (simp add: Section)
qed (simp add: mcs_findsubsection_def)

text \<open>What the comparison reports, with the path of the entry (\<open>cf_join_path\<close>, a buffer of 1024
  bytes).\<close>

datatype divergence =
    SectionOnlyInFirst string | KeyOnlyInFirst string | KeyBecameSection string
  | ValuesDiffer string "string option list" "string option list"
  | OnlyInSecond string bool

definition cf_join_path :: "string \<Rightarrow> string \<Rightarrow> string" where
  "cf_join_path path name = take 1023 (if path \<noteq> [] then path @ ''/'' @ name else name)"

definition cf_key_equal ::
    "bool \<Rightarrow> mcs_entry \<Rightarrow> mcs_entry \<Rightarrow> string \<Rightarrow> string \<Rightarrow> (bool \<times> divergence list) result" where
  "cf_key_equal report s1 s2 name child =
     bind_res (cfsa_getMultiKey s2 name) (\<lambda>(r2, p2).
     bind_res (cfsa_getMultiKey s1 name) (\<lambda>(r1, p1).
       if r2 < 0
       then Inr (False, if \<not> report then []
                        else if fst (cfsa_openSection s2 name) = 1 then [KeyBecameSection child]
                        else [KeyOnlyInFirst child])
       else if \<not> cf_value_lists_equal p1 p2
       then Inr (False, if report then [ValuesDiffer child p1 p2] else [])
       else Inr (True, [])))"

text \<open>The second loop: names of the second section that the first one lacks.\<close>

fun cf_reverse ::
    "bool \<Rightarrow> mcs_entry \<Rightarrow> string \<Rightarrow> SectionEntry list \<Rightarrow> bool \<Rightarrow> divergence list \<Rightarrow>
     (bool \<times> divergence list) result" where
  "cf_reverse report s1 path [] eq ds = Inr (eq, ds)"
| "cf_reverse report s1 path (e # es) eq ds =
     (case e_name e of None \<Rightarrow> Inl NullDeref
      | Some name \<Rightarrow>
          bind_res (cf_has_entry s1 name) (\<lambda>has.
            if has then cf_reverse report s1 path es eq ds
            else if report
            then cf_reverse report s1 path es False
                   (ds @ [OnlyInSecond (cf_join_path path name) (e_type e = SE_SECTION)])
            else Inr (False, ds)))"

lemma listSection_length:
  "cfsa_listSection s n = Inr (r, es) \<Longrightarrow> length es \<le> mcs_chaincount s"
  by (cases s) (auto simp: cfsa_listSection_def mcs_childcount_def mcs_listsection_def result_iff
      split: if_splits)

function (sequential) cf_section_equal ::
    "bool \<Rightarrow> mcs_entry \<Rightarrow> mcs_entry \<Rightarrow> string \<Rightarrow> (bool \<times> divergence list) result"
  and cf_forward ::
    "bool \<Rightarrow> mcs_entry \<Rightarrow> mcs_entry \<Rightarrow> string \<Rightarrow> SectionEntry list \<Rightarrow> bool \<Rightarrow> divergence list \<Rightarrow>
     (bool \<times> divergence list) result" where
  "cf_section_equal report s1 s2 path =
     bind_res (cfsa_getSectionSize s1) (\<lambda>n1.
     bind_res (cfsa_getSectionSize s2) (\<lambda>n2.
     bind_res (cfsa_listSection s1 n1) (\<lambda>es1.
     bind_res (cfsa_listSection s2 n2) (\<lambda>es2.
     bind_res (cf_forward report s1 s2 path (snd es1) True []) (\<lambda>r.
       if fst r \<or> report then cf_reverse report s1 path (snd es2) (fst r) (snd r) else Inr r)))))"
| "cf_forward report s1 s2 path [] eq ds = Inr (eq, ds)"
| "cf_forward report s1 s2 path (e # es) eq ds =
     (case e_name e of None \<Rightarrow> Inl NullDeref
      | Some name \<Rightarrow>
          bind_res
            (if e_type e = SE_SECTION
             then case mcs_findsubsection s2 name of
                    None \<Rightarrow> Inr (False, if report then [SectionOnlyInFirst (cf_join_path path name)] else [])
                  | Some d2 \<Rightarrow>
                      (case mcs_findsubsection s1 name of None \<Rightarrow> Inl NullDeref
                       | Some d1 \<Rightarrow> cf_section_equal report d1 d2 (cf_join_path path name))
             else cf_key_equal report s1 s2 name (cf_join_path path name)) (\<lambda>r.
          if \<not> (eq \<and> fst r) \<and> \<not> report then Inr (eq \<and> fst r, ds @ snd r)
          else cf_forward report s1 s2 path es (eq \<and> fst r) (ds @ snd r)))"
  by pat_completeness auto

termination
proof (relation "measures [\<lambda>x. case x of Inl (rp, s1, s2, p) \<Rightarrow> size s1
      | Inr (rp, s1, s2, p, es, eq, ds) \<Rightarrow> size s1,
    \<lambda>x. case x of Inl (rp, s1, s2, p) \<Rightarrow> Suc (mcs_chaincount s1)
      | Inr (rp, s1, s2, p, es, eq, ds) \<Rightarrow> length es]")
qed (auto dest: listSection_length findsubsection_size simp: less_Suc_eq_le)

definition cf_equal_report :: "mcs_entry \<Rightarrow> mcs_entry \<Rightarrow> (bool \<times> divergence list) result" where
  "cf_equal_report h1 h2 = cf_section_equal True h1 h2 []"

definition cf_equal :: "mcs_entry \<Rightarrow> mcs_entry \<Rightarrow> bool result" where
  "cf_equal h1 h2 = bind_res (cf_section_equal False h1 h2 []) (\<lambda>r. Inr (fst r))"

subsection \<open>What lookups can see\<close>

text \<open>The views of a section: its keys, with a NULL value read as the empty string, and its
  subsections.\<close>

definition view_key :: "mcs_entry \<Rightarrow> string \<Rightarrow> string list option" where
  "view_key e k = (case cfsa_getMultiKey e k of Inl _ \<Rightarrow> None
     | Inr (r, vs) \<Rightarrow> if r < 0 then None else Some (map text_of vs))"

fun open_path :: "mcs_entry \<Rightarrow> string list \<Rightarrow> mcs_entry option" where
  "open_path e [] = Some e"
| "open_path e (n # p) = (case mcs_findsubsection e n of None \<Rightarrow> None | Some c \<Rightarrow> open_path c p)"

text \<open>Two stores that no sequence of \<open>openSection\<close> and \<open>getMultiKey\<close> calls tells apart.\<close>

definition same_view :: "mcs_entry \<Rightarrow> mcs_entry \<Rightarrow> bool" where
  "same_view a b \<longleftrightarrow> (\<forall>p. rel_option (\<lambda>x y. \<forall>k. view_key x k = view_key y k) (open_path a p) (open_path b p))"

lemma same_view_step:
  "same_view a b \<longleftrightarrow> (\<forall>k. view_key a k = view_key b k) \<and>
     (\<forall>n. rel_option same_view (mcs_findsubsection a n) (mcs_findsubsection b n))"
proof
  assume sv: "same_view a b"
  have "rel_option same_view (mcs_findsubsection a n) (mcs_findsubsection b n)" for n
  proof -
    have q: "rel_option (\<lambda>x y. \<forall>k. view_key x k = view_key y k) (open_path a (n # p)) (open_path b (n # p))" for p
      using sv by (simp only: same_view_def)
    show ?thesis
      using q [of "[]"] q by (cases "mcs_findsubsection a n"; cases "mcs_findsubsection b n")
        (simp_all add: same_view_def)
  qed
  then show "(\<forall>k. view_key a k = view_key b k) \<and>
     (\<forall>n. rel_option same_view (mcs_findsubsection a n) (mcs_findsubsection b n))"
    using sv [unfolded same_view_def, rule_format, of "[]"] by simp
next
  assume st: "(\<forall>k. view_key a k = view_key b k) \<and>
     (\<forall>n. rel_option same_view (mcs_findsubsection a n) (mcs_findsubsection b n))"
  show "same_view a b"
    unfolding same_view_def
  proof
    fix p
    show "rel_option (\<lambda>x y. \<forall>k. view_key x k = view_key y k) (open_path a p) (open_path b p)"
    proof (cases p)
      case (Cons n q)
      then show ?thesis
        using st [THEN conjunct2, rule_format, of n]
        by (cases "mcs_findsubsection a n"; cases "mcs_findsubsection b n") (simp_all add: same_view_def)
    qed (use st in simp)
  qed
qed

subsection \<open>Well-formed stores\<close>

text \<open>Every entry below the root has a name; within a section no two sections have the same name
  up to case, no two keys have the same name, and no key has the name of a section up to
  case.\<close>

definition lower_name :: "mcs_entry \<Rightarrow> string" where
  "lower_name c = str_lower (the (en_name c))"

definition names_ok :: "mcs_entry list \<Rightarrow> bool" where
  "names_ok cs \<longleftrightarrow> list_all (\<lambda>c. en_name c \<noteq> None) cs \<and>
     distinct (map lower_name (filter mcs_issection cs)) \<and>
     distinct (map en_name (filter (\<lambda>c. \<not> mcs_issection c) cs)) \<and>
     (\<forall>c \<in> set cs. \<forall>d \<in> set cs. mcs_issection c \<and> \<not> mcs_issection d \<longrightarrow> lower_name c \<noteq> lower_name d)"

primrec wf_store :: "mcs_entry \<Rightarrow> bool" where
  "wf_store (Section n cs) = (names_ok cs \<and> list_all wf_store cs)"
| "wf_store (Key n vs) = True"

lemma find_child_named:
  assumes "list_all (\<lambda>c. en_name c \<noteq> None) cs"
  shows "\<exists>r. find_child cs k = Inr r \<and> (r = None \<longleftrightarrow> (\<forall>c \<in> set cs. en_name c \<noteq> Some k)) \<and>
    (\<forall>c. r = Some c \<longrightarrow> c \<in> set cs \<and> en_name c = Some k)"
  using assms
proof (induction cs)
  case (Cons c cs)
  then show ?case by (cases "en_name c = Some k") auto
qed simp

lemma find_section_spec:
  "find_section cs n = None \<longleftrightarrow>
     (\<forall>c \<in> set cs. mcs_issection c \<longrightarrow> (\<forall>m. en_name c = Some m \<longrightarrow> str_lower m \<noteq> str_lower n))"
  "find_section cs n = Some c \<Longrightarrow>
     c \<in> set cs \<and> mcs_issection c \<and> (\<exists>m. en_name c = Some m \<and> str_lower m = str_lower n)"
  by (induction cs) (auto simp: strcasecmp_eq_def split: option.splits if_splits)

lemma find_section_lower: "str_lower m = str_lower n \<Longrightarrow> find_section cs m = find_section cs n"
  by (induction cs) (auto simp: strcasecmp_eq_def split: option.splits)

text \<open>In a well-formed section a key is seen exactly if it is there.\<close>

lemma view_key_wf:
  assumes "wf_store (Section n cs)"
  shows "view_key (Section n cs) k = Some vs \<longleftrightarrow> (\<exists>ws. Key (Some k) ws \<in> set cs \<and> vs = map text_of ws)"
    and "\<exists>r ws. cfsa_getMultiKey (Section n cs) k = Inr (r, ws) \<and> (r < 0 \<longleftrightarrow> view_key (Section n cs) k = None) \<and>
      (\<not> r < 0 \<longrightarrow> view_key (Section n cs) k = Some (map text_of ws))"
proof -
  have nm: "list_all (\<lambda>c. en_name c \<noteq> None) cs"
    and dk: "distinct (map en_name (filter (\<lambda>c. \<not> mcs_issection c) cs))"
    and cl: "\<And>c d. c \<in> set cs \<Longrightarrow> d \<in> set cs \<Longrightarrow> mcs_issection c \<Longrightarrow> \<not> mcs_issection d \<Longrightarrow> lower_name c \<noteq> lower_name d"
    using assms by (auto simp: names_ok_def)
  obtain r where r: "find_child cs k = Inr r" "r = None \<longleftrightarrow> (\<forall>c \<in> set cs. en_name c \<noteq> Some k)"
    "\<And>c. r = Some c \<Longrightarrow> c \<in> set cs \<and> en_name c = Some k" using find_child_named [OF nm, of k] by blast
  have uniq: "c = d" if "c \<in> set cs" "d \<in> set cs" "\<not> mcs_issection c" "\<not> mcs_issection d"
      "en_name c = en_name d" for c d
    using dk that by (auto simp: distinct_map inj_on_def)
  have g: "cfsa_getMultiKey (Section n cs) k = Inr (case r of Some (Key m ws) \<Rightarrow> (1, ws) | _ \<Rightarrow> (-1, []))"
    using r(1) by (auto simp: cfsa_getMultiKey_def mcs_findkey_def mcs_findchild_def mcs_valuecount_def
        mcs_getvaluemultiple_def split: option.splits mcs_entry.splits)
  show "view_key (Section n cs) k = Some vs \<longleftrightarrow> (\<exists>ws. Key (Some k) ws \<in> set cs \<and> vs = map text_of ws)"
  proof
    assume "view_key (Section n cs) k = Some vs"
    then show "\<exists>ws. Key (Some k) ws \<in> set cs \<and> vs = map text_of ws"
      using g r(3) by (auto simp: view_key_def split: option.splits mcs_entry.splits)
  next
    assume "\<exists>ws. Key (Some k) ws \<in> set cs \<and> vs = map text_of ws"
    then obtain ws where ws: "Key (Some k) ws \<in> set cs" "vs = map text_of ws" by blast
    then obtain c where c: "r = Some c" using r(2) by fastforce
    have "\<not> mcs_issection c"
    proof
      assume s: "mcs_issection c"
      have "lower_name c = lower_name (Key (Some k) ws)" using r(3) [OF c] by (simp add: lower_name_def)
      with cl [of c "Key (Some k) ws"] r(3) [OF c] ws(1) s show False by simp
    qed
    then have "c = Key (Some k) ws" using uniq [of c "Key (Some k) ws"] r(3) [OF c] ws(1) by simp
    with g c ws(2) show "view_key (Section n cs) k = Some vs" by (simp add: view_key_def)
  qed
  show "\<exists>r ws. cfsa_getMultiKey (Section n cs) k = Inr (r, ws) \<and> (r < 0 \<longleftrightarrow> view_key (Section n cs) k = None) \<and>
      (\<not> r < 0 \<longrightarrow> view_key (Section n cs) k = Some (map text_of ws))"
    using g by (auto simp: view_key_def split: option.splits mcs_entry.splits)
qed

subsection \<open>The comparison decides the view\<close>

lemma list_all_entries:
  "cfsa_getSectionSize (Section n cs) = Inr (length cs)"
  "\<exists>r. cfsa_listSection (Section n cs) (length cs) = Inr (r, map (\<lambda>c. section_entry (list_entry c)) cs)"
  by (auto simp: cfsa_getSectionSize_def mcs_childcount_def cfsa_listSection_def mcs_listsection_def)

lemma entry_fields [simp]:
  "e_name (section_entry (list_entry c)) = en_name c"
  "e_type (section_entry (list_entry c)) = SE_SECTION \<longleftrightarrow> mcs_issection c"
  by (simp_all add: section_entry_def list_entry_def)

lemma value_lists_text: "cf_value_lists_equal a b \<longleftrightarrow> map text_of a = map text_of b"
  by (auto simp: cf_value_lists_equal_def list_all2_conv_all_nth list_eq_iff_nth_eq)

lemma key_equal_view:
  assumes "wf_store (Section n cs)" "wf_store (Section m ds)" "Key (Some k) ws \<in> set cs"
  shows "\<exists>dv. cf_key_equal rep (Section n cs) (Section m ds) k child =
    Inr (view_key (Section n cs) k = view_key (Section m ds) k, dv)"
proof -
  obtain r1 p1 where g1: "cfsa_getMultiKey (Section n cs) k = Inr (r1, p1)"
    "r1 < 0 \<longleftrightarrow> view_key (Section n cs) k = None" "\<not> r1 < 0 \<longrightarrow> view_key (Section n cs) k = Some (map text_of p1)"
    using view_key_wf(2) [OF assms(1), of k] by (elim exE conjE)
  obtain r2 p2 where g2: "cfsa_getMultiKey (Section m ds) k = Inr (r2, p2)"
    "r2 < 0 \<longleftrightarrow> view_key (Section m ds) k = None" "\<not> r2 < 0 \<longrightarrow> view_key (Section m ds) k = Some (map text_of p2)"
    using view_key_wf(2) [OF assms(2), of k] by (elim exE conjE)
  have "view_key (Section n cs) k = Some (map text_of ws)" using view_key_wf(1) [OF assms(1)] assms(3) by blast
  with g1 g2 show ?thesis by (auto simp: cf_key_equal_def value_lists_text)
qed

lemma has_entry_view:
  assumes "wf_store (Section n cs)"
  shows "cf_has_entry (Section n cs) k =
    Inr (mcs_findsubsection (Section n cs) k \<noteq> None \<or> view_key (Section n cs) k \<noteq> None)"
  using view_key_wf(2) [OF assms, of k]
  by (auto simp: cf_has_entry_def cfsa_openSection_def Let_def)

lemma reverse_view:
  assumes "wf_store (Section n cs)" "list_all (\<lambda>e. e_name e \<noteq> None) es"
  shows "\<exists>ds'. cf_reverse rep (Section n cs) path es eq ds = Inr (eq \<and> (\<forall>e \<in> set es. \<forall>k. e_name e = Some k \<longrightarrow>
    mcs_findsubsection (Section n cs) k \<noteq> None \<or> view_key (Section n cs) k \<noteq> None), ds')"
  using assms(2)
proof (induction es arbitrary: eq ds)
  case (Cons e es)
  then obtain k where k: "e_name e = Some k" by auto
  show ?case
  proof (cases "mcs_findsubsection (Section n cs) k \<noteq> None \<or> view_key (Section n cs) k \<noteq> None")
    case True
    then show ?thesis using Cons k has_entry_view [OF assms(1), of k] by simp
  next
    case False
    then show ?thesis
      using Cons.IH [of False "ds @ [OnlyInSecond (cf_join_path path k) (e_type e = SE_SECTION)]"]
        Cons.prems k has_entry_view [OF assms(1), of k] by auto
  qed
qed simp

text \<open>A section that is found, by its own name; and that a key does not have the name of a section.\<close>

lemma found_section_named:
  assumes "mcs_findsubsection (Section l xs) k \<noteq> None"
  shows "\<exists>c j. c \<in> set xs \<and> mcs_issection c \<and> en_name c = Some j \<and> str_lower j = str_lower k \<and>
    mcs_findsubsection (Section l xs) j = mcs_findsubsection (Section l xs) k"
proof -
  obtain a where "find_section xs k = Some a"
    using assms by (cases "find_section xs k") (auto simp: mcs_findsubsection_def)
  from find_section_spec(2) [OF this] obtain j where j: "a \<in> set xs" "mcs_issection a"
    "en_name a = Some j" "str_lower j = str_lower k" by (elim conjE exE)
  then show ?thesis using find_section_lower [OF j(4), of xs]
    by (intro exI [of _ a] exI [of _ j]) (simp add: mcs_findsubsection_def)
qed

lemma section_key_clash:
  assumes wf: "wf_store (Section m ds)" and "mcs_findsubsection (Section m ds) j \<noteq> None"
    and "view_key (Section m ds) k \<noteq> None"
  shows "str_lower j \<noteq> str_lower k"
proof
  assume e: "str_lower j = str_lower k"
  obtain c i where "c \<in> set ds" "mcs_issection c" "en_name c = Some i" "str_lower i = str_lower j"
    using found_section_named [OF assms(2)] by blast
  moreover obtain ws where "Key (Some k) ws \<in> set ds" using view_key_wf(1) [OF wf, of k] assms(3) by blast
  ultimately show False using wf e by (fastforce simp: names_ok_def lower_name_def)
qed

text \<open>What the two loops check of well-formed sections is that their views agree.\<close>

definition first_loop_ok :: "mcs_entry \<Rightarrow> mcs_entry \<Rightarrow> mcs_entry \<Rightarrow> bool" where
  "first_loop_ok s t c \<longleftrightarrow> (\<forall>k. en_name c = Some k \<longrightarrow>
     (if mcs_issection c then rel_option same_view (mcs_findsubsection s k) (mcs_findsubsection t k)
      else view_key s k = view_key t k))"

definition second_loop_ok :: "mcs_entry \<Rightarrow> string option \<Rightarrow> bool" where
  "second_loop_ok s nm \<longleftrightarrow> (\<forall>k. nm = Some k \<longrightarrow> mcs_findsubsection s k \<noteq> None \<or> view_key s k \<noteq> None)"

lemma view_passes_loops:
  assumes wf: "wf_store (Section n cs)" "wf_store (Section m ds)"
    and sv: "same_view (Section n cs) (Section m ds)"
  shows "(\<forall>c \<in> set cs. first_loop_ok (Section n cs) (Section m ds) c) \<and>
    (\<forall>d \<in> set ds. second_loop_ok (Section n cs) (en_name d))"
proof -
  have st: "\<And>k. view_key (Section n cs) k = view_key (Section m ds) k"
    "\<And>k. rel_option same_view (mcs_findsubsection (Section n cs) k) (mcs_findsubsection (Section m ds) k)"
    using sv same_view_step by blast+
  have "mcs_findsubsection (Section n cs) k \<noteq> None \<or> view_key (Section n cs) k \<noteq> None"
    if d: "d \<in> set ds" "en_name d = Some k" for d k
  proof (cases d)
    case (Section x ys)
    then have "mcs_findsubsection (Section m ds) k \<noteq> None"
      using d by (simp add: mcs_findsubsection_def find_section_spec(1)) (intro bexI [of _ d], auto)
    then show ?thesis using st(2) [of k] by (cases "mcs_findsubsection (Section n cs) k") auto
  next
    case (Key x vs)
    then have "view_key (Section m ds) k = Some (map text_of vs)"
      using d by (intro view_key_wf(1) [OF wf(2), THEN iffD2]) auto
    then show ?thesis using st(1) by simp
  qed
  then show ?thesis using st by (simp add: first_loop_ok_def second_loop_ok_def)
qed

lemma loops_pass_view:
  assumes wf: "wf_store (Section n cs)" "wf_store (Section m ds)"
    and first: "\<And>c. c \<in> set cs \<Longrightarrow> first_loop_ok (Section n cs) (Section m ds) c"
    and second: "\<And>d. d \<in> set ds \<Longrightarrow> second_loop_ok (Section n cs) (en_name d)"
  shows "same_view (Section n cs) (Section m ds)"
proof -
  note clash = section_key_clash [OF wf(2)]
  have fs: "rel_option same_view (mcs_findsubsection (Section n cs) k) (mcs_findsubsection (Section m ds) k)"
    if "c \<in> set cs" "en_name c = Some k" "mcs_issection c" for c k
    using first [OF that(1)] that(2,3) by (simp add: first_loop_ok_def)
  have keys: "view_key (Section n cs) k = view_key (Section m ds) k" for k
  proof (cases "view_key (Section n cs) k")
    case (Some vs)
    then obtain ws where "Key (Some k) ws \<in> set cs" using view_key_wf(1) [OF wf(1)] by blast
    from first [OF this] show ?thesis by (simp add: first_loop_ok_def)
  next
    case None
    have "view_key (Section m ds) k = None"
    proof (rule ccontr)
      assume a: "view_key (Section m ds) k \<noteq> None"
      then obtain ws where "Key (Some k) ws \<in> set ds" using view_key_wf(1) [OF wf(2), of k] by blast
      from second [OF this] None have "mcs_findsubsection (Section n cs) k \<noteq> None"
        by (simp add: second_loop_ok_def)
      from found_section_named [OF this] this
      obtain c j where cj: "c \<in> set cs" "en_name c = Some j" "mcs_issection c" "str_lower j = str_lower k"
        "mcs_findsubsection (Section n cs) j \<noteq> None" by metis
      then have "mcs_findsubsection (Section m ds) j \<noteq> None"
        using fs [OF cj(1-3)] by (auto simp: rel_option_iff split: option.splits)
      with clash a cj(4) show False by blast
    qed
    with None show ?thesis by simp
  qed
  have "rel_option same_view (mcs_findsubsection (Section n cs) k) (mcs_findsubsection (Section m ds) k)" for k
  proof (cases "mcs_findsubsection (Section n cs) k")
    case (Some a)
    then obtain c j where cj: "c \<in> set cs" "mcs_issection c" "en_name c = Some j" "str_lower j = str_lower k"
      "mcs_findsubsection (Section n cs) j = mcs_findsubsection (Section n cs) k"
      using found_section_named [of n cs k] by auto
    have "mcs_findsubsection (Section m ds) j = mcs_findsubsection (Section m ds) k"
      using find_section_lower [OF cj(4)] by (simp add: mcs_findsubsection_def)
    with fs [OF cj(1,3,2)] cj(5) show ?thesis by simp
  next
    case None
    have "mcs_findsubsection (Section m ds) k = None"
    proof (rule ccontr)
      assume a: "mcs_findsubsection (Section m ds) k \<noteq> None"
      then obtain d j where dj: "d \<in> set ds" "en_name d = Some j" "str_lower j = str_lower k"
        "mcs_findsubsection (Section m ds) j \<noteq> None" using found_section_named [OF a] by metis
      have "mcs_findsubsection (Section n cs) j = None"
        using None find_section_lower [OF dj(3)] by (simp add: mcs_findsubsection_def)
      with second [OF dj(1)] dj(2) have "view_key (Section m ds) j \<noteq> None"
        by (simp add: second_loop_ok_def keys)
      with clash dj show False by blast
    qed
    with None show ?thesis by simp
  qed
  with keys show ?thesis using same_view_step by blast
qed

text \<open>The first loop, given that the comparison is right on the subsections.\<close>

lemma forward_view:
  assumes wf: "wf_store (Section n cs)" "wf_store (Section m ds)" and sub: "set xs \<subseteq> set cs"
    and ih: "\<And>k d1 d2 path. mcs_findsubsection (Section n cs) k = Some d1 \<Longrightarrow>
      mcs_findsubsection (Section m ds) k = Some d2 \<Longrightarrow>
      \<exists>dv. cf_section_equal rep d1 d2 path = Inr (same_view d1 d2, dv)"
    and start: "eq \<or> rep"
  shows "\<exists>dv'. cf_forward rep (Section n cs) (Section m ds) path
      (map (\<lambda>c. section_entry (list_entry c)) xs) eq dv =
    Inr (eq \<and> (\<forall>c \<in> set xs. first_loop_ok (Section n cs) (Section m ds) c), dv')"
  using sub start
proof (induction xs arbitrary: eq dv)
  case (Cons c xs)
  let ?s = "Section n cs" and ?t = "Section m ds"
  have c: "c \<in> set cs" using Cons.prems(1) by simp
  obtain k where k: "en_name c = Some k"
    using c wf(1) by (auto simp: names_ok_def list_all_iff)
  let ?p = "cf_join_path path k"
  let ?r = "if mcs_issection c
     then case mcs_findsubsection ?t k of
            None \<Rightarrow> Inr (False, if rep then [SectionOnlyInFirst ?p] else [])
          | Some d2 \<Rightarrow> (case mcs_findsubsection ?s k of None \<Rightarrow> Inl NullDeref
                       | Some d1 \<Rightarrow> cf_section_equal rep d1 d2 ?p)
     else cf_key_equal rep ?s ?t k ?p"
  have "\<exists>dv1. ?r = Inr (first_loop_ok ?s ?t c, dv1)"
  proof (cases c)
    case (Section x ys)
    then have "mcs_findsubsection ?s k \<noteq> None"
      using c k by (simp add: mcs_findsubsection_def find_section_spec(1)) (intro bexI [of _ c], auto)
    then show ?thesis
      using ih [of k] Section k by (auto simp: first_loop_ok_def split: option.splits)
  next
    case (Key x ws)
    then show ?thesis using key_equal_view [OF wf, of k ws rep ?p] c k by (simp add: first_loop_ok_def)
  qed
  then obtain dv1 where r: "?r = Inr (first_loop_ok ?s ?t c, dv1)" by blast
  let ?ok = "first_loop_ok ?s ?t c" and ?es = "map (\<lambda>c. section_entry (list_entry c))"
  have step: "cf_forward rep ?s ?t path (?es (c # xs)) eq dv =
      (if \<not> (eq \<and> ?ok) \<and> \<not> rep then Inr (eq \<and> ?ok, dv @ dv1)
       else cf_forward rep ?s ?t path (?es xs) (eq \<and> ?ok) (dv @ dv1))"
    by (simp only: list.map cf_forward.simps entry_fields k option.case r bind_res_simps fst_conv snd_conv)
  show ?case
    unfolding step using Cons.IH [of "eq \<and> ?ok" "dv @ dv1"] Cons.prems by auto
qed simp

lemma section_equal_view:
  assumes "wf_store s1" "wf_store s2" "mcs_issection s1" "mcs_issection s2"
  shows "\<exists>dv. cf_section_equal rep s1 s2 path = Inr (same_view s1 s2, dv)"
  using assms
proof (induction "size s1" arbitrary: s1 s2 path rule: less_induct)
  case less
  obtain n cs m ds where s: "s1 = Section n cs" "s2 = Section m ds"
    using less.prems(3,4) by (cases s1; cases s2) auto
  have ih: "\<exists>dv. cf_section_equal rep d1 d2 p = Inr (same_view d1 d2, dv)"
    if "mcs_findsubsection s1 k = Some d1" "mcs_findsubsection s2 k = Some d2" for k d1 d2 p
    using less.hyps [OF findsubsection_size [OF that(1)], of d2 p] that less.prems
      find_section_mem [of cs k d1] find_section_mem [of ds k d2]
    by (auto simp: s mcs_findsubsection_def list_all_iff)
  obtain r1 r2 where l: "cfsa_listSection s1 (length cs) = Inr (r1, map (\<lambda>c. section_entry (list_entry c)) cs)"
    "cfsa_listSection s2 (length ds) = Inr (r2, map (\<lambda>c. section_entry (list_entry c)) ds)"
    using list_all_entries(2) [of n cs] list_all_entries(2) [of m ds] s by auto
  let ?f = "\<forall>c \<in> set cs. first_loop_ok s1 s2 c" and ?g = "\<forall>d \<in> set ds. second_loop_ok s1 (en_name d)"
  obtain dv where f: "cf_forward rep s1 s2 path (map (\<lambda>c. section_entry (list_entry c)) cs) True [] = Inr (?f, dv)"
    using forward_view [of n cs m ds cs rep True path "[]"] less.prems ih s by auto
  have nm: "list_all (\<lambda>e. e_name e \<noteq> None) (map (\<lambda>c. section_entry (list_entry c)) ds)"
    using less.prems s by (auto simp: names_ok_def list_all_iff)
  have w1: "wf_store (Section n cs)" using less.prems s by simp
  obtain dv2 where g: "cf_reverse rep s1 path (map (\<lambda>c. section_entry (list_entry c)) ds) ?f dv = Inr (?f \<and> ?g, dv2)"
    using reverse_view [OF w1 nm, of rep path ?f dv] by (auto simp: s second_loop_ok_def)
  have "same_view s1 s2 \<longleftrightarrow> ?f \<and> ?g"
    using view_passes_loops [of n cs m ds] loops_pass_view [of n cs m ds] less.prems s by blast
  then show ?case
    using f g l s list_all_entries(1) [of n cs] list_all_entries(1) [of m ds] by auto
qed

subsection \<open>Adding and reading keys\<close>

text \<open>The interface of a store that its writers (the front-ends) and readers (the model
  configuration) share: a key that is added under an unused name is read back, and all other
  keys are as before.\<close>

locale config_table =
  fixes inv :: "'s \<Rightarrow> bool" and used :: "'s \<Rightarrow> string set"
    and get :: "'s \<Rightarrow> string \<Rightarrow> string option list option"
    and add :: "'s \<Rightarrow> string \<Rightarrow> string option list \<Rightarrow> 's"
  assumes inv_add: "inv s \<Longrightarrow> inv (add s k vs)"
    and used_add: "inv s \<Longrightarrow> used (add s k vs) = insert k (used s)"
    and get_add: "inv s \<Longrightarrow> get (add s k vs) j = (if j = k \<and> k \<notin> used s then Some vs else get s j)"
begin

lemma get_build:
  assumes "inv s" and "distinct (map fst kvs)" and "set (map fst kvs) \<inter> used s = {}"
  shows "get (fold (\<lambda>(k, vs) s. add s k vs) kvs s) j =
    (case map_of kvs j of Some vs \<Rightarrow> Some vs | None \<Rightarrow> get s j)"
  using assms
proof (induction kvs arbitrary: s)
  case (Cons kv kvs)
  obtain k vs where kv: "kv = (k, vs)" by (cases kv)
  have "get (fold (\<lambda>(k, vs) s. add s k vs) kvs (add s k vs)) j =
      (case map_of kvs j of Some vs \<Rightarrow> Some vs | None \<Rightarrow> get (add s k vs) j)"
    by (rule Cons.IH) (use Cons.prems kv in \<open>auto simp: inv_add used_add\<close>)
  moreover have "map_of kvs k = None" using Cons.prems(2) kv by (simp add: map_of_eq_None_iff)
  ultimately show ?case using Cons.prems kv by (auto simp: get_add split: option.splits)
qed simp

end

definition section_named :: "mcs_entry \<Rightarrow> bool" where
  "section_named s \<longleftrightarrow> (case s of Section n cs \<Rightarrow> list_all (\<lambda>c. en_name c \<noteq> None) cs | Key _ _ \<Rightarrow> False)"

definition used_names :: "mcs_entry \<Rightarrow> string set" where
  "used_names s = {k. \<exists>c \<in> set (case s of Section n cs \<Rightarrow> cs | Key _ _ \<Rightarrow> []). en_name c = Some k}"

definition read_key :: "mcs_entry \<Rightarrow> string \<Rightarrow> string option list option" where
  "read_key s k = (case cfsa_getMultiKey s k of Inr (r, vs) \<Rightarrow> if r < 0 then None else Some vs | Inl _ \<Rightarrow> None)"

lemma find_child_append:
  "list_all (\<lambda>c. en_name c \<noteq> None) cs \<Longrightarrow>
     find_child (cs @ [d]) k =
       (if (\<forall>c \<in> set cs. en_name c \<noteq> Some k) then find_child [d] k else find_child cs k)"
  by (induction cs) auto

interpretation cfsa: config_table section_named used_names read_key
    "\<lambda>s k vs. mcs_addchild s (mcs_createvalue (Some k) vs)"
proof
  fix s k vs j
  assume s: "section_named s"
  then obtain n cs where cs: "s = Section n cs" "list_all (\<lambda>c. en_name c \<noteq> None) cs"
    by (auto simp: section_named_def split: mcs_entry.splits)
  show "section_named (mcs_addchild s (mcs_createvalue (Some k) vs))"
    using cs by (simp add: section_named_def mcs_createvalue_def)
  show "used_names (mcs_addchild s (mcs_createvalue (Some k) vs)) = insert k (used_names s)"
    using cs by (auto simp: used_names_def mcs_createvalue_def)
  obtain r where r: "find_child cs j = Inr r" "r = None \<longleftrightarrow> (\<forall>c \<in> set cs. en_name c \<noteq> Some j)"
    using find_child_named [OF cs(2), of j] by blast
  show "read_key (mcs_addchild s (mcs_createvalue (Some k) vs)) j =
      (if j = k \<and> k \<notin> used_names s then Some vs else read_key s j)"
    using cs(1) r
    by (auto simp: read_key_def used_names_def mcs_createvalue_def cfsa_getMultiKey_def mcs_findkey_def
        mcs_findchild_def find_child_append [OF cs(2)] mcs_valuecount_def mcs_getvaluemultiple_def)
qed

lemma sub_upd_entry: "sub_entry rt p = Some e \<Longrightarrow> sub_entry (upd_entry rt p f) p = Some (f e)"
  by (induction rt p f rule: upd_entry.induct) (auto split: if_splits)

text \<open>Creating keys through a handle is adding them to the section behind it.\<close>

fun create_keys ::
    "mcs_entry \<Rightarrow> nat list \<Rightarrow> (string \<times> string option list) list \<Rightarrow> mcs_entry result" where
  "create_keys rt sec [] = Inr rt"
| "create_keys rt sec ((k, vs) # kvs) =
     bind_res (cfsa_createKey rt sec (Some k) vs) (\<lambda>rt'. create_keys rt' sec kvs)"

lemma create_keys_section:
  assumes "sub_entry rt sec = Some (Section n cs)"
  shows "\<exists>rt'. create_keys rt sec kvs = Inr rt' \<and>
    sub_entry rt' sec = Some (fold (\<lambda>(k, vs) s. mcs_addchild s (mcs_createvalue (Some k) vs)) kvs (Section n cs))"
  using assms
proof (induction kvs arbitrary: rt cs)
  case (Cons kv kvs)
  obtain k vs where kv: "kv = (k, vs)" by (cases kv)
  let ?rt = "upd_entry rt sec (\<lambda>e. mcs_addchild e (mcs_createvalue (Some k) vs))"
  have "sub_entry ?rt sec = Some (Section n (cs @ [mcs_createvalue (Some k) vs]))"
    using sub_upd_entry [OF Cons.prems] by simp
  from Cons.IH [OF this] show ?case
    using kv Cons.prems by (simp add: cfsa_createKey_def mcs_addkey_def)
qed simp

subsection \<open>Properties\<close>

text \<open>C25: \<open>cf_equal\<close> is exactly the equality that readers can observe. On well-formed stores it
  terminates without an error and returns true if and only if no sequence of section and key
  lookups can tell the two stores apart: the order of entries and the case of section names
  do not matter, the order of the values of a key does. \<open>cf_equal_report\<close> gives the same
  answer.\<close>
theorem cf_equal_decides_view:
  assumes "wf_store h1" "wf_store h2" "mcs_issection h1" "mcs_issection h2"
  shows "cf_equal h1 h2 = Inr (same_view h1 h2) \<and>
    (\<exists>dv. cf_equal_report h1 h2 = Inr (same_view h1 h2, dv))"
  using section_equal_view [OF assms, of False "[]"] section_equal_view [OF assms, of True "[]"]
  by (auto simp: cf_equal_def cf_equal_report_def)

definition ex_store :: mcs_entry where
  "ex_store = Section None
     [Section (Some ''PARAMS'') [Key (Some ''packet_size'') [Some ''512''],
                                 Key (Some ''modelnet_order'') [Some ''torus'', Some ''simplenet'']],
      Section (Some ''LPGROUPS'') []]"

definition ex_store2 :: mcs_entry where
  "ex_store2 = Section None
     [Section (Some ''lpgroups'') [],
      Section (Some ''params'') [Key (Some ''modelnet_order'') [Some ''torus'', Some ''simplenet''],
                                 Key (Some ''packet_size'') [Some ''512'']]]"

lemma ex_store_wf: "wf_store ex_store" "wf_store ex_store2"
  by code_simp+

theorem cf_equal_decides_view_witness:
  "cf_equal ex_store ex_store2 = Inr (same_view ex_store ex_store2) \<and> same_view ex_store ex_store2"
proof -
  have "cf_equal ex_store ex_store2 = Inr (same_view ex_store ex_store2)"
    using cf_equal_decides_view [OF ex_store_wf] by (simp add: ex_store_def ex_store2_def)
  moreover have "cf_equal ex_store ex_store2 = Inr True" by code_simp
  ultimately show ?thesis by simp
qed

text \<open>a store gives back what was written. Keys with new, distinct names that are created
  through a section handle are all created, and reading the section afterwards returns for
  each of them exactly its list of values and for every other name what it returned
  before.\<close>
theorem created_keys_read_back:
  assumes "sub_entry rt sec = Some (Section n cs)" and "list_all (\<lambda>c. en_name c \<noteq> None) cs"
    and "distinct (map fst kvs)" and "\<forall>c \<in> set cs. \<forall>k \<in> set (map fst kvs). en_name c \<noteq> Some k"
  shows "\<exists>rt' s'. create_keys rt sec kvs = Inr rt' \<and> sub_entry rt' sec = Some s' \<and>
    (\<forall>j. read_key s' j = (case map_of kvs j of Some vs \<Rightarrow> Some vs | None \<Rightarrow> read_key (Section n cs) j))"
proof -
  have "set (map fst kvs) \<inter> used_names (Section n cs) = {}"
    using assms(4) by (auto simp: used_names_def)
  then show ?thesis
    using create_keys_section [OF assms(1), of kvs]
      cfsa.get_build [of "Section n cs" kvs] assms(2,3) by (auto simp: section_named_def)
qed

theorem created_keys_read_back_witness:
  "\<exists>rt' s'. create_keys ex_store [0] [(''x'', [Some ''1'']), (''y'', [])] = Inr rt' \<and>
    sub_entry rt' [0] = Some s' \<and> read_key s' ''x'' = Some [Some ''1''] \<and>
    read_key s' ''packet_size'' = Some [Some ''512'']"
proof -
  have e: "sub_entry ex_store [0] = Some (Section (Some ''PARAMS'')
      [Key (Some ''packet_size'') [Some ''512''], Key (Some ''modelnet_order'') [Some ''torus'', Some ''simplenet'']])"
    (is "_ = Some (Section ?n ?cs)")
    by (simp add: ex_store_def)
  have old: "read_key (Section ?n ?cs) ''packet_size'' = Some [Some ''512'']" by code_simp
  obtain rt' s' where r: "create_keys ex_store [0] [(''x'', [Some ''1'']), (''y'', [])] = Inr rt'"
    "sub_entry rt' [0] = Some s'"
    "\<And>j. read_key s' j = (case map_of [(''x'', [Some ''1'']), (''y'', [])] j of Some vs \<Rightarrow> Some vs
       | None \<Rightarrow> read_key (Section ?n ?cs) j)"
    using created_keys_read_back [OF e, of "[(''x'', [Some ''1'']), (''y'', [])]"] by auto
  have "read_key s' ''x'' = Some [Some ''1'']" "read_key s' ''packet_size'' = Some [Some ''512'']"
    using r(3) [of "''x''"] r(3) [of "''packet_size''"] old by simp_all
  with r(1,2) show ?thesis by blast
qed

subsection \<open>Two observations\<close>

text \<open>\<open>mcs_removechild\<close> also loses every sibling before the entry it removes.\<close>

lemma removechild_drops_siblings:
  assumes "\<forall>c \<in> set (a # pre). \<exists>n. en_name c = Some n \<and> n \<noteq> k" and "en_name c = Some k"
    and "mcs_issection a" and "mcs_chaincount a \<noteq> 0"
  shows "mcs_removechild (Section n (a # pre @ c # post)) k = Inr (1, Section n post)"
proof -
  have "remove_loop all (xs @ c # post) k = Inr (1, post)"
    if "\<forall>c \<in> set xs. \<exists>n. en_name c = Some n \<and> n \<noteq> k" for all xs
    using that assms(2) by (induction xs) auto
  from this [OF assms(1)] show ?thesis using assms(3,4) by (simp add: mcs_removechild_def)
qed

text \<open>When a key has the name of a section up to case the comparison is not symmetric: the second
  loop takes the section for the key.\<close>

lemma cf_equal_asymmetric:
  "let t1 = Section None [Section (Some ''params'') []];
       t2 = Section None [Section (Some ''params'') [], Key (Some ''PARAMS'') [Some ''x'']]
   in cf_equal t1 t2 = Inr True \<and> cf_equal t2 t1 = Inr False \<and>
      view_key t1 ''PARAMS'' \<noteq> view_key t2 ''PARAMS''"
  by code_simp

end
