(* ===== verification/Configuration.thy ===== *)
theory Configuration
  imports Config_Store LP_Conf
begin

text \<open>
  Reading a configuration: src/modelconfig/configuration.c. Values of keys by section, name
  and annotation, their conversion to numbers, and \<open>configuration_get_lpgroups\<close>, which
  builds the structure \<open>config_lpgroups_t\<close> that the mapping (theory \<open>Codes_Mapping\<close>) works on.

  The C library functions \<open>strtol\<close>, \<open>atoi\<close> and \<open>strtod\<close> are modelled on the decimal notation
  (base 10, no hexadecimal floats, infinities or NaNs); a \<open>double\<close> is a real number. Strings
  of C end at their first NUL character.
\<close>

subsection \<open>Numbers\<close>

definition is_space :: "char \<Rightarrow> bool" where
  "is_space c \<longleftrightarrow> (of_char c :: nat) = 32 \<or> (9 \<le> (of_char c :: nat) \<and> (of_char c :: nat) \<le> 13)"

definition is_digit :: "char \<Rightarrow> bool" where
  "is_digit c \<longleftrightarrow> 48 \<le> (of_char c :: nat) \<and> (of_char c :: nat) \<le> 57"

definition digit_val :: "char \<Rightarrow> int" where
  "digit_val c = of_char c - 48"

definition digits_val :: "string \<Rightarrow> int" where
  "digits_val ds = fold (\<lambda>c v. 10 * v + digit_val c) ds 0"

definition split_sign :: "string \<Rightarrow> bool \<times> string" where
  "split_sign s = (case s of [] \<Rightarrow> (False, [])
     | c # r \<Rightarrow> if (of_char c :: nat) = 45 then (True, r)
                else if (of_char c :: nat) = 43 then (False, r) else (False, c # r))"

text \<open>\<open>strtol\<close> in base 10: the value, and whether \<open>errno\<close> is set to \<open>ERANGE\<close>.\<close>

definition strtol10 :: "string \<Rightarrow> int \<times> bool" where
  "strtol10 s =
     (let (neg, u) = split_sign (dropWhile is_space s);
          v = digits_val (takeWhile is_digit u); w = (if neg then - v else v)
      in if w > 2 ^ 63 - 1 then (2 ^ 63 - 1, True)
         else if w < - (2 ^ 63) then (- (2 ^ 63), True) else (w, False))"

definition atoi :: "string \<Rightarrow> int" where
  "atoi s = s32 (fst (strtol10 s))"

text \<open>\<open>strtod\<close>: digits, an optional fraction, an optional exponent.\<close>

definition frac_val :: "string \<Rightarrow> real" where
  "frac_val ds = of_int (digits_val ds) / 10 ^ length ds"

definition exponent :: "string \<Rightarrow> int" where
  "exponent r = (case r of [] \<Rightarrow> 0
     | c # r' \<Rightarrow> if (of_char c :: nat) \<in> {69, 101}
                 then let (neg, u) = split_sign r'; v = digits_val (takeWhile is_digit u)
                      in if neg then - v else v
                 else 0)"

definition strtod :: "string \<Rightarrow> real" where
  "strtod s =
     (let (neg, u) = split_sign (dropWhile is_space s); ip = takeWhile is_digit u;
          r = dropWhile is_digit u;
          (fp, r2) = (case r of [] \<Rightarrow> ([], [])
                      | c # r' \<Rightarrow> if (of_char c :: nat) = 46
                                  then (takeWhile is_digit r', dropWhile is_digit r') else ([], r));
          v = (of_int (digits_val ip) + frac_val fp) *
                (if ip = [] \<and> fp = [] then 0 else 10 powr of_int (exponent r2))
      in if neg then - v else v)"

subsection \<open>Values of keys\<close>

record config_handle =
  cfg_root :: mcs_entry
  config_dir :: string

definition CONFIGURATION_MAX_NAME :: nat where "CONFIGURATION_MAX_NAME = 128"

text \<open>\<open>name@annotation\<close>, unless it does not fit the buffer.\<close>

definition key_name_full :: "string \<Rightarrow> string option \<Rightarrow> string option" where
  "key_name_full key anno =
     (case anno of None \<Rightarrow> Some key
      | Some a \<Rightarrow> (let f = key @ ''@'' @ a in
                   if length f \<ge> CONFIGURATION_MAX_NAME then None else Some f))"

text \<open>The return code, and what is left in the caller's buffer (\<open>None\<close>: not written).\<close>

definition configuration_get_value ::
    "config_handle \<Rightarrow> string \<Rightarrow> string \<Rightarrow> string option \<Rightarrow> nat \<Rightarrow> (int \<times> string option) result" where
  "configuration_get_value h section_name key_name annotation len =
     (case key_name_full key_name annotation of
        None \<Rightarrow> Inr (1, None)
      | Some full \<Rightarrow>
          (case snd (cfsa_openSection (cfg_root h) section_name) of
             None \<Rightarrow> Inr (0, None)
           | Some sec \<Rightarrow> cfsa_getKey sec full len))"

definition configuration_get_value_relpath ::
    "config_handle \<Rightarrow> string \<Rightarrow> string \<Rightarrow> string option \<Rightarrow> nat \<Rightarrow> (int \<times> string option) result" where
  "configuration_get_value_relpath h section_name key_name annotation len =
     bind_res (configuration_get_value h section_name key_name annotation len) (\<lambda>(w, tmp).
       if w \<le> 0 then Inr (w, None)
       else case tmp of None \<Rightarrow> Inl Uninitialised
            | Some t \<Rightarrow> (let full = config_dir h @ ''/'' @ t in
                         Inr (int (length full), Some (take (len - 1) full))))"

definition configuration_get_multivalue ::
    "config_handle \<Rightarrow> string \<Rightarrow> string \<Rightarrow> string option \<Rightarrow> (int \<times> string option list) result" where
  "configuration_get_multivalue h section_name key_name annotation =
     (case key_name_full key_name annotation of
        None \<Rightarrow> Inr (1, [])
      | Some full \<Rightarrow>
          (case snd (cfsa_openSection (cfg_root h) section_name) of
             None \<Rightarrow> Inr (-1, [])
           | Some sec \<Rightarrow> cfsa_getMultiKey sec full))"

text \<open>The numeric variants share a 256-byte buffer: return code, and the new value if it is
  written.\<close>

definition get_number ::
    "(string \<Rightarrow> 'n) \<Rightarrow> (string \<Rightarrow> int) \<Rightarrow> config_handle \<Rightarrow> string \<Rightarrow> string \<Rightarrow> string option \<Rightarrow>
     (int \<times> 'n option) result" where
  "get_number conv errno h section_name key_name annotation =
     bind_res (configuration_get_value h section_name key_name annotation 256) (\<lambda>(r, buf).
       if r > 0
       then case buf of None \<Rightarrow> Inl Uninitialised | Some v \<Rightarrow> Inr (errno v, Some (conv v))
       else Inr (1, None))"

definition configuration_get_value_int where
  "configuration_get_value_int = get_number atoi (\<lambda>v. 0)"

definition configuration_get_value_uint where
  "configuration_get_value_uint = get_number (\<lambda>v. atoi v mod 2 ^ 32) (\<lambda>v. 0)"

definition ERANGE :: int where "ERANGE = 34"

definition configuration_get_value_longint where
  "configuration_get_value_longint =
     get_number (\<lambda>v. fst (strtol10 v)) (\<lambda>v. if snd (strtol10 v) then ERANGE else 0)"

text \<open>A value that rounds to more than the largest double sets \<open>errno\<close>; what \<open>strtod\<close> returns is then
  \<open>HUGE_VAL\<close>, which has no counterpart among the real numbers. (Whether a value too small for a
  normal double sets \<open>errno\<close> is left to the implementation by the C standard.)\<close>

definition strtod_errno :: "string \<Rightarrow> int" where
  "strtod_errno v = (if 2 ^ 1024 - 2 ^ 970 \<le> \<bar>strtod v\<bar> then ERANGE else 0)"

definition configuration_get_value_double where
  "configuration_get_value_double = get_number strtod strtod_errno"

subsection \<open>The string buffers\<close>

text \<open>The names of groups, LP types and annotations go into one buffer each, with the offsets
  of the distinct names.\<close>

record strpool =
  sp_buf :: string
  sp_offs :: "nat list"

definition pool_empty :: strpool where
  "pool_empty = \<lparr>sp_buf = [], sp_offs = []\<rparr>"

definition str_at :: "string \<Rightarrow> nat \<Rightarrow> string" where
  "str_at buf off = takeWhile (\<lambda>c. c \<noteq> CHR 0x00) (drop off buf)"

fun find_uniq :: "string \<Rightarrow> nat list \<Rightarrow> string \<Rightarrow> nat \<Rightarrow> nat option" where
  "find_uniq buf [] s i = None"
| "find_uniq buf (off # offs) s i =
     (let b = str_at buf off in
      if length s = length b \<and> take (length b) s = take (length b) b then Some i
      else find_uniq buf offs s (Suc i))"

definition check_add_uniq_str :: "strpool \<Rightarrow> string \<Rightarrow> strpool \<times> nat" where
  "check_add_uniq_str p s =
     (case find_uniq (sp_buf p) (sp_offs p) s 0 of
        Some i \<Rightarrow> (p, i)
      | None \<Rightarrow> (p\<lparr>sp_buf := sp_buf p @ s @ [CHR 0x00], sp_offs := sp_offs p @ [length (sp_buf p)]\<rparr>,
                 length (sp_offs p)))"

subsection \<open>LP groups\<close>

definition CONFIGURATION_MAX_GROUPS :: nat where "CONFIGURATION_MAX_GROUPS = 10"
definition CONFIGURATION_MAX_TYPES :: nat where "CONFIGURATION_MAX_TYPES = 10"
definition CONFIGURATION_MAX_ANNOS :: nat where "CONFIGURATION_MAX_ANNOS = 10"

text \<open>The structure while it is built, with offsets in place of pointers; -1 is no annotation.
  The chains \<open>rw_types\<close>, \<open>rw_annos\<close> and \<open>rw_annotations\<close> stand for the used part of an array
  with its count.\<close>

record raw_lptype =
  rw_tname :: nat
  rw_tanno :: int
  rw_tcount :: int

record raw_lpgroup =
  rw_gname :: nat
  rw_reps :: int
  rw_types :: "raw_lptype list"

record raw_anno_map =
  rw_lp_name :: nat
  rw_has_unanno :: int
  rw_unanno_first :: int
  rw_num_anno_lps :: "int list"
  rw_annotations :: "int list"

record raw_lpgroups =
  rw_groups :: "raw_lpgroup list"
  rw_count :: nat
  rw_annos :: "raw_anno_map list"
  rw_gpool :: strpool
  rw_lpool :: strpool
  rw_apool :: strpool

fun index_of :: "int \<Rightarrow> int list \<Rightarrow> nat \<Rightarrow> nat" where
  "index_of a [] i = i"
| "index_of a (b # bs) i = (if b = a then i else index_of a bs (Suc i))"

definition check_add_anno :: "int \<Rightarrow> raw_anno_map \<Rightarrow> raw_anno_map result" where
  "check_add_anno anno_offset m =
     (if anno_offset = -1
      then Inr (m\<lparr>rw_has_unanno := 1,
                  rw_unanno_first := (if rw_annotations m = [] then 1 else rw_unanno_first m)\<rparr>)
      else let a = index_of anno_offset (rw_annotations m) 0 in
           if a < length (rw_annotations m)
           then Inr (m\<lparr>rw_num_anno_lps := (rw_num_anno_lps m)[a := rw_num_anno_lps m ! a + 1]\<rparr>)
           else bind_res (c_assert (a < CONFIGURATION_MAX_ANNOS)) (\<lambda>_.
                  Inr (m\<lparr>rw_annotations := rw_annotations m @ [anno_offset],
                         rw_num_anno_lps := (rw_num_anno_lps m)[a := 1]\<rparr>)))"

definition anno_map_new :: "nat \<Rightarrow> raw_anno_map" where
  "anno_map_new nm = \<lparr>rw_lp_name = nm, rw_has_unanno = 0, rw_unanno_first = 0,
     rw_num_anno_lps = replicate CONFIGURATION_MAX_ANNOS 0, rw_annotations = []\<rparr>"

fun check_add_lp_type_anno :: "nat \<Rightarrow> int \<Rightarrow> raw_anno_map list \<Rightarrow> nat \<Rightarrow> raw_anno_map list result" where
  "check_add_lp_type_anno nm anno [] i =
     bind_res (c_assert (i < CONFIGURATION_MAX_TYPES)) (\<lambda>_.
     bind_res (check_add_anno anno (anno_map_new nm)) (\<lambda>m. Inr [m]))"
| "check_add_lp_type_anno nm anno (m # ms) i =
     (if rw_lp_name m = nm then bind_res (check_add_anno anno m) (\<lambda>m'. Inr (m' # ms))
      else bind_res (check_add_lp_type_anno nm anno ms (Suc i)) (\<lambda>ms'. Inr (m # ms')))"

text \<open>\<open>CHECKED_STRTOL\<close>: the check is on the \<open>long\<close>, the assignment narrows it to \<open>int\<close>.\<close>

definition checked_strtol :: "string \<Rightarrow> int result" where
  "checked_strtol s = (case strtol10 s of (v, err) \<Rightarrow>
     if v \<le> 0 \<or> err then Inl TwError else Inr (s32 v))"

definition split_anno :: "string \<Rightarrow> string \<times> string option" where
  "split_anno name =
     (let n = takeWhile (\<lambda>c. c \<noteq> CHR ''@'') name in
      if n = name then (name, None) else (n, Some (drop (Suc (length n)) name)))"

text \<open>The pool of annotations after one key, and the offset it gives.\<close>

definition add_anno_str :: "strpool \<Rightarrow> string option \<Rightarrow> strpool \<times> int" where
  "add_anno_str p anno = (case anno of None \<Rightarrow> (p, -1)
     | Some a \<Rightarrow> let (q, pos) = check_add_uniq_str p a in (q, int (sp_offs q ! pos)))"

text \<open>One key of a group. \<open>data\<close> is the buffer of the last value read (\<open>None\<close> before the first);
  \<open>i\<close> is the index of the group.\<close>

definition add_lp_key ::
    "mcs_entry \<Rightarrow> nat \<Rightarrow> string \<Rightarrow> string option \<Rightarrow> raw_lpgroups \<Rightarrow> (string option \<times> raw_lpgroups) result" where
  "add_lp_key sec i name data r =
     bind_res (cfsa_getKey sec name 256) (\<lambda>(ret, buf).
     let data' = (if buf = None then data else buf) in
     bind_res (rd (rw_groups r) i) (\<lambda>g.
     case data' of None \<Rightarrow> Inl Uninitialised
     | Some d \<Rightarrow>
         if name = ''repetitions''
         then bind_res (checked_strtol d) (\<lambda>n.
                Inr (data', r\<lparr>rw_groups := (rw_groups r)[i := g\<lparr>rw_reps := n\<rparr>]\<rparr>))
         else
           let (base, anno) = split_anno name;
               (apool, aoff) = add_anno_str (rw_apool r) anno;
               (lpool, lpos) = check_add_uniq_str (rw_lpool r) base;
               loff = sp_offs lpool ! lpos in
           if length (rw_types g) \<ge> CONFIGURATION_MAX_TYPES then Inl OutOfBounds
           else
           bind_res (check_add_lp_type_anno loff aoff (rw_annos r) 0) (\<lambda>annos.
           bind_res (checked_strtol d) (\<lambda>n.
             Inr (data',
                  r\<lparr>rw_groups := (rw_groups r)[i := g\<lparr>rw_types := rw_types g @
                      [\<lparr>rw_tname = loff, rw_tanno = aoff, rw_tcount = n\<rparr>]\<rparr>],
                    rw_annos := annos, rw_lpool := lpool, rw_apool := apool\<rparr>)))))"

fun group_keys ::
    "mcs_entry \<Rightarrow> nat \<Rightarrow> SectionEntry list \<Rightarrow> string option \<Rightarrow> raw_lpgroups \<Rightarrow>
     (string option \<times> raw_lpgroups) result" where
  "group_keys sec i [] data r = Inr (data, r)"
| "group_keys sec i (e # es) data r =
     (if e_type e = SE_KEY
      then case e_name e of None \<Rightarrow> Inl NullDeref
           | Some name \<Rightarrow> bind_res (add_lp_key sec i name data r) (\<lambda>(data', r').
                            group_keys sec i es data' r')
      else group_keys sec i es data r)"

text \<open>One entry of the section of the groups, with its index \<open>i\<close>. \<open>cf_openSection\<close> looks the
  name up again, without regard to case.\<close>

definition add_group ::
    "mcs_entry \<Rightarrow> nat \<Rightarrow> string \<Rightarrow> string option \<Rightarrow> raw_lpgroups \<Rightarrow> (string option \<times> raw_lpgroups) result" where
  "add_group sh i name data r =
     (case mcs_findsubsection sh name of None \<Rightarrow> Inl NullDeref
      | Some sub \<Rightarrow>
          bind_res (cfsa_listSection sub 10) (\<lambda>(cnt, subse).
          let (gpool, pos) = check_add_uniq_str (rw_gpool r) name;
              g = \<lparr>rw_gname = sp_offs gpool ! pos, rw_reps = 1, rw_types = []\<rparr> in
          bind_res (wr (rw_groups r) i g) (\<lambda>gs.
          let r' = r\<lparr>rw_groups := gs, rw_count := rw_count r + 1, rw_gpool := gpool\<rparr> in
          if length (sp_offs gpool) \<noteq> rw_count r' then Inl TwError
          else group_keys sub i subse data r')))"

fun group_sections ::
    "mcs_entry \<Rightarrow> nat \<Rightarrow> SectionEntry list \<Rightarrow> string option \<Rightarrow> raw_lpgroups \<Rightarrow> raw_lpgroups result" where
  "group_sections sh i [] data r = Inr r"
| "group_sections sh i (e # es) data r =
     (if e_type e = SE_SECTION
      then case e_name e of None \<Rightarrow> Inl NullDeref
           | Some name \<Rightarrow> bind_res (add_group sh i name data r) (\<lambda>(data', r').
                            group_sections sh (Suc i) es data' r')
      else group_sections sh (Suc i) es data r)"

text \<open>The second pass: offsets become pointers into the buffers.\<close>

definition anno_ptr :: "strpool \<Rightarrow> int \<Rightarrow> string option" where
  "anno_ptr p off = (if off = -1 then None else Some (str_at (sp_buf p) (nat off)))"

definition lptype_ptrs :: "strpool \<Rightarrow> strpool \<Rightarrow> raw_lptype \<Rightarrow> config_lptype" where
  "lptype_ptrs lp ap t = \<lparr>lpt_name = str_at (sp_buf lp) (rw_tname t), lpt_anno = anno_ptr ap (rw_tanno t),
     lpt_count = rw_tcount t\<rparr>"

definition lpgroup_ptrs :: "strpool \<Rightarrow> strpool \<Rightarrow> strpool \<Rightarrow> raw_lpgroup \<Rightarrow> config_lpgroup" where
  "lpgroup_ptrs gp lp ap g = \<lparr>lpg_name = str_at (sp_buf gp) (rw_gname g), repetitions = rw_reps g,
     lptypes = map (lptype_ptrs lp ap) (rw_types g)\<rparr>"

definition anno_map_ptrs :: "strpool \<Rightarrow> strpool \<Rightarrow> raw_anno_map \<Rightarrow> config_anno_map" where
  "anno_map_ptrs lp ap m = \<lparr>am_lp_name = str_at (sp_buf lp) (rw_lp_name m), has_unanno_lp = rw_has_unanno m,
     is_unanno_first = rw_unanno_first m, num_anno_lps = rw_num_anno_lps m,
     annotations = map (\<lambda>o1. str_at (sp_buf ap) (nat o1)) (rw_annotations m)\<rparr>"

definition pool_strings :: "strpool \<Rightarrow> string list" where
  "pool_strings p = map (str_at (sp_buf p)) (sp_offs p)"

definition lpgroups_ptrs :: "raw_lpgroups \<Rightarrow> config_lpgroups" where
  "lpgroups_ptrs r =
     \<lparr>lpgroups = map (lpgroup_ptrs (rw_gpool r) (rw_lpool r) (rw_apool r)) (take (rw_count r) (rw_groups r)),
      lpannos = map (anno_map_ptrs (rw_lpool r) (rw_apool r)) (rw_annos r),
      group_names = pool_strings (rw_gpool r), lp_names = pool_strings (rw_lpool r),
      anno_names = pool_strings (rw_apool r)\<rparr>"

definition raw_zero :: raw_lpgroups where
  "raw_zero = \<lparr>rw_groups = replicate CONFIGURATION_MAX_GROUPS \<lparr>rw_gname = 0, rw_reps = 0, rw_types = []\<rparr>,
     rw_count = 0, rw_annos = [], rw_gpool = pool_empty, rw_lpool = pool_empty, rw_apool = pool_empty\<rparr>"

definition configuration_get_lpgroups :: "config_handle \<Rightarrow> string \<Rightarrow> (int \<times> config_lpgroups) result" where
  "configuration_get_lpgroups h section_name =
     (case snd (cfsa_openSection (cfg_root h) section_name) of
        None \<Rightarrow> Inr (-1, lpgroups_ptrs raw_zero)
      | Some sh \<Rightarrow>
          bind_res (cfsa_listSection sh 10) (\<lambda>(cnt, se).
          bind_res (group_sections sh 0 se None raw_zero) (\<lambda>r. Inr (0, lpgroups_ptrs r))))"

subsection \<open>The buffers hold the names\<close>

text \<open>A name stands at an offset, ended by its NUL; appending to the buffer leaves it there.\<close>

definition off_ok :: "string \<Rightarrow> nat \<Rightarrow> string \<Rightarrow> bool" where
  "off_ok buf off s \<longleftrightarrow> CHR 0x00 \<notin> set s \<and> (\<exists>post. drop off buf = s @ CHR 0x00 # post)"

lemma off_ok_str_at: "off_ok buf off s \<Longrightarrow> str_at buf off = s"
  by (auto simp: off_ok_def str_at_def takeWhile_append)

lemma off_ok_less: "off_ok buf off s \<Longrightarrow> off < length buf"
  by (rule ccontr) (auto simp: off_ok_def)

lemma off_ok_append [intro]: "off_ok buf off s \<Longrightarrow> off_ok (buf @ x) off s"
  using off_ok_less [of buf off s] by (auto simp: off_ok_def)

lemma off_ok_new: "CHR 0x00 \<notin> set s \<Longrightarrow> off_ok (buf @ s @ [CHR 0x00]) (length buf) s"
  by (simp add: off_ok_def)

definition pool_ok :: "strpool \<Rightarrow> string list \<Rightarrow> bool" where
  "pool_ok p ss \<longleftrightarrow> distinct ss \<and> list_all2 (off_ok (sp_buf p)) (sp_offs p) ss"

lemma takeWhile_neq_less: "x \<in> set xs \<Longrightarrow> length (takeWhile (\<lambda>y. y \<noteq> x) xs) < length xs"
  by (induction xs) auto

lemma find_uniq_spec:
  assumes "list_all2 (off_ok buf) offs ss" and "CHR 0x00 \<notin> set s"
  shows "find_uniq buf offs s i = (if s \<in> set ss then Some (i + length (takeWhile (\<lambda>t. t \<noteq> s) ss)) else None)"
  using assms(1)
proof (induction offs ss arbitrary: i rule: list_all2_induct)
  case (Cons off offs t ss)
  then show ?case using off_ok_str_at [of buf off t] by (auto simp: Let_def)
qed simp

lemma pool_offsets_distinct:
  assumes "pool_ok p ss"
  shows "distinct (sp_offs p)"
proof -
  have "sp_offs p ! i \<noteq> sp_offs p ! j" if "i < length ss" "j < length ss" "i \<noteq> j" for i j
    using assms that off_ok_str_at by (metis list_all2_conv_all_nth nth_eq_iff_index_eq pool_ok_def)
  moreover have "length (sp_offs p) = length ss" using assms by (auto simp: pool_ok_def list_all2_conv_all_nth)
  ultimately show ?thesis by (simp add: distinct_conv_nth)
qed

lemma check_add_uniq_str_ok:
  assumes ok: "pool_ok p ss" and nul: "CHR 0x00 \<notin> set s" and r: "check_add_uniq_str p s = (p', pos)"
  shows "pool_ok p' (if s \<in> set ss then ss else ss @ [s])" and "off_ok (sp_buf p') (sp_offs p' ! pos) s"
    and "\<And>off t. off_ok (sp_buf p) off t \<Longrightarrow> off_ok (sp_buf p') off t"
    and "set (sp_offs p') = insert (sp_offs p' ! pos) (set (sp_offs p))"
proof -
  have l: "list_all2 (off_ok (sp_buf p)) (sp_offs p) ss" using ok by (simp add: pool_ok_def)
  let ?k = "length (takeWhile (\<lambda>t. t \<noteq> s) ss)"
  have f: "find_uniq (sp_buf p) (sp_offs p) s 0 = (if s \<in> set ss then Some ?k else None)"
    using find_uniq_spec [OF l nul, of 0] by simp
  have "pool_ok p' (if s \<in> set ss then ss else ss @ [s]) \<and> off_ok (sp_buf p') (sp_offs p' ! pos) s \<and>
    (\<forall>off t. off_ok (sp_buf p) off t \<longrightarrow> off_ok (sp_buf p') off t) \<and>
    set (sp_offs p') = insert (sp_offs p' ! pos) (set (sp_offs p))"
  proof (cases "s \<in> set ss")
    case True
    then have k: "?k < length ss" "ss ! ?k = s"
      using nth_length_takeWhile [of "\<lambda>t. t \<noteq> s" ss] takeWhile_neq_less [of s ss] by auto
    have "p' = p" "pos = ?k" using r f True by (auto simp: check_add_uniq_str_def)
    with k l ok True show ?thesis by (auto simp: list_all2_conv_all_nth)
  next
    case False
    have p': "p' = p\<lparr>sp_buf := sp_buf p @ s @ [CHR 0x00], sp_offs := sp_offs p @ [length (sp_buf p)]\<rparr>"
      "pos = length (sp_offs p)" using r f False by (auto simp: check_add_uniq_str_def)
    have "list_all2 (off_ok (sp_buf p @ s @ [CHR 0x00])) (sp_offs p) ss"
      using l by (rule list_all2_mono) auto
    then show ?thesis
      using ok False p' off_ok_new [OF nul] by (auto simp: pool_ok_def intro!: list_all2_appendI)
  qed
  then show "pool_ok p' (if s \<in> set ss then ss else ss @ [s])" "off_ok (sp_buf p') (sp_offs p' ! pos) s"
    "\<And>off t. off_ok (sp_buf p) off t \<Longrightarrow> off_ok (sp_buf p') off t"
    "set (sp_offs p') = insert (sp_offs p' ! pos) (set (sp_offs p))" by blast+
qed

lemma pool_size:
  assumes "pool_ok p ss" and "set ss \<subseteq> B" and "finite B"
  shows "length (sp_offs p) \<le> card B"
proof -
  have "length (sp_offs p) = card (set ss)"
    using assms(1) by (auto simp: pool_ok_def distinct_card dest: list_all2_lengthD)
  then show ?thesis using card_mono [OF assms(3,2)] by simp
qed

subsection \<open>The table of annotations\<close>

definition anno_map_ok :: "nat set \<Rightarrow> raw_anno_map \<Rightarrow> bool" where
  "anno_map_ok offs m \<longleftrightarrow> distinct (rw_annotations m) \<and> set (rw_annotations m) \<subseteq> int ` offs \<and>
     length (rw_num_anno_lps m) = CONFIGURATION_MAX_ANNOS"

lemma index_of_spec:
  "index_of a as i = (if a \<in> set as then i + length (takeWhile (\<lambda>b. b \<noteq> a) as) else i + length as)"
  by (induction as arbitrary: i) auto

lemma check_add_anno_ok:
  assumes ok: "anno_map_ok offs m" and off: "anno = -1 \<or> anno \<in> int ` offs"
    and sz: "finite offs" "card offs \<le> CONFIGURATION_MAX_ANNOS"
  shows "\<exists>m'. check_add_anno anno m = Inr m' \<and> anno_map_ok offs m' \<and> rw_lp_name m' = rw_lp_name m"
proof -
  let ?as = "rw_annotations m"
  have "length ?as < CONFIGURATION_MAX_ANNOS" if "anno \<notin> set ?as" "anno \<in> int ` offs"
  proof -
    have "insert anno (set ?as) \<subseteq> int ` offs" using ok that by (auto simp: anno_map_ok_def)
    then have "card (insert anno (set ?as)) \<le> card offs"
      using card_mono [of "int ` offs" "insert anno (set ?as)"] sz(1) by (simp add: card_image)
    then show ?thesis using that(1) ok sz(2) by (simp add: anno_map_ok_def distinct_card)
  qed
  moreover have "length (takeWhile (\<lambda>b. b \<noteq> anno) ?as) < length ?as" if "anno \<in> set ?as"
    using takeWhile_neq_less [OF that] .
  ultimately show ?thesis
    using ok off by (auto simp: check_add_anno_def index_of_spec anno_map_ok_def Let_def)
qed

lemma check_add_lp_type_anno_ok:
  assumes "list_all (anno_map_ok offs) ms" and "distinct (map rw_lp_name ms)"
    and "anno = -1 \<or> anno \<in> int ` offs" and "finite offs" "card offs \<le> CONFIGURATION_MAX_ANNOS"
    and "nm \<notin> set (map rw_lp_name ms) \<Longrightarrow> i + length ms < CONFIGURATION_MAX_TYPES"
  shows "\<exists>ms'. check_add_lp_type_anno nm anno ms i = Inr ms' \<and> list_all (anno_map_ok offs) ms' \<and>
    distinct (map rw_lp_name ms') \<and> set (map rw_lp_name ms') = insert nm (set (map rw_lp_name ms))"
  using assms
proof (induction ms arbitrary: i)
  case Nil
  have "anno_map_ok offs (anno_map_new nm)" by (simp add: anno_map_ok_def anno_map_new_def)
  from check_add_anno_ok [OF this Nil.prems(3-5)] show ?case
    using Nil.prems(6) by (auto simp: anno_map_new_def)
next
  case (Cons m ms)
  show ?case
  proof (cases "rw_lp_name m = nm")
    case True
    then show ?thesis using check_add_anno_ok [OF _ Cons.prems(3-5), of m] Cons.prems(1,2) by auto
  next
    case False
    then show ?thesis using Cons.IH [of "Suc i"] Cons.prems by auto
  qed
qed

lemma anno_map_ok_mono: "anno_map_ok offs m \<Longrightarrow> offs \<subseteq> offs' \<Longrightarrow> anno_map_ok offs' m"
  unfolding anno_map_ok_def by (meson image_mono order_trans)

subsection \<open>What the groups of a section mean\<close>

text \<open>The reading of a section of groups: each key is a type and its count, an annotation follows
  an \<open>@\<close>, and the key \<open>repetitions\<close> sets the repetitions, one if it is absent.\<close>

definition spec_type :: "string \<times> string \<Rightarrow> config_lptype" where
  "spec_type kv = \<lparr>lpt_name = fst (split_anno (fst kv)), lpt_anno = snd (split_anno (fst kv)),
     lpt_count = fst (strtol10 (snd kv))\<rparr>"

definition spec_group :: "string \<times> (string \<times> string) list \<Rightarrow> config_lpgroup" where
  "spec_group g = \<lparr>lpg_name = fst g,
     repetitions = (case map_of (snd g) ''repetitions'' of None \<Rightarrow> 1 | Some v \<Rightarrow> fst (strtol10 v)),
     lptypes = map spec_type (filter (\<lambda>kv. fst kv \<noteq> ''repetitions'') (snd g))\<rparr>"

definition group_entry :: "string \<times> (string \<times> string) list \<Rightarrow> mcs_entry" where
  "group_entry g = Section (Some (fst g)) (map (\<lambda>(k, v). Key (Some k) [Some v]) (snd g))"

text \<open>Names and annotations of the types of a list of groups.\<close>

definition type_names :: "config_lpgroup list \<Rightarrow> string set" where
  "type_names gs = (\<Union>g \<in> set gs. lpt_name ` set (lptypes g))"

definition type_annos :: "config_lpgroup list \<Rightarrow> string set" where
  "type_annos gs = (\<Union>g \<in> set gs. \<Union>t \<in> set (lptypes g). set_option (lpt_anno t))"

definition wf_key :: "string \<times> string \<Rightarrow> bool" where
  "wf_key kv \<longleftrightarrow> CHR 0x00 \<notin> set (fst kv) \<and> length (snd kv) \<le> 255 \<and> \<not> snd (strtol10 (snd kv)) \<and>
     0 < fst (strtol10 (snd kv)) \<and> fst (strtol10 (snd kv)) < 2 ^ 31"

definition wf_group_src :: "string \<times> (string \<times> string) list \<Rightarrow> bool" where
  "wf_group_src g \<longleftrightarrow> CHR 0x00 \<notin> set (fst g) \<and> length (snd g) \<le> 10 \<and> distinct (map fst (snd g)) \<and>
     list_all wf_key (snd g)"

text \<open>A section that fits the limits of the structure.\<close>

definition wf_groups_src :: "(string \<times> (string \<times> string) list) list \<Rightarrow> bool" where
  "wf_groups_src gs \<longleftrightarrow> length gs \<le> 10 \<and> distinct (map (\<lambda>g. str_lower (fst g)) gs) \<and>
     list_all wf_group_src gs \<and> card (type_names (map spec_group gs)) \<le> CONFIGURATION_MAX_TYPES \<and>
     card (type_annos (map spec_group gs)) \<le> CONFIGURATION_MAX_ANNOS"

text \<open>The effect of one key on a group.\<close>

definition upd_group :: "string \<times> string \<Rightarrow> config_lpgroup \<Rightarrow> config_lpgroup" where
  "upd_group kv g = (if fst kv = ''repetitions'' then g\<lparr>repetitions := fst (strtol10 (snd kv))\<rparr>
     else g\<lparr>lptypes := lptypes g @ [spec_type kv]\<rparr>)"

lemma fold_upd_group:
  assumes "distinct (map fst kvs)"
  shows "fold upd_group kvs g = g\<lparr>
     repetitions := (case map_of kvs ''repetitions'' of None \<Rightarrow> repetitions g | Some v \<Rightarrow> fst (strtol10 v)),
     lptypes := lptypes g @ map spec_type (filter (\<lambda>kv. fst kv \<noteq> ''repetitions'') kvs)\<rparr>"
  using assms
proof (induction kvs arbitrary: g)
  case (Cons kv kvs)
  obtain k v where [simp]: "kv = (k, v)" by (cases kv)
  show ?case
  proof (cases "k = ''repetitions''")
    case True
    moreover have "map_of kvs ''repetitions'' = None" using Cons.prems True by (auto simp: map_of_eq_None_iff)
    ultimately show ?thesis using Cons by (simp add: upd_group_def)
  next
    case False
    then show ?thesis using Cons by (auto simp: upd_group_def split: option.split)
  qed
qed simp

subsection \<open>The structure under construction represents the groups read so far\<close>

definition type_rep :: "strpool \<Rightarrow> strpool \<Rightarrow> raw_lptype \<Rightarrow> config_lptype \<Rightarrow> bool" where
  "type_rep lp ap t T \<longleftrightarrow> off_ok (sp_buf lp) (rw_tname t) (lpt_name T) \<and> rw_tcount t = lpt_count T \<and>
     (case lpt_anno T of None \<Rightarrow> rw_tanno t = -1
      | Some a \<Rightarrow> 0 \<le> rw_tanno t \<and> off_ok (sp_buf ap) (nat (rw_tanno t)) a)"

definition group_rep :: "strpool \<Rightarrow> strpool \<Rightarrow> strpool \<Rightarrow> raw_lpgroup \<Rightarrow> config_lpgroup \<Rightarrow> bool" where
  "group_rep gp lp ap g G \<longleftrightarrow> off_ok (sp_buf gp) (rw_gname g) (lpg_name G) \<and>
     rw_reps g = repetitions G \<and> list_all2 (type_rep lp ap) (rw_types g) (lptypes G)"

definition conf_rep :: "raw_lpgroups \<Rightarrow> config_lpgroup list \<Rightarrow> bool" where
  "conf_rep r Gs \<longleftrightarrow> pool_ok (rw_gpool r) (map lpg_name Gs) \<and>
     (\<exists>Ls. pool_ok (rw_lpool r) Ls \<and> set Ls = type_names Gs) \<and>
     (\<exists>As. pool_ok (rw_apool r) As \<and> set As = type_annos Gs) \<and>
     rw_count r = length Gs \<and> length (rw_groups r) = CONFIGURATION_MAX_GROUPS \<and>
     list_all2 (group_rep (rw_gpool r) (rw_lpool r) (rw_apool r)) (take (length Gs) (rw_groups r)) Gs \<and>
     list_all (anno_map_ok (set (sp_offs (rw_apool r)))) (rw_annos r) \<and>
     distinct (map rw_lp_name (rw_annos r)) \<and>
     set (map rw_lp_name (rw_annos r)) = set (sp_offs (rw_lpool r))"

lemma list_all2_map_eq: "list_all2 R xs ys \<Longrightarrow> (\<And>x y. R x y \<Longrightarrow> f x = y) \<Longrightarrow> map f xs = ys"
  by (induction rule: list_all2_induct) auto

lemma type_rep_ptrs: "type_rep lp ap t T \<Longrightarrow> lptype_ptrs lp ap t = T"
  by (cases T) (auto simp: type_rep_def lptype_ptrs_def anno_ptr_def off_ok_str_at split: option.splits)

lemma group_rep_ptrs: "group_rep gp lp ap g G \<Longrightarrow> lpgroup_ptrs gp lp ap g = G"
  by (cases G) (auto simp: group_rep_def lpgroup_ptrs_def off_ok_str_at
      intro!: list_all2_map_eq [OF _ type_rep_ptrs])

lemma pool_ok_strings: "pool_ok p ss \<Longrightarrow> pool_strings p = ss \<and> distinct ss"
  by (auto simp: pool_ok_def pool_strings_def intro!: list_all2_map_eq [OF _ off_ok_str_at])

lemma conf_rep_ptrs:
  assumes "conf_rep r Gs"
  shows "lpgroups (lpgroups_ptrs r) = Gs" and "group_names (lpgroups_ptrs r) = map lpg_name Gs"
    and "distinct (lp_names (lpgroups_ptrs r)) \<and> set (lp_names (lpgroups_ptrs r)) = type_names Gs"
    and "distinct (anno_names (lpgroups_ptrs r)) \<and> set (anno_names (lpgroups_ptrs r)) = type_annos Gs"
proof -
  have "list_all2 (group_rep (rw_gpool r) (rw_lpool r) (rw_apool r)) (take (rw_count r) (rw_groups r)) Gs"
    using assms by (simp add: conf_rep_def)
  then show "lpgroups (lpgroups_ptrs r) = Gs"
    by (auto simp: lpgroups_ptrs_def intro!: list_all2_map_eq [OF _ group_rep_ptrs])
qed (use assms in \<open>auto simp: conf_rep_def lpgroups_ptrs_def dest!: pool_ok_strings\<close>)

lemma type_rep_mono:
  assumes "type_rep lp ap t T"
    and "\<And>off s. off_ok (sp_buf lp) off s \<Longrightarrow> off_ok (sp_buf lp') off s"
    and "\<And>off s. off_ok (sp_buf ap) off s \<Longrightarrow> off_ok (sp_buf ap') off s"
  shows "type_rep lp' ap' t T"
  using assms by (auto simp: type_rep_def split: option.splits)

lemma group_rep_mono:
  assumes "group_rep gp lp ap g G"
    and "\<And>off s. off_ok (sp_buf gp) off s \<Longrightarrow> off_ok (sp_buf gp') off s"
    and "\<And>off s. off_ok (sp_buf lp) off s \<Longrightarrow> off_ok (sp_buf lp') off s"
    and "\<And>off s. off_ok (sp_buf ap) off s \<Longrightarrow> off_ok (sp_buf ap') off s"
  shows "group_rep gp' lp' ap' g G"
  using assms type_rep_mono [OF _ assms(3,4)]
  by (auto simp: group_rep_def intro: list_all2_mono)

lemma add_anno_str_ok:
  assumes ok: "pool_ok p ss" and nul: "case anno of None \<Rightarrow> True | Some a \<Rightarrow> CHR 0x00 \<notin> set a"
    and r: "add_anno_str p anno = (p', off)"
  shows "\<exists>ss'. pool_ok p' ss' \<and> set ss' = set ss \<union> set_option anno"
    and "case anno of None \<Rightarrow> off = -1 | Some a \<Rightarrow> 0 \<le> off \<and> off_ok (sp_buf p') (nat off) a"
    and "off = -1 \<or> off \<in> int ` set (sp_offs p')"
    and "\<And>off t. off_ok (sp_buf p) off t \<Longrightarrow> off_ok (sp_buf p') off t"
    and "set (sp_offs p) \<subseteq> set (sp_offs p')"
proof -
  have "(\<exists>ss'. pool_ok p' ss' \<and> set ss' = set ss \<union> set_option anno) \<and>
    (case anno of None \<Rightarrow> off = -1 | Some a \<Rightarrow> 0 \<le> off \<and> off_ok (sp_buf p') (nat off) a) \<and>
    (off = -1 \<or> off \<in> int ` set (sp_offs p')) \<and>
    (\<forall>off t. off_ok (sp_buf p) off t \<longrightarrow> off_ok (sp_buf p') off t) \<and> set (sp_offs p) \<subseteq> set (sp_offs p')"
  proof (cases anno)
    case (Some a)
    obtain q pos where q: "check_add_uniq_str p a = (q, pos)" by force
    have a: "CHR 0x00 \<notin> set a" and p': "p' = q" "off = int (sp_offs q ! pos)"
      using nul r Some q by (auto simp: add_anno_str_def)
    note u = check_add_uniq_str_ok [OF ok a q]
    have "set (if a \<in> set ss then ss else ss @ [a]) = set ss \<union> {a}" by auto
    then show ?thesis using u Some p' by auto
  qed (use ok r in \<open>auto simp: add_anno_str_def\<close>)
  then show "\<exists>ss'. pool_ok p' ss' \<and> set ss' = set ss \<union> set_option anno"
    "case anno of None \<Rightarrow> off = -1 | Some a \<Rightarrow> 0 \<le> off \<and> off_ok (sp_buf p') (nat off) a"
    "off = -1 \<or> off \<in> int ` set (sp_offs p')"
    "\<And>off t. off_ok (sp_buf p) off t \<Longrightarrow> off_ok (sp_buf p') off t"
    "set (sp_offs p) \<subseteq> set (sp_offs p')" by blast+
qed

lemma checked_strtol_ok: "wf_key (k, v) \<Longrightarrow> checked_strtol v = Inr (fst (strtol10 v))"
  by (cases "strtol10 v") (auto simp: wf_key_def checked_strtol_def s32_id)

lemma split_anno_nul:
  assumes "split_anno k = (base, anno)" and "c \<notin> set k"
  shows "c \<notin> set base" and "case anno of None \<Rightarrow> True | Some a \<Rightarrow> c \<notin> set a"
  using assms by (auto simp: split_anno_def Let_def dest: set_takeWhileD in_set_dropD split: if_splits)

lemma take_Suc_rep:
  assumes "length Gs < length xs"
  shows "list_all2 R (take (Suc (length Gs)) xs) (Gs @ [G]) \<longleftrightarrow>
    list_all2 R (take (length Gs) xs) Gs \<and> R (xs ! length Gs) G"
  using assms by (simp add: take_Suc_conv_app_nth list_all2_append)

lemma names_annos_append [simp]:
  "type_names (Gs @ Hs) = type_names Gs \<union> type_names Hs" "type_annos (Gs @ Hs) = type_annos Gs \<union> type_annos Hs"
  "finite (type_names Gs)" "finite (type_annos Gs)"
  by (auto simp: type_names_def type_annos_def)

lemma names_annos_upd:
  assumes "k \<noteq> ''repetitions''" and "split_anno k = (base, anno)"
  shows "type_names [upd_group (k, v) G] = insert base (type_names [G])"
    and "type_annos [upd_group (k, v) G] = type_annos [G] \<union> set_option anno"
  using assms by (auto simp: type_names_def type_annos_def upd_group_def spec_type_def)

lemma names_annos_reps [simp]:
  "type_names [upd_group (''repetitions'', v) G] = type_names [G]"
  "type_annos [upd_group (''repetitions'', v) G] = type_annos [G]"
  by (auto simp: type_names_def type_annos_def upd_group_def)

lemma upd_group_name [simp]: "lpg_name (upd_group kv G) = lpg_name G"
  by (simp add: upd_group_def)

lemma conf_rep_reps:
  assumes rep: "conf_rep r (Gs @ [G])" and g: "rd (rw_groups r) (length Gs) = Inr g"
  shows "conf_rep (r\<lparr>rw_groups := (rw_groups r)[length Gs := g\<lparr>rw_reps := fst (strtol10 v)\<rparr>]\<rparr>)
     (Gs @ [upd_group (''repetitions'', v) G])"
proof -
  have l: "length Gs < length (rw_groups r)" "g = rw_groups r ! length Gs"
    using g by (auto simp: rd_def split: if_splits)
  then show ?thesis
    using rep by (auto simp: conf_rep_def take_Suc_rep group_rep_def upd_group_def type_names_def type_annos_def)
qed

lemma conf_rep_type:
  assumes rep: "conf_rep r (Gs @ [G])" and g: "rd (rw_groups r) (length Gs) = Inr g"
    and k: "k \<noteq> ''repetitions''" "split_anno k = (base, anno)" "CHR 0x00 \<notin> set k"
    and cards: "card (type_names (Gs @ [upd_group (k, v) G])) \<le> CONFIGURATION_MAX_TYPES"
      "card (type_annos (Gs @ [upd_group (k, v) G])) \<le> CONFIGURATION_MAX_ANNOS"
    and a: "add_anno_str (rw_apool r) anno = (ap, aoff)"
    and l: "check_add_uniq_str (rw_lpool r) base = (lp, lpos)"
  shows "\<exists>annos. check_add_lp_type_anno (sp_offs lp ! lpos) aoff (rw_annos r) 0 = Inr annos \<and>
    conf_rep (r\<lparr>rw_groups := (rw_groups r)[length Gs := g\<lparr>rw_types := rw_types g @
        [\<lparr>rw_tname = sp_offs lp ! lpos, rw_tanno = aoff, rw_tcount = fst (strtol10 v)\<rparr>]\<rparr>],
      rw_annos := annos, rw_lpool := lp, rw_apool := ap\<rparr>) (Gs @ [upd_group (k, v) G])"
proof -
  let ?Gs = "Gs @ [upd_group (k, v) G]" and ?off = "sp_offs lp ! lpos"
  note nu = names_annos_upd [OF k(1,2), of v G]
  obtain Ls As where Ls: "pool_ok (rw_lpool r) Ls" "set Ls = type_names (Gs @ [G])"
    and As: "pool_ok (rw_apool r) As" "set As = type_annos (Gs @ [G])"
    using rep by (auto simp: conf_rep_def)
  note ao = add_anno_str_ok [OF As(1) split_anno_nul(2) [OF k(2,3)] a]
  note lo = check_add_uniq_str_ok [OF Ls(1) split_anno_nul(1) [OF k(2,3)] l]
  obtain As' where As': "pool_ok ap As'" "set As' = type_annos ?Gs"
    using ao(1) As(2) nu(2) by auto
  obtain Ls' where Ls': "pool_ok lp Ls'" "set Ls' = type_names ?Gs"
    using lo(1) Ls(2) nu(1) by (auto split: if_splits)
  have la: "length (sp_offs ap) \<le> CONFIGURATION_MAX_ANNOS"
    using pool_size [OF As'(1), of "type_annos ?Gs"] As'(2) cards(2) by simp
  have ll: "length (sp_offs lp) \<le> CONFIGURATION_MAX_TYPES"
    using pool_size [OF Ls'(1), of "type_names ?Gs"] Ls'(2) cards(1) by simp
  have m: "list_all (anno_map_ok (set (sp_offs ap))) (rw_annos r)"
    using rep ao(5) by (auto simp: conf_rep_def list_all_iff intro: anno_map_ok_mono)
  have d: "distinct (map rw_lp_name (rw_annos r))" "set (map rw_lp_name (rw_annos r)) = set (sp_offs (rw_lpool r))"
    using rep by (auto simp: conf_rep_def)
  have room: "0 + length (rw_annos r) < CONFIGURATION_MAX_TYPES" if "?off \<notin> set (map rw_lp_name (rw_annos r))"
  proof -
    have "length (rw_annos r) = card (set (sp_offs (rw_lpool r)))"
      using distinct_card [OF d(1)] d(2) by simp
    also have "\<dots> < card (set (sp_offs lp))" using that d(2) lo(4) by (simp add: card_insert_if)
    finally show ?thesis using card_length [of "sp_offs lp"] ll by simp
  qed
  have "card (set (sp_offs ap)) \<le> CONFIGURATION_MAX_ANNOS" using la card_length order_trans by blast
  from check_add_lp_type_anno_ok [OF m d(1) ao(3) finite_set this, of ?off 0, OF room]
  obtain annos where an: "check_add_lp_type_anno ?off aoff (rw_annos r) 0 = Inr annos"
    "list_all (anno_map_ok (set (sp_offs ap))) annos" "distinct (map rw_lp_name annos)"
    "set (map rw_lp_name annos) = insert ?off (set (map rw_lp_name (rw_annos r)))" by auto
  have gl: "length Gs < length (rw_groups r)" "g = rw_groups r ! length Gs"
    using g by (auto simp: rd_def split: if_splits)
  have gr: "list_all2 (group_rep (rw_gpool r) lp ap) (take (length Gs) (rw_groups r)) Gs"
    and gg: "group_rep (rw_gpool r) lp ap g G"
    using rep gl group_rep_mono [OF _ _ lo(3) ao(4), where gp = "rw_gpool r" and gp' = "rw_gpool r"]
    by (auto simp: conf_rep_def take_Suc_rep intro: list_all2_mono)
  have "type_rep lp ap \<lparr>rw_tname = ?off, rw_tanno = aoff, rw_tcount = fst (strtol10 v)\<rparr> (spec_type (k, v))"
    using lo(2) ao(2) k(2) by (auto simp: type_rep_def spec_type_def split: option.splits)
  with gg have "group_rep (rw_gpool r) lp ap (g\<lparr>rw_types := rw_types g @
      [\<lparr>rw_tname = ?off, rw_tanno = aoff, rw_tcount = fst (strtol10 v)\<rparr>]\<rparr>) (upd_group (k, v) G)"
    using k(1) by (auto simp: group_rep_def upd_group_def intro!: list_all2_appendI)
  with gr gl rep As' Ls' an lo(4) d(2) show ?thesis
    by (auto simp: conf_rep_def take_Suc_rep)
qed

lemma add_lp_key_ok:
  assumes rep: "conf_rep r (Gs @ [G])" and key: "cfsa_getKey sec k 256 = Inr (ret, Some v)" and wf: "wf_key (k, v)"
    and len: "length (lptypes G) < CONFIGURATION_MAX_TYPES"
    and cards: "card (type_names (Gs @ [upd_group (k, v) G])) \<le> CONFIGURATION_MAX_TYPES"
      "card (type_annos (Gs @ [upd_group (k, v) G])) \<le> CONFIGURATION_MAX_ANNOS"
  shows "\<exists>r'. add_lp_key sec (length Gs) k data r = Inr (Some v, r') \<and> conf_rep r' (Gs @ [upd_group (k, v) G])"
proof -
  have "list_all2 (group_rep (rw_gpool r) (rw_lpool r) (rw_apool r)) (take (Suc (length Gs)) (rw_groups r)) (Gs @ [G])"
    using rep by (simp add: conf_rep_def)
  from list_all2_lengthD [OF this] have i: "length Gs < length (rw_groups r)" by simp
  let ?g = "rw_groups r ! length Gs"
  have g: "rd (rw_groups r) (length Gs) = Inr ?g" using i by simp
  have tl: "length (rw_types ?g) = length (lptypes G)"
    using rep i by (auto simp: conf_rep_def take_Suc_rep group_rep_def dest: list_all2_lengthD)
  note n = checked_strtol_ok [OF wf]
  show ?thesis
  proof (cases "k = ''repetitions''")
    case True
    with conf_rep_reps [OF rep g, of v] key show ?thesis
      by (simp add: add_lp_key_def g n)
  next
    case False
    obtain base anno ap aoff lp lpos where s: "split_anno k = (base, anno)"
      "add_anno_str (rw_apool r) anno = (ap, aoff)" "check_add_uniq_str (rw_lpool r) base = (lp, lpos)"
      by (metis surj_pair)
    have "CHR 0x00 \<notin> set k" using wf by (simp add: wf_key_def)
    from conf_rep_type [OF rep g False s(1) this cards s(2,3)] show ?thesis
      using False len tl by (auto simp: add_lp_key_def key g n s)
  qed
qed

text \<open>All keys of a group.\<close>

lemma upd_group_grows:
  "type_names [H] \<subseteq> type_names [fold upd_group es H]" "type_annos [H] \<subseteq> type_annos [fold upd_group es H]"
proof -
  have "set (lptypes H) \<subseteq> set (lptypes (fold upd_group es H))"
  proof (induction es arbitrary: H)
    case (Cons e es)
    show ?case using Cons [of "upd_group e H"] by (auto simp: upd_group_def split: if_splits)
  qed simp
  then show "type_names [H] \<subseteq> type_names [fold upd_group es H]" "type_annos [H] \<subseteq> type_annos [fold upd_group es H]"
    by (auto simp: type_names_def type_annos_def)
qed

lemma group_keys_ok:
  assumes "conf_rep r (Gs @ [G])" and "\<forall>(k, v) \<in> set kvs. \<exists>ret. cfsa_getKey sec k 256 = Inr (ret, Some v)"
    and "list_all wf_key kvs" and "length (lptypes G) + length kvs \<le> CONFIGURATION_MAX_TYPES"
    and "card (type_names (Gs @ [fold upd_group kvs G])) \<le> CONFIGURATION_MAX_TYPES"
    and "card (type_annos (Gs @ [fold upd_group kvs G])) \<le> CONFIGURATION_MAX_ANNOS"
  shows "\<exists>data' r'. group_keys sec (length Gs) (map (\<lambda>(k, v). \<lparr>e_name = Some k, e_type = SE_KEY\<rparr>) kvs) data r =
      Inr (data', r') \<and> conf_rep r' (Gs @ [fold upd_group kvs G])"
  using assms
proof (induction kvs arbitrary: r G data)
  case (Cons kv kvs)
  obtain k v where [simp]: "kv = (k, v)" by (cases kv)
  let ?G = "upd_group (k, v) G"
  have "card (type_names (Gs @ [?G])) \<le> card (type_names (Gs @ [fold upd_group (kv # kvs) G]))"
    "card (type_annos (Gs @ [?G])) \<le> card (type_annos (Gs @ [fold upd_group (kv # kvs) G]))"
    using upd_group_grows [of ?G kvs] by (auto intro!: card_mono)
  with Cons.prems have cards: "card (type_names (Gs @ [?G])) \<le> CONFIGURATION_MAX_TYPES"
    "card (type_annos (Gs @ [?G])) \<le> CONFIGURATION_MAX_ANNOS" by linarith+
  obtain ret where key: "cfsa_getKey sec k 256 = Inr (ret, Some v)" using Cons.prems(2) by auto
  have wf: "wf_key (k, v)" and len: "length (lptypes G) < CONFIGURATION_MAX_TYPES"
    using Cons.prems(3,4) by auto
  obtain r' where r': "add_lp_key sec (length Gs) k data r = Inr (Some v, r')" "conf_rep r' (Gs @ [?G])"
    using add_lp_key_ok [OF Cons.prems(1) key wf len cards] by blast
  have "length (lptypes ?G) \<le> Suc (length (lptypes G))" by (simp add: upd_group_def)
  then show ?case using Cons.IH [OF r'(2), of "Some v"] Cons.prems r'(1) by simp
qed simp

text \<open>A new group.\<close>

definition group_start :: "string \<Rightarrow> config_lpgroup" where
  "group_start n = \<lparr>lpg_name = n, repetitions = 1, lptypes = []\<rparr>"

lemma spec_group_fold:
  assumes "wf_group_src g"
  shows "fold upd_group (snd g) (group_start (fst g)) = spec_group g"
proof -
  have "distinct (map fst (snd g))" using assms by (simp add: wf_group_src_def)
  from fold_upd_group [OF this] show ?thesis by (simp add: group_start_def spec_group_def split: option.split)
qed

lemma spec_group_name [simp]: "lpg_name (spec_group g) = fst g"
  by (simp add: spec_group_def)

lemma group_getKey:
  assumes "distinct (map fst kvs)" and "(k, v) \<in> set kvs" and "length v \<le> 255"
  shows "cfsa_getKey (Section n (map (\<lambda>(k, v). Key (Some k) [Some v]) kvs)) k 256 = Inr (int (length v), Some v)"
proof -
  have "find_child (map (\<lambda>(k, v). Key (Some k) [Some v]) kvs) k = Inr (Some (Key (Some k) [Some v]))"
    using assms(1,2) by (induction kvs) (auto simp: rev_image_eqI)
  then show ?thesis
    using assms(3) by (simp add: cfsa_getKey_def mcs_findkey_def mcs_findchild_def mcs_valuecount_def
        mcs_getvaluemultiple_def c_assert_def)
qed

lemma group_listing:
  "length (snd g) \<le> 10 \<Longrightarrow> cfsa_listSection (group_entry g) 10 =
     Inr (int (length (snd g)), map (\<lambda>(k, v). \<lparr>e_name = Some k, e_type = SE_KEY\<rparr>) (snd g))"
  by (auto simp: cfsa_listSection_def group_entry_def mcs_childcount_def mcs_listsection_def c_assert_def
      section_entry_def list_entry_def)

lemma conf_rep_new_group:
  assumes rep: "conf_rep r Gs" and n: "n \<notin> set (map lpg_name Gs)" "CHR 0x00 \<notin> set n"
    and len: "length Gs < CONFIGURATION_MAX_GROUPS"
    and c: "check_add_uniq_str (rw_gpool r) n = (gp, pos)"
  shows "conf_rep (r\<lparr>rw_groups := (rw_groups r)[length Gs := \<lparr>rw_gname = sp_offs gp ! pos, rw_reps = 1, rw_types = []\<rparr>],
      rw_count := Suc (rw_count r), rw_gpool := gp\<rparr>) (Gs @ [group_start n])"
    and "length (sp_offs gp) = Suc (rw_count r)"
proof -
  have ok: "pool_ok (rw_gpool r) (map lpg_name Gs)" using rep by (simp add: conf_rep_def)
  note u = check_add_uniq_str_ok [OF ok n(2) c]
  have gp: "pool_ok gp (map lpg_name Gs @ [n])" using u(1) n(1) by simp
  have gr: "list_all2 (group_rep gp (rw_lpool r) (rw_apool r)) (take (length Gs) (rw_groups r)) Gs"
    using rep group_rep_mono [OF _ u(3), where lp' = "rw_lpool r" and ap' = "rw_apool r"]
    by (auto simp: conf_rep_def intro: list_all2_mono)
  have [simp]: "type_names [group_start n] = {}" "type_annos [group_start n] = {}"
    by (simp_all add: type_names_def type_annos_def group_start_def)
  show "conf_rep (r\<lparr>rw_groups := (rw_groups r)[length Gs := \<lparr>rw_gname = sp_offs gp ! pos, rw_reps = 1, rw_types = []\<rparr>],
      rw_count := Suc (rw_count r), rw_gpool := gp\<rparr>) (Gs @ [group_start n])"
    using rep gr gp len u(2) by (simp add: conf_rep_def take_Suc_rep group_rep_def) (simp add: group_start_def)
  show "length (sp_offs gp) = Suc (rw_count r)"
    using gp rep by (auto simp: conf_rep_def pool_ok_def dest: list_all2_lengthD)
qed

lemma add_group_ok:
  assumes rep: "conf_rep r Gs" and n: "fst g \<notin> set (map lpg_name Gs)" and wf: "wf_group_src g"
    and len: "length Gs < CONFIGURATION_MAX_GROUPS" and find: "mcs_findsubsection sh (fst g) = Some (group_entry g)"
    and cards: "card (type_names (Gs @ [spec_group g])) \<le> CONFIGURATION_MAX_TYPES"
      "card (type_annos (Gs @ [spec_group g])) \<le> CONFIGURATION_MAX_ANNOS"
  shows "\<exists>data' r'. add_group sh (length Gs) (fst g) data r = Inr (data', r') \<and> conf_rep r' (Gs @ [spec_group g])"
proof -
  obtain gp pos where c: "check_add_uniq_str (rw_gpool r) (fst g) = (gp, pos)" by force
  have nul: "CHR 0x00 \<notin> set (fst g)" using wf by (simp add: wf_group_src_def)
  note new = conf_rep_new_group [OF rep n nul len c]
  have "\<forall>(k, v) \<in> set (snd g). \<exists>ret. cfsa_getKey (group_entry g) k 256 = Inr (ret, Some v)"
    using wf group_getKey [of "snd g" _ _ "Some (fst g)"]
    by (auto simp: wf_group_src_def group_entry_def list_all_iff wf_key_def)
  from group_keys_ok [OF new(1) this] wf cards
  have "\<exists>data' r'. group_keys (group_entry g) (length Gs) (map (\<lambda>(k, v). \<lparr>e_name = Some k, e_type = SE_KEY\<rparr>) (snd g)) data
      (r\<lparr>rw_groups := (rw_groups r)[length Gs := \<lparr>rw_gname = sp_offs gp ! pos, rw_reps = 1, rw_types = []\<rparr>],
      rw_count := Suc (rw_count r), rw_gpool := gp\<rparr>) = Inr (data', r') \<and> conf_rep r' (Gs @ [spec_group g])"
    unfolding spec_group_fold [OF wf]
    by (simp add: wf_group_src_def CONFIGURATION_MAX_TYPES_def group_start_def)
  moreover have "length Gs < length (rw_groups r)" using rep len by (simp add: conf_rep_def)
  ultimately show ?thesis
    using wf new(2) by (simp add: add_group_def find group_listing c wf_group_src_def wr_def)
qed

text \<open>All groups.\<close>

lemma group_sections_ok:
  assumes "conf_rep r Gs" and "list_all wf_group_src gs" and "distinct (map lpg_name Gs @ map fst gs)"
    and "length Gs + length gs \<le> CONFIGURATION_MAX_GROUPS"
    and "\<forall>g \<in> set gs. mcs_findsubsection sh (fst g) = Some (group_entry g)"
    and "card (type_names (Gs @ map spec_group gs)) \<le> CONFIGURATION_MAX_TYPES"
    and "card (type_annos (Gs @ map spec_group gs)) \<le> CONFIGURATION_MAX_ANNOS"
  shows "\<exists>r'. group_sections sh (length Gs) (map (\<lambda>g. \<lparr>e_name = Some (fst g), e_type = SE_SECTION\<rparr>) gs) data r = Inr r' \<and>
    conf_rep r' (Gs @ map spec_group gs)"
  using assms
proof (induction gs arbitrary: r Gs data)
  case (Cons g gs)
  have sub: "type_names (Gs @ [spec_group g]) \<subseteq> type_names (Gs @ map spec_group (g # gs))"
    "type_annos (Gs @ [spec_group g]) \<subseteq> type_annos (Gs @ map spec_group (g # gs))"
    by (auto simp: type_names_def type_annos_def)
  have cards: "card (type_names (Gs @ [spec_group g])) \<le> CONFIGURATION_MAX_TYPES"
    "card (type_annos (Gs @ [spec_group g])) \<le> CONFIGURATION_MAX_ANNOS"
    using card_mono [OF _ sub(1)] card_mono [OF _ sub(2)] Cons.prems(6,7) by simp_all
  obtain data' r' where r': "add_group sh (length Gs) (fst g) data r = Inr (data', r')" "conf_rep r' (Gs @ [spec_group g])"
    using add_group_ok [OF Cons.prems(1) _ _ _ _ cards, of sh data] Cons.prems(2-5) by auto
  show ?case using Cons.IH [OF r'(2), of data'] Cons.prems r'(1) by simp
qed simp

lemma conf_rep_zero: "conf_rep raw_zero []"
  by (simp add: conf_rep_def raw_zero_def pool_ok_def pool_empty_def type_names_def type_annos_def)

lemma groups_listing:
  "length gs \<le> 10 \<Longrightarrow> cfsa_listSection (Section n (map group_entry gs)) 10 =
     Inr (int (length gs), map (\<lambda>g. \<lparr>e_name = Some (fst g), e_type = SE_SECTION\<rparr>) gs)"
  by (auto simp: cfsa_listSection_def group_entry_def mcs_childcount_def mcs_listsection_def c_assert_def
      section_entry_def list_entry_def)

lemma groups_find:
  assumes "distinct (map (\<lambda>g. str_lower (fst g)) gs)" and "g \<in> set gs"
  shows "mcs_findsubsection (Section n (map group_entry gs)) (fst g) = Some (group_entry g)"
  using assms by (induction gs) (auto simp: mcs_findsubsection_def group_entry_def strcasecmp_eq_def image_iff)

lemma wf_src_positive: "wf_group_src g \<Longrightarrow> kv \<in> set (snd g) \<Longrightarrow> 0 < fst (strtol10 (snd kv))"
  by (auto simp: wf_group_src_def list_all_iff wf_key_def)

lemma spec_groups_wf:
  assumes "list_all wf_group_src gs"
  shows "wf_groups (map spec_group gs)"
proof -
  have "0 < repetitions (spec_group g)" if "wf_group_src g" for g
    using wf_src_positive [OF that] by (auto simp: spec_group_def split: option.split dest!: map_of_SomeD)
  moreover have "wf_types (lptypes (spec_group g))" if "wf_group_src g" for g
    using wf_src_positive [OF that] by (auto simp: wf_types_def list_all_iff spec_group_def spec_type_def)
  ultimately show ?thesis using assms by (auto simp: wf_groups_def list_all_iff)
qed

subsection \<open>Properties\<close>

text \<open>C24: \<open>configuration_get_lpgroups\<close> parses the section of LP groups: for a section whose groups
  fit the limits of the structure (ten groups, ten keys a group, ten LP types, ten annotations)
  and whose values are positive \<open>int\<close>s, it succeeds, the groups it returns are those of the
  section (names, repetitions, LP types with annotation and count, in order), the name tables
  hold each name once, and the result satisfies what the mapping assumes of a configuration.\<close>

theorem lpgroups_parsed:
  assumes sec: "mcs_findsubsection (cfg_root h) sname = Some (Section n (map group_entry gs))"
    and wf: "wf_groups_src gs"
  shows "\<exists>c. configuration_get_lpgroups h sname = Inr (0, c) \<and> lpgroups c = map spec_group gs \<and>
    group_names c = map fst gs \<and> distinct (lp_names c) \<and> set (lp_names c) = type_names (lpgroups c) \<and>
    distinct (anno_names c) \<and> set (anno_names c) = type_annos (lpgroups c) \<and>
    wf_groups (lpgroups c) \<and> distinct (map lpg_name (lpgroups c))"
proof -
  let ?sh = "Section n (map group_entry gs)"
  have w: "length gs \<le> 10" "distinct (map (\<lambda>g. str_lower (fst g)) gs)" "list_all wf_group_src gs"
    using wf by (simp_all add: wf_groups_src_def)
  then have d: "distinct (map fst gs)" by (auto simp: distinct_map inj_on_def)
  obtain r where r: "group_sections ?sh 0 (map (\<lambda>g. \<lparr>e_name = Some (fst g), e_type = SE_SECTION\<rparr>) gs) None raw_zero = Inr r"
    "conf_rep r (map spec_group gs)"
    using group_sections_ok [OF conf_rep_zero w(3), of ?sh None] groups_find [OF w(2)] d w(1) wf
    by (auto simp: CONFIGURATION_MAX_GROUPS_def wf_groups_src_def)
  have "configuration_get_lpgroups h sname = Inr (0, lpgroups_ptrs r)"
    using r(1) groups_listing [OF w(1), of n] by (simp add: configuration_get_lpgroups_def cfsa_openSection_def Let_def sec)
  then show ?thesis
    using conf_rep_ptrs [OF r(2)] spec_groups_wf [OF w(3)] d by (simp add: comp_def)
qed

definition ex_groups :: "(string \<times> (string \<times> string) list) list" where
  "ex_groups =
     [(''MODELNET_GRP'', [(''repetitions'', ''12''), (''server'', ''1''), (''modelnet_simplenet'', ''1'')]),
      (''STORAGE_GRP'', [(''server@disk'', '' 2''), (''lsm@disk'', ''3'')])]"

definition ex_handle :: config_handle where
  "ex_handle = \<lparr>cfg_root = Section None [Section (Some ''LPGROUPS'') (map group_entry ex_groups)], config_dir = ''conf''\<rparr>"

lemma ex_groups_wf: "wf_groups_src ex_groups"
  by code_simp

theorem lpgroups_parsed_witness:
  "(\<exists>c. configuration_get_lpgroups ex_handle ''lpgroups'' = Inr (0, c) \<and> lpgroups c = map spec_group ex_groups \<and>
    group_names c = map fst ex_groups \<and> distinct (lp_names c) \<and> set (lp_names c) = type_names (lpgroups c) \<and>
    distinct (anno_names c) \<and> set (anno_names c) = type_annos (lpgroups c) \<and>
    wf_groups (lpgroups c) \<and> distinct (map lpg_name (lpgroups c))) \<and>
   map repetitions (map spec_group ex_groups) = [12, 1] \<and>
   map lpt_anno (lptypes (spec_group (ex_groups ! 1))) = [Some ''disk'', Some ''disk'']"
proof -
  have s: "mcs_findsubsection (cfg_root ex_handle) ''lpgroups'' = Some (Section (Some ''LPGROUPS'') (map group_entry ex_groups))"
    by (simp add: ex_handle_def mcs_findsubsection_def) code_simp
  have "map repetitions (map spec_group ex_groups) = [12, 1] \<and>
   map lpt_anno (lptypes (spec_group (ex_groups ! 1))) = [Some ''disk'', Some ''disk'']" by code_simp
  with lpgroups_parsed [OF s ex_groups_wf] show ?thesis by blast
qed

end
