(* ===== verification/C_Text.thy ===== *)
theory C_Text
  imports Configuration
begin

text \<open>
  Text input as the parameter files of the networks use it: \<open>fgets\<close>, \<open>strtok_r\<close> and the
  conversions of \<open>sscanf\<close>, on the decimal notation of theory \<open>Configuration\<close>.
\<close>

subsection \<open>Lines and tokens\<close>

text \<open>\<open>fgets\<close> with a buffer of 512 bytes: pieces of at most 511 characters, each up to and
  including a newline.\<close>

definition NEWLINE :: char where "NEWLINE = CHR 0x0A"

fun fgets_piece :: "nat \<Rightarrow> string \<Rightarrow> string \<times> string" where
  "fgets_piece 0 s = ([], s)"
| "fgets_piece n [] = ([], [])"
| "fgets_piece (Suc n) (c # s) =
     (if c = NEWLINE then ([c], s) else let (p, r) = fgets_piece n s in (c # p, r))"

lemma fgets_piece_parts: "fgets_piece n s = (p, r) \<Longrightarrow> s = p @ r"
  by (induction n s arbitrary: p r rule: fgets_piece.induct) (auto split: if_splits prod.splits)

lemma fgets_piece_shorter:
  "fgets_piece 511 (c # s) = (p, r) \<Longrightarrow> length r < Suc (length s)"
  using fgets_piece_parts [of 511 "c # s" p r]
  by (cases p) (auto simp: numeral_eq_Suc split: if_splits prod.splits)

function fgets_lines :: "string \<Rightarrow> string list" where
  "fgets_lines [] = []"
| "fgets_lines (c # s) = (let (p, r) = fgets_piece 511 (c # s) in p # fgets_lines r)"
  by pat_completeness auto
termination
  by (relation "measure length") (auto dest!: fgets_piece_shorter [OF sym])

text \<open>The pieces that \<open>fgets\<close> returns are the file, and no piece is longer than the buffer.\<close>

lemma fgets_piece_length: "length (fst (fgets_piece n s)) \<le> n"
  by (induction n s rule: fgets_piece.induct) (auto split: prod.splits)

lemma fgets_lines_file: "concat (fgets_lines s) = s \<and> (\<forall>l \<in> set (fgets_lines s). length l < 512)"
proof (induction s rule: fgets_lines.induct)
  case (2 c s)
  obtain p r where p: "fgets_piece 511 (c # s) = (p, r)" by force
  have "length p < 512" using fgets_piece_length [of 511 "c # s"] p by simp
  moreover have "fgets_lines (c # s) = p # fgets_lines r" using p by simp
  moreover have "c # s = p @ r" using fgets_piece_parts [OF p] .
  ultimately show ?case using 2 [OF p [symmetric] refl] by (simp only: concat.simps set_simps) auto
qed simp

text \<open>\<open>strtok_r\<close>: the maximal pieces without delimiters.\<close>

function strtok_r :: "(char \<Rightarrow> bool) \<Rightarrow> string \<Rightarrow> string list" where
  "strtok_r delim s =
     (case dropWhile delim s of [] \<Rightarrow> []
      | c # r \<Rightarrow> (c # takeWhile (\<lambda>x. \<not> delim x) r) # strtok_r delim (dropWhile (\<lambda>x. \<not> delim x) r))"
  by pat_completeness auto
termination
  by (relation "measure (\<lambda>(d, s). length s)")
    (auto, metis length_dropWhile_le le_imp_less_Suc length_Cons order_less_le_trans)

declare strtok_r.simps [simp del]

lemma strtok_r_simps [simp]:
  "strtok_r delim [] = []"
  "delim c \<Longrightarrow> strtok_r delim (c # s) = strtok_r delim s"
  "\<not> delim c \<Longrightarrow> strtok_r delim (c # s) =
     (c # takeWhile (\<lambda>x. \<not> delim x) s) # strtok_r delim (dropWhile (\<lambda>x. \<not> delim x) s)"
  by (simp_all add: strtok_r.simps [of delim "[]"] strtok_r.simps [of delim "c # s"])
     (simp_all add: strtok_r.simps [of delim s])

subsection \<open>Conversions\<close>

text \<open>The conversions of \<open>sscanf\<close> that the format uses: the value and the rest of the input, or
  \<open>None\<close> for a matching failure.\<close>

definition scan_digits :: "string \<Rightarrow> (bool \<times> string \<times> string) option" where
  "scan_digits s =
     (let (neg, u) = split_sign (dropWhile is_space s); ds = takeWhile is_digit u
      in if ds = [] then None else Some (neg, ds, dropWhile is_digit u))"

definition scan_u64 :: "string \<Rightarrow> (u64 \<times> string) option" where
  "scan_u64 s =
     (case scan_digits s of None \<Rightarrow> None
      | Some (neg, ds, r) \<Rightarrow>
          Some (if digits_val ds > 2 ^ 64 - 1 then -1
                else if neg then - word_of_int (digits_val ds) else word_of_int (digits_val ds), r))"

definition scan_int_rest :: "string \<Rightarrow> (int \<times> string) option" where
  "scan_int_rest s = (case scan_digits s of None \<Rightarrow> None | Some (neg, ds, r) \<Rightarrow> Some (atoi s, r))"

definition scan_double :: "string \<Rightarrow> (real \<times> string) option" where
  "scan_double s =
     (let (neg, u) = split_sign (dropWhile is_space s); ip = takeWhile is_digit u;
          r = dropWhile is_digit u;
          (fp, r2) = (case r of [] \<Rightarrow> ([], [])
                      | c # r' \<Rightarrow> if (of_char c :: nat) = 46
                                  then (takeWhile is_digit r', dropWhile is_digit r') else ([], r))
      in if ip = [] \<and> fp = [] then None
         else case r2 of [] \<Rightarrow> Some (strtod s, [])
              | c # r3 \<Rightarrow> if (of_char c :: nat) \<in> {69, 101}
                          then map_option (\<lambda>(eneg, ds, r4). (strtod s, r4))
                                 (if r3 \<noteq> [] \<and> is_space (hd r3) then None else scan_digits r3)
                          else Some (strtod s, r2))"

end
