(* ===== verification/Simplep2p.thy ===== *)
theory Simplep2p
  imports Model_Net_Base C_Text
begin

text \<open>
  The simplep2p network model, src/networks/model-net/simplep2p.c: every device has a link of
  its own to every other device, with latency and bandwidth from two matrices. The structures
  are those of the file and of codes/net/simplep2p.h. Conventions as in theory \<open>Simplenet\<close>;
  \<open>exit\<close> and \<open>abort\<close> end the run like \<open>tw_error\<close>. Files are read through a function \<open>fs\<close> from
  names to contents. The local variable \<open>is_tri_mat\<close> is 0 in the code: the matrices are read as
  full ones, and \<open>fill_tri_mat\<close> is never called.
\<close>

subsection \<open>Matrices\<close>

definition is_eol :: "char \<Rightarrow> bool" where "is_eol c \<longleftrightarrow> (of_char c :: nat) \<in> {10, 13}"
definition is_blank :: "char \<Rightarrow> bool" where "is_blank c \<longleftrightarrow> (of_char c :: nat) \<in> {9, 32}"
definition is_comma :: "char \<Rightarrow> bool" where "is_comma c \<longleftrightarrow> (of_char c :: nat) = 44"

text \<open>The values of a token: up to its first comma, and then all that is left of it (the inner
  loop of \<open>parse_mat\<close> goes on with other delimiters, which a token does not contain).\<close>

definition tok_vals :: "string \<Rightarrow> real list" where
  "tok_vals tok =
     (let u = dropWhile is_comma tok; v = takeWhile (\<lambda>c. \<not> is_comma c) u; r = drop (length v + 1) u
      in if u = [] then [] else if r = [] then [strtod v] else [strtod v, strtod r])"

text \<open>One line: the array \<open>vals\<close> has \<open>bufn\<close> entries and is doubled before a token, not before a
  value.\<close>

fun mat_toks :: "string list \<Rightarrow> real list \<Rightarrow> nat \<Rightarrow> (real list \<times> nat) result" where
  "mat_toks [] vals bufn = Inr (vals, bufn)"
| "mat_toks (tok # toks) vals bufn =
     (let bufn' = (if length vals \<ge> bufn then 2 * bufn else bufn); vals' = vals @ tok_vals tok
      in if length vals' > bufn' then Inl OutOfBounds else mat_toks toks vals' bufn')"

fun mat_lines ::
    "bool \<Rightarrow> string list \<Rightarrow> nat \<Rightarrow> int \<Rightarrow> real list \<Rightarrow> nat \<Rightarrow> (real list \<times> nat) result" where
  "mat_lines tri [] nvals_first line_ct_prev vals bufn = Inr (vals, nvals_first)"
| "mat_lines tri (l # ls) nvals_first line_ct_prev vals bufn =
     bind_res (mat_toks (strtok_r is_blank l) vals bufn) (\<lambda>(vals', bufn').
       let line_ct = length vals' - length vals in
       if nvals_first = 0 then mat_lines tri ls line_ct (int line_ct) vals' bufn'
       else if tri \<and> int line_ct \<noteq> line_ct_prev - 1 then Inl TwError
       else if \<not> tri \<and> int line_ct \<noteq> line_ct_prev then Inl TwError
       else mat_lines tri ls nvals_first (int line_ct) vals' bufn')"

definition parse_mat :: "string \<Rightarrow> bool \<Rightarrow> (real list \<times> nat) result" where
  "parse_mat buf is_tri_mat = mat_lines is_tri_mat (strtok_r is_eol buf) 0 0 [] 128"

record simplep2p_param =
  net_latency_ns_table :: "real list"
  net_bw_mbps_table :: "real list"
  mat_len :: int
  sp_num_lps :: int

definition sp_set_params ::
    "(string \<Rightarrow> string option) \<Rightarrow> string \<Rightarrow> string \<Rightarrow> int \<Rightarrow> simplep2p_param result" where
  "sp_set_params fs latency_fname bw_fname n =
     (case (fs latency_fname, fs bw_fname) of
        (Some sbuf, Some bbuf) \<Rightarrow>
          bind_res (parse_mat sbuf False) (\<lambda>(latency, nfirst_s).
          bind_res (parse_mat bbuf False) (\<lambda>(bw, nfirst_b).
          bind_res (c_assert (nfirst_s = nfirst_b)) (\<lambda>_.
            Inr \<lparr>net_latency_ns_table = latency, net_bw_mbps_table = bw, mat_len = int nfirst_s,
                 sp_num_lps = n\<rparr>)))
      | _ \<Rightarrow> Inl TwError)"

definition sp_read_config ::
    "config_lpgroups \<Rightarrow> config_handle \<Rightarrow> (string \<Rightarrow> string option) \<Rightarrow> string option \<Rightarrow> simplep2p_param result" where
  "sp_read_config c h fs anno =
     bind_res (configuration_get_value_relpath h ''PARAMS'' ''net_latency_ns_file'' anno MAX_NAME_LENGTH)
       (\<lambda>(rc, lbuf). if rc \<le> 0 then Inl TwError else
     bind_res (configuration_get_value_relpath h ''PARAMS'' ''net_bw_mbps_file'' anno MAX_NAME_LENGTH)
       (\<lambda>(rc, bbuf). if rc \<le> 0 then Inl TwError else
     bind_res (non_null lbuf) (\<lambda>latency_file. bind_res (non_null bbuf) (\<lambda>bw_file.
     let n = codes_mapping_get_lp_count c None 0 (model_net_lp_config_names ! nat SIMPLEP2P) anno 0 in
     bind_res (sp_set_params fs latency_file bw_file n) (\<lambda>p.
       if mat_len p \<noteq> 2 * sp_num_lps p then Inl TwError else Inr p)))))"

fun sp_read_all ::
    "config_lpgroups \<Rightarrow> config_handle \<Rightarrow> (string \<Rightarrow> string option) \<Rightarrow> string option list \<Rightarrow>
     simplep2p_param list result" where
  "sp_read_all c h fs [] = Inr []"
| "sp_read_all c h fs (a # as) =
     bind_res (sp_read_config c h fs a) (\<lambda>p. bind_res (sp_read_all c h fs as) (\<lambda>ps. Inr (p # ps)))"

definition sp_configure ::
    "config_lpgroups \<Rightarrow> config_handle \<Rightarrow> (string \<Rightarrow> string option) \<Rightarrow>
     (config_anno_map \<times> simplep2p_param list) result" where
  "sp_configure c h fs =
     (case codes_mapping_get_lp_anno_map c (model_net_lp_config_names ! nat SIMPLEP2P) of
        None \<Rightarrow> Inl AssertFailed
      | Some amap \<Rightarrow>
          bind_res (sp_read_all c h fs
                      (map Some (annotations amap) @ (if has_unanno_lp amap > 0 then [None] else [])))
            (\<lambda>ps. Inr (amap, ps)))"

text \<open>Arrays indexed with an \<open>int\<close>.\<close>

definition rdi :: "'a list \<Rightarrow> int \<Rightarrow> 'a result" where
  "rdi xs i = (if i < 0 then Inl OutOfBounds else rd xs (nat i))"

lemma rdi_Inr_iff [result_iff]: "rdi xs i = Inr v \<longleftrightarrow> 0 \<le> i \<and> nat i < length xs \<and> v = xs ! nat i"
  by (auto simp: rdi_def rd_def)

definition sp_get_table_ent :: "int \<Rightarrow> int \<Rightarrow> int \<Rightarrow> int \<Rightarrow> real list \<Rightarrow> real result" where
  "sp_get_table_ent from_id to_id is_incoming n table =
     rdi table (2 * from_id * n + 2 * to_id + is_incoming)"

subsection \<open>The device\<close>

record category_idles =
  send_next_idle_all :: tw_stime
  send_prev_idle_all :: tw_stime
  recv_next_idle_all :: tw_stime
  recv_prev_idle_all :: tw_stime
  ci_category :: string

record sp_state =
  send_next_idle :: "tw_stime list"
  recv_next_idle :: "tw_stime list"
  sp_anno :: "string option"
  sp_params :: simplep2p_param
  sp_id :: int
  idle_times_cat :: "category_idles list"
  sp_stats_array :: "mn_stats list"

definition SP_MSG_READY :: int where "SP_MSG_READY = 1"
definition SP_MSG_START :: int where "SP_MSG_START = 2"

record sp_message =
  pm_magic :: int
  pm_event_type :: int
  pm_src_gid :: int
  pm_src_mn_lp :: int
  pm_final_dest_gid :: int
  pm_dest_mn_lp :: int
  src_mn_rel_id :: int
  dest_mn_rel_id :: int
  pm_net_msg_size_bytes :: u64
  pm_event_size_bytes :: int
  pm_local_event_size_bytes :: int
  pm_category :: string
  pm_event_rc :: int
  pm_is_pull :: int
  pm_pull_size :: u64
  send_next_idle_saved :: tw_stime
  recv_next_idle_saved :: tw_stime
  pm_send_time_saved :: tw_stime
  pm_recv_time_saved :: tw_stime
  send_next_idle_all_saved :: tw_stime
  send_prev_idle_all_saved :: tw_stime
  recv_next_idle_all_saved :: tw_stime
  recv_prev_idle_all_saved :: tw_stime

datatype sp_out =
    SpMessage (po_dest: int) (po_delay: tw_stime) (po_msg: sp_message) (po_data: bytes)
  | SpUser (po_dest: int) (po_delay: tw_stime) (po_data: bytes)
  | SpNet (po_event: mn_event)

definition idles_zero :: category_idles where
  "idles_zero = \<lparr>send_next_idle_all = 0, send_prev_idle_all = 0, recv_next_idle_all = 0,
     recv_prev_idle_all = 0, ci_category = []\<rparr>"

definition sp_init ::
    "config_lpgroups \<Rightarrow> simplep2p_param list \<Rightarrow> config_anno_map \<Rightarrow> tw_stime \<Rightarrow> tw_lp \<Rightarrow> sp_state result" where
  "sp_init c all_params amap now lp =
     bind_res (codes_mapping_get_annotation_by_lpid c (gid lp)) (\<lambda>anno.
     bind_res (rdi all_params (case anno of None \<Rightarrow> int (length all_params) - 1
                | Some a \<Rightarrow> configuration_get_annotation_index (Some a) amap)) (\<lambda>p.
     bind_res (codes_mapping_get_lp_relative_id c (gid lp) 0 1) (\<lambda>rel.
       Inr \<lparr>send_next_idle = replicate (nat (sp_num_lps p)) now,
            recv_next_idle = replicate (nat (sp_num_lps p)) now, sp_anno = anno, sp_params = p,
            sp_id = rel, idle_times_cat = replicate CATEGORY_MAX idles_zero,
            sp_stats_array = replicate CATEGORY_MAX stats_zero\<rparr>)))"

fun find_idles_loop :: "string \<Rightarrow> category_idles list \<Rightarrow> nat \<Rightarrow> (nat \<times> bool) option" where
  "find_idles_loop cat [] i = None"
| "find_idles_loop cat (s # ss) i =
     (if ci_category s = [] then Some (i, True)
      else if cat = ci_category s then Some (i, False)
      else find_idles_loop cat ss (Suc i))"

definition sp_get_category_idles ::
    "string \<Rightarrow> category_idles list \<Rightarrow> (nat \<times> category_idles list) result" where
  "sp_get_category_idles cat idles =
     (case find_idles_loop cat (take CATEGORY_MAX idles) 0 of
        None \<Rightarrow> Inl AssertFailed
      | Some (i, new_flag) \<Rightarrow>
          if new_flag
          then if length cat < CATEGORY_NAME_MAX
               then Inr (i, idles[i := (idles ! i)\<lparr>ci_category := cat\<rparr>])
               else Inl OutOfBounds
          else Inr (i, idles))"

definition sp_rate_to_ns :: "u64 \<Rightarrow> real \<Rightarrow> tw_stime" where
  "sp_rate_to_ns b MB_p_s = real (unat b) / (1024 * 1024) / MB_p_s * 1000 * 1000 * 1000"

definition simplep2p_packet_event ::
    "int \<Rightarrow> sp_message \<Rightarrow> mn_call \<Rightarrow> tw_lp \<Rightarrow> (int \<times> tw_lp \<times> sp_message \<times> bytes) result" where
  "simplep2p_packet_event sp_magic msg0 call sender =
     (let (xfer, sender') = codes_local_latency sender; req = pk_req call; is_last = pk_last call;
          has_remote = (is_last \<and> remote_event_size req \<noteq> 0);
          has_self = (is_last \<and> self_event_size req \<noteq> 0);
          msg = msg0\<lparr>pm_category := category req, pm_final_dest_gid := final_dest_lp req,
                     pm_dest_mn_lp := dest_mn_lp req, pm_src_gid := src_lp req,
                     pm_src_mn_lp := gid sender, pm_magic := sp_magic,
                     pm_net_msg_size_bytes := pk_size call,
                     pm_event_size_bytes := (if has_remote then remote_event_size req else 0),
                     pm_local_event_size_bytes := (if has_self then self_event_size req else 0),
                     pm_event_type := SP_MSG_START, pm_is_pull := is_pull req,
                     pm_pull_size := pull_size req\<rparr> in
      bind_res (if has_remote then memcpy (pk_remote call) (remote_event_size req) else Inr []) (\<lambda>re.
      bind_res (if has_self then memcpy (pk_local call) (self_event_size req) else Inr []) (\<lambda>le.
        Inr (xfer, sender', msg, re @ le))))"

definition simplep2p_packet_event_rc :: "tw_lp \<Rightarrow> tw_lp" where
  "simplep2p_packet_event_rc sender = codes_local_latency_reverse sender"

definition simplep2p_method :: "(int \<Rightarrow> tw_stime) \<Rightarrow> (tw_lp, tw_stime) model_net_method" where
  "simplep2p_method lat =
     \<lparr>mn_packet_event = (\<lambda>c lp. let (d, lp') = codes_local_latency lp in (lat d, lp')),
      mn_packet_event_rc = simplep2p_packet_event_rc,
      mn_recv_msg_event = None, mn_recv_msg_event_rc = None\<rparr>"

subsection \<open>Handlers\<close>

text \<open>The accounting of active time, which both handlers do: \<open>t\<close> is the time counted so far,
  \<open>prev\<close> and \<open>nxt\<close> bound the active period that is not counted yet, \<open>e\<close> is when the message
  that arrives at \<open>now\<close> is done.\<close>

definition count_active ::
    "tw_stime \<Rightarrow> tw_stime \<Rightarrow> tw_stime \<times> tw_stime \<times> tw_stime \<Rightarrow> tw_stime \<times> tw_stime \<times> tw_stime" where
  "count_active now e = (\<lambda>(t, prev, nxt).
     let (t', prev') = (if now > nxt then (t + (nxt - prev), now) else (t, prev))
     in (t', prev', if e > nxt then e else nxt))"

definition sp_link :: "simplep2p_param \<Rightarrow> int \<Rightarrow> int \<Rightarrow> int \<Rightarrow> (real \<times> real) result" where
  "sp_link p from_id to_id is_incoming =
     bind_res (sp_get_table_ent from_id to_id is_incoming (sp_num_lps p) (net_bw_mbps_table p)) (\<lambda>bw.
     bind_res (sp_get_table_ent from_id to_id is_incoming (sp_num_lps p) (net_latency_ns_table p)) (\<lambda>latency.
       if bw \<le> 0 \<or> latency < 0 then Inl TwError else Inr (bw, latency)))"

definition sp_msg_start ::
    "int \<Rightarrow> mn_env \<Rightarrow> sp_state \<Rightarrow> sp_message \<Rightarrow> bytes \<Rightarrow> tw_lp \<Rightarrow>
     (sp_state \<times> sp_message \<times> tw_lp \<times> sp_out list) result" where
  "sp_msg_start wrap_size env ns m data lp =
     bind_res (codes_mapping_get_lp_relative_id (me_conf env) (pm_dest_mn_lp m) 0 0) (\<lambda>dest.
     bind_res (sp_link (sp_params ns) (sp_id ns) dest 0) (\<lambda>(bw, latency).
     bind_res (rdi (send_next_idle ns) dest) (\<lambda>idle.
     bind_res (model_net_find_stats (pm_category m) (sp_stats_array ns)) (\<lambda>(i, arr).
     bind_res (sp_get_category_idles (pm_category m) (idle_times_cat ns)) (\<lambda>(k, idles).
     let now = me_now env; total_event_size = wrap_size + pm_event_size_bytes m + pm_local_event_size_bytes m;
         send_queue_time = (if idle > now then idle - now else 0);
         idle' = send_queue_time + now + sp_rate_to_ns (pm_net_msg_size_bytes m) bw;
         stat = arr ! i; ci = idles ! k;
         (t, prev, nxt) = count_active now idle' (send_time stat, send_prev_idle_all ci, send_next_idle_all ci);
         stat' = stat\<lparr>send_count := send_count stat + 1,
                      send_bytes := send_bytes stat + int (unat (pm_net_msg_size_bytes m)),
                      max_event_size := (if max_event_size stat < total_event_size then total_event_size
                                         else max_event_size stat), send_time := t\<rparr>;
         ci' = ci\<lparr>send_prev_idle_all := prev, send_next_idle_all := nxt\<rparr>;
         ns' = ns\<lparr>send_next_idle := (send_next_idle ns)[nat dest := idle'],
                  sp_stats_array := arr[i := stat'], idle_times_cat := idles[k := ci']\<rparr>;
         m1 = m\<lparr>dest_mn_rel_id := dest, send_next_idle_saved := idle, pm_send_time_saved := send_time stat,
                send_next_idle_all_saved := send_next_idle_all ci,
                send_prev_idle_all_saved := send_prev_idle_all ci\<rparr> in
     bind_res (if pm_event_size_bytes m \<noteq> 0 then memcpy (Some data) (pm_event_size_bytes m) else Inr []) (\<lambda>re.
     let ready = SpMessage (pm_dest_mn_lp m) (send_queue_time + latency)
           (m1\<lparr>pm_event_type := SP_MSG_READY, src_mn_rel_id := sp_id ns, dest_mn_rel_id := dest\<rparr>) re in
     if pm_local_event_size_bytes m > 0
     then let (d, lp1) = codes_local_latency lp in
          bind_res (memcpy (Some (drop (nat (pm_event_size_bytes m)) data)) (pm_local_event_size_bytes m))
            (\<lambda>le. Inr (ns', m1, lp1,
               [ready, SpUser (pm_src_gid m) (send_queue_time + me_lat env d) le]))
     else Inr (ns', m1, lp, [ready])))))))"

definition sp_msg_start_rev ::
    "sp_state \<Rightarrow> sp_message \<Rightarrow> tw_lp \<Rightarrow> (sp_state \<times> tw_lp) result" where
  "sp_msg_start_rev ns m lp =
     (let lp' = (if pm_local_event_size_bytes m > 0 then codes_local_latency_reverse lp else lp) in
      bind_res (model_net_find_stats (pm_category m) (sp_stats_array ns)) (\<lambda>(i, arr).
      bind_res (sp_get_category_idles (pm_category m) (idle_times_cat ns)) (\<lambda>(k, idles).
      bind_res (rdi (send_next_idle ns) (dest_mn_rel_id m)) (\<lambda>_.
        let stat = arr ! i;
            stat' = stat\<lparr>send_count := send_count stat - 1,
                         send_bytes := send_bytes stat - int (unat (pm_net_msg_size_bytes m)),
                         send_time := pm_send_time_saved m\<rparr>;
            ci' = (idles ! k)\<lparr>send_next_idle_all := send_next_idle_all_saved m,
                              send_prev_idle_all := send_prev_idle_all_saved m\<rparr>
        in Inr (ns\<lparr>send_next_idle := (send_next_idle ns)[nat (dest_mn_rel_id m) := send_next_idle_saved m],
                   sp_stats_array := arr[i := stat'], idle_times_cat := idles[k := ci']\<rparr>, lp')))))"

definition sp_msg_ready ::
    "mn_env \<Rightarrow> mn_globals \<Rightarrow> sp_state \<Rightarrow> sp_message \<Rightarrow> bytes \<Rightarrow> tw_lp \<Rightarrow>
     (sp_state \<times> sp_message \<times> mn_globals \<times> tw_lp \<times> sp_out list) result" where
  "sp_msg_ready env g ns m data lp =
     bind_res (sp_link (sp_params ns) (src_mn_rel_id m) (sp_id ns) 1) (\<lambda>(bw, latency).
     bind_res (rdi (recv_next_idle ns) (src_mn_rel_id m)) (\<lambda>idle.
     bind_res (model_net_find_stats (pm_category m) (sp_stats_array ns)) (\<lambda>(i, arr).
     bind_res (sp_get_category_idles (pm_category m) (idle_times_cat ns)) (\<lambda>(k, idles).
     let now = me_now env;
         recv_queue_time = (if idle > now then idle - now else 0) +
                           sp_rate_to_ns (pm_net_msg_size_bytes m) bw;
         idle' = recv_queue_time + now; stat = arr ! i; ci = idles ! k;
         (t, prev, nxt) = count_active now idle' (recv_time stat, recv_prev_idle_all ci, recv_next_idle_all ci);
         stat' = stat\<lparr>recv_count := recv_count stat + 1,
                      recv_bytes := recv_bytes stat + int (unat (pm_net_msg_size_bytes m)), recv_time := t\<rparr>;
         ci' = ci\<lparr>recv_prev_idle_all := prev, recv_next_idle_all := nxt\<rparr>;
         ns' = ns\<lparr>recv_next_idle := (recv_next_idle ns)[nat (src_mn_rel_id m) := idle'],
                  sp_stats_array := arr[i := stat'], idle_times_cat := idles[k := ci']\<rparr>;
         m1 = m\<lparr>recv_next_idle_saved := idle, pm_recv_time_saved := recv_time stat,
                recv_next_idle_all_saved := recv_next_idle_all ci,
                recv_prev_idle_all_saved := recv_prev_idle_all ci\<rparr> in
     if pm_event_size_bytes m \<noteq> 0
     then if pm_is_pull m \<noteq> 0
          then bind_res (model_net_event_mctx env SIMPLEP2P
                   (codes_mctx_set_global_direct (gid lp)) (codes_mctx_set_global_direct (pm_src_mn_lp m))
                   (pm_category m) (pm_src_gid m) (pm_pull_size m) recv_queue_time
                   (pm_event_size_bytes m) (Some data) 0 None g lp) (\<lambda>(ret, g', lp', outs).
                 Inr (ns', m1\<lparr>pm_event_rc := ret\<rparr>, g', lp', map SpNet outs))
          else bind_res (memcpy (Some data) (pm_event_size_bytes m)) (\<lambda>re.
                 Inr (ns', m1, g, lp, [SpUser (pm_final_dest_gid m) recv_queue_time re]))
     else Inr (ns', m1, g, lp, [])))))"

definition sp_msg_ready_rev ::
    "sp_state \<Rightarrow> sp_message \<Rightarrow> tw_lp \<Rightarrow> (sp_state \<times> tw_lp) result" where
  "sp_msg_ready_rev ns m lp =
     bind_res (model_net_find_stats (pm_category m) (sp_stats_array ns)) (\<lambda>(i, arr).
     bind_res (rdi (recv_next_idle ns) (src_mn_rel_id m)) (\<lambda>_.
     bind_res (sp_get_category_idles (pm_category m) (idle_times_cat ns)) (\<lambda>(k, idles).
       let stat = arr ! i;
           stat' = stat\<lparr>recv_count := recv_count stat - 1,
                        recv_bytes := recv_bytes stat - int (unat (pm_net_msg_size_bytes m)),
                        recv_time := pm_recv_time_saved m\<rparr>;
           ci' = (idles ! k)\<lparr>recv_next_idle_all := recv_next_idle_all_saved m,
                             recv_prev_idle_all := recv_prev_idle_all_saved m\<rparr>
       in Inr (ns\<lparr>recv_next_idle := (recv_next_idle ns)[nat (src_mn_rel_id m) := recv_next_idle_saved m],
                  sp_stats_array := arr[i := stat'], idle_times_cat := idles[k := ci']\<rparr>,
               if pm_event_size_bytes m \<noteq> 0 \<and> pm_is_pull m \<noteq> 0
               then model_net_event_rc2 lp (pm_event_rc m) else lp))))"

definition sp_event ::
    "int \<Rightarrow> int \<Rightarrow> mn_env \<Rightarrow> mn_globals \<Rightarrow> sp_state \<Rightarrow> sp_message \<Rightarrow> bytes \<Rightarrow> tw_lp \<Rightarrow>
     (sp_state \<times> sp_message \<times> mn_globals \<times> tw_lp \<times> sp_out list) result" where
  "sp_event sp_magic wrap_size env g ns m data lp =
     bind_res (c_assert (pm_magic m = sp_magic)) (\<lambda>_.
       if pm_event_type m = SP_MSG_START
       then bind_res (sp_msg_start wrap_size env ns m data lp)
              (\<lambda>(ns', m', lp', out). Inr (ns', m', g, lp', out))
       else if pm_event_type m = SP_MSG_READY then sp_msg_ready env g ns m data lp
       else Inl AssertFailed)"

definition sp_rev_event :: "int \<Rightarrow> sp_state \<Rightarrow> sp_message \<Rightarrow> tw_lp \<Rightarrow> (sp_state \<times> tw_lp) result" where
  "sp_rev_event sp_magic ns m lp =
     bind_res (c_assert (pm_magic m = sp_magic)) (\<lambda>_.
       if pm_event_type m = SP_MSG_START then sp_msg_start_rev ns m lp
       else if pm_event_type m = SP_MSG_READY then sp_msg_ready_rev ns m lp
       else Inl AssertFailed)"

text \<open>\<open>sp_finalize\<close>: the periods that are still open are added to the entry of the same index.\<close>

fun close_periods :: "category_idles list \<Rightarrow> mn_stats list \<Rightarrow> mn_stats list" where
  "close_periods (ci # cs) (st # sts) =
     (if ci_category ci = [] then st # sts
      else st\<lparr>send_time := send_time st + (send_next_idle_all ci - send_prev_idle_all ci),
              recv_time := recv_time st + (recv_next_idle_all ci - recv_prev_idle_all ci)\<rparr>
           # close_periods cs sts)"
| "close_periods _ sts = sts"

definition sp_finalize :: "sp_state \<Rightarrow> mn_stats list" where
  "sp_finalize ns =
     model_net_print_stats (close_periods (take CATEGORY_MAX (idle_times_cat ns)) (sp_stats_array ns))"

subsection \<open>Categories\<close>

text \<open>The search for the idle times of a category does what \<open>model_net_find_stats\<close> does.\<close>

definition as_stats :: "category_idles \<Rightarrow> mn_stats" where
  "as_stats ci = stats_zero\<lparr>st_category := ci_category ci\<rparr>"

lemma as_stats_category [simp]: "st_category (as_stats ci) = ci_category ci"
  by (simp add: as_stats_def)

lemma as_stats_update [simp]:
  "as_stats (ci\<lparr>ci_category := c\<rparr>) = (as_stats ci)\<lparr>st_category := c\<rparr>"
  by (simp add: as_stats_def)

lemma find_idles_loop_stats:
  "map ci_category idles = map st_category arr \<Longrightarrow> find_idles_loop cat idles i = find_stats_loop cat arr i"
proof (induction idles arbitrary: arr i)
  case (Cons ci idles)
  then show ?case by (cases arr) auto
qed simp

lemma category_idles_find:
  assumes "map ci_category idles = map st_category arr" and "model_net_find_stats cat arr = Inr (i, arr')"
  shows "sp_get_category_idles cat idles = Inr (i, idles[i := (idles ! i)\<lparr>ci_category := cat\<rparr>])"
proof -
  have l: "find_idles_loop cat (take CATEGORY_MAX idles) 0 = find_stats_loop cat (take CATEGORY_MAX arr) 0"
    using assms(1) by (intro find_idles_loop_stats) (metis take_map)
  have len: "length idles = length arr" using assms(1) by (metis length_map)
  note e = find_stats_entry [OF assms(2)]
  have "idles[i := (idles ! i)\<lparr>ci_category := cat\<rparr>] = idles" if "st_category (arr ! i) = cat"
  proof -
    have "ci_category (idles ! i) = cat" using that e(2) assms(1) len by (metis nth_map)
    then have "(idles ! i)\<lparr>ci_category := cat\<rparr> = idles ! i" by (auto intro: category_idles.equality)
    then show ?thesis by simp
  qed
  moreover have "st_category (arr ! i) = cat" if "find_stats_loop cat (take CATEGORY_MAX arr) 0 = Some (i, False)"
    using find_stats_loop_Some [OF that] e(1,2) by auto
  ultimately show ?thesis using assms(2)
    by (auto simp: sp_get_category_idles_def model_net_find_stats_def l split: option.splits if_splits)
qed

lemma category_idles_stats:
  assumes "sp_get_category_idles cat idles = Inr (i, idles')"
  shows "\<exists>arr'. model_net_find_stats cat (map as_stats idles) = Inr (i, arr')"
proof -
  have "find_idles_loop cat (take CATEGORY_MAX idles) 0 = find_stats_loop cat (take CATEGORY_MAX (map as_stats idles)) 0"
    by (intro find_idles_loop_stats) (simp add: take_map)
  with assms show ?thesis
    by (auto simp: sp_get_category_idles_def model_net_find_stats_def split: option.splits if_splits)
qed

lemma category_idles_entry:
  assumes "sp_get_category_idles cat idles = Inr (i, idles')"
  shows "i < CATEGORY_MAX" and "i < length idles" and "idles' = idles[i := (idles ! i)\<lparr>ci_category := cat\<rparr>]"
proof -
  obtain arr' where a: "model_net_find_stats cat (map as_stats idles) = Inr (i, arr')"
    using category_idles_stats [OF assms] by blast
  show "i < CATEGORY_MAX" "i < length idles" using find_stats_entry(1,2) [OF a] by simp_all
  show "idles' = idles[i := (idles ! i)\<lparr>ci_category := cat\<rparr>]"
    using category_idles_find [OF _ a] assms by simp
qed

lemma category_idles_updated:
  assumes "sp_get_category_idles cat idles = Inr (i, idles')" and "ci_category s = cat"
  shows "sp_get_category_idles cat (idles'[i := s]) = Inr (i, idles'[i := s])"
proof -
  note e = category_idles_entry [OF assms(1)]
  obtain arr' where a: "model_net_find_stats cat (map as_stats idles) = Inr (i, arr')"
    using category_idles_stats [OF assms(1)] by blast
  have m: "map as_stats (idles'[i := s]) = arr'[i := as_stats s]"
    using e(3) find_stats_entry(3) [OF a] by (simp add: map_update)
  have "model_net_find_stats cat (map as_stats (idles'[i := s])) = Inr (i, arr'[i := as_stats s])"
    using find_stats_updated [OF a, of "as_stats s"] assms(2) by (simp add: m)
  from category_idles_find [OF _ this] have "sp_get_category_idles cat (idles'[i := s]) =
      Inr (i, (idles'[i := s])[i := (idles'[i := s] ! i)\<lparr>ci_category := cat\<rparr>])" by simp
  moreover have "s\<lparr>ci_category := cat\<rparr> = s" using assms(2) by (auto intro: category_idles.equality)
  ultimately show ?thesis using e(2,3) by simp
qed

subsection \<open>Reversal\<close>

definition sp_touched :: "sp_state \<Rightarrow> nat \<Rightarrow> nat \<Rightarrow> string \<Rightarrow> int \<Rightarrow> sp_state" where
  "sp_touched ns i k cat esz =
     ns\<lparr>sp_stats_array := (sp_stats_array ns)[i :=
          (sp_stats_array ns ! i)\<lparr>st_category := cat,
             max_event_size := max (max_event_size (sp_stats_array ns ! i)) esz\<rparr>],
        idle_times_cat := (idle_times_cat ns)[k := (idle_times_cat ns ! k)\<lparr>ci_category := cat\<rparr>]\<rparr>"

text \<open>What a start event does to the statistics, given the time the link is busy until.\<close>

definition sent :: "tw_stime \<Rightarrow> tw_stime \<Rightarrow> u64 \<Rightarrow> int \<Rightarrow> category_idles \<Rightarrow> mn_stats \<Rightarrow> mn_stats" where
  "sent now e sz esz ci stat =
     stat\<lparr>send_count := send_count stat + 1, send_bytes := send_bytes stat + int (unat sz),
          max_event_size := (if max_event_size stat < esz then esz else max_event_size stat),
          send_time := fst (count_active now e (send_time stat, send_prev_idle_all ci, send_next_idle_all ci))\<rparr>"

definition sent_idles :: "tw_stime \<Rightarrow> tw_stime \<Rightarrow> mn_stats \<Rightarrow> category_idles \<Rightarrow> category_idles" where
  "sent_idles now e stat ci =
     (case count_active now e (send_time stat, send_prev_idle_all ci, send_next_idle_all ci) of
        (t, prev, nxt) \<Rightarrow> ci\<lparr>send_prev_idle_all := prev, send_next_idle_all := nxt\<rparr>)"

definition received :: "tw_stime \<Rightarrow> tw_stime \<Rightarrow> u64 \<Rightarrow> category_idles \<Rightarrow> mn_stats \<Rightarrow> mn_stats" where
  "received now e sz ci stat =
     stat\<lparr>recv_count := recv_count stat + 1, recv_bytes := recv_bytes stat + int (unat sz),
          recv_time := fst (count_active now e (recv_time stat, recv_prev_idle_all ci, recv_next_idle_all ci))\<rparr>"

definition received_idles :: "tw_stime \<Rightarrow> tw_stime \<Rightarrow> mn_stats \<Rightarrow> category_idles \<Rightarrow> category_idles" where
  "received_idles now e stat ci =
     (case count_active now e (recv_time stat, recv_prev_idle_all ci, recv_next_idle_all ci) of
        (t, prev, nxt) \<Rightarrow> ci\<lparr>recv_prev_idle_all := prev, recv_next_idle_all := nxt\<rparr>)"

lemma sent_category [simp]:
  "st_category (sent now e sz esz ci stat) = st_category stat"
  "ci_category (sent_idles now e stat ci) = ci_category ci"
  "st_category (received now e sz ci stat) = st_category stat"
  "ci_category (received_idles now e stat ci) = ci_category ci"
  by (simp_all add: sent_def sent_idles_def received_def received_idles_def split: prod.split)

text \<open>When the link is free again after a message of \<open>sz\<close> bytes.\<close>

definition busy_until :: "tw_stime \<Rightarrow> tw_stime \<Rightarrow> u64 \<Rightarrow> real \<Rightarrow> tw_stime" where
  "busy_until now idle sz bw = max now idle + sp_rate_to_ns sz bw"

lemma sp_start_outcome:
  assumes "sp_msg_start w env ns m data lp = Inr (ns', m', lp', out)"
  obtains dest bw latency i arr k idles where
    "codes_mapping_get_lp_relative_id (me_conf env) (pm_dest_mn_lp m) 0 0 = Inr dest"
    "sp_link (sp_params ns) (sp_id ns) dest 0 = Inr (bw, latency)"
    "0 \<le> dest" "nat dest < length (send_next_idle ns)"
    "model_net_find_stats (pm_category m) (sp_stats_array ns) = Inr (i, arr)"
    "sp_get_category_idles (pm_category m) (idle_times_cat ns) = Inr (k, idles)"
    "ns' = (let e = busy_until (me_now env) (send_next_idle ns ! nat dest) (pm_net_msg_size_bytes m) bw in
      ns\<lparr>send_next_idle := (send_next_idle ns)[nat dest := e],
         sp_stats_array := arr[i := sent (me_now env) e (pm_net_msg_size_bytes m)
           (w + pm_event_size_bytes m + pm_local_event_size_bytes m) (idles ! k) (arr ! i)],
         idle_times_cat := idles[k := sent_idles (me_now env) e (arr ! i) (idles ! k)]\<rparr>)"
    "m' = m\<lparr>dest_mn_rel_id := dest, send_next_idle_saved := send_next_idle ns ! nat dest,
        pm_send_time_saved := send_time (arr ! i),
        send_next_idle_all_saved := send_next_idle_all (idles ! k),
        send_prev_idle_all_saved := send_prev_idle_all (idles ! k)\<rparr>"
    "lp' = (if pm_local_event_size_bytes m > 0 then snd (codes_local_latency lp) else lp)"
    "po_dest (hd out) = pm_dest_mn_lp m"
    "po_delay (hd out) = max (me_now env) (send_next_idle ns ! nat dest) - me_now env + latency"
proof -
  obtain dest bw latency i arr k idles where h:
    "codes_mapping_get_lp_relative_id (me_conf env) (pm_dest_mn_lp m) 0 0 = Inr dest"
    "sp_link (sp_params ns) (sp_id ns) dest 0 = Inr (bw, latency)"
    "0 \<le> dest" "nat dest < length (send_next_idle ns)"
    "model_net_find_stats (pm_category m) (sp_stats_array ns) = Inr (i, arr)"
    "sp_get_category_idles (pm_category m) (idle_times_cat ns) = Inr (k, idles)"
    using assms by (auto simp: sp_msg_start_def result_iff)
  have e: "busy_until (me_now env) (send_next_idle ns ! nat dest) sz bw =
      (if send_next_idle ns ! nat dest > me_now env then send_next_idle ns ! nat dest - me_now env else 0) +
        me_now env + sp_rate_to_ns sz bw" for sz
    by (simp add: busy_until_def max_def)
  have r: "rdi (send_next_idle ns) dest = Inr (send_next_idle ns ! nat dest)" using h(3,4) by (simp add: rdi_def)
  show thesis
    by (rule that [OF h]; insert assms;
        auto simp: sp_msg_start_def h(1,2,5,6) r result_iff Let_def e sent_def sent_idles_def split_beta
          max_def split: if_splits)
qed

lemma sp_start_reverse:
  assumes h: "sp_msg_start w env ns m data lp = Inr (ns', m', lp', out)"
  shows "\<exists>i k esz. sp_msg_start_rev ns' m' lp' = Inr (sp_touched ns i k (pm_category m) esz, lp)"
proof -
  from sp_start_outcome [OF h] obtain dest bw i arr k idles e where
    d: "0 \<le> dest" "nat dest < length (send_next_idle ns)"
    and f: "model_net_find_stats (pm_category m) (sp_stats_array ns) = Inr (i, arr)"
    and c: "sp_get_category_idles (pm_category m) (idle_times_cat ns) = Inr (k, idles)"
    and ns': "ns' = ns\<lparr>send_next_idle := (send_next_idle ns)[nat dest := e],
         sp_stats_array := arr[i := sent (me_now env) e (pm_net_msg_size_bytes m)
           (w + pm_event_size_bytes m + pm_local_event_size_bytes m) (idles ! k) (arr ! i)],
         idle_times_cat := idles[k := sent_idles (me_now env) e (arr ! i) (idles ! k)]\<rparr>"
    and m': "m' = m\<lparr>dest_mn_rel_id := dest, send_next_idle_saved := send_next_idle ns ! nat dest,
        pm_send_time_saved := send_time (arr ! i),
        send_next_idle_all_saved := send_next_idle_all (idles ! k),
        send_prev_idle_all_saved := send_prev_idle_all (idles ! k)\<rparr>"
    and lp': "lp' = (if pm_local_event_size_bytes m > 0 then snd (codes_local_latency lp) else lp)"
    unfolding Let_def by metis
  note s = find_stats_entry(2,3) [OF f] and ci = category_idles_entry(2,3) [OF c]
  have a: "arr ! i = (sp_stats_array ns ! i)\<lparr>st_category := pm_category m\<rparr>" using s by simp
  have b: "idles ! k = (idle_times_cat ns ! k)\<lparr>ci_category := pm_category m\<rparr>" using ci by simp
  have g1: "model_net_find_stats (pm_category m) (sp_stats_array ns') = Inr (i, sp_stats_array ns')"
    using find_stats_updated [OF f, of "sent now e sz x y (arr ! i)" for now sz x y] a by (simp add: ns')
  have g2: "sp_get_category_idles (pm_category m) (idle_times_cat ns') = Inr (k, idle_times_cat ns')"
    using category_idles_updated [OF c, of "sent_idles now e x (idles ! k)" for now x] b by (simp add: ns')
  have "sp_msg_start_rev ns' m' lp' = Inr (sp_touched ns i k (pm_category m)
      (w + pm_event_size_bytes m + pm_local_event_size_bytes m), lp)"
    using d s ci g1 g2 by (simp add: sp_msg_start_rev_def m' lp' rdi_def Let_def)
      (simp add: ns' sp_touched_def sent_def sent_idles_def a b max_def split_beta)
  then show ?thesis by blast
qed

lemma sp_ready_outcome:
  assumes h: "sp_msg_ready env g ns m data lp = Inr (ns', m', g', lp', out)"
  obtains bw latency i arr k idles r where
    "sp_link (sp_params ns) (src_mn_rel_id m) (sp_id ns) 1 = Inr (bw, latency)"
    "0 \<le> src_mn_rel_id m" "nat (src_mn_rel_id m) < length (recv_next_idle ns)"
    "model_net_find_stats (pm_category m) (sp_stats_array ns) = Inr (i, arr)"
    "sp_get_category_idles (pm_category m) (idle_times_cat ns) = Inr (k, idles)"
    "ns' = (let e = busy_until (me_now env) (recv_next_idle ns ! nat (src_mn_rel_id m))
          (pm_net_msg_size_bytes m) bw in
      ns\<lparr>recv_next_idle := (recv_next_idle ns)[nat (src_mn_rel_id m) := e],
         sp_stats_array := arr[i := received (me_now env) e (pm_net_msg_size_bytes m) (idles ! k) (arr ! i)],
         idle_times_cat := idles[k := received_idles (me_now env) e (arr ! i) (idles ! k)]\<rparr>)"
    "m' = m\<lparr>recv_next_idle_saved := recv_next_idle ns ! nat (src_mn_rel_id m),
        pm_recv_time_saved := recv_time (arr ! i),
        recv_next_idle_all_saved := recv_next_idle_all (idles ! k),
        recv_prev_idle_all_saved := recv_prev_idle_all (idles ! k), pm_event_rc := r\<rparr>"
    "if pm_event_size_bytes m \<noteq> 0 \<and> pm_is_pull m \<noteq> 0
     then r = 1 \<and> lp' = snd (codes_local_latency lp) else lp' = lp"
proof -
  obtain bw latency i arr k idles where o:
    "sp_link (sp_params ns) (src_mn_rel_id m) (sp_id ns) 1 = Inr (bw, latency)"
    "0 \<le> src_mn_rel_id m" "nat (src_mn_rel_id m) < length (recv_next_idle ns)"
    "model_net_find_stats (pm_category m) (sp_stats_array ns) = Inr (i, arr)"
    "sp_get_category_idles (pm_category m) (idle_times_cat ns) = Inr (k, idles)"
    using assms by (auto simp: sp_msg_ready_def result_iff)
  let ?old = "recv_next_idle ns ! nat (src_mn_rel_id m)"
  have e: "busy_until (me_now env) ?old sz bw =
      (if ?old > me_now env then ?old - me_now env else 0) + sp_rate_to_ns sz bw + me_now env" for sz
    by (simp add: busy_until_def max_def)
  have r: "rdi (recv_next_idle ns) (src_mn_rel_id m) = Inr ?old" using o(2,3) by (simp add: rdi_def)
  show thesis
  proof (cases "pm_event_size_bytes m \<noteq> 0 \<and> pm_is_pull m \<noteq> 0")
    case True
    show thesis
      by (rule that [OF o, where r = 1]; insert True h;
        auto simp: sp_msg_ready_def o(1,4,5) r result_iff Let_def e received_def received_idles_def
          model_net_event_mctx_def split_beta dest!: event_impl_base_lp)
  next
    case False
    show thesis
      by (rule that [OF o, where r = "pm_event_rc m"]; insert False h;
        auto simp: sp_msg_ready_def o(1,4,5) r result_iff Let_def e received_def received_idles_def
          split_beta split: if_splits)
  qed
qed

lemma sp_ready_reverse:
  assumes h: "sp_msg_ready env g ns m data lp = Inr (ns', m', g', lp', out)"
  shows "\<exists>i k esz. sp_msg_ready_rev ns' m' lp' = Inr (sp_touched ns i k (pm_category m) esz, lp)"
proof -
  from sp_ready_outcome [OF h] obtain bw i arr k idles r e where
    d: "0 \<le> src_mn_rel_id m" "nat (src_mn_rel_id m) < length (recv_next_idle ns)"
    and f: "model_net_find_stats (pm_category m) (sp_stats_array ns) = Inr (i, arr)"
    and c: "sp_get_category_idles (pm_category m) (idle_times_cat ns) = Inr (k, idles)"
    and ns': "ns' = ns\<lparr>recv_next_idle := (recv_next_idle ns)[nat (src_mn_rel_id m) := e],
         sp_stats_array := arr[i := received (me_now env) e (pm_net_msg_size_bytes m) (idles ! k) (arr ! i)],
         idle_times_cat := idles[k := received_idles (me_now env) e (arr ! i) (idles ! k)]\<rparr>"
    and m': "m' = m\<lparr>recv_next_idle_saved := recv_next_idle ns ! nat (src_mn_rel_id m),
        pm_recv_time_saved := recv_time (arr ! i),
        recv_next_idle_all_saved := recv_next_idle_all (idles ! k),
        recv_prev_idle_all_saved := recv_prev_idle_all (idles ! k), pm_event_rc := r\<rparr>"
    and lp': "if pm_event_size_bytes m \<noteq> 0 \<and> pm_is_pull m \<noteq> 0
     then r = 1 \<and> lp' = snd (codes_local_latency lp) else lp' = lp"
    unfolding Let_def by metis
  note s = find_stats_entry(2,3) [OF f] and ci = category_idles_entry(2,3) [OF c]
  have a: "arr ! i = (sp_stats_array ns ! i)\<lparr>st_category := pm_category m\<rparr>" using s by simp
  have b: "idles ! k = (idle_times_cat ns ! k)\<lparr>ci_category := pm_category m\<rparr>" using ci by simp
  have g1: "model_net_find_stats (pm_category m) (sp_stats_array ns') = Inr (i, sp_stats_array ns')"
    using find_stats_updated [OF f, of "received now e sz y (arr ! i)" for now sz y] a by (simp add: ns')
  have g2: "sp_get_category_idles (pm_category m) (idle_times_cat ns') = Inr (k, idle_times_cat ns')"
    using category_idles_updated [OF c, of "received_idles now e x (idles ! k)" for now x] b
    by (simp add: ns')
  have "(if pm_event_size_bytes m \<noteq> 0 \<and> pm_is_pull m \<noteq> 0 then model_net_event_rc2 lp' r else lp') = lp"
    using lp' by (simp add: model_net_event_rc2_def split: if_splits)
  then have "sp_msg_ready_rev ns' m' lp' = Inr (sp_touched ns i k (pm_category m)
      (max_event_size (sp_stats_array ns ! i)), lp)"
    using d s ci g1 g2 by (simp add: sp_msg_ready_rev_def m' rdi_def Let_def cong: if_cong split del: if_split)
      (simp add: ns' sp_touched_def received_def received_idles_def a b split_beta)
  then show ?thesis by blast
qed

lemma sp_start_same:
  "sp_msg_start w env ns m data lp = Inr (ns', m', lp', out) \<Longrightarrow>
     pm_magic m' = pm_magic m \<and> pm_event_type m' = pm_event_type m"
  by (erule sp_start_outcome) simp

lemma sp_ready_same:
  "sp_msg_ready env g ns m data lp = Inr (ns', m', g', lp', out) \<Longrightarrow>
     pm_magic m' = pm_magic m \<and> pm_event_type m' = pm_event_type m"
  by (erule sp_ready_outcome) simp

lemma sp_events_undo:
  assumes "sp_event magic w env g ns m data lp = Inr (ns', m', g', lp', out)"
  shows "\<exists>i k esz. sp_rev_event magic ns' m' lp' = Inr (sp_touched ns i k (pm_category m) esz, lp)"
  using assms sp_start_same sp_ready_same
  by (auto simp: sp_event_def sp_rev_event_def result_iff SP_MSG_START_def SP_MSG_READY_def
      split: if_splits dest: sp_start_reverse sp_ready_reverse)

subsection \<open>Simplep2p below the base LP\<close>

interpretation p2p: reversible_method "simplep2p_method lat" for lat
  by unfold_locales (simp_all add: simplep2p_method_def simplep2p_packet_event_rc_def
      codes_local_latency_def codes_local_latency_reverse_def)

interpretation p2p_draw: draw_method "simplep2p_method lat" for lat
  by unfold_locales (simp_all add: simplep2p_method_def simplep2p_packet_event_rc_def
      codes_local_latency_def codes_local_latency_reverse_def)

lemma simplep2p_packet_event_method:
  "simplep2p_packet_event magic msg0 call sender = Inr (d, sender', msg, b) \<Longrightarrow>
     mn_packet_event (simplep2p_method lat) call sender = (lat d, sender')"
  by (auto simp: simplep2p_packet_event_def simplep2p_method_def Let_def result_iff split: prod.splits)

definition simplep2p_hooks ::
    "int \<Rightarrow> int \<Rightarrow> mn_env \<Rightarrow> (sp_state, sp_message \<times> bytes, unit, sp_out) mn_hooks" where
  "simplep2p_hooks sp_magic wrap_size env =
     \<lparr>hk_event = (\<lambda>s b m g lp. bind_res (sp_event sp_magic wrap_size env g s (fst m) (snd m) lp)
        (\<lambda>(s', m', g', lp', outs). Inr (s', b, (m', snd m), g', lp', outs))),
      hk_revent = (\<lambda>s b m lp. sp_rev_event sp_magic s (fst m) lp),
      hk_commit = None, hk_sample = None, hk_sample_rc = None, hk_end_notif = None,
      hk_end_notif_rc = None, hk_congestion = None, hk_congestion_rc = None, hk_congestion_commit = None\<rparr>"

definition sp_same_but_categories :: "sp_state \<Rightarrow> sp_state \<Rightarrow> bool" where
  "sp_same_but_categories s t \<longleftrightarrow> t = s \<or> (\<exists>i k cat esz. t = sp_touched s i k cat esz)"

interpretation p2pnet: reversible_network "simplep2p_method (me_lat env)"
    "simplep2p_hooks sp_magic wrap_size env" sp_same_but_categories for env sp_magic wrap_size
proof
  show "undoes sp_same_but_categories (hk_event (simplep2p_hooks sp_magic wrap_size env))
      (hk_revent (simplep2p_hooks sp_magic wrap_size env))"
    by (auto simp: undoes_def simplep2p_hooks_def result_iff sp_same_but_categories_def
        dest!: sp_events_undo) blast
qed (simp_all add: simplep2p_hooks_def sp_same_but_categories_def)

subsection \<open>Links of the matrix\<close>

text \<open>The rows that the lines of a matrix file hold.\<close>

definition row_vals :: "string \<Rightarrow> real list" where
  "row_vals l = concat (map tok_vals (strtok_r is_blank l))"

lemma mat_toks_vals:
  "mat_toks toks vals bufn = Inr (vals', bufn') \<Longrightarrow> vals' = vals @ concat (map tok_vals toks)"
proof (induction toks arbitrary: vals bufn)
  case (Cons t toks)
  from Cons.prems obtain b where "mat_toks toks (vals @ tok_vals t) b = Inr (vals', bufn')"
    by (cases "length vals \<ge> bufn") (auto simp: Let_def split: if_splits)
  from Cons.IH [OF this] show ?case by simp
qed simp

lemma mat_lines_rows:
  assumes "mat_lines False ls nfirst (int nfirst) vals bufn = Inr (vals', nfirst')"
  shows "vals' = vals @ concat (map row_vals ls) \<and> (0 < nfirst \<longrightarrow> nfirst' = nfirst) \<and>
    (0 < nfirst' \<longrightarrow> (\<forall>r \<in> set (dropWhile (\<lambda>r. r = []) (map row_vals ls)). length r = nfirst') \<and>
       (0 < nfirst \<longrightarrow> (\<forall>r \<in> set (map row_vals ls). length r = nfirst)))"
  using assms
proof (induction ls arbitrary: nfirst vals bufn)
  case (Cons l ls)
  obtain vals1 bufn1 where t: "mat_toks (strtok_r is_blank l) vals bufn = Inr (vals1, bufn1)"
    using Cons.prems by (auto simp: result_iff)
  have v: "vals1 = vals @ row_vals l" using mat_toks_vals [OF t] by (simp add: row_vals_def)
  show ?case
  proof (cases "nfirst = 0")
    case True
    then have "mat_lines False ls (length (row_vals l)) (int (length (row_vals l))) vals1 bufn1 = Inr (vals', nfirst')"
      using Cons.prems t v by (simp add: Let_def)
    note ih = Cons.IH [OF this]
    show ?thesis
    proof (cases "row_vals l = []")
      case empty: True
      then show ?thesis using ih True v by simp
    next
      case False
      then have "0 < length (row_vals l)" by simp
      with ih have "vals' = vals1 @ concat (map row_vals ls)" "nfirst' = length (row_vals l)"
        "\<forall>r \<in> set (map row_vals ls). length r = length (row_vals l)" by blast+
      then show ?thesis using False True v by simp
    qed
  next
    case False
    then have "length (row_vals l) = nfirst"
      "mat_lines False ls nfirst (int nfirst) vals1 bufn1 = Inr (vals', nfirst')"
      using Cons.prems t v by (auto simp: Let_def split: if_splits)
    moreover from Cons.IH [OF this(2)] False have "vals' = vals1 @ concat (map row_vals ls)"
      "nfirst' = nfirst" "\<forall>r \<in> set (map row_vals ls). length r = nfirst" by blast+
    ultimately show ?thesis using False v by (auto dest: set_dropWhileD)
  qed
qed simp

lemma concat_equal_rows:
  assumes "\<forall>r \<in> set rows. length r = w" and "i < length rows" and "j < w"
  shows "concat rows ! (i * w + j) = rows ! i ! j \<and> i * w + j < length (concat rows)"
  using assms
proof (induction rows arbitrary: i)
  case (Cons r rows)
  then show ?case
    by (cases i) (auto simp: nth_append)
qed simp

text \<open>C33: reading a matrix file and looking up a link agree. If \<open>parse_mat\<close> accepts a text whose
  lines have \<open>2 n > 0\<close> values each, the entry for a pair of devices and a direction is in the row
  of the sender, at the column \<open>2 to + direction\<close>, whenever the file has that many rows.\<close>
theorem simplep2p_link_lookup:
  assumes "parse_mat txt False = Inr (table, 2 * n)" and "rows = map row_vals (strtok_r is_eol txt)"
    and "[] \<notin> set rows" and "from < length rows" and "to < n" and "dir < 2"
  shows "sp_get_table_ent (int from) (int to) (int dir) (int n) table = Inr (rows ! from ! (2 * to + dir))"
proof -
  have m: "mat_lines False (strtok_r is_eol txt) 0 (int 0) [] 128 = Inr (table, 2 * n)"
    using assms(1) by (simp add: parse_mat_def)
  have "dropWhile (\<lambda>r. r = []) rows = rows" using assms(3) by (cases rows) auto
  then have "\<forall>r \<in> set rows. length r = 2 * n" and t: "table = concat rows"
    using mat_lines_rows [OF m] assms(2,5) by auto
  moreover have "2 * to + dir < 2 * n" using assms(5,6) by linarith
  ultimately have "table ! (from * (2 * n) + (2 * to + dir)) = rows ! from ! (2 * to + dir)"
    "from * (2 * n) + (2 * to + dir) < length table"
    using concat_equal_rows [of rows "2 * n" "from" "2 * to + dir"] assms(4) by auto
  moreover have "nat (2 * int from * int n + 2 * int to + int dir) = from * (2 * n) + (2 * to + dir)"
    "0 \<le> 2 * int from * int n + 2 * int to + int dir"
    by (simp_all add: nat_eq_iff algebra_simps)
  ultimately show ?thesis by (simp add: sp_get_table_ent_def rdi_def not_less)
qed

lemma mat_toks_single:
  assumes "\<forall>t \<in> set toks. length (tok_vals t) \<le> 1" and "length vals \<le> bufn" and "0 < bufn"
  shows "\<exists>bufn'. mat_toks toks vals bufn = Inr (vals @ concat (map tok_vals toks), bufn') \<and>
    length vals + length (concat (map tok_vals toks)) \<le> bufn' \<and> 0 < bufn'"
  using assms
proof (induction toks arbitrary: vals bufn)
  case (Cons t toks)
  let ?b = "if length vals \<ge> bufn then 2 * bufn else bufn"
  have "length (vals @ tok_vals t) \<le> ?b" "0 < ?b" using Cons.prems by auto
  with Cons.IH [of "vals @ tok_vals t" ?b] Cons.prems(1) obtain b where
    "mat_toks toks (vals @ tok_vals t) ?b = Inr ((vals @ tok_vals t) @ concat (map tok_vals toks), b)"
    "length (vals @ tok_vals t) + length (concat (map tok_vals toks)) \<le> b" "0 < b"
    by (metis list.set_intros(2))
  with \<open>length (vals @ tok_vals t) \<le> ?b\<close> show ?case
    by (intro exI [of _ b]) (simp add: Let_def not_less del: length_concat split del: if_split)
qed simp

text \<open>The buffer of \<open>parse_mat\<close>: strtok_r of one value never run past it, a token with a comma
  can, because the check for space is made once per token.\<close>

lemma mat_toks_overflow:
  "Suc (length vals) = bufn \<Longrightarrow> length (tok_vals t) = 2 \<Longrightarrow> mat_toks (t # toks) vals bufn = Inl OutOfBounds"
  by (simp add: Let_def)

definition ex_matrix :: string where
  "ex_matrix = ''1 2 3 4'' @ [CHR 0x0A] @ ''5,6 7 8'' @ [CHR 0x0A]"

theorem simplep2p_link_lookup_witness:
  "\<exists>table. parse_mat ex_matrix False = Inr (table, 4) \<and> sp_get_table_ent 1 0 1 2 table = Inr 6"
proof -
  let ?rows = "[[1, 2, 3, 4], [5, 6, 7, 8]] :: real list list"
  have t: "strtok_r is_eol ex_matrix = [''1 2 3 4'', ''5,6 7 8'']"
    by (simp add: ex_matrix_def is_eol_def)
  have r: "map row_vals (strtok_r is_eol ex_matrix) = ?rows"
    unfolding t by (simp add: row_vals_def is_blank_def tok_vals_def is_comma_def Let_def strtod_def
        split_sign_def is_space_def is_digit_def digits_val_def digit_val_def frac_val_def exponent_def)
  have p: "parse_mat ex_matrix False = Inr (concat ?rows, 4)"
    unfolding parse_mat_def t
    by (simp add: row_vals_def is_blank_def tok_vals_def is_comma_def Let_def strtod_def
        split_sign_def is_space_def is_digit_def digits_val_def digit_val_def frac_val_def exponent_def)
  have p': "parse_mat ex_matrix False = Inr (concat ?rows, 2 * 2)" using p by simp
  have "sp_get_table_ent (int 1) (int 0) (int 1) (int 2) (concat ?rows) = Inr (?rows ! 1 ! (2 * 0 + 1))"
    by (rule simplep2p_link_lookup [OF p' r [symmetric]]) simp_all
  with p show ?thesis by simp
qed

subsection \<open>Active time\<close>

text \<open>Half-open intervals of time, the set they cover and the sum of their lengths.\<close>

definition spans :: "(tw_stime \<times> tw_stime) list \<Rightarrow> tw_stime set" where
  "spans ivs = (\<Union>(s, e) \<in> set ivs. {s <.. e})"

definition total_span :: "(tw_stime \<times> tw_stime) list \<Rightarrow> tw_stime" where
  "total_span ivs = sum_list (map (\<lambda>(s, e). e - s) ivs)"

fun separated :: "(tw_stime \<times> tw_stime) list \<Rightarrow> bool" where
  "separated [] \<longleftrightarrow> True"
| "separated ((s, e) # ivs) \<longleftrightarrow> s \<le> e \<and> (\<forall>(s', e') \<in> set ivs. e \<le> s') \<and> separated ivs"

lemma separated_snoc:
  "separated (ivs @ [(s, e)]) \<longleftrightarrow> separated ivs \<and> s \<le> e \<and> (\<forall>(s', e') \<in> set ivs. e' \<le> s)"
  by (induction ivs rule: separated.induct) auto

lemma spans_simps [simp]:
  "spans [] = {}" "spans (iv # ivs) = {fst iv <.. snd iv} \<union> spans ivs"
  "spans (xs @ ys) = spans xs \<union> spans ys"
  by (auto simp: spans_def split: prod.splits)

lemma total_span_simps [simp]:
  "total_span [] = 0" "total_span (iv # ivs) = snd iv - fst iv + total_span ivs"
  "total_span (xs @ ys) = total_span xs + total_span ys"
  by (simp_all add: total_span_def split_beta)

text \<open>The meaning of the three numbers that \<open>count_active\<close> keeps: closed periods of total length
  \<open>t\<close>, and the open period from \<open>prev\<close> to \<open>nxt\<close>, which started before \<open>now\<close>.\<close>

definition counts :: "tw_stime \<Rightarrow> tw_stime set \<Rightarrow> tw_stime \<times> tw_stime \<times> tw_stime \<Rightarrow> bool" where
  "counts now S = (\<lambda>(t, prev, nxt). prev \<le> now \<and>
     (\<exists>ps. separated (ps @ [(prev, nxt)]) \<and> total_span ps = t \<and> spans (ps @ [(prev, nxt)]) = S))"

lemma counts_later: "counts now S st \<Longrightarrow> now \<le> now' \<Longrightarrow> counts now' S st"
  by (auto simp: counts_def)

lemma counts_step:
  assumes "counts t0 S st" and "t0 \<le> now" and "now \<le> e"
  shows "counts now ({now <.. e} \<union> S) (count_active now e st)"
proof -
  obtain t prev nxt where st: "st = (t, prev, nxt)" by (cases st)
  from assms(1) obtain ps where ps: "separated (ps @ [(prev, nxt)])" "total_span ps = t"
    "spans (ps @ [(prev, nxt)]) = S" "prev \<le> t0" by (auto simp: counts_def st)
  show ?thesis
  proof (cases "now > nxt")
    case True
    then have "count_active now e st = (t + (nxt - prev), now, e)"
      using assms(3) by (simp add: count_active_def st)
    moreover have "separated ((ps @ [(prev, nxt)]) @ [(now, e)])"
      using ps(1) assms(3) True by (subst separated_snoc) (auto simp: separated_snoc)
    ultimately show ?thesis using ps
      by (auto simp: counts_def intro!: exI [of _ "ps @ [(prev, nxt)]"])
  next
    case False
    then have "count_active now e st = (t, prev, max nxt e)"
      by (simp add: count_active_def st max_def)
    moreover have "separated (ps @ [(prev, max nxt e)])" using ps(1) by (auto simp: separated_snoc)
    moreover have "spans (ps @ [(prev, max nxt e)]) = {now <.. e} \<union> S"
      using ps(3,4) assms(2) False by auto
    ultimately show ?thesis using ps(2,4) assms(2) by (auto simp: counts_def)
  qed
qed

lemma counts_zero: "0 \<le> now \<Longrightarrow> counts now {} (0, 0, 0)"
  by (auto simp: counts_def intro!: exI [of _ "[]"])

text \<open>The sending side of the entry of a category; zeros while the category has none.\<close>

definition send_entries :: "sp_state \<Rightarrow> (string \<times> tw_stime \<times> tw_stime \<times> tw_stime) list" where
  "send_entries ns = map2 (\<lambda>st ci. (st_category st, send_time st, send_prev_idle_all ci, send_next_idle_all ci))
     (sp_stats_array ns) (idle_times_cat ns)"

text \<open>The two tables name the same categories in the same order; entries without a name are zero
  and come last, and no name occurs twice.\<close>

definition entries_ok :: "(string \<times> tw_stime \<times> tw_stime \<times> tw_stime) list \<Rightarrow> bool" where
  "entries_ok es \<longleftrightarrow> (\<forall>i < length es. fst (es ! i) = [] \<longrightarrow>
     es ! i = ([], 0, 0, 0) \<and> (\<forall>j < length es. i \<le> j \<longrightarrow> fst (es ! j) = [])) \<and>
   (\<forall>i < length es. \<forall>j < length es. fst (es ! i) = fst (es ! j) \<longrightarrow> fst (es ! i) \<noteq> [] \<longrightarrow> i = j)"

lemma entries_okD:
  assumes "entries_ok es" and "i < length es"
  shows "fst (es ! i) = [] \<Longrightarrow> es ! i = ([], 0, 0, 0)"
    and "fst (es ! i) = [] \<Longrightarrow> j < length es \<Longrightarrow> i \<le> j \<Longrightarrow> fst (es ! j) = []"
    and "j < length es \<Longrightarrow> fst (es ! i) = fst (es ! j) \<Longrightarrow> fst (es ! i) \<noteq> [] \<Longrightarrow> i = j"
proof -
  note ok = assms(1) [unfolded entries_ok_def]
  show "fst (es ! i) = [] \<Longrightarrow> es ! i = ([], 0, 0, 0)"
    using conjunct1 [OF ok, rule_format, OF assms(2)] by (rule conjunct1)
  show "fst (es ! i) = [] \<Longrightarrow> j < length es \<Longrightarrow> i \<le> j \<Longrightarrow> fst (es ! j) = []"
    using conjunct1 [OF ok, rule_format, OF assms(2), THEN conjunct2] by blast
  show "j < length es \<Longrightarrow> fst (es ! i) = fst (es ! j) \<Longrightarrow> fst (es ! i) \<noteq> [] \<Longrightarrow> i = j"
    by (rule conjunct2 [OF ok, rule_format, OF assms(2)])
qed

lemma entries_okI:
  assumes "\<And>i. i < length es \<Longrightarrow> fst (es ! i) = [] \<Longrightarrow> es ! i = ([], 0, 0, 0)"
    and "\<And>i j. fst (es ! i) = [] \<Longrightarrow> j < length es \<Longrightarrow> i \<le> j \<Longrightarrow> fst (es ! j) = []"
    and "\<And>i j. i < length es \<Longrightarrow> j < length es \<Longrightarrow> fst (es ! i) = fst (es ! j) \<Longrightarrow> fst (es ! i) \<noteq> [] \<Longrightarrow> i = j"
  shows "entries_ok es"
  unfolding entries_ok_def
proof (intro conjI allI impI)
  fix i j assume "i < length es" "j < length es" "fst (es ! i) = fst (es ! j)" "fst (es ! i) \<noteq> []"
  then show "i = j" by (rule assms(3))
qed (rule assms(1,2); assumption)+

lemma entries_ok_tail: "entries_ok (e # es) \<Longrightarrow> entries_ok es"
proof (rule entries_okI)
  assume ok: "entries_ok (e # es)"
  fix i j
  show "i < length es \<Longrightarrow> fst (es ! i) = [] \<Longrightarrow> es ! i = ([], 0, 0, 0)"
    using entries_okD(1) [OF ok, of "Suc i"] by simp
  show "fst (es ! i) = [] \<Longrightarrow> j < length es \<Longrightarrow> i \<le> j \<Longrightarrow> fst (es ! j) = []"
    using entries_okD(2) [OF ok, of "Suc i" "Suc j"] by simp
  show "i < length es \<Longrightarrow> j < length es \<Longrightarrow> fst (es ! i) = fst (es ! j) \<Longrightarrow> fst (es ! i) \<noteq> [] \<Longrightarrow> i = j"
    using entries_okD(3) [OF ok, of "Suc i" "Suc j"] by simp
qed

definition sp_inv :: "sp_state \<Rightarrow> bool" where
  "sp_inv ns \<longleftrightarrow> map ci_category (idle_times_cat ns) = map st_category (sp_stats_array ns) \<and>
     entries_ok (send_entries ns)"

definition view :: "(string \<times> tw_stime \<times> tw_stime \<times> tw_stime) list \<Rightarrow> string \<Rightarrow> tw_stime \<times> tw_stime \<times> tw_stime" where
  "view es c = (case map_of es c of None \<Rightarrow> (0, 0, 0) | Some v \<Rightarrow> v)"

lemma map_of_update_here:
  "i < length xs \<Longrightarrow> \<forall>k < i. fst (xs ! k) \<noteq> c \<Longrightarrow> map_of (xs[i := (c, v)]) c = Some v"
proof (induction xs arbitrary: i)
  case (Cons x xs)
  show ?case
  proof (cases i)
    case (Suc j)
    have "fst x \<noteq> c" "\<forall>k < j. fst (xs ! k) \<noteq> c" using Cons.prems(2) Suc by auto
    with Cons.IH [of j] Cons.prems(1) Suc show ?thesis by (cases x) simp
  qed simp
qed simp

lemma map_of_update_other:
  "i < length xs \<Longrightarrow> d \<noteq> c \<Longrightarrow> d \<noteq> fst (xs ! i) \<Longrightarrow> map_of (xs[i := (c, v)]) d = map_of xs d"
proof (induction xs arbitrary: i)
  case (Cons x xs)
  then show ?case by (cases i; cases x) auto
qed simp

lemma map_of_first:
  "i < length xs \<Longrightarrow> \<forall>k < i. fst (xs ! k) \<noteq> fst (xs ! i) \<Longrightarrow> map_of xs (fst (xs ! i)) = Some (snd (xs ! i))"
proof (induction xs arbitrary: i)
  case (Cons x xs)
  show ?case
  proof (cases i)
    case (Suc j)
    have "fst x \<noteq> fst (xs ! j)" "\<forall>k < j. fst (xs ! k) \<noteq> fst (xs ! j)" using Cons.prems(2) Suc by auto
    with Cons.IH [of j] Cons.prems(1) Suc show ?thesis by (cases x) simp
  qed (cases x, simp)
qed simp

text \<open>An update of the entry that a search for \<open>c\<close> found: the first that has this name or none.\<close>

definition found :: "(string \<times> tw_stime \<times> tw_stime \<times> tw_stime) list \<Rightarrow> string \<Rightarrow> nat \<Rightarrow> bool" where
  "found es c i \<longleftrightarrow> i < length es \<and> (fst (es ! i) = c \<or> fst (es ! i) = []) \<and>
     (\<forall>k < i. fst (es ! k) \<noteq> [] \<and> fst (es ! k) \<noteq> c)"

lemma found_view:
  assumes "entries_ok es" and "found es c i" and "c \<noteq> []"
  shows "view es c = snd (es ! i)"
proof (cases "fst (es ! i) = c")
  case True
  then have "map_of es c = Some (snd (es ! i))" using map_of_first [of i es] assms(2) by (auto simp: found_def)
  then show ?thesis by (simp add: view_def)
next
  case False
  then have e: "fst (es ! i) = []" "i < length es" using assms(2) by (auto simp: found_def)
  then have "es ! i = ([], 0, 0, 0)" "\<forall>j < length es. i \<le> j \<longrightarrow> fst (es ! j) = []"
    using assms(1) by (auto simp: entries_ok_def)
  moreover have "c \<notin> fst ` set es"
    using calculation(2) assms(2,3) by (auto simp: found_def in_set_conv_nth) (metis fst_conv not_le)
  ultimately show ?thesis by (simp add: view_def map_of_eq_None_iff [symmetric])
qed

lemma found_update:
  assumes "entries_ok es" and "found es c i" and "c \<noteq> []"
  shows "view (es[i := (c, v)]) d = (if d = c then v else view es d) \<or> d = []"
    and "entries_ok (es[i := (c, v)])"
proof -
  have i: "i < length es" "\<forall>k < i. fst (es ! k) \<noteq> c" using assms(2) by (auto simp: found_def)
  show "view (es[i := (c, v)]) d = (if d = c then v else view es d) \<or> d = []"
    using map_of_update_here [OF i, of v] map_of_update_other [OF i(1), of d c v] assms(2)
    by (auto simp: view_def found_def)
  have after: "i < k" if k: "k < length es" "fst (es[i := (c, v)] ! k) = []" for k
  proof -
    have "k \<noteq> i" using k i(1) assms(3) by auto
    then show "i < k" using assms(2) k by (metis found_def linorder_neqE_nat nth_list_update_neq)
  qed
  have only: "k = i" if k: "k < length es" "fst (es ! k) = c" for k
  proof (cases "fst (es ! i) = c")
    case True
    then show ?thesis using entries_okD(3) [OF assms(1) i(1) k(1)] k(2) assms(3) by simp
  next
    case False
    then have "fst (es ! i) = []" "\<not> k < i" using assms(2) k(2) by (auto simp: found_def)
    then show ?thesis using entries_okD(2) [OF assms(1) i(1)] k assms(3) by (metis not_le)
  qed
  show "entries_ok (es[i := (c, v)])"
  proof (rule entries_okI)
    fix a assume a: "a < length (es[i := (c, v)])" "fst (es[i := (c, v)] ! a) = []"
    with after [of a] have "i < a" by simp
    then show "es[i := (c, v)] ! a = ([], 0, 0, 0)" using a entries_okD(1) [OF assms(1), of a] by simp
  next
    fix a b assume a: "fst (es[i := (c, v)] ! a) = []" "b < length (es[i := (c, v)])" "a \<le> b"
    with after [of a] have "i < a" by simp
    then show "fst (es[i := (c, v)] ! b) = []" using a entries_okD(2) [OF assms(1), of a b] by simp
  next
    fix a b assume a: "a < length (es[i := (c, v)])" "b < length (es[i := (c, v)])"
      "fst (es[i := (c, v)] ! a) = fst (es[i := (c, v)] ! b)" "fst (es[i := (c, v)] ! a) \<noteq> []"
    consider "a = i" "b = i" | "a = i" "b \<noteq> i" | "a \<noteq> i" "b = i" | "a \<noteq> i" "b \<noteq> i" by blast
    then show "a = b"
    proof cases
      case 2
      then show ?thesis using only [of b] a by simp
    next
      case 3
      then show ?thesis using only [of a] a by simp
    next
      case 4
      then show ?thesis by (intro entries_okD(3) [OF assms(1)]) (use a in simp_all)
    qed simp
  qed
qed

lemma search_found:
  assumes "sp_inv ns" and f: "model_net_find_stats c (sp_stats_array ns) = Inr (i, arr)"
    and "sp_get_category_idles c (idle_times_cat ns) = Inr (k, idles)"
  shows "k = i" and "found (send_entries ns) c i" and "i < length (idle_times_cat ns)"
    and "snd (send_entries ns ! i) = (send_time (arr ! i), send_prev_idle_all (idles ! i), send_next_idle_all (idles ! i))"
    and "map ci_category idles = map st_category arr"
proof -
  have m: "map ci_category (idle_times_cat ns) = map st_category (sp_stats_array ns)"
    using assms(1) by (simp add: sp_inv_def)
  then have len: "length (idle_times_cat ns) = length (sp_stats_array ns)" by (metis length_map)
  show k: "k = i" using category_idles_find [OF m f] assms(3) by simp
  note e = find_stats_entry [OF f] and ci = category_idles_entry(3) [OF assms(3)]
  show "i < length (idle_times_cat ns)" using e(2) len by simp
  have "st_category (sp_stats_array ns ! i) = c \<or> st_category (sp_stats_array ns ! i) = []"
    using f by (auto simp: model_net_find_stats_def split: option.splits if_splits dest!: find_stats_loop_Some)
  then show "found (send_entries ns) c i"
    using e len by (auto simp: found_def send_entries_def)
  show "snd (send_entries ns ! i) = (send_time (arr ! i), send_prev_idle_all (idles ! i), send_next_idle_all (idles ! i))"
    using e len ci k by (simp add: send_entries_def)
  show "map ci_category idles = map st_category arr"
    using e(3) ci k m by (simp add: map_update)
qed

lemma sp_tables_step:
  assumes "sp_inv ns" and c: "c \<noteq> []" and f: "model_net_find_stats c (sp_stats_array ns) = Inr (i, arr)"
    and ci: "sp_get_category_idles c (idle_times_cat ns) = Inr (k, idles)"
    and "sp_stats_array ns' = arr[i := st]" and "idle_times_cat ns' = idles[k := cat]"
    and "st_category st = c" and "ci_category cat = c"
  shows "sp_inv ns'" and "d \<noteq> [] \<Longrightarrow> view (send_entries ns') d =
    (if d = c then (send_time st, send_prev_idle_all cat, send_next_idle_all cat) else view (send_entries ns) d)"
    and "view (send_entries ns) c = (send_time (arr ! i), send_prev_idle_all (idles ! k), send_next_idle_all (idles ! k))"
proof -
  note s = search_found [OF assms(1) f ci]
  have ok: "entries_ok (send_entries ns)" using assms(1) by (simp add: sp_inv_def)
  let ?v = "(send_time st, send_prev_idle_all cat, send_next_idle_all cat)"
  have es: "send_entries ns' = (send_entries ns)[i := (c, ?v)]"
    unfolding send_entries_def using find_stats_entry(3) [OF f] category_idles_entry(3) [OF ci] s(1) assms(5-8)
      assms(1) by (simp add: zip_update map_update sp_inv_def)
  show "sp_inv ns'" using found_update(2) [OF ok s(2) c] s(1,5) assms(5-8)
    by (simp add: sp_inv_def es map_update)
  show "d \<noteq> [] \<Longrightarrow> view (send_entries ns') d = (if d = c then ?v else view (send_entries ns) d)"
    using found_update(1) [OF ok s(2) c, of ?v d] unfolding es by blast
  show "view (send_entries ns) c = (send_time (arr ! i), send_prev_idle_all (idles ! k), send_next_idle_all (idles ! k))"
    using found_view [OF ok s(2) c] s(1,4) by simp
qed

lemma sp_start_view:
  assumes h: "sp_msg_start w env ns m data lp = Inr (ns', m', lp', out)" and "sp_inv ns" and "pm_category m \<noteq> []"
  defines "e \<equiv> send_next_idle ns' ! nat (dest_mn_rel_id m')"
  shows "sp_inv ns'" and "me_now env \<le> e"
    and "d \<noteq> [] \<Longrightarrow> view (send_entries ns') d = (if d = pm_category m
      then count_active (me_now env) e (view (send_entries ns) d) else view (send_entries ns) d)"
proof -
  obtain dest bw latency i arr k idles where
    l: "sp_link (sp_params ns) (sp_id ns) dest 0 = Inr (bw, latency)"
    and d: "nat dest < length (send_next_idle ns)"
    and f: "model_net_find_stats (pm_category m) (sp_stats_array ns) = Inr (i, arr)"
    and c: "sp_get_category_idles (pm_category m) (idle_times_cat ns) = Inr (k, idles)"
    and ns': "ns' = (let e = busy_until (me_now env) (send_next_idle ns ! nat dest) (pm_net_msg_size_bytes m) bw in
      ns\<lparr>send_next_idle := (send_next_idle ns)[nat dest := e],
         sp_stats_array := arr[i := sent (me_now env) e (pm_net_msg_size_bytes m)
           (w + pm_event_size_bytes m + pm_local_event_size_bytes m) (idles ! k) (arr ! i)],
         idle_times_cat := idles[k := sent_idles (me_now env) e (arr ! i) (idles ! k)]\<rparr>)"
    and "dest_mn_rel_id m' = dest"
    by (rule sp_start_outcome [OF h]) (rule that, simp_all)
  then have e: "e = busy_until (me_now env) (send_next_idle ns ! nat dest) (pm_net_msg_size_bytes m) bw"
    by (simp add: e_def Let_def)
  have "0 < bw" using l by (auto simp: sp_link_def result_iff split: if_splits)
  then have "0 \<le> sp_rate_to_ns (pm_net_msg_size_bytes m) bw" by (simp add: sp_rate_to_ns_def del: of_nat_unat)
  then show "me_now env \<le> e" by (simp add: e busy_until_def max_def)
  have names: "st_category (arr ! i) = pm_category m" "ci_category (idles ! k) = pm_category m"
    using find_stats_entry(2,3) [OF f] category_idles_entry(2,3) [OF c] by simp_all
  note t = sp_tables_step [OF assms(2,3) f c, of ns' "sent (me_now env) e (pm_net_msg_size_bytes m)
      (w + pm_event_size_bytes m + pm_local_event_size_bytes m) (idles ! k) (arr ! i)"
      "sent_idles (me_now env) e (arr ! i) (idles ! k)"]
  show "sp_inv ns'" using t(1) names by (simp add: ns' e Let_def)
  show "d \<noteq> [] \<Longrightarrow> view (send_entries ns') d = (if d = pm_category m
      then count_active (me_now env) e (view (send_entries ns) d) else view (send_entries ns) d)"
    using t(2) [of d] t(3) names
    by (simp add: ns' e Let_def) (simp add: sent_def sent_idles_def split: prod.split)
qed

lemma sp_ready_view:
  assumes h: "sp_msg_ready env g ns m data lp = Inr (ns', m', g', lp', out)" and "sp_inv ns" and "pm_category m \<noteq> []"
  shows "sp_inv ns'" and "d \<noteq> [] \<Longrightarrow> view (send_entries ns') d = view (send_entries ns) d"
proof -
  obtain e i arr k idles where
    f: "model_net_find_stats (pm_category m) (sp_stats_array ns) = Inr (i, arr)"
    and c: "sp_get_category_idles (pm_category m) (idle_times_cat ns) = Inr (k, idles)"
    and ns': "ns' = ns\<lparr>recv_next_idle := (recv_next_idle ns)[nat (src_mn_rel_id m) := e],
         sp_stats_array := arr[i := received (me_now env) e (pm_net_msg_size_bytes m) (idles ! k) (arr ! i)],
         idle_times_cat := idles[k := received_idles (me_now env) e (arr ! i) (idles ! k)]\<rparr>"
    by (rule sp_ready_outcome [OF h]) (rule that, simp_all add: Let_def)
  have names: "st_category (arr ! i) = pm_category m" "ci_category (idles ! k) = pm_category m"
    using find_stats_entry(2,3) [OF f] category_idles_entry(2,3) [OF c] by simp_all
  note t = sp_tables_step [OF assms(2,3) f c, of ns' "received (me_now env) e (pm_net_msg_size_bytes m)
      (idles ! k) (arr ! i)" "received_idles (me_now env) e (arr ! i) (idles ! k)"]
  show "sp_inv ns'" using t(1) names by (simp add: ns')
  show "d \<noteq> [] \<Longrightarrow> view (send_entries ns') d = view (send_entries ns) d"
    using t(2) [of d] t(3) names
    by (simp add: ns') (simp add: received_def received_idles_def split: prod.split)
qed

text \<open>A run of a device: the events it handles one after the other, with the times of the
  transmissions that it starts for category \<open>c\<close>, from the start event to the time the link is
  free again.\<close>

type_synonym sp_input = "mn_env \<times> mn_globals \<times> sp_message \<times> bytes \<times> tw_lp"

fun sp_run ::
    "string \<Rightarrow> int \<Rightarrow> int \<Rightarrow> sp_input list \<Rightarrow> sp_state \<Rightarrow> (sp_state \<times> (tw_stime \<times> tw_stime) list) result" where
  "sp_run c magic w [] ns = Inr (ns, [])"
| "sp_run c magic w ((env, g, m, data, lp) # evs) ns =
     bind_res (sp_event magic w env g ns m data lp) (\<lambda>(ns1, m1, g1, lp1, out).
     bind_res (sp_run c magic w evs ns1) (\<lambda>(ns2, ivs).
       Inr (ns2, if pm_event_type m = SP_MSG_START \<and> pm_category m = c
                 then (me_now env, send_next_idle ns1 ! nat (dest_mn_rel_id m1)) # ivs else ivs)))"

fun in_order :: "tw_stime \<Rightarrow> sp_input list \<Rightarrow> bool" where
  "in_order t0 [] \<longleftrightarrow> True"
| "in_order t0 ((env, g, m, data, lp) # evs) \<longleftrightarrow>
     t0 \<le> me_now env \<and> pm_category m \<noteq> [] \<and> in_order (me_now env) evs"

lemma sp_run_counts:
  assumes "sp_run c magic w evs ns = Inr (ns', ivs)" and "in_order t0 evs" and "sp_inv ns" and "c \<noteq> []"
    and "counts t0 S (view (send_entries ns) c)"
  shows "sp_inv ns' \<and> (\<exists>t1. counts t1 (spans ivs \<union> S) (view (send_entries ns') c))"
  using assms
proof (induction evs arbitrary: ns t0 S ivs)
  case (Cons x evs)
  obtain env g m data lp where x: "x = (env, g, m, data, lp)" by (cases x)
  then obtain ns1 m1 g1 lp1 out ivs1 where
    ev: "sp_event magic w env g ns m data lp = Inr (ns1, m1, g1, lp1, out)"
    and rest: "sp_run c magic w evs ns1 = Inr (ns', ivs1)"
    and ivs: "ivs = (if pm_event_type m = SP_MSG_START \<and> pm_category m = c
        then (me_now env, send_next_idle ns1 ! nat (dest_mn_rel_id m1)) # ivs1 else ivs1)"
    using Cons.prems(1) by (auto simp: result_iff)
  have o: "t0 \<le> me_now env" "pm_category m \<noteq> []" "in_order (me_now env) evs"
    using Cons.prems(2) x by auto
  let ?e = "send_next_idle ns1 ! nat (dest_mn_rel_id m1)"
  let ?S = "if pm_event_type m = SP_MSG_START \<and> pm_category m = c then {me_now env <.. ?e} \<union> S else S"
  have "sp_inv ns1 \<and> counts (me_now env) ?S (view (send_entries ns1) c)"
  proof (cases "pm_event_type m = SP_MSG_START")
    case True
    then have "sp_msg_start w env ns m data lp = Inr (ns1, m1, lp1, out)"
      using ev by (auto simp: sp_event_def result_iff)
    note v = sp_start_view [OF this Cons.prems(3) o(2)]
    show ?thesis using v(1) v(3) [OF Cons.prems(4)] True
        counts_step [OF Cons.prems(5) o(1) v(2)] counts_later [OF Cons.prems(5) o(1)] by auto
  next
    case False
    then have "sp_msg_ready env g ns m data lp = Inr (ns1, m1, g1, lp1, out)"
      using ev by (auto simp: sp_event_def result_iff split: if_splits)
    note v = sp_ready_view [OF this Cons.prems(3) o(2)]
    show ?thesis using v(1) v(2) [OF Cons.prems(4)] False counts_later [OF Cons.prems(5) o(1)] by simp
  qed
  with Cons.IH [OF rest o(3) _ Cons.prems(4)] have
    "sp_inv ns' \<and> (\<exists>t1. counts t1 (spans ivs1 \<union> ?S) (view (send_entries ns') c))" by blast
  moreover have "spans ivs1 \<union> ?S = spans ivs \<union> S" by (auto simp: ivs)
  ultimately show ?case by simp
qed auto

text \<open>What \<open>sp_finalize\<close> reports.\<close>

lemma close_periods_send:
  assumes "st \<in> set (close_periods cs sts)" and "map ci_category cs = map st_category sts"
    and "entries_ok (map2 (\<lambda>st ci. (st_category st, send_time st, send_prev_idle_all ci, send_next_idle_all ci)) sts cs)"
    and "st_category st = c" and "c \<noteq> []"
  shows "\<exists>i < length sts. st_category (sts ! i) = c \<and>
    send_time st = send_time (sts ! i) + (send_next_idle_all (cs ! i) - send_prev_idle_all (cs ! i))"
  using assms
proof (induction cs sts rule: close_periods.induct)
  case (1 ci cs s sts)
  let ?es = "\<lambda>sts cs. map2 (\<lambda>st ci. (st_category st, send_time st, send_prev_idle_all ci, send_next_idle_all ci)) sts cs"
  have len: "length cs = length sts" using "1.prems"(2) by (metis length_map list.simps(9) list.inject)
  show ?case
  proof (cases "ci_category ci = []")
    case True
    then have z: "st_category s = []" using "1.prems"(2) by simp
    have "\<forall>j < length (?es (s # sts) (ci # cs)). fst (?es (s # sts) (ci # cs) ! j) = []"
    proof (intro allI impI)
      fix j assume "j < length (?es (s # sts) (ci # cs))"
      then show "fst (?es (s # sts) (ci # cs) ! j) = []"
        by (intro entries_okD(2) [OF "1.prems"(3), of 0 j]) (use z in simp_all)
    qed
    then have "\<forall>j < length (s # sts). st_category ((s # sts) ! j) = []"
      using len by (auto simp: nth_Cons split: nat.splits)
    then have "\<forall>x \<in> set (s # sts). st_category x = []" by (metis in_set_conv_nth)
    then show ?thesis using True "1.prems"(1,4,5) by auto
  next
    case False
    have ok: "entries_ok (?es sts cs)" using entries_ok_tail "1.prems"(3) by fastforce
    show ?thesis
    proof (cases "st \<in> set (close_periods cs sts)")
      case True
      from "1.IH" [OF False this _ ok "1.prems"(4,5)] "1.prems"(2) show ?thesis by auto
    next
      case here: False
      then show ?thesis using False "1.prems"(1,4) by (intro exI [of _ 0]) auto
    qed
  qed
qed auto

lemma entries_view:
  assumes "entries_ok es" and "i < length es" and "fst (es ! i) = c" and "c \<noteq> []"
  shows "view es c = snd (es ! i)"
proof -
  have "\<forall>k < i. fst (es ! k) \<noteq> fst (es ! i)"
    using entries_okD(3) [OF assms(1,2)] assms(2-4) by (metis less_irrefl order.strict_trans)
  from map_of_first [OF assms(2) this] show ?thesis using assms(3) by (simp add: view_def)
qed

lemma sp_closed_send_time:
  assumes inv: "sp_inv ns" and "st \<in> set (close_periods (idle_times_cat ns) (sp_stats_array ns))"
    and "st_category st = c" and "c \<noteq> []" and "view (send_entries ns) c = (t, prev, nxt)"
  shows "send_time st = t + (nxt - prev)"
proof -
  have m: "map ci_category (idle_times_cat ns) = map st_category (sp_stats_array ns)"
    and ok: "entries_ok (send_entries ns)" using inv by (auto simp: sp_inv_def)
  then have len: "length (idle_times_cat ns) = length (sp_stats_array ns)" by (metis length_map)
  from close_periods_send [OF assms(2) m ok [unfolded send_entries_def] assms(3,4)] obtain i where
    i: "i < length (sp_stats_array ns)" "st_category (sp_stats_array ns ! i) = c"
      "send_time st = send_time (sp_stats_array ns ! i) +
        (send_next_idle_all (idle_times_cat ns ! i) - send_prev_idle_all (idle_times_cat ns ! i))" by blast
  have "view (send_entries ns) c = snd (send_entries ns ! i)"
    using i len by (intro entries_view [OF ok]) (simp_all add: send_entries_def assms(4))
  then show ?thesis using i len assms(5) by (simp add: send_entries_def)
qed

subsection \<open>Properties\<close>

text \<open>C32: the reverse handlers of simplep2p undo a message event of either kind: the idle times
  of the link and of the category, the counters and the counted time of the statistics, the
  random stream. Only the name of a category that was new, in both tables, and the largest
  event size stay.\<close>
theorem simplep2p_events_reversible:
  assumes "sp_event magic w env g ns m data lp = Inr (ns', m', g', lp', out)"
  shows "\<exists>i k esz. sp_rev_event magic ns' m' lp' = Inr (sp_touched ns i k (pm_category m) esz, lp)"
  using assms by (rule sp_events_undo)

definition sp_start_state :: "tw_stime \<Rightarrow> simplep2p_param \<Rightarrow> int \<Rightarrow> sp_state" where
  "sp_start_state now p rel =
     \<lparr>send_next_idle = replicate (nat (sp_num_lps p)) now, recv_next_idle = replicate (nat (sp_num_lps p)) now,
      sp_anno = None, sp_params = p, sp_id = rel, idle_times_cat = replicate CATEGORY_MAX idles_zero,
      sp_stats_array = replicate CATEGORY_MAX stats_zero\<rparr>"

lemma sp_init_state:
  "sp_init c all_params amap now lp = Inr ns \<Longrightarrow>
     \<exists>p rel anno. ns = (sp_start_state now p rel)\<lparr>sp_anno := anno\<rparr>"
  by (auto simp: sp_init_def result_iff sp_start_state_def)

lemma sp_init_inv:
  assumes "sp_init c all_params amap now lp = Inr ns"
  shows "sp_inv ns \<and> view (send_entries ns) cat = (0, 0, 0)"
proof -
  have "send_entries ns = replicate CATEGORY_MAX ([], 0, 0, 0)"
    "map ci_category (idle_times_cat ns) = map st_category (sp_stats_array ns)"
    using sp_init_state [OF assms]
    by (auto simp: send_entries_def sp_start_state_def idles_zero_def stats_zero_def zip_replicate)
  moreover have "view (replicate n ([], 0, 0, 0)) cat = (0, 0, 0)" for n
    by (induction n) (auto simp: view_def split: option.splits)
  moreover have "entries_ok (replicate n ([], 0, 0, 0))" for n
    by (rule entries_okI) simp_all
  ultimately show ?thesis by (simp add: sp_inv_def)
qed

text \<open>The sending time that simplep2p reports for a category. Each message counts from its start event
  to the end of its transmission, the time it waits for the link included. For a run of a device
  from its initial state, with events in the order of their time, these intervals of the category
  cover the same points in time as certain intervals that do not overlap, and the reported time is
  the sum of the lengths of the latter; time in which several messages were pending counts once.\<close>
theorem simplep2p_send_time_is_union:
  assumes "sp_init cfg all_params amap start lp0 = Inr ns" and "0 \<le> start" and "in_order start evs"
    and "sp_run c magic w evs ns = Inr (ns', ivs)" and "c \<noteq> []"
  shows "\<exists>ps. separated ps \<and> spans ps = spans ivs \<and>
    (\<forall>st \<in> set (close_periods (idle_times_cat ns') (sp_stats_array ns')).
       st_category st = c \<longrightarrow> send_time st = total_span ps)"
proof -
  have "sp_inv ns" "counts start {} (view (send_entries ns) c)"
    using sp_init_inv [OF assms(1)] counts_zero [OF assms(2)] by simp_all
  from sp_run_counts [OF assms(4,3) this(1) assms(5) this(2)] obtain t1 where
    inv: "sp_inv ns'" and t1: "counts t1 (spans ivs) (view (send_entries ns') c)" by auto
  obtain t prev nxt where v: "view (send_entries ns') c = (t, prev, nxt)" by (metis prod_cases3)
  with t1 obtain ps where "separated (ps @ [(prev, nxt)])" "total_span ps = t"
    "spans (ps @ [(prev, nxt)]) = spans ivs" by (auto simp: counts_def)
  with sp_closed_send_time [OF inv _ _ assms(5) v] show ?thesis
    by (intro exI [of _ "ps @ [(prev, nxt)]"]) auto
qed

subsection \<open>Examples\<close>

text \<open>Two devices, gids 2 and 5, with links of 1000 MB/s and 5 ns.\<close>

definition ex_sp_param :: simplep2p_param where
  "ex_sp_param = \<lparr>net_latency_ns_table = replicate 8 5, net_bw_mbps_table = replicate 8 1000, mat_len = 4,
     sp_num_lps = 2\<rparr>"

definition ex_sp_msg :: sp_message where
  "ex_sp_msg = \<lparr>pm_magic = 5, pm_event_type = SP_MSG_START, pm_src_gid = 0, pm_src_mn_lp = 2,
     pm_final_dest_gid = 4, pm_dest_mn_lp = 5, src_mn_rel_id = 0, dest_mn_rel_id = 0,
     pm_net_msg_size_bytes = 1048576, pm_event_size_bytes = 2, pm_local_event_size_bytes = 1,
     pm_category = ''test'', pm_event_rc = 0, pm_is_pull = 0, pm_pull_size = 0, send_next_idle_saved = 0,
     recv_next_idle_saved = 0, pm_send_time_saved = 0, pm_recv_time_saved = 0, send_next_idle_all_saved = 0,
     send_prev_idle_all_saved = 0, recv_next_idle_all_saved = 0, recv_prev_idle_all_saved = 0\<rparr>"

definition ex_amap :: config_anno_map where
  "ex_amap = \<lparr>am_lp_name = ''modelnet_simplep2p'', has_unanno_lp = 1, is_unanno_first = 1,
     num_anno_lps = [], annotations = []\<rparr>"

lemma ex_sp_rel:
  "codes_mapping_get_lp_relative_id (me_conf ex_env) 5 0 0 = Inr 1"
  "codes_mapping_get_lp_relative_id (me_conf ex_env) 2 0 1 = Inr 0"
  "codes_mapping_get_annotation_by_lpid (me_conf ex_env) 2 = Inr None"
  by code_simp+

lemma ex_sp_init:
  "sp_init (me_conf ex_env) [ex_sp_param] ex_amap 10 \<lparr>gid = 2, draws = 0\<rparr> = Inr (sp_start_state 10 ex_sp_param 0)"
  by (simp add: sp_init_def ex_sp_rel rdi_def sp_start_state_def)

lemma sp_start_runs:
  assumes "codes_mapping_get_lp_relative_id (me_conf env) (pm_dest_mn_lp m) 0 0 = Inr dest"
    and "sp_link (sp_params ns) (sp_id ns) dest 0 = Inr (bw, latency)"
    and "0 \<le> dest" "nat dest < length (send_next_idle ns)"
    and "model_net_find_stats (pm_category m) (sp_stats_array ns) = Inr (i, arr)"
    and "sp_get_category_idles (pm_category m) (idle_times_cat ns) = Inr (k, idles)"
    and "nat (pm_event_size_bytes m) + nat (pm_local_event_size_bytes m) \<le> length data"
  shows "\<exists>ns' m' lp' out. sp_msg_start w env ns m data lp = Inr (ns', m', lp', out)"
proof -
  have "memcpy (Some data) (pm_event_size_bytes m) = Inr (take (nat (pm_event_size_bytes m)) data)"
    "memcpy (Some (drop (nat (pm_event_size_bytes m)) data)) (pm_local_event_size_bytes m) =
       Inr (take (nat (pm_local_event_size_bytes m)) (drop (nat (pm_event_size_bytes m)) data))"
    using assms(7) by (simp_all add: memcpy_def)
  note copy = this
  show ?thesis
    by (cases "pm_local_event_size_bytes m > 0"; cases "pm_event_size_bytes m = 0";
        use assms(1-6) copy in \<open>simp add: sp_msg_start_def rdi_def Let_def split_beta split del: if_split\<close>)
qed

lemma sp_start_keeps:
  assumes "sp_msg_start w env ns m data lp = Inr (ns', m', lp', out)"
  shows "sp_params ns' = sp_params ns" and "sp_id ns' = sp_id ns"
    and "length (send_next_idle ns') = length (send_next_idle ns)"
    and "\<exists>i. model_net_find_stats (pm_category m) (sp_stats_array ns') = Inr (i, sp_stats_array ns')"
    and "\<exists>k. sp_get_category_idles (pm_category m) (idle_times_cat ns') = Inr (k, idle_times_cat ns')"
proof -
  from sp_start_outcome [OF assms] obtain dest i arr k idles e where
    f: "model_net_find_stats (pm_category m) (sp_stats_array ns) = Inr (i, arr)"
    and c: "sp_get_category_idles (pm_category m) (idle_times_cat ns) = Inr (k, idles)"
    and ns': "ns' = ns\<lparr>send_next_idle := (send_next_idle ns)[nat dest := e],
         sp_stats_array := arr[i := sent (me_now env) e (pm_net_msg_size_bytes m)
           (w + pm_event_size_bytes m + pm_local_event_size_bytes m) (idles ! k) (arr ! i)],
         idle_times_cat := idles[k := sent_idles (me_now env) e (arr ! i) (idles ! k)]\<rparr>"
    unfolding Let_def by metis
  let ?st = "sent (me_now env) e (pm_net_msg_size_bytes m)
      (w + pm_event_size_bytes m + pm_local_event_size_bytes m) (idles ! k) (arr ! i)"
  let ?ci = "sent_idles (me_now env) e (arr ! i) (idles ! k)"
  have s: "sp_stats_array ns' = arr[i := ?st]" "idle_times_cat ns' = idles[k := ?ci]" by (simp_all add: ns')
  have n: "st_category ?st = pm_category m" "ci_category ?ci = pm_category m"
    using find_stats_entry(2,3) [OF f] category_idles_entry(2,3) [OF c] by simp_all
  show "\<exists>i. model_net_find_stats (pm_category m) (sp_stats_array ns') = Inr (i, sp_stats_array ns')"
    using find_stats_updated [OF f n(1)] s(1) by auto
  show "\<exists>k. sp_get_category_idles (pm_category m) (idle_times_cat ns') = Inr (k, idle_times_cat ns')"
    using category_idles_updated [OF c n(2)] s(2) by auto
qed (rule sp_start_outcome [OF assms], simp add: Let_def)+

lemma ex_sp_event:
  assumes "sp_params ns = ex_sp_param" "sp_id ns = 0" "length (send_next_idle ns) = 2"
    and "model_net_find_stats ''test'' (sp_stats_array ns) = Inr (i, arr)"
    and "sp_get_category_idles ''test'' (idle_times_cat ns) = Inr (k, idles)"
  shows "\<exists>ns' m' lp' out. sp_event 5 400 ex_env ex_glob ns ex_sp_msg [1, 2, 3] lp = Inr (ns', m', ex_glob, lp', out) \<and>
    sp_msg_start 400 ex_env ns ex_sp_msg [1, 2, 3] lp = Inr (ns', m', lp', out)"
proof -
  have "sp_link (sp_params ns) (sp_id ns) 1 0 = Inr (1000, 5)"
    by (simp add: assms sp_link_def sp_get_table_ent_def rdi_def ex_sp_param_def)
  from sp_start_runs [OF _ this, of ex_env ex_sp_msg i arr k idles "[1, 2, 3]" 400 lp]
  have "\<exists>ns' m' lp' out. sp_msg_start 400 ex_env ns ex_sp_msg [1, 2, 3] lp = Inr (ns', m', lp', out)"
    using assms by (simp add: ex_sp_msg_def ex_sp_rel)
  then show ?thesis by (auto simp: sp_event_def ex_sp_msg_def SP_MSG_START_def)
qed

lemma ex_sp_first:
  "model_net_find_stats ''test'' (sp_stats_array (sp_start_state t p r)) =
     Inr (0, stats_zero\<lparr>st_category := ''test''\<rparr> # replicate 14 stats_zero)"
  "\<exists>idles. sp_get_category_idles ''test'' (idle_times_cat (sp_start_state t p r)) = Inr (0, idles)"
proof -
  show "model_net_find_stats ''test'' (sp_stats_array (sp_start_state t p r)) =
     Inr (0, stats_zero\<lparr>st_category := ''test''\<rparr> # replicate 14 stats_zero)"
    using ex_sn_find by (simp add: sp_start_state_def CATEGORY_MAX_def)
  from category_idles_find [OF _ this]
  show "\<exists>idles. sp_get_category_idles ''test'' (idle_times_cat (sp_start_state t p r)) = Inr (0, idles)"
    by (simp add: sp_start_state_def idles_zero_def stats_zero_def)
qed

theorem simplep2p_events_reversible_witness:
  "\<exists>ns' m' g' lp' out i k esz.
     sp_event 5 400 ex_env ex_glob (sp_start_state 10 ex_sp_param 0) ex_sp_msg [1, 2, 3] \<lparr>gid = 2, draws = 0\<rparr>
       = Inr (ns', m', g', lp', out) \<and>
     sp_rev_event 5 ns' m' lp' =
       Inr (sp_touched (sp_start_state 10 ex_sp_param 0) i k ''test'' esz, \<lparr>gid = 2, draws = 0\<rparr>)"
proof -
  let ?s = "sp_start_state 10 ex_sp_param 0"
  have "sp_params ?s = ex_sp_param" "sp_id ?s = 0" "length (send_next_idle ?s) = 2"
    by (simp_all add: sp_start_state_def ex_sp_param_def)
  then obtain ns' m' lp' out where h: "sp_event 5 400 ex_env ex_glob ?s ex_sp_msg [1, 2, 3] \<lparr>gid = 2, draws = 0\<rparr>
       = Inr (ns', m', ex_glob, lp', out)" using ex_sp_event ex_sp_first by metis
  have "pm_category ex_sp_msg = ''test''" by (simp add: ex_sp_msg_def)
  with simplep2p_events_reversible [OF h] h show ?thesis by metis
qed

definition ex_sp_input :: sp_input where
  "ex_sp_input = (ex_env, ex_glob, ex_sp_msg, [1, 2, 3], \<lparr>gid = 2, draws = 0\<rparr>)"

lemma ex_sp_run:
  "\<exists>ns' ivs. sp_run ''test'' 5 400 [ex_sp_input, ex_sp_input] (sp_start_state 10 ex_sp_param 0) = Inr (ns', ivs) \<and>
     length ivs = 2"
proof -
  let ?s = "sp_start_state 10 ex_sp_param 0" and ?lp = "\<lparr>gid = 2, draws = 0\<rparr>"
  have s: "sp_params ?s = ex_sp_param" "sp_id ?s = 0" "length (send_next_idle ?s) = 2"
    by (simp_all add: sp_start_state_def ex_sp_param_def)
  then obtain ns1 m1 lp1 out1 where one: "sp_event 5 400 ex_env ex_glob ?s ex_sp_msg [1, 2, 3] ?lp
       = Inr (ns1, m1, ex_glob, lp1, out1)" "sp_msg_start 400 ex_env ?s ex_sp_msg [1, 2, 3] ?lp = Inr (ns1, m1, lp1, out1)"
    using ex_sp_event ex_sp_first by metis
  have "pm_category ex_sp_msg = ''test''" "pm_event_type ex_sp_msg = SP_MSG_START" by (simp_all add: ex_sp_msg_def)
  moreover obtain ns2 m2 lp2 out2 where "sp_event 5 400 ex_env ex_glob ns1 ex_sp_msg [1, 2, 3] ?lp
       = Inr (ns2, m2, ex_glob, lp2, out2)"
    using ex_sp_event sp_start_keeps [OF one(2)] s calculation(1) by metis
  ultimately show ?thesis using one(1) by (simp add: ex_sp_input_def)
qed

theorem simplep2p_send_time_is_union_witness:
  "\<exists>ns' ivs ps. sp_run ''test'' 5 400 [ex_sp_input, ex_sp_input] (sp_start_state 10 ex_sp_param 0) = Inr (ns', ivs) \<and>
     length ivs = 2 \<and> separated ps \<and> spans ps = spans ivs \<and>
     (\<forall>st \<in> set (close_periods (idle_times_cat ns') (sp_stats_array ns')).
       st_category st = ''test'' \<longrightarrow> send_time st = total_span ps)"
proof -
  obtain ns' ivs where r: "sp_run ''test'' 5 400 [ex_sp_input, ex_sp_input] (sp_start_state 10 ex_sp_param 0)
     = Inr (ns', ivs)" "length ivs = 2" using ex_sp_run by blast
  have "in_order 10 [ex_sp_input, ex_sp_input]"
    by (simp add: ex_sp_input_def ex_env_def ex_sp_msg_def)
  from simplep2p_send_time_is_union [OF ex_sp_init _ this r(1)] r show ?thesis by force
qed

text \<open>\<open>sp_init\<close> numbers a device among those with its annotation, the start handler numbers the
  receiver among all simplep2p devices. With annotations the two differ: here the second
  device with annotation \<open>fast\<close> has the number 1 for itself and 3 for a sender, while the tables
  of its network are made for two devices.\<close>

definition ex_anno_conf :: config_lpgroups where
  "ex_anno_conf = \<lparr>lpgroups = [\<lparr>lpg_name = ''G'', repetitions = 2,
       lptypes = [\<lparr>lpt_name = ''modelnet_simplep2p'', lpt_anno = None, lpt_count = 1\<rparr>,
                  \<lparr>lpt_name = ''modelnet_simplep2p'', lpt_anno = Some ''fast'', lpt_count = 1\<rparr>]\<rparr>],
     lpannos = [], group_names = [''G''], lp_names = [''modelnet_simplep2p''], anno_names = [''fast'']\<rparr>"

lemma annotated_ids_differ:
  "codes_mapping_get_lp_relative_id ex_anno_conf 3 0 1 = Inr 1"
  "codes_mapping_get_lp_relative_id ex_anno_conf 3 0 0 = Inr 3"
  "codes_mapping_get_lp_count ex_anno_conf None 0 ''modelnet_simplep2p'' (Some ''fast'') 0 = 2"
  by code_simp+

end
