(* ===== verification/LogGP.thy ===== *)
theory LogGP
  imports Model_Net_Base C_Text
begin

text \<open>
  The LogGP network model, src/networks/model-net/loggp.c: a device with a table of LogGP
  parameters by message size, its packet and receive functions, the two event handlers and
  their reverse handlers. The structures are those of codes/net/loggp.h. Unlike simplenet the
  model queues messages on the receiving side too (\<open>USE_RECV_QUEUE\<close>): a message goes through the
  receive scheduler of the base LP (theory \<open>Model_Net_Base\<close>) before it is handled here.

  \<open>env\<close>, \<open>g\<close> and \<open>glb\<close> are the environment and the globals of model-net; the bytes that follow a
  message in its event are the argument \<open>data\<close>. Files are read through a function \<open>fs\<close> from
  names to contents, \<open>None\<close> where \<open>fopen\<close> fails.
\<close>

subsection \<open>Parameters\<close>

record param_table_entry =
  pt_size :: u64
  pt_n :: int
  PRTT_10s :: real
  PRTT_n0s :: real
  PRTT_nPRTT_10ss :: real
  pt_L :: real
  o_s :: real
  o_r :: real
  pt_g :: real
  pt_G :: real
  lsqu_gG :: real

text \<open>\<open>struct loggp_param\<close>: the \<open>table_size\<close> entries in use of the 100 of the array.\<close>

type_synonym loggp_param = "param_table_entry list"

definition TABLE_MAX :: nat where "TABLE_MAX = 100"

fun loggp_find_params_loop :: "u64 \<Rightarrow> loggp_param \<Rightarrow> nat \<Rightarrow> nat" where
  "loggp_find_params_loop sz [] i = i"
| "loggp_find_params_loop sz (e # es) i = (if pt_size e > sz then i else loggp_find_params_loop sz es (Suc i))"

definition loggp_find_params :: "u64 \<Rightarrow> loggp_param \<Rightarrow> param_table_entry result" where
  "loggp_find_params sz params =
     (let i = loggp_find_params_loop sz params 0;
          i' = (if i \<ge> length params then int (length params) - 1 else int i)
      in if i' < 0 then Inl OutOfBounds else rd params (nat i'))"

subsection \<open>The parameter file\<close>

fun scan_doubles :: "nat \<Rightarrow> string \<Rightarrow> real list option" where
  "scan_doubles 0 s = Some []"
| "scan_doubles (Suc n) s =
     (case scan_double s of None \<Rightarrow> None
      | Some (v, r) \<Rightarrow> map_option (\<lambda>vs. v # vs) (scan_doubles n r))"

definition loggp_parse_line :: "string \<Rightarrow> param_table_entry option" where
  "loggp_parse_line s =
     (case scan_u64 s of None \<Rightarrow> None
      | Some (sz, r1) \<Rightarrow>
          (case scan_int_rest r1 of None \<Rightarrow> None
           | Some (n, r2) \<Rightarrow>
               (case scan_doubles 9 r2 of
                  Some [a, b, c, l, os, ore, g, gg, lsq] \<Rightarrow>
                    Some \<lparr>pt_size = sz, pt_n = n, PRTT_10s = a, PRTT_n0s = b, PRTT_nPRTT_10ss = c,
                          pt_L = l, o_s = os, o_r = ore, pt_g = g, pt_G = gg, lsqu_gG = lsq\<rparr>
                | _ \<Rightarrow> None)))"

text \<open>The loop of \<open>loggp_set_params\<close>. \<open>sscanf\<close> stores into the entry at \<open>table_size\<close>, so a line
  after the hundredth entry writes past the array.\<close>

fun set_params_loop :: "string list \<Rightarrow> loggp_param \<Rightarrow> loggp_param result" where
  "set_params_loop [] tbl = Inr tbl"
| "set_params_loop (l # ls) tbl =
     (if take 1 l = ''#'' then set_params_loop ls tbl
      else if length tbl \<ge> TABLE_MAX then Inl OutOfBounds
      else case loggp_parse_line l of None \<Rightarrow> Inl AssertFailed
           | Some e \<Rightarrow> set_params_loop ls (tbl @ [e]))"

definition loggp_set_params :: "(string \<Rightarrow> string option) \<Rightarrow> string \<Rightarrow> loggp_param result" where
  "loggp_set_params fs config_file =
     (case fs config_file of None \<Rightarrow> Inl AssertFailed
      | Some content \<Rightarrow> set_params_loop (fgets_lines content) [])"

definition loggp_read_config ::
    "config_handle \<Rightarrow> (string \<Rightarrow> string option) \<Rightarrow> string option \<Rightarrow> loggp_param result" where
  "loggp_read_config h fs anno =
     bind_res (configuration_get_value_relpath h ''PARAMS'' ''net_config_file'' anno MAX_NAME_LENGTH)
       (\<lambda>(rc, buf). if rc \<le> 0 then Inl TwError
          else bind_res (non_null buf) (\<lambda>config_file. loggp_set_params fs config_file))"

fun loggp_read_all ::
    "config_handle \<Rightarrow> (string \<Rightarrow> string option) \<Rightarrow> string option list \<Rightarrow> loggp_param list result" where
  "loggp_read_all h fs [] = Inr []"
| "loggp_read_all h fs (a # as) =
     bind_res (loggp_read_config h fs a) (\<lambda>p. bind_res (loggp_read_all h fs as) (\<lambda>ps. Inr (p # ps)))"

text \<open>\<open>loggp_configure\<close>: the annotations of the LP type, then the unannotated entry.\<close>

definition LOGGP :: int where "LOGGP = 10"

definition loggp_configure ::
    "config_lpgroups \<Rightarrow> config_handle \<Rightarrow> (string \<Rightarrow> string option) \<Rightarrow>
     (config_anno_map \<times> loggp_param list) result" where
  "loggp_configure c h fs =
     (case codes_mapping_get_lp_anno_map c (model_net_lp_config_names ! nat LOGGP) of
        None \<Rightarrow> Inl AssertFailed
      | Some amap \<Rightarrow>
          bind_res (loggp_read_all h fs
                      (map Some (annotations amap) @ (if has_unanno_lp amap > 0 then [None] else [])))
            (\<lambda>ps. Inr (amap, ps)))"

subsection \<open>The device\<close>

record loggp_state =
  lg_send_next_idle :: tw_stime
  lg_recv_next_idle :: tw_stime
  lg_anno :: "string option"
  lg_params :: loggp_param
  loggp_stats_array :: "mn_stats list"

definition LG_MSG_READY :: int where "LG_MSG_READY = 1"
definition LG_MSG_START :: int where "LG_MSG_START = 2"

record loggp_message =
  lm_magic :: int
  lm_event_type :: int
  lm_src_gid :: int
  lm_src_mn_lp :: int
  lm_final_dest_gid :: int
  lm_dest_mn_lp :: int
  lm_net_msg_size_bytes :: u64
  lm_event_size_bytes :: int
  lm_local_event_size_bytes :: int
  lm_category :: string
  lm_event_rc :: int
  lm_is_pull :: int
  lm_pull_size :: u64
  lm_prio :: int                    \<comment> \<open>\<open>sched_params.prio\<close>\<close>
  lm_send_next_idle_saved :: tw_stime
  lm_recv_next_idle_saved :: tw_stime
  xmit_time_saved :: tw_stime
  lm_recv_time_saved :: tw_stime

definition loggp_init ::
    "config_lpgroups \<Rightarrow> loggp_param list \<Rightarrow> config_anno_map \<Rightarrow> tw_stime \<Rightarrow> tw_lp \<Rightarrow> loggp_state result" where
  "loggp_init c all_params amap now lp =
     bind_res (codes_mapping_get_annotation_by_lpid c (gid lp)) (\<lambda>anno.
     let idx = (case anno of None \<Rightarrow> int (length all_params) - 1
                | Some a \<Rightarrow> configuration_get_annotation_index (Some a) amap) in
     if idx < 0 then Inl OutOfBounds
     else bind_res (rd all_params (nat idx)) (\<lambda>p.
       Inr \<lparr>lg_send_next_idle = now, lg_recv_next_idle = now, lg_anno = anno, lg_params = p,
            loggp_stats_array = replicate CATEGORY_MAX stats_zero\<rparr>))"

text \<open>The entry points that the schedulers of the base LP call: the time drawn, the sender, the
  message and its payload. \<open>msg0\<close> is what the event buffer held.\<close>

definition loggp_packet_event ::
    "int \<Rightarrow> loggp_message \<Rightarrow> mn_call \<Rightarrow> tw_lp \<Rightarrow> (int \<times> tw_lp \<times> loggp_message \<times> bytes) result" where
  "loggp_packet_event loggp_magic msg0 call sender =
     (let (xfer, sender') = codes_local_latency sender; req = pk_req call; is_last = pk_last call;
          has_remote = (is_last \<and> remote_event_size req \<noteq> 0);
          has_self = (is_last \<and> self_event_size req \<noteq> 0);
          msg = msg0\<lparr>lm_category := category req, lm_final_dest_gid := final_dest_lp req,
                     lm_dest_mn_lp := dest_mn_lp req, lm_src_gid := src_lp req,
                     lm_src_mn_lp := gid sender, lm_magic := loggp_magic,
                     lm_net_msg_size_bytes := pk_size call,
                     lm_event_size_bytes := (if has_remote then remote_event_size req else 0),
                     lm_local_event_size_bytes := (if has_self then self_event_size req else 0),
                     lm_event_type := LG_MSG_START, lm_is_pull := is_pull req,
                     lm_pull_size := pull_size req, lm_prio := pk_prio call\<rparr> in
      bind_res (if has_remote then memcpy (pk_remote call) (remote_event_size req) else Inr []) (\<lambda>re.
      bind_res (if has_self then memcpy (pk_local call) (self_event_size req) else Inr []) (\<lambda>le.
        Inr (xfer, sender', msg, re @ le))))"

definition loggp_packet_event_rc :: "tw_lp \<Rightarrow> tw_lp" where
  "loggp_packet_event_rc sender = codes_local_latency_reverse sender"

definition loggp_recv_msg_event ::
    "int \<Rightarrow> loggp_message \<Rightarrow> mn_call \<Rightarrow> tw_lp \<Rightarrow> (int \<times> tw_lp \<times> loggp_message \<times> bytes) result" where
  "loggp_recv_msg_event loggp_magic msg0 call sender =
     (let (d, sender') = codes_local_latency sender; req = rv_req call;
          msg = msg0\<lparr>lm_magic := loggp_magic, lm_event_type := LG_MSG_READY, lm_src_gid := src_lp req,
                     lm_src_mn_lp := dest_mn_lp req, lm_final_dest_gid := final_dest_lp req,
                     lm_net_msg_size_bytes := rv_size call,
                     lm_event_size_bytes := remote_event_size req, lm_local_event_size_bytes := 0,
                     lm_category := strncpy_category (category req), lm_is_pull := is_pull req,
                     lm_pull_size := pull_size req, lm_prio := -1\<rparr> in
      bind_res (if remote_event_size req > 0 then memcpy (rv_remote call) (remote_event_size req)
                else Inr []) (\<lambda>re. Inr (d, sender', msg, re)))"

definition loggp_recv_msg_event_rc :: "tw_lp \<Rightarrow> tw_lp" where
  "loggp_recv_msg_event_rc sender = codes_local_latency_reverse sender"

text \<open>The entry of \<open>method_array\<close>. The schedulers pass an offset of 0 to both functions.\<close>

definition loggp_method :: "(int \<Rightarrow> tw_stime) \<Rightarrow> (tw_lp, tw_stime) model_net_method" where
  "loggp_method lat =
     \<lparr>mn_packet_event = (\<lambda>c lp. let (d, lp') = codes_local_latency lp in (lat d, lp')),
      mn_packet_event_rc = loggp_packet_event_rc,
      mn_recv_msg_event = Some (\<lambda>c lp. let (d, lp') = codes_local_latency lp in (lat d, lp')),
      mn_recv_msg_event_rc = Some loggp_recv_msg_event_rc\<rparr>"

subsection \<open>Handlers\<close>

text \<open>The time to push a message through: the gap per byte of all bytes but the first, in
  nanoseconds. The subtraction is one of \<open>uint64_t\<close>.\<close>

definition byte_time :: "u64 \<Rightarrow> param_table_entry \<Rightarrow> tw_stime" where
  "byte_time sz param = real (unat (sz - 1)) * pt_G param * 1000"

definition lg_stat_sent :: "real \<Rightarrow> u64 \<Rightarrow> int \<Rightarrow> mn_stats \<Rightarrow> mn_stats" where
  "lg_stat_sent t sz total_event_size s =
     s\<lparr>send_count := send_count s + 1, send_bytes := send_bytes s + int (unat sz),
       send_time := send_time s + t,
       max_event_size := (if max_event_size s < total_event_size then total_event_size
                          else max_event_size s)\<rparr>"

definition loggp_msg_start ::
    "mn_env \<Rightarrow> lp_globals \<Rightarrow> mn_globals \<Rightarrow> loggp_state \<Rightarrow> loggp_message \<Rightarrow> bytes \<Rightarrow> tw_lp \<Rightarrow>
     (loggp_state \<times> loggp_message \<times> tw_lp \<times> mn_event list) result" where
  "loggp_msg_start env glb g ns m data lp =
     bind_res (loggp_find_params (lm_net_msg_size_bytes m) (lg_params ns)) (\<lambda>param.
     bind_res (model_net_find_stats (lm_category m) (loggp_stats_array ns)) (\<lambda>(i, arr).
     let total_event_size = wrap_msg_size g + lm_event_size_bytes m + lm_local_event_size_bytes m;
         xmit = byte_time (lm_net_msg_size_bytes m) param; now = me_now env;
         idle = lg_send_next_idle ns;
         arr' = arr[i := lg_stat_sent xmit (lm_net_msg_size_bytes m) total_event_size (arr ! i)];
         send_queue_time = pt_L param * 1000 + (if idle > now then idle - now else 0);
         idle' = (if idle < now then now else idle) + (xmit + pt_g param * 1000);
         ns' = ns\<lparr>loggp_stats_array := arr', lg_send_next_idle := idle'\<rparr>;
         m1 = m\<lparr>xmit_time_saved := xmit, lm_send_next_idle_saved := idle\<rparr> in
     bind_res (model_net_method_send_msg_recv_event env g (lm_final_dest_gid m) (lm_dest_mn_lp m)
         (lm_src_gid m) (lm_net_msg_size_bytes m) (lm_is_pull m) (lm_pull_size m) (lm_event_size_bytes m)
         (Some (lm_prio m)) (lm_category m) LOGGP data send_queue_time lp) (\<lambda>(lp1, recv_ev).
     let (d1, lp2) = codes_local_latency lp1;
         idle_ev = model_net_method_idle_event env g glb (me_lat env d1 + idle' - now) 0 lp2 in
     if lm_local_event_size_bytes m > 0
     then let (d2, lp3) = codes_local_latency lp2 in
          bind_res (memcpy (Some (drop (nat (lm_event_size_bytes m)) data)) (lm_local_event_size_bytes m))
            (\<lambda>le. Inr (ns', m1, lp3,
               [recv_ev, idle_ev,
                \<lparr>ev_to = lm_src_gid m, ev_delay = send_queue_time + me_lat env d2, ev_body = UserMsg le\<rparr>]))
     else Inr (ns', m1, lp2, [recv_ev, idle_ev]))))"

definition loggp_msg_start_rev ::
    "loggp_state \<Rightarrow> loggp_message \<Rightarrow> tw_lp \<Rightarrow> (loggp_state \<times> tw_lp) result" where
  "loggp_msg_start_rev ns m lp =
     (let lp1 = codes_local_latency_reverse (model_net_method_send_msg_recv_event_rc lp);
          lp2 = (if lm_local_event_size_bytes m > 0 then codes_local_latency_reverse lp1 else lp1) in
      bind_res (model_net_find_stats (lm_category m) (loggp_stats_array ns)) (\<lambda>(i, arr).
        let stat = arr ! i;
            stat' = stat\<lparr>send_count := send_count stat - 1,
                         send_bytes := send_bytes stat - int (unat (lm_net_msg_size_bytes m)),
                         send_time := send_time stat - xmit_time_saved m\<rparr>
        in Inr (ns\<lparr>lg_send_next_idle := lm_send_next_idle_saved m, loggp_stats_array := arr[i := stat']\<rparr>,
                lp2)))"

definition loggp_msg_ready ::
    "mn_env \<Rightarrow> lp_globals \<Rightarrow> mn_globals \<Rightarrow> loggp_state \<Rightarrow> loggp_message \<Rightarrow> bytes \<Rightarrow> tw_lp \<Rightarrow>
     (loggp_state \<times> loggp_message \<times> mn_globals \<times> tw_lp \<times> mn_event list) result" where
  "loggp_msg_ready env glb g ns m data lp =
     bind_res (loggp_find_params (lm_net_msg_size_bytes m) (lg_params ns)) (\<lambda>param.
     bind_res (model_net_find_stats (lm_category m) (loggp_stats_array ns)) (\<lambda>(i, arr).
     let recv = byte_time (lm_net_msg_size_bytes m) param; now = me_now env;
         idle = lg_recv_next_idle ns; stat = arr ! i;
         arr' = arr[i := stat\<lparr>recv_count := recv_count stat + 1,
                             recv_bytes := recv_bytes stat + int (unat (lm_net_msg_size_bytes m)),
                             recv_time := recv_time stat + recv\<rparr>];
         recv_queue_time = (if idle > now then idle - now else 0) + recv;
         idle' = recv_queue_time + now + pt_g param * 1000;
         m1 = m\<lparr>lm_recv_time_saved := recv, lm_recv_next_idle_saved := idle\<rparr>;
         ns' = ns\<lparr>loggp_stats_array := arr', lg_recv_next_idle := idle'\<rparr>;
         (d, lp1) = codes_local_latency lp;
         idle_ev = model_net_method_idle_event env g glb (me_lat env d + idle' - now) 1 lp1 in
     if lm_event_size_bytes m \<noteq> 0
     then if lm_is_pull m \<noteq> 0
          then bind_res (model_net_event_mctx env LOGGP
                   (codes_mctx_set_global_direct (gid lp1)) (codes_mctx_set_global_direct (lm_src_mn_lp m))
                   (lm_category m) (lm_src_gid m) (lm_pull_size m) recv_queue_time
                   (lm_event_size_bytes m) (Some data) 0 None g lp1) (\<lambda>(ret, g', lp', outs).
                 Inr (ns', m1\<lparr>lm_event_rc := ret\<rparr>, g', lp', idle_ev # outs))
          else bind_res (memcpy (Some data) (lm_event_size_bytes m)) (\<lambda>re.
                 Inr (ns', m1, g, lp1, [idle_ev,
                   \<lparr>ev_to = lm_final_dest_gid m, ev_delay = recv_queue_time, ev_body = UserMsg re\<rparr>]))
     else Inr (ns', m1, g, lp1, [idle_ev])))"

definition loggp_msg_ready_rev ::
    "loggp_state \<Rightarrow> loggp_message \<Rightarrow> tw_lp \<Rightarrow> (loggp_state \<times> tw_lp) result" where
  "loggp_msg_ready_rev ns m lp =
     bind_res (model_net_find_stats (lm_category m) (loggp_stats_array ns)) (\<lambda>(i, arr).
       let stat = arr ! i;
           stat' = stat\<lparr>recv_count := recv_count stat - 1,
                        recv_bytes := recv_bytes stat - int (unat (lm_net_msg_size_bytes m)),
                        recv_time := recv_time stat - lm_recv_time_saved m\<rparr>;
           ns' = ns\<lparr>lg_recv_next_idle := lm_recv_next_idle_saved m, loggp_stats_array := arr[i := stat']\<rparr>;
           lp1 = codes_local_latency_reverse lp
       in Inr (ns', if lm_event_size_bytes m \<noteq> 0 \<and> lm_is_pull m \<noteq> 0
                    then model_net_event_rc2 lp1 (lm_event_rc m) else lp1))"

definition loggp_event ::
    "int \<Rightarrow> mn_env \<Rightarrow> lp_globals \<Rightarrow> mn_globals \<Rightarrow> loggp_state \<Rightarrow> loggp_message \<Rightarrow> bytes \<Rightarrow> tw_lp \<Rightarrow>
     (loggp_state \<times> loggp_message \<times> mn_globals \<times> tw_lp \<times> mn_event list) result" where
  "loggp_event loggp_magic env glb g ns m data lp =
     bind_res (c_assert (lm_magic m = loggp_magic)) (\<lambda>_.
       if lm_event_type m = LG_MSG_START
       then bind_res (loggp_msg_start env glb g ns m data lp)
              (\<lambda>(ns', m', lp', out). Inr (ns', m', g, lp', out))
       else if lm_event_type m = LG_MSG_READY then loggp_msg_ready env glb g ns m data lp
       else Inl AssertFailed)"

definition loggp_rev_event ::
    "int \<Rightarrow> loggp_state \<Rightarrow> loggp_message \<Rightarrow> tw_lp \<Rightarrow> (loggp_state \<times> tw_lp) result" where
  "loggp_rev_event loggp_magic ns m lp =
     bind_res (c_assert (lm_magic m = loggp_magic)) (\<lambda>_.
       if lm_event_type m = LG_MSG_START then loggp_msg_start_rev ns m lp
       else if lm_event_type m = LG_MSG_READY then loggp_msg_ready_rev ns m lp
       else Inl AssertFailed)"

definition loggp_finalize :: "loggp_state \<Rightarrow> mn_stats list" where
  "loggp_finalize ns = model_net_print_stats (loggp_stats_array ns)"

lemma loggp_packet_event_method:
  "loggp_packet_event magic msg0 call sender = Inr (d, sender', msg, b) \<Longrightarrow>
     mn_packet_event (loggp_method lat) call sender = (lat d, sender')"
  by (auto simp: loggp_packet_event_def loggp_method_def Let_def result_iff split: prod.splits)

lemma loggp_recv_msg_event_method:
  "loggp_recv_msg_event magic msg0 call sender = Inr (d, sender', msg, b) \<Longrightarrow>
     map_option (\<lambda>f. f call sender) (mn_recv_msg_event (loggp_method lat)) = Some (lat d, sender')"
  by (auto simp: loggp_recv_msg_event_def loggp_method_def Let_def result_iff split: prod.splits)

subsection \<open>Reversal\<close>

definition lg_stats_touched :: "loggp_state \<Rightarrow> nat \<Rightarrow> string \<Rightarrow> int \<Rightarrow> loggp_state" where
  "lg_stats_touched ns i cat esz =
     ns\<lparr>loggp_stats_array := (loggp_stats_array ns)[i :=
          (loggp_stats_array ns ! i)\<lparr>st_category := cat,
             max_event_size := max (max_event_size (loggp_stats_array ns ! i)) esz\<rparr>]\<rparr>"

lemma send_msg_recv_event_lp:
  "model_net_method_send_msg_recv_event env g fd dm src sz pl psz rsz pr cat nid dat off lp = Inr (lp', ev)
     \<Longrightarrow> lp' = snd (codes_local_latency lp) \<and> ev_to ev = dm \<and> ev_delay ev = off + me_lat env (draws lp)"
  by (auto simp: model_net_method_send_msg_recv_event_def Let_def result_iff codes_local_latency_def)

lemma loggp_start_outcome:
  assumes "loggp_msg_start env glb g ns m data lp = Inr (ns', m', lp', out)"
  obtains i arr param where
    "model_net_find_stats (lm_category m) (loggp_stats_array ns) = Inr (i, arr)"
    "loggp_find_params (lm_net_msg_size_bytes m) (lg_params ns) = Inr param"
    "ns' = ns\<lparr>loggp_stats_array := arr[i := lg_stat_sent (byte_time (lm_net_msg_size_bytes m) param)
          (lm_net_msg_size_bytes m)
          (wrap_msg_size g + lm_event_size_bytes m + lm_local_event_size_bytes m) (arr ! i)],
        lg_send_next_idle := max (me_now env) (lg_send_next_idle ns) +
          (byte_time (lm_net_msg_size_bytes m) param + pt_g param * 1000)\<rparr>"
    "m' = m\<lparr>xmit_time_saved := byte_time (lm_net_msg_size_bytes m) param,
        lm_send_next_idle_saved := lg_send_next_idle ns\<rparr>"
    "lp' = ((\<lambda>l. snd (codes_local_latency l)) ^^ (if lm_local_event_size_bytes m > 0 then 3 else 2)) lp"
    "ev_to (hd out) = lm_dest_mn_lp m"
    "ev_delay (hd out) = pt_L param * 1000 + (max (me_now env) (lg_send_next_idle ns) - me_now env) +
        me_lat env (draws lp)"
proof -
  obtain param i arr where fp: "loggp_find_params (lm_net_msg_size_bytes m) (lg_params ns) = Inr param"
    and fs: "model_net_find_stats (lm_category m) (loggp_stats_array ns) = Inr (i, arr)"
    using assms by (auto simp: loggp_msg_start_def result_iff)
  show thesis
    by (rule that [OF fs fp]) (use assms in \<open>auto simp: loggp_msg_start_def fp fs result_iff Let_def max_def
        split_beta eval_nat_numeral dest!: send_msg_recv_event_lp split: if_splits\<close>)
qed

lemma loggp_start_reverse:
  assumes h: "loggp_msg_start env glb g ns m data lp = Inr (ns', m', lp', out)"
  shows "\<exists>i esz. loggp_msg_start_rev ns' m' lp' = Inr (lg_stats_touched ns i (lm_category m) esz, lp)"
proof -
  from loggp_start_outcome [OF h] obtain i arr param where
    f: "model_net_find_stats (lm_category m) (loggp_stats_array ns) = Inr (i, arr)"
    and ns': "ns' = ns\<lparr>loggp_stats_array := arr[i := lg_stat_sent (byte_time (lm_net_msg_size_bytes m) param)
          (lm_net_msg_size_bytes m)
          (wrap_msg_size g + lm_event_size_bytes m + lm_local_event_size_bytes m) (arr ! i)],
        lg_send_next_idle := max (me_now env) (lg_send_next_idle ns) +
          (byte_time (lm_net_msg_size_bytes m) param + pt_g param * 1000)\<rparr>"
    and m': "m' = m\<lparr>xmit_time_saved := byte_time (lm_net_msg_size_bytes m) param,
        lm_send_next_idle_saved := lg_send_next_idle ns\<rparr>"
    and lp': "lp' = ((\<lambda>l. snd (codes_local_latency l)) ^^ (if lm_local_event_size_bytes m > 0 then 3 else 2)) lp"
    by metis
  let ?s = "\<lambda>a. lg_stat_sent (byte_time (lm_net_msg_size_bytes m) param) (lm_net_msg_size_bytes m)
      (wrap_msg_size g + lm_event_size_bytes m + lm_local_event_size_bytes m) a"
  note e = find_stats_entry [OF f]
  have stat: "arr ! i = (loggp_stats_array ns ! i)\<lparr>st_category := lm_category m\<rparr>" using e(2,3) by simp
  have "st_category (?s (arr ! i)) = lm_category m" using stat by (simp add: lg_stat_sent_def)
  note g = find_stats_updated [OF f this]
  have "loggp_msg_start_rev ns' m' lp' = Inr (lg_stats_touched ns i (lm_category m)
      (wrap_msg_size g + lm_event_size_bytes m + lm_local_event_size_bytes m), lp)"
    using g e by (simp add: loggp_msg_start_rev_def ns' m' lp' lg_stats_touched_def Let_def
        lg_stat_sent_def stat max_def model_net_method_send_msg_recv_event_rc_def eval_nat_numeral)
  then show ?thesis by blast
qed

lemma loggp_ready_outcome:
  assumes h: "loggp_msg_ready env glb g ns m data lp = Inr (ns', m', g', lp', out)"
  obtains i arr param r where
    "model_net_find_stats (lm_category m) (loggp_stats_array ns) = Inr (i, arr)"
    "loggp_find_params (lm_net_msg_size_bytes m) (lg_params ns) = Inr param"
    "ns' = ns\<lparr>loggp_stats_array := arr[i := (arr ! i)\<lparr>recv_count := recv_count (arr ! i) + 1,
        recv_bytes := recv_bytes (arr ! i) + int (unat (lm_net_msg_size_bytes m)),
        recv_time := recv_time (arr ! i) + byte_time (lm_net_msg_size_bytes m) param\<rparr>],
      lg_recv_next_idle := max (me_now env) (lg_recv_next_idle ns) +
        byte_time (lm_net_msg_size_bytes m) param + pt_g param * 1000\<rparr>"
    "m' = m\<lparr>lm_recv_time_saved := byte_time (lm_net_msg_size_bytes m) param,
        lm_recv_next_idle_saved := lg_recv_next_idle ns, lm_event_rc := r\<rparr>"
    "if lm_event_size_bytes m \<noteq> 0 \<and> lm_is_pull m \<noteq> 0
     then r = 1 \<and> lp' = snd (codes_local_latency (snd (codes_local_latency lp)))
     else lp' = snd (codes_local_latency lp)"
proof -
  obtain param i arr where fp: "loggp_find_params (lm_net_msg_size_bytes m) (lg_params ns) = Inr param"
    and fs: "model_net_find_stats (lm_category m) (loggp_stats_array ns) = Inr (i, arr)"
    using assms by (auto simp: loggp_msg_ready_def result_iff)
  show thesis
  proof (cases "lm_event_size_bytes m \<noteq> 0 \<and> lm_is_pull m \<noteq> 0")
    case True
    show thesis
      by (rule that [OF fs fp, where r = 1])
        (use True h in \<open>auto simp: loggp_msg_ready_def fp fs result_iff Let_def model_net_event_mctx_def
          max_def split_beta dest!: event_impl_base_lp\<close>)
  next
    case False
    show thesis
      by (rule that [OF fs fp, where r = "lm_event_rc m"])
        (use False h in \<open>auto simp: loggp_msg_ready_def fp fs result_iff Let_def max_def split_beta
          split: if_splits\<close>)
  qed
qed

lemma loggp_ready_reverse:
  assumes h: "loggp_msg_ready env glb g ns m data lp = Inr (ns', m', g', lp', out)"
  shows "\<exists>i esz. loggp_msg_ready_rev ns' m' lp' = Inr (lg_stats_touched ns i (lm_category m) esz, lp)"
proof -
  from loggp_ready_outcome [OF h] obtain i arr param r idle where
    f: "model_net_find_stats (lm_category m) (loggp_stats_array ns) = Inr (i, arr)"
    and ns': "ns' = ns\<lparr>loggp_stats_array := arr[i := (arr ! i)\<lparr>recv_count := recv_count (arr ! i) + 1,
        recv_bytes := recv_bytes (arr ! i) + int (unat (lm_net_msg_size_bytes m)),
        recv_time := recv_time (arr ! i) + byte_time (lm_net_msg_size_bytes m) param\<rparr>],
      lg_recv_next_idle := idle\<rparr>"
    and m': "m' = m\<lparr>lm_recv_time_saved := byte_time (lm_net_msg_size_bytes m) param,
        lm_recv_next_idle_saved := lg_recv_next_idle ns, lm_event_rc := r\<rparr>"
    and lp': "if lm_event_size_bytes m \<noteq> 0 \<and> lm_is_pull m \<noteq> 0
     then r = 1 \<and> lp' = snd (codes_local_latency (snd (codes_local_latency lp)))
     else lp' = snd (codes_local_latency lp)"
    by metis
  let ?s = "\<lambda>a. a\<lparr>recv_count := recv_count a + 1,
      recv_bytes := recv_bytes a + int (unat (lm_net_msg_size_bytes m)),
      recv_time := recv_time a + byte_time (lm_net_msg_size_bytes m) param\<rparr>"
  note e = find_stats_entry [OF f]
  have stat: "arr ! i = (loggp_stats_array ns ! i)\<lparr>st_category := lm_category m\<rparr>" using e(2,3) by simp
  have "st_category (?s (arr ! i)) = lm_category m" using stat by simp
  note g = find_stats_updated [OF f this]
  have "(if lm_event_size_bytes m \<noteq> 0 \<and> lm_is_pull m \<noteq> 0
         then model_net_event_rc2 (codes_local_latency_reverse lp') r
         else codes_local_latency_reverse lp') = lp"
    using lp' by (simp add: model_net_event_rc2_def split: if_splits)
  then have "loggp_msg_ready_rev ns' m' lp' = Inr (lg_stats_touched ns i (lm_category m)
      (max_event_size (loggp_stats_array ns ! i)), lp)"
    using g e by (simp add: loggp_msg_ready_rev_def ns' m' lg_stats_touched_def Let_def stat
        cong: if_cong split del: if_split)
  then show ?thesis by blast
qed

lemma loggp_start_same [simp]:
  "loggp_msg_start env glb g ns m data lp = Inr (ns', m', lp', out) \<Longrightarrow>
     lm_magic m' = lm_magic m \<and> lm_event_type m' = lm_event_type m"
  by (erule loggp_start_outcome) simp

lemma loggp_ready_same [simp]:
  "loggp_msg_ready env glb g ns m data lp = Inr (ns', m', g', lp', out) \<Longrightarrow>
     lm_magic m' = lm_magic m \<and> lm_event_type m' = lm_event_type m"
  by (erule loggp_ready_outcome) simp

lemma loggp_events_undo:
  assumes "loggp_event magic env glb g ns m data lp = Inr (ns', m', g', lp', out)"
  shows "\<exists>i esz. loggp_rev_event magic ns' m' lp' = Inr (lg_stats_touched ns i (lm_category m) esz, lp)"
  using assms loggp_start_same loggp_ready_same
  by (auto simp: loggp_event_def loggp_rev_event_def result_iff LG_MSG_START_def LG_MSG_READY_def
      split: if_splits dest: loggp_start_reverse loggp_ready_reverse)

subsection \<open>LogGP below the base LP\<close>

interpretation lg: reversible_method "loggp_method lat" for lat
  by unfold_locales (auto simp: loggp_method_def loggp_packet_event_rc_def loggp_recv_msg_event_rc_def
      codes_local_latency_def codes_local_latency_reverse_def)

interpretation lg_draw: draw_method "loggp_method lat" for lat
  by unfold_locales (auto simp: loggp_method_def loggp_packet_event_rc_def loggp_recv_msg_event_rc_def
      codes_local_latency_def codes_local_latency_reverse_def)

definition loggp_hooks ::
    "int \<Rightarrow> lp_globals \<Rightarrow> mn_env \<Rightarrow> (loggp_state, loggp_message \<times> bytes, unit, mn_event) mn_hooks" where
  "loggp_hooks loggp_magic glb env =
     \<lparr>hk_event = (\<lambda>s b m g lp. bind_res (loggp_event loggp_magic env glb g s (fst m) (snd m) lp)
        (\<lambda>(s', m', g', lp', outs). Inr (s', b, (m', snd m), g', lp', outs))),
      hk_revent = (\<lambda>s b m lp. loggp_rev_event loggp_magic s (fst m) lp),
      hk_commit = None, hk_sample = None, hk_sample_rc = None, hk_end_notif = None,
      hk_end_notif_rc = None, hk_congestion = None, hk_congestion_rc = None, hk_congestion_commit = None\<rparr>"

definition lg_same_but_stats :: "loggp_state \<Rightarrow> loggp_state \<Rightarrow> bool" where
  "lg_same_but_stats s t \<longleftrightarrow> t = s \<or> (\<exists>i cat esz. t = lg_stats_touched s i cat esz)"

interpretation lgnet: reversible_network "loggp_method (me_lat env)"
    "loggp_hooks loggp_magic glb env" lg_same_but_stats for env loggp_magic glb
proof
  show "undoes lg_same_but_stats (hk_event (loggp_hooks loggp_magic glb env))
      (hk_revent (loggp_hooks loggp_magic glb env))"
    by (auto simp: undoes_def loggp_hooks_def result_iff lg_same_but_stats_def dest!: loggp_events_undo)
qed (simp_all add: loggp_hooks_def lg_same_but_stats_def)

subsection \<open>The choice of parameters\<close>

lemma find_params_loop_takeWhile:
  "loggp_find_params_loop sz es i = i + length (takeWhile (\<lambda>e. pt_size e \<le> sz) es)"
  by (induction es arbitrary: i) (auto simp: not_le)

definition larger_entries :: "u64 \<Rightarrow> loggp_param \<Rightarrow> loggp_param" where
  "larger_entries sz params = filter (\<lambda>e. pt_size e > sz) params"

lemma find_params_dropWhile:
  assumes "params \<noteq> []"
  shows "loggp_find_params sz params =
    Inr (case dropWhile (\<lambda>e. pt_size e \<le> sz) params of [] \<Rightarrow> last params | e # es \<Rightarrow> e)"
proof -
  let ?P = "\<lambda>e. pt_size e \<le> sz"
  let ?t = "takeWhile ?P params" and ?d = "dropWhile ?P params"
  have split: "params = ?t @ ?d" by simp
  show ?thesis
  proof (cases ?d)
    case Nil
    then have "length ?t = length params" using split by (metis append_Nil2)
    with assms Nil show ?thesis
      by (simp only: loggp_find_params_def find_params_loop_takeWhile Let_def)
        (simp add: last_conv_nth nat_diff_distrib')
  next
    case (Cons e es)
    then have l: "length ?t < length params" using split by (metis length_append length_greater_0_conv
          less_add_same_cancel1 list.distinct(1))
    then have "params ! length ?t = e" using Cons split by (metis nth_append_length)
    with l Cons show ?thesis by (simp add: loggp_find_params_def find_params_loop_takeWhile not_le)
  qed
qed

lemma dropWhile_sorted_filter:
  assumes "sorted_wrt (<) (map pt_size params)"
  shows "dropWhile (\<lambda>e. pt_size e \<le> sz) params = larger_entries sz params"
  using assms
proof (induction params)
  case (Cons e es)
  show ?case
  proof (cases "pt_size e \<le> sz")
    case False
    have "\<forall>x \<in> set es. pt_size x > sz" using Cons.prems False by auto
    then have "filter (\<lambda>x. pt_size x > sz) es = es" by simp
    then show ?thesis using False by (simp add: larger_entries_def not_le)
  qed (use Cons in \<open>auto simp: larger_entries_def\<close>)
qed (simp add: larger_entries_def)

subsection \<open>Properties\<close>

text \<open>the LogGP parameters of a message. In a table sorted by size the entry is the one of
  the smallest size above the size of the message, and the last one for a message that is at
  least as large as every entry; a lookup fails only in an empty table.\<close>
theorem loggp_parameter_choice:
  assumes "params \<noteq> []" and "sorted_wrt (<) (map pt_size params)"
  shows "\<exists>e \<in> set params. loggp_find_params sz params = Inr e \<and>
    (if \<exists>x \<in> set params. sz < pt_size x
     then sz < pt_size e \<and> (\<forall>x \<in> set params. sz < pt_size x \<longrightarrow> pt_size e \<le> pt_size x)
     else \<forall>x \<in> set params. pt_size x \<le> pt_size e)"
proof (cases "larger_entries sz params")
  case Nil
  obtain ps p where ps: "params = ps @ [p]" using assms(1) by (metis rev_exhaust)
  then have "\<forall>x \<in> set params. pt_size x \<le> pt_size (last params)"
    using assms(2) by (auto simp: sorted_wrt_append order.strict_implies_order)
  moreover have "\<not> (\<exists>x \<in> set params. sz < pt_size x)"
    using Nil by (auto simp: larger_entries_def filter_empty_conv)
  ultimately show ?thesis
    using find_params_dropWhile [OF assms(1)] dropWhile_sorted_filter [OF assms(2)] Nil assms(1) by auto
next
  case (Cons e es)
  have e: "e \<in> set params" "sz < pt_size e"
    using Cons by (auto simp: larger_entries_def filter_eq_Cons_iff)
  have "sorted_wrt (<) (map pt_size (e # es))"
    using sorted_wrt_filter [of "\<lambda>a b. pt_size a < pt_size b" params "\<lambda>e. sz < pt_size e"] assms(2) Cons
    by (simp add: larger_entries_def sorted_wrt_map)
  moreover have "set (e # es) = {x \<in> set params. sz < pt_size x}"
    unfolding Cons [symmetric] by (auto simp: larger_entries_def)
  ultimately have "\<forall>x \<in> set params. sz < pt_size x \<longrightarrow> pt_size e \<le> pt_size x" by force
  then show ?thesis
    using find_params_dropWhile [OF assms(1)] dropWhile_sorted_filter [OF assms(2)] Cons e by auto
qed

definition ex_entry :: "u64 \<Rightarrow> real \<Rightarrow> param_table_entry" where
  "ex_entry sz gg = \<lparr>pt_size = sz, pt_n = 16, PRTT_10s = 0, PRTT_n0s = 0, PRTT_nPRTT_10ss = 0, pt_L = 2,
     o_s = 0, o_r = 0, pt_g = 3, pt_G = gg, lsqu_gG = 0\<rparr>"

theorem loggp_parameter_choice_witness:
  "\<exists>e \<in> {ex_entry 1 (1/2), ex_entry 1024 (1/4)}. loggp_find_params 5 [ex_entry 1 (1/2), ex_entry 1024 (1/4)] = Inr e \<and>
     pt_size e > 5"
  using loggp_parameter_choice [of "[ex_entry 1 (1/2), ex_entry 1024 (1/4)]" 5] by (simp add: ex_entry_def)

text \<open>the reverse handlers of LogGP undo a message event of either kind: idle times,
  counters and times of the statistics and every random draw (two or three of a sender, one
  or two of a receiver). Only the name of a category that was new, and the largest event size,
  stay in the entry that the event used.\<close>
theorem loggp_events_reversible:
  assumes "loggp_event magic env glb g ns m data lp = Inr (ns', m', g', lp', out)"
  shows "\<exists>i esz. loggp_rev_event magic ns' m' lp' = Inr (lg_stats_touched ns i (lm_category m) esz, lp)"
  using assms by (rule loggp_events_undo)

definition ex_lg_state :: loggp_state where
  "ex_lg_state = \<lparr>lg_send_next_idle = 150, lg_recv_next_idle = 0, lg_anno = None,
     lg_params = [ex_entry 1 (1/2), ex_entry 1024 (1/4)], loggp_stats_array = replicate 15 stats_zero\<rparr>"

definition ex_lg_msg :: loggp_message where
  "ex_lg_msg = \<lparr>lm_magic = 5, lm_event_type = LG_MSG_START, lm_src_gid = 0, lm_src_mn_lp = 2,
     lm_final_dest_gid = 4, lm_dest_mn_lp = 5, lm_net_msg_size_bytes = 101, lm_event_size_bytes = 2,
     lm_local_event_size_bytes = 1, lm_category = ''test'', lm_event_rc = 0, lm_is_pull = 0,
     lm_pull_size = 0, lm_prio = 0, lm_send_next_idle_saved = 0, lm_recv_next_idle_saved = 0,
     xmit_time_saved = 0, lm_recv_time_saved = 0\<rparr>"

lemma ex_lg_start:
  "\<exists>ns' m' lp' out. loggp_msg_start env glb g ex_lg_state ex_lg_msg [1, 2, 3]
     \<lparr>gid = 2, draws = 0\<rparr> = Inr (ns', m', lp', out) \<and> draws lp' = 3"
  by (simp add: loggp_msg_start_def ex_lg_state_def ex_lg_msg_def ex_sn_find Let_def memcpy_def
      codes_local_latency_def loggp_find_params_def ex_entry_def model_net_method_send_msg_recv_event_def)

lemma loggp_start_lookup:
  assumes "loggp_msg_start env glb g ns m data lp = Inr (ns', m', lp', out)"
  shows "\<exists>i. model_net_find_stats (lm_category m) (loggp_stats_array ns') = Inr (i, loggp_stats_array ns')"
proof -
  from loggp_start_outcome [OF assms] obtain i arr t idle where
    f: "model_net_find_stats (lm_category m) (loggp_stats_array ns) = Inr (i, arr)"
    and "ns' = ns\<lparr>loggp_stats_array := arr[i := lg_stat_sent t (lm_net_msg_size_bytes m)
          (wrap_msg_size g + lm_event_size_bytes m + lm_local_event_size_bytes m) (arr ! i)],
        lg_send_next_idle := idle\<rparr>"
    by metis
  then have ns': "loggp_stats_array ns' = arr[i := lg_stat_sent t (lm_net_msg_size_bytes m)
          (wrap_msg_size g + lm_event_size_bytes m + lm_local_event_size_bytes m) (arr ! i)]"
    by simp
  have "st_category (lg_stat_sent t sz n (arr ! i)) = lm_category m" for sz n
    using find_stats_entry(2,3) [OF f] by (simp add: lg_stat_sent_def)
  from find_stats_updated [OF f this] show ?thesis unfolding ns' by blast
qed

lemma ex_lg_again:
  assumes "loggp_msg_start env glb g ex_lg_state ex_lg_msg [1, 2, 3] lp = Inr (ns', m', lp', out)"
  shows "\<exists>ns2 m2 lp2 out2. loggp_msg_start env glb g ns' ex_lg_msg [1, 2, 3] lp' = Inr (ns2, m2, lp2, out2)"
proof -
  have p: "lg_params ns' = [ex_entry 1 (1/2), ex_entry 1024 (1/4)]"
    by (rule loggp_start_outcome [OF assms]) (simp add: ex_lg_state_def)
  have c: "lm_category ex_lg_msg = ''test''" by (simp add: ex_lg_msg_def)
  obtain i where "model_net_find_stats ''test'' (loggp_stats_array ns') = Inr (i, loggp_stats_array ns')"
    using loggp_start_lookup [OF assms] c by auto
  then show ?thesis
    by (simp add: loggp_msg_start_def ex_lg_msg_def Let_def memcpy_def p split_beta
        loggp_find_params_def ex_entry_def model_net_method_send_msg_recv_event_def)
qed

lemma ex_lg_event:
  "\<exists>ns' m' g' lp' out. loggp_event 5 env glb g ex_lg_state ex_lg_msg [1, 2, 3] \<lparr>gid = 2, draws = 0\<rparr>
     = Inr (ns', m', g', lp', out) \<and> draws lp' = 3"
  using ex_lg_start [of env glb g] by (auto simp: loggp_event_def) (simp_all add: ex_lg_msg_def)

theorem loggp_events_reversible_witness:
  "\<exists>ns' m' g' lp' out i esz.
     loggp_event 5 ex_env ex_lp_globals ex_glob ex_lg_state ex_lg_msg [1, 2, 3] \<lparr>gid = 2, draws = 0\<rparr>
       = Inr (ns', m', g', lp', out) \<and> draws lp' = 3 \<and>
     loggp_rev_event 5 ns' m' lp' = Inr (lg_stats_touched ex_lg_state i ''test'' esz, \<lparr>gid = 2, draws = 0\<rparr>)"
proof -
  obtain ns' m' g' lp' out where
    h: "loggp_event 5 ex_env ex_lp_globals ex_glob ex_lg_state ex_lg_msg [1, 2, 3] \<lparr>gid = 2, draws = 0\<rparr>
       = Inr (ns', m', g', lp', out)" "draws lp' = 3" using ex_lg_event by blast
  have "lm_category ex_lg_msg = ''test''" by (simp add: ex_lg_msg_def)
  with loggp_events_reversible [OF h(1)] obtain i esz where
    "loggp_rev_event 5 ns' m' lp' = Inr (lg_stats_touched ex_lg_state i ''test'' esz, \<lparr>gid = 2, draws = 0\<rparr>)"
    by auto
  with h show ?thesis by (intro exI conjI)
qed

text \<open>The time at which a message leaves the sender: its arrival at the receiver less the
  latency of the network and the random delay.\<close>

definition departure :: "mn_env \<Rightarrow> param_table_entry \<Rightarrow> tw_lp \<Rightarrow> mn_event \<Rightarrow> tw_stime" where
  "departure env param lp ev = me_now env + ev_delay ev - me_lat env (draws lp) - pt_L param * 1000"

lemma loggp_start_times:
  assumes "loggp_msg_start env glb g ns m data lp = Inr (ns', m', lp', out)"
    and "loggp_find_params (lm_net_msg_size_bytes m) (lg_params ns) = Inr p"
  shows "departure env p lp (hd out) = max (me_now env) (lg_send_next_idle ns)"
    and "lg_send_next_idle ns' = max (me_now env) (lg_send_next_idle ns) +
      byte_time (lm_net_msg_size_bytes m) p + pt_g p * 1000"
    and "lg_params ns' = lg_params ns"
  by (rule loggp_start_outcome [OF assms(1)], use assms(2) in \<open>simp add: departure_def\<close>)+

text \<open>C34: the gap rule of LogGP. A message does not leave before the device is idle, and
  between the departures of two messages that a device sends one after the other lie at least
  the time of the bytes of the first, \<open>(size - 1) G\<close>, and the gap \<open>g\<close>.\<close>
theorem loggp_gap:
  assumes "loggp_msg_start env1 glb g1 ns m1 data1 lp1 = Inr (ns1, m1', lp1', out1)"
    and "loggp_msg_start env2 glb g2 ns1 m2 data2 lp2 = Inr (ns2, m2', lp2', out2)"
    and "loggp_find_params (lm_net_msg_size_bytes m1) (lg_params ns) = Inr p1"
    and "loggp_find_params (lm_net_msg_size_bytes m2) (lg_params ns) = Inr p2"
  shows "departure env1 p1 lp1 (hd out1) \<ge> max (me_now env1) (lg_send_next_idle ns) \<and>
    departure env2 p2 lp2 (hd out2) \<ge> departure env1 p1 lp1 (hd out1) +
      byte_time (lm_net_msg_size_bytes m1) p1 + pt_g p1 * 1000"
proof -
  note one = loggp_start_times [OF assms(1,3)]
  note two = loggp_start_times [OF assms(2)]
  show ?thesis using two(1) [of p2] one assms(4) by simp
qed

theorem loggp_gap_witness:
  "\<exists>ns1 m1' lp1' out1 ns2 m2' lp2' out2.
     loggp_msg_start ex_env ex_lp_globals ex_glob ex_lg_state ex_lg_msg [1, 2, 3] \<lparr>gid = 2, draws = 0\<rparr>
       = Inr (ns1, m1', lp1', out1) \<and>
     loggp_msg_start ex_env ex_lp_globals ex_glob ns1 ex_lg_msg [1, 2, 3] lp1' = Inr (ns2, m2', lp2', out2) \<and>
     departure ex_env (ex_entry 1024 (1/4)) lp1' (hd out2) \<ge> 150 + 25000 + 3000"
proof -
  have p: "loggp_find_params (lm_net_msg_size_bytes ex_lg_msg) (lg_params ex_lg_state) = Inr (ex_entry 1024 (1/4))"
    by (simp add: ex_lg_msg_def ex_lg_state_def loggp_find_params_def ex_entry_def)
  obtain ns1 m1' lp1' out1 where one: "loggp_msg_start ex_env ex_lp_globals ex_glob ex_lg_state ex_lg_msg
      [1, 2, 3] \<lparr>gid = 2, draws = 0\<rparr> = Inr (ns1, m1', lp1', out1)" using ex_lg_start by blast
  then obtain ns2 m2' lp2' out2 where two: "loggp_msg_start ex_env ex_lp_globals ex_glob ns1 ex_lg_msg
      [1, 2, 3] lp1' = Inr (ns2, m2', lp2', out2)" using ex_lg_again by blast
  have "lg_send_next_idle ex_lg_state = 150" "byte_time (lm_net_msg_size_bytes ex_lg_msg) (ex_entry 1024 (1/4)) = 25000"
    by (simp_all add: ex_lg_state_def ex_lg_msg_def ex_entry_def byte_time_def)
  with loggp_gap [OF one two p p] have "departure ex_env (ex_entry 1024 (1/4)) lp1' (hd out2) \<ge> 150 + 25000 + 3000"
    by (simp add: ex_entry_def)
  with one two show ?thesis by (intro exI conjI)
qed

subsection \<open>Boundary cases\<close>

text \<open>A message of zero bytes takes the time of \<open>2 ^ 64 - 1\<close> bytes: the length less one wraps.\<close>

lemma byte_time_empty: "byte_time 0 param = (2 ^ 64 - 1) * pt_G param * 1000"
proof -
  have "unat (0 - 1 :: u64) = 2 ^ 64 - 1" by (simp add: unsigned_minus_1_eq_mask mask_eq_exp_minus_1)
  then show ?thesis by (simp add: byte_time_def del: of_nat_unat)
qed

text \<open>A table that was read has at most 100 entries.\<close>

lemma set_params_loop_bound:
  "set_params_loop ls tbl = Inr tbl' \<Longrightarrow> length tbl \<le> TABLE_MAX \<Longrightarrow> length tbl' \<le> TABLE_MAX"
  by (induction ls arbitrary: tbl) (auto split: if_splits option.splits)

end
