(* ===== verification/Torus_Routing.thy ===== *)
theory Torus_Routing
  imports Model_Net_Base C_Text
begin

text \<open>
  The torus network, src/networks/model-net/torus.c: its parameters, the coordinates of the
  nodes and dimension-order routing. The event handlers are in theory \<open>Torus\<close>.

  A node is an LP; its flat id is its relative id among the torus LPs of its annotation
  (theory \<open>Mapping_Relative\<close>), its coordinates are the digits of the flat id in the mixed radix
  of the dimensions.
\<close>

subsection \<open>Parameters\<close>

record torus_param =
  n_dims :: int
  dim_length :: "int list"
  link_bandwidth :: real
  buffer_size :: int
  num_vc :: int
  chunk_size :: int
  factor :: "int list"
  half_length :: "int list"
  head_delay :: real
  credit_delay :: real
  cn_delay :: real
  router_delay :: real

definition bytes_to_ns :: "u64 \<Rightarrow> real \<Rightarrow> tw_stime" where
  "bytes_to_ns b GB_p_s = real (unat b) / (1024 * 1024 * 1024) / GB_p_s * 1000 * 1000 * 1000"

text \<open>A numeric value with its default.\<close>

definition with_default :: "'a \<Rightarrow> (int \<times> 'a option) result \<Rightarrow> 'a result" where
  "with_default d r = bind_res r (\<lambda>(rc, v). if rc \<noteq> 0 then Inr d else non_null v)"

text \<open>The dimensions: \<open>sscanf\<close> stores token after token into an array of \<open>n_dims\<close> entries; a token
  that is not a number leaves its entry as \<open>malloc\<close> returned it.\<close>

fun read_dims :: "string list \<Rightarrow> nat \<Rightarrow> int list result" where
  "read_dims [] room = Inr []"
| "read_dims (tok # toks) room =
     (case scan_int_rest tok of
        None \<Rightarrow> Inl (if room = 0 then OutOfBounds else Uninitialised)
      | Some (v, r) \<Rightarrow>
          if room = 0 then Inl OutOfBounds
          else if v \<le> 0 then Inl TwError
          else bind_res (read_dims toks (room - 1)) (\<lambda>vs. Inr (v # vs)))"

definition is_list_comma :: "char \<Rightarrow> bool" where "is_list_comma c \<longleftrightarrow> (of_char c :: nat) = 44"

fun factors :: "int list \<Rightarrow> int \<Rightarrow> int list" where
  "factors [] f = []"
| "factors (l # ls) f = f # factors ls (f * l)"

definition torus_read_config :: "config_handle \<Rightarrow> string option \<Rightarrow> torus_param result" where
  "torus_read_config h anno =
     bind_res (with_default 4 (configuration_get_value_int h ''PARAMS'' ''n_dims'' anno)) (\<lambda>nd.
     bind_res (with_default 2 (configuration_get_value_double h ''PARAMS'' ''link_bandwidth'' anno)) (\<lambda>bw.
     bind_res (with_default 2048 (configuration_get_value_int h ''PARAMS'' ''buffer_size'' anno)) (\<lambda>bsize.
     bind_res (with_default 128 (configuration_get_value_int h ''PARAMS'' ''chunk_size'' anno)) (\<lambda>csize.
     bind_res (configuration_get_value h ''PARAMS'' ''dim_length'' anno MAX_NAME_LENGTH) (\<lambda>(rc, str).
     if rc = 0 then Inl TwError
     else case str of None \<Rightarrow> Inl Uninitialised
     | Some s \<Rightarrow>
         bind_res (read_dims (strtok_r is_list_comma s) (nat nd)) (\<lambda>dims.
         if nd \<le> 0 then Inl OutOfBounds
         else if int (length dims) < nd then Inl Uninitialised
         else Inr \<lparr>n_dims = nd, dim_length = dims, link_bandwidth = bw, buffer_size = bsize, num_vc = 1,
                   chunk_size = csize, factor = factors dims 1, half_length = map (\<lambda>l. c_div l 2) dims,
                   head_delay = bytes_to_ns (word_of_int csize) bw, credit_delay = bytes_to_ns 8 bw,
                   cn_delay = 10, router_delay = 50\<rparr>))))))"

fun torus_read_all :: "config_handle \<Rightarrow> string option list \<Rightarrow> torus_param list result" where
  "torus_read_all h [] = Inr []"
| "torus_read_all h (a # as) =
     bind_res (torus_read_config h a) (\<lambda>p. bind_res (torus_read_all h as) (\<lambda>ps. Inr (p # ps)))"

definition TORUS_LP :: string where "TORUS_LP = model_net_lp_config_names ! nat TORUS"

definition torus_configure ::
    "config_lpgroups \<Rightarrow> config_handle \<Rightarrow> (config_anno_map \<times> torus_param list) result" where
  "torus_configure c h =
     (case codes_mapping_get_lp_anno_map c TORUS_LP of
        None \<Rightarrow> Inl AssertFailed
      | Some amap \<Rightarrow>
          bind_res (torus_read_all h
                      (map Some (annotations amap) @ (if has_unanno_lp amap > 0 then [None] else [])))
            (\<lambda>ps. Inr (amap, ps)))"

text \<open>\<open>model_net_torus_get_dims\<close>. Its search runs over all parameter sets, one more than there are
  annotations when there are unannotated LPs.\<close>

fun dims_loop :: "string option \<Rightarrow> string list \<Rightarrow> torus_param list \<Rightarrow> torus_param result" where
  "dims_loop anno as [] = Inl TwError"
| "dims_loop anno [] (p # ps) = Inl OutOfBounds"
| "dims_loop anno (a # as) (p # ps) =
     (case anno of None \<Rightarrow> Inl NullDeref
      | Some an \<Rightarrow> if an = a then Inr p else dims_loop anno as ps)"

definition model_net_torus_get_dims ::
    "config_anno_map \<Rightarrow> torus_param list \<Rightarrow> string option \<Rightarrow> bool \<Rightarrow> (int \<times> int list) result" where
  "model_net_torus_get_dims amap all_params anno ignore_annotations =
     bind_res (if ignore_annotations then rd all_params 0
               else if has_unanno_lp amap > 0 \<and> anno = None then rd all_params (length (annotations amap))
               else dims_loop anno (annotations amap) all_params) (\<lambda>p.
       Inr (n_dims p, dim_length p))"

subsection \<open>Coordinates\<close>

fun to_dim_id :: "int \<Rightarrow> int list \<Rightarrow> int list result" where
  "to_dim_id flat_id [] = Inr []"
| "to_dim_id flat_id (l # ls) =
     (if l = 0 then Inl DivByZero
      else bind_res (to_dim_id (c_div flat_id l) ls) (\<lambda>ids. Inr (c_mod flat_id l # ids)))"

fun flat_loop :: "int list \<Rightarrow> int list \<Rightarrow> int \<Rightarrow> int \<Rightarrow> int result" where
  "flat_loop [] ids flat mult = Inr flat"
| "flat_loop (l # ls) [] flat mult = Inl OutOfBounds"
| "flat_loop (l # ls) (d # ds) flat mult = flat_loop ls ds (flat + d * mult) (mult * l)"

definition to_flat_id :: "int list \<Rightarrow> int list \<Rightarrow> int result" where
  "to_flat_id dim_lens dim_ids =
     bind_res (rd dim_ids 0) (\<lambda>d. bind_res (rd dim_lens 0) (\<lambda>l. flat_loop (tl dim_lens) (tl dim_ids) d l))"

definition model_net_torus_get_dim_id :: "int \<Rightarrow> int list \<Rightarrow> int list result" where
  "model_net_torus_get_dim_id = to_dim_id"

definition model_net_torus_get_flat_id :: "int list \<Rightarrow> int list \<Rightarrow> int result" where
  "model_net_torus_get_flat_id = to_flat_id"

text \<open>The loops of \<open>torus_init\<close> that compute the flat ids of the neighbours: \<open>shift\<close> is -1 or 1.\<close>

definition neighbour_pos :: "int \<Rightarrow> int list \<Rightarrow> int list \<Rightarrow> nat \<Rightarrow> int list" where
  "neighbour_pos shift lens pos j = pos[j := c_mod (pos ! j + shift + lens ! j) (lens ! j)]"

fun collect :: "(nat \<Rightarrow> 'a result) \<Rightarrow> nat list \<Rightarrow> 'a list result" where
  "collect f [] = Inr []"
| "collect f (j # js) = bind_res (f j) (\<lambda>x. bind_res (collect f js) (\<lambda>xs. Inr (x # xs)))"

definition neighbour_ids :: "int \<Rightarrow> torus_param \<Rightarrow> int list \<Rightarrow> int list result" where
  "neighbour_ids shift p pos =
     collect (\<lambda>j. to_flat_id (dim_length p) (neighbour_pos shift (dim_length p) pos j)) [0..<nat (n_dims p)]"

subsection \<open>Dimension-order routing\<close>

text \<open>The part of a node's state that routing reads.\<close>

record torus_place =
  tp_params :: torus_param
  tp_anno :: "string option"
  dim_position :: "int list"
  neighbour_minus_lpID :: "int list"
  neighbour_plus_lpID :: "int list"

definition torus_place_init ::
    "config_lpgroups \<Rightarrow> torus_param \<Rightarrow> string option \<Rightarrow> int \<Rightarrow> torus_place result" where
  "torus_place_init c p anno self =
     bind_res (codes_mapping_get_lp_relative_id c self 0 1) (\<lambda>rel.
     bind_res (to_dim_id rel (dim_length p)) (\<lambda>pos.
     bind_res (neighbour_ids (-1) p pos) (\<lambda>minus.
     bind_res (neighbour_ids 1 p pos) (\<lambda>plus.
       Inr \<lparr>tp_params = p, tp_anno = anno, dim_position = pos, neighbour_minus_lpID = minus,
            neighbour_plus_lpID = plus\<rparr>))))"

text \<open>The loop over the dimensions: the dimension and the direction (1 is plus), or \<open>None\<close>.\<close>

fun dor_loop :: "int list \<Rightarrow> int list \<Rightarrow> int list \<Rightarrow> nat \<Rightarrow> (nat \<times> int) option" where
  "dor_loop (s # ss) (d # ds) (h # hs) i =
     (if s - d > h then Some (i, 1)
      else if s - d < - h then Some (i, 0)
      else if s - d \<le> h \<and> s - d > 0 then Some (i, 0)
      else if s - d \<ge> - h \<and> s - d < 0 then Some (i, 1)
      else dor_loop ss ds hs (Suc i))"
| "dor_loop _ _ _ i = None"

definition dimension_order_routing ::
    "config_lpgroups \<Rightarrow> torus_place \<Rightarrow> int \<Rightarrow> (int \<times> int \<times> int) result" where
  "dimension_order_routing c s dst_lp =
     bind_res (codes_mapping_get_lp_relative_id c dst_lp 0 1) (\<lambda>rel.
     bind_res (to_dim_id rel (dim_length (tp_params s))) (\<lambda>dest.
     case dor_loop (dim_position s) dest (half_length (tp_params s)) 0 of
       None \<Rightarrow> Inl AssertFailed
     | Some (k, dir) \<Rightarrow>
         bind_res (rd (if dir = 1 then neighbour_plus_lpID s else neighbour_minus_lpID s) k) (\<lambda>dest_id.
         bind_res (codes_mapping_get_lpid_from_relative c dest_id None TORUS_LP (tp_anno s) 1) (\<lambda>lp.
           Inr (lp, int k, dir)))))"

subsection \<open>Flat ids and coordinates\<close>

definition coords_ok :: "int list \<Rightarrow> int list \<Rightarrow> bool" where
  "coords_ok lens ids \<longleftrightarrow> list_all2 (\<lambda>l d. 0 \<le> d \<and> d < l) lens ids"

fun mixed_value :: "int list \<Rightarrow> int list \<Rightarrow> int" where
  "mixed_value (l # ls) (d # ds) = d + l * mixed_value ls ds"
| "mixed_value _ _ = 0"

fun mixed_digits :: "int list \<Rightarrow> int \<Rightarrow> int list" where
  "mixed_digits [] f = []"
| "mixed_digits (l # ls) f = f mod l # mixed_digits ls (f div l)"

lemma coords_ok_simps [simp]:
  "coords_ok [] ids \<longleftrightarrow> ids = []"
  "coords_ok (l # ls) (d # ds) \<longleftrightarrow> 0 \<le> d \<and> d < l \<and> coords_ok ls ds"
  "coords_ok ls [] \<longleftrightarrow> ls = []"
  by (auto simp: coords_ok_def)

lemma coords_ok_length: "coords_ok lens ids \<Longrightarrow> length ids = length lens"
  by (auto simp: coords_ok_def dest: list_all2_lengthD)

lemma coords_ok_nth: "coords_ok lens ids \<Longrightarrow> j < length lens \<Longrightarrow> 0 \<le> ids ! j \<and> ids ! j < lens ! j"
  by (auto simp: coords_ok_def list_all2_conv_all_nth)

lemma coords_ok_update: "coords_ok lens ids \<Longrightarrow> 0 \<le> v \<Longrightarrow> v < lens ! j \<Longrightarrow> coords_ok lens (ids[j := v])"
  by (cases "j < length ids") (auto simp: coords_ok_def list_all2_conv_all_nth nth_list_update)

lemma flat_loop_value:
  "length ids = length lens \<Longrightarrow> flat_loop lens ids flat mult = Inr (flat + mult * mixed_value lens ids)"
  by (induction lens ids flat mult rule: flat_loop.induct) (auto simp: algebra_simps)

lemma to_flat_id_value:
  "coords_ok lens ids \<Longrightarrow> lens \<noteq> [] \<Longrightarrow> to_flat_id lens ids = Inr (mixed_value lens ids)"
  by (cases lens; cases ids) (auto simp: to_flat_id_def flat_loop_value dest: coords_ok_length)

lemma to_dim_id_digits:
  "\<forall>l \<in> set lens. 0 < l \<Longrightarrow> 0 \<le> f \<Longrightarrow> to_dim_id f lens = Inr (mixed_digits lens f)"
  by (induction lens arbitrary: f) (auto simp: c_int_simps pos_imp_zdiv_nonneg_iff)

lemma mixed_digits_ok: "\<forall>l \<in> set lens. 0 < l \<Longrightarrow> coords_ok lens (mixed_digits lens f)"
  by (induction lens arbitrary: f) auto

lemma mixed_value_bounds:
  "coords_ok lens ids \<Longrightarrow> 0 \<le> mixed_value lens ids \<and> mixed_value lens ids < prod_list lens"
proof (induction lens ids rule: mixed_value.induct)
  case (1 l ls d ds)
  then have v: "0 \<le> mixed_value ls ds" "mixed_value ls ds \<le> prod_list ls - 1" "0 \<le> d" "d < l" by auto
  have "l * mixed_value ls ds \<le> l * (prod_list ls - 1)" using v by (intro mult_left_mono) auto
  with v show ?case by (simp add: algebra_simps)
qed simp_all

lemma mixed_digits_value: "coords_ok lens ids \<Longrightarrow> mixed_digits lens (mixed_value lens ids) = ids"
  by (induction lens ids rule: mixed_value.induct) auto

lemma mixed_value_digits:
  "\<forall>l \<in> set lens. 0 < l \<Longrightarrow> 0 \<le> f \<Longrightarrow> f < prod_list lens \<Longrightarrow> mixed_value lens (mixed_digits lens f) = f"
proof (induction lens arbitrary: f)
  case (Cons l lens)
  have l: "0 < l" using Cons.prems(1) by simp
  have "f div l < prod_list lens"
  proof (rule ccontr)
    assume "\<not> f div l < prod_list lens"
    then have "l * prod_list lens \<le> l * (f div l)" using l by simp
    also have "\<dots> \<le> f" using l mult_div_mod_eq [of l f] pos_mod_sign [OF l, of f] by linarith
    finally show False using Cons.prems(3) by simp
  qed
  moreover have "0 \<le> f div l" using l Cons.prems(2) by (simp add: pos_imp_zdiv_nonneg_iff)
  ultimately have "mixed_value lens (mixed_digits lens (f div l)) = f div l" using Cons by simp
  then show ?case by (simp add: algebra_simps)
qed simp

subsection \<open>Distance\<close>

definition ring_dist :: "int \<Rightarrow> int \<Rightarrow> int \<Rightarrow> int" where
  "ring_dist l a b = min \<bar>a - b\<bar> (l - \<bar>a - b\<bar>)"

fun torus_dist :: "int list \<Rightarrow> int list \<Rightarrow> int list \<Rightarrow> int" where
  "torus_dist (l # ls) (a # as) (b # bs) = ring_dist l a b + torus_dist ls as bs"
| "torus_dist _ _ _ = 0"

definition step_coord :: "int \<Rightarrow> int \<Rightarrow> int \<Rightarrow> int" where
  "step_coord l dir s = (s + (if dir = 1 then 1 else -1) + l) mod l"

lemma step_coord_bounds: "0 < l \<Longrightarrow> 0 \<le> step_coord l dir s \<and> step_coord l dir s < l"
  by (simp add: step_coord_def)

lemma step_coord_cases:
  assumes "0 \<le> s" "s < l"
  shows "step_coord l 1 s = (if s = l - 1 then 0 else s + 1)"
    and "dir \<noteq> 1 \<Longrightarrow> step_coord l dir s = (if s = 0 then l - 1 else s - 1)"
proof -
  show "step_coord l 1 s = (if s = l - 1 then 0 else s + 1)"
    using assms by (cases "s = l - 1") (simp_all add: step_coord_def mod_pos_pos_trivial)
  show "dir \<noteq> 1 \<Longrightarrow> step_coord l dir s = (if s = 0 then l - 1 else s - 1)"
    using assms by (cases "s = 0") (simp_all add: step_coord_def mod_pos_pos_trivial zmod_minus1)
qed

text \<open>The direction that the loop chooses in one dimension shortens the way by one.\<close>

lemma ring_step:
  assumes "0 \<le> s" "s < l" "0 \<le> d" "d < l"
  shows "s - d > l div 2 \<or> (- (l div 2) \<le> s - d \<and> s - d < 0) \<Longrightarrow>
      ring_dist l (step_coord l 1 s) d = ring_dist l s d - 1"
    and "dir \<noteq> 1 \<Longrightarrow> s - d < - (l div 2) \<or> (s - d \<le> l div 2 \<and> s - d > 0) \<Longrightarrow>
      ring_dist l (step_coord l dir s) d = ring_dist l s d - 1"
  using assms by (auto simp: step_coord_cases ring_dist_def min_def abs_if split: if_splits)

subsection \<open>One hop\<close>

lemma dor_loop_none: "length hs = length ds \<Longrightarrow> \<forall>h \<in> set hs. 0 \<le> h \<Longrightarrow> dor_loop ds ds hs i = None"
  by (induction ds arbitrary: hs i) (case_tac hs; auto)+

lemma torus_dist_self: "coords_ok lens ps \<Longrightarrow> torus_dist lens ps ps = 0"
proof (induction lens arbitrary: ps)
  case (Cons l lens)
  then show ?case by (cases ps) (auto simp: ring_dist_def)
qed simp

lemma dor_loop_step:
  assumes "coords_ok lens ss" and "coords_ok lens ds" and "ss \<noteq> ds"
  shows "\<exists>k dir. dor_loop ss ds (map (\<lambda>l. l div 2) lens) i = Some (i + k, dir) \<and> k < length lens \<and>
    dir \<in> {0, 1} \<and> torus_dist lens (ss[k := step_coord (lens ! k) dir (ss ! k)]) ds = torus_dist lens ss ds - 1"
  using assms
proof (induction lens arbitrary: ss ds i)
  case (Cons l lens)
  obtain s ss' d ds' where e: "ss = s # ss'" "ds = d # ds'"
    using Cons.prems(1,2) by (cases ss; cases ds) auto
  have b: "0 \<le> s" "s < l" "0 \<le> d" "d < l" "coords_ok lens ss'" "coords_ok lens ds'"
    using Cons.prems(1,2) e by auto
  show ?case
  proof (cases "s = d")
    case True
    then have "ss' \<noteq> ds'" using Cons.prems(3) e by simp
    with Cons.IH [OF b(5,6), of "Suc i"] obtain k dir where
      "dor_loop ss' ds' (map (\<lambda>l. l div 2) lens) (Suc i) = Some (Suc i + k, dir)" "k < length lens"
      "dir \<in> {0, 1}" "torus_dist lens (ss'[k := step_coord (lens ! k) dir (ss' ! k)]) ds' = torus_dist lens ss' ds' - 1"
      by blast
    then show ?thesis using True b by (intro exI [of _ "Suc k"] exI [of _ dir]) (auto simp: e)
  next
    case False
    consider (plus) "s - d > l div 2 \<or> (- (l div 2) \<le> s - d \<and> s - d < 0)"
      | (minus) "s - d < - (l div 2) \<or> (s - d \<le> l div 2 \<and> s - d > 0)" using False by linarith
    then show ?thesis
    proof cases
      case plus
      then have "dor_loop ss ds (map (\<lambda>l. l div 2) (l # lens)) i = Some (i, 1)" using b by (auto simp: e)
      then show ?thesis using ring_step(1) [OF b(1-4) plus]
        by (intro exI [of _ 0] exI [of _ 1]) (simp add: e)
    next
      case minus
      then have "dor_loop ss ds (map (\<lambda>l. l div 2) (l # lens)) i = Some (i, 0)" using b by (auto simp: e)
      then show ?thesis using ring_step(2) [OF b(1-4) _ minus, of 0]
        by (intro exI [of _ 0] exI [of _ 0]) (simp add: e)
    qed
  qed
qed simp

text \<open>Parameters as \<open>torus_read_config\<close> makes them.\<close>

definition params_ok :: "torus_param \<Rightarrow> bool" where
  "params_ok p \<longleftrightarrow> n_dims p = int (length (dim_length p)) \<and> dim_length p \<noteq> [] \<and>
     (\<forall>l \<in> set (dim_length p). 0 < l) \<and> half_length p = map (\<lambda>l. l div 2) (dim_length p)"

lemma read_dims_ok:
  "read_dims toks room = Inr vs \<Longrightarrow> (\<forall>v \<in> set vs. 0 < v) \<and> length vs \<le> room"
proof (induction toks arbitrary: room vs)
  case (Cons tok toks)
  then show ?case by (cases room) (fastforce simp: result_iff split: option.splits if_splits)+
qed simp

lemma read_config_ok:
  assumes "torus_read_config h anno = Inr p"
  shows "params_ok p"
proof -
  obtain toks dims where d: "read_dims toks (nat (n_dims p)) = Inr dims" "dim_length p = dims"
    "0 < n_dims p" "n_dims p \<le> int (length dims)" "half_length p = map (\<lambda>l. c_div l 2) dims"
    using assms by (auto simp: torus_read_config_def result_iff split: option.splits if_splits)
  have "\<forall>v \<in> set dims. 0 < v" "length dims \<le> nat (n_dims p)" using read_dims_ok [OF d(1)] by auto
  then show ?thesis using d by (auto simp: params_ok_def c_int_simps)
qed

text \<open>The flat ids of one annotation and the global ids of its LPs: \<open>n\<close> nodes, numbered from 0.\<close>

definition torus_numbering :: "config_lpgroups \<Rightarrow> string option \<Rightarrow> int \<Rightarrow> bool" where
  "torus_numbering c anno n \<longleftrightarrow> list_all (\<lambda>r.
     case codes_mapping_get_lpid_from_relative c r None TORUS_LP anno 1 of
       Inl e \<Rightarrow> False | Inr g \<Rightarrow> codes_mapping_get_lp_relative_id c g 0 1 = Inr r) [0 .. n - 1]"

lemma torus_numberingD:
  assumes "torus_numbering c anno n" and "0 \<le> r" and "r < n"
  shows "\<exists>g. codes_mapping_get_lpid_from_relative c r None TORUS_LP anno 1 = Inr g \<and>
    codes_mapping_get_lp_relative_id c g 0 1 = Inr r"
proof -
  have "r \<in> set [0 .. n - 1]" using assms(2,3) by simp
  with assms(1) have "case codes_mapping_get_lpid_from_relative c r None TORUS_LP anno 1 of
      Inl e \<Rightarrow> False | Inr g \<Rightarrow> codes_mapping_get_lp_relative_id c g 0 1 = Inr r"
    unfolding torus_numbering_def list_all_iff by blast
  then show ?thesis by (simp split: sum.splits)
qed

definition node_lp :: "config_lpgroups \<Rightarrow> string option \<Rightarrow> int list \<Rightarrow> int list \<Rightarrow> int result" where
  "node_lp c anno lens pos =
     codes_mapping_get_lpid_from_relative c (mixed_value lens pos) None TORUS_LP anno 1"

lemma collect_map: "\<forall>j \<in> set js. f j = Inr (g j) \<Longrightarrow> collect f js = Inr (map g js)"
  by (induction js) auto

lemma neighbour_ids_value:
  assumes "params_ok p" and "coords_ok (dim_length p) pos"
  shows "neighbour_ids (if dir = 1 then 1 else -1) p pos = Inr (map (\<lambda>j. mixed_value (dim_length p)
    (pos[j := step_coord (dim_length p ! j) dir (pos ! j)])) [0..<length (dim_length p)])"
proof -
  let ?sh = "if dir = 1 then 1 else -1 :: int"
  have "to_flat_id (dim_length p) (neighbour_pos ?sh (dim_length p) pos j) =
      Inr (mixed_value (dim_length p) (pos[j := step_coord (dim_length p ! j) dir (pos ! j)]))"
    if "j \<in> set [0..<length (dim_length p)]" for j
  proof -
    have l: "0 < dim_length p ! j" using assms(1) that by (auto simp: params_ok_def)
    have "0 \<le> pos ! j" using coords_ok_nth [OF assms(2)] that by simp
    then have "neighbour_pos ?sh (dim_length p) pos j = pos[j := step_coord (dim_length p ! j) dir (pos ! j)]"
      using l by (simp add: neighbour_pos_def step_coord_def c_int_simps)
    then show ?thesis using assms l step_coord_bounds [OF l]
      by (simp add: to_flat_id_value coords_ok_update params_ok_def)
  qed
  then show ?thesis using assms(1) unfolding neighbour_ids_def params_ok_def by (intro trans [OF collect_map]) auto
qed

lemma place_of_node:
  assumes "params_ok p" and "torus_numbering c anno (prod_list (dim_length p))"
    and pos: "coords_ok (dim_length p) pos" and "node_lp c anno (dim_length p) pos = Inr g"
  shows "codes_mapping_get_lp_relative_id c g 0 1 = Inr (mixed_value (dim_length p) pos)"
    and "to_dim_id (mixed_value (dim_length p) pos) (dim_length p) = Inr pos"
    and "\<exists>s. torus_place_init c p anno g = Inr s \<and> dim_position s = pos \<and> tp_params s = p \<and> tp_anno s = anno \<and>
      neighbour_plus_lpID s = map (\<lambda>j. mixed_value (dim_length p)
        (pos[j := step_coord (dim_length p ! j) 1 (pos ! j)])) [0..<length (dim_length p)] \<and>
      neighbour_minus_lpID s = map (\<lambda>j. mixed_value (dim_length p)
        (pos[j := step_coord (dim_length p ! j) 0 (pos ! j)])) [0..<length (dim_length p)]"
proof -
  have b: "0 \<le> mixed_value (dim_length p) pos" "mixed_value (dim_length p) pos < prod_list (dim_length p)"
    using mixed_value_bounds [OF pos] by auto
  show r: "codes_mapping_get_lp_relative_id c g 0 1 = Inr (mixed_value (dim_length p) pos)"
    using torus_numberingD [OF assms(2) b] assms(4) by (auto simp: node_lp_def)
  show t: "to_dim_id (mixed_value (dim_length p) pos) (dim_length p) = Inr pos"
    using to_dim_id_digits [of "dim_length p"] b(1) mixed_digits_value [OF pos] assms(1)
    by (simp add: params_ok_def)
  show "\<exists>s. torus_place_init c p anno g = Inr s \<and> dim_position s = pos \<and> tp_params s = p \<and> tp_anno s = anno \<and>
      neighbour_plus_lpID s = map (\<lambda>j. mixed_value (dim_length p)
        (pos[j := step_coord (dim_length p ! j) 1 (pos ! j)])) [0..<length (dim_length p)] \<and>
      neighbour_minus_lpID s = map (\<lambda>j. mixed_value (dim_length p)
        (pos[j := step_coord (dim_length p ! j) 0 (pos ! j)])) [0..<length (dim_length p)]"
    using neighbour_ids_value [OF assms(1) pos, of 1] neighbour_ids_value [OF assms(1) pos, of 0]
    by (simp add: torus_place_init_def r t)
qed

lemma hop:
  assumes "params_ok p" and "torus_numbering c anno (prod_list (dim_length p))"
    and "coords_ok (dim_length p) pos" and "coords_ok (dim_length p) dest" and "pos \<noteq> dest"
    and "node_lp c anno (dim_length p) pos = Inr g" and "node_lp c anno (dim_length p) dest = Inr dst"
  shows "\<exists>s pos' g' k dir. torus_place_init c p anno g = Inr s \<and>
    dimension_order_routing c s dst = Inr (g', int k, dir) \<and> k < length (dim_length p) \<and> dir \<in> {0, 1} \<and>
    pos' = pos[k := step_coord (dim_length p ! k) dir (pos ! k)] \<and> coords_ok (dim_length p) pos' \<and>
    node_lp c anno (dim_length p) pos' = Inr g' \<and>
    torus_dist (dim_length p) pos' dest = torus_dist (dim_length p) pos dest - 1"
proof -
  let ?lens = "dim_length p"
  from dor_loop_step [OF assms(3,4,5), of 0] obtain k dir where
    k: "dor_loop pos dest (map (\<lambda>l. l div 2) ?lens) 0 = Some (k, dir)" "k < length ?lens" "dir \<in> {0, 1}"
    and d: "torus_dist ?lens (pos[k := step_coord (?lens ! k) dir (pos ! k)]) dest = torus_dist ?lens pos dest - 1"
    by auto
  let ?pos' = "pos[k := step_coord (?lens ! k) dir (pos ! k)]"
  have "0 < ?lens ! k" using assms(1) k(2) by (simp add: params_ok_def)
  then have ok: "coords_ok ?lens ?pos'" using assms(3) step_coord_bounds by (intro coords_ok_update) auto
  have b: "0 \<le> mixed_value ?lens ?pos'" "mixed_value ?lens ?pos' < prod_list ?lens"
    using mixed_value_bounds [OF ok] by auto
  obtain g' where g': "node_lp c anno ?lens ?pos' = Inr g'"
    using torus_numberingD [OF assms(2) b] by (auto simp: node_lp_def)
  obtain s where s: "torus_place_init c p anno g = Inr s" "dim_position s = pos" "tp_params s = p" "tp_anno s = anno"
      "neighbour_plus_lpID s = map (\<lambda>j. mixed_value ?lens (pos[j := step_coord (?lens ! j) 1 (pos ! j)])) [0..<length ?lens]"
      "neighbour_minus_lpID s = map (\<lambda>j. mixed_value ?lens (pos[j := step_coord (?lens ! j) 0 (pos ! j)])) [0..<length ?lens]"
    using place_of_node(3) [OF assms(1,2,3,6)] by blast
  have h: "half_length p = map (\<lambda>l. l div 2) ?lens" using assms(1) by (simp add: params_ok_def)
  have n: "rd (if dir = 1 then neighbour_plus_lpID s else neighbour_minus_lpID s) k = Inr (mixed_value ?lens ?pos')"
    using k(2,3) s(5,6) by auto
  have "dimension_order_routing c s dst = Inr (g', int k, dir)"
    using place_of_node(1,2) [OF assms(1,2,4,7)] g' n
    by (simp add: dimension_order_routing_def s(2,3,4) h k(1) node_lp_def)
  then show ?thesis using s(1) k(2,3) ok g' d by (intro exI conjI) (assumption | rule refl)+
qed

text \<open>A packet for the node itself cannot be routed: the assertion fails.\<close>

lemma route_to_self_fails:
  assumes "params_ok p" and "torus_numbering c anno (prod_list (dim_length p))"
    and "coords_ok (dim_length p) pos" and "node_lp c anno (dim_length p) pos = Inr g"
    and "torus_place_init c p anno g = Inr s"
  shows "dimension_order_routing c s g = Inl AssertFailed"
proof -
  have "dim_position s = pos" "tp_params s = p" using place_of_node(3) [OF assms(1-4)] assms(5) by auto
  moreover have "dor_loop pos pos (half_length p) 0 = None"
    using assms(1) coords_ok_length [OF assms(3)] by (intro dor_loop_none) (auto simp: params_ok_def)
  ultimately show ?thesis using place_of_node(1,2) [OF assms(1-4)] by (simp add: dimension_order_routing_def)
qed

subsection \<open>Routes\<close>

text \<open>The way of a packet from node to node: \<open>None\<close> when the fuel is used up first.\<close>

fun torus_route ::
    "config_lpgroups \<Rightarrow> torus_param \<Rightarrow> string option \<Rightarrow> nat \<Rightarrow> int \<Rightarrow> int \<Rightarrow> int list result option" where
  "torus_route c p anno n g dst =
     (if g = dst then Some (Inr [g])
      else case n of 0 \<Rightarrow> None
      | Suc n' \<Rightarrow>
          (case bind_res (torus_place_init c p anno g) (\<lambda>s. dimension_order_routing c s dst) of
             Inl e \<Rightarrow> Some (Inl e)
           | Inr (g', k, dir) \<Rightarrow>
               map_option (\<lambda>r. bind_res r (\<lambda>path. Inr (g # path))) (torus_route c p anno n' g' dst)))"

declare torus_route.simps [simp del]

lemma torus_dist_bounds:
  "coords_ok lens ss \<Longrightarrow> coords_ok lens ds \<Longrightarrow>
     0 \<le> torus_dist lens ss ds \<and> torus_dist lens ss ds \<le> sum_list (map (\<lambda>l. l div 2) lens)"
proof (induction lens arbitrary: ss ds)
  case (Cons l lens)
  obtain s ss' d ds' where e: "ss = s # ss'" "ds = d # ds'" using Cons.prems by (cases ss; cases ds) auto
  have b: "0 \<le> s" "s < l" "0 \<le> d" "d < l" "coords_ok lens ss'" "coords_ok lens ds'"
    using Cons.prems e by auto
  then have "0 \<le> ring_dist l s d" "ring_dist l s d \<le> l div 2" by (auto simp: ring_dist_def min_def abs_if)
  with Cons.IH [OF b(5,6)] show ?case by (simp add: e)
qed simp

lemma route_arrives:
  assumes "params_ok p" and "torus_numbering c anno (prod_list (dim_length p))"
    and "coords_ok (dim_length p) pos" and "coords_ok (dim_length p) dest"
    and "node_lp c anno (dim_length p) pos = Inr g" and "node_lp c anno (dim_length p) dest = Inr dst"
    and "torus_dist (dim_length p) pos dest \<le> int n"
  shows "\<exists>path. torus_route c p anno n g dst = Some (Inr path) \<and> hd path = g \<and> last path = dst \<and>
    path \<noteq> [] \<and> int (length path) = torus_dist (dim_length p) pos dest + 1"
  using assms(3,5,7)
proof (induction n arbitrary: pos g)
  note [simp] = torus_route.simps
  have same: "pos = dest" if "coords_ok (dim_length p) pos" "node_lp c anno (dim_length p) pos = Inr dst" for pos
    using place_of_node(1) [OF assms(1,2) that] place_of_node(1) [OF assms(1,2) assms(4,6)] that(1) assms(4)
    by (metis Inr_inject mixed_digits_value)
  {
    case 0
    then have z: "torus_dist (dim_length p) pos dest = 0" using torus_dist_bounds [OF _ assms(4)] by force
    have "pos = dest"
    proof (rule ccontr)
      assume "pos \<noteq> dest"
      from dor_loop_step [OF 0(1) assms(4) this, of 0] obtain k dir where
        k: "k < length (dim_length p)" "torus_dist (dim_length p)
          (pos[k := step_coord (dim_length p ! k) dir (pos ! k)]) dest = -1" using z by auto
      have "0 < dim_length p ! k" using assms(1) k(1) by (simp add: params_ok_def)
      then have "coords_ok (dim_length p) (pos[k := step_coord (dim_length p ! k) dir (pos ! k)])"
        using 0(1) step_coord_bounds by (intro coords_ok_update) auto
      from torus_dist_bounds [OF this assms(4)] k(2) show False by simp
    qed
    then show ?case using 0 z assms(6) by simp
  next
    case (Suc n)
    show ?case
    proof (cases "g = dst")
      case True
      then have "pos = dest" using same Suc.prems(1,2) by simp
      then show ?thesis using True torus_dist_self [OF assms(4)] by simp
    next
      case False
      then have "pos \<noteq> dest" using Suc.prems(2) assms(6) by auto
      from hop [OF assms(1,2) Suc.prems(1) assms(4) this Suc.prems(2) assms(6)] obtain s pos' g' k dir where
        h: "torus_place_init c p anno g = Inr s" "dimension_order_routing c s dst = Inr (g', int k, dir)"
          "coords_ok (dim_length p) pos'" "node_lp c anno (dim_length p) pos' = Inr g'"
          "torus_dist (dim_length p) pos' dest = torus_dist (dim_length p) pos dest - 1" by blast
      from Suc.IH [OF h(3,4)] h(5) Suc.prems(3) obtain path where
        "torus_route c p anno n g' dst = Some (Inr path)" "last path = dst" "path \<noteq> []"
        "int (length path) = torus_dist (dim_length p) pos dest" by auto
      with False h(1,2) show ?thesis by simp
    qed
  }
qed

subsection \<open>Properties\<close>

text \<open>the conversions between flat ids and coordinates are inverse to each other: every flat
  id below the number of nodes has coordinates within the dimensions that lead back to it, and
  every tuple of coordinates within the dimensions has a flat id below the number of nodes that
  leads back to it. Neither fails.\<close>
theorem torus_ids_roundtrip:
  assumes "lens \<noteq> []" and "\<forall>l \<in> set lens. 0 < l"
  shows "(0 \<le> f \<and> f < prod_list lens \<longrightarrow>
      (\<exists>ids. to_dim_id f lens = Inr ids \<and> coords_ok lens ids \<and> to_flat_id lens ids = Inr f)) \<and>
    (coords_ok lens ids \<longrightarrow>
      (\<exists>f. to_flat_id lens ids = Inr f \<and> 0 \<le> f \<and> f < prod_list lens \<and> to_dim_id f lens = Inr ids))"
proof (intro conjI impI)
  assume f: "0 \<le> f \<and> f < prod_list lens"
  have ok: "coords_ok lens (mixed_digits lens f)" by (rule mixed_digits_ok [OF assms(2)])
  show "\<exists>ids. to_dim_id f lens = Inr ids \<and> coords_ok lens ids \<and> to_flat_id lens ids = Inr f"
    using ok to_flat_id_value [OF ok assms(1)] to_dim_id_digits [OF assms(2)] mixed_value_digits [OF assms(2)] f
    by simp
next
  assume ok: "coords_ok lens ids"
  show "\<exists>f. to_flat_id lens ids = Inr f \<and> 0 \<le> f \<and> f < prod_list lens \<and> to_dim_id f lens = Inr ids"
    using mixed_value_bounds [OF ok] to_flat_id_value [OF ok assms(1)]
      to_dim_id_digits [OF assms(2), of "mixed_value lens ids"] mixed_digits_value [OF ok] by simp
qed

theorem torus_ids_roundtrip_witness:
  "to_dim_id 17 [4, 3, 2] = Inr [1, 1, 1] \<and> (\<exists>ids. to_dim_id 17 [4, 3, 2] = Inr ids \<and> to_flat_id [4, 3, 2] ids = Inr 17)"
proof -
  have "to_dim_id 17 [4, 3, 2] = Inr [1, 1, 1]" by code_simp
  moreover have "(0 :: int) \<le> 17 \<and> 17 < prod_list [4, 3, 2 :: int]" by simp
  ultimately show ?thesis using torus_ids_roundtrip [of "[4, 3, 2]" 17 "[]"] by auto
qed

text \<open>C35: dimension-order routing delivers. From any node of a torus to any other, hop by hop as
  the nodes compute it from their own coordinates, the way ends at the destination after as many
  hops as the two nodes are apart, that is a shortest way; half of every dimension is a bound
  that needs no knowledge of the nodes. \<open>torus_numbering\<close> says that the configuration has the LPs
  for all coordinates.\<close>
theorem torus_packets_arrive:
  assumes "params_ok p" and "torus_numbering c anno (prod_list (dim_length p))"
    and "0 \<le> a" "a < prod_list (dim_length p)" and "0 \<le> b" "b < prod_list (dim_length p)"
    and "codes_mapping_get_lpid_from_relative c a None TORUS_LP anno 1 = Inr src"
    and "codes_mapping_get_lpid_from_relative c b None TORUS_LP anno 1 = Inr dst"
  shows "\<exists>path pos dest. torus_route c p anno (nat (sum_list (half_length p))) src dst = Some (Inr path) \<and>
    hd path = src \<and> last path = dst \<and> to_dim_id a (dim_length p) = Inr pos \<and> to_dim_id b (dim_length p) = Inr dest \<and>
    int (length path) = torus_dist (dim_length p) pos dest + 1 \<and>
    torus_dist (dim_length p) pos dest \<le> sum_list (half_length p)"
proof -
  let ?lens = "dim_length p"
  have l: "\<forall>l \<in> set ?lens. 0 < l" and h: "half_length p = map (\<lambda>l. l div 2) ?lens"
    using assms(1) by (auto simp: params_ok_def)
  let ?pos = "mixed_digits ?lens a" and ?dest = "mixed_digits ?lens b"
  have ok: "coords_ok ?lens ?pos" "coords_ok ?lens ?dest" using mixed_digits_ok [OF l] by auto
  have n: "node_lp c anno ?lens ?pos = Inr src" "node_lp c anno ?lens ?dest = Inr dst"
    using assms mixed_value_digits [OF l] by (simp_all add: node_lp_def)
  have d: "0 \<le> torus_dist ?lens ?pos ?dest" "torus_dist ?lens ?pos ?dest \<le> sum_list (half_length p)"
    using torus_dist_bounds [OF ok] h by auto
  then have "torus_dist ?lens ?pos ?dest \<le> int (nat (sum_list (half_length p)))" by simp
  from route_arrives [OF assms(1,2) ok n this] d to_dim_id_digits [OF l] assms(3,5) show ?thesis by auto
qed

definition ex_torus_conf :: config_lpgroups where
  "ex_torus_conf = \<lparr>lpgroups = [\<lparr>lpg_name = ''G'', repetitions = 6,
       lptypes = [\<lparr>lpt_name = ''server'', lpt_anno = None, lpt_count = 1\<rparr>,
                  \<lparr>lpt_name = ''modelnet_torus'', lpt_anno = None, lpt_count = 1\<rparr>]\<rparr>],
     lpannos = [], group_names = [''G''], lp_names = [''server'', ''modelnet_torus''], anno_names = []\<rparr>"

definition ex_torus_param :: torus_param where
  "ex_torus_param = \<lparr>n_dims = 2, dim_length = [3, 2], link_bandwidth = 2, buffer_size = 2048, num_vc = 1,
     chunk_size = 128, factor = [1, 3], half_length = [1, 1], head_delay = 60, credit_delay = 4,
     cn_delay = 10, router_delay = 50\<rparr>"

lemma ex_torus_numbering: "torus_numbering ex_torus_conf None 6" by code_simp

lemma ex_torus_param_ok: "params_ok ex_torus_param" by (simp add: params_ok_def ex_torus_param_def)

theorem torus_packets_arrive_witness:
  "\<exists>path. torus_route ex_torus_conf ex_torus_param None 2 1 11 = Some (Inr path) \<and> last path = 11 \<and> length path = 3"
proof -
  have "codes_mapping_get_lpid_from_relative ex_torus_conf 0 None TORUS_LP None 1 = Inr 1"
    "codes_mapping_get_lpid_from_relative ex_torus_conf 5 None TORUS_LP None 1 = Inr 11" by code_simp+
  moreover have "torus_numbering ex_torus_conf None (prod_list (dim_length ex_torus_param))"
    using ex_torus_numbering by (simp add: ex_torus_param_def)
  ultimately show ?thesis
    using torus_packets_arrive [OF ex_torus_param_ok, of ex_torus_conf None 0 5 1 11]
    by (auto simp: ex_torus_param_def c_div_def c_mod_def sgn_if ring_dist_def)
qed

end
