(* ===== verification/RC_Stack.thy ===== *)
theory RC_Stack
  imports Codes_Prelude
begin

text \<open>
  The stack of rollback data: src/util/rc-stack.c. An LP pushes data that a reverse handler will
  need; the data of events that can no longer be rolled back (older than the global virtual time,
  GVT) is freed by a collection. Entries are kept oldest first in a list of \<open>quicklist.h\<close>. The
  model is the build without the random tie breaker, where an entry carries the time of its event.
  A free function that is present frees its datum; the operations return what they free.
\<close>

datatype rc_stack_mode = RC_NONOPT | RC_OPT | RC_OPT_DBG | RC_SEQ_RV_DBG

datatype tw_synch = SEQUENTIAL | CONSERVATIVE | OPTIMISTIC | OPTIMISTIC_DEBUG | OPTIMISTIC_REALTIME
  | SEQUENTIAL_ROLLBACK_CHECK

record 'd rc_entry =
  rce_time :: real
  rce_data :: 'd
  rce_free :: bool

record 'd rc_stack =
  rcs_count :: int
  rcs_mode :: rc_stack_mode
  rcs_entries :: "'d rc_entry list"

definition rc_stack_create :: "tw_synch \<Rightarrow> 'd rc_stack" where
  "rc_stack_create g_tw_synchronization_protocol =
     \<lparr>rcs_count = 0,
      rcs_mode = (case g_tw_synchronization_protocol of OPTIMISTIC \<Rightarrow> RC_OPT | OPTIMISTIC_REALTIME \<Rightarrow> RC_OPT
        | SEQUENTIAL_ROLLBACK_CHECK \<Rightarrow> RC_SEQ_RV_DBG | OPTIMISTIC_DEBUG \<Rightarrow> RC_OPT_DBG | _ \<Rightarrow> RC_NONOPT),
      rcs_entries = []\<rparr>"

definition rc_stack_push :: "real \<Rightarrow> 'd \<Rightarrow> bool \<Rightarrow> 'd rc_stack \<Rightarrow> 'd rc_stack \<times> 'd list" where
  "rc_stack_push now data free_fn s =
     (if rcs_mode s \<noteq> RC_NONOPT \<or> \<not> free_fn
      then (s\<lparr>rcs_entries := rcs_entries s @ [\<lparr>rce_time = now, rce_data = data, rce_free = free_fn\<rparr>],
              rcs_count := rcs_count s + 1\<rparr>, [])
      else (s, [data]))"

definition rc_stack_pop :: "'d rc_stack \<Rightarrow> ('d \<times> 'd rc_stack) result" where
  "rc_stack_pop s =
     (if rcs_entries s = [] then Inl TwError
      else Inr (rce_data (last (rcs_entries s)),
                s\<lparr>rcs_entries := butlast (rcs_entries s), rcs_count := rcs_count s - 1\<rparr>))"

definition rc_stack_count :: "'d rc_stack \<Rightarrow> int" where
  "rc_stack_count s = rcs_count s"

definition freed :: "'d rc_entry \<Rightarrow> 'd list" where
  "freed r = (if rce_free r then [rce_data r] else [])"

text \<open>The two loops of the collection: until one entry is left, and as long as the oldest entry is
  older than the GVT (\<open>None\<close>: no LP, every entry).\<close>

fun gc_all_but_one :: "'d rc_entry list \<Rightarrow> int \<Rightarrow> 'd rc_entry list \<times> int \<times> 'd list" where
  "gc_all_but_one (r # r' # rs) n =
     (case gc_all_but_one (r' # rs) (n - 1) of (es, n', fs) \<Rightarrow> (es, n', freed r @ fs))"
| "gc_all_but_one rs n = (rs, n, [])"

fun gc_older :: "real option \<Rightarrow> 'd rc_entry list \<Rightarrow> int \<Rightarrow> 'd rc_entry list \<times> int \<times> 'd list" where
  "gc_older gvt [] n = ([], n, [])"
| "gc_older gvt (r # rs) n =
     (if (case gvt of None \<Rightarrow> True | Some g \<Rightarrow> rce_time r < g)
      then case gc_older gvt rs (n - 1) of (es, n', fs) \<Rightarrow> (es, n', freed r @ fs)
      else (r # rs, n, []))"

definition rc_stack_gc :: "real option \<Rightarrow> 'd rc_stack \<Rightarrow> 'd rc_stack \<times> 'd list" where
  "rc_stack_gc gvt s =
     (if rcs_mode s = RC_OPT_DBG then (s, [])
      else let (es, n, fs) = (if rcs_mode s = RC_SEQ_RV_DBG then gc_all_but_one (rcs_entries s) (rcs_count s)
                              else gc_older gvt (rcs_entries s) (rcs_count s))
           in (s\<lparr>rcs_entries := es, rcs_count := n\<rparr>, fs))"

text \<open>What \<open>rc_stack_destroy\<close> frees before it frees the stack itself.\<close>

definition rc_stack_destroy :: "'d rc_stack \<Rightarrow> 'd list" where
  "rc_stack_destroy s = snd (rc_stack_gc None s)"

subsection \<open>Runs\<close>

text \<open>The life of an optimistic LP: an event at time \<open>t\<close> pushes its datum, a rollback of the newest
  event pops it, a collection runs at some GVT.\<close>

datatype 'd rc_step = Push real 'd bool | Pop | Gc real

text \<open>The run on the stack: the data popped and the data freed, in order.\<close>

fun run_stack :: "'d rc_step list \<Rightarrow> 'd rc_stack \<Rightarrow> ('d list \<times> 'd list \<times> 'd rc_stack) result" where
  "run_stack [] s = Inr ([], [], s)"
| "run_stack (Push t d f # xs) s =
     (case rc_stack_push t d f s of (s', fs) \<Rightarrow>
        bind_res (run_stack xs s') (\<lambda>(ps, gs, s''). Inr (ps, fs @ gs, s'')))"
| "run_stack (Pop # xs) s =
     bind_res (rc_stack_pop s) (\<lambda>(d, s').
     bind_res (run_stack xs s') (\<lambda>(ps, gs, s''). Inr (d # ps, gs, s'')))"
| "run_stack (Gc g # xs) s =
     (case rc_stack_gc (Some g) s of (s', fs) \<Rightarrow>
        bind_res (run_stack xs s') (\<lambda>(ps, gs, s''). Inr (ps, fs @ gs, s'')))"

text \<open>The same run on the events themselves, newest first: every event that was not rolled back, with
  its datum. A legal run only rolls back events that are not older than the GVT, which never
  decreases.\<close>

fun legal_run :: "'d rc_step list \<Rightarrow> (real \<times> 'd \<times> bool) list \<Rightarrow> real \<Rightarrow> bool" where
  "legal_run [] h gvt = True"
| "legal_run (Push t d f # xs) h gvt = legal_run xs ((t, d, f) # h) gvt"
| "legal_run (Pop # xs) h gvt = (case h of [] \<Rightarrow> False | (t, d, f) # h' \<Rightarrow> gvt \<le> t \<and> legal_run xs h' gvt)"
| "legal_run (Gc g # xs) h gvt = (gvt \<le> g \<and> legal_run xs h g)"

fun spec_pops :: "'d rc_step list \<Rightarrow> (real \<times> 'd \<times> bool) list \<Rightarrow> 'd list" where
  "spec_pops [] h = []"
| "spec_pops (Push t d f # xs) h = spec_pops xs ((t, d, f) # h)"
| "spec_pops (Pop # xs) h = fst (snd (hd h)) # spec_pops xs (tl h)"
| "spec_pops (Gc g # xs) h = spec_pops xs h"

fun spec_history :: "'d rc_step list \<Rightarrow> (real \<times> 'd \<times> bool) list \<Rightarrow> (real \<times> 'd \<times> bool) list" where
  "spec_history [] h = h"
| "spec_history (Push t d f # xs) h = spec_history xs ((t, d, f) # h)"
| "spec_history (Pop # xs) h = spec_history xs (tl h)"
| "spec_history (Gc g # xs) h = spec_history xs h"

subsection \<open>The stack holds the end of the history\<close>

definition entry_of :: "real \<times> 'd \<times> bool \<Rightarrow> 'd rc_entry" where
  "entry_of x = \<lparr>rce_time = fst x, rce_data = fst (snd x), rce_free = snd (snd x)\<rparr>"

lemma entry_of_fields [simp]:
  "rce_time (entry_of x) = fst x" "rce_data (entry_of x) = fst (snd x)" "rce_free (entry_of x) = snd (snd x)"
  by (simp_all add: entry_of_def)

definition freed_of :: "(real \<times> 'd \<times> bool) list \<Rightarrow> 'd list" where
  "freed_of h = concat (map (\<lambda>x. if snd (snd x) then [fst (snd x)] else []) (rev h))"

text \<open>The history is what is kept, before what was freed; what was freed is older than the GVT.\<close>

definition holds_history :: "'d rc_stack \<Rightarrow> (real \<times> 'd \<times> bool) list \<Rightarrow> (real \<times> 'd \<times> bool) list \<Rightarrow> real \<Rightarrow> bool" where
  "holds_history s kept old gvt \<longleftrightarrow> rcs_mode s = RC_OPT \<and> rcs_count s = int (length kept) \<and>
     rcs_entries s = map entry_of (rev kept) \<and> (\<forall>x \<in> set old. fst x < gvt)"

lemma gc_older_split:
  "\<exists>es fs. gc_older (Some g) (map entry_of h) n = (map entry_of fs, n - int (length es), freed_of (rev es)) \<and>
     h = es @ fs \<and> (\<forall>x \<in> set es. fst x < g)"
proof (induction h arbitrary: n)
  case (Cons x h)
  show ?case
  proof (cases "fst x < g")
    case True
    obtain es fs where "gc_older (Some g) (map entry_of h) (n - 1) = (map entry_of fs, n - 1 - int (length es), freed_of (rev es))"
      "h = es @ fs" "\<forall>x \<in> set es. fst x < g" using Cons [of "n - 1"] by blast
    then show ?thesis using True
      by (intro exI [of _ fs] exI [of _ "x # es"]) (auto simp: freed_of_def freed_def)
  qed (auto simp: freed_of_def intro!: exI [of _ "[]"])
qed (simp add: freed_of_def)

lemma gc_keeps_history:
  assumes "holds_history s kept old gvt" and "gvt \<le> g"
  shows "\<exists>s' kept' new. rc_stack_gc (Some g) s = (s', freed_of new) \<and> kept = kept' @ new \<and>
    holds_history s' kept' (new @ old) g"
proof -
  obtain es fs where e: "gc_older (Some g) (map entry_of (rev kept)) (rcs_count s) =
      (map entry_of fs, rcs_count s - int (length es), freed_of (rev es))" "rev kept = es @ fs" "\<forall>x \<in> set es. fst x < g"
    using gc_older_split by blast
  have "length kept = length es + length fs" using arg_cong [OF e(2), of length] by simp
  moreover have "kept = rev fs @ rev es" using arg_cong [OF e(2), of rev] by simp
  moreover have "holds_history (s\<lparr>rcs_entries := map entry_of fs, rcs_count := rcs_count s - int (length es)\<rparr>)
      (rev fs) (rev es @ old) g"
    using assms e(3) calculation by (auto simp: holds_history_def)
  moreover have "rc_stack_gc (Some g) s =
      (s\<lparr>rcs_entries := map entry_of fs, rcs_count := rcs_count s - int (length es)\<rparr>, freed_of (rev es))"
    using assms(1) e(1) by (simp add: holds_history_def rc_stack_gc_def)
  ultimately show ?thesis by blast
qed

definition run_serves :: "'d rc_step list \<Rightarrow> 'd rc_stack \<Rightarrow> (real \<times> 'd \<times> bool) list \<Rightarrow> (real \<times> 'd \<times> bool) list \<Rightarrow> bool" where
  "run_serves xs s h old \<longleftrightarrow> (\<exists>s' kept new gvt. run_stack xs s = Inr (spec_pops xs h, freed_of new, s') \<and>
     spec_history xs h = kept @ new @ old \<and> holds_history s' kept (new @ old) gvt)"

lemma run_servesI:
  "run_stack xs s = Inr (spec_pops xs h, freed_of new, s') \<Longrightarrow> spec_history xs h = kept @ new @ old \<Longrightarrow>
    holds_history s' kept (new @ old) gvt \<Longrightarrow> run_serves xs s h old"
  by (auto simp: run_serves_def)

lemma run_stack_history:
  assumes "legal_run xs (kept @ old) gvt" and "holds_history s kept old gvt"
  shows "run_serves xs s (kept @ old) old"
  using assms
proof (induction xs arbitrary: kept old gvt s)
  case Nil
  then show ?case by (intro run_servesI [of _ _ _ "[]"]) (auto simp: freed_of_def)
next
  case (Cons x xs)
  show ?case
  proof (cases x)
    case (Push t d f)
    let ?s = "s\<lparr>rcs_entries := rcs_entries s @ [\<lparr>rce_time = t, rce_data = d, rce_free = f\<rparr>], rcs_count := rcs_count s + 1\<rparr>"
    have p: "rc_stack_push t d f s = (?s, [])" using Cons.prems(2) by (simp add: rc_stack_push_def holds_history_def)
    have "holds_history ?s ((t, d, f) # kept) old gvt" using Cons.prems(2) by (simp add: holds_history_def entry_of_def)
    from Cons.IH [OF _ this] Cons.prems(1) Push have "run_serves xs ?s ((t, d, f) # kept @ old) old" by simp
    then obtain s2 kept2 new2 gvt2 where "run_stack xs ?s = Inr (spec_pops xs ((t, d, f) # kept @ old), freed_of new2, s2)"
      "spec_history xs ((t, d, f) # kept @ old) = kept2 @ new2 @ old" "holds_history s2 kept2 (new2 @ old) gvt2"
      unfolding run_serves_def by blast
    with p Push show ?thesis by (intro run_servesI [of _ _ _ new2 s2 kept2 _ gvt2]) auto
  next
    case Pop
    obtain t d f h where h: "kept @ old = (t, d, f) # h" "gvt \<le> t" "legal_run xs h gvt"
      using Cons.prems(1) Pop by (auto split: list.splits)
    obtain kept' where k: "kept = (t, d, f) # kept'" "h = kept' @ old"
      using h(1,2) Cons.prems(2) by (cases kept) (fastforce simp: holds_history_def)+
    let ?s = "s\<lparr>rcs_entries := butlast (rcs_entries s), rcs_count := rcs_count s - 1\<rparr>"
    have p: "rc_stack_pop s = Inr (d, ?s)" and hh: "holds_history ?s kept' old gvt"
      using Cons.prems(2) k(1) by (simp_all add: rc_stack_pop_def holds_history_def)
    from Cons.IH [OF _ hh] h(3) k have "run_serves xs ?s h old" by simp
    then obtain s2 kept2 new2 gvt2 where "run_stack xs ?s = Inr (spec_pops xs h, freed_of new2, s2)"
      "spec_history xs h = kept2 @ new2 @ old" "holds_history s2 kept2 (new2 @ old) gvt2"
      unfolding run_serves_def by blast
    with p Pop k show ?thesis by (intro run_servesI [of _ _ _ new2 s2 kept2 _ gvt2]) auto
  next
    case (Gc g)
    then have g: "gvt \<le> g" "legal_run xs (kept @ old) g" using Cons.prems(1) by auto
    obtain s' kept' new where s': "rc_stack_gc (Some g) s = (s', freed_of new)" "kept = kept' @ new"
      "holds_history s' kept' (new @ old) g" using gc_keeps_history [OF Cons.prems(2) g(1)] by blast
    from Cons.IH [OF _ s'(3)] g(2) s'(2) have "run_serves xs s' (kept @ old) (new @ old)" by simp
    then obtain s2 kept2 new2 gvt2 where r: "run_stack xs s' = Inr (spec_pops xs (kept @ old), freed_of new2, s2)"
      "spec_history xs (kept @ old) = kept2 @ new2 @ new @ old" "holds_history s2 kept2 (new2 @ new @ old) gvt2"
      by (auto simp: run_serves_def)
    have "freed_of new @ freed_of new2 = freed_of (new2 @ new)" by (simp add: freed_of_def)
    with r s'(1) Gc show ?thesis by (intro run_servesI [of _ _ _ "new2 @ new" s2 kept2 _ gvt2]) auto
  qed
qed

subsection \<open>Properties\<close>

text \<open>C29: The rollback stack never loses data that a rollback needs: in every run of an optimistic LP
  in which rollbacks do not go behind the GVT, every pop finds the datum of the event it rolls
  back, whatever the collections in between freed; and what the collections freed is exactly the
  data, in order, of a beginning of the history of events that were not rolled back, so that
  nothing is freed twice and no popped datum is freed.\<close>

theorem rc_stack_serves_rollbacks:
  assumes "legal_run xs [] gvt"
  shows "\<exists>fs s kept old. run_stack xs (rc_stack_create OPTIMISTIC) = Inr (spec_pops xs [], fs, s) \<and>
    spec_history xs [] = kept @ old \<and> fs = freed_of old \<and> rc_stack_count s = int (length kept)"
proof -
  have "holds_history (rc_stack_create OPTIMISTIC) [] [] gvt" by (simp add: holds_history_def rc_stack_create_def)
  from run_stack_history [OF _ this] assms show ?thesis by (fastforce simp: rc_stack_count_def holds_history_def run_serves_def)
qed

theorem rc_stack_serves_rollbacks_witness:
  "\<exists>fs s kept old.
     run_stack [Push 1 ''a'' True, Push 3 ''b'' True, Gc 2, Push 4 ''c'' True, Pop, Pop] (rc_stack_create OPTIMISTIC) =
       Inr ([''c'', ''b''], fs, s) \<and> [(1, ''a'', True)] = kept @ old \<and> fs = freed_of old \<and> rc_stack_count s = int (length kept)"
  using rc_stack_serves_rollbacks [of "[Push 1 ''a'' True, Push 3 ''b'' True, Gc 2, Push 4 ''c'' True, Pop, Pop]" 0] by simp

text \<open>In the debug modes \<open>rc_stack_destroy\<close> frees less than it holds.\<close>

lemma destroy_keeps_data:
  "rc_stack_destroy (fst (rc_stack_push 1 d True (rc_stack_create OPTIMISTIC_DEBUG))) = []"
  "rc_stack_destroy (fst (rc_stack_push 1 d True (rc_stack_create SEQUENTIAL_ROLLBACK_CHECK))) = []"
  by (simp_all add: rc_stack_destroy_def rc_stack_push_def rc_stack_create_def rc_stack_gc_def)

end
