(* ===== verification/Torus.thy ===== *)
theory Torus
  imports Torus_Routing RC_Stack
begin

text \<open>
  The torus network, src/networks/model-net/torus.c: nodes that cut packets into chunks and
  forward them under bubble flow control, their event handlers and reverse handlers, and the
  tree for collective operations. Routing is in theory \<open>Torus_Routing\<close>.

  The doubly linked message lists of the file are HOL lists, one per queue; a queue is a link
  (dimension and direction), and \<open>num_vc\<close> is 1, so that the only virtual channel is \<open>STATICQ\<close>. An
  LP draws from two random streams: \<open>codes_local_latency\<close> from the last one (theory
  \<open>Codes_Prelude\<close>), \<open>tw_rand_unif\<close> and \<open>tw_rand_exponential\<close> from the first; \<open>unif_draws\<close> is its
  position.
\<close>

subsection \<open>Data\<close>

record nodes_message =
  tm_category :: string
  travel_start_time :: tw_stime
  saved_available_time :: tw_stime
  saved_collective_init_time :: tw_stime
  saved_recv_time :: tw_stime
  saved_total_time :: tw_stime
  saved_busy_time :: tw_stime
  packet_ID :: u64
  tm_type :: int
  tm_final_dest_gid :: int
  tm_dest_lp :: int
  sender_svr :: int
  sender_node :: int
  my_N_hop :: int
  source_dim :: int
  source_direction :: int
  next_stop :: int
  tm_packet_size :: u64
  saved_fan_nodes :: int
  source_channel :: int
  saved_queue :: int
  chunk_id :: u64
  tm_event_rc :: int
  tm_is_pull :: int
  tm_pull_size :: u64
  tm_local_event_size_bytes :: int
  tm_remote_event_size_bytes :: int

definition GENERATE :: int where "GENERATE = 1"
definition ARRIVAL :: int where "ARRIVAL = 2"
definition SEND :: int where "SEND = 3"
definition CREDIT :: int where "CREDIT = 4"
definition T_COLLECTIVE_INIT :: int where "T_COLLECTIVE_INIT = 5"
definition T_COLLECTIVE_FAN_IN :: int where "T_COLLECTIVE_FAN_IN = 6"
definition T_COLLECTIVE_FAN_OUT :: int where "T_COLLECTIVE_FAN_OUT = 7"

lemmas torus_types = GENERATE_def ARRIVAL_def SEND_def CREDIT_def T_COLLECTIVE_INIT_def
  T_COLLECTIVE_FAN_IN_def T_COLLECTIVE_FAN_OUT_def

text \<open>\<open>nodes_message_list\<close>: a chunk in a queue.\<close>

record chunk =
  ck_msg :: nodes_message
  ck_event_data :: "bytes option"

definition init_nodes_message_list :: "nodes_message \<Rightarrow> chunk" where
  "init_nodes_message_list inmsg = \<lparr>ck_msg = inmsg, ck_event_data = None\<rparr>"

record nodes_state =
  packet_counter :: u64
  next_link_available_time :: "tw_stime list"
  buffer :: "int list"
  terminal_msgs :: "chunk list list"
  all_term_length :: int
  terminal_length :: "int list"
  queued_length :: "int list"
  pending_msgs :: "chunk list list"
  queued_msgs :: "chunk list list"
  other_msgs :: "chunk list list"
  in_send_loop :: "int list"
  link_traffic :: "int list"
  place :: torus_place
  torus_stats_array :: "mn_stats list"
  collective_init_time :: tw_stime
  node_id :: int
  origin_svr :: int
  parent_node_id :: int
  children :: "int list"
  num_children :: int
  is_root :: bool
  is_leaf :: bool
  num_fan_nodes :: int
  ts_st :: "chunk rc_stack"
  finished_chunks :: int
  finished_packets :: int
  ts_total_hops :: int
  ts_total_time :: tw_stime
  total_data_sz :: int
  busy_time :: "tw_stime list"
  last_buf_full :: "tw_stime list"

text \<open>The statistics that all nodes of a process share.\<close>

record torus_globals =
  tg_total_time :: tw_stime
  tg_max_latency :: tw_stime
  max_collective :: tw_stime
  N_finished_packets :: int
  tg_total_hops :: int

text \<open>What a handler finds around it: the environment of model-net, the look-ahead of ROSS, the
  values of the random numbers and the buffer of a new event.\<close>

record torus_env =
  te_env :: mn_env
  g_tw_lookahead :: tw_stime
  te_unif :: "int \<Rightarrow> real"
  te_exp :: "int \<Rightarrow> real \<Rightarrow> real"
  te_buf :: nodes_message

record torus_lp =
  tl_lp :: tw_lp
  unif_draws :: int

definition latency :: "torus_env \<Rightarrow> torus_lp \<Rightarrow> tw_stime \<times> torus_lp" where
  "latency env lp = (let (d, l) = codes_local_latency (tl_lp lp) in (me_lat (te_env env) d, lp\<lparr>tl_lp := l\<rparr>))"

definition latency_reverse :: "torus_lp \<Rightarrow> torus_lp" where
  "latency_reverse lp = lp\<lparr>tl_lp := codes_local_latency_reverse (tl_lp lp)\<rparr>"

definition rand_reverse :: "torus_lp \<Rightarrow> torus_lp" where
  "rand_reverse lp = lp\<lparr>unif_draws := unif_draws lp - 1\<rparr>"

lemma latency_reverse_latency [simp]: "latency_reverse (snd (latency env lp)) = lp"
  by (simp add: latency_def latency_reverse_def split_beta)

datatype torus_out =
    TorusMsg (to_dest: int) (to_delay: tw_stime) (to_msg: nodes_message) (to_data: bytes)
  | TorusUser (to_dest: int) (to_delay: tw_stime) (to_data: bytes)
  | TorusNet (to_event: mn_event)

record torus_bf = tw_bf +
  c4 :: bool
  c5 :: bool
  c6 :: bool
  c8 :: bool
  c9 :: bool
  c10 :: bool
  c11 :: bool
  c13 :: bool
  c20 :: bool
  c21 :: bool
  c24 :: bool

definition tbf_clear :: torus_bf where
  "tbf_clear = \<lparr>c0 = False, c1 = False, c2 = False, c3 = False, c30 = False, c31 = False, c4 = False,
     c5 = False, c6 = False, c8 = False, c9 = False, c10 = False, c11 = False, c13 = False, c20 = False,
     c21 = False, c24 = False\<rparr>"

subsection \<open>Message lists\<close>

definition append_to_node_message_list :: "chunk list list \<Rightarrow> nat \<Rightarrow> chunk \<Rightarrow> chunk list list" where
  "append_to_node_message_list qs i x = qs[i := qs ! i @ [x]]"

definition prepend_to_node_message_list :: "chunk list list \<Rightarrow> nat \<Rightarrow> chunk \<Rightarrow> chunk list list" where
  "prepend_to_node_message_list qs i x = qs[i := x # qs ! i]"

definition return_head :: "chunk list list \<Rightarrow> nat \<Rightarrow> chunk list list \<times> chunk option" where
  "return_head qs i = (case qs ! i of [] \<Rightarrow> (qs, None) | x # xs \<Rightarrow> (qs[i := xs], Some x))"

definition return_tail :: "chunk list list \<Rightarrow> nat \<Rightarrow> (chunk list list \<times> chunk) result" where
  "return_tail qs i = (if qs ! i = [] then Inl NullDeref else Inr (qs[i := butlast (qs ! i)], last (qs ! i)))"

lemmas message_lists = append_to_node_message_list_def prepend_to_node_message_list_def
  return_head_def return_tail_def

subsection \<open>Packets and credits\<close>

text \<open>The index of a queue.\<close>

definition queue_index :: "torus_place \<Rightarrow> int \<Rightarrow> int \<Rightarrow> nat result" where
  "queue_index pl dir dm =
     (let q = dir + dm * 2 in
      if 0 \<le> q \<and> q < 2 * n_dims (tp_params pl) then Inr (nat q) else Inl OutOfBounds)"

definition csize :: "nodes_state \<Rightarrow> int" where
  "csize s = chunk_size (tp_params (place s))"

definition chunks_of :: "nodes_state \<Rightarrow> u64 \<Rightarrow> u64 result" where
  "chunks_of s sz =
     (let cs = word_of_int (csize s) :: u64 in
      if cs = 0 then Inl DivByZero
      else let n = sz div cs; n = (if sz mod cs \<noteq> 0 then n + 1 else n) in Inr (if n = 0 then 1 else n))"

definition torus_packet_event ::
    "tw_stime \<Rightarrow> nodes_message \<Rightarrow> mn_call \<Rightarrow> tw_lp \<Rightarrow> (int \<times> tw_lp \<times> nodes_message \<times> bytes) result" where
  "torus_packet_event now msg0 call sender =
     (let (xfer, sender') = codes_local_latency sender; req = pk_req call; is_last = pk_last call;
          has_remote = (is_last \<and> remote_event_size req > 0);
          has_self = (is_last \<and> self_event_size req > 0);
          msg = msg0\<lparr>tm_category := category req, tm_final_dest_gid := final_dest_lp req,
                     tm_dest_lp := dest_mn_lp req, sender_svr := src_lp req, sender_node := gid sender,
                     tm_packet_size := pk_size call, travel_start_time := now,
                     tm_remote_event_size_bytes := (if has_remote then remote_event_size req else 0),
                     tm_local_event_size_bytes := (if has_self then self_event_size req else 0),
                     chunk_id := 0, tm_type := GENERATE, tm_is_pull := is_pull req,
                     tm_pull_size := pull_size req\<rparr> in
      bind_res (if has_remote then memcpy (pk_remote call) (remote_event_size req) else Inr []) (\<lambda>re.
      bind_res (if has_self then memcpy (pk_local call) (self_event_size req) else Inr []) (\<lambda>le.
        Inr (xfer, sender', msg, re @ le))))"

definition torus_packet_event_rc :: "tw_lp \<Rightarrow> tw_lp" where
  "torus_packet_event_rc sender = codes_local_latency_reverse sender"

definition torus_method :: "(int \<Rightarrow> tw_stime) \<Rightarrow> (tw_lp, tw_stime) model_net_method" where
  "torus_method lat =
     \<lparr>mn_packet_event = (\<lambda>c lp. let (d, lp') = codes_local_latency lp in (lat d, lp')),
      mn_packet_event_rc = torus_packet_event_rc,
      mn_recv_msg_event = None, mn_recv_msg_event_rc = None\<rparr>"

text \<open>\<open>credit_send\<close>: \<open>saved\<close> is \<open>sq != -1\<close>, the credit is for the queue that the chunk came from.\<close>

definition credit_send ::
    "torus_env \<Rightarrow> nodes_state \<Rightarrow> nodes_message \<Rightarrow> bool \<Rightarrow> torus_lp \<Rightarrow> torus_lp \<times> torus_out" where
  "credit_send env s msg saved lp =
     (let ts = 11 / 10 * g_tw_lookahead env + credit_delay (tp_params (place s)) + te_unif env (unif_draws lp);
          m = (te_buf env)\<lparr>source_direction := (if saved then c_mod (saved_queue msg) 2 else source_direction msg),
                           source_dim := (if saved then c_div (saved_queue msg) 2 else source_dim msg),
                           tm_type := CREDIT\<rparr>
      in (lp\<lparr>unif_draws := unif_draws lp + 1\<rparr>, TorusMsg (sender_node msg) ts m []))"

lemma credit_send_lp [simp]: "rand_reverse (fst (credit_send env s msg b lp)) = lp"
  by (simp add: credit_send_def rand_reverse_def Let_def)

text \<open>The event that starts or continues the send loop of a queue.\<close>

definition send_event :: "torus_env \<Rightarrow> int \<Rightarrow> int \<Rightarrow> tw_stime \<Rightarrow> torus_lp \<Rightarrow> torus_out" where
  "send_event env dir dm ts lp =
     TorusMsg (gid (tl_lp lp)) ts ((te_buf env)\<lparr>tm_type := SEND, source_direction := dir, source_dim := dm\<rparr>) []"

text \<open>The end of three handlers: a link that is not in its send loop enters it. The second component
  tells whether it did; \<open>extra\<close> is a delay of the first event.\<close>

definition wake ::
    "torus_env \<Rightarrow> int \<Rightarrow> int \<Rightarrow> nat \<Rightarrow> tw_stime \<Rightarrow> nodes_state \<Rightarrow> torus_lp \<Rightarrow>
     nodes_state \<times> bool \<times> torus_lp \<times> torus_out list" where
  "wake env dir dm q extra s lp =
     (if in_send_loop s ! q = 0
      then let (lat, lp1) = latency env lp in
           (s\<lparr>in_send_loop := (in_send_loop s)[q := 1]\<rparr>, True, lp1, [send_event env dir dm (lat + extra) lp])
      else (s, False, lp, []))"

definition wake_rc :: "bool \<Rightarrow> nat \<Rightarrow> nodes_state \<Rightarrow> torus_lp \<Rightarrow> nodes_state \<times> torus_lp" where
  "wake_rc woken q s lp =
     (if woken then (s\<lparr>in_send_loop := (in_send_loop s)[q := 0]\<rparr>, latency_reverse lp) else (s, lp))"

subsection \<open>Generation of packets\<close>

text \<open>The copy of the remote and the local event that every chunk carries.\<close>

definition chunk_data :: "nodes_message \<Rightarrow> bytes \<Rightarrow> bytes option result" where
  "chunk_data msg data =
     (let rsz = tm_remote_event_size_bytes msg; lsz = tm_local_event_size_bytes msg in
      if rsz + lsz > 0
      then bind_res (memcpy (Some data) rsz) (\<lambda>re.
           bind_res (memcpy (Some (drop (nat rsz) data)) lsz) (\<lambda>le. Inr (Some (re @ le))))
      else if rsz \<noteq> 0 \<or> lsz \<noteq> 0 then Inl NullDeref else Inr None)"

fun generate_chunks :: "nodes_message \<Rightarrow> bytes option \<Rightarrow> nat \<Rightarrow> nat list \<Rightarrow> nodes_state \<Rightarrow> nodes_state" where
  "generate_chunks msg ed q [] s = s"
| "generate_chunks msg ed q (j # js) s =
     (let ck = (init_nodes_message_list msg)\<lparr>ck_event_data := ed\<rparr>;
          ck' = ck\<lparr>ck_msg := (ck_msg ck)\<lparr>chunk_id := of_nat j\<rparr>\<rparr> in
      generate_chunks msg ed q js
        (s\<lparr>terminal_msgs := append_to_node_message_list (terminal_msgs s) q ck',
           terminal_length := (terminal_length s)[q := terminal_length s ! q + csize s],
           all_term_length := all_term_length s + csize s\<rparr>))"

definition send_stat :: "real \<Rightarrow> u64 \<Rightarrow> int \<Rightarrow> mn_stats \<Rightarrow> mn_stats" where
  "send_stat bw sz total_event_size stat =
     stat\<lparr>send_count := send_count stat + 1, send_bytes := send_bytes stat + int (unat sz),
          send_time := send_time stat + (1 / bw) * real (unat sz),
          max_event_size := (if max_event_size stat < total_event_size then total_event_size
                             else max_event_size stat)\<rparr>"

definition packet_generate ::
    "torus_env \<Rightarrow> int \<Rightarrow> nodes_state \<Rightarrow> torus_bf \<Rightarrow> nodes_message \<Rightarrow> bytes \<Rightarrow> torus_lp \<Rightarrow>
     (nodes_state \<times> torus_bf \<times> nodes_message \<times> torus_lp \<times> torus_out list) result" where
  "packet_generate env wrap_size s b msg data lp =
     bind_res (dimension_order_routing (me_conf (te_env env)) (place s) (tm_dest_lp msg)) (\<lambda>(nxt, dm, dir).
     bind_res (queue_index (place s) dir dm) (\<lambda>q.
     bind_res (chunks_of s (tm_packet_size msg)) (\<lambda>n.
     bind_res (chunk_data msg data) (\<lambda>ed.
     bind_res (model_net_find_stats (tm_category msg) (torus_stats_array s)) (\<lambda>(i, arr).
     let p = tp_params (place s);
         msg1 = msg\<lparr>packet_ID := packet_counter s, my_N_hop := 0, source_direction := dir, source_dim := dm,
                    next_stop := nxt, saved_queue := -1\<rparr>;
         s1 = generate_chunks msg1 ed q [0..<unat n] (s\<lparr>packet_counter := packet_counter s + 1\<rparr>);
         (s2, woken, lp2, outs) = wake env dir dm q (cn_delay p * real (unat (tm_packet_size msg))) s1 lp;
         total_event_size = wrap_size + tm_remote_event_size_bytes msg + tm_local_event_size_bytes msg;
         arr' = arr[i := send_stat (link_bandwidth p) (tm_packet_size msg) total_event_size (arr ! i)]
     in Inr (s2\<lparr>torus_stats_array := arr'\<rparr>, b\<lparr>c8 := woken\<rparr>, msg1, lp2, outs))))))"

fun drop_chunks :: "nat \<Rightarrow> nat \<Rightarrow> nodes_state \<Rightarrow> nodes_state result" where
  "drop_chunks q 0 s = Inr s"
| "drop_chunks q (Suc n) s =
     bind_res (return_tail (terminal_msgs s) q) (\<lambda>(qs, ck).
       drop_chunks q n
         (s\<lparr>terminal_msgs := qs, terminal_length := (terminal_length s)[q := terminal_length s ! q - csize s],
            all_term_length := all_term_length s - csize s\<rparr>))"

definition packet_generate_rc ::
    "nodes_state \<Rightarrow> torus_bf \<Rightarrow> nodes_message \<Rightarrow> torus_lp \<Rightarrow> (nodes_state \<times> torus_lp) result" where
  "packet_generate_rc s b msg lp =
     bind_res (queue_index (place s) (source_direction msg) (source_dim msg)) (\<lambda>q.
     bind_res (chunks_of s (tm_packet_size msg)) (\<lambda>n.
     bind_res (drop_chunks q (unat n) (s\<lparr>packet_counter := packet_counter s - 1\<rparr>)) (\<lambda>s1.
     let (s2, lp2) = wake_rc (c8 b) q s1 lp in
     bind_res (model_net_find_stats (tm_category msg) (torus_stats_array s2)) (\<lambda>(i, arr).
       let stat = arr ! i;
           stat' = stat\<lparr>send_count := send_count stat - 1,
                        send_bytes := send_bytes stat - int (unat (tm_packet_size msg)),
                        send_time := send_time stat -
                          (1 / link_bandwidth (tp_params (place s))) * real (unat (tm_packet_size msg))\<rparr>
       in Inr (s2\<lparr>torus_stats_array := arr[i := stat']\<rparr>, lp2)))))"

subsection \<open>Sending over a link\<close>

definition maxd :: "real \<Rightarrow> real \<Rightarrow> real" where
  "maxd a b = (if a < b then b else a)"

definition link_bytes :: "nodes_state \<Rightarrow> nodes_message \<Rightarrow> u64 \<Rightarrow> bool \<times> int" where
  "link_bytes s m n =
     (let r = tm_packet_size m mod word_of_int (csize s) in
      if r \<noteq> 0 \<and> chunk_id m = n - 1 then (True, int (unat r)) else (False, csize s))"

text \<open>The last part of \<open>packet_send\<close>: a chunk \<open>cur\<close>, taken from the terminal queue or not, leaves over
  the link of queue \<open>q\<close>.\<close>

definition send_chunk ::
    "torus_env \<Rightarrow> nat \<Rightarrow> bool \<Rightarrow> chunk \<Rightarrow> nodes_state \<Rightarrow> torus_bf \<Rightarrow> nodes_message \<Rightarrow> torus_lp \<Rightarrow>
     (nodes_state \<times> torus_bf \<times> nodes_message \<times> torus_lp \<times> torus_out list) result" where
  "send_chunk env q isT cur s b msg lp =
     bind_res (chunks_of s (tm_packet_size (ck_msg cur))) (\<lambda>n.
     let p = tp_params (place s); now = me_now (te_env env); m = ck_msg cur;
         (lat, lp1) = latency env lp;
         old = next_link_available_time s ! q;
         avail = maxd old now + (lat + head_delay p + router_delay p);
         ts = avail - now;
         (c20v, traffic) = link_bytes s m n;
         has_local = (chunk_id m = n - 1 \<and> tm_local_event_size_bytes m > 0);
         (lat2, lp2) = (if has_local then latency env lp1 else (0, lp1));
         s1 = s\<lparr>next_link_available_time := (next_link_available_time s)[q := avail],
                link_traffic := (link_traffic s)[q := link_traffic s ! q + traffic]\<rparr>;
         s2 = (if isT
               then s1\<lparr>terminal_msgs := fst (return_head (terminal_msgs s1) q),
                       terminal_length := (terminal_length s1)[q := terminal_length s1 ! q - csize s],
                       all_term_length := all_term_length s1 - csize s\<rparr>
               else s1\<lparr>pending_msgs := fst (return_head (pending_msgs s1) q)\<rparr>);
         s3 = s2\<lparr>ts_st := fst (rc_stack_push now cur True (ts_st s2))\<rparr>;
         more_chunks = (if isT then terminal_msgs s3 ! q \<noteq> []
                        else pending_msgs s3 ! q \<noteq> [] \<or> terminal_msgs s3 ! q \<noteq> []);
         b1 = b\<lparr>c20 := c20v, c21 := \<not> c20v, c6 := has_local, c31 := isT, c8 := \<not> isT, c9 := more_chunks,
                c10 := \<not> more_chunks\<rparr>;
         (lat3, lp3) = (if more_chunks then latency env lp2 else (0, lp2));
         s4 = (if more_chunks then s3 else s3\<lparr>in_send_loop := (in_send_loop s3)[q := 0]\<rparr>) in
     bind_res (if tm_remote_event_size_bytes m \<noteq> 0
               then memcpy (ck_event_data cur) (tm_remote_event_size_bytes m) else Inr []) (\<lambda>re.
     bind_res (if has_local
               then memcpy (map_option (drop (nat (tm_remote_event_size_bytes m))) (ck_event_data cur))
                      (tm_local_event_size_bytes m) else Inr []) (\<lambda>le.
       Inr (s4, b1, msg\<lparr>saved_available_time := old\<rparr>, lp3,
            [TorusMsg (next_stop m) ts
               (m\<lparr>tm_type := ARRIVAL, sender_node := gid (tl_lp lp), tm_local_event_size_bytes := 0\<rparr>) re] @
            (if has_local then [TorusUser (sender_svr m) lat2 le] else []) @
            (if more_chunks then [send_event env (source_direction msg) (source_dim msg) (ts + lat3) lp] else [])))))"

definition packet_send ::
    "torus_env \<Rightarrow> nodes_state \<Rightarrow> torus_bf \<Rightarrow> nodes_message \<Rightarrow> torus_lp \<Rightarrow>
     (nodes_state \<times> torus_bf \<times> nodes_message \<times> torus_lp \<times> torus_out list) result" where
  "packet_send env s b msg lp =
     bind_res (queue_index (place s) (source_direction msg) (source_dim msg)) (\<lambda>q.
     case pending_msgs s ! q of
       cur # rest \<Rightarrow> send_chunk env q False cur s b msg lp
     | [] \<Rightarrow>
         (case terminal_msgs s ! q of
            [] \<Rightarrow> Inr (s\<lparr>in_send_loop := (in_send_loop s)[q := 0]\<rparr>, b\<lparr>c1 := True\<rparr>, msg, lp, [])
          | cur # rest \<Rightarrow>
              if buffer s ! q + 2 * csize s \<le> buffer_size (tp_params (place s))
              then send_chunk env q True cur (s\<lparr>buffer := (buffer s)[q := buffer s ! q + csize s]\<rparr>)
                     (b\<lparr>c3 := True\<rparr>) msg lp
              else let full = (queued_msgs s ! q \<noteq> [] \<and> last_buf_full s ! q = 0);
                       s1 = s\<lparr>in_send_loop := (in_send_loop s)[q := 0]\<rparr> in
                   if full
                   then Inr (s1\<lparr>last_buf_full := (last_buf_full s)[q := me_now (te_env env)]\<rparr>,
                             b\<lparr>c4 := True, c24 := True\<rparr>, msg\<lparr>saved_busy_time := last_buf_full s ! q\<rparr>, lp, [])
                   else Inr (s1, b\<lparr>c4 := True\<rparr>, msg, lp, [])))"

definition packet_send_rc ::
    "nodes_state \<Rightarrow> torus_bf \<Rightarrow> nodes_message \<Rightarrow> torus_lp \<Rightarrow> (nodes_state \<times> torus_lp) result" where
  "packet_send_rc s b msg lp =
     bind_res (queue_index (place s) (source_direction msg) (source_dim msg)) (\<lambda>q.
     if c1 b \<or> c4 b
     then Inr (s\<lparr>last_buf_full := (if c24 b then (last_buf_full s)[q := saved_busy_time msg] else last_buf_full s),
                 in_send_loop := (in_send_loop s)[q := 1]\<rparr>, lp)
     else
       let s1 = (if c3 b then s\<lparr>buffer := (buffer s)[q := buffer s ! q - csize s]\<rparr> else s);
           lp1 = latency_reverse lp;
           s2 = s1\<lparr>next_link_available_time := (next_link_available_time s1)[q := saved_available_time msg]\<rparr> in
       bind_res (rc_stack_pop (ts_st s2)) (\<lambda>(cur, st').
       let s3 = s2\<lparr>ts_st := st'\<rparr>;
           traffic = (if c20 b then int (unat (tm_packet_size (ck_msg cur) mod word_of_int (csize s))) else 0) +
                     (if c21 b then csize s else 0);
           s4 = s3\<lparr>link_traffic := (link_traffic s3)[q := link_traffic s3 ! q - traffic]\<rparr>;
           lp2 = (if c6 b then latency_reverse lp1 else lp1);
           s5 = (if c31 b
                 then s4\<lparr>terminal_msgs := prepend_to_node_message_list (terminal_msgs s4) q cur,
                         terminal_length := (terminal_length s4)[q := terminal_length s4 ! q + csize s],
                         all_term_length := all_term_length s4 + csize s\<rparr>
                 else s4);
           s6 = (if c8 b then s5\<lparr>pending_msgs := prepend_to_node_message_list (pending_msgs s5) q cur\<rparr> else s5);
           lp3 = (if c9 b then latency_reverse lp2 else lp2);
           s7 = (if c10 b then s6\<lparr>in_send_loop := (in_send_loop s6)[q := 1]\<rparr> else s6)
       in Inr (s7, lp3)))"

subsection \<open>Arrival\<close>

definition mark_full :: "tw_stime \<Rightarrow> nat \<Rightarrow> nodes_state \<Rightarrow> torus_bf \<Rightarrow> nodes_message \<Rightarrow>
    nodes_state \<times> torus_bf \<times> nodes_message" where
  "mark_full now q s b msg =
     (if last_buf_full s ! q = 0
      then (s\<lparr>last_buf_full := (last_buf_full s)[q := now]\<rparr>, b\<lparr>c24 := True\<rparr>,
            msg\<lparr>saved_busy_time := last_buf_full s ! q\<rparr>)
      else (s, b, msg))"

text \<open>The statistics of a packet that has arrived, entry \<open>i\<close> being that of its category. The third
  component tells whether it had the longest way so far.\<close>

definition finish_packet ::
    "tw_stime \<Rightarrow> torus_globals \<Rightarrow> nodes_state \<Rightarrow> nat \<Rightarrow> mn_stats list \<Rightarrow> nodes_message \<Rightarrow>
     nodes_state \<times> torus_globals \<times> bool \<times> nodes_message" where
  "finish_packet now tg s i arr msg =
     (let travel = now - travel_start_time msg; stat = arr ! i; newmax = (tg_max_latency tg < travel) in
      (s\<lparr>torus_stats_array := arr[i := stat\<lparr>recv_count := recv_count stat + 1,
                         recv_bytes := recv_bytes stat + int (unat (tm_packet_size msg)),
                         recv_time := recv_time stat + travel\<rparr>],
         ts_total_time := ts_total_time s + travel, finished_packets := finished_packets s + 1,
         ts_total_hops := ts_total_hops s + my_N_hop msg\<rparr>,
       tg\<lparr>N_finished_packets := N_finished_packets tg + 1, tg_total_time := tg_total_time tg + travel,
          tg_total_hops := tg_total_hops tg + my_N_hop msg,
          tg_max_latency := (if newmax then travel else tg_max_latency tg)\<rparr>,
       newmax,
       msg\<lparr>saved_recv_time := ts_total_time s, saved_total_time := tg_total_time tg,
           saved_available_time := (if newmax then tg_max_latency tg else saved_available_time msg)\<rparr>))"

text \<open>The event for the receiver of a packet, or the reply to a pull request with the return value
  of \<open>model_net_event_mctx\<close>.\<close>

definition deliver ::
    "torus_env \<Rightarrow> mn_globals \<Rightarrow> nodes_message \<Rightarrow> bytes \<Rightarrow> tw_stime \<Rightarrow> torus_lp \<Rightarrow>
     (int option \<times> mn_globals \<times> torus_lp \<times> torus_out list) result" where
  "deliver env g msg data ts lp =
     (if tm_remote_event_size_bytes msg = 0 then Inr (None, g, lp, [])
      else if tm_is_pull msg \<noteq> 0
      then bind_res (model_net_event_mctx (te_env env) TORUS
                (codes_mctx_set_global_direct (gid (tl_lp lp)))
                (codes_mctx_set_global_direct (sender_node msg)) (tm_category msg) (sender_svr msg)
                (tm_pull_size msg) 0 (tm_remote_event_size_bytes msg) (Some data) 0 None g (tl_lp lp))
              (\<lambda>(ret, g', l', outs). Inr (Some ret, g', lp\<lparr>tl_lp := l'\<rparr>, map TorusNet outs))
      else bind_res (memcpy (Some data) (tm_remote_event_size_bytes msg)) (\<lambda>re.
             Inr (None, g, lp, [TorusUser (tm_final_dest_gid msg) ts re])))"

text \<open>The chunk has reached its destination: \<open>ts\<close> is the latency that was drawn, \<open>lp\<close> the LP after the
  draw, \<open>msg\<close> the message with its hop counted.\<close>

definition arrive_here ::
    "torus_env \<Rightarrow> mn_globals \<Rightarrow> torus_globals \<Rightarrow> nodes_state \<Rightarrow> torus_bf \<Rightarrow> nodes_message \<Rightarrow> bytes \<Rightarrow>
     tw_stime \<Rightarrow> torus_lp \<Rightarrow>
     (nodes_state \<times> torus_bf \<times> nodes_message \<times> torus_globals \<times> mn_globals \<times> torus_lp \<times> torus_out list) result" where
  "arrive_here env g tg s b msg data ts lp =
     (let now = me_now (te_env env); (lp1, credit) = credit_send env s msg False lp;
          s1 = s\<lparr>total_data_sz := total_data_sz s + csize s\<rparr>; b1 = b\<lparr>c1 := True\<rparr> in
      bind_res (chunks_of s (tm_packet_size msg)) (\<lambda>n.
      if chunk_id msg \<noteq> n - 1 then Inr (s1, b1, msg, tg, g, lp1, [credit])
      else
        bind_res (model_net_find_stats (tm_category msg) (torus_stats_array s1)) (\<lambda>(i, arr).
        let (s2, tg1, newmax, msg1) = finish_packet now tg s1 i arr msg in
        bind_res (deliver env g msg data ts lp1) (\<lambda>(ret, g', lp2, outs).
          Inr (s2, b1\<lparr>c2 := True, c3 := newmax, c31 := (ret \<noteq> None)\<rparr>,
               (case ret of None \<Rightarrow> msg1 | Some r \<Rightarrow> msg1\<lparr>tm_event_rc := r\<rparr>), tg1, g', lp2, credit # outs)))))"

text \<open>The chunk goes on over queue \<open>q\<close>.\<close>

definition enqueue_chunk ::
    "torus_env \<Rightarrow> nat \<Rightarrow> bool \<Rightarrow> chunk \<Rightarrow> nodes_state \<Rightarrow> torus_bf \<Rightarrow> nodes_message \<Rightarrow> torus_lp \<Rightarrow>
     nodes_state \<times> torus_bf \<times> nodes_message \<times> torus_lp \<times> torus_out list" where
  "enqueue_chunk env q same_dim ck s b msg lp =
     (let bsize = buffer_size (tp_params (place s)); now = me_now (te_env env);
          waiting = ck\<lparr>ck_msg := (ck_msg ck)\<lparr>saved_queue := source_direction msg + source_dim msg * 2\<rparr>\<rparr>;
          (lpc, credit) = credit_send env s msg False lp;
          taken = s\<lparr>buffer := (buffer s)[q := buffer s ! q + csize s],
                    pending_msgs := append_to_node_message_list (pending_msgs s) q ck\<rparr> in
      if same_dim
      then if buffer s ! q + csize s > bsize
           then let (s', b', msg') = mark_full now q
                      (s\<lparr>queued_msgs := append_to_node_message_list (queued_msgs s) q waiting,
                         queued_length := (queued_length s)[q := queued_length s ! q + csize s]\<rparr>)
                      (b\<lparr>c30 := True\<rparr>) msg
                in (s', b', msg', lp, [])
           else (taken, b\<lparr>c9 := True\<rparr>, msg, lpc, [credit])
      else if buffer s ! q + 2 * csize s \<le> bsize
           then (taken, b\<lparr>c11 := True\<rparr>, msg, lpc, [credit])
           else let (s', b', msg') = mark_full now q
                      (s\<lparr>other_msgs := append_to_node_message_list (other_msgs s) q waiting\<rparr>)
                      (b\<lparr>c8 := True\<rparr>) msg
                in (s', b', msg', lp, []))"

definition arrive_on_the_way ::
    "torus_env \<Rightarrow> nodes_state \<Rightarrow> torus_bf \<Rightarrow> nodes_message \<Rightarrow> bytes \<Rightarrow> torus_lp \<Rightarrow>
     (nodes_state \<times> torus_bf \<times> nodes_message \<times> torus_lp \<times> torus_out list) result" where
  "arrive_on_the_way env s b msg data lp =
     bind_res (dimension_order_routing (me_conf (te_env env)) (place s) (tm_dest_lp msg)) (\<lambda>(nxt, dm, dir).
     bind_res (queue_index (place s) dir dm) (\<lambda>q.
     bind_res (if tm_remote_event_size_bytes msg > 0
               then bind_res (memcpy (Some data) (tm_remote_event_size_bytes msg)) (\<lambda>re. Inr (Some re))
               else Inr None) (\<lambda>ed.
     let ck0 = (init_nodes_message_list msg)\<lparr>ck_event_data := ed\<rparr>;
         ck = ck0\<lparr>ck_msg := (ck_msg ck0)\<lparr>next_stop := nxt, source_dim := dm, source_direction := dir\<rparr>\<rparr>;
         (s1, b1, msg1, lp1, outs1) = enqueue_chunk env q (source_dim msg = dm) ck s (b\<lparr>c6 := True\<rparr>)
                                        (msg\<lparr>source_channel := int q\<rparr>) lp;
         (s2, woken, lp2, outs2) = wake env dir dm q 0 s1 lp1
     in Inr (s2, b1\<lparr>c13 := woken\<rparr>, msg1, lp2, outs1 @ outs2))))"

definition packet_arrive ::
    "torus_env \<Rightarrow> mn_globals \<Rightarrow> torus_globals \<Rightarrow> nodes_state \<Rightarrow> torus_bf \<Rightarrow> nodes_message \<Rightarrow> bytes \<Rightarrow> torus_lp \<Rightarrow>
     (nodes_state \<times> torus_bf \<times> nodes_message \<times> torus_globals \<times> mn_globals \<times> torus_lp \<times> torus_out list) result" where
  "packet_arrive env g tg s b msg data lp =
     (let (ts, lp1) = latency env lp; msg1 = msg\<lparr>my_N_hop := my_N_hop msg + 1\<rparr>;
          s1 = s\<lparr>finished_chunks := finished_chunks s + 1\<rparr> in
      if gid (tl_lp lp) = tm_dest_lp msg then arrive_here env g tg s1 b msg1 data ts lp1
      else bind_res (arrive_on_the_way env s1 b msg1 data lp1) (\<lambda>(s2, b2, msg2, lp2, outs).
             Inr (s2, b2, msg2, tg, g, lp2, outs)))"

definition arrive_here_rc ::
    "tw_stime \<Rightarrow> torus_globals \<Rightarrow> nodes_state \<Rightarrow> torus_bf \<Rightarrow> nodes_message \<Rightarrow> torus_lp \<Rightarrow>
     (nodes_state \<times> torus_globals \<times> torus_lp) result" where
  "arrive_here_rc now tg s b msg lp =
     (let lp1 = rand_reverse lp; s1 = s\<lparr>total_data_sz := total_data_sz s - csize s\<rparr> in
      if \<not> c2 b then Inr (s1, tg, lp1)
      else bind_res (model_net_find_stats (tm_category msg) (torus_stats_array s1)) (\<lambda>(i, arr).
        let stat = arr ! i;
            stat' = stat\<lparr>recv_count := recv_count stat - 1,
                         recv_bytes := recv_bytes stat - int (unat (tm_packet_size msg)),
                         recv_time := saved_recv_time msg\<rparr>;
            tg1 = tg\<lparr>N_finished_packets := N_finished_packets tg - 1,
                     tg_total_time := tg_total_time tg - (now - travel_start_time msg),
                     tg_total_hops := tg_total_hops tg - my_N_hop msg,
                     tg_max_latency := (if c3 b then saved_available_time msg else tg_max_latency tg)\<rparr>
        in Inr (s1\<lparr>torus_stats_array := arr[i := stat'], ts_total_time := saved_recv_time msg,
                   finished_packets := finished_packets s1 - 1,
                   ts_total_hops := ts_total_hops s1 - my_N_hop msg\<rparr>, tg1,
                if c31 b then lp1\<lparr>tl_lp := model_net_event_rc2 (tl_lp lp1) (tm_event_rc msg)\<rparr> else lp1)))"

text \<open>\<open>cur_entry\<close> is NULL unless one of the flags is set.\<close>

definition arrive_on_the_way_rc ::
    "nodes_state \<Rightarrow> torus_bf \<Rightarrow> nodes_message \<Rightarrow> torus_lp \<Rightarrow> (nodes_state \<times> torus_lp) result" where
  "arrive_on_the_way_rc s b msg lp =
     (if source_channel msg < 0 \<or> 2 * n_dims (tp_params (place s)) \<le> source_channel msg then Inl OutOfBounds
      else let q = nat (source_channel msg) in
      bind_res (if c30 b
                then bind_res (return_tail (queued_msgs s) q) (\<lambda>(qs, ck).
                       Inr (s\<lparr>queued_msgs := qs, queued_length := (queued_length s)[q := queued_length s ! q - csize s],
                              last_buf_full := (if c24 b then (last_buf_full s)[q := saved_busy_time msg]
                                                else last_buf_full s)\<rparr>))
                else Inr s) (\<lambda>s1.
      bind_res (if c9 b \<or> c11 b
                then bind_res (return_tail (pending_msgs s1) q) (\<lambda>(qs, ck).
                       Inr (s1\<lparr>pending_msgs := qs, buffer := (buffer s1)[q := buffer s1 ! q - csize s]\<rparr>,
                            rand_reverse lp))
                else Inr (s1, lp)) (\<lambda>(s2, lp2).
      bind_res (if c8 b
                then bind_res (return_tail (other_msgs s2) q) (\<lambda>(qs, ck).
                       Inr (s2\<lparr>other_msgs := qs,
                               last_buf_full := (if c24 b then (last_buf_full s2)[q := saved_busy_time msg]
                                                 else last_buf_full s2)\<rparr>))
                else Inr s2) (\<lambda>s3.
      bind_res (c_assert (c30 b \<or> c9 b \<or> c11 b \<or> c8 b)) (\<lambda>_.
        Inr (wake_rc (c13 b) q s3 lp2))))))"

definition packet_arrive_rc ::
    "tw_stime \<Rightarrow> torus_globals \<Rightarrow> nodes_state \<Rightarrow> torus_bf \<Rightarrow> nodes_message \<Rightarrow> torus_lp \<Rightarrow>
     (nodes_state \<times> nodes_message \<times> torus_globals \<times> torus_lp) result" where
  "packet_arrive_rc now tg s b msg lp =
     (let lp1 = latency_reverse lp; s1 = s\<lparr>finished_chunks := finished_chunks s - 1\<rparr> in
      bind_res (if c1 b then arrive_here_rc now tg s1 b msg lp1 else Inr (s1, tg, lp1)) (\<lambda>(s2, tg2, lp2).
      bind_res (if c6 b then arrive_on_the_way_rc s2 b msg lp2 else Inr (s2, lp2)) (\<lambda>(s3, lp3).
        Inr (s3, msg\<lparr>my_N_hop := my_N_hop msg - 1\<rparr>, tg2, lp3))))"

subsection \<open>Credits\<close>

text \<open>A credit frees a place in the buffer of a link; a busy period of the link ends.\<close>

definition release_place ::
    "tw_stime \<Rightarrow> nat \<Rightarrow> nodes_state \<Rightarrow> torus_bf \<Rightarrow> nodes_message \<Rightarrow> nodes_state \<times> torus_bf \<times> nodes_message" where
  "release_place now q s b msg =
     (let s1 = s\<lparr>buffer := (buffer s)[q := buffer s ! q - csize s]\<rparr> in
      if last_buf_full s ! q \<noteq> 0
      then (s1\<lparr>busy_time := (busy_time s)[q := busy_time s ! q + (now - last_buf_full s ! q)],
               last_buf_full := (last_buf_full s)[q := 0]\<rparr>, b\<lparr>c24 := True\<rparr>,
            msg\<lparr>saved_busy_time := busy_time s ! q, saved_recv_time := last_buf_full s ! q\<rparr>)
      else (s1, b, msg))"

text \<open>A waiting chunk takes the place: one that goes straight on first, one that turns if two places
  are free.\<close>

definition take_place ::
    "torus_env \<Rightarrow> nat \<Rightarrow> nodes_state \<Rightarrow> torus_bf \<Rightarrow> torus_lp \<Rightarrow> nodes_state \<times> torus_bf \<times> torus_lp \<times> torus_out list" where
  "take_place env q s b lp =
     (let cs = csize s in
      case queued_msgs s ! q of
        ck # rest \<Rightarrow>
          let (lpc, credit) = credit_send env s (ck_msg ck) True lp in
          (s\<lparr>queued_msgs := fst (return_head (queued_msgs s) q),
             queued_length := (queued_length s)[q := queued_length s ! q - cs],
             pending_msgs := append_to_node_message_list (pending_msgs s) q ck,
             buffer := (buffer s)[q := buffer s ! q + cs]\<rparr>, b\<lparr>c2 := True\<rparr>, lpc, [credit])
      | [] \<Rightarrow>
          if buffer s ! q + 2 * cs \<le> buffer_size (tp_params (place s))
          then (case other_msgs s ! q of
                  ck # rest \<Rightarrow>
                    let (lpc, credit) = credit_send env s (ck_msg ck) True lp in
                    (s\<lparr>other_msgs := fst (return_head (other_msgs s) q),
                       pending_msgs := append_to_node_message_list (pending_msgs s) q ck,
                       buffer := (buffer s)[q := buffer s ! q + cs]\<rparr>, b\<lparr>c3 := True\<rparr>, lpc, [credit])
                | [] \<Rightarrow> (s, b, lp, []))
          else (s, b, lp, []))"

definition packet_buffer_process ::
    "torus_env \<Rightarrow> nodes_state \<Rightarrow> torus_bf \<Rightarrow> nodes_message \<Rightarrow> torus_lp \<Rightarrow>
     (nodes_state \<times> torus_bf \<times> nodes_message \<times> torus_lp \<times> torus_out list) result" where
  "packet_buffer_process env s b msg lp =
     bind_res (queue_index (place s) (source_direction msg) (source_dim msg)) (\<lambda>q.
     let (s2, b2, msg2) = release_place (me_now (te_env env)) q s b msg;
         (s3, b3, lp3, outs3) = take_place env q s2 b2 lp;
         (s4, woken, lp4, outs4) = wake env (source_direction msg) (source_dim msg) q 0 s3 lp3
     in Inr (s4, b3\<lparr>c5 := woken\<rparr>, msg2, lp4, outs3 @ outs4))"

definition packet_buffer_process_rc ::
    "nodes_state \<Rightarrow> torus_bf \<Rightarrow> nodes_message \<Rightarrow> torus_lp \<Rightarrow> (nodes_state \<times> torus_lp) result" where
  "packet_buffer_process_rc s b msg lp =
     bind_res (queue_index (place s) (source_direction msg) (source_dim msg)) (\<lambda>q.
     let cs = csize s;
         s2 = s\<lparr>buffer := (buffer s)[q := buffer s ! q + cs],
                busy_time := (if c24 b then (busy_time s)[q := saved_busy_time msg] else busy_time s),
                last_buf_full := (if c24 b then (last_buf_full s)[q := saved_recv_time msg] else last_buf_full s)\<rparr> in
     bind_res (if c2 b
               then bind_res (return_tail (pending_msgs s2) q) (\<lambda>(qs, ck).
                      Inr (s2\<lparr>pending_msgs := qs,
                              queued_msgs := prepend_to_node_message_list (queued_msgs s2) q ck,
                              queued_length := (queued_length s2)[q := queued_length s2 ! q + cs],
                              buffer := (buffer s2)[q := buffer s2 ! q - cs]\<rparr>, rand_reverse lp))
               else Inr (s2, lp)) (\<lambda>(s3, lp3).
     bind_res (if c3 b
               then bind_res (return_tail (pending_msgs s3) q) (\<lambda>(qs, ck).
                      Inr (s3\<lparr>pending_msgs := qs,
                              other_msgs := prepend_to_node_message_list (other_msgs s3) q ck,
                              buffer := (buffer s3)[q := buffer s3 ! q - cs]\<rparr>, rand_reverse lp3))
               else Inr (s3, lp3)) (\<lambda>(s4, lp4).
       Inr (wake_rc (c5 b) q s4 lp4))))"

subsection \<open>Collective operations\<close>

text \<open>The nodes of a group form a tree of degree four. \<open>grp\<close> is the static variable \<open>grp_name\<close>, the
  name of the group that was looked up last. Payload: \<open>data\<close> are the bytes that
  \<open>model_net_method_get_edata\<close> finds, \<open>near\<close> those directly behind the structure \<open>nodes_message\<close>,
  which \<open>torus_collective\<close> and \<open>send_remote_event\<close> use.\<close>

definition TREE_DEGREE :: int where "TREE_DEGREE = 4"
definition LEVEL_DELAY :: real where "LEVEL_DELAY = 1000"
definition COLLECTIVE_COMPUTATION_DELAY :: real where "COLLECTIVE_COMPUTATION_DELAY = 5700"
definition TORUS_FAN_OUT_DELAY :: real where "TORUS_FAN_OUT_DELAY = 20"

definition NO_NODE :: int where "NO_NODE = u64 (-1)"

definition tree_parent :: "int \<Rightarrow> int" where
  "tree_parent node = (if node = 0 then NO_NODE else (node - (node - 1) mod TREE_DEGREE) div TREE_DEGREE)"

definition tree_children :: "int \<Rightarrow> int \<Rightarrow> int list" where
  "tree_children num_lps node =
     map (\<lambda>i. let next_child = TREE_DEGREE * node + i + 1 in if next_child < num_lps then next_child else NO_NODE)
       [0 .. TREE_DEGREE - 1]"

definition torus_collective_init :: "config_lpgroups \<Rightarrow> nodes_state \<Rightarrow> tw_lp \<Rightarrow> (nodes_state \<times> string) result" where
  "torus_collective_init c s lp =
     bind_res (codes_mapping_get_lp_info c (gid lp)) (\<lambda>(inf, an).
     let grp = inf_group inf;
         num_lps = u64 (codes_mapping_get_lp_count c (Some grp) 0 TORUS_LP (tp_anno (place s)) 0);
         ch = tree_children num_lps (node_id s); real_ch = filter (\<lambda>x. x \<noteq> NO_NODE) ch
     in Inr (s\<lparr>parent_node_id := tree_parent (node_id s), is_root := (node_id s = 0), children := ch,
               num_children := int (length real_ch), is_leaf := (real_ch = [])\<rparr>, grp))"

definition torus_collective ::
    "config_lpgroups \<Rightarrow> torus_env \<Rightarrow> string \<Rightarrow> int \<Rightarrow> int \<Rightarrow> bytes option \<Rightarrow> tw_lp \<Rightarrow>
     (tw_lp \<times> torus_out \<times> string) result" where
  "torus_collective c env cat message_size remote_sz remote_event sender =
     bind_res (codes_mapping_get_lp_info c (gid sender)) (\<lambda>(inf, an).
     bind_res (codes_mapping_get_lp_id c (Some (inf_group inf)) (Some TORUS_LP) None 1 (inf_rep inf) (inf_offset inf))
       (\<lambda>nic.
     let (d, sender') = codes_local_latency sender;
         m = (te_buf env)\<lparr>tm_remote_event_size_bytes := (if remote_sz > 0 then remote_sz else message_size),
                          tm_category := cat, sender_svr := gid sender, tm_type := T_COLLECTIVE_INIT\<rparr> in
     bind_res (if remote_sz > 0 then memcpy remote_event remote_sz else Inr []) (\<lambda>near.
       Inr (sender', TorusMsg nic (g_tw_lookahead env + me_lat (te_env env) d) m near, inf_group inf))))"

definition torus_collective_rc :: "tw_lp \<Rightarrow> tw_lp" where
  "torus_collective_rc sender = codes_local_latency_reverse sender"

definition send_remote_event :: "nodes_state \<Rightarrow> nodes_message \<Rightarrow> bytes \<Rightarrow> torus_out list result" where
  "send_remote_event s msg near =
     (if tm_remote_event_size_bytes msg \<noteq> 0
      then bind_res (memcpy (Some near) (tm_remote_event_size_bytes msg)) (\<lambda>re.
             Inr [TorusUser (origin_svr s)
               ((1 / link_bandwidth (tp_params (place s))) * real_of_int (tm_remote_event_size_bytes msg)) re])
      else Inr [])"

definition tree_lp :: "config_lpgroups \<Rightarrow> string \<Rightarrow> int \<Rightarrow> int result" where
  "tree_lp c grp node =
     (let num_lps = codes_mapping_get_lp_count c (Some grp) 1 TORUS_LP None 1 in
      if num_lps = 0 then Inl DivByZero
      else codes_mapping_get_lp_id c (Some grp) (Some TORUS_LP) None 1 (s32 (node div num_lps)) (s32 (node mod num_lps)))"

definition tree_msg ::
    "config_lpgroups \<Rightarrow> string \<Rightarrow> nodes_state \<Rightarrow> nodes_message \<Rightarrow> bytes \<Rightarrow> int \<Rightarrow> int \<Rightarrow> tw_stime \<Rightarrow> torus_out result" where
  "tree_msg c grp s msg data ty node ts =
     bind_res (tree_lp c grp node) (\<lambda>nic.
     bind_res (if tm_remote_event_size_bytes msg \<noteq> 0
               then memcpy (Some data) (tm_remote_event_size_bytes msg) else Inr []) (\<lambda>re.
       Inr (TorusMsg nic ts (msg\<lparr>tm_type := ty, sender_node := node_id s\<rparr>) re)))"

definition node_collective_init ::
    "torus_env \<Rightarrow> string \<Rightarrow> nodes_state \<Rightarrow> nodes_message \<Rightarrow> bytes \<Rightarrow> torus_lp \<Rightarrow>
     (nodes_state \<times> nodes_message \<times> string \<times> torus_out list) result" where
  "node_collective_init env grp0 s msg data lp =
     (let c = me_conf (te_env env);
          msg1 = msg\<lparr>saved_collective_init_time := collective_init_time s\<rparr>;
          s1 = s\<lparr>collective_init_time := me_now (te_env env), origin_svr := sender_svr msg\<rparr> in
      if is_leaf s1
      then bind_res (codes_mapping_get_lp_info c (gid (tl_lp lp))) (\<lambda>(inf, an).
           bind_res (tree_msg c (inf_group inf) s1 msg1 data T_COLLECTIVE_FAN_IN (parent_node_id s1)
                       (g_tw_lookahead env + LEVEL_DELAY)) (\<lambda>m.
             Inr (s1, msg1, inf_group inf, [m])))
      else Inr (s1, msg1, grp0, []))"

fun fan_loop ::
    "torus_env \<Rightarrow> string \<Rightarrow> tw_stime \<Rightarrow> real \<Rightarrow> nodes_state \<Rightarrow> nodes_message \<Rightarrow> bytes \<Rightarrow> int list \<Rightarrow> torus_lp \<Rightarrow>
     (torus_lp \<times> torus_out list) result" where
  "fan_loop env grp delay mn s msg data [] lp = Inr (lp, [])"
| "fan_loop env grp delay mn s msg data (ch # chs) lp =
     (let ts = delay + te_exp env (unif_draws lp) mn; lp1 = lp\<lparr>unif_draws := unif_draws lp + 1\<rparr> in
      bind_res (tree_msg (me_conf (te_env env)) grp s msg data T_COLLECTIVE_FAN_OUT ch ts) (\<lambda>m.
      bind_res (fan_loop env grp delay mn s msg data chs lp1) (\<lambda>(lp2, ms). Inr (lp2, m # ms))))"

definition node_collective_fan_in ::
    "torus_env \<Rightarrow> nodes_state \<Rightarrow> torus_bf \<Rightarrow> nodes_message \<Rightarrow> bytes \<Rightarrow> bytes \<Rightarrow> torus_lp \<Rightarrow>
     (nodes_state \<times> torus_bf \<times> nodes_message \<times> string \<times> torus_lp \<times> torus_out list) result" where
  "node_collective_fan_in env s b msg data near lp =
     (let c = me_conf (te_env env); s1 = s\<lparr>num_fan_nodes := num_fan_nodes s + 1\<rparr>;
          msg1 = msg\<lparr>saved_fan_nodes := num_fan_nodes s1 - 1\<rparr>; s2 = s1\<lparr>num_fan_nodes := 0\<rparr> in
      bind_res (codes_mapping_get_lp_info c (gid (tl_lp lp))) (\<lambda>(inf, an).
      if num_fan_nodes s1 \<noteq> num_children s1
      then Inr (s1, b\<lparr>c1 := False, c2 := False\<rparr>, msg, inf_group inf, lp, [])
      else if \<not> is_root s1
      then bind_res (tree_msg c (inf_group inf) s2 msg1 data T_COLLECTIVE_FAN_IN (parent_node_id s2)
                       (g_tw_lookahead env + LEVEL_DELAY)) (\<lambda>m.
             Inr (s2, b\<lparr>c1 := True, c2 := False\<rparr>, msg1, inf_group inf, lp, [m]))
      else bind_res (send_remote_event s2 msg1 near) (\<lambda>rem.
           bind_res (fan_loop env (inf_group inf)
                       (g_tw_lookahead env + COLLECTIVE_COMPUTATION_DELAY + LEVEL_DELAY) (LEVEL_DELAY / 50)
                       s2 msg1 data (take (nat (num_children s2)) (children s2)) lp) (\<lambda>(lp1, ms).
             Inr (s2, b\<lparr>c1 := False, c2 := True\<rparr>, msg1, inf_group inf, lp1, rem @ ms)))))"

text \<open>In \<open>node_collective_fan_out\<close> the test \<open>children[i] > 0\<close> is one of unsigned numbers and always
  true: the children of a node have larger ids than the node.\<close>

definition node_collective_fan_out ::
    "torus_env \<Rightarrow> string \<Rightarrow> torus_globals \<Rightarrow> nodes_state \<Rightarrow> torus_bf \<Rightarrow> nodes_message \<Rightarrow> bytes \<Rightarrow> bytes \<Rightarrow> torus_lp \<Rightarrow>
     (torus_bf \<times> torus_globals \<times> torus_lp \<times> torus_out list) result" where
  "node_collective_fan_out env grp tg s b msg data near lp =
     bind_res (send_remote_event s msg near) (\<lambda>rem.
     bind_res (if is_leaf s then Inr (lp, [])
               else fan_loop env grp (g_tw_lookahead env + TORUS_FAN_OUT_DELAY) (TORUS_FAN_OUT_DELAY / 10) s msg
                      data (take (nat (num_children s)) (children s)) lp) (\<lambda>(lp1, ms).
       let took = me_now (te_env env) - collective_init_time s; longer = (max_collective tg < took) in
       Inr (b\<lparr>c1 := \<not> is_leaf s, c2 := longer\<rparr>,
            if longer then tg\<lparr>max_collective := took\<rparr> else tg, lp1, rem @ ms)))"

subsection \<open>The handlers of a node\<close>

text \<open>The state before the tree is laid out. \<open>link_traffic\<close> is allocated and not initialised.\<close>

definition fresh_node :: "tw_synch \<Rightarrow> int list \<Rightarrow> torus_place \<Rightarrow> int \<Rightarrow> nodes_state" where
  "fresh_node sync garbage pl node =
     (let n = nat (2 * n_dims (tp_params pl)) in
       \<lparr>packet_counter = 0, next_link_available_time = replicate n 0, buffer = replicate n 0,
        terminal_msgs = replicate n [], all_term_length = 0, terminal_length = replicate n 0,
        queued_length = replicate n 0, pending_msgs = replicate n [], queued_msgs = replicate n [],
        other_msgs = replicate n [], in_send_loop = replicate n 0, link_traffic = take n garbage, place = pl,
        torus_stats_array = replicate CATEGORY_MAX stats_zero, collective_init_time = 0, node_id = node,
        origin_svr = 0, parent_node_id = 0, children = [], num_children = 0, is_root = False, is_leaf = False,
        num_fan_nodes = 0, ts_st = rc_stack_create sync, finished_chunks = 0, finished_packets = 0,
        ts_total_hops = 0, ts_total_time = 0, total_data_sz = 0, busy_time = replicate n 0,
        last_buf_full = replicate n 0\<rparr>)"

definition torus_init ::
    "config_lpgroups \<Rightarrow> torus_param list \<Rightarrow> config_anno_map \<Rightarrow> tw_synch \<Rightarrow> int list \<Rightarrow> tw_lp \<Rightarrow>
     (nodes_state \<times> string) result" where
  "torus_init c all_params amap sync garbage lp =
     bind_res (codes_mapping_get_lp_info c (gid lp)) (\<lambda>(inf, an).
     bind_res (codes_mapping_get_lp_relative_id c (gid lp) 0 0) (\<lambda>node.
     let anno = (if an = [] then None else Some an);
         idx = (if an = [] then int (length all_params) - 1 else configuration_get_annotation_index (Some an) amap) in
     if idx < 0 then Inl OutOfBounds else
     bind_res (rd all_params (nat idx)) (\<lambda>p.
     bind_res (torus_place_init c p anno (gid lp)) (\<lambda>pl.
     torus_collective_init c (fresh_node sync garbage pl node) lp))))"

text \<open>\<open>event_handler\<close>: the bit field is cleared and old rollback data collected before the switch. A
  message of an unknown type is only reported.\<close>

definition torus_event_handler ::
    "torus_env \<Rightarrow> int \<Rightarrow> real option \<Rightarrow> mn_globals \<Rightarrow> torus_globals \<Rightarrow> string \<Rightarrow> nodes_state \<Rightarrow> nodes_message \<Rightarrow>
     bytes \<Rightarrow> bytes \<Rightarrow> torus_lp \<Rightarrow>
     (nodes_state \<times> torus_bf \<times> nodes_message \<times> torus_globals \<times> string \<times> mn_globals \<times> torus_lp \<times> torus_out list) result" where
  "torus_event_handler env wrap_size gvt g tg grp s0 msg data near lp =
     (let s = s0\<lparr>ts_st := fst (rc_stack_gc gvt (ts_st s0))\<rparr>; b = tbf_clear; ty = tm_type msg in
      if ty = GENERATE
      then bind_res (packet_generate env wrap_size s b msg data lp) (\<lambda>(s', b', msg', lp', outs).
             Inr (s', b', msg', tg, grp, g, lp', outs))
      else if ty = ARRIVAL
      then bind_res (packet_arrive env g tg s b msg data lp) (\<lambda>(s', b', msg', tg', g', lp', outs).
             Inr (s', b', msg', tg', grp, g', lp', outs))
      else if ty = SEND
      then bind_res (packet_send env s b msg lp) (\<lambda>(s', b', msg', lp', outs).
             Inr (s', b', msg', tg, grp, g, lp', outs))
      else if ty = CREDIT
      then bind_res (packet_buffer_process env s b msg lp) (\<lambda>(s', b', msg', lp', outs).
             Inr (s', b', msg', tg, grp, g, lp', outs))
      else if ty = T_COLLECTIVE_INIT
      then bind_res (node_collective_init env grp s msg data lp) (\<lambda>(s', msg', grp', outs).
             Inr (s', b, msg', tg, grp', g, lp, outs))
      else if ty = T_COLLECTIVE_FAN_IN
      then bind_res (node_collective_fan_in env s b msg data near lp) (\<lambda>(s', b', msg', grp', lp', outs).
             Inr (s', b', msg', tg, grp', g, lp', outs))
      else if ty = T_COLLECTIVE_FAN_OUT
      then bind_res (node_collective_fan_out env grp tg s b msg data near lp) (\<lambda>(b', tg', lp', outs).
             Inr (s, b', msg, tg', grp, g, lp', outs))
      else Inr (s, b, msg, tg, grp, g, lp, []))"

definition node_rc_handler ::
    "tw_stime \<Rightarrow> torus_globals \<Rightarrow> nodes_state \<Rightarrow> torus_bf \<Rightarrow> nodes_message \<Rightarrow> torus_lp \<Rightarrow>
     (nodes_state \<times> torus_globals \<times> torus_lp) result" where
  "node_rc_handler now tg s b msg lp =
     (let ty = tm_type msg in
      if ty = GENERATE then bind_res (packet_generate_rc s b msg lp) (\<lambda>(s', lp'). Inr (s', tg, lp'))
      else if ty = ARRIVAL then bind_res (packet_arrive_rc now tg s b msg lp) (\<lambda>(s', msg', tg', lp'). Inr (s', tg', lp'))
      else if ty = SEND then bind_res (packet_send_rc s b msg lp) (\<lambda>(s', lp'). Inr (s', tg, lp'))
      else if ty = CREDIT then bind_res (packet_buffer_process_rc s b msg lp) (\<lambda>(s', lp'). Inr (s', tg, lp'))
      else if ty = T_COLLECTIVE_INIT
      then Inr (s\<lparr>collective_init_time := saved_collective_init_time msg\<rparr>, tg, lp)
      else if ty = T_COLLECTIVE_FAN_IN
      then Inr (if c1 b \<or> c2 b then s\<lparr>num_fan_nodes := saved_fan_nodes msg\<rparr>
                else s\<lparr>num_fan_nodes := num_fan_nodes s - 1\<rparr>, tg,
                if c2 b then (rand_reverse ^^ nat (num_children s)) lp else lp)
      else if ty = T_COLLECTIVE_FAN_OUT
      then Inr (s, tg, if c1 b then (rand_reverse ^^ nat (num_children s)) lp else lp)
      else Inr (s, tg, lp))"

end
