(* ===== verification/Torus_Links.thy ===== *)
theory Torus_Links
  imports Torus
begin

text \<open>
  What the handlers of a torus node keep: bubble flow control on the links of theory \<open>Torus\<close>, and
  the reversal of every event by the reverse handler.
\<close>

subsection \<open>Bubble flow control\<close>

text \<open>The arrays of a node have one entry per link.\<close>

definition torus_shape :: "nodes_state \<Rightarrow> bool" where
  "torus_shape s \<longleftrightarrow>
     (let n = nat (2 * n_dims (tp_params (place s))) in
      length (next_link_available_time s) = n \<and> length (buffer s) = n \<and> length (terminal_msgs s) = n \<and>
      length (terminal_length s) = n \<and> length (queued_length s) = n \<and> length (pending_msgs s) = n \<and>
      length (queued_msgs s) = n \<and> length (other_msgs s) = n \<and> length (in_send_loop s) = n \<and>
      length (link_traffic s) = n \<and> length (busy_time s) = n \<and> length (last_buf_full s) = n)"

text \<open>What holds of a link between two events: its buffer is not overrun; a chunk that has its place in
  the buffer is being sent; an injected chunk waits only while there are not two free places; a chunk
  that goes straight on waits only while there is no free place, one that turns only while there are
  not two.\<close>

definition bubble_ok :: "nodes_state \<Rightarrow> nat \<Rightarrow> bool" where
  "bubble_ok s q \<longleftrightarrow>
     (let cs = csize s; free = buffer_size (tp_params (place s)) - buffer s ! q in
      0 \<le> free \<and>
      (in_send_loop s ! q = 0 \<longrightarrow> pending_msgs s ! q = [] \<and> (terminal_msgs s ! q = [] \<or> free < 2 * cs)) \<and>
      (queued_msgs s ! q \<noteq> [] \<longrightarrow> free < cs) \<and> (other_msgs s ! q \<noteq> [] \<longrightarrow> free < 2 * cs))"

definition torus_inv :: "nodes_state \<Rightarrow> bool" where
  "torus_inv s \<longleftrightarrow> torus_shape s \<and> 0 \<le> csize s \<and>
     (\<forall>q < nat (2 * n_dims (tp_params (place s))). bubble_ok s q)"

lemma queue_index_lt: "queue_index (place s) dir dm = Inr q \<Longrightarrow> q < nat (2 * n_dims (tp_params (place s)))"
  by (auto simp: queue_index_def Let_def split: if_splits)

lemma torus_shapeD:
  assumes "torus_shape s" and "q < nat (2 * n_dims (tp_params (place s)))"
  shows "q < length (next_link_available_time s)" and "q < length (buffer s)"
    and "q < length (terminal_msgs s)" and "q < length (terminal_length s)"
    and "q < length (queued_length s)" and "q < length (pending_msgs s)" and "q < length (queued_msgs s)"
    and "q < length (other_msgs s)" and "q < length (in_send_loop s)" and "q < length (link_traffic s)"
    and "q < length (busy_time s)" and "q < length (last_buf_full s)"
  using assms by (simp_all add: torus_shape_def Let_def)

text \<open>Two states that agree on the fields of a link.\<close>

lemma torus_invI:
  assumes "torus_inv s" and "q < nat (2 * n_dims (tp_params (place s)))"
    and "place s' = place s" and "torus_shape s'" and "bubble_ok s' q"
    and "\<And>i. i \<noteq> q \<Longrightarrow> buffer s' ! i = buffer s ! i"
    and "\<And>i. i \<noteq> q \<Longrightarrow> in_send_loop s' ! i = in_send_loop s ! i"
    and "\<And>i. i \<noteq> q \<Longrightarrow> pending_msgs s' ! i = pending_msgs s ! i"
    and "\<And>i. i \<noteq> q \<Longrightarrow> terminal_msgs s' ! i = terminal_msgs s ! i"
    and "\<And>i. i \<noteq> q \<Longrightarrow> queued_msgs s' ! i = queued_msgs s ! i"
    and "\<And>i. i \<noteq> q \<Longrightarrow> other_msgs s' ! i = other_msgs s ! i"
  shows "torus_inv s'"
proof -
  have "bubble_ok s' i" if "i < nat (2 * n_dims (tp_params (place s)))" for i
  proof (cases "i = q")
    case True
    then show ?thesis using assms(5) by simp
  next
    case False
    moreover have "bubble_ok s i" using assms(1) that by (simp add: torus_inv_def)
    ultimately show ?thesis
      using assms(3,6-11) by (simp add: bubble_ok_def csize_def)
  qed
  then show ?thesis using assms(1,3,4) by (simp add: torus_inv_def csize_def)
qed

lemma torus_inv_bubble: "torus_inv s \<Longrightarrow> q < nat (2 * n_dims (tp_params (place s))) \<Longrightarrow> bubble_ok s q"
  by (simp add: torus_inv_def)

text \<open>What sending a chunk changes.\<close>

lemma return_head_tl: "q < length qs \<Longrightarrow> fst (return_head qs q) = qs[q := tl (qs ! q)]"
  by (cases "qs ! q") (simp_all add: return_head_def list_update_same_conv [THEN iffD2, symmetric])

lemma send_chunk_outcome:
  assumes run: "send_chunk env q isT cur s b msg lp = Inr (s', b', msg', lp', outs)"
    and q: "q < length (terminal_msgs s)" "q < length (pending_msgs s)"
  obtains n avail more_chunks has_local where
    "chunks_of s (tm_packet_size (ck_msg cur)) = Inr n"
    and "more_chunks = (if isT then tl (terminal_msgs s ! q) \<noteq> []
                        else tl (pending_msgs s ! q) \<noteq> [] \<or> terminal_msgs s ! q \<noteq> [])"
    and "has_local = (chunk_id (ck_msg cur) = n - 1 \<and> tm_local_event_size_bytes (ck_msg cur) > 0)"
    and "s' = s\<lparr>next_link_available_time := (next_link_available_time s)[q := avail],
                link_traffic := (link_traffic s)[q := link_traffic s ! q + snd (link_bytes s (ck_msg cur) n)],
                terminal_msgs := (if isT then (terminal_msgs s)[q := tl (terminal_msgs s ! q)] else terminal_msgs s),
                terminal_length := (if isT then (terminal_length s)[q := terminal_length s ! q - csize s]
                                    else terminal_length s),
                all_term_length := (if isT then all_term_length s - csize s else all_term_length s),
                pending_msgs := (if isT then pending_msgs s else (pending_msgs s)[q := tl (pending_msgs s ! q)]),
                ts_st := fst (rc_stack_push (me_now (te_env env)) cur True (ts_st s)),
                in_send_loop := (if more_chunks then in_send_loop s else (in_send_loop s)[q := 0])\<rparr>"
    and "b' = b\<lparr>c20 := fst (link_bytes s (ck_msg cur) n), c21 := \<not> fst (link_bytes s (ck_msg cur) n),
                c6 := has_local, c31 := isT, c8 := \<not> isT, c9 := more_chunks, c10 := \<not> more_chunks\<rparr>"
    and "msg' = msg\<lparr>saved_available_time := next_link_available_time s ! q\<rparr>"
    and "latency_reverse ((if has_local then latency_reverse else id) ((if more_chunks then latency_reverse else id) lp')) = lp"
proof -
  obtain n where n: "chunks_of s (tm_packet_size (ck_msg cur)) = Inr n"
    using run by (auto simp: send_chunk_def bind_res_Inr_iff)
  define more_chunks where "more_chunks = (if isT then tl (terminal_msgs s ! q) \<noteq> []
                        else tl (pending_msgs s ! q) \<noteq> [] \<or> terminal_msgs s ! q \<noteq> [])"
  define has_local where "has_local = (chunk_id (ck_msg cur) = n - 1 \<and> tm_local_event_size_bytes (ck_msg cur) > 0)"
  show ?thesis
    by (rule that [OF n more_chunks_def has_local_def])
       (use run n q in \<open>auto simp: send_chunk_def bind_res_Inr_iff split_beta Let_def return_head_tl
          more_chunks_def has_local_def\<close>)
qed

lemma send_chunk_keeps:
  assumes run: "send_chunk env q isT cur s b msg lp = Inr (s', b', msg', lp', outs)"
    and sh: "torus_shape s" and q: "q < nat (2 * n_dims (tp_params (place s)))"
  shows "torus_shape s'" and "place s' = place s" and "buffer s' = buffer s"
    and "queued_msgs s' = queued_msgs s" and "other_msgs s' = other_msgs s"
    and "i \<noteq> q \<Longrightarrow> in_send_loop s' ! i = in_send_loop s ! i"
    and "i \<noteq> q \<Longrightarrow> pending_msgs s' ! i = pending_msgs s ! i"
    and "i \<noteq> q \<Longrightarrow> terminal_msgs s' ! i = terminal_msgs s ! i"
    and "in_send_loop s' ! q = 0 \<Longrightarrow> in_send_loop s ! q = 0 \<or> (if isT then terminal_msgs s' ! q = []
           else pending_msgs s' ! q = [] \<and> terminal_msgs s' ! q = [])"
    and "isT \<Longrightarrow> pending_msgs s' = pending_msgs s"
proof -
  note len = torus_shapeD [OF sh q]
  obtain avail tr st mc where s': "s' = s\<lparr>next_link_available_time := (next_link_available_time s)[q := avail],
                link_traffic := (link_traffic s)[q := tr],
                terminal_msgs := (if isT then (terminal_msgs s)[q := tl (terminal_msgs s ! q)] else terminal_msgs s),
                terminal_length := (if isT then (terminal_length s)[q := terminal_length s ! q - csize s]
                                    else terminal_length s),
                all_term_length := (if isT then all_term_length s - csize s else all_term_length s),
                pending_msgs := (if isT then pending_msgs s else (pending_msgs s)[q := tl (pending_msgs s ! q)]),
                ts_st := st,
                in_send_loop := (if mc then in_send_loop s else (in_send_loop s)[q := 0])\<rparr>"
    and mc: "mc = (if isT then tl (terminal_msgs s ! q) \<noteq> []
                        else tl (pending_msgs s ! q) \<noteq> [] \<or> terminal_msgs s ! q \<noteq> [])"
    by (rule send_chunk_outcome [OF run len(3,6)]) blast
  show "torus_shape s'" using sh unfolding s' by (simp add: torus_shape_def)
  show "place s' = place s" "buffer s' = buffer s" "queued_msgs s' = queued_msgs s" "other_msgs s' = other_msgs s"
    unfolding s' by simp_all
  show "i \<noteq> q \<Longrightarrow> in_send_loop s' ! i = in_send_loop s ! i"
    "i \<noteq> q \<Longrightarrow> pending_msgs s' ! i = pending_msgs s ! i"
    "i \<noteq> q \<Longrightarrow> terminal_msgs s' ! i = terminal_msgs s ! i"
    "isT \<Longrightarrow> pending_msgs s' = pending_msgs s"
    unfolding s' by simp_all
  show "in_send_loop s' ! q = 0 \<Longrightarrow> in_send_loop s ! q = 0 \<or> (if isT then terminal_msgs s' ! q = []
           else pending_msgs s' ! q = [] \<and> terminal_msgs s' ! q = [])"
    using len unfolding s' mc by (cases isT) (simp_all split: if_splits)
qed

lemma packet_send_keeps_inv:
  assumes run: "packet_send env s b msg lp = Inr (s', b', msg', lp', outs)" and inv: "torus_inv s"
  shows "torus_inv s' \<and> place s' = place s"
proof -
  obtain q where qi: "queue_index (place s) (source_direction msg) (source_dim msg) = Inr q"
    using run by (auto simp: packet_send_def bind_res_Inr_iff)
  note q = queue_index_lt [OF qi]
  have sh: "torus_shape s" and cs: "0 \<le> csize s" and ok: "bubble_ok s q"
    using inv q by (simp_all add: torus_inv_def)
  note len = torus_shapeD [OF sh q]
  show ?thesis
  proof (cases "pending_msgs s ! q")
    case (Cons cur rest)
    then have snd: "send_chunk env q False cur s b msg lp = Inr (s', b', msg', lp', outs)"
      using run qi by (simp add: packet_send_def)
    note k = send_chunk_keeps [OF snd sh q]
    have "in_send_loop s ! q \<noteq> 0" using ok Cons by (auto simp: bubble_ok_def Let_def)
    then have "bubble_ok s' q"
      using ok k(2-5,9) by (auto simp: bubble_ok_def Let_def csize_def)
    with k show ?thesis using torus_invI [OF inv q] by simp
  next
    case Nil
    show ?thesis
    proof (cases "terminal_msgs s ! q")
      case Nil
      then have s': "s' = s\<lparr>in_send_loop := (in_send_loop s)[q := 0]\<rparr>"
        using run qi \<open>pending_msgs s ! q = []\<close> by (simp add: packet_send_def)
      have "torus_shape s'" using sh by (simp add: s' torus_shape_def)
      moreover have "bubble_ok s' q"
        using ok Nil \<open>pending_msgs s ! q = []\<close> len by (simp add: s' bubble_ok_def csize_def Let_def)
      ultimately show ?thesis by (auto simp: s' intro!: torus_invI [OF inv q])
    next
      case (Cons cur rest)
      show ?thesis
      proof (cases "buffer s ! q + 2 * csize s \<le> buffer_size (tp_params (place s))")
        case True
        let ?s = "s\<lparr>buffer := (buffer s)[q := buffer s ! q + csize s]\<rparr>"
        have sh1: "torus_shape ?s" using sh by (simp add: torus_shape_def)
        have q1: "q < nat (2 * n_dims (tp_params (place ?s)))" using q by simp
        have snd: "send_chunk env q True cur ?s (b\<lparr>c3 := True\<rparr>) msg lp = Inr (s', b', msg', lp', outs)"
          using run qi Nil Cons True by (simp add: packet_send_def)
        note k = send_chunk_keeps [OF snd sh1 q1]
        have "in_send_loop ?s ! q \<noteq> 0" using ok True Cons by (auto simp: bubble_ok_def Let_def)
        with k(9) have "in_send_loop s' ! q = 0 \<longrightarrow> terminal_msgs s' ! q = []" by simp
        then have "bubble_ok s' q"
          using ok True Nil k(2-5) k(10) cs len by (auto simp: bubble_ok_def Let_def csize_def)
        with k show ?thesis using torus_invI [OF inv q] by simp
      next
        case False
        have "s' = s\<lparr>in_send_loop := (in_send_loop s)[q := 0], last_buf_full := last_buf_full s'\<rparr>"
          and "length (last_buf_full s') = length (last_buf_full s)"
          using run qi Nil Cons False by (auto simp: packet_send_def Let_def split: if_splits)
        then obtain lbf where s': "s' = s\<lparr>in_send_loop := (in_send_loop s)[q := 0], last_buf_full := lbf\<rparr>"
          and lbf: "length lbf = length (last_buf_full s)" by blast
        have "torus_shape s'" using sh lbf by (simp add: s' torus_shape_def)
        moreover have "bubble_ok s' q"
          using ok Nil len False by (simp add: s' bubble_ok_def csize_def Let_def)
        ultimately show ?thesis by (auto simp: s' intro!: torus_invI [OF inv q])
      qed
    qed
  qed
qed

subsection \<open>Reversal\<close>

lemma put_back: "qs ! q = x # xs \<Longrightarrow> qs[q := x # xs] = qs"
  by (metis list_update_id)

lemma tbf_clear_simps [simp]:
  "c1 tbf_clear = False" "c2 tbf_clear = False" "c3 tbf_clear = False" "c30 tbf_clear = False"
  "c31 tbf_clear = False" "c4 tbf_clear = False" "c5 tbf_clear = False" "c6 tbf_clear = False"
  "c8 tbf_clear = False" "c9 tbf_clear = False" "c10 tbf_clear = False" "c11 tbf_clear = False"
  "c13 tbf_clear = False" "c20 tbf_clear = False" "c21 tbf_clear = False" "c24 tbf_clear = False"
  by (simp_all add: tbf_clear_def)

lemma list_update_same: "xs ! q = x \<Longrightarrow> xs[q := x] = xs"
  by auto

lemma take_place_simps:
  "queued_msgs s ! q = ck # rest \<Longrightarrow> q < length (queued_msgs s) \<Longrightarrow> take_place env q s b lp =
     (s\<lparr>queued_msgs := (queued_msgs s)[q := rest],
        queued_length := (queued_length s)[q := queued_length s ! q - csize s],
        pending_msgs := (pending_msgs s)[q := pending_msgs s ! q @ [ck]],
        buffer := (buffer s)[q := buffer s ! q + csize s]\<rparr>, b\<lparr>c2 := True\<rparr>,
      fst (credit_send env s (ck_msg ck) True lp), [snd (credit_send env s (ck_msg ck) True lp)])"
  "queued_msgs s ! q = [] \<Longrightarrow> other_msgs s ! q = ck # rest \<Longrightarrow>
    buffer s ! q + 2 * csize s \<le> buffer_size (tp_params (place s)) \<Longrightarrow> take_place env q s b lp =
     (s\<lparr>other_msgs := (other_msgs s)[q := rest],
        pending_msgs := (pending_msgs s)[q := pending_msgs s ! q @ [ck]],
        buffer := (buffer s)[q := buffer s ! q + csize s]\<rparr>, b\<lparr>c3 := True\<rparr>,
      fst (credit_send env s (ck_msg ck) True lp), [snd (credit_send env s (ck_msg ck) True lp)])"
  "queued_msgs s ! q = [] \<Longrightarrow> other_msgs s ! q = [] \<or>
    \<not> buffer s ! q + 2 * csize s \<le> buffer_size (tp_params (place s)) \<Longrightarrow> take_place env q s b lp = (s, b, lp, [])"
  by (auto simp: take_place_def message_lists split_beta Let_def split: list.split)

lemma wakeE:
  assumes "wake env dir dm q extra s lp = (s', woken, lp', outs)"
  shows "s' = s\<lparr>in_send_loop := in_send_loop s'\<rparr>" and "woken = (in_send_loop s ! q = 0)"
    and "in_send_loop s' = (if woken then (in_send_loop s)[q := 1] else in_send_loop s)"
    and "(if woken then latency_reverse lp' else lp') = lp"
  using assms by (auto simp: wake_def split_beta Let_def split: if_splits)

lemma release_placeE:
  assumes "release_place now q s b msg = (s', b', msg')"
  shows "s' = s\<lparr>buffer := (buffer s)[q := buffer s ! q - csize s], busy_time := busy_time s',
                last_buf_full := last_buf_full s'\<rparr>"
    and "if last_buf_full s ! q = 0 then busy_time s' = busy_time s \<and> last_buf_full s' = last_buf_full s \<and> b' = b \<and> msg' = msg
         else (\<exists>bt. busy_time s' = (busy_time s)[q := bt]) \<and> last_buf_full s' = (last_buf_full s)[q := 0] \<and>
           b' = b\<lparr>c24 := True\<rparr> \<and> 
           msg' = msg\<lparr>saved_busy_time := busy_time s ! q, saved_recv_time := last_buf_full s ! q\<rparr>"
  using assms by (auto simp: release_place_def Let_def split: if_splits)

lemma packet_buffer_process_outcome:
  assumes run: "packet_buffer_process env s b msg lp = Inr (s', b', msg', lp', outs)"
  obtains q s2 b2 s3 b3 lp3 outs3 woken outs4 where
    "queue_index (place s) (source_direction msg) (source_dim msg) = Inr q"
    and "release_place (me_now (te_env env)) q s b msg = (s2, b2, msg')"
    and "take_place env q s2 b2 lp = (s3, b3, lp3, outs3)"
    and "wake env (source_direction msg) (source_dim msg) q 0 s3 lp3 = (s', woken, lp', outs4)"
    and "b' = b3\<lparr>c5 := woken\<rparr>" and "outs = outs3 @ outs4"
proof -
  obtain q where q: "queue_index (place s) (source_direction msg) (source_dim msg) = Inr q"
    using run by (auto simp: packet_buffer_process_def bind_res_Inr_iff)
  obtain s2 b2 m2 where r: "release_place (me_now (te_env env)) q s b msg = (s2, b2, m2)"
    by (metis prod_cases3)
  obtain s3 b3 lp3 outs3 where t: "take_place env q s2 b2 lp = (s3, b3, lp3, outs3)"
    by (metis prod_cases4)
  obtain s4 woken lp4 outs4 where w:
    "wake env (source_direction msg) (source_dim msg) q 0 s3 lp3 = (s4, woken, lp4, outs4)"
    by (metis prod_cases4)
  show thesis
    by (rule that [OF q]) (use run q r t w in \<open>auto simp: packet_buffer_process_def\<close>)
qed

lemma wake_rc_rand: "wake_rc woken q s (rand_reverse lp) = (fst (wake_rc woken q s lp), rand_reverse (snd (wake_rc woken q s lp)))"
  by (simp add: wake_rc_def rand_reverse_def latency_reverse_def)


lemma wake_back:
  assumes "wake env dir dm q extra s lp = (s', woken, lp', outs)"
    and "in_send_loop s = in_send_loop s0"
  shows "wake_rc woken q (s0\<lparr>in_send_loop := in_send_loop s'\<rparr>) lp' = (s0, lp)"
  using assms by (auto simp: wake_def wake_rc_def split_beta Let_def list_update_same split: if_splits)

lemma packet_buffer_process_reverse:
  assumes run: "packet_buffer_process env s tbf_clear msg lp = Inr (s', b', msg', lp', outs)"
    and sh: "torus_shape s"
  shows "packet_buffer_process_rc s' b' msg' lp' = Inr (s, lp)"
proof -
  from packet_buffer_process_outcome [OF run] obtain q s2 b2 s3 b3 lp3 outs3 woken outs4 where
    qi: "queue_index (place s) (source_direction msg) (source_dim msg) = Inr q"
    and r: "release_place (me_now (te_env env)) q s tbf_clear msg = (s2, b2, msg')"
    and t: "take_place env q s2 b2 lp = (s3, b3, lp3, outs3)"
    and w: "wake env (source_direction msg) (source_dim msg) q 0 s3 lp3 = (s', woken, lp', outs4)"
    and b': "b' = b3\<lparr>c5 := woken\<rparr>" by metis
  note len = torus_shapeD [OF sh queue_index_lt [OF qi]]
  note r1 = release_placeE [OF r]
  define isl bt lbf where "isl = in_send_loop s'" and "bt = busy_time s2" and "lbf = last_buf_full s2"
  have s2: "s2 = s\<lparr>buffer := (buffer s)[q := buffer s ! q - csize s], busy_time := bt, last_buf_full := lbf\<rparr>"
    using r1(1) by (simp add: bt_def lbf_def)
  have s': "s' = s3\<lparr>in_send_loop := isl\<rparr>" using wakeE(1) [OF w] by (simp add: isl_def)
  have m: "source_direction msg' = source_direction msg" "source_dim msg' = source_dim msg"
    using r1(2) by (simp_all split: if_splits)
  have undo: "(if c24 b2 then bt[q := saved_busy_time msg'] else bt) = busy_time s"
    "(if c24 b2 then lbf[q := saved_recv_time msg'] else lbf) = last_buf_full s"
    "c2 b2 = False" "c3 b2 = False"
    using r1(2) len by (auto simp: bt_def lbf_def split: if_splits)
  have w2: "wake_rc woken q (s\<lparr>in_send_loop := isl\<rparr>) lp' = (s, lp3)" if "in_send_loop s3 = in_send_loop s"
    using wake_back [OF w that] by (simp add: isl_def)
  note rc = packet_buffer_process_rc_def b' s' s2 Let_def message_lists csize_def split_beta put_back wake_rc_rand
  consider ck rest where "queued_msgs s ! q = ck # rest"
    | ck rest where "queued_msgs s ! q = []" "other_msgs s ! q = ck # rest"
        "buffer s ! q + csize s \<le> buffer_size (tp_params (place s))"
    | "queued_msgs s ! q = []" "other_msgs s ! q = [] \<or>
        \<not> buffer s ! q + csize s \<le> buffer_size (tp_params (place s))"
    by (metis neq_Nil_conv)
  then show ?thesis
  proof cases
    case 1
    then have t3: "s3 = s2\<lparr>queued_msgs := (queued_msgs s)[q := rest],
        queued_length := (queued_length s)[q := queued_length s ! q - csize s],
        pending_msgs := (pending_msgs s)[q := pending_msgs s ! q @ [ck]],
        buffer := buffer s\<rparr>" "b3 = b2\<lparr>c2 := True\<rparr>" "rand_reverse lp3 = lp"
      using t take_place_simps(1) [of s2 q ck rest env b2 lp] len by (auto simp: s2 csize_def)
    show ?thesis using qi undo len m t3 w2 1 by (cases "c24 b2"; simp add: rc)
  next
    case 2
    then have t3: "s3 = s2\<lparr>other_msgs := (other_msgs s)[q := rest],
        pending_msgs := (pending_msgs s)[q := pending_msgs s ! q @ [ck]],
        buffer := buffer s\<rparr>" "b3 = b2\<lparr>c3 := True\<rparr>" "rand_reverse lp3 = lp"
      using t take_place_simps(2) [of s2 q ck rest env b2 lp] len by (auto simp: s2 csize_def)
    show ?thesis using qi undo len m t3 w2 2 by (cases "c24 b2"; simp add: rc)
  next
    case 3
    then have t3: "s3 = s2" "b3 = b2" "lp3 = lp"
      using t take_place_simps(3) [of s2 q env b2 lp] len by (auto simp: s2 csize_def)
    show ?thesis using qi undo len m t3 w2 3 by (cases "c24 b2"; simp add: rc)
  qed
qed
lemma packet_buffer_process_keeps_inv:
  assumes run: "packet_buffer_process env s b msg lp = Inr (s', b', msg', lp', outs)" and inv: "torus_inv s"
  shows "torus_inv s' \<and> place s' = place s"
proof -
  from packet_buffer_process_outcome [OF run] obtain q s2 b2 s3 b3 lp3 outs3 woken outs4 where
    qi: "queue_index (place s) (source_direction msg) (source_dim msg) = Inr q"
    and r: "release_place (me_now (te_env env)) q s b msg = (s2, b2, msg')"
    and t: "take_place env q s2 b2 lp = (s3, b3, lp3, outs3)"
    and w: "wake env (source_direction msg) (source_dim msg) q 0 s3 lp3 = (s', woken, lp', outs4)" by metis
  note q = queue_index_lt [OF qi]
  have sh: "torus_shape s" and cs: "0 \<le> csize s" and ok: "bubble_ok s q"
    using inv q by (simp_all add: torus_inv_def)
  note len = torus_shapeD [OF sh q]
  note r1 = release_placeE [OF r]
  define isl bt lbf where "isl = in_send_loop s'" and "bt = busy_time s2" and "lbf = last_buf_full s2"
  have s2: "s2 = s\<lparr>buffer := (buffer s)[q := buffer s ! q - csize s], busy_time := bt, last_buf_full := lbf\<rparr>"
    using r1(1) by (simp add: bt_def lbf_def)
  have s': "s' = s3\<lparr>in_send_loop := isl\<rparr>" using wakeE(1) [OF w] by (simp add: isl_def)
  have l: "length bt = length (busy_time s)" "length lbf = length (last_buf_full s)"
    using r1(2) by (auto simp: bt_def lbf_def split: if_splits)
  have isl: "length isl = length (in_send_loop s)" "isl ! q \<noteq> 0" "\<And>i. i \<noteq> q \<Longrightarrow> isl ! i = in_send_loop s ! i"
    if "in_send_loop s3 = in_send_loop s"
    using wakeE(2,3) [OF w] len that by (auto simp: isl_def)
  note keep = s' s2 torus_shape_def Let_def
  consider ck rest where "queued_msgs s ! q = ck # rest"
    | ck rest where "queued_msgs s ! q = []" "other_msgs s ! q = ck # rest"
        "buffer s ! q + csize s \<le> buffer_size (tp_params (place s))"
    | "queued_msgs s ! q = []" "other_msgs s ! q = [] \<or>
        \<not> buffer s ! q + csize s \<le> buffer_size (tp_params (place s))"
    by (metis neq_Nil_conv)
  then show ?thesis
  proof cases
    case 1
    then have t3: "s3 = s2\<lparr>queued_msgs := (queued_msgs s)[q := rest],
        queued_length := (queued_length s)[q := queued_length s ! q - csize s],
        pending_msgs := (pending_msgs s)[q := pending_msgs s ! q @ [ck]],
        buffer := buffer s\<rparr>"
      using t take_place_simps(1) [of s2 q ck rest env b2 lp] len by (auto simp: s2 csize_def)
    then have "in_send_loop s3 = in_send_loop s" by (simp add: s2)
    note isl = isl [OF this]
    have "torus_shape s'" using sh l isl(1) by (simp add: keep t3)
    moreover have "bubble_ok s' q"
      using ok 1 len isl(2) by (simp add: s' s2 t3 bubble_ok_def csize_def Let_def)
    ultimately show ?thesis using isl(3) by (auto simp: s' s2 t3 intro!: torus_invI [OF inv q])
  next
    case 2
    then have t3: "s3 = s2\<lparr>other_msgs := (other_msgs s)[q := rest],
        pending_msgs := (pending_msgs s)[q := pending_msgs s ! q @ [ck]],
        buffer := buffer s\<rparr>"
      using t take_place_simps(2) [of s2 q ck rest env b2 lp] len by (auto simp: s2 csize_def)
    then have "in_send_loop s3 = in_send_loop s" by (simp add: s2)
    note isl = isl [OF this]
    have "torus_shape s'" using sh l isl(1) by (simp add: keep t3)
    moreover have "bubble_ok s' q"
      using ok 2 len isl(2) by (simp add: s' s2 t3 bubble_ok_def csize_def Let_def)
    ultimately show ?thesis using isl(3) by (auto simp: s' s2 t3 intro!: torus_invI [OF inv q])
  next
    case 3
    then have t3: "s3 = s2"
      using t take_place_simps(3) [of s2 q env b2 lp] len by (auto simp: s2 csize_def)
    then have "in_send_loop s3 = in_send_loop s" by (simp add: s2)
    note isl = isl [OF this]
    have "torus_shape s'" using sh l isl(1) by (simp add: keep t3)
    moreover have "bubble_ok s' q"
      using ok 3 len isl(2) cs by (auto simp: s' s2 t3 bubble_ok_def csize_def Let_def)
    ultimately show ?thesis using isl(3) by (auto simp: s' s2 t3 intro!: torus_invI [OF inv q])
  qed
qed
lemma mark_fullE:
  assumes "mark_full now q s b msg = (s', b', msg')"
  shows "s' = s\<lparr>last_buf_full := last_buf_full s'\<rparr>" and "b' = b\<lparr>c24 := c24 b'\<rparr>"
    and "msg' = msg\<lparr>saved_busy_time := saved_busy_time msg'\<rparr>"
    and "length (last_buf_full s') = length (last_buf_full s)"
    and "\<not> c24 b \<Longrightarrow> (if c24 b' then (last_buf_full s')[q := saved_busy_time msg'] else last_buf_full s') = last_buf_full s"
  using assms by (auto simp: mark_full_def list_update_same split: if_splits)

text \<open>The four ways of a chunk that goes on: it waits to go straight on, it waits to turn, or it takes a
  place in the buffer.\<close>

lemma enqueue_chunk_cases:
  assumes run: "enqueue_chunk env q same_dim ck s b msg lp = (s', b', msg', lp', outs)" and "\<not> c24 b"
  obtains (straight) lbf ck' where "same_dim" "buffer_size (tp_params (place s)) < buffer s ! q + csize s"
      "s' = s\<lparr>queued_msgs := (queued_msgs s)[q := queued_msgs s ! q @ [ck']],
              queued_length := (queued_length s)[q := queued_length s ! q + csize s], last_buf_full := lbf\<rparr>"
      "b' = b\<lparr>c30 := True, c24 := c24 b'\<rparr>" "lp' = lp"
      "length lbf = length (last_buf_full s)"
      "(if c24 b' then lbf[q := saved_busy_time msg'] else lbf) = last_buf_full s"
      "msg' = msg\<lparr>saved_busy_time := saved_busy_time msg'\<rparr>"
  | (turn) lbf ck' where "\<not> same_dim" "buffer_size (tp_params (place s)) < buffer s ! q + 2 * csize s"
      "s' = s\<lparr>other_msgs := (other_msgs s)[q := other_msgs s ! q @ [ck']], last_buf_full := lbf\<rparr>"
      "b' = b\<lparr>c8 := True, c24 := c24 b'\<rparr>" "lp' = lp"
      "length lbf = length (last_buf_full s)"
      "(if c24 b' then lbf[q := saved_busy_time msg'] else lbf) = last_buf_full s"
      "msg' = msg\<lparr>saved_busy_time := saved_busy_time msg'\<rparr>"
  | (taken) "buffer s ! q + csize s \<le> buffer_size (tp_params (place s)) \<or>
        buffer s ! q + 2 * csize s \<le> buffer_size (tp_params (place s))"
      "s' = s\<lparr>buffer := (buffer s)[q := buffer s ! q + csize s],
              pending_msgs := (pending_msgs s)[q := pending_msgs s ! q @ [ck]]\<rparr>"
      "b' = b\<lparr>c9 := True\<rparr> \<or> b' = b\<lparr>c11 := True\<rparr>" "msg' = msg" "rand_reverse lp' = lp"
proof -
  let ?w = "ck\<lparr>ck_msg := (ck_msg ck)\<lparr>saved_queue := source_direction msg + source_dim msg * 2\<rparr>\<rparr>"
  consider (1) "same_dim" "buffer_size (tp_params (place s)) < buffer s ! q + csize s"
    | (2) "\<not> same_dim" "buffer_size (tp_params (place s)) < buffer s ! q + 2 * csize s"
    | (3) "if same_dim then buffer s ! q + csize s \<le> buffer_size (tp_params (place s))
           else buffer s ! q + 2 * csize s \<le> buffer_size (tp_params (place s))"
    by (cases same_dim) force+
  then show thesis
  proof cases
    case 1
    obtain s1 b1 m1 where m: "mark_full (me_now (te_env env)) q
        (s\<lparr>queued_msgs := append_to_node_message_list (queued_msgs s) q ?w,
           queued_length := (queued_length s)[q := queued_length s ! q + csize s]\<rparr>) (b\<lparr>c30 := True\<rparr>) msg = (s1, b1, m1)"
      by (metis prod_cases3)
    then have e: "s' = s1" "b' = b1" "msg' = m1" "lp' = lp"
      using run 1 by (auto simp: enqueue_chunk_def split_beta Let_def)
    show ?thesis
      using 1 mark_fullE [OF m [folded e]] assms(2) e(4) by (intro straight [of "last_buf_full s'" ?w]) (simp_all add: message_lists split del: if_split)
  next
    case 2
    obtain s1 b1 m1 where m: "mark_full (me_now (te_env env)) q
        (s\<lparr>other_msgs := append_to_node_message_list (other_msgs s) q ?w\<rparr>) (b\<lparr>c8 := True\<rparr>) msg = (s1, b1, m1)"
      by (metis prod_cases3)
    then have e: "s' = s1" "b' = b1" "msg' = m1" "lp' = lp"
      using run 2 by (auto simp: enqueue_chunk_def split_beta Let_def)
    show ?thesis
      using 2 mark_fullE [OF m [folded e]] assms(2) e(4) by (intro turn [of "last_buf_full s'" ?w]) (simp_all add: message_lists split del: if_split)
  next
    case 3
    then show ?thesis
      using run by (intro taken) (auto simp: enqueue_chunk_def split_beta Let_def message_lists split: if_splits)
  qed
qed

end
