(* ===== verification/Torus_Events.thy ===== *)
theory Torus_Events
  imports Torus_Links
begin

text \<open>
  The events of a torus node as a whole: every event keeps the links in order, and every event of
  the network is undone by its reverse handler.
\<close>

subsection \<open>Arrival on the way\<close>

lemma arrive_on_the_way_outcome:
  assumes run: "arrive_on_the_way env s b msg data lp = Inr (s', b', msg', lp', outs)"
  obtains nxt dm dir q ck s1 b1 lp1 outs1 woken outs2 where
    "dimension_order_routing (me_conf (te_env env)) (place s) (tm_dest_lp msg) = Inr (nxt, dm, dir)"
    and "queue_index (place s) dir dm = Inr q"
    and "enqueue_chunk env q (source_dim msg = dm) ck s (b\<lparr>c6 := True\<rparr>) (msg\<lparr>source_channel := int q\<rparr>) lp
         = (s1, b1, msg', lp1, outs1)"
    and "wake env dir dm q 0 s1 lp1 = (s', woken, lp', outs2)"
    and "b' = b1\<lparr>c13 := woken\<rparr>" and "outs = outs1 @ outs2"
proof -
  obtain nxt dm dir q ed where r: "dimension_order_routing (me_conf (te_env env)) (place s) (tm_dest_lp msg) = Inr (nxt, dm, dir)"
    and q: "queue_index (place s) dir dm = Inr q"
    and ed: "(if tm_remote_event_size_bytes msg > 0
               then bind_res (memcpy (Some data) (tm_remote_event_size_bytes msg)) (\<lambda>re. Inr (Some re))
               else Inr None) = Inr ed"
    using run by (auto simp: arrive_on_the_way_def bind_res_Inr_iff)
  define ck where "ck = \<lparr>ck_msg = msg\<lparr>next_stop := nxt, source_dim := dm, source_direction := dir\<rparr>, ck_event_data = ed\<rparr>"
  obtain s1 b1 m1 lp1 outs1 where e: "enqueue_chunk env q (source_dim msg = dm) ck s (b\<lparr>c6 := True\<rparr>)
      (msg\<lparr>source_channel := int q\<rparr>) lp = (s1, b1, m1, lp1, outs1)"
    by (metis prod_cases5)
  obtain s2 woken lp2 outs2 where w: "wake env dir dm q 0 s1 lp1 = (s2, woken, lp2, outs2)"
    by (metis prod_cases4)
  have "m1 = msg'" "s2 = s'" "lp2 = lp'" "b' = b1\<lparr>c13 := woken\<rparr>" "outs = outs1 @ outs2"
    using run r q ed e w by (auto simp: arrive_on_the_way_def init_nodes_message_list_def ck_def split del: if_split)
  then show thesis using that [OF r q, of ck s1 b1 lp1 outs1 woken outs2] e w by simp
qed

lemma arrive_on_the_way_keeps_inv:
  assumes run: "arrive_on_the_way env s tbf_clear msg data lp = Inr (s', b', msg', lp', outs)" and inv: "torus_inv s"
  shows "torus_inv s' \<and> place s' = place s"
proof -
  from arrive_on_the_way_outcome [OF run] obtain dm dir q ck s1 b1 lp1 outs1 woken outs2 where
    qi: "queue_index (place s) dir dm = Inr q"
    and e: "enqueue_chunk env q (source_dim msg = dm) ck s (tbf_clear\<lparr>c6 := True\<rparr>) (msg\<lparr>source_channel := int q\<rparr>) lp
         = (s1, b1, msg', lp1, outs1)"
    and w: "wake env dir dm q 0 s1 lp1 = (s', woken, lp', outs2)" by metis
  note q = queue_index_lt [OF qi]
  have sh: "torus_shape s" and cs: "0 \<le> csize s" and ok: "bubble_ok s q"
    using inv q by (simp_all add: torus_inv_def)
  note len = torus_shapeD [OF sh q]
  define isl where "isl = in_send_loop s'"
  have s': "s' = s1\<lparr>in_send_loop := isl\<rparr>" using wakeE(1) [OF w] by (simp add: isl_def)
  have isl: "length isl = length (in_send_loop s)" "isl ! q \<noteq> 0" "\<And>i. i \<noteq> q \<Longrightarrow> isl ! i = in_send_loop s ! i"
    if "in_send_loop s1 = in_send_loop s"
    using wakeE(2,3) [OF w] len that by (auto simp: isl_def)
  have nc: "\<not> c24 (tbf_clear\<lparr>c6 := True\<rparr>)" by simp
  show ?thesis
  proof (cases rule: enqueue_chunk_cases [OF e nc])
    case (1 lbf ck')
    note isl = isl [unfolded 1(3), simplified]
    have "torus_shape s'" using sh isl(1) 1(6) by (simp add: s' 1(3) torus_shape_def Let_def)
    moreover have "bubble_ok s' q"
      using ok 1(2) len isl(2) by (simp add: s' 1(3) bubble_ok_def csize_def Let_def)
    ultimately show ?thesis using isl(3) by (auto simp: s' 1(3) intro!: torus_invI [OF inv q])
  next
    case (2 lbf ck')
    note isl = isl [unfolded 2(3), simplified]
    have "torus_shape s'" using sh isl(1) 2(6) by (simp add: s' 2(3) torus_shape_def Let_def)
    moreover have "bubble_ok s' q"
      using ok 2(2) len isl(2) by (simp add: s' 2(3) bubble_ok_def csize_def Let_def)
    ultimately show ?thesis using isl(3) by (auto simp: s' 2(3) intro!: torus_invI [OF inv q])
  next
    case 3
    note isl = isl [unfolded 3(2), simplified]
    have "torus_shape s'" using sh isl(1) by (simp add: s' 3(2) torus_shape_def Let_def)
    moreover have "bubble_ok s' q"
      using ok 3(1) len isl(2) cs by (auto simp: s' 3(2) bubble_ok_def csize_def Let_def)
    ultimately show ?thesis using isl(3) by (auto simp: s' 3(2) intro!: torus_invI [OF inv q])
  qed
qed

lemma arrive_on_the_way_reverse:
  assumes run: "arrive_on_the_way env s tbf_clear msg data lp = Inr (s', b', msg', lp', outs)" and sh: "torus_shape s"
  shows "arrive_on_the_way_rc s' b' msg' lp' = Inr (s, lp)" and "c6 b'" and "\<not> c1 b'"
    and "my_N_hop msg' = my_N_hop msg"
proof -
  from arrive_on_the_way_outcome [OF run] obtain dm dir q ck s1 b1 lp1 outs1 woken outs2 where
    qi: "queue_index (place s) dir dm = Inr q"
    and e: "enqueue_chunk env q (source_dim msg = dm) ck s (tbf_clear\<lparr>c6 := True\<rparr>) (msg\<lparr>source_channel := int q\<rparr>) lp
         = (s1, b1, msg', lp1, outs1)"
    and w: "wake env dir dm q 0 s1 lp1 = (s', woken, lp', outs2)" and b': "b' = b1\<lparr>c13 := woken\<rparr>" by metis
  note q = queue_index_lt [OF qi]
  note len = torus_shapeD [OF sh q]
  define isl where "isl = in_send_loop s'"
  have s': "s' = s1\<lparr>in_send_loop := isl\<rparr>" using wakeE(1) [OF w] by (simp add: isl_def)
  have w2: "wake_rc woken q (s\<lparr>in_send_loop := isl\<rparr>) lp' = (s, lp1)" if "in_send_loop s1 = in_send_loop s"
    using wake_back [OF w that] by (simp add: isl_def)
  have nc: "\<not> c24 (tbf_clear\<lparr>c6 := True\<rparr>)" by simp
  have "arrive_on_the_way_rc s' b' msg' lp' = Inr (s, lp) \<and> c6 b' \<and> \<not> c1 b' \<and> my_N_hop msg' = my_N_hop msg \<and> source_channel msg' = int q"
  proof (cases rule: enqueue_chunk_cases [OF e nc])
    case (1 lbf ck')
    have m: "source_channel msg' = int q" "my_N_hop msg' = my_N_hop msg" by (subst 1(8), simp)+
    have b1: "c30 b1" "\<not> c9 b1" "\<not> c11 b1" "\<not> c8 b1" "c6 b1" "\<not> c1 b1" by (subst 1(4), simp)+
    show ?thesis using q len b1 m w2 1(3,5,7)
      by (cases "c24 b1"; simp add: arrive_on_the_way_rc_def b' s' message_lists csize_def Let_def)
  next
    case (2 lbf ck')
    have m: "source_channel msg' = int q" "my_N_hop msg' = my_N_hop msg" by (subst 2(8), simp)+
    have b1: "\<not> c30 b1" "\<not> c9 b1" "\<not> c11 b1" "c8 b1" "c6 b1" "\<not> c1 b1" by (subst 2(4), simp)+
    show ?thesis using q len b1 m w2 2(3,5,7)
      by (cases "c24 b1"; simp add: arrive_on_the_way_rc_def b' s' message_lists csize_def Let_def)
  next
    case 3
    have b1: "\<not> c30 b1" "c9 b1 \<or> c11 b1" "\<not> c8 b1" "c6 b1" "\<not> c1 b1" using 3(3) by auto
    show ?thesis using q len b1 w2 3(2,4,5)
      by (simp add: arrive_on_the_way_rc_def b' s' message_lists csize_def Let_def wake_rc_rand)
  qed
  then show "arrive_on_the_way_rc s' b' msg' lp' = Inr (s, lp)" and "c6 b'" and "\<not> c1 b'"
    and "my_N_hop msg' = my_N_hop msg" by simp_all
qed

subsection \<open>Generation\<close>

text \<open>Chunk \<open>j\<close> of a packet.\<close>

definition packet_chunk :: "nodes_message \<Rightarrow> bytes option \<Rightarrow> nat \<Rightarrow> chunk" where
  "packet_chunk msg ed j = \<lparr>ck_msg = msg\<lparr>chunk_id := of_nat j\<rparr>, ck_event_data = ed\<rparr>"

lemma generate_chunks_eq:
  assumes "q < length (terminal_msgs s)" and "q < length (terminal_length s)"
  shows "generate_chunks msg ed q js s =
     s\<lparr>terminal_msgs := (terminal_msgs s)[q := terminal_msgs s ! q @ map (packet_chunk msg ed) js],
       terminal_length := (terminal_length s)[q := terminal_length s ! q + int (length js) * csize s],
       all_term_length := all_term_length s + int (length js) * csize s\<rparr>"
  using assms
proof (induction js arbitrary: s)
  case (Cons j js)
  then show ?case
    by (simp add: Let_def init_nodes_message_list_def packet_chunk_def message_lists csize_def algebra_simps)
qed simp

lemma drop_chunks_eq:
  assumes "q < length (terminal_msgs s)" and "q < length (terminal_length s)"
    and "terminal_msgs s ! q = xs @ ys"
  shows "drop_chunks q (length ys) s = Inr (
     s\<lparr>terminal_msgs := (terminal_msgs s)[q := xs],
       terminal_length := (terminal_length s)[q := terminal_length s ! q - int (length ys) * csize s],
       all_term_length := all_term_length s - int (length ys) * csize s\<rparr>)"
  using assms
proof (induction ys arbitrary: s rule: rev_induct)
  case Nil
  then show ?case by (simp add: list_update_same)
next
  case (snoc y ys)
  have t: "return_tail (terminal_msgs s) q = Inr ((terminal_msgs s)[q := xs @ ys], y)"
    using snoc.prems by (simp add: return_tail_def butlast_append)
  show ?case
    using snoc.prems by (simp add: t snoc.IH csize_def algebra_simps)
qed

text \<open>The entry of a category after an event has been undone: the category and the largest event stay.\<close>

definition torus_stats_touched :: "mn_stats list \<Rightarrow> nat \<Rightarrow> string \<Rightarrow> int \<Rightarrow> mn_stats list" where
  "torus_stats_touched arr i cat esz =
     arr[i := (arr ! i)\<lparr>st_category := cat,
       max_event_size := (if max_event_size (arr ! i) < esz then esz else max_event_size (arr ! i))\<rparr>]"

lemma packet_generate_outcome:
  assumes run: "packet_generate env wrap_size s b msg data lp = Inr (s', b', msg', lp', outs)"
    and sh: "torus_shape s"
  obtains nxt dm dir q n ed i arr s2 woken where
    "dimension_order_routing (me_conf (te_env env)) (place s) (tm_dest_lp msg) = Inr (nxt, dm, dir)"
    and "queue_index (place s) dir dm = Inr q" and "chunks_of s (tm_packet_size msg) = Inr n"
    and "model_net_find_stats (tm_category msg) (torus_stats_array s) = Inr (i, arr)"
    and "msg' = msg\<lparr>packet_ID := packet_counter s, my_N_hop := 0, source_direction := dir, source_dim := dm,
                    next_stop := nxt, saved_queue := -1\<rparr>"
    and "wake env dir dm q (cn_delay (tp_params (place s)) * real (unat (tm_packet_size msg)))
           (s\<lparr>packet_counter := packet_counter s + 1,
              terminal_msgs := (terminal_msgs s)[q := terminal_msgs s ! q @ map (packet_chunk msg' ed) [0..<unat n]],
              terminal_length := (terminal_length s)[q := terminal_length s ! q + int (unat n) * csize s],
              all_term_length := all_term_length s + int (unat n) * csize s\<rparr>) lp = (s2, woken, lp', outs)"
    and "s' = s2\<lparr>torus_stats_array := arr[i := send_stat (link_bandwidth (tp_params (place s))) (tm_packet_size msg)
           (wrap_size + tm_remote_event_size_bytes msg + tm_local_event_size_bytes msg) (arr ! i)]\<rparr>"
    and "b' = b\<lparr>c8 := woken\<rparr>"
proof -
  obtain nxt dm dir q n ed i arr where
    r: "dimension_order_routing (me_conf (te_env env)) (place s) (tm_dest_lp msg) = Inr (nxt, dm, dir)"
    and q: "queue_index (place s) dir dm = Inr q" and n: "chunks_of s (tm_packet_size msg) = Inr n"
    and ed: "chunk_data msg data = Inr ed"
    and f: "model_net_find_stats (tm_category msg) (torus_stats_array s) = Inr (i, arr)"
    using run by (auto simp: packet_generate_def bind_res_Inr_iff)
  note len = torus_shapeD [OF sh queue_index_lt [OF q]]
  define msg1 where "msg1 = msg\<lparr>packet_ID := packet_counter s, my_N_hop := 0, source_direction := dir, source_dim := dm,
                    next_stop := nxt, saved_queue := -1\<rparr>"
  define s1 where "s1 = s\<lparr>packet_counter := packet_counter s + 1,
              terminal_msgs := (terminal_msgs s)[q := terminal_msgs s ! q @ map (packet_chunk msg1 ed) [0..<unat n]],
              terminal_length := (terminal_length s)[q := terminal_length s ! q + int (unat n) * csize s],
              all_term_length := all_term_length s + int (unat n) * csize s\<rparr>"
  have g: "generate_chunks msg1 ed q [0..<unat n] (s\<lparr>packet_counter := packet_counter s + 1\<rparr>) = s1"
    using len by (simp add: generate_chunks_eq s1_def csize_def)
  obtain s2 woken lp2 outs2 where w: "wake env dir dm q (cn_delay (tp_params (place s)) * real (unat (tm_packet_size msg)))
      s1 lp = (s2, woken, lp2, outs2)" by (metis prod_cases4)
  have fin: "msg' = msg1" "lp' = lp2" "outs = outs2" "b' = b\<lparr>c8 := woken\<rparr>"
    "s' = s2\<lparr>torus_stats_array := arr[i := send_stat (link_bandwidth (tp_params (place s))) (tm_packet_size msg)
           (wrap_size + tm_remote_event_size_bytes msg + tm_local_event_size_bytes msg) (arr ! i)]\<rparr>"
    using run r q n ed f g w by (simp_all add: packet_generate_def msg1_def [symmetric] Let_def)
  show thesis
    by (rule that [OF r q n f _ w [unfolded s1_def, folded fin] fin(5,4)]) (simp add: fin(1) msg1_def)
qed

lemma packet_generate_keeps_inv:
  assumes run: "packet_generate env wrap_size s b msg data lp = Inr (s', b', msg', lp', outs)" and inv: "torus_inv s"
  shows "torus_inv s' \<and> place s' = place s"
proof -
  have sh: "torus_shape s" using inv by (simp add: torus_inv_def)
  obtain nxt dm dir q n ed i arr s2 woken where
    "dimension_order_routing (me_conf (te_env env)) (place s) (tm_dest_lp msg) = Inr (nxt, dm, dir)"
    and qi: "queue_index (place s) dir dm = Inr q" and n: "chunks_of s (tm_packet_size msg) = Inr n"
    and f: "model_net_find_stats (tm_category msg) (torus_stats_array s) = Inr (i, arr)"
    and m': "msg' = msg\<lparr>packet_ID := packet_counter s, my_N_hop := 0, source_direction := dir, source_dim := dm,
                    next_stop := nxt, saved_queue := -1\<rparr>"
    and w: "wake env dir dm q (cn_delay (tp_params (place s)) * real (unat (tm_packet_size msg)))
           (s\<lparr>packet_counter := packet_counter s + 1,
              terminal_msgs := (terminal_msgs s)[q := terminal_msgs s ! q @ map (packet_chunk msg' ed) [0..<unat n]],
              terminal_length := (terminal_length s)[q := terminal_length s ! q + int (unat n) * csize s],
              all_term_length := all_term_length s + int (unat n) * csize s\<rparr>) lp = (s2, woken, lp', outs)"
    and s': "s' = s2\<lparr>torus_stats_array := arr[i := send_stat (link_bandwidth (tp_params (place s))) (tm_packet_size msg)
           (wrap_size + tm_remote_event_size_bytes msg + tm_local_event_size_bytes msg) (arr ! i)]\<rparr>"
    and "b' = b\<lparr>c8 := woken\<rparr>"
    by (rule packet_generate_outcome [OF run sh])
  note q = queue_index_lt [OF qi]
  have ok: "bubble_ok s q" using inv q by (simp add: torus_inv_def)
  note len = torus_shapeD [OF sh q]
  define isl where "isl = in_send_loop s2"
  have isl: "length isl = length (in_send_loop s)" "isl ! q \<noteq> 0" "\<And>i. i \<noteq> q \<Longrightarrow> isl ! i = in_send_loop s ! i"
    using wakeE(2,3) [OF w] len by (auto simp: isl_def)
  note s2 = wakeE(1) [OF w, folded isl_def]
  have "torus_shape s'" using sh isl(1) by (simp add: s' s2 torus_shape_def Let_def)
  moreover have "bubble_ok s' q"
    using ok len isl(2) by (simp add: s' s2 bubble_ok_def csize_def Let_def)
  ultimately show ?thesis using isl(3) by (auto simp: s' s2 intro!: torus_invI [OF inv q])
qed

lemma packet_generate_reverse:
  assumes run: "packet_generate env wrap_size s tbf_clear msg data lp = Inr (s', b', msg', lp', outs)"
    and sh: "torus_shape s"
  shows "\<exists>i. packet_generate_rc s' b' msg' lp' =
      Inr (s\<lparr>torus_stats_array := torus_stats_touched (torus_stats_array s) i (tm_category msg)
             (wrap_size + tm_remote_event_size_bytes msg + tm_local_event_size_bytes msg)\<rparr>, lp)"
proof -
  obtain nxt dm dir q n ed i arr s2 woken where
    "dimension_order_routing (me_conf (te_env env)) (place s) (tm_dest_lp msg) = Inr (nxt, dm, dir)"
    and qi: "queue_index (place s) dir dm = Inr q" and n: "chunks_of s (tm_packet_size msg) = Inr n"
    and f: "model_net_find_stats (tm_category msg) (torus_stats_array s) = Inr (i, arr)"
    and m': "msg' = msg\<lparr>packet_ID := packet_counter s, my_N_hop := 0, source_direction := dir, source_dim := dm,
                    next_stop := nxt, saved_queue := -1\<rparr>"
    and w: "wake env dir dm q (cn_delay (tp_params (place s)) * real (unat (tm_packet_size msg)))
           (s\<lparr>packet_counter := packet_counter s + 1,
              terminal_msgs := (terminal_msgs s)[q := terminal_msgs s ! q @ map (packet_chunk msg' ed) [0..<unat n]],
              terminal_length := (terminal_length s)[q := terminal_length s ! q + int (unat n) * csize s],
              all_term_length := all_term_length s + int (unat n) * csize s\<rparr>) lp = (s2, woken, lp', outs)"
    and s': "s' = s2\<lparr>torus_stats_array := arr[i := send_stat (link_bandwidth (tp_params (place s))) (tm_packet_size msg)
           (wrap_size + tm_remote_event_size_bytes msg + tm_local_event_size_bytes msg) (arr ! i)]\<rparr>"
    and b': "b' = tbf_clear\<lparr>c8 := woken\<rparr>"
    by (rule packet_generate_outcome [OF run sh])
  note len = torus_shapeD [OF sh queue_index_lt [OF qi]]
  define isl where "isl = in_send_loop s2"
  note s2 = wakeE(1) [OF w, folded isl_def]
  define arr' where "arr' = arr[i := send_stat (link_bandwidth (tp_params (place s))) (tm_packet_size msg)
           (wrap_size + tm_remote_event_size_bytes msg + tm_local_event_size_bytes msg) (arr ! i)]"
  note e = find_stats_entry [OF f]
  have stat: "arr ! i = (torus_stats_array s ! i)\<lparr>st_category := tm_category msg\<rparr>" using e(2,3) by simp
  have g: "model_net_find_stats (tm_category msg) arr' = Inr (i, arr')"
    unfolding arr'_def by (rule find_stats_updated [OF f]) (simp add: stat send_stat_def)
  have ia: "i < length arr" using e(2,3) by simp
  have cs: "chunks_of s' (tm_packet_size msg) = Inr n" "csize s' = csize s"
    using n by (simp_all add: chunks_of_def csize_def s' s2)
  let ?t = "terminal_msgs s ! q @ map (packet_chunk msg' ed) [0..<unat n]"
  have d: "drop_chunks q (unat n) (s'\<lparr>packet_counter := packet_counter s' - 1\<rparr>) =
      Inr (s\<lparr>torus_stats_array := arr', in_send_loop := isl\<rparr>)"
    using drop_chunks_eq [of q "s'\<lparr>packet_counter := packet_counter s' - 1\<rparr>" "terminal_msgs s ! q"
        "map (packet_chunk msg' ed) [0..<unat n]"] len
    by (simp add: s' s2 arr'_def csize_def)
  have wb: "wake_rc woken q (s\<lparr>torus_stats_array := arr', in_send_loop := isl\<rparr>) lp' =
      (s\<lparr>torus_stats_array := arr'\<rparr>, lp)"
    using wake_back [OF w, of "s\<lparr>torus_stats_array := arr'\<rparr>"] by (simp add: isl_def)
  have fin: "arr'[i := (arr' ! i)\<lparr>send_count := send_count (arr' ! i) - 1,
        send_bytes := send_bytes (arr' ! i) - int (unat (tm_packet_size msg)),
        send_time := send_time (arr' ! i) - (1 / link_bandwidth (tp_params (place s))) * real (unat (tm_packet_size msg))\<rparr>]
      = torus_stats_touched (torus_stats_array s) i (tm_category msg)
             (wrap_size + tm_remote_event_size_bytes msg + tm_local_event_size_bytes msg)"
    using ia e(3) by (simp add: arr'_def send_stat_def stat torus_stats_touched_def)
  have "place s' = place s" by (simp add: s' s2)
  then have "packet_generate_rc s' b' msg' lp' =
      Inr (s\<lparr>torus_stats_array := torus_stats_touched (torus_stats_array s) i (tm_category msg)
             (wrap_size + tm_remote_event_size_bytes msg + tm_local_event_size_bytes msg)\<rparr>, lp)"
    using qi cs d wb g fin by (simp add: packet_generate_rc_def m' b' Let_def)
  then show ?thesis by blast
qed

subsection \<open>Sending\<close>

lemma pop_push:
  assumes "rcs_mode st \<noteq> RC_NONOPT"
  shows "rc_stack_pop (fst (rc_stack_push now d fr st)) = Inr (d, st)"
  using assms by (simp add: rc_stack_pop_def rc_stack_push_def)

lemma link_bytes_split:
  "(if fst (link_bytes s m n) then int (unat (tm_packet_size m mod word_of_int (csize s))) else 0) +
   (if \<not> fst (link_bytes s m n) then csize s else 0) = snd (link_bytes s m n)"
  by (simp add: link_bytes_def Let_def)

lemma send_chunk_reverse:
  assumes run: "send_chunk env q isT cur s1 (tbf_clear\<lparr>c3 := isT\<rparr>) msg lp = Inr (s', b', msg', lp', outs)"
    and s1: "s1 = (if isT then s\<lparr>buffer := (buffer s)[q := buffer s ! q + csize s]\<rparr> else s)"
    and qi: "queue_index (place s) (source_direction msg) (source_dim msg) = Inr q"
    and sh: "torus_shape s" and opt: "rcs_mode (ts_st s) \<noteq> RC_NONOPT" and loop: "in_send_loop s ! q = 1"
    and cur: "(if isT then terminal_msgs s ! q else pending_msgs s ! q) = cur # rest"
  shows "packet_send_rc s' b' msg' lp' = Inr (s, lp)"
proof -
  note len = torus_shapeD [OF sh queue_index_lt [OF qi]]
  have same: "place s1 = place s" "terminal_msgs s1 = terminal_msgs s" "pending_msgs s1 = pending_msgs s"
    "csize s1 = csize s" "ts_st s1 = ts_st s" "in_send_loop s1 = in_send_loop s"
    "next_link_available_time s1 = next_link_available_time s" "link_traffic s1 = link_traffic s"
    "terminal_length s1 = terminal_length s" "all_term_length s1 = all_term_length s"
    by (simp_all add: s1 csize_def)
  have l1: "q < length (terminal_msgs s1)" "q < length (pending_msgs s1)" using len by (simp_all add: same)
  obtain n avail more_chunks has_local where n: "chunks_of s1 (tm_packet_size (ck_msg cur)) = Inr n"
    and mc: "more_chunks = (if isT then tl (terminal_msgs s1 ! q) \<noteq> []
                        else tl (pending_msgs s1 ! q) \<noteq> [] \<or> terminal_msgs s1 ! q \<noteq> [])"
    and hl: "has_local = (chunk_id (ck_msg cur) = n - 1 \<and> tm_local_event_size_bytes (ck_msg cur) > 0)"
    and s': "s' = s1\<lparr>next_link_available_time := (next_link_available_time s1)[q := avail],
                link_traffic := (link_traffic s1)[q := link_traffic s1 ! q + snd (link_bytes s1 (ck_msg cur) n)],
                terminal_msgs := (if isT then (terminal_msgs s1)[q := tl (terminal_msgs s1 ! q)] else terminal_msgs s1),
                terminal_length := (if isT then (terminal_length s1)[q := terminal_length s1 ! q - csize s1]
                                    else terminal_length s1),
                all_term_length := (if isT then all_term_length s1 - csize s1 else all_term_length s1),
                pending_msgs := (if isT then pending_msgs s1 else (pending_msgs s1)[q := tl (pending_msgs s1 ! q)]),
                ts_st := fst (rc_stack_push (me_now (te_env env)) cur True (ts_st s1)),
                in_send_loop := (if more_chunks then in_send_loop s1 else (in_send_loop s1)[q := 0])\<rparr>"
    and b': "b' = tbf_clear\<lparr>c3 := isT, c20 := fst (link_bytes s1 (ck_msg cur) n), c21 := \<not> fst (link_bytes s1 (ck_msg cur) n),
                c6 := has_local, c31 := isT, c8 := \<not> isT, c9 := more_chunks, c10 := \<not> more_chunks\<rparr>"
    and msg': "msg' = msg\<lparr>saved_available_time := next_link_available_time s1 ! q\<rparr>"
    and lp: "latency_reverse ((if has_local then latency_reverse else id) ((if more_chunks then latency_reverse else id) lp')) = lp"
    by (rule send_chunk_outcome [OF run l1]) simp
  have lb: "link_bytes s1 = link_bytes s" by (rule ext)+ (simp add: link_bytes_def same Let_def)
  define traffic where "traffic = snd (link_bytes s (ck_msg cur) n)"
  have tr: "(if fst (link_bytes s (ck_msg cur) n) then int (unat (tm_packet_size (ck_msg cur) mod word_of_int (csize s))) else 0) +
     (if \<not> fst (link_bytes s (ck_msg cur) n) then csize s else 0) = traffic"
    unfolding traffic_def by (rule link_bytes_split)
  have lp': "(if more_chunks then latency_reverse else id) ((if has_local then latency_reverse else id) (latency_reverse lp')) = lp"
    using lp by (cases has_local; cases more_chunks) simp_all
  have loop1: "(in_send_loop s)[q := 1] = in_send_loop s" using loop by (simp add: list_update_same)
  define big where "big = fst (link_bytes s (ck_msg cur) n)"
  note state = s' [unfolded lb same, folded traffic_def]
  note flags = b' [unfolded lb, folded big_def] and tr = tr [folded big_def]
  note rc = packet_send_rc_def state s1 flags msg' same pop_push [OF opt] Let_def message_lists put_back csize_def
  show ?thesis
  proof (cases isT)
    case True
    then have "terminal_msgs s ! q = cur # rest" using cur by simp
    with qi len True lp' tr loop1 show ?thesis
      by (cases big; cases has_local; cases more_chunks; simp add: rc)
  next
    case False
    then have "pending_msgs s ! q = cur # rest" using cur by simp
    with qi len False lp' tr loop1 show ?thesis
      by (cases big; cases has_local; cases more_chunks; simp add: rc)
  qed
qed

lemma packet_send_reverse:
  assumes run: "packet_send env s tbf_clear msg lp = Inr (s', b', msg', lp', outs)"
    and qi: "queue_index (place s) (source_direction msg) (source_dim msg) = Inr q"
    and sh: "torus_shape s" and opt: "rcs_mode (ts_st s) \<noteq> RC_NONOPT" and loop: "in_send_loop s ! q = 1"
  shows "packet_send_rc s' b' msg' lp' = Inr (s, lp)"
proof -
  note len = torus_shapeD [OF sh queue_index_lt [OF qi]]
  have loop1: "(in_send_loop s)[q := 1] = in_send_loop s" using loop by (simp add: list_update_same)
  show ?thesis
  proof (cases "pending_msgs s ! q")
    case (Cons cur rest)
    have e: "tbf_clear\<lparr>c3 := False\<rparr> = tbf_clear" by (simp add: tbf_clear_def)
    have "send_chunk env q False cur s (tbf_clear\<lparr>c3 := False\<rparr>) msg lp = Inr (s', b', msg', lp', outs)"
      using run qi Cons unfolding e by (simp add: packet_send_def)
    from send_chunk_reverse [OF this _ qi sh opt loop, of rest] show ?thesis using Cons by simp
  next
    case Nil
    note pend = this
    show ?thesis
    proof (cases "terminal_msgs s ! q")
      case Nil
      then show ?thesis
        using run [symmetric] qi pend loop1 by (simp add: packet_send_def packet_send_rc_def)
    next
      case (Cons cur rest)
      show ?thesis
      proof (cases "buffer s ! q + 2 * csize s \<le> buffer_size (tp_params (place s))")
        case True
        have "send_chunk env q True cur (s\<lparr>buffer := (buffer s)[q := buffer s ! q + csize s]\<rparr>) (tbf_clear\<lparr>c3 := True\<rparr>) msg lp
            = Inr (s', b', msg', lp', outs)"
          using run qi pend Cons True by (simp add: packet_send_def)
        from send_chunk_reverse [OF this _ qi sh opt loop, of rest] show ?thesis using Cons by simp
      next
        case False
        then show ?thesis
          using run [symmetric] qi pend Cons loop1 len
          by (cases "queued_msgs s ! q \<noteq> [] \<and> last_buf_full s ! q = 0"; simp only: packet_send_def packet_send_rc_def Let_def
              bind_res_simps list.case if_True if_False; simp add: list_update_same)
      qed
    qed
  qed
qed

subsection \<open>Arrival at the destination\<close>

lemma arrive_here_outcome:
  assumes run: "arrive_here env g tg s b msg data ts lp = Inr (s', b', msg', tg', g', lp', outs)"
  obtains (chunk) "s' = s\<lparr>total_data_sz := total_data_sz s + csize s\<rparr>" "b' = b\<lparr>c1 := True\<rparr>" "msg' = msg" "tg' = tg"
      "lp' = fst (credit_send env s msg False lp)"
  | (packet) i arr newmax msg1 ret dels where
      "model_net_find_stats (tm_category msg) (torus_stats_array s) = Inr (i, arr)"
      "finish_packet (me_now (te_env env)) tg (s\<lparr>total_data_sz := total_data_sz s + csize s\<rparr>) i arr msg = (s', tg', newmax, msg1)"
      "deliver env g msg data ts (fst (credit_send env s msg False lp)) = Inr (ret, g', lp', dels)"
      "b' = b\<lparr>c1 := True, c2 := True, c3 := newmax, c31 := (ret \<noteq> None)\<rparr>"
      "msg' = (case ret of None \<Rightarrow> msg1 | Some r \<Rightarrow> msg1\<lparr>tm_event_rc := r\<rparr>)"
proof -
  let ?s1 = "s\<lparr>total_data_sz := total_data_sz s + csize s\<rparr>"
  obtain lp1 credit where c: "credit_send env s msg False lp = (lp1, credit)" by (metis surj_pair)
  obtain n where n: "chunks_of s (tm_packet_size msg) = Inr n"
    using run c by (auto simp: arrive_here_def bind_res_Inr_iff Let_def)
  show thesis
  proof (cases "chunk_id msg = n - 1")
    case False
    then show ?thesis using run n c by (intro chunk) (auto simp: arrive_here_def Let_def)
  next
    case True
    then obtain i arr where f: "model_net_find_stats (tm_category msg) (torus_stats_array s) = Inr (i, arr)"
      using run n c by (auto simp: arrive_here_def bind_res_Inr_iff Let_def)
    obtain s2 tg1 newmax msg1 where p: "finish_packet (me_now (te_env env)) tg ?s1 i arr msg = (s2, tg1, newmax, msg1)"
      by (metis prod_cases4)
    have r: "bind_res (deliver env g msg data ts lp1) (\<lambda>(ret, g', lp2, outs).
          Inr (s2, b\<lparr>c1 := True, c2 := True, c3 := newmax, c31 := (ret \<noteq> None)\<rparr>,
               (case ret of None \<Rightarrow> msg1 | Some r \<Rightarrow> msg1\<lparr>tm_event_rc := r\<rparr>), tg1, g', lp2, credit # outs))
        = Inr (s', b', msg', tg', g', lp', outs)"
      using run n c f p True by (simp add: arrive_here_def Let_def)
    then obtain ret dels where "deliver env g msg data ts lp1 = Inr (ret, g', lp', dels)" "s' = s2" "tg' = tg1"
      "b' = b\<lparr>c1 := True, c2 := True, c3 := newmax, c31 := (ret \<noteq> None)\<rparr>"
      "msg' = (case ret of None \<Rightarrow> msg1 | Some r \<Rightarrow> msg1\<lparr>tm_event_rc := r\<rparr>)"
      by (auto simp: bind_res_Inr_iff)
    then show ?thesis using f p c by (intro packet) simp_all
  qed
qed

lemma arrive_here_keeps:
  assumes run: "arrive_here env g tg s b msg data ts lp = Inr (s', b', msg', tg', g', lp', outs)"
  shows "torus_inv s' = torus_inv s \<and> place s' = place s"
proof (cases rule: arrive_here_outcome [OF run])
  case 1
  then show ?thesis by (simp add: torus_inv_def torus_shape_def bubble_ok_def csize_def)
next
  case (2 i arr newmax msg1 ret dels)
  note e = 2(2) [unfolded finish_packet_def Let_def prod.inject, THEN conjunct1, symmetric]
  show ?thesis by (simp add: e torus_inv_def torus_shape_def bubble_ok_def csize_def)
qed

text \<open>Undoing the arrival of a packet leaves the entry of its category; the receive time of the entry
  becomes \<open>ts_total_time\<close> of the node, which \<open>saved_recv_time\<close> holds.\<close>

definition torus_recv_touched :: "nodes_state \<Rightarrow> nat \<Rightarrow> string \<Rightarrow> nodes_state" where
  "torus_recv_touched s i cat =
     s\<lparr>torus_stats_array := (torus_stats_array s)[i := (torus_stats_array s ! i)\<lparr>st_category := cat,
         recv_time := ts_total_time s\<rparr>]\<rparr>"

lemma event_mctx_lp:
  assumes "model_net_event_mctx env net sc rc cat fd sz off rs re ss se g lp = Inr (ret, g', lp', out)"
  shows "model_net_event_rc2 lp' ret = lp"
  using assms event_impl_base_lp [of env net sc rc cat fd sz False off rs re ss se g lp ret g' lp' out]
  by (simp add: model_net_event_mctx_def model_net_event_rc2_def model_net_event_impl_base_rc_def)

lemma deliver_lp:
  assumes "deliver env g msg data ts lp = Inr (ret, g', lp', outs)"
  shows "unif_draws lp' = unif_draws lp"
    and "tl_lp lp = (case ret of None \<Rightarrow> tl_lp lp' | Some r \<Rightarrow> model_net_event_rc2 (tl_lp lp') r)"
  using assms by (auto simp: deliver_def bind_res_Inr_iff dest: event_mctx_lp split: if_split_asm)

lemma arrive_here_reverse:
  assumes run: "arrive_here env g tg s tbf_clear msg data ts lp = Inr (s', b', msg', tg', g', lp', outs)"
  shows "c1 b' \<and> \<not> c6 b' \<and> my_N_hop msg' = my_N_hop msg \<and>
    (if c2 b' then \<exists>i arr. model_net_find_stats (tm_category msg) (torus_stats_array s) = Inr (i, arr) \<and>
       arrive_here_rc (me_now (te_env env)) tg' s' b' msg' lp' = Inr (torus_recv_touched s i (tm_category msg), tg, lp)
     else arrive_here_rc (me_now (te_env env)) tg' s' b' msg' lp' = Inr (s, tg, lp))"
proof (cases rule: arrive_here_outcome [OF run])
  case 1
  then show ?thesis by (simp add: arrive_here_rc_def csize_def Let_def)
next
  case (2 i arr newmax msg1 ret dels)
  define lp1 where "lp1 = fst (credit_send env s msg False lp)"
  define travel where "travel = me_now (te_env env) - travel_start_time msg"
  note f = 2(1) and d = 2(3) [folded lp1_def]
  have lp: "rand_reverse lp1 = lp" by (simp add: lp1_def)
  define st' where "st' = (arr ! i)\<lparr>recv_count := recv_count (arr ! i) + 1,
       recv_bytes := recv_bytes (arr ! i) + int (unat (tm_packet_size msg)), recv_time := recv_time (arr ! i) + travel\<rparr>"
  have s': "s' = s\<lparr>total_data_sz := total_data_sz s + csize s, torus_stats_array := arr[i := st'],
      ts_total_time := ts_total_time s + travel, finished_packets := finished_packets s + 1,
      ts_total_hops := ts_total_hops s + my_N_hop msg\<rparr>"
    and tg': "tg' = tg\<lparr>N_finished_packets := N_finished_packets tg + 1, tg_total_time := tg_total_time tg + travel,
      tg_total_hops := tg_total_hops tg + my_N_hop msg, tg_max_latency := (if newmax then travel else tg_max_latency tg)\<rparr>"
    and m1: "msg1 = msg\<lparr>saved_recv_time := ts_total_time s, saved_total_time := tg_total_time tg,
      saved_available_time := (if newmax then tg_max_latency tg else saved_available_time msg)\<rparr>"
    using 2(2) by (auto simp: finish_packet_def Let_def travel_def st'_def)
  note e = find_stats_entry [OF f]
  have stat: "arr ! i = (torus_stats_array s ! i)\<lparr>st_category := tm_category msg\<rparr>" using e(2,3) by simp
  have ia: "i < length arr" using e(2,3) by simp
  have g: "model_net_find_stats (tm_category msg) (arr[i := st']) = Inr (i, arr[i := st'])"
    by (rule find_stats_updated [OF f]) (simp add: stat st'_def)
  have m: "tm_category msg' = tm_category msg" "tm_packet_size msg' = tm_packet_size msg"
    "travel_start_time msg' = travel_start_time msg" "my_N_hop msg' = my_N_hop msg"
    "saved_recv_time msg' = ts_total_time s"
    "newmax \<Longrightarrow> saved_available_time msg' = tg_max_latency tg" "ret = Some r \<Longrightarrow> tm_event_rc msg' = r" for r
    by (simp_all add: 2(5) m1 split: option.split)
  have lp2: "(if ret \<noteq> None then (rand_reverse lp')\<lparr>tl_lp := model_net_event_rc2 (tl_lp (rand_reverse lp')) (tm_event_rc msg')\<rparr>
      else rand_reverse lp') = lp"
    using deliver_lp [OF d] lp m(7) by (cases ret) (auto simp: rand_reverse_def)
  have arr: "arr[i := (arr ! i)\<lparr>recv_time := ts_total_time s\<rparr>] =
      (torus_stats_array s)[i := (torus_stats_array s ! i)\<lparr>st_category := tm_category msg, recv_time := ts_total_time s\<rparr>]"
    using e(2,3) by simp
  have "arrive_here_rc (me_now (te_env env)) tg' s' b' msg' lp' = Inr (torus_recv_touched s i (tm_category msg), tg, lp)"
    using g lp2 ia arr m(6)
    by (cases newmax; simp add: arrive_here_rc_def 2(4) m(1-5) s' tg' travel_def [symmetric] csize_def st'_def
        torus_recv_touched_def Let_def)
  then show ?thesis using f by (auto simp: 2(4) m(4))
qed

subsection \<open>The handler\<close>

lemma gc_mode [simp]: "rcs_mode (fst (rc_stack_gc gvt st)) = rcs_mode st"
  by (simp add: rc_stack_gc_def Let_def split_beta split: rc_stack_mode.split option.split)

text \<open>The state that the switch of the handler sees: old rollback data has been collected.\<close>

definition collected :: "real option \<Rightarrow> nodes_state \<Rightarrow> nodes_state" where
  "collected gvt s = s\<lparr>ts_st := fst (rc_stack_gc gvt (ts_st s))\<rparr>"

lemma collected_same [simp]:
  "torus_inv (collected gvt s) = torus_inv s" "torus_shape (collected gvt s) = torus_shape s"
  "place (collected gvt s) = place s" "in_send_loop (collected gvt s) = in_send_loop s"
  "rcs_mode (ts_st (collected gvt s)) = rcs_mode (ts_st s)"
  "torus_stats_array (collected gvt s) = torus_stats_array s" "ts_total_time (collected gvt s) = ts_total_time s"
  by (simp_all add: collected_def torus_inv_def torus_shape_def bubble_ok_def csize_def)

lemma fan_in_keeps:
  assumes "node_collective_fan_in env s b msg data near lp = Inr (s', b', msg', grp', lp', outs)"
  shows "s' = s\<lparr>num_fan_nodes := num_fan_nodes s'\<rparr>"
  using assms by (auto simp: node_collective_fan_in_def bind_res_Inr_iff Let_def split: if_split_asm)

lemma collective_init_keeps:
  assumes "node_collective_init env grp s msg data lp = Inr (s', msg', grp', outs)"
  shows "s' = s\<lparr>collective_init_time := collective_init_time s', origin_svr := origin_svr s'\<rparr>"
  using assms by (auto simp: node_collective_init_def bind_res_Inr_iff Let_def split: if_split_asm)

lemma packet_arrive_keeps_inv:
  assumes run: "packet_arrive env g tg s tbf_clear msg data lp = Inr (s', b', msg', tg', g', lp', outs)" and inv: "torus_inv s"
  shows "torus_inv s' \<and> place s' = place s"
proof -
  let ?s = "s\<lparr>finished_chunks := finished_chunks s + 1\<rparr>" and ?m = "msg\<lparr>my_N_hop := my_N_hop msg + 1\<rparr>"
  obtain ts lp1 where l: "latency env lp = (ts, lp1)" by (metis surj_pair)
  have inv1: "torus_inv ?s" using inv by (simp add: torus_inv_def torus_shape_def bubble_ok_def csize_def)
  show ?thesis
  proof (cases "gid (tl_lp lp) = tm_dest_lp msg")
    case True
    then have "arrive_here env g tg ?s tbf_clear ?m data ts lp1 = Inr (s', b', msg', tg', g', lp', outs)"
      using run l by (simp add: packet_arrive_def)
    from arrive_here_keeps [OF this] inv1 show ?thesis by simp
  next
    case False
    then have "arrive_on_the_way env ?s tbf_clear ?m data lp1 = Inr (s', b', msg', lp', outs)"
      using run l by (auto simp: packet_arrive_def bind_res_Inr_iff)
    from arrive_on_the_way_keeps_inv [OF this inv1] show ?thesis by simp
  qed
qed

lemma torus_handler_keeps_inv:
  assumes run: "torus_event_handler env wrap_size gvt g tg grp s msg data near lp
      = Inr (s', b', msg', tg', grp', g', lp', outs)" and inv: "torus_inv s"
  shows "torus_inv s' \<and> place s' = place s"
proof -
  let ?s = "collected gvt s"
  have inv: "torus_inv ?s" using inv by simp
  note h = torus_event_handler_def Let_def collected_def [symmetric]
  consider "tm_type msg = GENERATE" | "tm_type msg = ARRIVAL" | "tm_type msg = SEND" | "tm_type msg = CREDIT"
    | "tm_type msg = T_COLLECTIVE_INIT" | "tm_type msg = T_COLLECTIVE_FAN_IN"
    | "tm_type msg \<notin> {GENERATE, ARRIVAL, SEND, CREDIT, T_COLLECTIVE_INIT, T_COLLECTIVE_FAN_IN}" by blast
  then show ?thesis
  proof cases
    case 1
    then have "packet_generate env wrap_size ?s tbf_clear msg data lp = Inr (s', b', msg', lp', outs)"
      using run by (auto simp: h bind_res_Inr_iff)
    from packet_generate_keeps_inv [OF this inv] show ?thesis by simp
  next
    case 2
    then have "packet_arrive env g tg ?s tbf_clear msg data lp = Inr (s', b', msg', tg', g', lp', outs)"
      using run by (auto simp: h bind_res_Inr_iff torus_types)
    from packet_arrive_keeps_inv [OF this inv] show ?thesis by simp
  next
    case 3
    then have "packet_send env ?s tbf_clear msg lp = Inr (s', b', msg', lp', outs)"
      using run by (auto simp: h bind_res_Inr_iff torus_types)
    from packet_send_keeps_inv [OF this inv] show ?thesis by simp
  next
    case 4
    then have "packet_buffer_process env ?s tbf_clear msg lp = Inr (s', b', msg', lp', outs)"
      using run by (auto simp: h bind_res_Inr_iff torus_types)
    from packet_buffer_process_keeps_inv [OF this inv] show ?thesis by simp
  next
    case 5
    then have "node_collective_init env grp ?s msg data lp = Inr (s', msg', grp', outs)"
      using run by (auto simp: h bind_res_Inr_iff torus_types)
    note e = collective_init_keeps [OF this]
    show ?thesis using inv by (subst (1 2) e) (simp add: torus_inv_def torus_shape_def bubble_ok_def csize_def)
  next
    case 6
    then have "node_collective_fan_in env ?s tbf_clear msg data near lp = Inr (s', b', msg', grp', lp', outs)"
      using run by (auto simp: h bind_res_Inr_iff torus_types)
    note e = fan_in_keeps [OF this]
    show ?thesis using inv by (subst (1 2) e) (simp add: torus_inv_def torus_shape_def bubble_ok_def csize_def)
  next
    case 7
    then have "s' = ?s" using run by (auto simp: h bind_res_Inr_iff split: if_split_asm)
    then show ?thesis using inv by simp
  qed
qed

subsection \<open>Reversal of an event\<close>

text \<open>The reverse handler of an arrival takes back the latency draw and the count first.\<close>

lemma event_rc2_latency: "model_net_event_rc2 (codes_local_latency_reverse l) r = codes_local_latency_reverse (model_net_event_rc2 l r)"
  by (simp add: model_net_event_rc2_def model_net_event_impl_base_rc_def funpow_swap1)

lemma arrive_here_rc_shift:
  assumes "arrive_here_rc now tg s b msg lp = Inr (s2, tg2, lp2)"
  shows "arrive_here_rc now tg (s\<lparr>finished_chunks := x\<rparr>) b msg (latency_reverse lp) =
    Inr (s2\<lparr>finished_chunks := x\<rparr>, tg2, latency_reverse lp2)"
proof (cases "c2 b")
  case False
  with assms [symmetric] show ?thesis
    by (simp add: arrive_here_rc_def Let_def csize_def rand_reverse_def latency_reverse_def)
next
  case True
  then obtain i arr where "model_net_find_stats (tm_category msg) (torus_stats_array s) = Inr (i, arr)"
    using assms by (auto simp: arrive_here_rc_def bind_res_Inr_iff Let_def)
  with True assms [symmetric] show ?thesis
    by (simp add: arrive_here_rc_def Let_def csize_def rand_reverse_def latency_reverse_def event_rc2_latency)
qed

lemma rand_latency: "rand_reverse (latency_reverse lp) = latency_reverse (rand_reverse lp)"
  by (simp add: rand_reverse_def latency_reverse_def)

lemma arrive_on_the_way_rc_shift:
  assumes "arrive_on_the_way_rc s b msg lp = Inr (s2, lp2)"
  shows "arrive_on_the_way_rc (s\<lparr>finished_chunks := x\<rparr>) b msg (latency_reverse lp) =
    Inr (s2\<lparr>finished_chunks := x\<rparr>, latency_reverse lp2)"
  using assms
  by (cases "c30 b"; cases "c9 b \<or> c11 b"; cases "c8 b")
     (auto simp: arrive_on_the_way_rc_def bind_res_Inr_iff return_tail_def Let_def wake_rc_def rand_latency csize_def
       split: if_split_asm)

lemma packet_arrive_reverse:
  assumes run: "packet_arrive env g tg s tbf_clear msg data lp = Inr (s', b', msg', tg', g', lp', outs)" and sh: "torus_shape s"
  shows "\<exists>s'' msg''. packet_arrive_rc (me_now (te_env env)) tg' s' b' msg' lp' = Inr (s'', msg'', tg, lp) \<and>
    (if gid (tl_lp lp) = tm_dest_lp msg \<and> c2 b'
     then \<exists>i arr. model_net_find_stats (tm_category msg) (torus_stats_array s) = Inr (i, arr) \<and>
            s'' = torus_recv_touched s i (tm_category msg)
     else s'' = s)"
proof -
  let ?s = "s\<lparr>finished_chunks := finished_chunks s + 1\<rparr>" and ?m = "msg\<lparr>my_N_hop := my_N_hop msg + 1\<rparr>"
  obtain ts lp1 where l: "latency env lp = (ts, lp1)" by (metis surj_pair)
  then have lp: "latency_reverse lp1 = lp" using latency_reverse_latency [of env lp] by simp
  show ?thesis
  proof (cases "gid (tl_lp lp) = tm_dest_lp msg")
    case True
    then have a: "arrive_here env g tg ?s tbf_clear ?m data ts lp1 = Inr (s', b', msg', tg', g', lp', outs)"
      using run l by (simp add: packet_arrive_def)
    obtain s2 where f: "c1 b'" "\<not> c6 b'" and r: "arrive_here_rc (me_now (te_env env)) tg' s' b' msg' lp' = Inr (s2, tg, lp1)"
      and s2: "if c2 b' then \<exists>i arr. model_net_find_stats (tm_category msg) (torus_stats_array s) = Inr (i, arr) \<and>
          s2 = torus_recv_touched ?s i (tm_category msg) else s2 = ?s"
      using arrive_here_reverse [OF a] by (auto split: if_split_asm)
    have "finished_chunks s' = finished_chunks s + 1"
      using arrive_here_outcome [OF a] by (cases rule: arrive_here_outcome [OF a]) (auto simp: finish_packet_def Let_def)
    then have "packet_arrive_rc (me_now (te_env env)) tg' s' b' msg' lp' =
        Inr (s2\<lparr>finished_chunks := finished_chunks s\<rparr>, msg'\<lparr>my_N_hop := my_N_hop msg' - 1\<rparr>, tg, lp)"
      using f arrive_here_rc_shift [OF r] lp by (simp add: packet_arrive_rc_def)
    then show ?thesis using s2 True by (auto simp: torus_recv_touched_def split: if_split_asm)
  next
    case False
    then have a: "arrive_on_the_way env ?s tbf_clear ?m data lp1 = Inr (s', b', msg', lp', outs)" and tg: "tg' = tg"
      using run l by (auto simp: packet_arrive_def bind_res_Inr_iff)
    have sh1: "torus_shape ?s" using sh by (simp add: torus_shape_def)
    note r = arrive_on_the_way_reverse [OF a sh1]
    have "finished_chunks s' = finished_chunks s + 1"
    proof -
      obtain nxt dm dir q ck s1 b1 lp1' outs1 woken outs2 where
        e: "enqueue_chunk env q (source_dim ?m = dm) ck ?s (tbf_clear\<lparr>c6 := True\<rparr>) (?m\<lparr>source_channel := int q\<rparr>) lp1
            = (s1, b1, msg', lp1', outs1)"
        and w: "wake env dir dm q 0 s1 lp1' = (s', woken, lp', outs2)"
        using arrive_on_the_way_outcome [OF a] by metis
      have "finished_chunks s1 = finished_chunks ?s"
        by (cases rule: enqueue_chunk_cases [OF e]) simp_all
      then show ?thesis by (subst wakeE(1) [OF w]) simp
    qed
    then have "packet_arrive_rc (me_now (te_env env)) tg' s' b' msg' lp' =
        Inr (s, msg'\<lparr>my_N_hop := my_N_hop msg' - 1\<rparr>, tg, lp)"
      using r(2,3) arrive_on_the_way_rc_shift [OF r(1), of "finished_chunks s"] lp tg by (simp add: packet_arrive_rc_def)
    then show ?thesis using False by auto
  qed
qed

text \<open>The type of the message is what the reverse handler switches on.\<close>

lemma packet_send_type:
  assumes run: "packet_send env s b msg lp = Inr (s', b', msg', lp', outs)" and sh: "torus_shape s"
  shows "tm_type msg' = tm_type msg"
proof -
  obtain q where qi: "queue_index (place s) (source_direction msg) (source_dim msg) = Inr q"
    using run by (auto simp: packet_send_def bind_res_Inr_iff)
  note len = torus_shapeD [OF sh queue_index_lt [OF qi]]
  have snd: "tm_type msg' = tm_type msg" if "send_chunk env q isT cur s1 b1 msg lp = Inr (s', b', msg', lp', outs)"
    "terminal_msgs s1 = terminal_msgs s" "pending_msgs s1 = pending_msgs s" for isT cur s1 b1
    by (rule send_chunk_outcome [OF that(1)]) (use len that(2,3) in simp_all)
  show ?thesis
  proof (cases "pending_msgs s ! q")
    case (Cons cur rest)
    then show ?thesis using run qi snd [of False cur s b] by (simp add: packet_send_def)
  next
    case Nil
    note pend = this
    show ?thesis
    proof (cases "terminal_msgs s ! q")
      case Nil
      then show ?thesis using run qi pend by (auto simp: packet_send_def)
    next
      case (Cons cur rest)
      then show ?thesis
        using run qi pend snd [of True cur "s\<lparr>buffer := (buffer s)[q := buffer s ! q + csize s]\<rparr>" "b\<lparr>c3 := True\<rparr>"]
        by (auto simp: packet_send_def Let_def split: if_split_asm)
    qed
  qed
qed

lemma handler_keeps_type:
  assumes run: "torus_event_handler env wrap_size gvt g tg grp s msg data near lp
      = Inr (s', b', msg', tg', grp', g', lp', outs)" and "torus_shape s"
    and "tm_type msg \<in> {GENERATE, ARRIVAL, SEND, CREDIT}"
  shows "tm_type msg' = tm_type msg"
proof -
  note h = torus_event_handler_def Let_def collected_def [symmetric] bind_res_Inr_iff torus_types
  have sh: "torus_shape (collected gvt s)" using assms(2) by simp
  consider "tm_type msg = GENERATE" | "tm_type msg = ARRIVAL" | "tm_type msg = SEND" | "tm_type msg = CREDIT"
    using assms(3) by blast
  then show ?thesis
  proof cases
    case 1
    then have "packet_generate env wrap_size (collected gvt s) tbf_clear msg data lp = Inr (s', b', msg', lp', outs)"
      using run by (auto simp: h)
    then show ?thesis by (auto simp: packet_generate_def bind_res_Inr_iff Let_def split_beta)
  next
    case 2
    obtain ts lp1 where l: "latency env lp = (ts, lp1)" by (metis surj_pair)
    have a: "packet_arrive env g tg (collected gvt s) tbf_clear msg data lp = Inr (s', b', msg', tg', g', lp', outs)"
      using 2 run by (auto simp: h)
    show ?thesis
    proof (cases "gid (tl_lp lp) = tm_dest_lp msg")
      case True
      then have "arrive_here env g tg ((collected gvt s)\<lparr>finished_chunks := finished_chunks (collected gvt s) + 1\<rparr>) tbf_clear
          (msg\<lparr>my_N_hop := my_N_hop msg + 1\<rparr>) data ts lp1 = Inr (s', b', msg', tg', g', lp', outs)"
        using a l by (simp add: packet_arrive_def)
      then show ?thesis
        by (cases rule: arrive_here_outcome) (auto simp: finish_packet_def Let_def split: option.split)
    next
      case False
      then obtain s0 where "arrive_on_the_way env s0 tbf_clear
          (msg\<lparr>my_N_hop := my_N_hop msg + 1\<rparr>) data lp1 = Inr (s', b', msg', lp', outs)"
        using a l by (auto simp: packet_arrive_def bind_res_Inr_iff)
      from arrive_on_the_way_outcome [OF this] obtain q dm ck s1 b1 lp2 outs1 where
        e: "enqueue_chunk env q (source_dim (msg\<lparr>my_N_hop := my_N_hop msg + 1\<rparr>) = dm) ck s0 (tbf_clear\<lparr>c6 := True\<rparr>)
            (msg\<lparr>my_N_hop := my_N_hop msg + 1, source_channel := int q\<rparr>) lp1 = (s1, b1, msg', lp2, outs1)" by metis
      show ?thesis
      proof (cases rule: enqueue_chunk_cases [OF e])
        case (2 lbf ck') show ?thesis by (subst 2(8)) simp
      next
        case (3 lbf ck') show ?thesis by (subst 3(8)) simp
      qed simp_all
    qed
  next
    case 3
    then have "packet_send env (collected gvt s) tbf_clear msg lp = Inr (s', b', msg', lp', outs)"
      using run by (auto simp: h)
    from packet_send_type [OF this sh] show ?thesis .
  next
    case 4
    then have "packet_buffer_process env (collected gvt s) tbf_clear msg lp = Inr (s', b', msg', lp', outs)"
      using run by (auto simp: h)
    from packet_buffer_process_outcome [OF this] obtain q s2 b2 where
      "release_place (me_now (te_env env)) q (collected gvt s) tbf_clear msg = (s2, b2, msg')" by metis
    from release_placeE(2) [OF this] show ?thesis by (simp split: if_split_asm)
  qed
qed

text \<open>Two states of a node that agree but for the statistics, whose counters agree.\<close>

definition stat_counts :: "mn_stats \<Rightarrow> int \<times> int \<times> int \<times> int" where
  "stat_counts st = (send_count st, send_bytes st, recv_count st, recv_bytes st)"

definition torus_same :: "nodes_state \<Rightarrow> nodes_state \<Rightarrow> bool" where
  "torus_same s t \<longleftrightarrow> t = s\<lparr>torus_stats_array := torus_stats_array t\<rparr> \<and>
     map stat_counts (torus_stats_array t) = map stat_counts (torus_stats_array s)"

lemma map_update_same: "f x = f (xs ! i) \<Longrightarrow> map f (xs[i := x]) = map f xs"
  by (metis list_update_beyond list_update_id map_update not_le)

lemma torus_same_simps [simp]:
  "torus_same s s"
  "arr = torus_stats_array s \<Longrightarrow> torus_same s (s\<lparr>torus_stats_array := torus_stats_touched arr i cat esz\<rparr>)"
  "torus_same s (torus_recv_touched s i cat)"
  by (simp_all add: torus_same_def torus_stats_touched_def torus_recv_touched_def map_update_same stat_counts_def)

lemma touched_recv_time [simp]:
  "map recv_time (torus_stats_touched arr i cat esz) = map recv_time arr"
  "map send_time (torus_stats_touched arr i cat esz) = map send_time arr"
  by (simp_all add: torus_stats_touched_def map_update_same)

lemma recv_touched_times [simp]:
  "map send_time (torus_stats_array (torus_recv_touched s i cat)) = map send_time (torus_stats_array s)"
  "map recv_time (torus_stats_array (torus_recv_touched s i cat)) = (map recv_time (torus_stats_array s))[i := ts_total_time s]"
   apply (simp add: torus_recv_touched_def map_update_same)
  apply (simp add: torus_recv_touched_def map_update)
  done

subsection \<open>Nodes that run\<close>

text \<open>\<open>torus_reach c ps amap sync lp s\<close>: the states of the node of \<open>lp\<close> after \<open>torus_init\<close> and any events.
  \<open>garbage\<close> is what the allocator leaves in \<open>link_traffic\<close>.\<close>

inductive torus_reach :: "config_lpgroups \<Rightarrow> torus_param list \<Rightarrow> config_anno_map \<Rightarrow> tw_synch \<Rightarrow> tw_lp \<Rightarrow> nodes_state \<Rightarrow> bool"
  for c ps amap sync lp where
  init: "torus_init c ps amap sync garbage lp = Inr (s, grp) \<Longrightarrow>
      length garbage = nat (2 * n_dims (tp_params (place s))) \<Longrightarrow> torus_reach c ps amap sync lp s"
| event: "torus_reach c ps amap sync lp s \<Longrightarrow>
      torus_event_handler env wrap_size gvt g tg grp s msg data near tlp = Inr (s', b', msg', tg', grp', g', tlp', outs) \<Longrightarrow>
      torus_reach c ps amap sync lp s'"

lemma torus_place_init_params: "torus_place_init c p anno self = Inr pl \<Longrightarrow> tp_params pl = p"
  by (auto simp: torus_place_init_def bind_res_Inr_iff)

lemma torus_init_inv:
  assumes run: "torus_init c ps amap sync garbage lp = Inr (s, grp)"
    and len: "length garbage = nat (2 * n_dims (tp_params (place s)))"
    and ps: "\<And>p. p \<in> set ps \<Longrightarrow> 0 \<le> chunk_size p \<and> 0 \<le> buffer_size p"
  shows "torus_inv s"
proof -
  obtain p pl node anno where p: "p \<in> set ps" and pl: "torus_place_init c p anno (gid lp) = Inr pl"
    and r: "torus_collective_init c (fresh_node sync garbage pl node) lp = Inr (s, grp)"
    using run by (auto simp: torus_init_def bind_res_Inr_iff rd_def Let_def split: if_split_asm) (metis nth_mem)+
  have pp: "tp_params pl = p" by (rule torus_place_init_params [OF pl])
  obtain a b ch n l where s: "s = (fresh_node sync garbage pl node)\<lparr>parent_node_id := a, is_root := b, children := ch,
      num_children := n, is_leaf := l\<rparr>"
    using r by (auto simp: torus_collective_init_def bind_res_Inr_iff Let_def)
  have "torus_inv (s0\<lparr>parent_node_id := a, is_root := b, children := ch, num_children := n, is_leaf := l\<rparr>) = torus_inv s0" for s0
    by (simp add: torus_inv_def torus_shape_def bubble_ok_def csize_def)
  then have keep: "torus_inv s = torus_inv (fresh_node sync garbage pl node)" "place s = pl"
    by (simp_all add: s) (simp add: fresh_node_def Let_def)
  show ?thesis using ps [OF p] len unfolding keep
    by (simp add: pp fresh_node_def Let_def torus_inv_def torus_shape_def bubble_ok_def csize_def)
qed

text \<open>C10: bubble flow control. In every state that a torus node reaches from its initialisation by any
  events, for every link: the buffer is not overrun; a chunk that holds a place in the buffer is in
  the send loop; an injected chunk outside the loop and a chunk that wants to turn wait only while
  fewer than two places are free, a chunk that goes straight on only while none is. No chunk is left
  waiting for a credit that has already been used up.\<close>
theorem torus_no_chunk_stranded:
  assumes "torus_reach c ps amap sync lp s" and "\<And>p. p \<in> set ps \<Longrightarrow> 0 \<le> chunk_size p \<and> 0 \<le> buffer_size p"
  shows "torus_inv s"
  using assms(1)
proof induction
  case (init garbage s grp)
  then show ?case using assms(2) by (rule torus_init_inv)
next
  case (event s env wrap_size gvt g tg grp msg data near tlp s' b' msg' tg' grp' g' tlp' outs)
  then show ?case using torus_handler_keeps_inv by blast
qed

text \<open>The event finishes a packet at its destination.\<close>

definition packet_finished :: "nodes_message \<Rightarrow> torus_bf \<Rightarrow> torus_lp \<Rightarrow> bool" where
  "packet_finished msg b lp \<longleftrightarrow> tm_type msg = ARRIVAL \<and> gid (tl_lp lp) = tm_dest_lp msg \<and> c2 b"

text \<open>Over the real numbers the two sums of times that the reverse handlers undo by subtraction, the send time
  of an entry and the total time of the process, are restored as well.\<close>

lemma torus_events_reversible_reals:
  assumes run: "torus_event_handler env wrap_size gvt g tg grp s msg data near lp
      = Inr (s', b', msg', tg', grp', g', lp', outs)"
    and ty: "tm_type msg \<in> {GENERATE, ARRIVAL, SEND, CREDIT}" and sh: "torus_shape s"
    and opt: "rcs_mode (ts_st s) \<noteq> RC_NONOPT"
    and loop: "\<And>q. tm_type msg = SEND \<Longrightarrow> queue_index (place s) (source_direction msg) (source_dim msg) = Inr q \<Longrightarrow>
      in_send_loop s ! q = 1"
  shows "\<exists>t. node_rc_handler (me_now (te_env env)) tg' s' b' msg' lp' = Inr (t, tg, lp) \<and>
    torus_same (collected gvt s) t \<and> map send_time (torus_stats_array t) = map send_time (torus_stats_array s) \<and>
    (if packet_finished msg b' lp
     then \<exists>i arr. model_net_find_stats (tm_category msg) (torus_stats_array s) = Inr (i, arr) \<and>
            map recv_time (torus_stats_array t) = (map recv_time (torus_stats_array s))[i := ts_total_time s]
     else map recv_time (torus_stats_array t) = map recv_time (torus_stats_array s))"
proof -
  let ?s = "collected gvt s"
  note h = torus_event_handler_def Let_def collected_def [symmetric] bind_res_Inr_iff torus_types
  have sh: "torus_shape ?s" and opt: "rcs_mode (ts_st ?s) \<noteq> RC_NONOPT" using assms(3,4) by simp_all
  have ty': "tm_type msg' = tm_type msg" by (rule handler_keeps_type [OF assms(1,3,2)])
  note rc = node_rc_handler_def ty' torus_types Let_def
  consider "tm_type msg = GENERATE" | "tm_type msg = ARRIVAL" | "tm_type msg = SEND" | "tm_type msg = CREDIT"
    using ty by blast
  then show ?thesis
  proof cases
    case 1
    then have "packet_generate env wrap_size ?s tbf_clear msg data lp = Inr (s', b', msg', lp', outs)" "tg' = tg"
      using run by (auto simp: h)
    with packet_generate_reverse [OF this(1) sh] 1 show ?thesis
      by (auto simp: rc packet_finished_def)
  next
    case 2
    then have "packet_arrive env g tg ?s tbf_clear msg data lp = Inr (s', b', msg', tg', g', lp', outs)"
      using run by (auto simp: h)
    from packet_arrive_reverse [OF this sh] obtain t msg'' where
      "packet_arrive_rc (me_now (te_env env)) tg' s' b' msg' lp' = Inr (t, msg'', tg, lp)"
      "if gid (tl_lp lp) = tm_dest_lp msg \<and> c2 b'
       then \<exists>i arr. model_net_find_stats (tm_category msg) (torus_stats_array ?s) = Inr (i, arr) \<and>
              t = torus_recv_touched ?s i (tm_category msg)
       else t = ?s" by blast
    with 2 show ?thesis by (auto simp: rc packet_finished_def split: if_split_asm)
  next
    case 3
    then have s: "packet_send env ?s tbf_clear msg lp = Inr (s', b', msg', lp', outs)" and "tg' = tg"
      using run by (auto simp: h)
    obtain q where q: "queue_index (place ?s) (source_direction msg) (source_dim msg) = Inr q"
      using s by (auto simp: packet_send_def bind_res_Inr_iff)
    then have "in_send_loop ?s ! q = 1" using loop 3 by simp
    from packet_send_reverse [OF s q sh opt this] 3 \<open>tg' = tg\<close> show ?thesis by (auto simp: rc packet_finished_def)
  next
    case 4
    then have "packet_buffer_process env ?s tbf_clear msg lp = Inr (s', b', msg', lp', outs)" "tg' = tg"
      using run by (auto simp: h)
    with packet_buffer_process_reverse [OF this(1) sh] 4 show ?thesis by (auto simp: rc packet_finished_def)
  qed
qed

text \<open>C11: every event of the torus network is undone by its reverse handler, except for two sums of floating
  point times. The state of the node is that before the event (after the collection of old rollback
  data) but for the statistics entries; there all counters are restored, and the names and largest
  event sizes may differ. The send times are restored unless the event generates a packet. An event
  that does not finish a packet restores the receive times and the statistics of the process; one
  that finishes a packet restores the statistics of the process but for the total time, which the
  reverse handler computes by subtraction, and sets the receive time of the category to the total
  time of the node. Both random streams are restored. The hypotheses: a simulation with rollback, and
  a send event of a link finds the link in its send loop.\<close>
theorem torus_events_reversible:
  assumes run: "torus_event_handler env wrap_size gvt g tg grp s msg data near lp
      = Inr (s', b', msg', tg', grp', g', lp', outs)"
    and ty: "tm_type msg \<in> {GENERATE, ARRIVAL, SEND, CREDIT}" and sh: "torus_shape s"
    and opt: "rcs_mode (ts_st s) \<noteq> RC_NONOPT"
    and loop: "\<And>q. tm_type msg = SEND \<Longrightarrow> queue_index (place s) (source_direction msg) (source_dim msg) = Inr q \<Longrightarrow>
      in_send_loop s ! q = 1"
  shows "\<exists>t tg0. node_rc_handler (me_now (te_env env)) tg' s' b' msg' lp' = Inr (t, tg0, lp) \<and>
    torus_same (collected gvt s) t \<and>
    (tm_type msg \<noteq> GENERATE \<longrightarrow> map send_time (torus_stats_array t) = map send_time (torus_stats_array s)) \<and>
    (if packet_finished msg b' lp
     then tg0\<lparr>tg_total_time := tg_total_time tg\<rparr> = tg \<and>
          (\<exists>i arr. model_net_find_stats (tm_category msg) (torus_stats_array s) = Inr (i, arr) \<and>
            map recv_time (torus_stats_array t) = (map recv_time (torus_stats_array s))[i := ts_total_time s])
     else tg0 = tg \<and> map recv_time (torus_stats_array t) = map recv_time (torus_stats_array s))"
proof -
  obtain t where "node_rc_handler (me_now (te_env env)) tg' s' b' msg' lp' = Inr (t, tg, lp)"
    "torus_same (collected gvt s) t" "map send_time (torus_stats_array t) = map send_time (torus_stats_array s)"
    "if packet_finished msg b' lp
     then \<exists>i arr. model_net_find_stats (tm_category msg) (torus_stats_array s) = Inr (i, arr) \<and>
            map recv_time (torus_stats_array t) = (map recv_time (torus_stats_array s))[i := ts_total_time s]
     else map recv_time (torus_stats_array t) = map recv_time (torus_stats_array s)"
    using torus_events_reversible_reals [OF run ty sh opt loop] by blast
  then show ?thesis by (intro exI [of _ t] exI [of _ tg]) (cases "packet_finished msg b' lp"; simp)
qed

subsection \<open>Torus below the base LP, and the tree\<close>

interpretation tor: reversible_method "torus_method lat" for lat
  by unfold_locales (simp_all add: torus_method_def torus_packet_event_rc_def
      codes_local_latency_def codes_local_latency_reverse_def)

interpretation tor_draw: draw_method "torus_method lat" for lat
  by unfold_locales (simp_all add: torus_method_def torus_packet_event_rc_def
      codes_local_latency_def codes_local_latency_reverse_def)

lemma torus_packet_event_method:
  "torus_packet_event now msg0 call sender = Inr (d, sender', msg, b) \<Longrightarrow>
     mn_packet_event (torus_method lat) call sender = (lat d, sender')"
  by (auto simp: torus_packet_event_def torus_method_def Let_def result_iff split: prod.splits)

text \<open>The tree of a group: a node is the parent of each of its children.\<close>

lemma tree_parent_of_child:
  assumes "0 \<le> node" and "ch \<in> set (tree_children num_lps node)" and "ch \<noteq> NO_NODE"
  shows "tree_parent ch = node" and "ch < num_lps"
proof -
  obtain i where i: "0 \<le> i" "i < 4" "ch = 4 * node + i + 1" "ch < num_lps"
    using assms(2,3) by (auto simp: tree_children_def TREE_DEGREE_def Let_def split: if_split_asm)
  have "(ch - 1) mod 4 = i" using i by simp
  then show "tree_parent ch = node" "ch < num_lps"
    using i assms(1) by (simp_all add: tree_parent_def TREE_DEGREE_def)
qed

text \<open>A collective at an inner node: the reverse handler restores the count of the children that have
  reported and takes back the draws of the fan-out.\<close>

lemma fan_loop_draws:
  "fan_loop env grp delay mn s msg data chs lp = Inr (lp', ms) \<Longrightarrow> (rand_reverse ^^ length chs) lp' = lp"
proof (induction chs arbitrary: lp ms)
  case (Cons ch chs)
  then obtain m ms' where "fan_loop env grp delay mn s msg data chs (lp\<lparr>unif_draws := unif_draws lp + 1\<rparr>) = Inr (lp', ms')"
    by (auto simp: bind_res_Inr_iff Let_def)
  from Cons.IH [OF this] show ?case by (simp add: rand_reverse_def)
qed simp

lemma fan_in_reverse:
  assumes run: "node_collective_fan_in env s b msg data near lp = Inr (s', b', msg', grp', lp', outs)"
    and "tm_type msg = T_COLLECTIVE_FAN_IN" and "num_children s = int k" and "k \<le> length (children s)"
  shows "node_rc_handler now tg s' b' msg' lp' = Inr (s, tg, lp)"
proof -
  obtain inf an where inf: "codes_mapping_get_lp_info (me_conf (te_env env)) (gid (tl_lp lp)) = Inr (inf, an)"
    using run by (auto simp: node_collective_fan_in_def bind_res_Inr_iff Let_def)
  note fi = node_collective_fan_in_def inf Let_def bind_res_simps prod.case and rc = node_rc_handler_def torus_types
  show ?thesis
  proof (cases "num_fan_nodes s + 1 = num_children s")
    case False
    with run [symmetric] assms(2) show ?thesis by (simp add: fi rc)
  next
    case True
    show ?thesis
    proof (cases "is_root s")
      case False
      have "s' = s\<lparr>num_fan_nodes := 0\<rparr>" "b' = b\<lparr>c1 := True, c2 := False\<rparr>"
        "msg' = msg\<lparr>saved_fan_nodes := num_fan_nodes s\<rparr>" "lp' = lp"
        using True False run by (auto simp: fi bind_res_Inr_iff)
      then show ?thesis using assms(2) by (simp add: rc)
    next
      case root: True
      have n: "num_fan_nodes s = int k - 1" using True assms(3) by simp
      let ?m = "msg\<lparr>saved_fan_nodes := int k - 1\<rparr>" and ?s = "s\<lparr>num_fan_nodes := 0\<rparr>"
      obtain ms where "fan_loop env (inf_group inf) (g_tw_lookahead env + COLLECTIVE_COMPUTATION_DELAY + LEVEL_DELAY)
          (LEVEL_DELAY / 50) ?s ?m data (take k (children s)) lp = Inr (lp', ms)"
        and fin: "s' = ?s" "b' = b\<lparr>c1 := False, c2 := True\<rparr>" "msg' = ?m"
        using True root run assms(3) by (auto simp: fi bind_res_Inr_iff)
      from fan_loop_draws [OF this(1)] have "(rand_reverse ^^ k) lp' = lp" using assms(4) by (simp add: min.absorb2)
      then show ?thesis using assms(2,3) n by (simp add: fin rc)
    qed
  qed
qed

subsection \<open>Examples\<close>

definition ex_torus_msg :: nodes_message where
  "ex_torus_msg = \<lparr>tm_category = ''a'', travel_start_time = 0, saved_available_time = 0, saved_collective_init_time = 0,
     saved_recv_time = 0, saved_total_time = 0, saved_busy_time = 0, packet_ID = 0, tm_type = 1, tm_final_dest_gid = 10,
     tm_dest_lp = 11, sender_svr = 0, sender_node = 1, my_N_hop = 0, source_dim = 0, source_direction = 0, next_stop = 0,
     tm_packet_size = 300, saved_fan_nodes = 0, source_channel = 0, saved_queue = 0, chunk_id = 2, tm_event_rc = 0,
     tm_is_pull = 0, tm_pull_size = 0, tm_local_event_size_bytes = 0, tm_remote_event_size_bytes = 2\<rparr>"

definition ex_torus_env :: torus_env where
  "ex_torus_env = \<lparr>te_env = ex_env\<lparr>me_conf := ex_torus_conf\<rparr>, g_tw_lookahead = 1, te_unif = (\<lambda>k. 0),
     te_exp = (\<lambda>k m. m), te_buf = ex_torus_msg\<rparr>"

definition ex_torus_globals :: torus_globals where
  "ex_torus_globals = \<lparr>tg_total_time = 0, tg_max_latency = 0, max_collective = 0, N_finished_packets = 0, tg_total_hops = 0\<rparr>"

definition ex_torus_amap :: config_anno_map where
  "ex_torus_amap = \<lparr>am_lp_name = ''modelnet_torus'', has_unanno_lp = 1, is_unanno_first = 1, num_anno_lps = [], annotations = []\<rparr>"

definition ex_torus_node :: "int \<Rightarrow> (nodes_state \<times> string) result" where
  "ex_torus_node self = torus_init ex_torus_conf [ex_torus_param] ex_torus_amap OPTIMISTIC [0, 0, 0, 0]
     \<lparr>gid = self, draws = 7\<rparr>"

definition ex_torus_event ::
    "nodes_state \<Rightarrow> torus_globals \<Rightarrow> nodes_message \<Rightarrow> int \<Rightarrow>
     (nodes_state \<times> torus_bf \<times> nodes_message \<times> torus_globals \<times> string \<times> mn_globals \<times> torus_lp \<times> torus_out list) result" where
  "ex_torus_event s tg msg self = torus_event_handler ex_torus_env 400 (Some 0) ex_glob tg ''G'' s msg [1, 2] [] 
     \<lparr>tl_lp = \<lparr>gid = self, draws = 7\<rparr>, unif_draws = 0\<rparr>"

lemma ex_torus_runs:
  "\<exists>s grp. ex_torus_node 1 = Inr (s, grp) \<and> nat (2 * n_dims (tp_params (place s))) = 4 \<and>
     rcs_mode (ts_st s) = RC_OPT \<and>
     (\<exists>s' b' msg' tg' grp' g' lp' outs. ex_torus_event s ex_torus_globals ex_torus_msg 1
          = Inr (s', b', msg', tg', grp', g', lp', outs) \<and>
        map length (terminal_msgs s') = [3, 0, 0, 0] \<and> in_send_loop s' = [1, 0, 0, 0])"
proof -
  have "case ex_torus_node 1 of Inl e \<Rightarrow> False | Inr (s, grp) \<Rightarrow>
      nat (2 * n_dims (tp_params (place s))) = 4 \<and> rcs_mode (ts_st s) = RC_OPT \<and>
      (case ex_torus_event s ex_torus_globals ex_torus_msg 1 of Inl e \<Rightarrow> False
       | Inr (s', b', msg', tg', grp', g', lp', outs) \<Rightarrow>
           map length (terminal_msgs s') = [3, 0, 0, 0] \<and> in_send_loop s' = [1, 0, 0, 0])" by code_simp
  then show ?thesis by (auto split: sum.splits)
qed

theorem torus_no_chunk_stranded_witness:
  "\<exists>s. torus_reach ex_torus_conf [ex_torus_param] ex_torus_amap OPTIMISTIC \<lparr>gid = 1, draws = 7\<rparr> s \<and>
     map length (terminal_msgs s) = [3, 0, 0, 0] \<and> torus_inv s"
proof -
  obtain s grp s' b' msg' tg' grp' g' lp' outs where i: "ex_torus_node 1 = Inr (s, grp)"
    "nat (2 * n_dims (tp_params (place s))) = 4"
    and e: "ex_torus_event s ex_torus_globals ex_torus_msg 1 = Inr (s', b', msg', tg', grp', g', lp', outs)"
    and t: "map length (terminal_msgs s') = [3, 0, 0, 0]" using ex_torus_runs by (elim exE conjE) (rule that)
  let ?r = "torus_reach ex_torus_conf [ex_torus_param] ex_torus_amap OPTIMISTIC \<lparr>gid = 1, draws = 7\<rparr>"
  have "?r s" by (rule torus_reach.init [OF i(1) [unfolded ex_torus_node_def]]) (simp add: i(2))
  then have r: "?r s'" by (rule torus_reach.event [OF _ e [unfolded ex_torus_event_def]])
  moreover have "torus_inv s'" by (rule torus_no_chunk_stranded [OF r]) (simp add: ex_torus_param_def)
  ultimately show ?thesis using t by (intro exI [of _ s'] conjI)
qed

theorem torus_events_reversible_witness:
  "\<exists>s s' b' msg' tg' grp' g' lp' outs. ex_torus_event s ex_torus_globals ex_torus_msg 1
        = Inr (s', b', msg', tg', grp', g', lp', outs) \<and> map length (terminal_msgs s') = [3, 0, 0, 0] \<and>
     (\<exists>t. node_rc_handler 100 tg' s' b' msg' lp' = Inr (t, ex_torus_globals, \<lparr>tl_lp = \<lparr>gid = 1, draws = 7\<rparr>, unif_draws = 0\<rparr>) \<and>
        torus_same (collected (Some 0) s) t)"
proof -
  obtain s grp s' b' msg' tg' grp' g' lp' outs where i: "ex_torus_node 1 = Inr (s, grp)"
    "nat (2 * n_dims (tp_params (place s))) = 4" "rcs_mode (ts_st s) = RC_OPT"
    and e: "ex_torus_event s ex_torus_globals ex_torus_msg 1 = Inr (s', b', msg', tg', grp', g', lp', outs)"
    and t: "map length (terminal_msgs s') = [3, 0, 0, 0]" using ex_torus_runs by (elim exE conjE) (rule that)
  have "torus_inv s" by (rule torus_init_inv [OF i(1) [unfolded ex_torus_node_def]]) (simp_all add: i(2) ex_torus_param_def)
  then have sh: "torus_shape s" by (simp add: torus_inv_def)
  have ty: "tm_type ex_torus_msg = GENERATE" by (simp add: ex_torus_msg_def GENERATE_def)
  have now: "me_now (te_env ex_torus_env) = 100" by (simp add: ex_torus_env_def ex_env_def)
  have "rcs_mode (ts_st s) \<noteq> RC_NONOPT" "tm_type ex_torus_msg \<in> {GENERATE, ARRIVAL, SEND, CREDIT}"
    "tm_type ex_torus_msg \<noteq> SEND" "\<not> packet_finished ex_torus_msg b' lp" for lp
    using i(3) ty by (simp_all add: packet_finished_def torus_types)
  then obtain u tg0 where u: "node_rc_handler 100 tg' s' b' msg' lp' = Inr (u, tg0, \<lparr>tl_lp = \<lparr>gid = 1, draws = 7\<rparr>, unif_draws = 0\<rparr>)"
    "torus_same (collected (Some 0) s) u" "tg0 = ex_torus_globals"
    using torus_events_reversible [OF e [unfolded ex_torus_event_def] _ sh] unfolding now by (metis (no_types, lifting))
  show ?thesis
    by (intro exI [of _ s] exI [of _ s'] exI [of _ b'] exI [of _ msg'] exI [of _ tg'] exI [of _ grp'] exI [of _ g'] exI [of _ lp']
        exI [of _ outs] exI [of _ u] conjI e t u(1) [unfolded u(3)] u(2))
qed

text \<open>Undoing the arrival of a packet does not restore the receive time of its category. At node 11 of the example a
  packet of category \<open>a\<close> arrives, then one of category \<open>b\<close>, whose arrival is rolled back; the receive
  time of \<open>b\<close> was 0 and is 100 afterwards.\<close>
lemma torus_recv_time_not_restored:
  "\<exists>s grp s1 s2 b2 msg2 tg1 tg2 lp2 t.
     ex_torus_node 11 = Inr (s, grp) \<and>
     (\<exists>b1 msg1 grp1 g1 lp1 outs1. ex_torus_event s ex_torus_globals (ex_torus_msg\<lparr>tm_type := ARRIVAL\<rparr>) 11
        = Inr (s1, b1, msg1, tg1, grp1, g1, lp1, outs1)) \<and>
     (\<exists>grp2 g2 outs2. ex_torus_event s1 tg1 (ex_torus_msg\<lparr>tm_type := ARRIVAL, tm_category := ''b''\<rparr>) 11
        = Inr (s2, b2, msg2, tg2, grp2, g2, lp2, outs2)) \<and>
     (\<exists>tg lp. node_rc_handler 100 tg2 s2 b2 msg2 lp2 = Inr (t, tg, lp)) \<and>
     recv_time (torus_stats_array s1 ! 1) = 0 \<and> recv_time (torus_stats_array t ! 1) = 100"
proof -
  have "case ex_torus_node 11 of Inl e \<Rightarrow> False | Inr (s, grp) \<Rightarrow>
      (case ex_torus_event s ex_torus_globals (ex_torus_msg\<lparr>tm_type := ARRIVAL\<rparr>) 11 of Inl e \<Rightarrow> False
       | Inr (s1, b1, msg1, tg1, grp1, g1, lp1, outs1) \<Rightarrow>
      (case ex_torus_event s1 tg1 (ex_torus_msg\<lparr>tm_type := ARRIVAL, tm_category := ''b''\<rparr>) 11 of Inl e \<Rightarrow> False
       | Inr (s2, b2, msg2, tg2, grp2, g2, lp2, outs2) \<Rightarrow>
      (case node_rc_handler 100 tg2 s2 b2 msg2 lp2 of Inl e \<Rightarrow> False | Inr (t, tg, lp) \<Rightarrow>
         recv_time (torus_stats_array s1 ! 1) = 0 \<and> recv_time (torus_stats_array t ! 1) = 100)))" by code_simp
  then show ?thesis by (auto split: sum.splits)
qed

end
