(* ===== verification/Local_Storage.thy ===== *)
theory Local_Storage
  imports Resource_LP RC_Stack Configuration Model_Net
begin

text \<open>
  The local storage model, src/util/local-storage-model.c: an LP that stands for a disk. A request
  takes a time that a table by request size gives, with a seek when it does not continue the last
  one; the disk serves one request at a time. With a scheduler, requests that find the disk busy
  wait in lanes of different priority.

  A message that \<open>lsm_io_event\<close> sends is a new event, whose memory is not cleared: fields that the
  function does not set keep what the buffer held. The delay of a random draw is an argument.
\<close>

subsection \<open>Data\<close>

definition LSM_NAME :: string where "LSM_NAME = ''lsm''"
definition LSM_CATEGORY_NAME_MAX :: nat where "LSM_CATEGORY_NAME_MAX = 16"
definition LSM_CATEGORY_MAX :: nat where "LSM_CATEGORY_MAX = 12"

definition LSM_WRITE_REQUEST :: int where "LSM_WRITE_REQUEST = 1"
definition LSM_READ_REQUEST :: int where "LSM_READ_REQUEST = 2"
definition LSM_WRITE_COMPLETION :: int where "LSM_WRITE_COMPLETION = 3"
definition LSM_READ_COMPLETION :: int where "LSM_READ_COMPLETION = 4"

lemmas lsm_events = LSM_WRITE_REQUEST_def LSM_READ_REQUEST_def LSM_WRITE_COMPLETION_def LSM_READ_COMPLETION_def

record lsm_stats =
  ls_category :: string
  read_count :: int
  read_bytes :: int
  stat_read_seeks :: int
  read_time :: tw_stime
  write_count :: int
  write_bytes :: int
  stat_write_seeks :: int
  write_time :: tw_stime

definition lsm_stats_zero :: lsm_stats where
  "lsm_stats_zero = \<lparr>ls_category = [], read_count = 0, read_bytes = 0, stat_read_seeks = 0, read_time = 0,
     write_count = 0, write_bytes = 0, stat_write_seeks = 0, write_time = 0\<rparr>"

record disk_model =
  request_sizes :: "u32 list"
  write_rates :: "real list"
  read_rates :: "real list"
  write_overheads :: "real list"
  read_overheads :: "real list"
  write_seeks :: "real list"
  read_seeks :: "real list"
  dm_use_sched :: int

record lsm_message_data =
  io_object :: u64
  io_offset :: u64
  io_size :: u64
  io_category :: string
  io_prio :: int

record lsm_sched =
  num_prios :: int
  active_count :: int
  freelist :: "lsm_message_data rc_stack"
  lsm_queues :: "lsm_message_data list list"

record lsm_state =
  next_idle :: tw_stime
  dmodel :: disk_model
  current_offset :: int
  current_object :: u64
  lsm_stats_array :: "lsm_stats list"
  use_sched :: bool
  sched :: lsm_sched

record lsm_message =
  lsm_magic_of :: int
  lsm_event_of :: int
  msg_prio :: int
  prev_idle :: tw_stime
  prev_stat :: lsm_stats
  prev_offset :: int
  prev_object :: u64
  io_data :: lsm_message_data
  lsm_cb :: codes_cb_params

datatype lsm_out =
    LsmSelf (lo_dest: int) (lo_delay: tw_stime) (lo_msg: lsm_message)
  | LsmReturn (lo_dest: int) (lo_draw: int) (lo_header: msg_header) (lo_tag: int) (lo_layout: codes_cb_info) (lo_rc: int)

subsection \<open>Transfer times\<close>

text \<open>The bin of a request: the loop stops at the first larger size.\<close>

fun bin_loop :: "u32 list \<Rightarrow> u64 \<Rightarrow> nat \<Rightarrow> nat" where
  "bin_loop [] sz i = i"
| "bin_loop (r # rs) sz i = (if unat r > unat sz then i else bin_loop rs sz (Suc i))"

definition find_bin :: "disk_model \<Rightarrow> u64 \<Rightarrow> nat" where
  "find_bin dm sz = (let i = bin_loop (request_sizes dm) sz 0 in if i > 0 then i - 1 else i)"

definition needs_seek :: "lsm_state \<Rightarrow> u64 \<Rightarrow> int \<Rightarrow> bool" where
  "needs_seek ns obj off \<longleftrightarrow> obj \<noteq> current_object ns \<or> off < current_offset ns \<or> off > current_offset ns + 512"

definition transfer_time_table ::
    "lsm_state \<Rightarrow> lsm_stats \<Rightarrow> bool \<Rightarrow> u64 \<Rightarrow> int \<Rightarrow> u64 \<Rightarrow> (tw_stime \<times> lsm_stats) result" where
  "transfer_time_table ns stat rw obj off sz =
     (let dm = dmodel ns; i = find_bin dm sz in
      bind_res (rd (if rw then read_rates dm else write_rates dm) i) (\<lambda>disk_rate.
      bind_res (rd (if rw then read_seeks dm else write_seeks dm) i) (\<lambda>disk_seek.
      bind_res (rd (if rw then read_overheads dm else write_overheads dm) i) (\<lambda>disk_overhead.
      let mb = real (unat sz) / (1024 * 1024);
          seek = needs_seek ns obj off;
          time = (mb / disk_rate) * 1000 * 1000 * 1000 + disk_overhead * 1000 + (if seek then disk_seek * 1000 else 0)
      in Inr (time,
           if rw
           then stat\<lparr>stat_read_seeks := stat_read_seeks stat + (if seek then 1 else 0), read_count := read_count stat + 1,
                     read_bytes := read_bytes stat + int (unat sz), read_time := read_time stat + time\<rparr>
           else stat\<lparr>stat_write_seeks := stat_write_seeks stat + (if seek then 1 else 0), write_count := write_count stat + 1,
                     write_bytes := write_bytes stat + int (unat sz), write_time := write_time stat + time\<rparr>)))))"

fun lsm_find_loop :: "string \<Rightarrow> lsm_stats list \<Rightarrow> nat \<Rightarrow> (nat \<times> bool) option" where
  "lsm_find_loop cat [] i = None"
| "lsm_find_loop cat (s # ss) i =
     (if ls_category s = [] then Some (i, True)
      else if cat = ls_category s then Some (i, False)
      else lsm_find_loop cat ss (Suc i))"

definition lsm_find_stats :: "string \<Rightarrow> lsm_stats list \<Rightarrow> (nat \<times> lsm_stats list) result" where
  "lsm_find_stats cat arr =
     (case lsm_find_loop cat (take LSM_CATEGORY_MAX arr) 0 of
        None \<Rightarrow> Inl AssertFailed
      | Some (i, new_flag) \<Rightarrow>
          if new_flag
          then if length cat < LSM_CATEGORY_NAME_MAX
               then Inr (i, arr[i := (arr ! i)\<lparr>ls_category := cat\<rparr>])
               else Inl OutOfBounds
          else Inr (i, arr))"

subsection \<open>Requests\<close>

definition handle_io_request ::
    "tw_stime \<Rightarrow> lsm_state \<Rightarrow> lsm_message_data \<Rightarrow> lsm_message \<Rightarrow> int \<Rightarrow> (lsm_state \<times> lsm_message \<times> lsm_out) result" where
  "handle_io_request now ns data m self =
     (let rw = (lsm_event_of m = LSM_READ_REQUEST) in
      bind_res (lsm_find_stats (io_category data) (lsm_stats_array ns)) (\<lambda>(i, arr).
      let m1 = m\<lparr>prev_idle := next_idle ns, prev_stat := arr ! i, prev_object := current_object ns,
                 prev_offset := current_offset ns\<rparr>;
          wait = (if next_idle ns > now then next_idle ns - now else 0) in
      bind_res (transfer_time_table ns (arr ! i) rw (io_object data) (sint (io_offset data)) (io_size data)) (\<lambda>(t, stat).
      let queue_time = wait + t;
          ns1 = ns\<lparr>next_idle := queue_time + now, lsm_stats_array := arr[i := stat],
                   current_offset := sint (io_offset data + io_size data), current_object := io_object data\<rparr>;
          ev = (if lsm_event_of m1 = LSM_WRITE_REQUEST then LSM_WRITE_COMPLETION else LSM_READ_COMPLETION)
      in Inr (ns1, m1, LsmSelf self queue_time (m1\<lparr>lsm_event_of := ev\<rparr>)))))"

definition handle_rev_io_request :: "lsm_state \<Rightarrow> lsm_message_data \<Rightarrow> lsm_message \<Rightarrow> lsm_state result" where
  "handle_rev_io_request ns data m =
     bind_res (lsm_find_stats (io_category data) (lsm_stats_array ns)) (\<lambda>(i, arr).
       Inr (ns\<lparr>next_idle := prev_idle m, lsm_stats_array := arr[i := prev_stat m], current_object := prev_object m,
               current_offset := prev_offset m\<rparr>))"

subsection \<open>The scheduler\<close>

definition handle_io_sched_new ::
    "tw_stime \<Rightarrow> lsm_state \<Rightarrow> lsm_message \<Rightarrow> int \<Rightarrow> (lsm_state \<times> lsm_message \<times> lsm_out list) result" where
  "handle_io_sched_new now ns m self =
     bind_res
       (if active_count (sched ns) = 0
        then bind_res (handle_io_request now ns (io_data m) m self) (\<lambda>(ns1, m1, out). Inr (ns1, m1, [out]))
        else if msg_prio m < 0 then Inl OutOfBounds
        else bind_res (rd (lsm_queues (sched ns)) (nat (msg_prio m))) (\<lambda>q.
               Inr (ns\<lparr>sched := (sched ns)\<lparr>lsm_queues := (lsm_queues (sched ns))[nat (msg_prio m) := q @ [io_data m]]\<rparr>\<rparr>, m, [])))
       (\<lambda>(ns1, m1, outs). Inr (ns1\<lparr>sched := (sched ns1)\<lparr>active_count := active_count (sched ns1) + 1\<rparr>\<rparr>, m1, outs))"

definition handle_rev_io_sched_new :: "lsm_state \<Rightarrow> lsm_message \<Rightarrow> lsm_state result" where
  "handle_rev_io_sched_new ns m =
     (let ns1 = ns\<lparr>sched := (sched ns)\<lparr>active_count := active_count (sched ns) - 1\<rparr>\<rparr> in
      if active_count (sched ns1) = 0 then handle_rev_io_request ns1 (io_data m) m
      else if msg_prio m < 0 then Inl OutOfBounds
      else bind_res (rd (lsm_queues (sched ns1)) (nat (msg_prio m))) (\<lambda>q.
           bind_res (c_assert (q \<noteq> [])) (\<lambda>_.
             Inr (ns1\<lparr>sched := (sched ns1)\<lparr>lsm_queues := (lsm_queues (sched ns1))[nat (msg_prio m) := butlast q]\<rparr>\<rparr>))))"

text \<open>The first lane with a waiting request: its index, the request and the lanes without it.\<close>

fun pop_lane :: "lsm_message_data list list \<Rightarrow> nat \<Rightarrow> (nat \<times> lsm_message_data \<times> lsm_message_data list list) option" where
  "pop_lane [] i = None"
| "pop_lane ([] # qs) i = map_option (\<lambda>(k, d, qs'). (k, d, [] # qs')) (pop_lane qs (Suc i))"
| "pop_lane ((d # ds) # qs) i = Some (i, d, ds # qs)"

definition handle_io_sched_compl ::
    "tw_stime \<Rightarrow> lsm_state \<Rightarrow> lsm_message \<Rightarrow> int \<Rightarrow> (lsm_state \<times> lsm_message \<times> lsm_out list) result" where
  "handle_io_sched_compl now ns m self =
     (let ns1 = ns\<lparr>sched := (sched ns)\<lparr>active_count := active_count (sched ns) - 1\<rparr>\<rparr> in
      if active_count (sched ns1) = 0 then Inr (ns1, m, [])
      else case pop_lane (lsm_queues (sched ns1)) 0 of
             None \<Rightarrow> Inl AssertFailed
           | Some (k, d, qs) \<Rightarrow>
               bind_res (handle_io_request now (ns1\<lparr>sched := (sched ns1)\<lparr>lsm_queues := qs\<rparr>\<rparr>) d
                           (m\<lparr>msg_prio := int k\<rparr>) self) (\<lambda>(ns2, m2, out).
                 Inr (ns2\<lparr>sched := (sched ns2)\<lparr>freelist := fst (rc_stack_push now d True (freelist (sched ns2)))\<rparr>\<rparr>, m2, [out])))"

definition handle_rev_io_sched_compl :: "lsm_state \<Rightarrow> lsm_message \<Rightarrow> lsm_state result" where
  "handle_rev_io_sched_compl ns m =
     bind_res
       (if active_count (sched ns) \<noteq> 0
        then bind_res (rc_stack_pop (freelist (sched ns))) (\<lambda>(d, st).
             bind_res (handle_rev_io_request (ns\<lparr>sched := (sched ns)\<lparr>freelist := st\<rparr>\<rparr>) d m) (\<lambda>ns1.
             if msg_prio m < 0 then Inl OutOfBounds
             else bind_res (rd (lsm_queues (sched ns1)) (nat (msg_prio m))) (\<lambda>q.
               Inr (ns1\<lparr>sched := (sched ns1)\<lparr>lsm_queues := (lsm_queues (sched ns1))[nat (msg_prio m) := q @ [d]]\<rparr>\<rparr>))))
        else Inr ns)
       (\<lambda>ns1. Inr (ns1\<lparr>sched := (sched ns1)\<lparr>active_count := active_count (sched ns1) + 1\<rparr>\<rparr>))"

subsection \<open>Completions\<close>

definition sizeof_lsm_return :: int where "sizeof_lsm_return = 4"

definition handle_io_completion ::
    "tw_stime \<Rightarrow> lsm_state \<Rightarrow> lsm_message \<Rightarrow> tw_lp \<Rightarrow> (lsm_state \<times> lsm_message \<times> tw_lp \<times> lsm_out list) result" where
  "handle_io_completion now ns m lp =
     bind_res (SANITY_CHECK_CB (cb_info (lsm_cb m)) sizeof_lsm_return) (\<lambda>_.
     let (d, lp1) = codes_local_latency lp; h = cb_h (lsm_cb m);
         ret = LsmReturn (mh_src h) d (msg_set_header (mh_magic h) (mh_event_type h) (gid lp)) (cb_tag (lsm_cb m))
                 (cb_info (lsm_cb m)) 0 in
     bind_res (if use_sched ns then handle_io_sched_compl now ns m (gid lp) else Inr (ns, m, [])) (\<lambda>(ns1, m1, outs).
       Inr (ns1, m1, lp1, ret # outs)))"

definition handle_rev_io_completion :: "lsm_state \<Rightarrow> lsm_message \<Rightarrow> tw_lp \<Rightarrow> (lsm_state \<times> tw_lp) result" where
  "handle_rev_io_completion ns m lp =
     bind_res (if use_sched ns then handle_rev_io_sched_compl ns m else Inr ns) (\<lambda>ns1.
       Inr (ns1, codes_local_latency_reverse lp))"

subsection \<open>Event handlers\<close>

definition lsm_event ::
    "int \<Rightarrow> tw_stime \<Rightarrow> lsm_state \<Rightarrow> lsm_message \<Rightarrow> tw_lp \<Rightarrow> (lsm_state \<times> lsm_message \<times> tw_lp \<times> lsm_out list) result" where
  "lsm_event lsm_magic now ns m lp =
     bind_res (c_assert (lsm_magic_of m = lsm_magic)) (\<lambda>_.
       if lsm_event_of m = LSM_WRITE_REQUEST \<or> lsm_event_of m = LSM_READ_REQUEST
       then if use_sched ns
            then bind_res (handle_io_sched_new now ns m (gid lp)) (\<lambda>(ns1, m1, outs). Inr (ns1, m1, lp, outs))
            else bind_res (handle_io_request now ns (io_data m) m (gid lp)) (\<lambda>(ns1, m1, out). Inr (ns1, m1, lp, [out]))
       else if lsm_event_of m = LSM_WRITE_COMPLETION \<or> lsm_event_of m = LSM_READ_COMPLETION
       then handle_io_completion now ns m lp
       else Inr (ns, m, lp, []))"

definition lsm_rev_event :: "int \<Rightarrow> lsm_state \<Rightarrow> lsm_message \<Rightarrow> tw_lp \<Rightarrow> (lsm_state \<times> tw_lp) result" where
  "lsm_rev_event lsm_magic ns m lp =
     bind_res (c_assert (lsm_magic_of m = lsm_magic)) (\<lambda>_.
       if lsm_event_of m = LSM_WRITE_REQUEST \<or> lsm_event_of m = LSM_READ_REQUEST
       then bind_res (if use_sched ns then handle_rev_io_sched_new ns m else handle_rev_io_request ns (io_data m) m)
              (\<lambda>ns1. Inr (ns1, lp))
       else if lsm_event_of m = LSM_WRITE_COMPLETION \<or> lsm_event_of m = LSM_READ_COMPLETION
       then handle_rev_io_completion ns m lp
       else Inr (ns, lp))"

definition lsm_finalize :: "lsm_state \<Rightarrow> lsm_stats list" where
  "lsm_finalize ns =
     (let used = filter (\<lambda>s. ls_category s \<noteq> []) (take LSM_CATEGORY_MAX (lsm_stats_array ns)) in
      used @ [\<lparr>ls_category = ''all'', read_count = sum_list (map read_count used), read_bytes = sum_list (map read_bytes used),
        stat_read_seeks = sum_list (map stat_read_seeks used), read_time = sum_list (map read_time used),
        write_count = sum_list (map write_count used), write_bytes = sum_list (map write_bytes used),
        stat_write_seeks = sum_list (map stat_write_seeks used), write_time = sum_list (map write_time used)\<rparr>])"

subsection \<open>Configuration and initialisation\<close>

text \<open>\<open>read_config\<close>: a list of values; a value that is NULL would be dereferenced.\<close>

definition lsm_values :: "config_handle \<Rightarrow> string \<Rightarrow> string option \<Rightarrow> string list result" where
  "lsm_values h key anno =
     bind_res (configuration_get_multivalue h LSM_NAME key anno) (\<lambda>(r, vs).
     bind_res (c_assert (r = 1)) (\<lambda>_. if None \<in> set vs then Inl NullDeref else Inr (map the vs)))"

definition lsm_reals :: "config_handle \<Rightarrow> string \<Rightarrow> string option \<Rightarrow> nat \<Rightarrow> real list result" where
  "lsm_reals h key anno bins =
     bind_res (lsm_values h key anno) (\<lambda>vs.
     bind_res (c_assert (length vs = bins)) (\<lambda>_. Inr (map strtod vs)))"

text \<open>\<open>old_sched\<close> is what \<open>use_sched\<close> held before; it stays if the key is missing.\<close>

definition lsm_read_config :: "config_handle \<Rightarrow> string option \<Rightarrow> int \<Rightarrow> disk_model result" where
  "lsm_read_config h anno old_sched =
     bind_res (lsm_values h ''request_sizes'' anno) (\<lambda>sizes.
     let n = length sizes in
     bind_res (lsm_reals h ''write_rates'' anno n) (\<lambda>wr.
     bind_res (lsm_reals h ''read_rates'' anno n) (\<lambda>rr.
     bind_res (lsm_reals h ''write_overheads'' anno n) (\<lambda>wo.
     bind_res (lsm_reals h ''read_overheads'' anno n) (\<lambda>ro.
     bind_res (lsm_reals h ''write_seeks'' anno n) (\<lambda>ws.
     bind_res (lsm_reals h ''read_seeks'' anno n) (\<lambda>rs.
     bind_res (configuration_get_value_int h LSM_NAME ''enable_scheduler'' anno) (\<lambda>(r, v).
     let us = (case v of None \<Rightarrow> old_sched | Some x \<Rightarrow> x) in
     bind_res (c_assert (us \<ge> 0)) (\<lambda>_.
       Inr \<lparr>request_sizes = map (\<lambda>v. word_of_int (atoi v)) sizes, write_rates = wr, read_rates = rr, write_overheads = wo,
            read_overheads = ro, write_seeks = ws, read_seeks = rs, dm_use_sched = us\<rparr>)))))))))"

text \<open>The models of the annotations are allocated and not cleared: \<open>garbage\<close> is what their field
  \<open>use_sched\<close> holds; the unannotated model is a static variable.\<close>

fun lsm_read_all :: "config_handle \<Rightarrow> string list \<Rightarrow> int list \<Rightarrow> disk_model list result" where
  "lsm_read_all h [] garbage = Inr []"
| "lsm_read_all h (a # as) garbage =
     bind_res (case garbage of [] \<Rightarrow> Inl Uninitialised | g # gs \<Rightarrow> lsm_read_config h (Some a) g) (\<lambda>dm.
     bind_res (lsm_read_all h as (tl garbage)) (\<lambda>dms. Inr (dm # dms)))"

definition lsm_configure ::
    "config_lpgroups \<Rightarrow> config_handle \<Rightarrow> int list \<Rightarrow> (config_anno_map \<times> disk_model option \<times> disk_model list) option result" where
  "lsm_configure c h garbage =
     (if codes_mapping_get_lp_count c None 0 LSM_NAME None 1 = 0 then Inr None
      else case codes_mapping_get_lp_anno_map c LSM_NAME of
             None \<Rightarrow> Inl AssertFailed
           | Some amap \<Rightarrow>
               bind_res (if has_unanno_lp amap > 0
                         then bind_res (lsm_read_config h None 0) (\<lambda>dm. Inr (Some dm)) else Inr None) (\<lambda>un.
               bind_res (lsm_read_all h (annotations amap) garbage) (\<lambda>dms. Inr (Some (amap, un, dms)))))"

definition lsm_lp_init ::
    "config_lpgroups \<Rightarrow> config_anno_map \<Rightarrow> disk_model \<Rightarrow> disk_model list \<Rightarrow> tw_synch \<Rightarrow> tw_stime \<Rightarrow> tw_lp \<Rightarrow> lsm_state result" where
  "lsm_lp_init c amap model_unanno models_anno sync now lp =
     bind_res (codes_mapping_get_annotation_by_lpid c (gid lp)) (\<lambda>anno.
     bind_res (case anno of
                 None \<Rightarrow> Inr model_unanno
               | Some a \<Rightarrow> let idx = configuration_get_annotation_index (Some a) amap in
                           if idx < 0 then Inl OutOfBounds else rd models_anno (nat idx)) (\<lambda>dm.
     let us = (dm_use_sched dm > 0) in
     Inr \<lparr>next_idle = now, dmodel = dm, current_offset = 0, current_object = 0,
          lsm_stats_array = replicate LSM_CATEGORY_MAX lsm_stats_zero, use_sched = us,
          sched = \<lparr>num_prios = (if us then dm_use_sched dm else 0), active_count = 0, freelist = rc_stack_create sync,
                   lsm_queues = (if us then replicate (nat (dm_use_sched dm)) [] else [])\<rparr>\<rparr>))"

subsection \<open>Calls of users\<close>

fun prio_loop :: "string \<Rightarrow> string list \<Rightarrow> disk_model list \<Rightarrow> int result" where
  "prio_loop a [] dms = Inl AssertFailed"
| "prio_loop a (b # bs) dms =
     (case dms of [] \<Rightarrow> Inl OutOfBounds | dm # dms' \<Rightarrow> if b = a then Inr (dm_use_sched dm) else prio_loop a bs dms')"

definition lsm_get_num_priorities ::
    "config_lpgroups \<Rightarrow> config_anno_map \<Rightarrow> disk_model \<Rightarrow> disk_model list \<Rightarrow> codes_mctx \<Rightarrow> int \<Rightarrow> int result" where
  "lsm_get_num_priorities c amap model_unanno models_anno ctx sender_id =
     bind_res (codes_mctx_get_annotation c ctx LSM_NAME sender_id) (\<lambda>anno.
       case anno of
         None \<Rightarrow> bind_res (c_assert (has_unanno_lp amap \<noteq> 0)) (\<lambda>_. Inr (dm_use_sched model_unanno))
       | Some a \<Rightarrow> prio_loop a (annotations amap) models_anno)"

record lsm_globals =
  lsm_in_sequence :: int
  lsm_msg_offset :: tw_stime
  temp_prio :: int

definition lsm_set_event_priority :: "int \<Rightarrow> lsm_globals \<Rightarrow> lsm_globals" where
  "lsm_set_event_priority p g = g\<lparr>temp_prio := p\<rparr>"

definition LSM_START_SEQ :: "lsm_globals \<Rightarrow> lsm_globals" where
  "LSM_START_SEQ g = g\<lparr>lsm_in_sequence := 1, lsm_msg_offset := 0\<rparr>"

definition LSM_END_SEQ :: "lsm_globals \<Rightarrow> lsm_globals" where
  "LSM_END_SEQ g = g\<lparr>lsm_in_sequence := 0\<rparr>"

definition lsm_find_local_device :: "config_lpgroups \<Rightarrow> codes_mctx \<Rightarrow> int \<Rightarrow> int result" where
  "lsm_find_local_device c ctx sender_gid = codes_mctx_to_lpid c ctx LSM_NAME sender_gid"

definition choose_prio :: "int \<Rightarrow> int \<Rightarrow> int result" where
  "choose_prio num tmp =
     (if num \<le> 0 then Inr 0 else if tmp < 0 then Inr (num - 1) else if tmp < num then Inr tmp else Inl TwError)"

text \<open>\<open>buf\<close> is the memory of the new event, \<open>lat\<close> the delay of a draw.\<close>

definition lsm_io_event ::
    "config_lpgroups \<Rightarrow> config_anno_map \<Rightarrow> disk_model \<Rightarrow> disk_model list \<Rightarrow> (int \<Rightarrow> tw_stime) \<Rightarrow> int \<Rightarrow> lsm_message \<Rightarrow>
     string \<Rightarrow> u64 \<Rightarrow> u64 \<Rightarrow> u64 \<Rightarrow> int \<Rightarrow> tw_stime \<Rightarrow> codes_mctx \<Rightarrow> int \<Rightarrow> msg_header \<Rightarrow> codes_cb_info \<Rightarrow>
     lsm_globals \<Rightarrow> tw_lp \<Rightarrow> (lsm_globals \<times> tw_lp \<times> lsm_out) result" where
  "lsm_io_event c amap model_unanno models_anno lat lsm_magic buf cat obj off sz io_type delay ctx return_tag return_header cb g lp =
     bind_res (c_assert (length cat < LSM_CATEGORY_NAME_MAX - 1)) (\<lambda>_.
     bind_res (c_assert (length cat > 0)) (\<lambda>_.
     bind_res (SANITY_CHECK_CB cb sizeof_lsm_return) (\<lambda>_.
     bind_res (codes_mctx_to_lpid c ctx LSM_NAME (gid lp)) (\<lambda>lsm_id.
     let (d, lp1) = codes_local_latency lp;
         delta0 = delay + lat d;
         (delta, g1) = (if lsm_in_sequence g \<noteq> 0
                        then (delta0 + lsm_msg_offset g, g\<lparr>lsm_msg_offset := lsm_msg_offset g + delta0\<rparr>)
                        else (delta0, g)) in
     bind_res (lsm_get_num_priorities c amap model_unanno models_anno ctx (gid lp)) (\<lambda>num.
     bind_res (choose_prio num (temp_prio g1)) (\<lambda>p.
       Inr (g1\<lparr>temp_prio := -1\<rparr>, lp1,
            LsmSelf lsm_id delta
              (buf\<lparr>lsm_magic_of := lsm_magic, lsm_event_of := io_type,
                   io_data := \<lparr>io_object = obj, io_offset = off, io_size = sz, io_category = cat, io_prio = p\<rparr>,
                   lsm_cb := \<lparr>cb_info = cb, cb_h = return_header, cb_tag = return_tag\<rparr>\<rparr>))))))))"

definition lsm_io_event_rc :: "tw_lp \<Rightarrow> tw_lp" where
  "lsm_io_event_rc sender = codes_local_latency_reverse sender"

subsection \<open>Statistics entries\<close>

text \<open>The search is that of the statistics of model-net.\<close>

lemma lsm_find_loop_stats:
  "lsm_find_loop cat ss i = find_stats_loop cat (map (\<lambda>s. stats_zero\<lparr>st_category := ls_category s\<rparr>) ss) i"
  by (induction ss arbitrary: i) (simp_all add: stats_zero_def)

lemma lsm_find_entry:
  assumes "lsm_find_stats cat arr = Inr (i, arr')"
  shows "i < LSM_CATEGORY_MAX" and "i < length arr" and "arr' = arr[i := (arr ! i)\<lparr>ls_category := cat\<rparr>]"
    and "\<forall>k < i. ls_category (arr ! k) \<noteq> [] \<and> ls_category (arr ! k) \<noteq> cat"
proof -
  obtain new where l: "find_stats_loop cat (map (\<lambda>s. stats_zero\<lparr>st_category := ls_category s\<rparr>) (take LSM_CATEGORY_MAX arr)) 0
      = Some (i, new)"
    and a': "arr' = (if new then arr[i := (arr ! i)\<lparr>ls_category := cat\<rparr>] else arr)"
    using assms by (auto simp: lsm_find_stats_def lsm_find_loop_stats split: option.splits if_splits)
  from find_stats_loop_Some [OF l] show "i < LSM_CATEGORY_MAX" "i < length arr"
    "\<forall>k < i. ls_category (arr ! k) \<noteq> [] \<and> ls_category (arr ! k) \<noteq> cat" by (auto simp: stats_zero_def)
  from find_stats_loop_Some [OF l] have "\<not> new \<Longrightarrow> ls_category (arr ! i) = cat" by (auto simp: stats_zero_def)
  then have "\<not> new \<Longrightarrow> (arr ! i)\<lparr>ls_category := cat\<rparr> = arr ! i" by auto
  then show "arr' = arr[i := (arr ! i)\<lparr>ls_category := cat\<rparr>]" using a' by auto
qed

lemma lsm_find_updated:
  assumes "lsm_find_stats cat arr = Inr (i, arr')" and "ls_category s = cat"
  shows "lsm_find_stats cat (arr'[i := s]) = Inr (i, arr'[i := s])"
proof -
  note e = lsm_find_entry [OF assms(1)]
  let ?a = "arr'[i := s]"
  have c: "ls_category (?a ! i) = cat" using e(2,3) assms(2) by simp
  have "find_stats_loop cat (map (\<lambda>s. stats_zero\<lparr>st_category := ls_category s\<rparr>) (take LSM_CATEGORY_MAX ?a)) 0 = Some (0 + i, cat = [])"
    by (rule find_stats_loop_hit) (use e c in \<open>auto simp: stats_zero_def\<close>)
  then have l: "lsm_find_loop cat (take LSM_CATEGORY_MAX ?a) 0 = Some (i, cat = [])" by (simp add: lsm_find_loop_stats)
  have "(?a ! i)\<lparr>ls_category := cat\<rparr> = ?a ! i" using c by auto
  then have "?a[i := (?a ! i)\<lparr>ls_category := cat\<rparr>] = ?a" by (simp only: list_update_id)
  with l show ?thesis by (auto simp: lsm_find_stats_def LSM_CATEGORY_NAME_MAX_def)
qed

subsection \<open>A request\<close>

text \<open>The state that differs from \<open>ns\<close> by the name of entry \<open>i\<close> only.\<close>

definition lsm_touched :: "lsm_state \<Rightarrow> nat \<Rightarrow> string \<Rightarrow> lsm_state" where
  "lsm_touched ns i cat = ns\<lparr>lsm_stats_array := (lsm_stats_array ns)[i := (lsm_stats_array ns ! i)\<lparr>ls_category := cat\<rparr>]\<rparr>"

lemma transfer_time_category:
  "transfer_time_table ns stat rw obj off sz = Inr (t, stat') \<Longrightarrow> ls_category stat' = ls_category stat"
  by (auto simp: transfer_time_table_def Let_def bind_res_Inr_iff)

lemma handle_io_request_outcome:
  assumes run: "handle_io_request now ns data m self = Inr (ns', m', out)"
  obtains i t stat where
    "lsm_find_stats (io_category data) (lsm_stats_array ns) = Inr (i, (lsm_stats_array ns)[i := (lsm_stats_array ns ! i)\<lparr>ls_category := io_category data\<rparr>])"
    and "transfer_time_table ns ((lsm_stats_array ns ! i)\<lparr>ls_category := io_category data\<rparr>) (lsm_event_of m = LSM_READ_REQUEST)
           (io_object data) (sint (io_offset data)) (io_size data) = Inr (t, stat)"
    and "ns' = ns\<lparr>next_idle := max (next_idle ns) now + t, lsm_stats_array := (lsm_stats_array ns)[i := stat],
                  current_offset := sint (io_offset data + io_size data), current_object := io_object data\<rparr>"
    and "m' = m\<lparr>prev_idle := next_idle ns, prev_stat := (lsm_stats_array ns ! i)\<lparr>ls_category := io_category data\<rparr>,
                prev_object := current_object ns, prev_offset := current_offset ns\<rparr>"
    and "out = LsmSelf self (max (next_idle ns) now + t - now) (m'\<lparr>lsm_event_of :=
           (if lsm_event_of m = LSM_WRITE_REQUEST then LSM_WRITE_COMPLETION else LSM_READ_COMPLETION)\<rparr>)"
    and "ls_category stat = io_category data"
proof -
  obtain i arr where f: "lsm_find_stats (io_category data) (lsm_stats_array ns) = Inr (i, arr)"
    using run by (auto simp: handle_io_request_def bind_res_Inr_iff Let_def)
  note e = lsm_find_entry [OF f]
  have ai: "arr ! i = (lsm_stats_array ns ! i)\<lparr>ls_category := io_category data\<rparr>" using e(2,3) by simp
  obtain t stat where t: "transfer_time_table ns (arr ! i) (lsm_event_of m = LSM_READ_REQUEST)
           (io_object data) (sint (io_offset data)) (io_size data) = Inr (t, stat)"
    using run f by (auto simp: handle_io_request_def bind_res_Inr_iff Let_def)
  have up: "arr[i := stat] = (lsm_stats_array ns)[i := stat]" using e(3) by simp
  have w: "(if next_idle ns > now then next_idle ns - now else 0) + t + now = max (next_idle ns) now + t"
    "(if next_idle ns > now then next_idle ns - now else 0) + t = max (next_idle ns) now + t - now" by (simp_all add: max_def)
  show thesis
  proof (rule that)
    show "lsm_find_stats (io_category data) (lsm_stats_array ns) =
        Inr (i, (lsm_stats_array ns)[i := (lsm_stats_array ns ! i)\<lparr>ls_category := io_category data\<rparr>])" using f e(3) by simp
    show "transfer_time_table ns ((lsm_stats_array ns ! i)\<lparr>ls_category := io_category data\<rparr>) (lsm_event_of m = LSM_READ_REQUEST)
           (io_object data) (sint (io_offset data)) (io_size data) = Inr (t, stat)" using t ai by simp
    show "ls_category stat = io_category data" using transfer_time_category [OF t] ai by simp
  qed (use run f t in \<open>auto simp: handle_io_request_def Let_def ai up w\<close>)
qed

lemma handle_io_request_reverse:
  assumes run: "handle_io_request now ns data m self = Inr (ns', m', out)"
  shows "\<exists>i. handle_rev_io_request ns' data m' = Inr (lsm_touched ns i (io_category data))"
proof -
  obtain i t stat where f: "lsm_find_stats (io_category data) (lsm_stats_array ns) =
      Inr (i, (lsm_stats_array ns)[i := (lsm_stats_array ns ! i)\<lparr>ls_category := io_category data\<rparr>])"
    and ns': "ns' = ns\<lparr>next_idle := max (next_idle ns) now + t, lsm_stats_array := (lsm_stats_array ns)[i := stat],
                  current_offset := sint (io_offset data + io_size data), current_object := io_object data\<rparr>"
    and m': "m' = m\<lparr>prev_idle := next_idle ns, prev_stat := (lsm_stats_array ns ! i)\<lparr>ls_category := io_category data\<rparr>,
                prev_object := current_object ns, prev_offset := current_offset ns\<rparr>"
    and c: "ls_category stat = io_category data"
    by (rule handle_io_request_outcome [OF run])
  from lsm_find_updated [OF f c] have "handle_rev_io_request ns' data m' = Inr (lsm_touched ns i (io_category data))"
    by (simp add: handle_rev_io_request_def ns' m' lsm_touched_def)
  then show ?thesis ..
qed

subsection \<open>The lanes\<close>

lemma pop_lane_None: "pop_lane qs i = None \<longleftrightarrow> concat qs = []"
  by (induction qs i rule: pop_lane.induct) simp_all

lemma pop_lane_Some:
  "pop_lane qs i = Some (k, d, qs') \<Longrightarrow>
     i \<le> k \<and> k - i < length qs \<and> (\<exists>rest. qs ! (k - i) = d # rest \<and> qs' = qs[k - i := rest]) \<and>
     (\<forall>j < k - i. qs ! j = [])"
proof (induction qs i arbitrary: qs' rule: pop_lane.induct)
  case (2 qs i)
  then obtain qs'' where p: "pop_lane qs (Suc i) = Some (k, d, qs'')" and q: "qs' = [] # qs''" by auto
  from 2(1) [OF p] have ih: "Suc i \<le> k" "k - Suc i < length qs" "\<exists>rest. qs ! (k - Suc i) = d # rest \<and> qs'' = qs[k - Suc i := rest]"
    "\<forall>j < k - Suc i. qs ! j = []" by auto
  have "k - i = Suc (k - Suc i)" using ih(1) by linarith
  with ih q show ?case by (auto simp: All_less_Suc2)
qed auto

text \<open>Requests in the lanes and the one in service are counted.\<close>

definition sched_ok :: "lsm_sched \<Rightarrow> bool" where
  "sched_ok s \<longleftrightarrow> (if active_count s = 0 then concat (lsm_queues s) = []
                  else active_count s = 1 + int (length (concat (lsm_queues s))))"

lemma length_concat_update:
  "i < length qs \<Longrightarrow> length (concat (qs[i := q])) + length (qs ! i) = length (concat qs) + length q"
proof (induction qs arbitrary: i)
  case (Cons q0 qs)
  then show ?case by (cases i) (auto simp: algebra_simps)
qed simp

lemma handle_io_request_sched:
  "handle_io_request now ns data m self = Inr (ns', m', out) \<Longrightarrow> sched ns' = sched ns \<and> use_sched ns' = use_sched ns"
  by (erule handle_io_request_outcome) simp

lemma sched_new_keeps:
  assumes run: "handle_io_sched_new now ns m self = Inr (ns', m', outs)" and ok: "sched_ok (sched ns)"
  shows "sched_ok (sched ns') \<and> use_sched ns' = use_sched ns"
proof (cases "active_count (sched ns) = 0")
  case True
  then obtain ns1 out where r: "handle_io_request now ns (io_data m) m self = Inr (ns1, m', out)"
    and ns': "ns' = ns1\<lparr>sched := (sched ns1)\<lparr>active_count := active_count (sched ns1) + 1\<rparr>\<rparr>"
    using run by (auto simp: handle_io_sched_new_def bind_res_Inr_iff)
  from handle_io_request_sched [OF r] True ok show ?thesis by (auto simp: ns' sched_ok_def)
next
  case False
  then have i: "nat (msg_prio m) < length (lsm_queues (sched ns))"
    and ns': "ns' = ns\<lparr>sched := (sched ns)\<lparr>lsm_queues := (lsm_queues (sched ns))[nat (msg_prio m) :=
        lsm_queues (sched ns) ! nat (msg_prio m) @ [io_data m]], active_count := active_count (sched ns) + 1\<rparr>\<rparr>"
    using run by (auto simp: handle_io_sched_new_def bind_res_Inr_iff rd_def split: if_split_asm)
  have "length (concat ((lsm_queues (sched ns))[nat (msg_prio m) := lsm_queues (sched ns) ! nat (msg_prio m) @ [io_data m]]))
      = Suc (length (concat (lsm_queues (sched ns))))"
    using length_concat_update [OF i, of "lsm_queues (sched ns) ! nat (msg_prio m) @ [io_data m]"] by simp
  with ok False show ?thesis by (auto simp: ns' sched_ok_def)
qed

lemma sched_compl_outcome:
  assumes run: "handle_io_sched_compl now ns m self = Inr (ns', m', outs)"
  obtains (idle) "active_count (sched ns) = 1" "ns' = ns\<lparr>sched := (sched ns)\<lparr>active_count := 0\<rparr>\<rparr>" "m' = m" "outs = []"
  | (served) k d rest ns2 out where "active_count (sched ns) \<noteq> 1" "k < length (lsm_queues (sched ns))"
      "lsm_queues (sched ns) ! k = d # rest" "\<forall>j < k. lsm_queues (sched ns) ! j = []"
      "handle_io_request now (ns\<lparr>sched := (sched ns)\<lparr>active_count := active_count (sched ns) - 1,
         lsm_queues := (lsm_queues (sched ns))[k := rest]\<rparr>\<rparr>) d (m\<lparr>msg_prio := int k\<rparr>) self = Inr (ns2, m', out)"
      "ns' = ns2\<lparr>sched := (sched ns2)\<lparr>freelist := fst (rc_stack_push now d True (freelist (sched ns2)))\<rparr>\<rparr>" "outs = [out]"
proof (cases "active_count (sched ns) = 1")
  case True
  then show thesis using run by (intro idle) (auto simp: handle_io_sched_compl_def)
next
  case False
  then obtain k d qs where p: "pop_lane (lsm_queues (sched ns)) 0 = Some (k, d, qs)"
    using run by (auto simp: handle_io_sched_compl_def Let_def split: option.splits)
  from pop_lane_Some [OF p] obtain rest where l: "k < length (lsm_queues (sched ns))" "lsm_queues (sched ns) ! k = d # rest"
    "qs = (lsm_queues (sched ns))[k := rest]" "\<forall>j < k. lsm_queues (sched ns) ! j = []" by auto
  show thesis
    using run False p l by (auto simp: handle_io_sched_compl_def bind_res_Inr_iff intro: served [OF False l(1,2,4)])
qed

lemma sched_compl_keeps:
  assumes run: "handle_io_sched_compl now ns m self = Inr (ns', m', outs)" and ok: "sched_ok (sched ns)"
    and busy: "active_count (sched ns) \<noteq> 0"
  shows "sched_ok (sched ns') \<and> use_sched ns' = use_sched ns"
proof (cases rule: sched_compl_outcome [OF run])
  case 1
  then show ?thesis using ok by (simp add: sched_ok_def)
next
  case (2 k d rest ns2 out)
  have "length (concat ((lsm_queues (sched ns))[k := rest])) + 1 = length (concat (lsm_queues (sched ns)))"
    using length_concat_update [OF 2(2), of rest] 2(3) by simp
  then show ?thesis using handle_io_request_sched [OF 2(5)] ok busy 2(1) by (auto simp: 2(6) sched_ok_def)
qed

lemma completion_keeps:
  assumes run: "handle_io_completion now ns m lp = Inr (ns', m', lp', outs)"
  shows "use_sched ns \<Longrightarrow> \<exists>outs'. handle_io_sched_compl now ns m (gid lp) = Inr (ns', m', outs') \<and> outs = hd outs # outs'"
    and "\<not> use_sched ns \<Longrightarrow> ns' = ns \<and> m' = m" and "codes_local_latency_reverse lp' = lp"
  using run by (auto simp: handle_io_completion_def bind_res_Inr_iff split_beta Let_def
      codes_local_latency_def codes_local_latency_reverse_def)

subsection \<open>Reversal\<close>

lemma lsm_touched_sched [simp]:
  "lsm_touched (ns\<lparr>sched := s\<rparr>) i cat = (lsm_touched ns i cat)\<lparr>sched := s\<rparr>"
  "sched (lsm_touched ns i cat) = sched ns" "use_sched (lsm_touched ns i cat) = use_sched ns"
  by (simp_all add: lsm_touched_def)

lemma rev_request_sched:
  assumes "handle_rev_io_request ns data m = Inr ns'"
  shows "handle_rev_io_request (ns\<lparr>sched := s\<rparr>) data m = Inr (ns'\<lparr>sched := s\<rparr>)"
  using assms by (auto simp: handle_rev_io_request_def bind_res_Inr_iff)

lemma request_message:
  "handle_io_request now ns data m self = Inr (ns', m', out) \<Longrightarrow>
     io_data m' = io_data m \<and> msg_prio m' = msg_prio m \<and> lsm_event_of m' = lsm_event_of m \<and> lsm_magic_of m' = lsm_magic_of m"
  by (erule handle_io_request_outcome) simp

lemma request_keeps:
  "handle_io_request now ns data m self = Inr (ns', m', out) \<Longrightarrow>
     sched ns' = sched ns \<and> use_sched ns' = use_sched ns \<and> lsm_event_of m' = lsm_event_of m \<and> lsm_magic_of m' = lsm_magic_of m"
  using handle_io_request_sched request_message by blast

lemma sched_new_reverse:
  assumes run: "handle_io_sched_new now ns m self = Inr (ns', m', outs)"
  shows "handle_rev_io_sched_new ns' m' = Inr ns \<or>
    (\<exists>i. handle_rev_io_sched_new ns' m' = Inr (lsm_touched ns i (io_category (io_data m))))"
proof (cases "active_count (sched ns) = 0")
  case True
  then obtain ns1 out where r: "handle_io_request now ns (io_data m) m self = Inr (ns1, m', out)"
    and ns': "ns' = ns1\<lparr>sched := (sched ns1)\<lparr>active_count := active_count (sched ns1) + 1\<rparr>\<rparr>"
    using run by (auto simp: handle_io_sched_new_def bind_res_Inr_iff)
  obtain i where i: "handle_rev_io_request ns1 (io_data m) m' = Inr (lsm_touched ns i (io_category (io_data m)))"
    using handle_io_request_reverse [OF r] by blast
  have e1: "(sched ns)\<lparr>active_count := 0\<rparr> = sched ns" using True by simp
  have e2: "(lsm_touched ns i (io_category (io_data m)))\<lparr>sched := sched ns\<rparr> = lsm_touched ns i (io_category (io_data m))"
    by (simp add: lsm_touched_def)
  have "handle_rev_io_sched_new ns' m' = Inr (lsm_touched ns i (io_category (io_data m)))"
    using True handle_io_request_sched [OF r] request_message [OF r] rev_request_sched [OF i, of "sched ns"]
    by (simp add: handle_rev_io_sched_new_def ns' e1 e2)
  then show ?thesis by blast
next
  case False
  then have i: "nat (msg_prio m) < length (lsm_queues (sched ns))" "0 \<le> msg_prio m" "m' = m"
    and ns': "ns' = ns\<lparr>sched := (sched ns)\<lparr>lsm_queues := (lsm_queues (sched ns))[nat (msg_prio m) :=
        lsm_queues (sched ns) ! nat (msg_prio m) @ [io_data m]], active_count := active_count (sched ns) + 1\<rparr>\<rparr>"
    using run by (auto simp: handle_io_sched_new_def bind_res_Inr_iff rd_def split: if_split_asm)
  then show ?thesis using False by (simp add: handle_rev_io_sched_new_def)
qed

text \<open>The lanes after a completion has been rolled back: the request that had been taken is put back at
  the end of its lane.\<close>

lemma sched_compl_reverse:
  assumes run: "handle_io_sched_compl now ns m self = Inr (ns', m', outs)"
    and opt: "rcs_mode (freelist (sched ns)) \<noteq> RC_NONOPT" and busy: "active_count (sched ns) \<noteq> 0"
  shows "handle_rev_io_sched_compl ns' m' = Inr ns \<or>
    (\<exists>i k d rest. lsm_queues (sched ns) ! k = d # rest \<and> k < length (lsm_queues (sched ns)) \<and>
       handle_rev_io_sched_compl ns' m' = Inr ((lsm_touched ns i (io_category d))
         \<lparr>sched := (sched ns)\<lparr>lsm_queues := (lsm_queues (sched ns))[k := rest @ [d]]\<rparr>\<rparr>))"
proof (cases rule: sched_compl_outcome [OF run])
  case 1
  then show ?thesis by (simp add: handle_rev_io_sched_compl_def)
next
  case (2 k d rest ns2 out)
  note s = handle_io_request_sched [OF 2(5)] request_message [OF 2(5)]
  have st: "rcs_mode (freelist (sched ns2)) \<noteq> RC_NONOPT" using s opt by simp
  have pop: "rc_stack_pop (fst (rc_stack_push now d True (freelist (sched ns2)))) = Inr (d, freelist (sched ns2))"
    using st by (simp add: rc_stack_pop_def rc_stack_push_def)
  obtain i where r: "handle_rev_io_request ns2 d m' = Inr (lsm_touched (ns\<lparr>sched := (sched ns)\<lparr>active_count := active_count (sched ns) - 1,
         lsm_queues := (lsm_queues (sched ns))[k := rest]\<rparr>\<rparr>) i (io_category d))"
    using handle_io_request_reverse [OF 2(5)] by blast
  have "handle_rev_io_sched_compl ns' m' = Inr ((lsm_touched ns i (io_category d))
         \<lparr>sched := (sched ns)\<lparr>lsm_queues := (lsm_queues (sched ns))[k := rest @ [d]]\<rparr>\<rparr>)"
    using rev_request_sched [OF r, of "sched ns2"] 2(1,2) s busy pop by (simp add: handle_rev_io_sched_compl_def 2(6))
  then show ?thesis using 2(2,3) by blast
qed

text \<open>A state after rollback: as before but for the name of a statistics entry and a waiting request that
  has been put back at the end of its lane.\<close>

definition lsm_undone :: "lsm_state \<Rightarrow> lsm_state \<Rightarrow> bool" where
  "lsm_undone ns t \<longleftrightarrow> t = ns \<or> (\<exists>i cat. t = lsm_touched ns i cat) \<or>
     (\<exists>i cat k d rest. lsm_queues (sched ns) ! k = d # rest \<and>
        t = (lsm_touched ns i cat)\<lparr>sched := (sched ns)\<lparr>lsm_queues := (lsm_queues (sched ns))[k := rest @ [d]]\<rparr>\<rparr>)"

lemma lsm_undoneI [simp, intro]:
  "lsm_undone ns ns" "lsm_undone ns (lsm_touched ns i cat)"
  "lsm_queues (sched ns) ! k = d # rest \<Longrightarrow>
     lsm_undone ns ((lsm_touched ns i cat)\<lparr>sched := (sched ns)\<lparr>lsm_queues := (lsm_queues (sched ns))[k := rest @ [d]]\<rparr>\<rparr>)"
  unfolding lsm_undone_def by blast+

subsection \<open>Properties\<close>

text \<open>C12: the scheduler of the disk loses no request. If the requests are counted (the count is 0 with empty
  lanes, or one more than there are waiting requests), every event keeps that, and when a request is
  finished while others wait, the handler finds one: it takes the oldest request of the first lane
  that has any.\<close>
theorem lsm_scheduler_serves:
  assumes run: "lsm_event magic now ns m lp = Inr (ns', m', lp', outs)"
    and us: "use_sched ns" and ok: "sched_ok (sched ns)"
    and compl: "lsm_event_of m = LSM_WRITE_COMPLETION \<or> lsm_event_of m = LSM_READ_COMPLETION \<Longrightarrow> active_count (sched ns) \<noteq> 0"
  shows "sched_ok (sched ns') \<and> use_sched ns' \<and>
    (active_count (sched ns) > 1 \<longrightarrow>
       (\<exists>k d rest. pop_lane (lsm_queues (sched ns)) 0 = Some (k, d, (lsm_queues (sched ns))[k := rest]) \<and>
          lsm_queues (sched ns) ! k = d # rest \<and> (\<forall>j < k. lsm_queues (sched ns) ! j = [])))"
proof -
  have "sched_ok (sched ns') \<and> use_sched ns'"
  proof (cases "lsm_event_of m = LSM_WRITE_REQUEST \<or> lsm_event_of m = LSM_READ_REQUEST")
    case True
    then have "handle_io_sched_new now ns m (gid lp) = Inr (ns', m', outs)"
      using run us by (auto simp: lsm_event_def bind_res_Inr_iff)
    from sched_new_keeps [OF this ok] us show ?thesis by simp
  next
    case False
    show ?thesis
    proof (cases "lsm_event_of m = LSM_WRITE_COMPLETION \<or> lsm_event_of m = LSM_READ_COMPLETION")
      case True
      then have "handle_io_completion now ns m lp = Inr (ns', m', lp', outs)"
        using False run by (auto simp: lsm_event_def bind_res_Inr_iff)
      from completion_keeps(1) [OF this us] obtain outs' where "handle_io_sched_compl now ns m (gid lp) = Inr (ns', m', outs')" by blast
      from sched_compl_keeps [OF this ok compl [OF True]] us show ?thesis by simp
    next
      case no: False
      then have "ns' = ns" using False run by (auto simp: lsm_event_def bind_res_Inr_iff)
      then show ?thesis using ok us by simp
    qed
  qed
  moreover have "\<exists>k d rest. pop_lane (lsm_queues (sched ns)) 0 = Some (k, d, (lsm_queues (sched ns))[k := rest]) \<and>
          lsm_queues (sched ns) ! k = d # rest \<and> (\<forall>j < k. lsm_queues (sched ns) ! j = [])"
    if "active_count (sched ns) > 1"
  proof -
    have "concat (lsm_queues (sched ns)) \<noteq> []" using ok that by (auto simp: sched_ok_def)
    then obtain k d qs where p: "pop_lane (lsm_queues (sched ns)) 0 = Some (k, d, qs)"
      using pop_lane_None [of "lsm_queues (sched ns)" 0] by (cases "pop_lane (lsm_queues (sched ns)) 0") auto
    from pop_lane_Some [OF p] obtain rest where "lsm_queues (sched ns) ! k = d # rest" "qs = (lsm_queues (sched ns))[k := rest]"
      "\<forall>j < k. lsm_queues (sched ns) ! j = []" by auto
    with p show ?thesis by (intro exI [of _ k] exI [of _ d] exI [of _ rest]) simp
  qed
  ultimately show ?thesis by blast
qed

text \<open>C36: rollback of a disk. On a disk without scheduler every event, requests and completions, is undone
  by the reverse handler up to the name of a statistics entry. On a disk with a scheduler so is every
  event of a simulation with rollback in which a completion finds at least one counted request, except
  that a completion that has handed a waiting request to the disk puts it back at the end of its lane:
  the lane is restored only if no other request waits there.\<close>
theorem lsm_events_reversible:
  assumes run: "lsm_event magic now ns m lp = Inr (ns', m', lp', outs)"
    and opt: "use_sched ns \<Longrightarrow> rcs_mode (freelist (sched ns)) \<noteq> RC_NONOPT"
    and busy: "use_sched ns \<Longrightarrow> lsm_event_of m = LSM_WRITE_COMPLETION \<or> lsm_event_of m = LSM_READ_COMPLETION \<Longrightarrow>
      active_count (sched ns) \<noteq> 0"
  shows "\<exists>t. lsm_rev_event magic ns' m' lp' = Inr (t, lp) \<and> lsm_undone ns t \<and>
    (\<not> use_sched ns \<longrightarrow> t = ns \<or> (\<exists>i cat. t = lsm_touched ns i cat))"
proof -
  have mg: "lsm_magic_of m = magic" using run by (auto simp: lsm_event_def bind_res_Inr_iff c_assert_Inr_iff)
  show ?thesis
  proof (cases "lsm_event_of m = LSM_WRITE_REQUEST \<or> lsm_event_of m = LSM_READ_REQUEST")
    case req: True
    show ?thesis
    proof (cases "use_sched ns")
      case True
      then have r: "handle_io_sched_new now ns m (gid lp) = Inr (ns', m', outs)" and l: "lp' = lp"
        using run req by (auto simp: lsm_event_def bind_res_Inr_iff)
      have "lsm_magic_of m' = magic" "lsm_event_of m' = lsm_event_of m" "use_sched ns'"
        using r mg True by (auto simp: handle_io_sched_new_def bind_res_Inr_iff dest!: request_keeps split: if_split_asm)
      then show ?thesis using sched_new_reverse [OF r] req l True by (auto simp: lsm_rev_event_def)
    next
      case False
      then obtain out where r: "handle_io_request now ns (io_data m) m (gid lp) = Inr (ns', m', out)" and l: "lp' = lp"
        using run req by (auto simp: lsm_event_def bind_res_Inr_iff)
      then show ?thesis using handle_io_request_reverse [OF r] req request_message [OF r] handle_io_request_sched [OF r] mg False
        by (auto simp: lsm_rev_event_def) blast+
    qed
  next
    case False
    note noreq = this
    show ?thesis
    proof (cases "lsm_event_of m = LSM_WRITE_COMPLETION \<or> lsm_event_of m = LSM_READ_COMPLETION")
      case compl: True
      then have c: "handle_io_completion now ns m lp = Inr (ns', m', lp', outs)"
        using noreq run by (auto simp: lsm_event_def bind_res_Inr_iff)
      note ck = completion_keeps [OF c]
      show ?thesis
      proof (cases "use_sched ns")
        case True
        then obtain outs' where s: "handle_io_sched_compl now ns m (gid lp) = Inr (ns', m', outs')" using ck(1) by blast
        have "lsm_magic_of m' = magic \<and> lsm_event_of m' = lsm_event_of m \<and> use_sched ns'"
          using mg True by (cases rule: sched_compl_outcome [OF s]) (auto dest!: request_keeps)
        moreover have "active_count (sched ns) \<noteq> 0" using busy True compl by blast
        ultimately show ?thesis
          using sched_compl_reverse [OF s opt [OF True]] True compl noreq ck(3) by (auto simp: lsm_rev_event_def handle_rev_io_completion_def)
      next
        case False
        then show ?thesis using ck compl noreq mg by (auto simp: lsm_rev_event_def handle_rev_io_completion_def)
      qed
    next
      case no: False
      then have "ns' = ns" "m' = m" "lp' = lp" using noreq run by (auto simp: lsm_event_def bind_res_Inr_iff)
      then show ?thesis using no noreq mg by (auto simp: lsm_rev_event_def)
    qed
  qed
qed

text \<open>C37: a request that waited in a lane is never answered. When the scheduler hands it to the disk, the
  event for its completion carries the callback of the request that was just finished, and it is
  accounted for as a write and completed as a read, whatever it was.\<close>
theorem lsm_waiting_request_loses_callback:
  assumes run: "handle_io_completion now ns m lp = Inr (ns', m', lp', outs)"
    and us: "use_sched ns" and wait: "active_count (sched ns) \<noteq> 1"
    and ev: "lsm_event_of m = LSM_WRITE_COMPLETION \<or> lsm_event_of m = LSM_READ_COMPLETION"
  shows "\<exists>ret self delay m''. outs = [ret, LsmSelf self delay m''] \<and> lsm_cb m'' = lsm_cb m \<and>
    lsm_event_of m'' = LSM_READ_COMPLETION \<and>
    map read_count (lsm_stats_array ns') = map read_count (lsm_stats_array ns)"
proof -
  obtain outs' where s: "handle_io_sched_compl now ns m (gid lp) = Inr (ns', m', outs')" and o: "outs = hd outs # outs'"
    using completion_keeps(1) [OF run us] by blast
  show ?thesis
  proof (cases rule: sched_compl_outcome [OF s])
    case 1
    then show ?thesis using wait by simp
  next
    case (2 k d rest ns2 out)
    let ?arr = "lsm_stats_array ns"
    obtain i t stat where t: "transfer_time_table (ns\<lparr>sched := (sched ns)\<lparr>active_count := active_count (sched ns) - 1,
         lsm_queues := (lsm_queues (sched ns))[k := rest]\<rparr>\<rparr>) ((?arr ! i)\<lparr>ls_category := io_category d\<rparr>) False
           (io_object d) (sint (io_offset d)) (io_size d) = Inr (t, stat)"
      and a: "lsm_stats_array ns2 = ?arr[i := stat]"
      and out: "\<exists>dl m1. out = LsmSelf (gid lp) dl m1 \<and> lsm_cb m1 = lsm_cb m \<and> lsm_event_of m1 = LSM_READ_COMPLETION"
      by (rule handle_io_request_outcome [OF 2(5)]) (use ev in \<open>auto simp: lsm_events\<close>)
    have "read_count stat = read_count (?arr ! i)"
      using t by (auto simp: transfer_time_table_def Let_def bind_res_Inr_iff)
    then have "map read_count (?arr[i := stat]) = map read_count ?arr"
      by (metis list_update_beyond list_update_id map_update not_le)
    then show ?thesis using o out a by (auto simp: 2(6,7))
  qed
qed

subsection \<open>Examples\<close>

definition ex_disk :: disk_model where
  "ex_disk = \<lparr>request_sizes = [0, 4096], write_rates = [100, 200], read_rates = [100, 200], write_overheads = [10, 10],
     read_overheads = [10, 10], write_seeks = [1000, 1000], read_seeks = [1000, 1000], dm_use_sched = 2\<rparr>"

definition ex_io :: "u64 \<Rightarrow> lsm_message_data" where
  "ex_io obj = \<lparr>io_object = obj, io_offset = 0, io_size = 1024, io_category = ''io'', io_prio = 1\<rparr>"

definition ex_lsm_msg :: "int \<Rightarrow> u64 \<Rightarrow> lsm_message" where
  "ex_lsm_msg ev obj = \<lparr>lsm_magic_of = 5, lsm_event_of = ev, msg_prio = 1, prev_idle = 0, prev_stat = lsm_stats_zero, prev_offset = 0,
     prev_object = 0, io_data = ex_io obj, lsm_cb = \<lparr>cb_info = \<lparr>event_size = 64, header_offset = 0, tag_offset = 16, cb_ret_offset = 20\<rparr>,
     cb_h = msg_set_header 7 1 3, cb_tag = 42\<rparr>\<rparr>"

text \<open>A disk with two lanes that serves a request; requests of objects 8 and 9 wait in the second lane.\<close>

definition ex_lsm :: lsm_state where
  "ex_lsm = \<lparr>next_idle = 500, dmodel = ex_disk, current_offset = 0, current_object = 0,
     lsm_stats_array = replicate 12 lsm_stats_zero, use_sched = True,
     sched = \<lparr>num_prios = 2, active_count = 3, freelist = rc_stack_create OPTIMISTIC, lsm_queues = [[], [ex_io 8, ex_io 9]]\<rparr>\<rparr>"

lemma ex_lsm_completes:
  "\<exists>ns' m' lp' outs. lsm_event 5 500 ex_lsm (ex_lsm_msg LSM_READ_COMPLETION 1) \<lparr>gid = 4, draws = 0\<rparr> = Inr (ns', m', lp', outs) \<and>
     lsm_queues (sched ns') = [[], [ex_io 9]]"
proof -
  have "case lsm_event 5 500 ex_lsm (ex_lsm_msg LSM_READ_COMPLETION 1) \<lparr>gid = 4, draws = 0\<rparr> of Inl e \<Rightarrow> False
    | Inr (ns', m', lp', outs) \<Rightarrow> lsm_queues (sched ns') = [[], [ex_io 9]]" by code_simp
  then show ?thesis by (auto split: sum.splits)
qed

theorem lsm_scheduler_serves_witness:
  "\<exists>ns' m' lp' outs. lsm_event 5 500 ex_lsm (ex_lsm_msg LSM_READ_COMPLETION 1) \<lparr>gid = 4, draws = 0\<rparr> = Inr (ns', m', lp', outs) \<and>
     sched_ok (sched ns') \<and> lsm_queues (sched ns') = [[], [ex_io 9]]"
proof -
  obtain ns' m' lp' outs where e: "lsm_event 5 500 ex_lsm (ex_lsm_msg LSM_READ_COMPLETION 1) \<lparr>gid = 4, draws = 0\<rparr> = Inr (ns', m', lp', outs)"
    and q: "lsm_queues (sched ns') = [[], [ex_io 9]]" using ex_lsm_completes by blast
  have "use_sched ex_lsm" "sched_ok (sched ex_lsm)" "active_count (sched ex_lsm) \<noteq> 0" by (simp_all add: ex_lsm_def sched_ok_def)
  with lsm_scheduler_serves [OF e] e q show ?thesis by blast
qed

theorem lsm_events_reversible_witness:
  "\<exists>ns' m' lp' outs t. lsm_event 5 500 ex_lsm (ex_lsm_msg LSM_READ_COMPLETION 1) \<lparr>gid = 4, draws = 0\<rparr> = Inr (ns', m', lp', outs) \<and>
     lsm_rev_event 5 ns' m' lp' = Inr (t, \<lparr>gid = 4, draws = 0\<rparr>) \<and> lsm_undone ex_lsm t"
proof -
  obtain ns' m' lp' outs where e: "lsm_event 5 500 ex_lsm (ex_lsm_msg LSM_READ_COMPLETION 1) \<lparr>gid = 4, draws = 0\<rparr> = Inr (ns', m', lp', outs)"
    using ex_lsm_completes by blast
  have "rcs_mode (freelist (sched ex_lsm)) \<noteq> RC_NONOPT" "active_count (sched ex_lsm) \<noteq> 0"
    by (simp_all add: ex_lsm_def rc_stack_create_def)
  with lsm_events_reversible [OF e] e show ?thesis by blast
qed

theorem lsm_waiting_request_loses_callback_witness:
  "\<exists>ns' m' lp' outs. handle_io_completion 500 ex_lsm (ex_lsm_msg LSM_READ_COMPLETION 1) \<lparr>gid = 4, draws = 0\<rparr> = Inr (ns', m', lp', outs) \<and>
     (\<exists>ret self delay m''. outs = [ret, LsmSelf self delay m''] \<and> lsm_cb m'' = lsm_cb (ex_lsm_msg LSM_READ_COMPLETION 1))"
proof -
  have "case handle_io_completion 500 ex_lsm (ex_lsm_msg LSM_READ_COMPLETION 1) \<lparr>gid = 4, draws = 0\<rparr> of Inl e \<Rightarrow> False | Inr r \<Rightarrow> True"
    by code_simp
  then obtain ns' m' lp' outs where e: "handle_io_completion 500 ex_lsm (ex_lsm_msg LSM_READ_COMPLETION 1) \<lparr>gid = 4, draws = 0\<rparr> = Inr (ns', m', lp', outs)"
    by (auto split: sum.splits)
  have "use_sched ex_lsm" "active_count (sched ex_lsm) \<noteq> 1" "lsm_event_of (ex_lsm_msg LSM_READ_COMPLETION 1) = LSM_READ_COMPLETION"
    by (simp_all add: ex_lsm_def ex_lsm_msg_def)
  with lsm_waiting_request_loses_callback [OF e] e show ?thesis by blast
qed

text \<open>Rolling back the completion of the example exchanges the two waiting requests.\<close>

lemma lsm_rollback_reorders_lane:
  "case lsm_event 5 500 ex_lsm (ex_lsm_msg LSM_READ_COMPLETION 1) \<lparr>gid = 4, draws = 0\<rparr> of Inl e \<Rightarrow> False
   | Inr (ns', m', lp', outs) \<Rightarrow>
       (case lsm_rev_event 5 ns' m' lp' of Inl e \<Rightarrow> False | Inr (t, lp) \<Rightarrow> lsm_queues (sched t) = [[], [ex_io 9, ex_io 8]])"
  by code_simp

text \<open>\<open>lsm_io_event\<close> chooses the priority of a request and leaves \<open>msg_prio\<close>, by which the scheduler picks
  the lane, as it was in the buffer.\<close>

lemma lsm_io_event_prio_unset:
  assumes "lsm_io_event c amap mu ma lat magic buf cat obj off sz ty delay ctx tag h cb g lp = Inr (g', lp', out)"
  shows "msg_prio (lo_msg out) = msg_prio buf" and "lsm_io_event_rc lp' = lp"
  using assms by (auto simp: lsm_io_event_def lsm_io_event_rc_def bind_res_Inr_iff Let_def split_beta
      codes_local_latency_def codes_local_latency_reverse_def split: if_split_asm)

subsection \<open>One request at a time\<close>

definition disk_ok :: "disk_model \<Rightarrow> bool" where
  "disk_ok dm \<longleftrightarrow> (\<forall>r \<in> set (read_rates dm @ write_rates dm). 0 < r) \<and>
     (\<forall>x \<in> set (read_overheads dm @ write_overheads dm @ read_seeks dm @ write_seeks dm). 0 \<le> x)"

lemma disk_okD:
  assumes "disk_ok dm"
  shows "i < length (read_rates dm) \<Longrightarrow> 0 < read_rates dm ! i" and "i < length (write_rates dm) \<Longrightarrow> 0 < write_rates dm ! i"
    and "i < length (read_overheads dm) \<Longrightarrow> 0 \<le> read_overheads dm ! i"
    and "i < length (write_overheads dm) \<Longrightarrow> 0 \<le> write_overheads dm ! i"
    and "i < length (read_seeks dm) \<Longrightarrow> 0 \<le> read_seeks dm ! i" and "i < length (write_seeks dm) \<Longrightarrow> 0 \<le> write_seeks dm ! i"
  using assms by (auto simp: disk_ok_def)

lemma transfer_time_nonneg:
  assumes run: "transfer_time_table ns stat rw obj off sz = Inr (t, stat')" and ok: "disk_ok (dmodel ns)"
  shows "0 \<le> t"
proof -
  let ?dm = "dmodel ns" and ?i = "find_bin (dmodel ns) sz"
  obtain r sk ov where "rd (if rw then read_rates ?dm else write_rates ?dm) ?i = Inr r"
    "rd (if rw then read_seeks ?dm else write_seeks ?dm) ?i = Inr sk"
    "rd (if rw then read_overheads ?dm else write_overheads ?dm) ?i = Inr ov"
    and t: "t = (real (unat sz) / (1024 * 1024) / r) * 1000 * 1000 * 1000 + ov * 1000 + (if needs_seek ns obj off then sk * 1000 else 0)"
    using run unfolding transfer_time_table_def Let_def bind_res_Inr_iff sum.inject prod.inject by blast
  then have "0 < r" "0 \<le> sk" "0 \<le> ov"
    using disk_okD [OF ok, of ?i] by (auto simp: rd_def split: if_split_asm)
  then show ?thesis unfolding t
    by (intro add_nonneg_nonneg mult_nonneg_nonneg divide_nonneg_nonneg) (auto simp del: of_nat_unat)
qed

text \<open>A run of the event handler over requests and completions, with the times from which to which the disk
  works on each request: the request begins when it has arrived and the disk is idle and ends at the
  time of the completion event the handler sends.\<close>

definition is_request :: "lsm_message \<Rightarrow> bool" where
  "is_request m \<longleftrightarrow> lsm_event_of m = LSM_WRITE_REQUEST \<or> lsm_event_of m = LSM_READ_REQUEST"

fun lsm_serve ::
    "int \<Rightarrow> (tw_stime \<times> lsm_message) list \<Rightarrow> lsm_state \<Rightarrow> tw_lp \<Rightarrow> (lsm_state \<times> tw_lp \<times> (tw_stime \<times> tw_stime) list) result" where
  "lsm_serve magic [] ns lp = Inr (ns, lp, [])"
| "lsm_serve magic ((now, m) # rs) ns lp =
     bind_res (lsm_event magic now ns m lp) (\<lambda>(ns1, m1, lp1, outs).
     bind_res (lsm_serve magic rs ns1 lp1) (\<lambda>(ns2, lp2, ivs).
       Inr (ns2, lp2, (if is_request m then [(max (next_idle ns) now, now + lo_delay (hd outs))] else []) @ ivs)))"

lemma lsm_event_no_sched:
  assumes run: "lsm_event magic now ns m lp = Inr (ns1, m1, lp1, outs)" and us: "\<not> use_sched ns" and ok: "disk_ok (dmodel ns)"
  shows "\<not> use_sched ns1 \<and> dmodel ns1 = dmodel ns \<and> next_idle ns \<le> next_idle ns1 \<and>
    (is_request m \<longrightarrow> max (next_idle ns) now \<le> next_idle ns1 \<and> now + lo_delay (hd outs) = next_idle ns1)"
proof (cases "is_request m")
  case True
  then obtain out where h: "handle_io_request now ns (io_data m) m (gid lp) = Inr (ns1, m1, out)" and o: "outs = [out]"
    using run us by (auto simp: lsm_event_def is_request_def bind_res_Inr_iff)
  obtain t where t: "0 \<le> t" and idle: "next_idle ns1 = max (next_idle ns) now + t" "dmodel ns1 = dmodel ns"
    "now + lo_delay out = max (next_idle ns) now + t"
    by (rule handle_io_request_outcome [OF h]) (use ok in \<open>auto dest: transfer_time_nonneg\<close>)
  have "next_idle ns \<le> max (next_idle ns) now" by simp
  then show ?thesis using idle t o handle_io_request_sched [OF h] us by auto
next
  case False
  then have "ns1 = ns"
    using run us completion_keeps(2) by (auto simp: lsm_event_def is_request_def bind_res_Inr_iff split: if_split_asm)
  then show ?thesis using us False by simp
qed

lemma lsm_serve_bounds:
  "lsm_serve magic rs ns lp = Inr (ns', lp', ivs) \<Longrightarrow> \<not> use_sched ns \<Longrightarrow> disk_ok (dmodel ns) \<Longrightarrow>
     sorted_wrt (\<lambda>(a, b) (c, d). b \<le> c) ivs \<and> (\<forall>(a, b) \<in> set ivs. next_idle ns \<le> a \<and> a \<le> b \<and> b \<le> next_idle ns') \<and>
     next_idle ns \<le> next_idle ns' \<and> length ivs = length (filter (\<lambda>r. is_request (snd r)) rs)"
proof (induction rs arbitrary: ns lp ivs)
  case (Cons r rs)
  obtain now m where r: "r = (now, m)" by (cases r)
  obtain ns1 m1 lp1 outs ivs1 where h: "lsm_event magic now ns m lp = Inr (ns1, m1, lp1, outs)"
    and rest: "lsm_serve magic rs ns1 lp1 = Inr (ns', lp', ivs1)"
    and ivs: "ivs = (if is_request m then [(max (next_idle ns) now, now + lo_delay (hd outs))] else []) @ ivs1"
    using Cons.prems(1) by (auto simp: r bind_res_Inr_iff)
  note st = lsm_event_no_sched [OF h Cons.prems(2,3)]
  have ih: "sorted_wrt (\<lambda>(a, b) (c, d). b \<le> c) ivs1" "\<forall>(a, b) \<in> set ivs1. next_idle ns1 \<le> a \<and> a \<le> b \<and> b \<le> next_idle ns'"
    "next_idle ns1 \<le> next_idle ns'" "length ivs1 = length (filter (\<lambda>r. is_request (snd r)) rs)"
    using Cons.IH [OF rest] Cons.prems(3) st by auto
  show ?case
  proof (cases "is_request m")
    case True
    then have "now + lo_delay (hd outs) = next_idle ns1" "max (next_idle ns) now \<le> next_idle ns1" "next_idle ns \<le> next_idle ns1"
      using st by auto
    moreover have "next_idle ns \<le> max (next_idle ns) now" by simp
    ultimately show ?thesis using ih True unfolding ivs by (auto simp: r intro: order_trans)
  next
    case False
    then show ?thesis using ih st unfolding ivs by (auto simp: r intro: order_trans)
  qed
qed simp

text \<open>C13: a disk without scheduler works on one request at a time and in the order of arrival: over any run
  of request and completion events each request occupies it from the time it arrives or the disk
  becomes idle, no request begins before the one before it has ended, and its completion event comes
  at the end of its interval.\<close>
theorem lsm_disk_serialises:
  assumes "lsm_serve magic rs ns lp = Inr (ns', lp', ivs)" and "\<not> use_sched ns" and "disk_ok (dmodel ns)"
  shows "sorted_wrt (\<lambda>(a, b) (c, d). b \<le> c) ivs \<and> (\<forall>(a, b) \<in> set ivs. a \<le> b) \<and> length ivs = length (filter (\<lambda>r. is_request (snd r)) rs)"
  using lsm_serve_bounds [OF assms] by auto

definition ex_empty_io :: "int \<Rightarrow> lsm_message" where
  "ex_empty_io ev = (ex_lsm_msg ev 1)\<lparr>io_data := (ex_io 1)\<lparr>io_size := 0\<rparr>\<rparr>"

definition ex_plain :: lsm_state where
  "ex_plain = \<lparr>next_idle = 0, dmodel = ex_disk, current_offset = 0, current_object = 0,
     lsm_stats_array = replicate 12 lsm_stats_zero, use_sched = False,
     sched = \<lparr>num_prios = 0, active_count = 0, freelist = rc_stack_create OPTIMISTIC, lsm_queues = []\<rparr>\<rparr>"

definition ex_disk_run :: "(tw_stime \<times> lsm_message) list" where
  "ex_disk_run = [(100, ex_empty_io LSM_READ_REQUEST), (200, ex_empty_io LSM_WRITE_REQUEST), (300, ex_empty_io LSM_READ_COMPLETION)]"

theorem lsm_disk_serialises_witness:
  "\<exists>ns' lp' ivs. lsm_serve 5 ex_disk_run ex_plain \<lparr>gid = 4, draws = 0\<rparr> = Inr (ns', lp', ivs) \<and>
     sorted_wrt (\<lambda>(a, b) (c, d). b \<le> c) ivs \<and> length ivs = 2"
proof -
  have "case lsm_serve 5 ex_disk_run ex_plain \<lparr>gid = 4, draws = 0\<rparr> of Inl e \<Rightarrow> False | Inr r \<Rightarrow> True"
    by code_simp
  then obtain ns' lp' ivs where e: "lsm_serve 5 ex_disk_run ex_plain \<lparr>gid = 4, draws = 0\<rparr> = Inr (ns', lp', ivs)"
    by (auto split: sum.splits)
  have n: "length (filter (\<lambda>r. is_request (snd r)) ex_disk_run) = 2" by code_simp
  have "disk_ok (dmodel ex_plain)" "\<not> use_sched ex_plain" by (simp_all add: ex_plain_def ex_disk_def disk_ok_def)
  from lsm_disk_serialises [OF e this(2,1)] e n show ?thesis by auto
qed

end
