(* ===== verification/Jobmap.thy ===== *)
theory Jobmap
  imports Configuration
begin

text \<open>
  Job maps: src/util/codes-jobmap.c and src/util/jobmap-impl. A job map relates the ranks of the
  jobs of a simulation to global ids. The three kinds (one job, one rank per job, explicit lists
  read from a file) share an interface, the table of functions \<open>codes_jobmap_impl\<close>; the locale
  \<open>jobmap\<close> states its contract.

  The allocation file is the string of its characters, or \<open>None\<close> if it cannot be opened; reading
  it does not fail half-way (\<open>ferror\<close>). \<open>sscanf\<close> with \<open>%d\<close> is modelled as a decimal conversion
  narrowed to \<open>int\<close>.
\<close>

record codes_jobmap_id =
  job :: int
  rank :: int

abbreviation jid :: "int \<Rightarrow> int \<Rightarrow> codes_jobmap_id" where
  "jid j r \<equiv> \<lparr>job = j, rank = r\<rparr>"

subsection \<open>One job, and one rank per job\<close>

definition jobmap_identity_to_local :: "int \<Rightarrow> int \<Rightarrow> codes_jobmap_id" where
  "jobmap_identity_to_local i num_ranks = (if i < 0 \<or> i \<ge> num_ranks then jid (-1) (-1) else jid 0 i)"

definition jobmap_identity_to_global :: "codes_jobmap_id \<Rightarrow> int \<Rightarrow> int" where
  "jobmap_identity_to_global d num_ranks =
     (if job d \<ge> 1 \<or> rank d \<ge> num_ranks \<or> job d < 0 \<or> rank d < 0 then -1 else rank d)"

definition jobmap_identity_get_num_ranks :: "int \<Rightarrow> int \<Rightarrow> int" where
  "jobmap_identity_get_num_ranks job_id num_ranks = (if job_id = 0 then num_ranks else -1)"

definition jobmap_dummy_to_local :: "int \<Rightarrow> int \<Rightarrow> codes_jobmap_id" where
  "jobmap_dummy_to_local i num_jobs = (if i < num_jobs then jid i 0 else jid (-1) (-1))"

definition jobmap_dummy_to_global :: "codes_jobmap_id \<Rightarrow> int \<Rightarrow> int" where
  "jobmap_dummy_to_global d num_jobs = (if job d < num_jobs then job d else -1)"

definition jobmap_dummy_get_num_ranks :: "int \<Rightarrow> int \<Rightarrow> int" where
  "jobmap_dummy_get_num_ranks job_id num_jobs = (if job_id < 0 \<or> job_id \<ge> num_jobs then -1 else 1)"

subsection \<open>Explicit lists\<close>

text \<open>\<open>rank_counts\<close> are the lengths of the lists of global ids, \<open>num_jobs\<close> is their number.\<close>

record jobmap_list =
  global_ids :: "int list list"
  highest_global_id :: int
  id_to_jobmap :: "codes_jobmap_id list"

text \<open>\<open>strtok\<close> with the delimiters blank, tab and carriage return.\<close>

definition is_delim :: "char \<Rightarrow> bool" where
  "is_delim c \<longleftrightarrow> (of_char c :: nat) \<in> {32, 9, 13}"

fun tokens :: "string \<Rightarrow> string \<Rightarrow> string list" where
  "tokens [] tok = (if tok = [] then [] else [tok])"
| "tokens (c # s) tok =
     (if is_delim c then (if tok = [] then tokens s [] else tok # tokens s [])
      else tokens s (tok @ [c]))"

definition scan_int :: "string \<Rightarrow> int option" where
  "scan_int tok =
     (case takeWhile is_digit (snd (split_sign (dropWhile is_space tok))) of
        [] \<Rightarrow> None | _ \<Rightarrow> Some (s32 (fst (strtol10 tok))))"

text \<open>One line: the ranks, or \<open>None\<close> at a token that is not a number. (The text of a line ends at
  a NUL character.)\<close>

fun scan_ranks :: "string list \<Rightarrow> int list option" where
  "scan_ranks [] = Some []"
| "scan_ranks (tok # toks) =
     (case scan_int tok of None \<Rightarrow> None
      | Some v \<Rightarrow> (case scan_ranks toks of None \<Rightarrow> None | Some vs \<Rightarrow> Some (v # vs)))"

definition parse_line :: "string \<Rightarrow> int list option" where
  "parse_line line = scan_ranks (tokens (takeWhile (\<lambda>c. c \<noteq> CHR 0x00) line) [])"

text \<open>The lines of a file: the last one is what follows the last newline, possibly nothing.\<close>

fun lines_of :: "string \<Rightarrow> string \<Rightarrow> string list" where
  "lines_of [] cur = [cur]"
| "lines_of (c # s) cur = (if (of_char c :: nat) = 10 then cur # lines_of s [] else lines_of s (cur @ [c]))"

text \<open>The loop over the lines: the jobs, and the return code of the last line. A line that is
  empty or malformed adds no job.\<close>

fun read_jobs :: "string list \<Rightarrow> int list list \<Rightarrow> int \<Rightarrow> int list list \<times> int" where
  "read_jobs [] jobs rc = (jobs, rc)"
| "read_jobs (l # ls) jobs rc =
     (case parse_line l of None \<Rightarrow> read_jobs ls jobs (-1)
      | Some rs \<Rightarrow> read_jobs ls (if rs = [] then jobs else jobs @ [rs]) 0)"

definition highest_id :: "int list list \<Rightarrow> int" where
  "highest_id jobs = fold (\<lambda>i h. if h < i then i else h) (concat jobs) (-1)"

text \<open>The table from global ids to ranks.\<close>

fun fill_ranks :: "int list \<Rightarrow> int \<Rightarrow> int \<Rightarrow> codes_jobmap_id list \<Rightarrow> codes_jobmap_id list result" where
  "fill_ranks [] i j tab = Inr tab"
| "fill_ranks (g # gs) i j tab =
     (if g < 0 then Inl OutOfBounds
      else bind_res (wr tab (nat g) (jid i j)) (fill_ranks gs i (j + 1)))"

fun fill_jobs :: "int list list \<Rightarrow> int \<Rightarrow> codes_jobmap_id list \<Rightarrow> codes_jobmap_id list result" where
  "fill_jobs [] i tab = Inr tab"
| "fill_jobs (gs # jobs) i tab = bind_res (fill_ranks gs i 0 tab) (fill_jobs jobs (i + 1))"

definition jobmap_list_configure :: "string option \<Rightarrow> (int \<times> jobmap_list option) result" where
  "jobmap_list_configure alloc_file =
     (case alloc_file of None \<Rightarrow> Inr (-1, None)
      | Some f \<Rightarrow>
          (let (jobs, rc) = read_jobs (lines_of f []) [] 0; h = highest_id jobs in
           bind_res (fill_jobs jobs 0 (replicate (nat (h + 1)) (jid (-1) (-1)))) (\<lambda>tab.
             if rc = 0
             then Inr (0, Some \<lparr>global_ids = jobs, highest_global_id = h, id_to_jobmap = tab\<rparr>)
             else Inr (-1, None))))"

definition jobmap_list_to_local :: "int \<Rightarrow> jobmap_list \<Rightarrow> codes_jobmap_id result" where
  "jobmap_list_to_local i lst =
     (if i < 0 \<or> highest_global_id lst < i then Inr (jid (-1) (-1)) else rd (id_to_jobmap lst) (nat i))"

definition jobmap_list_to_global :: "codes_jobmap_id \<Rightarrow> jobmap_list \<Rightarrow> int result" where
  "jobmap_list_to_global d lst =
     (if job d < int (length (global_ids lst))
      then if job d < 0 then Inl OutOfBounds
           else bind_res (rd (global_ids lst) (nat (job d))) (\<lambda>gs.
                  if rank d < 0 then Inl OutOfBounds else rd gs (nat (rank d)))
      else Inr (-1))"

definition jobmap_list_get_num_jobs :: "jobmap_list \<Rightarrow> int" where
  "jobmap_list_get_num_jobs lst = int (length (global_ids lst))"

definition jobmap_list_get_num_ranks :: "int \<Rightarrow> jobmap_list \<Rightarrow> int" where
  "jobmap_list_get_num_ranks job_id lst =
     (if job_id < 0 \<or> job_id \<ge> int (length (global_ids lst)) then -1
      else int (length (global_ids lst ! nat job_id)))"

subsection \<open>The interface\<close>

datatype codes_jobmap_params =
    CODES_JOBMAP_IDENTITY int
  | CODES_JOBMAP_LIST "string option"
  | CODES_JOBMAP_DUMMY int

datatype codes_jobmap_ctx = Identity int | Dummy int | JList jobmap_list

definition codes_jobmap_configure :: "codes_jobmap_params \<Rightarrow> codes_jobmap_ctx option result" where
  "codes_jobmap_configure p =
     (case p of
        CODES_JOBMAP_IDENTITY n \<Rightarrow> Inr (Some (Identity n))
      | CODES_JOBMAP_DUMMY n \<Rightarrow> Inr (Some (Dummy n))
      | CODES_JOBMAP_LIST f \<Rightarrow>
          bind_res (jobmap_list_configure f) (\<lambda>(rc, l).
            Inr (if rc \<noteq> 0 then None else map_option JList l)))"

definition codes_jobmap_to_local_id :: "int \<Rightarrow> codes_jobmap_ctx \<Rightarrow> codes_jobmap_id result" where
  "codes_jobmap_to_local_id i c =
     (case c of Identity n \<Rightarrow> Inr (jobmap_identity_to_local i n) | Dummy n \<Rightarrow> Inr (jobmap_dummy_to_local i n)
      | JList l \<Rightarrow> jobmap_list_to_local i l)"

definition codes_jobmap_to_global_id :: "codes_jobmap_id \<Rightarrow> codes_jobmap_ctx \<Rightarrow> int result" where
  "codes_jobmap_to_global_id d c =
     (case c of Identity n \<Rightarrow> Inr (jobmap_identity_to_global d n) | Dummy n \<Rightarrow> Inr (jobmap_dummy_to_global d n)
      | JList l \<Rightarrow> jobmap_list_to_global d l)"

definition codes_jobmap_get_num_jobs :: "codes_jobmap_ctx \<Rightarrow> int" where
  "codes_jobmap_get_num_jobs c =
     (case c of Identity n \<Rightarrow> 1 | Dummy n \<Rightarrow> n | JList l \<Rightarrow> jobmap_list_get_num_jobs l)"

definition codes_jobmap_get_num_ranks :: "int \<Rightarrow> codes_jobmap_ctx \<Rightarrow> int" where
  "codes_jobmap_get_num_ranks j c =
     (case c of Identity n \<Rightarrow> jobmap_identity_get_num_ranks j n | Dummy n \<Rightarrow> jobmap_dummy_get_num_ranks j n
      | JList l \<Rightarrow> jobmap_list_get_num_ranks j l)"

subsection \<open>The contract of a job map\<close>

text \<open>The contexts satisfy \<open>ok\<close>; -1 as job and as rank stand for an id that no job uses.\<close>

locale jobmap =
  fixes ok :: "'c \<Rightarrow> bool"
    and to_local :: "int \<Rightarrow> 'c \<Rightarrow> codes_jobmap_id result"
    and to_global :: "codes_jobmap_id \<Rightarrow> 'c \<Rightarrow> int result"
    and num_jobs :: "'c \<Rightarrow> int"
    and num_ranks :: "int \<Rightarrow> 'c \<Rightarrow> int"
  assumes to_global_ok: "ok c \<Longrightarrow> 0 \<le> j \<Longrightarrow> j < num_jobs c \<Longrightarrow> 0 \<le> r \<Longrightarrow> r < num_ranks j c \<Longrightarrow>
      \<exists>g. 0 \<le> g \<and> to_global (jid j r) c = Inr g \<and> to_local g c = Inr (jid j r)"
    and to_local_ok: "ok c \<Longrightarrow> 0 \<le> g \<Longrightarrow> to_local g c = Inr (jid (-1) (-1)) \<or>
      (\<exists>j r. to_local g c = Inr (jid j r) \<and> 0 \<le> j \<and> j < num_jobs c \<and> 0 \<le> r \<and> r < num_ranks j c \<and>
        to_global (jid j r) c = Inr g)"
begin

definition ranks_of :: "'c \<Rightarrow> (int \<times> int) set" where
  "ranks_of c = (SIGMA j : {0..<num_jobs c}. {0..<num_ranks j c})"

definition used_ids :: "'c \<Rightarrow> int set" where
  "used_ids c = {g. 0 \<le> g \<and> to_local g c \<noteq> Inr (jid (-1) (-1))}"

definition global_of :: "'c \<Rightarrow> int \<times> int \<Rightarrow> int" where
  "global_of c d = projr (to_global (jid (fst d) (snd d)) c)"

lemma global_bij:
  assumes "ok c"
  shows "bij_betw (global_of c) (ranks_of c) (used_ids c)"
proof (rule bij_betwI')
  fix d e assume "d \<in> ranks_of c" "e \<in> ranks_of c"
  then show "(global_of c d = global_of c e) = (d = e)"
    using to_global_ok [OF assms, of "fst d" "snd d"] to_global_ok [OF assms, of "fst e" "snd e"]
    by (force simp: ranks_of_def global_of_def)
next
  fix d assume "d \<in> ranks_of c"
  then show "global_of c d \<in> used_ids c"
    using to_global_ok [OF assms, of "fst d" "snd d"] by (force simp: ranks_of_def global_of_def used_ids_def)
next
  fix g assume "g \<in> used_ids c"
  then obtain j r where "0 \<le> j" "j < num_jobs c" "0 \<le> r" "r < num_ranks j c" "to_global (jid j r) c = Inr g"
    using to_local_ok [OF assms, of g] by (auto simp: used_ids_def)
  then show "\<exists>d \<in> ranks_of c. g = global_of c d"
    by (intro bexI [of _ "(j, r)"]) (auto simp: ranks_of_def global_of_def)
qed

text \<open>As many ids are in use as the jobs have ranks.\<close>

lemma card_used_ids:
  assumes "ok c" and "\<And>j. 0 \<le> j \<Longrightarrow> j < num_jobs c \<Longrightarrow> 0 \<le> num_ranks j c"
  shows "int (card (used_ids c)) = (\<Sum>j \<in> {0..<num_jobs c}. num_ranks j c)"
proof -
  have "card (used_ids c) = card (ranks_of c)" using bij_betw_same_card [OF global_bij [OF assms(1)]] by simp
  also have "\<dots> = (\<Sum>j \<in> {0..<num_jobs c}. nat (num_ranks j c))"
    unfolding ranks_of_def by (simp add: card_SigmaI)
  finally show ?thesis using assms(2) by simp
qed

end

subsection \<open>The table of a list\<close>

definition alloc_ok :: "int list list \<Rightarrow> bool" where
  "alloc_ok jobs \<longleftrightarrow> distinct (concat jobs) \<and> list_all (\<lambda>g. 0 \<le> g) (concat jobs)"

lemma highest_id_ge:
  assumes "g \<in> set (concat jobs)"
  shows "g \<le> highest_id jobs"
proof -
  have "h \<le> fold (\<lambda>i h. if h < i then i else h) gs h \<and>
    (\<forall>g \<in> set gs. g \<le> fold (\<lambda>i h. if h < i then i else h) gs h)" for gs and h :: int
  proof (induction gs arbitrary: h)
    case (Cons a gs)
    show ?case using Cons [of h] Cons [of a] by auto
  qed simp
  then show ?thesis using assms unfolding highest_id_def by blast
qed

definition id_at :: "codes_jobmap_id list \<Rightarrow> int \<Rightarrow> codes_jobmap_id" where
  "id_at tab g = tab ! nat g"

lemma fill_ranks_ok:
  assumes "distinct gs" and "\<forall>g \<in> set gs. 0 \<le> g \<and> g < int (length tab)"
  shows "\<exists>tab'. fill_ranks gs i j tab = Inr tab' \<and> length tab' = length tab \<and>
    (\<forall>k < length gs. id_at tab' (gs ! k) = jid i (j + int k)) \<and>
    (\<forall>g. 0 \<le> g \<and> g \<notin> set gs \<longrightarrow> id_at tab' g = id_at tab g)"
  using assms
proof (induction gs arbitrary: j tab)
  case (Cons g gs)
  let ?tab = "tab[nat g := jid i j]"
  have g: "0 \<le> g" "nat g < length tab" using Cons.prems(2) by auto
  obtain tab' where t: "fill_ranks gs i (j + 1) ?tab = Inr tab'" "length tab' = length tab"
    "\<forall>k < length gs. id_at tab' (gs ! k) = jid i (j + 1 + int k)"
    "\<forall>h. 0 \<le> h \<and> h \<notin> set gs \<longrightarrow> id_at tab' h = id_at ?tab h"
    using Cons.IH [of ?tab "j + 1"] Cons.prems by auto
  have "id_at tab' ((g # gs) ! k) = jid i (j + int k)" if "k < length (g # gs)" for k
  proof (cases k)
    case 0
    then show ?thesis using t(4) g Cons.prems(1) by (auto simp: id_at_def)
  next
    case (Suc l)
    then show ?thesis using t(3) that by (auto simp: add.assoc)
  qed
  moreover have "id_at tab' h = id_at tab h" if "0 \<le> h" "h \<notin> set (g # gs)" for h
    using t(4) that g(1) by (auto simp: id_at_def nth_list_update eq_nat_nat_iff)
  ultimately show ?case using t(1,2) g by (auto simp: wr_def)
qed simp

lemma fill_jobs_ok:
  assumes "distinct (concat jobs)" and "\<forall>g \<in> set (concat jobs). 0 \<le> g \<and> g < int (length tab)"
  shows "\<exists>tab'. fill_jobs jobs i tab = Inr tab' \<and> length tab' = length tab \<and>
    (\<forall>a < length jobs. \<forall>k < length (jobs ! a). id_at tab' (jobs ! a ! k) = jid (i + int a) (int k)) \<and>
    (\<forall>g. 0 \<le> g \<and> g \<notin> set (concat jobs) \<longrightarrow> id_at tab' g = id_at tab g)"
  using assms
proof (induction jobs arbitrary: i tab)
  case (Cons gs jobs)
  obtain tab1 where t1: "fill_ranks gs i 0 tab = Inr tab1" "length tab1 = length tab"
    "\<forall>k < length gs. id_at tab1 (gs ! k) = jid i (int k)"
    "\<forall>g. 0 \<le> g \<and> g \<notin> set gs \<longrightarrow> id_at tab1 g = id_at tab g"
    using fill_ranks_ok [of gs tab i 0] Cons.prems by auto
  obtain tab' where t: "fill_jobs jobs (i + 1) tab1 = Inr tab'" "length tab' = length tab"
    "\<forall>a < length jobs. \<forall>k < length (jobs ! a). id_at tab' (jobs ! a ! k) = jid (i + 1 + int a) (int k)"
    "\<forall>g. 0 \<le> g \<and> g \<notin> set (concat jobs) \<longrightarrow> id_at tab' g = id_at tab1 g"
    using Cons.IH [of tab1 "i + 1"] Cons.prems t1(2) by auto
  have "id_at tab' ((gs # jobs) ! a ! k) = jid (i + int a) (int k)"
    if "a < length (gs # jobs)" "k < length ((gs # jobs) ! a)" for a k
  proof (cases a)
    case 0
    then have k: "k < length gs" using that by simp
    then have "gs ! k \<in> set gs" by simp
    then have "0 \<le> gs ! k" "gs ! k \<notin> set (concat jobs)" using Cons.prems by auto
    then show ?thesis using t(4) t1(3) k 0 by simp
  next
    case (Suc b)
    then show ?thesis using t(3) that by (auto simp: add.assoc)
  qed
  then show ?case using t(1,2,4) t1(1,4) by auto
qed simp

definition list_ok :: "jobmap_list \<Rightarrow> bool" where
  "list_ok l \<longleftrightarrow> alloc_ok (global_ids l) \<and> highest_global_id l = highest_id (global_ids l) \<and>
     fill_jobs (global_ids l) 0 (replicate (nat (highest_global_id l + 1)) (jid (-1) (-1))) = Inr (id_to_jobmap l)"

lemma list_table:
  assumes "list_ok l"
  shows "length (id_to_jobmap l) = nat (highest_global_id l + 1)"
    and "\<lbrakk>j < length (global_ids l); r < length (global_ids l ! j)\<rbrakk> \<Longrightarrow>
      id_at (id_to_jobmap l) (global_ids l ! j ! r) = jid (int j) (int r)"
    and "\<lbrakk>0 \<le> g; g \<le> highest_global_id l; g \<notin> set (concat (global_ids l))\<rbrakk> \<Longrightarrow>
      id_at (id_to_jobmap l) g = jid (-1) (-1)"
    and "g \<in> set (concat (global_ids l)) \<Longrightarrow> 0 \<le> g \<and> g \<le> highest_global_id l"
proof -
  let ?tab = "replicate (nat (highest_global_id l + 1)) (jid (-1) (-1))"
  show b: "0 \<le> g \<and> g \<le> highest_global_id l" if "g \<in> set (concat (global_ids l))" for g
    using that highest_id_ge [OF that] assms by (auto simp: list_ok_def alloc_ok_def list_all_iff)
  have "\<forall>g \<in> set (concat (global_ids l)). 0 \<le> g \<and> g < int (length ?tab)" using b by fastforce
  from fill_jobs_ok [OF _ this, of 0] assms
  have f: "length (id_to_jobmap l) = length ?tab \<and>
    (\<forall>a < length (global_ids l). \<forall>k < length (global_ids l ! a).
      id_at (id_to_jobmap l) (global_ids l ! a ! k) = jid (int a) (int k)) \<and>
    (\<forall>g. 0 \<le> g \<and> g \<notin> set (concat (global_ids l)) \<longrightarrow> id_at (id_to_jobmap l) g = id_at ?tab g)"
    by (auto simp: list_ok_def alloc_ok_def)
  then show "length (id_to_jobmap l) = nat (highest_global_id l + 1)" by simp
  show "id_at (id_to_jobmap l) (global_ids l ! j ! r) = jid (int j) (int r)"
    if "j < length (global_ids l)" "r < length (global_ids l ! j)" using f that by blast
  show "id_at (id_to_jobmap l) g = jid (-1) (-1)"
    if "0 \<le> g" "g \<le> highest_global_id l" "g \<notin> set (concat (global_ids l))"
  proof -
    have "id_at (id_to_jobmap l) g = id_at ?tab g" using f that by blast
    then show ?thesis using that by (simp add: id_at_def)
  qed
qed

lemma list_member:
  "g \<in> set (concat jobs) \<longleftrightarrow> (\<exists>j < length jobs. \<exists>r < length (jobs ! j). jobs ! j ! r = g)"
  unfolding set_concat by (auto simp: in_set_conv_nth) (metis nth_mem)+

lemma list_to_local:
  assumes "list_ok l" and "0 \<le> g" and "g \<le> highest_global_id l"
  shows "jobmap_list_to_local g l = Inr (id_at (id_to_jobmap l) g)"
  using assms list_table(1) [OF assms(1)] by (simp add: jobmap_list_to_local_def id_at_def)

lemma list_to_global:
  assumes "j < length (global_ids l)" and "r < length (global_ids l ! j)"
  shows "jobmap_list_to_global (jid (int j) (int r)) l = Inr (global_ids l ! j ! r)"
  using assms by (simp add: jobmap_list_to_global_def)

definition ctx_ok :: "codes_jobmap_ctx \<Rightarrow> bool" where
  "ctx_ok c \<longleftrightarrow> (case c of Identity n \<Rightarrow> 0 \<le> n | Dummy n \<Rightarrow> True | JList l \<Rightarrow> list_ok l)"

lemmas jobmap_defs = codes_jobmap_to_local_id_def codes_jobmap_to_global_id_def codes_jobmap_get_num_jobs_def
  codes_jobmap_get_num_ranks_def jobmap_identity_to_local_def jobmap_identity_to_global_def
  jobmap_identity_get_num_ranks_def jobmap_dummy_to_local_def jobmap_dummy_to_global_def
  jobmap_dummy_get_num_ranks_def jobmap_list_get_num_jobs_def jobmap_list_get_num_ranks_def ctx_ok_def

interpretation jm: jobmap ctx_ok codes_jobmap_to_local_id codes_jobmap_to_global_id
  codes_jobmap_get_num_jobs codes_jobmap_get_num_ranks
proof
  fix c :: codes_jobmap_ctx and j r :: int
  assume a: "ctx_ok c" "0 \<le> j" "j < codes_jobmap_get_num_jobs c" "0 \<le> r" "r < codes_jobmap_get_num_ranks j c"
  show "\<exists>g. 0 \<le> g \<and> codes_jobmap_to_global_id (jid j r) c = Inr g \<and> codes_jobmap_to_local_id g c = Inr (jid j r)"
  proof (cases c)
    case (JList l)
    then have l: "list_ok l" "nat j < length (global_ids l)" "nat r < length (global_ids l ! nat j)"
      using a by (auto simp: jobmap_defs split: if_splits)
    let ?g = "global_ids l ! nat j ! nat r"
    have m: "?g \<in> set (concat (global_ids l))" unfolding list_member using l(2,3) by blast
    note b = list_table(4) [OF l(1) m]
    have "jobmap_list_to_global (jid j r) l = Inr ?g" using list_to_global [OF l(2,3)] a(2,4) by simp
    moreover have "jobmap_list_to_local ?g l = Inr (jid j r)"
      using list_to_local [OF l(1), of ?g] list_table(2) [OF l] b a(2,4) by simp
    ultimately show ?thesis using b JList by (auto simp: jobmap_defs)
  qed (use a in \<open>auto simp: jobmap_defs split: if_splits\<close>)
next
  fix c :: codes_jobmap_ctx and g :: int
  assume a: "ctx_ok c" "0 \<le> g"
  show "codes_jobmap_to_local_id g c = Inr (jid (-1) (-1)) \<or>
    (\<exists>j r. codes_jobmap_to_local_id g c = Inr (jid j r) \<and> 0 \<le> j \<and> j < codes_jobmap_get_num_jobs c \<and> 0 \<le> r \<and>
      r < codes_jobmap_get_num_ranks j c \<and> codes_jobmap_to_global_id (jid j r) c = Inr g)"
  proof (cases c)
    case (JList l)
    then have l: "list_ok l" using a by (simp add: ctx_ok_def)
    show ?thesis
    proof (cases "g \<in> set (concat (global_ids l))")
      case True
      then obtain j r where jr: "j < length (global_ids l)" "r < length (global_ids l ! j)" "global_ids l ! j ! r = g"
        unfolding list_member by blast
      then have "jobmap_list_to_local g l = Inr (jid (int j) (int r))"
        using list_to_local [OF l] list_table(4) [OF l True] list_table(2) [OF l jr(1,2)] by simp
      then show ?thesis using list_to_global [OF jr(1,2)] jr JList
        by (intro disjI2 exI [of _ "int j"] exI [of _ "int r"]) (simp add: jobmap_defs)
    next
      case False
      then show ?thesis using list_to_local [OF l a(2)] list_table(3) [OF l a(2)] JList
        by (cases "g \<le> highest_global_id l") (simp_all add: jobmap_defs jobmap_list_to_local_def)
    qed
  qed (use a in \<open>auto simp: jobmap_defs\<close>)
qed

subsection \<open>Properties\<close>

lemma list_configure_ok:
  assumes "read_jobs (lines_of f []) [] 0 = (jobs, 0)" and "alloc_ok jobs"
  shows "\<exists>l. jobmap_list_configure (Some f) = Inr (0, Some l) \<and> list_ok l \<and> global_ids l = jobs"
proof -
  let ?tab = "replicate (nat (highest_id jobs + 1)) (jid (-1) (-1))"
  have "\<forall>g \<in> set (concat jobs). 0 \<le> g \<and> g < int (length ?tab)"
    using highest_id_ge [of _ jobs] assms(2) by (fastforce simp: alloc_ok_def list_all_iff)
  with fill_jobs_ok [of jobs ?tab 0] assms obtain tab where "fill_jobs jobs 0 ?tab = Inr tab"
    by (auto simp: alloc_ok_def)
  then show ?thesis using assms by (auto simp: jobmap_list_configure_def list_ok_def Let_def)
qed

text \<open>C31: The list job map: for an allocation file whose lines hold distinct non-negative ids,
  configuration succeeds with one job per non-empty line; \<open>codes_jobmap_to_global_id\<close> gives the
  id written in the file for every rank of every job and \<open>codes_jobmap_to_local_id\<close> leads back;
  and every other non-negative id belongs to no job.\<close>

theorem jobmap_list_roundtrip:
  assumes "read_jobs (lines_of f []) [] 0 = (jobs, 0)" and "alloc_ok jobs"
  shows "\<exists>c. codes_jobmap_configure (CODES_JOBMAP_LIST (Some f)) = Inr (Some c) \<and>
    codes_jobmap_get_num_jobs c = int (length jobs) \<and>
    (\<forall>j < length jobs. codes_jobmap_get_num_ranks (int j) c = int (length (jobs ! j)) \<and>
      (\<forall>r < length (jobs ! j). codes_jobmap_to_global_id (jid (int j) (int r)) c = Inr (jobs ! j ! r) \<and>
        codes_jobmap_to_local_id (jobs ! j ! r) c = Inr (jid (int j) (int r)))) \<and>
    (\<forall>g. 0 \<le> g \<and> g \<notin> set (concat jobs) \<longrightarrow> codes_jobmap_to_local_id g c = Inr (jid (-1) (-1)))"
proof -
  obtain l where l: "jobmap_list_configure (Some f) = Inr (0, Some l)" "list_ok l" "global_ids l = jobs"
    using list_configure_ok [OF assms] by blast
  have ok: "ctx_ok (JList l)" using l(2) by (simp add: ctx_ok_def)
  have n: "codes_jobmap_get_num_jobs (JList l) = int (length jobs)"
    "\<And>j. j < length jobs \<Longrightarrow> codes_jobmap_get_num_ranks (int j) (JList l) = int (length (jobs ! j))"
    using l(3) by (simp_all add: jobmap_defs)
  have g: "codes_jobmap_to_global_id (jid (int j) (int r)) (JList l) = Inr (jobs ! j ! r) \<and>
      codes_jobmap_to_local_id (jobs ! j ! r) (JList l) = Inr (jid (int j) (int r))"
    if "j < length jobs" "r < length (jobs ! j)" for j r
    using jm.to_global_ok [OF ok, of "int j" "int r"] list_to_global [of j l r] that n l(3)
    by (auto simp: codes_jobmap_to_global_id_def)
  have u: "codes_jobmap_to_local_id g (JList l) = Inr (jid (-1) (-1))" if "0 \<le> g" "g \<notin> set (concat jobs)" for g
    using jm.to_local_ok [OF ok that(1)]
  proof (elim disjE exE conjE)
    fix j r assume jr: "0 \<le> j" "j < codes_jobmap_get_num_jobs (JList l)" "0 \<le> r"
      "r < codes_jobmap_get_num_ranks j (JList l)" "codes_jobmap_to_global_id (jid j r) (JList l) = Inr g"
    then have "nat j < length jobs" "nat r < length (jobs ! nat j)" using n(1) n(2) [of "nat j"] by auto
    with g [OF this] jr have "g \<in> set (concat jobs)" unfolding list_member by auto
    with that(2) show ?thesis by blast
  qed
  have "codes_jobmap_configure (CODES_JOBMAP_LIST (Some f)) = Inr (Some (JList l))"
    using l(1) by (simp add: codes_jobmap_configure_def)
  with n g u show ?thesis by (intro exI [of _ "JList l"]) blast
qed

theorem jobmap_list_roundtrip_witness:
  "\<exists>c. codes_jobmap_configure (CODES_JOBMAP_LIST (Some (''4 0'' @ [CHR 0x0A] @ ''7 2 1'' @ [CHR 0x0A]))) = Inr (Some c) \<and>
    codes_jobmap_get_num_jobs c = 2 \<and> codes_jobmap_to_global_id (jid 1 2) c = Inr 1 \<and>
    codes_jobmap_to_local_id 7 c = Inr (jid 1 0) \<and> codes_jobmap_to_local_id 3 c = Inr (jid (-1) (-1))"
proof -
  let ?f = "''4 0'' @ [CHR 0x0A] @ ''7 2 1'' @ [CHR 0x0A]" and ?jobs = "[[4, 0], [7, 2, 1]] :: int list list"
  have r: "read_jobs (lines_of ?f []) [] 0 = (?jobs, 0)" and a: "alloc_ok ?jobs" by code_simp+
  from jobmap_list_roundtrip [OF r a] obtain c where
    c: "codes_jobmap_configure (CODES_JOBMAP_LIST (Some ?f)) = Inr (Some c)"
      "codes_jobmap_get_num_jobs c = int (length ?jobs)"
      "\<forall>j < length ?jobs. \<forall>r < length (?jobs ! j). codes_jobmap_to_global_id (jid (int j) (int r)) c = Inr (?jobs ! j ! r) \<and>
        codes_jobmap_to_local_id (?jobs ! j ! r) c = Inr (jid (int j) (int r))"
      "\<forall>g. 0 \<le> g \<and> g \<notin> set (concat ?jobs) \<longrightarrow> codes_jobmap_to_local_id g c = Inr (jid (-1) (-1))" by blast
  show ?thesis
    using c(1,2) c(3) [rule_format, of 1 2] c(3) [rule_format, of 1 0] c(4) [rule_format, of 3]
    by (intro exI [of _ c]) simp
qed

text \<open>The kinds of job map agree on what is in use: in every valid context \<open>to_global\<close> maps the
  ranks of the jobs one to one onto the ids in use, so that as many ids are in use as the jobs
  have ranks together.\<close>

theorem jobmap_ids_counted:
  assumes "ctx_ok c"
  shows "int (card {g. 0 \<le> g \<and> codes_jobmap_to_local_id g c \<noteq> Inr (jid (-1) (-1))}) =
    (\<Sum>j \<in> {0..<codes_jobmap_get_num_jobs c}. codes_jobmap_get_num_ranks j c)"
proof -
  have "0 \<le> codes_jobmap_get_num_ranks j c" if "0 \<le> j" "j < codes_jobmap_get_num_jobs c" for j
    using that assms by (cases c) (auto simp: jobmap_defs)
  from jm.card_used_ids [OF assms this] show ?thesis by (simp add: jm.used_ids_def)
qed

theorem jobmap_ids_counted_witness:
  "int (card {g. 0 \<le> g \<and> codes_jobmap_to_local_id g (Identity 5) \<noteq> Inr (jid (-1) (-1))}) = 5"
proof -
  have "ctx_ok (Identity 5)" by (simp add: jobmap_defs)
  from jobmap_ids_counted [OF this] show ?thesis by (simp add: jobmap_defs)
qed

text \<open>A malformed line is dropped without an error, unless it is the last one: a file that ends with
  a newline is always accepted.\<close>

lemma malformed_line_ignored:
  "read_jobs (lines_of (''0 1'' @ [CHR 0x0A] @ ''x'' @ [CHR 0x0A]) []) [] 0 = ([[0, 1]], 0)"
  "read_jobs (lines_of (''0 1'' @ [CHR 0x0A] @ ''x'') []) [] 0 = ([[0, 1]], -1)"
  by code_simp+

end
