(* ===== verification/Workload.thy ===== *)
theory Workload
  imports Configuration
begin

text \<open>
  Workloads: src/workload/codes-workload.c. The layer between the models, which ask for the next
  operation of a rank and may take it back, and the generators, which only go forward: operations
  that were taken back are queued per rank and issued again. The generators are arguments (the
  table \<open>codes_workload_method\<close>, with \<open>None\<close> for a NULL function); they share the state \<open>'st\<close> of
  the program's static variables. Theory \<open>Workload_Methods\<close> has three of them.

  An operation is one of the constructors below, with the fields of its part of the union. The
  time stamps, which only network traces use, are left out.
\<close>

subsection \<open>Operations\<close>

record wk_msg =
  source_rank :: int
  dest_rank :: int
  num_bytes :: int
  data_type :: int
  msg_count :: int
  msg_tag :: int
  msg_req_id :: "32 word"

datatype wk_msg_kind = WK_SEND | WK_RECV | WK_ISEND | WK_IRECV
datatype wk_coll_kind = WK_BCAST | WK_ALLGATHER | WK_ALLGATHERV | WK_ALLTOALL | WK_ALLTOALLV | WK_REDUCE
  | WK_ALLREDUCE | WK_COL
datatype wk_wait_kind = WK_WAITALL | WK_WAITSOME | WK_WAITANY | WK_TESTALL
datatype wk_file_kind = WK_POSIX | WK_MPI | WK_MPI_COLL

datatype codes_workload_op =
    CODES_WK_END
  | CODES_WK_DELAY (delay_seconds: real)
  | CODES_WK_BARRIER (barrier_count: int) (barrier_root: int)
  | CODES_WK_OPEN wk_file_kind (open_file_id: "64 word") (create_flag: int)
  | CODES_WK_CLOSE wk_file_kind (close_file_id: "64 word")
  | CODES_WK_WRITE wk_file_kind (write_file_id: "64 word") (write_offset: "64 word") (write_size: "64 word")
  | CODES_WK_READ wk_file_kind (read_file_id: "64 word") (read_offset: "64 word") (read_size: "64 word")
  | CODES_WK_MSG wk_msg_kind wk_msg
  | CODES_WK_COLLECTIVE wk_coll_kind int
  | CODES_WK_WAITS wk_wait_kind "32 word list"
  | CODES_WK_WAIT "32 word"
  | CODES_WK_REQ_FREE "32 word"
  | CODES_WK_IGNORE
  | CODES_WK_MARK

subsection \<open>Generators and queues\<close>

record ('st, 'p) codes_workload_method =
  method_name :: string
  wm_read_config :: "(config_handle \<Rightarrow> string \<Rightarrow> string option \<Rightarrow> int \<Rightarrow> 'p result) option"
  wm_load :: "'p option \<Rightarrow> int \<Rightarrow> int \<Rightarrow> 'st \<Rightarrow> (int \<times> 'st) result"
  wm_get_next :: "int \<Rightarrow> int \<Rightarrow> 'st \<Rightarrow> (codes_workload_op \<times> 'st) result"
  wm_get_next_rc2 :: "(int \<Rightarrow> int \<Rightarrow> 'st \<Rightarrow> 'st result) option"
  wm_get_rank_cnt :: "('p option \<Rightarrow> int \<Rightarrow> int) option"
  wm_finalize :: "('p option \<Rightarrow> int \<Rightarrow> int \<Rightarrow> 'st \<Rightarrow> (int \<times> 'st) result) option"
  wm_get_final_iteration :: "(int \<Rightarrow> int \<Rightarrow> int) option"

record rank_queue =
  rq_app :: int
  rq_rank :: int
  rq_lifo :: "codes_workload_op list"

record ('st, 'p) workloads =
  is_workloads_init :: bool
  user_methods :: "('st, 'p) codes_workload_method list"
  method_array :: "('st, 'p) codes_workload_method list"
  ranks :: "rank_queue list"
  gen_state :: 'st

text \<open>Methods that the user adds come before the default ones.\<close>

definition init_workload_methods ::
    "('st, 'p) codes_workload_method list \<Rightarrow> ('st, 'p) workloads \<Rightarrow> ('st, 'p) workloads" where
  "init_workload_methods method_array_default w =
     (if is_workloads_init w then w
      else w\<lparr>method_array := user_methods w @ method_array_default, is_workloads_init := True\<rparr>)"

definition codes_workload_add_method ::
    "('st, 'p) codes_workload_method \<Rightarrow> ('st, 'p) workloads \<Rightarrow> ('st, 'p) workloads result" where
  "codes_workload_add_method m w =
     (if is_workloads_init w then Inl TwError else Inr (w\<lparr>user_methods := user_methods w @ [m]\<rparr>))"

text \<open>The loop over the methods does not stop at the first match: the last method with the name
  wins. The result is the name of the type and the parameters.\<close>

fun read_config_loop ::
    "('st, 'p) codes_workload_method list \<Rightarrow> string \<Rightarrow> config_handle \<Rightarrow> string \<Rightarrow> string option \<Rightarrow> int \<Rightarrow>
     string option \<times> 'p option \<Rightarrow> (string option \<times> 'p option) result" where
  "read_config_loop [] ty h sec anno n r = Inr r"
| "read_config_loop (m # ms) ty h sec anno n r =
     (if method_name m = ty
      then case wm_read_config m of
             None \<Rightarrow> read_config_loop ms ty h sec anno n (Some (method_name m), None)
           | Some f \<Rightarrow> bind_res (f h sec anno n) (\<lambda>p.
               read_config_loop ms ty h sec anno n (Some (method_name m), Some p))
      else read_config_loop ms ty h sec anno n r)"

definition MAX_NAME_LENGTH_WKLD :: nat where "MAX_NAME_LENGTH_WKLD = 512"

definition codes_workload_read_config ::
    "('st, 'p) codes_workload_method list \<Rightarrow> config_handle \<Rightarrow> string \<Rightarrow> string option \<Rightarrow> int \<Rightarrow>
     ('st, 'p) workloads \<Rightarrow> ((string option \<times> 'p option) \<times> ('st, 'p) workloads) result" where
  "codes_workload_read_config dflt h sec anno num_ranks w =
     (let w' = init_workload_methods dflt w in
      bind_res (configuration_get_value h sec ''workload_type'' anno MAX_NAME_LENGTH_WKLD) (\<lambda>(rc, buf).
        if rc \<le> 0 then Inr ((None, None), w')
        else case buf of None \<Rightarrow> Inl Uninitialised
             | Some ty \<Rightarrow>
                 bind_res (read_config_loop (method_array w') ty h sec anno num_ranks (None, None)) (\<lambda>r.
                   Inr (r, w'))))"

fun find_method :: "('st, 'p) codes_workload_method list \<Rightarrow> string \<Rightarrow> nat \<Rightarrow> (nat \<times> ('st, 'p) codes_workload_method) option" where
  "find_method [] ty i = None"
| "find_method (m # ms) ty i = (if method_name m = ty then Some (i, m) else find_method ms ty (Suc i))"

text \<open>The queue of a rank, and its replacement.\<close>

fun get_queue :: "rank_queue list \<Rightarrow> int \<Rightarrow> int \<Rightarrow> codes_workload_op list option" where
  "get_queue [] app rnk = None"
| "get_queue (q # qs) app rnk =
     (if rq_rank q = rnk \<and> rq_app q = app then Some (rq_lifo q) else get_queue qs app rnk)"

fun set_queue :: "rank_queue list \<Rightarrow> int \<Rightarrow> int \<Rightarrow> codes_workload_op list \<Rightarrow> rank_queue list" where
  "set_queue [] app rnk l = []"
| "set_queue (q # qs) app rnk l =
     (if rq_rank q = rnk \<and> rq_app q = app then q\<lparr>rq_lifo := l\<rparr> # qs else q # set_queue qs app rnk l)"

definition track_rank :: "rank_queue list \<Rightarrow> int \<Rightarrow> int \<Rightarrow> rank_queue list" where
  "track_rank qs app rnk =
     (if get_queue qs app rnk = None then \<lparr>rq_app = app, rq_rank = rnk, rq_lifo = []\<rparr> # qs else qs)"

definition codes_workload_load ::
    "('st, 'p) codes_workload_method list \<Rightarrow> string \<Rightarrow> 'p option \<Rightarrow> int \<Rightarrow> int \<Rightarrow> ('st, 'p) workloads \<Rightarrow>
     (int \<times> ('st, 'p) workloads) result" where
  "codes_workload_load dflt ty params app_id rnk w =
     (let w' = init_workload_methods dflt w in
      case find_method (method_array w') ty 0 of
        None \<Rightarrow> Inr (-1, w')
      | Some (i, m) \<Rightarrow>
          bind_res (wm_load m params app_id rnk (gen_state w')) (\<lambda>(ret, st).
            if ret < 0 then Inr (-1, w'\<lparr>gen_state := st\<rparr>)
            else Inr (int i, w'\<lparr>gen_state := st, ranks := track_rank (ranks w') app_id rnk\<rparr>)))"

text \<open>The array of methods ends with a NULL pointer.\<close>

definition method_at :: "('st, 'p) workloads \<Rightarrow> int \<Rightarrow> ('st, 'p) codes_workload_method result" where
  "method_at w i =
     (if 0 \<le> i \<and> i = int (length (method_array w)) then Inl NullDeref
      else if i < 0 then Inl OutOfBounds else rd (method_array w) (nat i))"

definition codes_workload_get_next ::
    "int \<Rightarrow> int \<Rightarrow> int \<Rightarrow> ('st, 'p) workloads \<Rightarrow> (codes_workload_op \<times> ('st, 'p) workloads) result" where
  "codes_workload_get_next wkld_id app_id rnk w =
     (case get_queue (ranks w) app_id rnk of
        None \<Rightarrow> Inl AssertFailed
      | Some (x # l) \<Rightarrow> Inr (x, w\<lparr>ranks := set_queue (ranks w) app_id rnk l\<rparr>)
      | Some [] \<Rightarrow>
          bind_res (method_at w wkld_id) (\<lambda>m.
          bind_res (wm_get_next m app_id rnk (gen_state w)) (\<lambda>(x, st).
            Inr (x, w\<lparr>gen_state := st\<rparr>))))"

definition codes_workload_get_next_rc ::
    "int \<Rightarrow> int \<Rightarrow> int \<Rightarrow> codes_workload_op \<Rightarrow> ('st, 'p) workloads \<Rightarrow> ('st, 'p) workloads result" where
  "codes_workload_get_next_rc wkld_id app_id rnk x w =
     (case get_queue (ranks w) app_id rnk of
        None \<Rightarrow> Inl AssertFailed
      | Some l \<Rightarrow> Inr (w\<lparr>ranks := set_queue (ranks w) app_id rnk (x # l)\<rparr>))"

definition codes_workload_get_next_rc2 ::
    "int \<Rightarrow> int \<Rightarrow> int \<Rightarrow> ('st, 'p) workloads \<Rightarrow> ('st, 'p) workloads result" where
  "codes_workload_get_next_rc2 wkld_id app_id rnk w =
     bind_res (method_at w wkld_id) (\<lambda>m.
     case wm_get_next_rc2 m of None \<Rightarrow> Inl AssertFailed
     | Some f \<Rightarrow> bind_res (f app_id rnk (gen_state w)) (\<lambda>st. Inr (w\<lparr>gen_state := st\<rparr>)))"

definition codes_workload_finalize ::
    "string \<Rightarrow> 'p option \<Rightarrow> int \<Rightarrow> int \<Rightarrow> ('st, 'p) workloads \<Rightarrow> (int \<times> ('st, 'p) workloads) result" where
  "codes_workload_finalize ty params app_id rnk w =
     (case find_method (method_array w) ty 0 of
        None \<Rightarrow> Inr (-1, w)
      | Some (i, m) \<Rightarrow>
          (case wm_finalize m of None \<Rightarrow> Inl NullDeref
           | Some f \<Rightarrow> bind_res (f params app_id rnk (gen_state w)) (\<lambda>(r, st). Inr (r, w\<lparr>gen_state := st\<rparr>))))"

definition codes_workload_get_rank_cnt ::
    "('st, 'p) codes_workload_method list \<Rightarrow> string \<Rightarrow> 'p option \<Rightarrow> int \<Rightarrow> ('st, 'p) workloads \<Rightarrow>
     int \<times> ('st, 'p) workloads" where
  "codes_workload_get_rank_cnt dflt ty params app_id w =
     (let w' = init_workload_methods dflt w in
      (case find_method (method_array w') ty 0 of None \<Rightarrow> -1
       | Some (i, m) \<Rightarrow> (case wm_get_rank_cnt m of None \<Rightarrow> -1 | Some f \<Rightarrow> f params app_id), w'))"

definition codes_workload_get_final_iteration :: "int \<Rightarrow> int \<Rightarrow> int \<Rightarrow> ('st, 'p) workloads \<Rightarrow> int result" where
  "codes_workload_get_final_iteration wkld_id app_id rnk w =
     bind_res (method_at w wkld_id) (\<lambda>m.
       Inr (case wm_get_final_iteration m of None \<Rightarrow> -1 | Some f \<Rightarrow> f app_id rnk))"

subsection \<open>Runs with rollback\<close>

text \<open>A model asks for the next operation of a rank, or takes its newest operation back. The history
  of a rank are the operations in force, newest first.\<close>

datatype wk_step = WNext int int | WUndo int int

type_synonym wk_history = "int \<Rightarrow> int \<Rightarrow> codes_workload_op list"

definition upd_hist :: "wk_history \<Rightarrow> int \<Rightarrow> int \<Rightarrow> codes_workload_op list \<Rightarrow> wk_history" where
  "upd_hist h a r xs = (\<lambda>a' r'. if a' = a \<and> r' = r then xs else h a' r')"

fun run_workload ::
    "int \<Rightarrow> wk_step list \<Rightarrow> ('st, 'p) workloads \<Rightarrow> wk_history \<Rightarrow> (('st, 'p) workloads \<times> wk_history) result" where
  "run_workload wid [] w h = Inr (w, h)"
| "run_workload wid (WNext a r # xs) w h =
     bind_res (codes_workload_get_next wid a r w) (\<lambda>(x, w').
       run_workload wid xs w' (upd_hist h a r (x # h a r)))"
| "run_workload wid (WUndo a r # xs) w h =
     (case h a r of [] \<Rightarrow> Inl AssertFailed
      | x # l \<Rightarrow> bind_res (codes_workload_get_next_rc wid a r x w) (\<lambda>w'.
                   run_workload wid xs w' (upd_hist h a r l)))"

text \<open>A run that takes back only what is in force and asks a rank only for operations that its
  generator has (\<open>avail\<close>: how many, for each rank), by the number of operations in force.\<close>

definition upd_count :: "(int \<Rightarrow> int \<Rightarrow> nat) \<Rightarrow> int \<Rightarrow> int \<Rightarrow> nat \<Rightarrow> int \<Rightarrow> int \<Rightarrow> nat" where
  "upd_count n a r k = (\<lambda>a' r'. if a' = a \<and> r' = r then k else n a' r')"

fun legal_steps :: "(int \<Rightarrow> int \<Rightarrow> nat \<Rightarrow> bool) \<Rightarrow> wk_step list \<Rightarrow> (int \<Rightarrow> int \<Rightarrow> nat) \<Rightarrow> bool" where
  "legal_steps avail [] n = True"
| "legal_steps avail (WNext a r # xs) n = (avail a r (n a r) \<and> legal_steps avail xs (upd_count n a r (Suc (n a r))))"
| "legal_steps avail (WUndo a r # xs) n = (0 < n a r \<and> legal_steps avail xs (upd_count n a r (n a r - 1)))"

lemma legal_steps_mono:
  "legal_steps P xs n \<Longrightarrow> (\<And>a r k. P a r k \<Longrightarrow> Q a r k) \<Longrightarrow> legal_steps Q xs n"
  by (induction P xs n rule: legal_steps.induct) auto

lemma get_set_queue [simp]:
  "get_queue (set_queue qs a r l) a' r' = (if a' = a \<and> r' = r then map_option (\<lambda>_. l) (get_queue qs a r) else get_queue qs a' r')"
  by (induction qs) auto

lemma upd_hist_simps [simp]:
  "upd_hist h a r xs a r = xs" "(a', r') \<noteq> (a, r) \<Longrightarrow> upd_hist h a r xs a' r' = h a' r'"
  by (auto simp: upd_hist_def)

lemma upd_count_hist: "(\<lambda>a' r'. length (upd_hist h a r xs a' r')) = upd_count (\<lambda>a r. length (h a r)) a r (length xs)"
  by (auto simp: upd_hist_def upd_count_def fun_eq_iff)

subsection \<open>The contract of a generator\<close>

text \<open>A generator keeps a state for each rank (\<open>view\<close>) that a step of another rank leaves alone.\<close>

locale workload_generator =
  fixes gen_next :: "int \<Rightarrow> int \<Rightarrow> 'st \<Rightarrow> (codes_workload_op \<times> 'st) result"
    and view :: "int \<Rightarrow> int \<Rightarrow> 'st \<Rightarrow> 'v"
    and step :: "'v \<Rightarrow> (codes_workload_op \<times> 'v) option"
  assumes next_view: "step (view a r st) = Some (x, v) \<Longrightarrow>
      \<exists>st'. gen_next a r st = Inr (x, st') \<and> view a r st' = v \<and>
        (\<forall>a' r'. (a', r') \<noteq> (a, r) \<longrightarrow> view a' r' st' = view a' r' st)"
begin

text \<open>The first operations of a rank.\<close>

fun gen_ops :: "nat \<Rightarrow> 'v \<Rightarrow> (codes_workload_op list \<times> 'v) option" where
  "gen_ops 0 v = Some ([], v)"
| "gen_ops (Suc n) v = (case gen_ops n v of None \<Rightarrow> None
     | Some (xs, v') \<Rightarrow> (case step v' of None \<Rightarrow> None | Some (x, v'') \<Rightarrow> Some (xs @ [x], v'')))"

lemma gen_ops_add:
  assumes "gen_ops n v = Some (xs, v')"
  shows "gen_ops (n + m) v = map_option (\<lambda>(ys, v''). (xs @ ys, v'')) (gen_ops m v')"
  using assms by (induction m) (auto split: option.splits)

lemma gen_ops_length: "gen_ops n v = Some (xs, v') \<Longrightarrow> length xs = n"
  by (induction n arbitrary: xs v') (auto split: option.splits)

lemma gen_ops_None: "gen_ops k v = None \<Longrightarrow> gen_ops (k + m) v = None"
  by (induction m) auto

lemma gen_ops_prefix:
  assumes "gen_ops n v = Some (xs, v')" and "k \<le> n"
  shows "\<exists>v''. gen_ops k v = Some (take k xs, v'')"
proof (cases "gen_ops k v")
  case None
  from gen_ops_None [OF this, of "n - k"] assms show ?thesis by simp
next
  case (Some y)
  obtain ys u where k: "gen_ops k v = Some (ys, u)" using Some by (cases y) auto
  from gen_ops_add [OF k, of "n - k"] assms obtain zs where "xs = ys @ zs"
    by (cases "gen_ops (n - k) u") auto
  with gen_ops_length [OF k] k show ?thesis by auto
qed

text \<open>The operations in force, followed by those that wait to be issued again, are the operations
  that the generator has produced.\<close>

definition replays :: "(int \<Rightarrow> int \<Rightarrow> 'v) \<Rightarrow> (int \<times> int) set \<Rightarrow> ('st, 'p) workloads \<Rightarrow> wk_history \<Rightarrow> bool" where
  "replays v0 tracked w h \<longleftrightarrow> (\<forall>(a, r) \<in> tracked. \<exists>l. get_queue (ranks w) a r = Some l \<and>
     gen_ops (length (h a r) + length l) (v0 a r) = Some (rev (h a r) @ l, view a r (gen_state w)))"

definition avail_in :: "(int \<Rightarrow> int \<Rightarrow> 'v) \<Rightarrow> (int \<times> int) set \<Rightarrow> int \<Rightarrow> int \<Rightarrow> nat \<Rightarrow> bool" where
  "avail_in v0 tracked a r n \<longleftrightarrow> (a, r) \<in> tracked \<and> gen_ops (Suc n) (v0 a r) \<noteq> None"

lemma next_replays:
  assumes inv: "replays v0 tracked w h" and av: "avail_in v0 tracked a r (length (h a r))"
    and m: "method_at w wid = Inr m" "wm_get_next m = gen_next"
  shows "\<exists>x w'. codes_workload_get_next wid a r w = Inr (x, w') \<and> method_array w' = method_array w \<and>
    replays v0 tracked w' (upd_hist h a r (x # h a r))"
proof -
  have t: "(a, r) \<in> tracked" using av by (simp add: avail_in_def)
  then obtain l where l: "get_queue (ranks w) a r = Some l"
    "gen_ops (length (h a r) + length l) (v0 a r) = Some (rev (h a r) @ l, view a r (gen_state w))"
    using inv by (auto simp: replays_def)
  show ?thesis
  proof (cases l)
    case Nil
    obtain x v where x: "step (view a r (gen_state w)) = Some (x, v)"
      using av l(2) Nil by (auto simp: avail_in_def split: option.splits)
    from next_view [OF x] obtain st' where st': "gen_next a r (gen_state w) = Inr (x, st')" "view a r st' = v"
      "\<forall>a' r'. (a', r') \<noteq> (a, r) \<longrightarrow> view a' r' st' = view a' r' (gen_state w)" by blast
    have "codes_workload_get_next wid a r w = Inr (x, w\<lparr>gen_state := st'\<rparr>)"
      using l(1) Nil m st'(1) by (simp add: codes_workload_get_next_def)
    moreover have "replays v0 tracked (w\<lparr>gen_state := st'\<rparr>) (upd_hist h a r (x # h a r))"
      unfolding replays_def
    proof safe
      fix a' r' assume t': "(a', r') \<in> tracked"
      show "\<exists>l. get_queue (ranks (w\<lparr>gen_state := st'\<rparr>)) a' r' = Some l \<and>
          gen_ops (length (upd_hist h a r (x # h a r) a' r') + length l) (v0 a' r') =
            Some (rev (upd_hist h a r (x # h a r) a' r') @ l, view a' r' (gen_state (w\<lparr>gen_state := st'\<rparr>)))"
      proof (cases "(a', r') = (a, r)")
        case True
        then show ?thesis using l Nil x st'(2) by simp
      next
        case False
        then show ?thesis using inv t' st'(3) by (auto simp: replays_def)
      qed
    qed
    ultimately show ?thesis by auto
  next
    case (Cons x l')
    have "replays v0 tracked (w\<lparr>ranks := set_queue (ranks w) a r l'\<rparr>) (upd_hist h a r (x # h a r))"
      using inv l Cons by (auto simp: replays_def upd_hist_def split: prod.splits)
    then show ?thesis using l(1) Cons by (simp add: codes_workload_get_next_def)
  qed
qed

lemma undo_replays:
  assumes inv: "replays v0 tracked w h" and t: "(a, r) \<in> tracked" and h: "h a r = x # xs"
  shows "\<exists>w'. codes_workload_get_next_rc wid a r x w = Inr w' \<and> method_array w' = method_array w \<and>
    replays v0 tracked w' (upd_hist h a r xs)"
proof -
  obtain l where l: "get_queue (ranks w) a r = Some l" using inv t by (auto simp: replays_def)
  have "replays v0 tracked (w\<lparr>ranks := set_queue (ranks w) a r (x # l)\<rparr>) (upd_hist h a r xs)"
    using inv l h by (auto simp: replays_def upd_hist_def split: prod.splits)
  then show ?thesis using l by (simp add: codes_workload_get_next_rc_def)
qed

text \<open>A legal run succeeds and keeps the histories faithful to the generator.\<close>

lemma run_replays:
  assumes "replays v0 tracked w h" and "legal_steps (avail_in v0 tracked) xs (\<lambda>a r. length (h a r))"
    and "\<forall>a r. (a, r) \<notin> tracked \<longrightarrow> h a r = []"
    and "method_at w wid = Inr m" and "wm_get_next m = gen_next"
  shows "\<exists>w' h'. run_workload wid xs w h = Inr (w', h') \<and> replays v0 tracked w' h'"
  using assms
proof (induction xs arbitrary: w h)
  case (Cons s xs)
  show ?case
  proof (cases s)
    case (WNext a r)
    then have av: "avail_in v0 tracked a r (length (h a r))" using Cons.prems(2) by simp
    obtain x w' where w': "codes_workload_get_next wid a r w = Inr (x, w')" "method_array w' = method_array w"
      "replays v0 tracked w' (upd_hist h a r (x # h a r))"
      using next_replays [OF Cons.prems(1) av Cons.prems(4,5)] by blast
    have l: "legal_steps (avail_in v0 tracked) xs (\<lambda>a' r'. length (upd_hist h a r (x # h a r) a' r'))"
      using Cons.prems(2) WNext by (simp add: upd_count_hist)
    have u: "\<forall>a' r'. (a', r') \<notin> tracked \<longrightarrow> upd_hist h a r (x # h a r) a' r' = []"
      using Cons.prems(3) av by (auto simp: upd_hist_def avail_in_def)
    have "method_at w' wid = Inr m" using Cons.prems(4) unfolding method_at_def w'(2) .
    from Cons.IH [OF w'(3) l u this Cons.prems(5)] show ?thesis using WNext w'(1) by simp
  next
    case (WUndo a r)
    then obtain x l where h: "h a r = x # l" using Cons.prems(2) by (cases "h a r") auto
    then have t: "(a, r) \<in> tracked" using Cons.prems(3) by force
    obtain w' where w': "codes_workload_get_next_rc wid a r x w = Inr w'" "method_array w' = method_array w"
      "replays v0 tracked w' (upd_hist h a r l)" using undo_replays [OF Cons.prems(1) t h] by blast
    have l: "legal_steps (avail_in v0 tracked) xs (\<lambda>a' r'. length (upd_hist h a r l a' r'))"
      using Cons.prems(2) WUndo h by (simp add: upd_count_hist)
    have u: "\<forall>a' r'. (a', r') \<notin> tracked \<longrightarrow> upd_hist h a r l a' r' = []"
      using Cons.prems(3) t by (auto simp: upd_hist_def)
    have "method_at w' wid = Inr m" using Cons.prems(4) unfolding method_at_def w'(2) .
    from Cons.IH [OF w'(3) l u this Cons.prems(5)] show ?thesis using WUndo w'(1) h by simp
  qed
qed auto

text \<open>The operations in force are a beginning of what the generator has to offer.\<close>

lemma replays_prefix:
  assumes rep: "replays v0 tracked w h" and t: "(a, r) \<in> tracked" and all: "gen_ops n (v0 a r) = Some (xs, v)"
    and fin: "step v = None \<or> length (h a r) \<le> n"
  shows "rev (h a r) = take (length (h a r)) xs"
proof -
  obtain l u where l: "gen_ops (length (h a r) + length l) (v0 a r) = Some (rev (h a r) @ l, u)"
    using rep t by (auto simp: replays_def)
  obtain u' where k: "gen_ops (length (h a r)) (v0 a r) = Some (rev (h a r), u')"
    using gen_ops_prefix [OF l, of "length (h a r)"] by auto
  have "length (h a r) \<le> n"
  proof (rule ccontr)
    assume long: "\<not> length (h a r) \<le> n"
    then have "gen_ops (Suc n) (v0 a r) = None" using all fin by auto
    moreover have "Suc n + (length (h a r) - Suc n) = length (h a r)" using long by simp
    ultimately show False using gen_ops_None [of "Suc n" "v0 a r" "length (h a r) - Suc n"] k by (metis option.distinct(1))
  qed
  from gen_ops_prefix [OF all this] k show ?thesis by auto
qed

end

end
