(* ===== verification/Quickhash.thy ===== *)
theory Quickhash
  imports Codes_Prelude
begin

text \<open>
  Chained hash tables: codes/quickhash.h, and the hash function of model-net messages in
  src/networks/model-net/common-net.c. A table is the array of its buckets; a bucket is the list
  of its entries (the lists of \<open>quicklist.h\<close>). The hash and compare functions are arguments, as
  in the C code, where a table carries pointers to them.
\<close>

unbundle bit_operations_syntax

type_synonym 'e qhash_table = "'e list list"
type_synonym 'k hash_fn = "'k \<Rightarrow> int \<Rightarrow> int"

definition qhash_init :: "int \<Rightarrow> 'e qhash_table" where
  "qhash_init table_size = replicate (nat table_size) []"

definition qhash_bucket :: "'k hash_fn \<Rightarrow> 'e qhash_table \<Rightarrow> 'k \<Rightarrow> nat result" where
  "qhash_bucket hash t k =
     (let i = hash k (int (length t)) in
      if 0 \<le> i \<and> i < int (length t) then Inr (nat i) else Inl OutOfBounds)"

definition qhash_add :: "'k hash_fn \<Rightarrow> 'e qhash_table \<Rightarrow> 'k \<Rightarrow> 'e \<Rightarrow> 'e qhash_table result" where
  "qhash_add hash t k e = bind_res (qhash_bucket hash t k) (\<lambda>i. Inr (t[i := t ! i @ [e]]))"

definition qhash_search :: "'k hash_fn \<Rightarrow> ('k \<Rightarrow> 'e \<Rightarrow> bool) \<Rightarrow> 'e qhash_table \<Rightarrow> 'k \<Rightarrow> 'e option result" where
  "qhash_search hash compare t k = bind_res (qhash_bucket hash t k) (\<lambda>i. Inr (find (compare k) (t ! i)))"

definition qhash_search_at_index :: "'e qhash_table \<Rightarrow> int \<Rightarrow> 'e option result" where
  "qhash_search_at_index t index =
     (if index \<ge> int (length t) then Inr None
      else if index < 0 then Inl OutOfBounds
      else Inr (case t ! nat index of [] \<Rightarrow> None | e # es \<Rightarrow> Some e))"

fun remove_first :: "('e \<Rightarrow> bool) \<Rightarrow> 'e list \<Rightarrow> 'e list" where
  "remove_first P [] = []"
| "remove_first P (e # es) = (if P e then es else e # remove_first P es)"

definition qhash_search_and_remove ::
    "'k hash_fn \<Rightarrow> ('k \<Rightarrow> 'e \<Rightarrow> bool) \<Rightarrow> 'e qhash_table \<Rightarrow> 'k \<Rightarrow> ('e option \<times> 'e qhash_table) result" where
  "qhash_search_and_remove hash compare t k =
     bind_res (qhash_bucket hash t k) (\<lambda>i.
       Inr (find (compare k) (t ! i), t[i := remove_first (compare k) (t ! i)]))"

definition qhash_search_and_remove_at_index :: "'e qhash_table \<Rightarrow> int \<Rightarrow> ('e option \<times> 'e qhash_table) result" where
  "qhash_search_and_remove_at_index t index =
     (if index \<ge> int (length t) then Inr (None, t)
      else if index < 0 then Inl OutOfBounds
      else Inr (case t ! nat index of [] \<Rightarrow> (None, t) | e # es \<Rightarrow> (Some e, t[nat index := es])))"

text \<open>A user that changes the found entry changes it in place; \<open>qhash_del\<close> takes it out.\<close>

fun change_first :: "('e \<Rightarrow> bool) \<Rightarrow> ('e \<Rightarrow> 'e) \<Rightarrow> 'e list \<Rightarrow> 'e list" where
  "change_first P f [] = []"
| "change_first P f (e # es) = (if P e then f e # es else e # change_first P f es)"

definition qhash_change ::
    "'k hash_fn \<Rightarrow> ('k \<Rightarrow> 'e \<Rightarrow> bool) \<Rightarrow> 'e qhash_table \<Rightarrow> 'k \<Rightarrow> ('e \<Rightarrow> 'e) \<Rightarrow> 'e qhash_table result" where
  "qhash_change hash compare t k f =
     bind_res (qhash_bucket hash t k) (\<lambda>i. Inr (t[i := change_first (compare k) f (t ! i)]))"

text \<open>\<open>qhash_destroy_and_finalize\<close>: the entries in the order in which they are destroyed.\<close>

definition qhash_destroy :: "'e qhash_table \<Rightarrow> 'e list" where
  "qhash_destroy t = concat t"

subsection \<open>Hash functions\<close>

text \<open>The shifts of signed values are arithmetic shifts, and left shifts wrap around.\<close>

definition quickhash_32bit_hash :: "32 word \<Rightarrow> int \<Rightarrow> int" where
  "quickhash_32bit_hash k table_size =
     (let k1 = NOT k + push_bit 15 k;
          k2 = k1 XOR signed_drop_bit 12 k1;
          k3 = k2 + push_bit 2 k2;
          k4 = k3 XOR signed_drop_bit 4 k3;
          k5 = k4 * 2057;
          k6 = k5 XOR signed_drop_bit 16 k5
      in sint (k6 AND word_of_int (table_size - 1)))"

definition quickhash_64bit_hash :: "64 word \<Rightarrow> int \<Rightarrow> int" where
  "quickhash_64bit_hash k table_size =
     (let k1 = NOT k + push_bit 18 k;
          k2 = k1 XOR drop_bit 31 k1;
          k3 = k2 * 21;
          k4 = k3 XOR drop_bit 11 k3;
          k5 = k4 + push_bit 6 k4;
          k6 = k5 XOR drop_bit 22 k5
      in s32 (uint (k6 AND word_of_int (table_size - 1))))"

text \<open>The characters of the string are signed.\<close>

definition char_step :: "8 word \<Rightarrow> 32 word \<Rightarrow> 32 word" where
  "char_step c h =
     (let h1 = push_bit 4 h + scast c; g = h1 AND 0xF0 in
      if g \<noteq> 0 then (h1 XOR drop_bit 24 g) XOR g else h1)"

definition quickhash_string_hash :: "8 word list \<Rightarrow> int \<Rightarrow> int" where
  "quickhash_string_hash str table_size =
     s32 (uint (ucast (fold char_step (takeWhile (\<lambda>c. c \<noteq> 0) str) 0) AND (word_of_int (table_size - 1) :: 64 word)))"

definition quickhash_null32_hash :: "32 word \<Rightarrow> int \<Rightarrow> int" where
  "quickhash_null32_hash k table_size = sint (k AND word_of_int (table_size - 1))"

text \<open>The key of a message: its id and its sender, both \<open>uint64_t\<close>.\<close>

record mn_hash_key =
  hk_message_id :: "64 word"
  hk_sender_id :: "64 word"

definition mn_hash_func :: "mn_hash_key \<Rightarrow> int \<Rightarrow> int" where
  "mn_hash_func k table_size =
     (let k1 = NOT (hk_message_id k) + push_bit 18 (hk_message_id k);
          k2 = k1 * 21;
          k3 = NOT k2 XOR drop_bit 4 (hk_sender_id k);
          k4 = k3 * hk_sender_id k
      in s32 (uint (k4 AND word_of_int (table_size - 1))))"

text \<open>Every function gives an index of the table: the mask bounds the result.\<close>

lemma mask_range_64:
  fixes x :: "64 word"
  assumes "0 < n" and "n < 2 ^ 31"
  shows "0 \<le> s32 (uint (x AND word_of_int (n - 1))) \<and> s32 (uint (x AND word_of_int (n - 1))) < n"
proof -
  have "x AND word_of_int (n - 1) \<le> word_of_int (n - 1)" by (rule word_and_le1)
  then have "uint (x AND word_of_int (n - 1)) \<le> uint (word_of_int (n - 1) :: 64 word)" by (simp only: word_le_def)
  also have "\<dots> = n - 1" using assms by (simp only: uint_word_of_int_eq) (simp add: take_bit_int_eq_self)
  finally have "uint (x AND word_of_int (n - 1)) \<le> n - 1" .
  moreover have "0 \<le> uint (x AND word_of_int (n - 1))" by simp
  moreover have "s32 y = y" if "0 \<le> y" "y \<le> n - 1" for y using that assms by (intro s32_id) auto
  ultimately show ?thesis by auto
qed

lemma mask_range_32:
  fixes x :: "32 word"
  assumes "0 < n" and "n < 2 ^ 31"
  shows "0 \<le> sint (x AND word_of_int (n - 1)) \<and> sint (x AND word_of_int (n - 1)) < n"
proof -
  have "x AND word_of_int (n - 1) \<le> word_of_int (n - 1)" by (rule word_and_le1)
  then have "uint (x AND word_of_int (n - 1)) \<le> uint (word_of_int (n - 1) :: 32 word)" by (simp only: word_le_def)
  also have "\<dots> = n - 1" using assms by (simp only: uint_word_of_int_eq) (simp add: take_bit_int_eq_self)
  finally have le: "uint (x AND word_of_int (n - 1)) \<le> n - 1" .
  moreover have ge: "0 \<le> uint (x AND word_of_int (n - 1))" by simp
  moreover have "sint (x AND word_of_int (n - 1)) = uint (x AND word_of_int (n - 1))"
  proof -
    have "signed_take_bit 31 y = y" if "0 \<le> y" "y \<le> n - 1" for y
      using that assms by (intro signed_take_bit_int_eq_self) auto
    then show ?thesis using le ge by (simp add: sint_uint del: of_int_diff)
  qed
  ultimately show ?thesis by simp
qed

lemmas hash_defs = quickhash_32bit_hash_def quickhash_64bit_hash_def quickhash_string_hash_def
  quickhash_null32_hash_def mn_hash_func_def Let_def

subsection \<open>Operations\<close>

datatype ('k, 'e) hash_op = HAdd 'k 'e | HSearch 'k | HRemove 'k

text \<open>A run of operations on a table, with the answers; and the same operations on the map from keys
  to the queue of the entries with that key.\<close>

fun run_table ::
    "'k hash_fn \<Rightarrow> ('k \<Rightarrow> 'e \<Rightarrow> bool) \<Rightarrow> ('k, 'e) hash_op list \<Rightarrow> 'e qhash_table \<Rightarrow>
     ('e option list \<times> 'e qhash_table) result" where
  "run_table hash cmp [] t = Inr ([], t)"
| "run_table hash cmp (HAdd k e # ops) t = bind_res (qhash_add hash t k e) (run_table hash cmp ops)"
| "run_table hash cmp (HSearch k # ops) t =
     bind_res (qhash_search hash cmp t k) (\<lambda>a.
     bind_res (run_table hash cmp ops t) (\<lambda>(as, t'). Inr (a # as, t')))"
| "run_table hash cmp (HRemove k # ops) t =
     bind_res (qhash_search_and_remove hash cmp t k) (\<lambda>(a, t1).
     bind_res (run_table hash cmp ops t1) (\<lambda>(as, t'). Inr (a # as, t')))"

definition front :: "'e list \<Rightarrow> 'e option" where
  "front es = (case es of [] \<Rightarrow> None | e # _ \<Rightarrow> Some e)"

fun run_map :: "('k, 'e) hash_op list \<Rightarrow> ('k \<Rightarrow> 'e list) \<Rightarrow> 'e option list" where
  "run_map [] m = []"
| "run_map (HAdd k e # ops) m = run_map ops (m(k := m k @ [e]))"
| "run_map (HSearch k # ops) m = front (m k) # run_map ops m"
| "run_map (HRemove k # ops) m = front (m k) # run_map ops (m(k := tl (m k)))"

definition ops_keyed :: "('e \<Rightarrow> 'k) \<Rightarrow> ('k, 'e) hash_op list \<Rightarrow> bool" where
  "ops_keyed key ops \<longleftrightarrow> list_all (\<lambda>p. case p of HAdd k e \<Rightarrow> key e = k | _ \<Rightarrow> True) ops"

subsection \<open>Tables as maps to queues\<close>

lemma concat_update_length:
  "i < length t \<Longrightarrow> length (concat (t[i := b])) + length (t ! i) = length (concat t) + length b"
proof (induction t arbitrary: i)
  case (Cons x t)
  then show ?case by (cases i) auto
qed simp

text \<open>The contract that a user of a table relies on: the hash is an index, and the compare function
  tests the key of an entry.\<close>

locale hash_client =
  fixes hash :: "'k hash_fn" and compare :: "'k \<Rightarrow> 'e \<Rightarrow> bool" and key :: "'e \<Rightarrow> 'k"
  assumes hash_range: "0 < n \<Longrightarrow> n < 2 ^ 31 \<Longrightarrow> 0 \<le> hash k n \<and> hash k n < n"
    and compare_key: "compare k e \<longleftrightarrow> key e = k"
begin

text \<open>Every entry stands in the bucket of its key.\<close>

definition table_ok :: "'e qhash_table \<Rightarrow> bool" where
  "table_ok t \<longleftrightarrow> 0 < length t \<and> length t < 2 ^ 31 \<and>
     (\<forall>i < length t. \<forall>e \<in> set (t ! i). hash (key e) (int (length t)) = int i)"

definition entries_of :: "'e qhash_table \<Rightarrow> 'k \<Rightarrow> 'e list" where
  "entries_of t k = filter (\<lambda>e. key e = k) (concat t)"

lemma bucket_in:
  assumes "table_ok t"
  shows "qhash_bucket hash t k = Inr (nat (hash k (int (length t))))" and "nat (hash k (int (length t))) < length t"
  using assms hash_range [of "int (length t)" k] by (auto simp: table_ok_def qhash_bucket_def Let_def)

lemma entries_bucket:
  assumes ok: "table_ok t"
  shows "entries_of t k = filter (\<lambda>e. key e = k) (t ! nat (hash k (int (length t))))"
proof -
  let ?i = "nat (hash k (int (length t)))"
  have i: "?i < length t" using bucket_in(2) [OF ok] .
  have other: "filter (\<lambda>e. key e = k) (t ! j) = []" if "j < length t" "j \<noteq> ?i" for j
    using ok that by (auto simp: table_ok_def filter_empty_conv)
  have t: "t = take ?i t @ t ! ?i # drop (Suc ?i) t" using i by (rule id_take_nth_drop)
  have "filter (\<lambda>e. key e = k) (concat (take ?i t)) = []"
  proof -
    have "filter (\<lambda>e. key e = k) b = []" if "b \<in> set (take ?i t)" for b
      using that other by (auto simp: in_set_conv_nth)
    then show ?thesis by (auto simp: filter_empty_conv)
  qed
  moreover have "filter (\<lambda>e. key e = k) (concat (drop (Suc ?i) t)) = []"
  proof -
    have "filter (\<lambda>e. key e = k) b = []" if "b \<in> set (drop (Suc ?i) t)" for b
      using that other by (auto simp: in_set_conv_nth)
    then show ?thesis by (auto simp: filter_empty_conv)
  qed
  ultimately show ?thesis
    unfolding entries_of_def using arg_cong [OF t, of "\<lambda>t. filter (\<lambda>e. key e = k) (concat t)"] by simp
qed

lemma update_bucket:
  assumes ok: "table_ok t" and b: "\<forall>e \<in> set b. e \<in> set (t ! nat (hash k (int (length t)))) \<or> key e = k"
  shows "table_ok (t[nat (hash k (int (length t))) := b])"
    and "entries_of (t[nat (hash k (int (length t))) := b]) k = filter (\<lambda>e. key e = k) b"
    and "\<lbrakk>k' \<noteq> k; filter (\<lambda>e. key e = k') b = filter (\<lambda>e. key e = k') (t ! nat (hash k (int (length t))))\<rbrakk> \<Longrightarrow>
      entries_of (t[nat (hash k (int (length t))) := b]) k' = entries_of t k'"
proof -
  let ?i = "nat (hash k (int (length t)))"
  have i: "?i < length t" "int ?i = hash k (int (length t))"
    using bucket_in(2) [OF ok] hash_range [of "int (length t)" k] ok by (auto simp: table_ok_def)
  show ok': "table_ok (t[?i := b])"
    using ok b i by (auto simp: table_ok_def nth_list_update)
  show "entries_of (t[?i := b]) k = filter (\<lambda>e. key e = k) b"
    using entries_bucket [OF ok', of k] i(1) by simp
  show "entries_of (t[?i := b]) k' = entries_of t k'"
    if "k' \<noteq> k" "filter (\<lambda>e. key e = k') b = filter (\<lambda>e. key e = k') (t ! ?i)"
    using entries_bucket [OF ok', of k'] entries_bucket [OF ok, of k'] that i(1) by (simp add: nth_list_update)
qed

lemma init_entries:
  assumes "0 < n" and "n < 2 ^ 31"
  shows "table_ok (qhash_init n)" and "entries_of (qhash_init n) k = []"
  using assms by (simp_all add: table_ok_def entries_of_def qhash_init_def)

lemma add_entries:
  assumes ok: "table_ok t" and e: "key e = k"
  obtains t' where "qhash_add hash t k e = Inr t'" and "table_ok t'" and "entries_of t' k = entries_of t k @ [e]"
    and "\<And>k'. k' \<noteq> k \<Longrightarrow> entries_of t' k' = entries_of t k'"
proof -
  let ?i = "nat (hash k (int (length t)))"
  have "\<forall>x \<in> set (t ! ?i @ [e]). x \<in> set (t ! ?i) \<or> key x = k" using e by auto
  note u = update_bucket [OF ok this]
  show thesis
  proof (rule that)
    show "qhash_add hash t k e = Inr (t[?i := t ! ?i @ [e]])" by (simp add: qhash_add_def bucket_in(1) [OF ok])
  qed (use u e entries_bucket [OF ok] in auto)
qed

lemma search_entries:
  assumes ok: "table_ok t"
  shows "qhash_search hash compare t k = Inr (case entries_of t k of [] \<Rightarrow> None | e # es \<Rightarrow> Some e)"
proof -
  have "find (compare k) b = (case filter (\<lambda>e. key e = k) b of [] \<Rightarrow> None | e # es \<Rightarrow> Some e)" for b
    by (induction b) (auto simp: compare_key)
  then show ?thesis by (simp add: qhash_search_def bucket_in(1) [OF ok] entries_bucket [OF ok])
qed

lemma remove_entries:
  assumes ok: "table_ok t"
  obtains t' where "qhash_search_and_remove hash compare t k =
      Inr (case entries_of t k of [] \<Rightarrow> None | e # es \<Rightarrow> Some e, t')" and "table_ok t'"
    and "entries_of t' k = tl (entries_of t k)" and "\<And>k'. k' \<noteq> k \<Longrightarrow> entries_of t' k' = entries_of t k'"
proof -
  let ?i = "nat (hash k (int (length t)))"
  have f: "find (compare k) b = (case filter (\<lambda>e. key e = k) b of [] \<Rightarrow> None | e # es \<Rightarrow> Some e)" for b
    by (induction b) (auto simp: compare_key)
  have r: "filter (\<lambda>e. key e = k) (remove_first (compare k) b) = tl (filter (\<lambda>e. key e = k) b)"
    "k' \<noteq> k \<Longrightarrow> filter (\<lambda>e. key e = k') (remove_first (compare k) b) = filter (\<lambda>e. key e = k') b"
    "set (remove_first (compare k) b) \<subseteq> set b" for b k'
    by (induction b) (auto simp: compare_key)
  have "\<forall>x \<in> set (remove_first (compare k) (t ! ?i)). x \<in> set (t ! ?i) \<or> key x = k" using r(3) by blast
  note u = update_bucket [OF ok this]
  show thesis
  proof (rule that)
    show "qhash_search_and_remove hash compare t k = Inr (case entries_of t k of [] \<Rightarrow> None | e # es \<Rightarrow> Some e,
        t[?i := remove_first (compare k) (t ! ?i)])"
      by (simp add: qhash_search_and_remove_def bucket_in(1) [OF ok] entries_bucket [OF ok] f)
  qed (use u r entries_bucket [OF ok] in auto)
qed

lemma change_entries:
  assumes ok: "table_ok t" and e: "entries_of t k = e # es" and f: "key (f e) = k"
  obtains t' where "qhash_change hash compare t k f = Inr t'" and "table_ok t'" and "entries_of t' k = f e # es"
    and "\<And>k'. k' \<noteq> k \<Longrightarrow> entries_of t' k' = entries_of t k'" and "length (concat t') = length (concat t)"
proof -
  let ?i = "nat (hash k (int (length t)))"
  have i: "?i < length t" using bucket_in(2) [OF ok] .
  have c: "filter (\<lambda>e. key e = k) (change_first (compare k) f b) = f e # es"
    "k' \<noteq> k \<Longrightarrow> filter (\<lambda>e. key e = k') (change_first (compare k) f b) = filter (\<lambda>e. key e = k') b"
    "set (change_first (compare k) f b) \<subseteq> insert (f e) (set b)" "length (change_first (compare k) f b) = length b"
    if "filter (\<lambda>e. key e = k) b = e # es" for b k'
    using that f by (induction b) (auto simp: compare_key split: if_splits)
  have b: "filter (\<lambda>e. key e = k) (t ! ?i) = e # es" using e entries_bucket [OF ok] by simp
  have "\<forall>x \<in> set (change_first (compare k) f (t ! ?i)). x \<in> set (t ! ?i) \<or> key x = k"
    using c(3) [OF b] f by auto
  note u = update_bucket [OF ok this]
  have "length (concat (t[?i := change_first (compare k) f (t ! ?i)])) = length (concat t)"
    using concat_update_length [OF i, of "change_first (compare k) f (t ! ?i)"] c(4) [OF b] by simp
  moreover have "qhash_change hash compare t k f = Inr (t[?i := change_first (compare k) f (t ! ?i)])"
    by (simp add: qhash_change_def bucket_in(1) [OF ok])
  ultimately show thesis using that u c(1,2) [OF b] by metis
qed

lemma remove_length:
  assumes "table_ok t" and "entries_of t k = e # es"
    and "qhash_search_and_remove hash compare t k = Inr (a, t')"
  shows "length (concat t) = Suc (length (concat t'))"
proof -
  let ?i = "nat (hash k (int (length t)))"
  have i: "?i < length t" using bucket_in(2) [OF assms(1)] .
  have r: "length b = Suc (length (remove_first (compare k) b))" if "filter (\<lambda>e. key e = k) b = e # es" for b
    using that by (induction b) (auto simp: compare_key split: if_splits)
  have t': "t' = t[?i := remove_first (compare k) (t ! ?i)]"
    using assms(3) by (simp add: qhash_search_and_remove_def bucket_in(1) [OF assms(1)])
  have "length (t ! ?i) = Suc (length (remove_first (compare k) (t ! ?i)))"
    using r assms(2) entries_bucket [OF assms(1)] by simp
  then show ?thesis unfolding t' using concat_update_length [OF i, of "remove_first (compare k) (t ! ?i)"] by simp
qed

lemma add_length:
  assumes "table_ok t" and "qhash_add hash t k e = Inr t'"
  shows "length (concat t') = Suc (length (concat t))"
proof -
  let ?i = "nat (hash k (int (length t)))"
  have i: "?i < length t" using bucket_in(2) [OF assms(1)] .
  have t': "t' = t[?i := t ! ?i @ [e]]" using assms(2) by (simp add: qhash_add_def bucket_in(1) [OF assms(1)])
  then show ?thesis using concat_update_length [OF i, of "t ! ?i @ [e]"] by simp
qed

lemma run_refines:
  assumes "ops_keyed key ops" and "table_ok t"
  shows "\<exists>t'. run_table hash compare ops t = Inr (run_map ops (entries_of t), t') \<and> table_ok t'"
  using assms
proof (induction ops arbitrary: t)
  case (Cons p ops)
  show ?case
  proof (cases p)
    case (HAdd k e)
    obtain t1 where t1: "qhash_add hash t k e = Inr t1" "table_ok t1" "entries_of t1 k = entries_of t k @ [e]"
      "\<And>k'. k' \<noteq> k \<Longrightarrow> entries_of t1 k' = entries_of t k'"
      using add_entries [of t e k] Cons.prems HAdd by (auto simp: ops_keyed_def)
    then have "entries_of t1 = (entries_of t)(k := entries_of t k @ [e])" by auto
    then show ?thesis using Cons.IH [of t1] Cons.prems(1) t1(1,2) HAdd by (auto simp: ops_keyed_def fun_upd_def)
  next
    case (HSearch k)
    then show ?thesis using Cons.IH [of t] Cons.prems search_entries [of t k]
      by (auto simp: ops_keyed_def front_def)
  next
    case (HRemove k)
    obtain t1 where t1: "qhash_search_and_remove hash compare t k = Inr (case entries_of t k of [] \<Rightarrow> None | e # es \<Rightarrow> Some e, t1)"
      "table_ok t1" "entries_of t1 k = tl (entries_of t k)" "\<And>k'. k' \<noteq> k \<Longrightarrow> entries_of t1 k' = entries_of t k'"
      using remove_entries [of t k] Cons.prems by auto
    then have "entries_of t1 = (entries_of t)(k := tl (entries_of t k))" by auto
    then show ?thesis using Cons.IH [of t1] Cons.prems(1) t1(1,2) HRemove by (auto simp: ops_keyed_def front_def fun_upd_def)
  qed
qed auto

end

subsection \<open>The table of messages under reassembly\<close>

record mn_qhash_entry =
  qe_key :: mn_hash_key
  remote_event_data :: string
  num_chunks :: int
  remote_event_size :: int

definition mn_rank_hash_compare :: "mn_hash_key \<Rightarrow> mn_qhash_entry \<Rightarrow> bool" where
  "mn_rank_hash_compare k tmp \<longleftrightarrow>
     hk_message_id (qe_key tmp) = hk_message_id k \<and> hk_sender_id (qe_key tmp) = hk_sender_id k"

interpretation mnq: hash_client mn_hash_func mn_rank_hash_compare qe_key
proof
  show "0 \<le> mn_hash_func k n \<and> mn_hash_func k n < n" if "0 < n" "n < 2 ^ 31" for k n
    using mask_range_64 [OF that] by (simp add: mn_hash_func_def Let_def del: of_int_diff)
  show "mn_rank_hash_compare k e \<longleftrightarrow> qe_key e = k" for k e
    by (cases "qe_key e"; cases k) (auto simp: mn_rank_hash_compare_def)
qed

text \<open>C30: The hash table of messages under reassembly implements a map: starting from a new table
  of any size an \<open>int\<close> allows, every sequence of insertions, searches and removals runs without
  an out-of-range access and gives the same answers as a map from (message, sender) pairs to
  first-in first-out queues of entries.\<close>

theorem mn_table_refines_map:
  assumes "0 < n" and "n < 2 ^ 31" and "ops_keyed qe_key ops"
  shows "\<exists>t. run_table mn_hash_func mn_rank_hash_compare ops (qhash_init n) = Inr (run_map ops (\<lambda>k. []), t)"
proof -
  have "mnq.entries_of (qhash_init n) = (\<lambda>k. [])" using mnq.init_entries(2) [OF assms(1,2)] by auto
  with mnq.run_refines [OF assms(3) mnq.init_entries(1) [OF assms(1,2)]] show ?thesis by auto
qed

theorem mn_table_refines_map_witness:
  "\<exists>t. run_table mn_hash_func mn_rank_hash_compare
     [HAdd \<lparr>hk_message_id = 7, hk_sender_id = 2\<rparr> \<lparr>qe_key = \<lparr>hk_message_id = 7, hk_sender_id = 2\<rparr>, remote_event_data = [],
        num_chunks = 1, remote_event_size = 0\<rparr>,
      HSearch \<lparr>hk_message_id = 7, hk_sender_id = 3\<rparr>, HRemove \<lparr>hk_message_id = 7, hk_sender_id = 2\<rparr>] (qhash_init 4) =
   Inr ([None, Some \<lparr>qe_key = \<lparr>hk_message_id = 7, hk_sender_id = 2\<rparr>, remote_event_data = [],
        num_chunks = 1, remote_event_size = 0\<rparr>], t)"
  using mn_table_refines_map [of 4 "[HAdd \<lparr>hk_message_id = 7, hk_sender_id = 2\<rparr>
      \<lparr>qe_key = \<lparr>hk_message_id = 7, hk_sender_id = 2\<rparr>, remote_event_data = [], num_chunks = 1, remote_event_size = 0\<rparr>,
      HSearch \<lparr>hk_message_id = 7, hk_sender_id = 3\<rparr>, HRemove \<lparr>hk_message_id = 7, hk_sender_id = 2\<rparr>]"]
  by (simp add: ops_keyed_def front_def)

text \<open>The string hash masks with 0xF0 where the algorithm it cites masks the four top bits of the
  32-bit word: the bits 4 to 7 are cleared after every character, so that the result never has
  one of them and most of a table stays empty.\<close>

lemma string_hash_nibble:
  assumes "str \<noteq> []"
  shows "fold char_step str h AND 0xF0 = 0"
proof -
  have clear: "char_step c h AND 0xF0 = 0" for c h
  proof (cases "(push_bit 4 h + scast c) AND 0xF0 = 0")
    case False
    then show ?thesis by (intro bit_word_eqI) (auto simp: char_step_def Let_def bit_simps)
  qed (simp add: char_step_def)
  then show ?thesis using assms by (cases str rule: rev_cases) simp_all
qed

end
