(* ===== verification/Workload_Methods.thy ===== *)
theory Workload_Methods
  imports Workload Quickhash
begin

text \<open>
  Three workload generators under src/workload/methods: the mock I/O workload
  (codes-iomock-wrkld.c), the checkpoint workload (codes-checkpoint-wrkld.c) and the test workload
  (test-workload-method.c). The static variables of all of them form the record \<open>wk_static\<close>;
  the parameters that a caller passes as \<open>void*\<close> are the type \<open>wk_params\<close>.
\<close>

unbundle bit_operations_syntax

text \<open>The hash key of a rank is a structure of two \<open>int\<close>s, the rank first, read as one 64-bit word
  (little endian).\<close>

definition rank_key :: "int \<times> int \<Rightarrow> 64 word" where
  "rank_key k = word_of_int (fst k mod 2 ^ 32) + push_bit 32 (word_of_int (snd k mod 2 ^ 32))"

definition rank_hash :: "int \<times> int \<Rightarrow> int \<Rightarrow> int" where
  "rank_hash k table_size = quickhash_64bit_hash (rank_key k) table_size"

lemma rank_hash_range: "0 < n \<Longrightarrow> n < 2 ^ 31 \<Longrightarrow> 0 \<le> rank_hash k n \<and> rank_hash k n < n"
  using mask_range_64 by (simp add: rank_hash_def quickhash_64bit_hash_def Let_def del: of_int_diff)

subsection \<open>The mock I/O workload\<close>

record iomock_params =
  mp_file_id :: "64 word"
  use_uniq_file_ids :: int
  is_write :: int
  num_requests :: int
  request_size :: int
  rank_table_size :: int

record rank_state =
  rs_rank :: int
  rs_app_id :: int
  reqs_processed :: int
  has_opened :: bool
  has_closed :: bool
  rs_params :: iomock_params

record iomock_static =
  app_params_list :: "(int \<times> iomock_params) list"
  rank_tbl :: "rank_state qhash_table option"
  num_qhash_entries :: int

definition params_eq :: "iomock_params \<Rightarrow> iomock_params \<Rightarrow> bool" where
  "params_eq a b \<longleftrightarrow> mp_file_id a = mp_file_id b \<and> use_uniq_file_ids a = use_uniq_file_ids b \<and>
     is_write a = is_write b \<and> num_requests a = num_requests b \<and> request_size a = request_size b"

definition rank_tbl_compare :: "int \<times> int \<Rightarrow> rank_state \<Rightarrow> bool" where
  "rank_tbl_compare k b \<longleftrightarrow> fst k = rs_rank b \<and> snd k = rs_app_id b"

definition get_file_id :: "iomock_params \<Rightarrow> int \<Rightarrow> 64 word" where
  "get_file_id p rnk = mp_file_id p + (if use_uniq_file_ids p \<noteq> 0 then word_of_int rnk else 0)"

definition iomock_workload_read_config ::
    "config_handle \<Rightarrow> string \<Rightarrow> string option \<Rightarrow> int \<Rightarrow> iomock_params result" where
  "iomock_workload_read_config h sec anno num_ranks =
     bind_res (configuration_get_value_int h sec ''mock_num_requests'' anno) (\<lambda>(rc, n).
     if rc \<noteq> 0 \<or> the n < 0 then Inl TwError
     else
     bind_res (configuration_get_value_int h sec ''mock_request_size'' anno) (\<lambda>(rc, sz).
     if rc \<noteq> 0 \<or> the sz < 0 then Inl TwError
     else
     bind_res (configuration_get_value h sec ''mock_request_type'' anno CONFIGURATION_MAX_NAME) (\<lambda>(rc, buf).
     let req_type = (case buf of None \<Rightarrow> [] | Some s \<Rightarrow> s) in
     if rc > 0 \<and> req_type \<noteq> ''write'' \<and> req_type \<noteq> ''read'' then Inl TwError
     else
     bind_res (configuration_get_value_longint h sec ''mock_file_id'' anno) (\<lambda>(rcf, fid).
     bind_res (configuration_get_value_int h sec ''mock_use_unique_file_ids'' anno) (\<lambda>(rcu, uniq).
     bind_res (configuration_get_value_int h sec ''mock_rank_table_size'' anno) (\<lambda>(rct, tsz).
     if rct = 0 \<and> the tsz < 0 then Inl TwError
     else Inr \<lparr>mp_file_id = (if rcf = 0 then word_of_int (the fid) else 0),
               use_uniq_file_ids = (case uniq of None \<Rightarrow> 0 | Some u \<Rightarrow> u),
               is_write = (if rc > 0 \<and> req_type = ''read'' then 0 else 1),
               num_requests = the n, request_size = the sz,
               rank_table_size = (case tsz of None \<Rightarrow> 0 | Some t \<Rightarrow> t)\<rparr>))))))"

definition DEFAULT_HASH_TBL_SIZE :: int where "DEFAULT_HASH_TBL_SIZE = 1024"

text \<open>The loop over the parameter sets: found, or absent, or an error for a different set.\<close>

fun find_params :: "(int \<times> iomock_params) list \<Rightarrow> int \<Rightarrow> iomock_params \<Rightarrow> iomock_params option result" where
  "find_params [] app p = Inr None"
| "find_params ((a, q) # aps) app p =
     (if app = a then (if params_eq q p then Inr (Some q) else Inl TwError) else find_params aps app p)"

definition new_rank :: "int \<Rightarrow> int \<Rightarrow> iomock_params \<Rightarrow> rank_state" where
  "new_rank app_id rnk p = \<lparr>rs_rank = rnk, rs_app_id = app_id, reqs_processed = 0, has_opened = False,
     has_closed = False, rs_params = p\<rparr>"

definition iomock_workload_load ::
    "iomock_params \<Rightarrow> int \<Rightarrow> int \<Rightarrow> iomock_static \<Rightarrow> (int \<times> iomock_static) result" where
  "iomock_workload_load p app_id rnk st =
     bind_res (find_params (app_params_list st) app_id p) (\<lambda>ap.
     let q = (case ap of None \<Rightarrow> p | Some q \<Rightarrow> q);
         st1 = (if ap = None then st\<lparr>app_params_list := app_params_list st @ [(app_id, p)]\<rparr> else st);
         t = (case rank_tbl st of
                None \<Rightarrow> qhash_init (if rank_table_size p \<noteq> 0 then rank_table_size p else DEFAULT_HASH_TBL_SIZE)
              | Some t \<Rightarrow> t) in
     bind_res (qhash_add rank_hash t (rnk, app_id) (new_rank app_id rnk q)) (\<lambda>t'.
       Inr (0, st1\<lparr>rank_tbl := Some t', num_qhash_entries := num_qhash_entries st + 1\<rparr>)))"

text \<open>The next operation of a rank and its state afterwards (\<open>None\<close>: the rank is finished).\<close>

definition mock_advance :: "int \<Rightarrow> rank_state \<Rightarrow> codes_workload_op \<times> rank_state option" where
  "mock_advance rnk rs =
     (let p = rs_params rs; f = get_file_id p rnk;
          off = word_of_int (request_size p) * word_of_int (reqs_processed rs) in
      if \<not> has_opened rs then (CODES_WK_OPEN WK_POSIX f 1, Some (rs\<lparr>has_opened := True\<rparr>))
      else if reqs_processed rs = num_requests p
      then if \<not> has_closed rs then (CODES_WK_CLOSE WK_POSIX f, Some (rs\<lparr>has_closed := True\<rparr>))
           else (CODES_WK_END, None)
      else (if is_write p \<noteq> 0 then CODES_WK_WRITE WK_POSIX f off (word_of_int (request_size p))
            else CODES_WK_READ WK_POSIX f off (word_of_int (request_size p)),
            Some (rs\<lparr>reqs_processed := reqs_processed rs + 1\<rparr>)))"

definition iomock_workload_get_next ::
    "int \<Rightarrow> int \<Rightarrow> iomock_static \<Rightarrow> (codes_workload_op \<times> iomock_static) result" where
  "iomock_workload_get_next app_id rnk st =
     (case rank_tbl st of None \<Rightarrow> Inl NullDeref
      | Some t \<Rightarrow>
          bind_res (qhash_search rank_hash rank_tbl_compare t (rnk, app_id)) (\<lambda>r.
          case r of None \<Rightarrow> Inl TwError
          | Some rs \<Rightarrow>
              (case mock_advance rnk rs of
                 (x, Some rs') \<Rightarrow>
                   bind_res (qhash_change rank_hash rank_tbl_compare t (rnk, app_id) (\<lambda>_. rs')) (\<lambda>t'.
                     Inr (x, st\<lparr>rank_tbl := Some t'\<rparr>))
               | (x, None) \<Rightarrow>
                   bind_res (qhash_search_and_remove rank_hash rank_tbl_compare t (rnk, app_id)) (\<lambda>(_, t').
                     let n = num_qhash_entries st - 1 in
                     Inr (x, st\<lparr>rank_tbl := (if n = 0 then None else Some t'), num_qhash_entries := n\<rparr>)))))"

subsection \<open>The checkpoint workload\<close>

datatype checkpoint_status = CHECKPOINT_COMPUTE | CHECKPOINT_OPEN_FILE | CHECKPOINT_WRITE
  | CHECKPOINT_CLOSE_FILE | CHECKPOINT_INACTIVE

record checkpoint_wrkld_params =
  nprocs :: int
  checkpoint_sz :: real
  checkpoint_wr_bw :: real
  cp_total_checkpoints :: int
  mtti :: real

text \<open>The sizes of the current checkpoint are unset (\<open>None\<close>) until the first file is opened.\<close>

record checkpoint_state =
  cs_rank :: int
  cs_app_id :: int
  cs_status :: checkpoint_status
  checkpoint_interval :: real
  io_per_checkpoint :: int
  cur_checkpoint :: int
  cur_checkpoint_sz :: "int option"
  saved_cur_checkpoint_sz :: "int option"
  saved_prev_checkpoint_sz :: "int option"
  cs_total_checkpoints :: int

type_synonym checkpoint_static = "checkpoint_state qhash_table option"

definition checkpoint_state_compare :: "int \<times> int \<Rightarrow> checkpoint_state \<Rightarrow> bool" where
  "checkpoint_state_compare k tmp \<longleftrightarrow> cs_rank tmp = fst k \<and> cs_app_id tmp = snd k"

definition DEFAULT_WR_BUF_SIZE :: int where "DEFAULT_WR_BUF_SIZE = 16 * 1024 * 1024"
definition CHECKPOINT_HASH_TABLE_SIZE :: int where "CHECKPOINT_HASH_TABLE_SIZE = 251"

definition checkpoint_workload_read_config ::
    "config_handle \<Rightarrow> string \<Rightarrow> string option \<Rightarrow> int \<Rightarrow> checkpoint_wrkld_params result" where
  "checkpoint_workload_read_config h sec anno num_ranks =
     bind_res (configuration_get_value_double h sec ''checkpoint_sz'' anno) (\<lambda>(rc, sz).
     bind_res (c_assert (rc = 0)) (\<lambda>_.
     bind_res (configuration_get_value_double h sec ''checkpoint_wr_bw'' anno) (\<lambda>(rc, bw).
     bind_res (c_assert (rc = 0)) (\<lambda>_.
     bind_res (configuration_get_value_int h sec ''total_checkpoints'' anno) (\<lambda>(rc, tot).
     bind_res (c_assert (rc = 0)) (\<lambda>_.
     bind_res (configuration_get_value_double h sec ''mtti'' anno) (\<lambda>(rc, mt).
     bind_res (c_assert (rc = 0)) (\<lambda>_.
       Inr \<lparr>nprocs = num_ranks, checkpoint_sz = the sz, checkpoint_wr_bw = the bw,
            cp_total_checkpoints = the tot, mtti = the mt\<rparr>))))))))"

text \<open>The conversion of a \<open>double\<close> to an integer truncates towards zero. (Zero processes or a zero
  bandwidth give infinite sizes, whose conversion is undefined.)\<close>

definition double_to_int :: "real \<Rightarrow> int" where
  "double_to_int x = (if x < 0 then \<lceil>x\<rceil> else \<lfloor>x\<rfloor>)"

definition checkpoint_new :: "checkpoint_wrkld_params \<Rightarrow> int \<Rightarrow> int \<Rightarrow> checkpoint_state" where
  "checkpoint_new p app_id rnk =
     (let wr_time = checkpoint_sz p * 1024 / checkpoint_wr_bw p in
      \<lparr>cs_rank = rnk, cs_app_id = app_id, cs_status = CHECKPOINT_COMPUTE,
       checkpoint_interval = sqrt (2 * wr_time * (mtti p * 60 * 60)) - wr_time,
       io_per_checkpoint = double_to_int (checkpoint_sz p * 1024 ^ 4 / of_int (nprocs p)),
       cur_checkpoint = 1, cur_checkpoint_sz = None, saved_cur_checkpoint_sz = None,
       saved_prev_checkpoint_sz = None, cs_total_checkpoints = cp_total_checkpoints p\<rparr>)"

definition checkpoint_workload_load ::
    "checkpoint_wrkld_params option \<Rightarrow> int \<Rightarrow> int \<Rightarrow> checkpoint_static \<Rightarrow> (int \<times> checkpoint_static) result" where
  "checkpoint_workload_load params app_id rnk st =
     (case params of None \<Rightarrow> Inr (-1, st)
      | Some p \<Rightarrow>
          if app_id \<noteq> 0 then Inl TwError
          else if nprocs p = 0 \<or> checkpoint_wr_bw p = 0 then Inl DivByZero
          else let t = (case st of None \<Rightarrow> qhash_init CHECKPOINT_HASH_TABLE_SIZE | Some t \<Rightarrow> t) in
               bind_res (qhash_add rank_hash t (rnk, app_id) (checkpoint_new p app_id rnk)) (\<lambda>t'. Inr (0, Some t')))"

text \<open>The next operation of a rank, by its status.\<close>

definition checkpoint_advance :: "checkpoint_state \<Rightarrow> (codes_workload_op \<times> checkpoint_state) result" where
  "checkpoint_advance s =
     (let f = word_of_int (cur_checkpoint s) in
      case cs_status s of
        CHECKPOINT_COMPUTE \<Rightarrow>
          Inr (CODES_WK_DELAY (checkpoint_interval s), s\<lparr>cs_status := CHECKPOINT_OPEN_FILE\<rparr>)
      | CHECKPOINT_OPEN_FILE \<Rightarrow>
          Inr (CODES_WK_OPEN WK_POSIX f 1,
               s\<lparr>saved_prev_checkpoint_sz := cur_checkpoint_sz s, cur_checkpoint_sz := Some 0,
                 cs_status := CHECKPOINT_WRITE\<rparr>)
      | CHECKPOINT_WRITE \<Rightarrow>
          (case cur_checkpoint_sz s of None \<Rightarrow> Inl Uninitialised
           | Some cur \<Rightarrow>
               let remaining = io_per_checkpoint s - cur;
                   n = (if remaining \<ge> DEFAULT_WR_BUF_SIZE then DEFAULT_WR_BUF_SIZE else remaining) in
               Inr (CODES_WK_WRITE WK_POSIX f (word_of_int cur) (word_of_int n),
                    s\<lparr>saved_cur_checkpoint_sz := Some cur, cur_checkpoint_sz := Some (cur + n),
                      cs_status := (if cur + n = io_per_checkpoint s then CHECKPOINT_CLOSE_FILE else cs_status s)\<rparr>))
      | CHECKPOINT_CLOSE_FILE \<Rightarrow>
          Inr (CODES_WK_CLOSE WK_POSIX f,
               s\<lparr>cur_checkpoint := cur_checkpoint s + 1,
                 cs_status := (if cur_checkpoint s + 1 > cs_total_checkpoints s then CHECKPOINT_INACTIVE
                               else CHECKPOINT_COMPUTE)\<rparr>)
      | CHECKPOINT_INACTIVE \<Rightarrow> Inr (CODES_WK_END, s))"

definition checkpoint_workload_get_next ::
    "int \<Rightarrow> int \<Rightarrow> checkpoint_static \<Rightarrow> (codes_workload_op \<times> checkpoint_static) result" where
  "checkpoint_workload_get_next app_id rnk st =
     (case st of None \<Rightarrow> Inl NullDeref
      | Some t \<Rightarrow>
          bind_res (qhash_search rank_hash checkpoint_state_compare t (rnk, app_id)) (\<lambda>r.
          case r of None \<Rightarrow> Inr (CODES_WK_END, st)
          | Some s \<Rightarrow>
              bind_res (checkpoint_advance s) (\<lambda>(x, s').
              bind_res (qhash_change rank_hash checkpoint_state_compare t (rnk, app_id) (\<lambda>_. s')) (\<lambda>t'.
                Inr (x, Some t')))))"

text \<open>The reverse function, which looks at the status that \<open>get_next\<close> has already advanced.\<close>

definition checkpoint_retract :: "checkpoint_state \<Rightarrow> checkpoint_state" where
  "checkpoint_retract s =
     (case cs_status s of
        CHECKPOINT_COMPUTE \<Rightarrow> s\<lparr>cs_status := CHECKPOINT_COMPUTE\<rparr>
      | CHECKPOINT_OPEN_FILE \<Rightarrow>
          s\<lparr>cs_status := CHECKPOINT_OPEN_FILE, cur_checkpoint_sz := saved_prev_checkpoint_sz s\<rparr>
      | CHECKPOINT_WRITE \<Rightarrow> s\<lparr>cs_status := CHECKPOINT_WRITE, cur_checkpoint_sz := saved_cur_checkpoint_sz s\<rparr>
      | CHECKPOINT_CLOSE_FILE \<Rightarrow>
          s\<lparr>cur_checkpoint := cur_checkpoint s - 1, cs_status := CHECKPOINT_CLOSE_FILE\<rparr>
      | CHECKPOINT_INACTIVE \<Rightarrow> s\<lparr>cs_status := CHECKPOINT_INACTIVE\<rparr>)"

definition checkpoint_workload_get_next_rc2 ::
    "int \<Rightarrow> int \<Rightarrow> checkpoint_static \<Rightarrow> checkpoint_static result" where
  "checkpoint_workload_get_next_rc2 app_id rnk st =
     (case st of None \<Rightarrow> Inl NullDeref
      | Some t \<Rightarrow>
          bind_res (qhash_search rank_hash checkpoint_state_compare t (rnk, app_id)) (\<lambda>r.
          case r of None \<Rightarrow> Inr st
          | Some s \<Rightarrow>
              bind_res (qhash_change rank_hash checkpoint_state_compare t (rnk, app_id) checkpoint_retract) (\<lambda>t'.
                Inr (Some t'))))"

subsection \<open>The test workload\<close>

record wkload_stream_state =
  ws_rank :: int
  op_array :: "codes_workload_op list"
  op_array_index :: nat

definition test_ops :: "int \<Rightarrow> codes_workload_op list" where
  "test_ops rnk = (if rnk = 0 then [CODES_WK_DELAY 43] else []) @
     [CODES_WK_OPEN WK_POSIX 3 1, CODES_WK_BARRIER (-1) 0]"

definition test_workload_load ::
    "int \<Rightarrow> int \<Rightarrow> wkload_stream_state list \<Rightarrow> (int \<times> wkload_stream_state list) result" where
  "test_workload_load app_id rnk wkload_streams =
     Inr (0, \<lparr>ws_rank = rnk, op_array = test_ops rnk, op_array_index = 0\<rparr> # wkload_streams)"

text \<open>The first stream of the rank moves on, or is taken out of the list at its end.\<close>

fun test_workload_get_next ::
    "int \<Rightarrow> int \<Rightarrow> wkload_stream_state list \<Rightarrow> (codes_workload_op \<times> wkload_stream_state list) result" where
  "test_workload_get_next app_id rnk [] = Inr (CODES_WK_END, [])"
| "test_workload_get_next app_id rnk (s # ss) =
     (if ws_rank s = rnk
      then if op_array_index s < length (op_array s)
           then Inr (op_array s ! op_array_index s, s\<lparr>op_array_index := op_array_index s + 1\<rparr> # ss)
           else Inr (CODES_WK_END, ss)
      else bind_res (test_workload_get_next app_id rnk ss) (\<lambda>(x, ss'). Inr (x, s # ss')))"

subsection \<open>The table of methods\<close>

record wk_static =
  st_mock :: iomock_static
  st_checkpoint :: checkpoint_static
  st_test :: "wkload_stream_state list"

datatype wk_params = P_mock iomock_params | P_checkpoint checkpoint_wrkld_params

text \<open>A generator works on its part of the static variables.\<close>

definition iomock_workload_method :: "(wk_static, wk_params) codes_workload_method" where
  "iomock_workload_method =
     \<lparr>method_name = ''iomock_workload'',
      wm_read_config = Some (\<lambda>h sec anno n. bind_res (iomock_workload_read_config h sec anno n) (\<lambda>p. Inr (P_mock p))),
      wm_load = (\<lambda>p a r st. case p of Some (P_mock q) \<Rightarrow>
          bind_res (iomock_workload_load q a r (st_mock st)) (\<lambda>(rc, s). Inr (rc, st\<lparr>st_mock := s\<rparr>)) | _ \<Rightarrow> Inl NullDeref),
      wm_get_next = (\<lambda>a r st. bind_res (iomock_workload_get_next a r (st_mock st)) (\<lambda>(x, s). Inr (x, st\<lparr>st_mock := s\<rparr>))),
      wm_get_next_rc2 = None, wm_get_rank_cnt = None, wm_finalize = None, wm_get_final_iteration = None\<rparr>"

definition checkpoint_workload_method :: "(wk_static, wk_params) codes_workload_method" where
  "checkpoint_workload_method =
     \<lparr>method_name = ''checkpoint_io_workload'',
      wm_read_config = Some (\<lambda>h sec anno n. bind_res (checkpoint_workload_read_config h sec anno n) (\<lambda>p. Inr (P_checkpoint p))),
      wm_load = (\<lambda>p a r st. case p of Some (P_mock q) \<Rightarrow> Inl NullDeref
        | _ \<Rightarrow> bind_res (checkpoint_workload_load (case p of Some (P_checkpoint q) \<Rightarrow> Some q | _ \<Rightarrow> None) a r (st_checkpoint st))
                 (\<lambda>(rc, s). Inr (rc, st\<lparr>st_checkpoint := s\<rparr>))),
      wm_get_next = (\<lambda>a r st. bind_res (checkpoint_workload_get_next a r (st_checkpoint st)) (\<lambda>(x, s). Inr (x, st\<lparr>st_checkpoint := s\<rparr>))),
      wm_get_next_rc2 = Some (\<lambda>a r st. bind_res (checkpoint_workload_get_next_rc2 a r (st_checkpoint st)) (\<lambda>s. Inr (st\<lparr>st_checkpoint := s\<rparr>))),
      wm_get_rank_cnt = None, wm_finalize = None, wm_get_final_iteration = None\<rparr>"

definition test_workload_method :: "(wk_static, wk_params) codes_workload_method" where
  "test_workload_method =
     \<lparr>method_name = ''test'', wm_read_config = None,
      wm_load = (\<lambda>p a r st. bind_res (test_workload_load a r (st_test st)) (\<lambda>(rc, s). Inr (rc, st\<lparr>st_test := s\<rparr>))),
      wm_get_next = (\<lambda>a r st. bind_res (test_workload_get_next a r (st_test st)) (\<lambda>(x, s). Inr (x, st\<lparr>st_test := s\<rparr>))),
      wm_get_next_rc2 = None, wm_get_rank_cnt = None, wm_finalize = None, wm_get_final_iteration = None\<rparr>"

text \<open>The default table; the methods in the middle (iolang and those that depend on the build) are
  an argument.\<close>

definition method_array_default ::
    "(wk_static, wk_params) codes_workload_method list \<Rightarrow> (wk_static, wk_params) codes_workload_method list" where
  "method_array_default others = test_workload_method # others @ [checkpoint_workload_method, iomock_workload_method]"

subsection \<open>The generators keep their contract\<close>

definition mock_key :: "rank_state \<Rightarrow> int \<times> int" where
  "mock_key b = (rs_rank b, rs_app_id b)"

definition checkpoint_key :: "checkpoint_state \<Rightarrow> int \<times> int" where
  "checkpoint_key b = (cs_rank b, cs_app_id b)"

interpretation mt: hash_client rank_hash rank_tbl_compare mock_key
  using rank_hash_range by unfold_locales (auto simp: rank_tbl_compare_def mock_key_def)

interpretation ct: hash_client rank_hash checkpoint_state_compare checkpoint_key
  using rank_hash_range by unfold_locales (auto simp: checkpoint_state_compare_def checkpoint_key_def)

text \<open>What is left of a rank: the states stored for it.\<close>

definition mock_view :: "int \<Rightarrow> int \<Rightarrow> iomock_static \<Rightarrow> rank_state list" where
  "mock_view a r st = (case rank_tbl st of None \<Rightarrow> []
     | Some t \<Rightarrow> if mt.table_ok t \<and> num_qhash_entries st = int (length (concat t)) then mt.entries_of t (r, a) else [])"

definition mock_step :: "rank_state list \<Rightarrow> (codes_workload_op \<times> rank_state list) option" where
  "mock_step v = (case v of [] \<Rightarrow> None
     | rs # rest \<Rightarrow> (case mock_advance (rs_rank rs) rs of
         (x, None) \<Rightarrow> Some (x, rest) | (x, Some rs') \<Rightarrow> Some (x, rs' # rest)))"

lemma mock_advance_key: "mock_advance r rs = (x, Some rs') \<Longrightarrow> mock_key rs' = mock_key rs"
  by (auto simp: mock_advance_def mock_key_def Let_def split: if_splits)

lemma entries_key: "mt.entries_of t k = e # es \<Longrightarrow> mock_key e = k"
  unfolding mt.entries_of_def by (metis (mono_tags, lifting) filter_eq_ConsD)

lemma concat_empty_entries: "length (concat t) = 0 \<Longrightarrow> mt.entries_of t k = []"
  by (auto simp: mt.entries_of_def filter_empty_conv)

lemma mock_next:
  assumes "mock_step (mock_view a r st) = Some (x, v)"
  shows "\<exists>st'. iomock_workload_get_next a r st = Inr (x, st') \<and> mock_view a r st' = v \<and>
    (\<forall>a' r'. (a', r') \<noteq> (a, r) \<longrightarrow> mock_view a' r' st' = mock_view a' r' st)"
proof -
  obtain t rs rest where t: "rank_tbl st = Some t" "mt.table_ok t" "num_qhash_entries st = int (length (concat t))"
    "mt.entries_of t (r, a) = rs # rest"
    using assms by (auto simp: mock_step_def mock_view_def split: option.splits if_splits list.splits)
  have key: "mock_key rs = (r, a)" using entries_key [OF t(4)] .
  then have rnk: "rs_rank rs = r" by (simp add: mock_key_def)
  have s: "qhash_search rank_hash rank_tbl_compare t (r, a) = Inr (Some rs)"
    using mt.search_entries [OF t(2), of "(r, a)"] t(4) by simp
  obtain adv where adv: "mock_advance r rs = (x, adv)" "v = (case adv of None \<Rightarrow> rest | Some rs' \<Rightarrow> rs' # rest)"
    using assms t rnk by (cases "mock_advance r rs") (auto simp: mock_step_def mock_view_def split: option.splits)
  show ?thesis
  proof (cases adv)
    case (Some rs')
    then have "mock_key rs' = (r, a)" using mock_advance_key [of r rs x rs'] adv(1) key by simp
    then obtain t' where t': "qhash_change rank_hash rank_tbl_compare t (r, a) (\<lambda>_. rs') = Inr t'" "mt.table_ok t'"
      "mt.entries_of t' (r, a) = rs' # rest" "\<And>k'. k' \<noteq> (r, a) \<Longrightarrow> mt.entries_of t' k' = mt.entries_of t k'"
      "length (concat t') = length (concat t)"
      using mt.change_entries [OF t(2,4), of "\<lambda>_. rs'"] by metis
    have "iomock_workload_get_next a r st = Inr (x, st\<lparr>rank_tbl := Some t'\<rparr>)"
      using t(1) s adv(1) Some t'(1) by (simp add: iomock_workload_get_next_def)
    then show ?thesis using t t' adv(2) Some by (auto simp: mock_view_def)
  next
    case None
    obtain t' where t': "qhash_search_and_remove rank_hash rank_tbl_compare t (r, a) = Inr (Some rs, t')" "mt.table_ok t'"
      "mt.entries_of t' (r, a) = rest" "\<And>k'. k' \<noteq> (r, a) \<Longrightarrow> mt.entries_of t' k' = mt.entries_of t k'"
      using mt.remove_entries [OF t(2), of "(r, a)"] t(4) by (metis list.sel(3) list.simps(5))
    have len: "length (concat t) = Suc (length (concat t'))" using mt.remove_length [OF t(2,4) t'(1)] .
    let ?n = "num_qhash_entries st - 1"
    have "iomock_workload_get_next a r st =
        Inr (x, st\<lparr>rank_tbl := (if ?n = 0 then None else Some t'), num_qhash_entries := ?n\<rparr>)"
      using t(1) s adv(1) None t'(1) by (simp add: iomock_workload_get_next_def)
    moreover have "mock_view a' r' (st\<lparr>rank_tbl := (if ?n = 0 then None else Some t'), num_qhash_entries := ?n\<rparr>) =
        mt.entries_of t' (r', a')" for a' r'
      using len t(3) t'(2) concat_empty_entries [of t'] by (simp add: mock_view_def)
    moreover have "mock_view a' r' st = mt.entries_of t (r', a')" for a' r' using t by (simp add: mock_view_def)
    ultimately show ?thesis using t'(3,4) adv(2) None by auto
  qed
qed

interpretation mock: workload_generator "wm_get_next iomock_workload_method" "\<lambda>a r st. mock_view a r (st_mock st)" mock_step
proof
  fix a r :: int and st :: wk_static and x v
  assume "mock_step (mock_view a r (st_mock st)) = Some (x, v)"
  from mock_next [OF this] obtain s where s: "iomock_workload_get_next a r (st_mock st) = Inr (x, s)" "mock_view a r s = v"
    "\<forall>a' r'. (a', r') \<noteq> (a, r) \<longrightarrow> mock_view a' r' s = mock_view a' r' (st_mock st)" by blast
  then show "\<exists>st'. wm_get_next iomock_workload_method a r st = Inr (x, st') \<and> mock_view a r (st_mock st') = v \<and>
      (\<forall>a' r'. (a', r') \<noteq> (a, r) \<longrightarrow> mock_view a' r' (st_mock st') = mock_view a' r' (st_mock st))"
    by (intro exI [of _ "st\<lparr>st_mock := s\<rparr>"]) (simp add: iomock_workload_method_def)
qed

text \<open>The checkpoint workload answers for ranks that it does not know, once its table exists.\<close>

definition checkpoint_view :: "int \<Rightarrow> int \<Rightarrow> checkpoint_static \<Rightarrow> checkpoint_state list option" where
  "checkpoint_view a r st = (case st of None \<Rightarrow> None
     | Some t \<Rightarrow> if ct.table_ok t then Some (ct.entries_of t (r, a)) else None)"

definition checkpoint_step ::
    "checkpoint_state list option \<Rightarrow> (codes_workload_op \<times> checkpoint_state list option) option" where
  "checkpoint_step v = (case v of None \<Rightarrow> None | Some [] \<Rightarrow> Some (CODES_WK_END, v)
     | Some (s # rest) \<Rightarrow> (case checkpoint_advance s of Inl _ \<Rightarrow> None | Inr (x, s') \<Rightarrow> Some (x, Some (s' # rest))))"

lemma checkpoint_advance_key: "checkpoint_advance s = Inr (x, s') \<Longrightarrow> checkpoint_key s' = checkpoint_key s"
  by (auto simp: checkpoint_advance_def checkpoint_key_def Let_def split: checkpoint_status.splits option.splits if_splits)

lemma checkpoint_next:
  assumes "checkpoint_step (checkpoint_view a r st) = Some (x, v)"
  shows "\<exists>st'. checkpoint_workload_get_next a r st = Inr (x, st') \<and> checkpoint_view a r st' = v \<and>
    (\<forall>a' r'. (a', r') \<noteq> (a, r) \<longrightarrow> checkpoint_view a' r' st' = checkpoint_view a' r' st)"
proof -
  obtain t where t: "st = Some t" "ct.table_ok t"
    using assms by (auto simp: checkpoint_step_def checkpoint_view_def split: option.splits if_splits)
  note srch = ct.search_entries [OF t(2), of "(r, a)"]
  show ?thesis
  proof (cases "ct.entries_of t (r, a)")
    case Nil
    then show ?thesis using assms t srch
      by (auto simp: checkpoint_step_def checkpoint_view_def checkpoint_workload_get_next_def)
  next
    case (Cons s rest)
    obtain s' where s': "checkpoint_advance s = Inr (x, s')" "v = Some (s' # rest)"
      using assms t Cons by (auto simp: checkpoint_step_def checkpoint_view_def split: sum.splits)
    have "checkpoint_key s = (r, a)"
      using Cons unfolding ct.entries_of_def by (metis (mono_tags, lifting) filter_eq_ConsD)
    then have "checkpoint_key s' = (r, a)" using checkpoint_advance_key [OF s'(1)] by simp
    then obtain t' where t': "qhash_change rank_hash checkpoint_state_compare t (r, a) (\<lambda>_. s') = Inr t'" "ct.table_ok t'"
      "ct.entries_of t' (r, a) = s' # rest" "\<And>k'. k' \<noteq> (r, a) \<Longrightarrow> ct.entries_of t' k' = ct.entries_of t k'"
      using ct.change_entries [OF t(2) Cons, of "\<lambda>_. s'"] by metis
    have "checkpoint_workload_get_next a r st = Inr (x, Some t')"
      using t(1) srch Cons s'(1) t'(1) by (simp add: checkpoint_workload_get_next_def)
    then show ?thesis using t t' s'(2) by (auto simp: checkpoint_view_def)
  qed
qed

interpretation chk: workload_generator "wm_get_next checkpoint_workload_method"
  "\<lambda>a r st. checkpoint_view a r (st_checkpoint st)" checkpoint_step
proof
  fix a r :: int and st :: wk_static and x v
  assume "checkpoint_step (checkpoint_view a r (st_checkpoint st)) = Some (x, v)"
  from checkpoint_next [OF this] obtain s where s: "checkpoint_workload_get_next a r (st_checkpoint st) = Inr (x, s)"
    "checkpoint_view a r s = v"
    "\<forall>a' r'. (a', r') \<noteq> (a, r) \<longrightarrow> checkpoint_view a' r' s = checkpoint_view a' r' (st_checkpoint st)" by blast
  then show "\<exists>st'. wm_get_next checkpoint_workload_method a r st = Inr (x, st') \<and> checkpoint_view a r (st_checkpoint st') = v \<and>
      (\<forall>a' r'. (a', r') \<noteq> (a, r) \<longrightarrow> checkpoint_view a' r' (st_checkpoint st') = checkpoint_view a' r' (st_checkpoint st))"
    by (intro exI [of _ "st\<lparr>st_checkpoint := s\<rparr>"]) (simp add: checkpoint_workload_method_def)
qed

subsection \<open>What the mock workload issues\<close>

definition mock_request :: "iomock_params \<Rightarrow> int \<Rightarrow> nat \<Rightarrow> codes_workload_op" where
  "mock_request p r i =
     (let off = word_of_int (request_size p) * word_of_int (int i); n = word_of_int (request_size p) in
      if is_write p \<noteq> 0 then CODES_WK_WRITE WK_POSIX (get_file_id p r) off n
      else CODES_WK_READ WK_POSIX (get_file_id p r) off n)"

definition mock_ops :: "iomock_params \<Rightarrow> int \<Rightarrow> codes_workload_op list" where
  "mock_ops p r = CODES_WK_OPEN WK_POSIX (get_file_id p r) 1 #
     map (mock_request p r) [0..<nat (num_requests p)] @ [CODES_WK_CLOSE WK_POSIX (get_file_id p r), CODES_WK_END]"

definition mock_busy :: "int \<Rightarrow> int \<Rightarrow> iomock_params \<Rightarrow> nat \<Rightarrow> rank_state" where
  "mock_busy a r p i = (new_rank a r p)\<lparr>has_opened := True, reqs_processed := int i\<rparr>"

lemma mock_steps:
  "mock_step [new_rank a r p] = Some (CODES_WK_OPEN WK_POSIX (get_file_id p r) 1, [mock_busy a r p 0])"
  "int k < num_requests p \<Longrightarrow> mock_step [mock_busy a r p k] = Some (mock_request p r k, [mock_busy a r p (Suc k)])"
  "int k = num_requests p \<Longrightarrow> mock_step [mock_busy a r p k] =
     Some (CODES_WK_CLOSE WK_POSIX (get_file_id p r), [(mock_busy a r p k)\<lparr>has_closed := True\<rparr>])"
  "int k = num_requests p \<Longrightarrow> mock_step [(mock_busy a r p k)\<lparr>has_closed := True\<rparr>] = Some (CODES_WK_END, [])"
  by (simp_all add: mock_step_def mock_advance_def mock_busy_def new_rank_def mock_request_def Let_def)

lemma mock_requests:
  assumes "int k \<le> num_requests p"
  shows "mock.gen_ops k [mock_busy a r p 0] = Some (map (mock_request p r) [0..<k], [mock_busy a r p k])"
  using assms by (induction k) (simp_all add: mock_steps)

lemma mock_stream:
  assumes "0 \<le> num_requests p"
  shows "mock.gen_ops (length (mock_ops p r)) [new_rank a r p] = Some (mock_ops p r, [])"
proof -
  let ?n = "nat (num_requests p)" and ?f = "get_file_id p r"
  have o: "mock.gen_ops 1 [new_rank a r p] = Some ([CODES_WK_OPEN WK_POSIX ?f 1], [mock_busy a r p 0])"
    by (simp add: mock_steps)
  have q: "mock.gen_ops ?n [mock_busy a r p 0] = Some (map (mock_request p r) [0..<?n], [mock_busy a r p ?n])"
    using mock_requests [of ?n p] assms by simp
  have e: "mock.gen_ops 2 [mock_busy a r p ?n] = Some ([CODES_WK_CLOSE WK_POSIX ?f, CODES_WK_END], [])"
    using assms by (simp add: numeral_2_eq_2 mock_steps)
  have "mock.gen_ops (1 + (?n + 2)) [new_rank a r p] = Some (mock_ops p r, [])"
    using mock.gen_ops_add [OF o, of "?n + 2"] mock.gen_ops_add [OF q, of 2] e by (simp add: mock_ops_def)
  then show ?thesis by (simp add: mock_ops_def)
qed

subsection \<open>Loading the ranks of an application\<close>

fun load_ranks ::
    "('st, 'p) codes_workload_method list \<Rightarrow> string \<Rightarrow> 'p option \<Rightarrow> int \<Rightarrow> int list \<Rightarrow> ('st, 'p) workloads \<Rightarrow>
     ('st, 'p) workloads result" where
  "load_ranks dflt ty p a [] w = Inr w"
| "load_ranks dflt ty p a (r # rs) w =
     bind_res (codes_workload_load dflt ty p a r w) (\<lambda>(i, w').
       if i < 0 then Inl AssertFailed else load_ranks dflt ty p a rs w')"

definition workloads_start :: "(wk_static, wk_params) workloads" where
  "workloads_start = \<lparr>is_workloads_init = False, user_methods = [], method_array = [], ranks = [],
     gen_state = \<lparr>st_mock = \<lparr>app_params_list = [], rank_tbl = None, num_qhash_entries = 0\<rparr>, st_checkpoint = None, st_test = []\<rparr>\<rparr>"

text \<open>The ranks \<open>done\<close> of application \<open>a\<close> are loaded, with parameters \<open>p\<close>.\<close>

definition mock_loaded ::
    "(wk_static, wk_params) codes_workload_method list \<Rightarrow> iomock_params \<Rightarrow> int \<Rightarrow> int set \<Rightarrow> (wk_static, wk_params) workloads \<Rightarrow> bool" where
  "mock_loaded others p a done w \<longleftrightarrow>
     method_array (init_workload_methods (method_array_default others) w) = method_array_default others \<and>
     (\<forall>r. get_queue (ranks w) a r = (if r \<in> done then Some [] else None)) \<and>
     (\<forall>r. mock_view a r (st_mock (gen_state w)) = (if r \<in> done then [new_rank a r p] else [])) \<and>
     (case rank_tbl (st_mock (gen_state w)) of
        None \<Rightarrow> app_params_list (st_mock (gen_state w)) = [] \<and> num_qhash_entries (st_mock (gen_state w)) = 0
      | Some t \<Rightarrow> app_params_list (st_mock (gen_state w)) = [(a, p)] \<and> mt.table_ok t \<and>
          num_qhash_entries (st_mock (gen_state w)) = int (length (concat t)))"

definition params_ok :: "iomock_params \<Rightarrow> bool" where
  "params_ok p \<longleftrightarrow> 0 \<le> num_requests p \<and> 0 \<le> rank_table_size p \<and> rank_table_size p < 2 ^ 31"

lemma params_eq_refl [simp]: "params_eq p p"
  by (simp add: params_eq_def)

lemma mock_load_static:
  assumes p: "params_ok p" and view: "\<forall>r'. mock_view a r' st = (if r' \<in> done then [new_rank a r' p] else [])"
    and tbl: "case rank_tbl st of None \<Rightarrow> app_params_list st = [] \<and> num_qhash_entries st = 0
      | Some t \<Rightarrow> app_params_list st = [(a, p)] \<and> mt.table_ok t \<and> num_qhash_entries st = int (length (concat t))"
    and r: "r \<notin> done"
  shows "\<exists>t. iomock_workload_load p a r st = Inr (0, st\<lparr>app_params_list := [(a, p)], rank_tbl := Some t,
      num_qhash_entries := int (length (concat t))\<rparr>) \<and> mt.table_ok t \<and>
    (\<forall>r'. mt.entries_of t (r', a) = (if r' \<in> insert r done then [new_rank a r' p] else []))"
proof -
  define n where "n = (if rank_table_size p \<noteq> 0 then rank_table_size p else DEFAULT_HASH_TBL_SIZE)"
  have n: "0 < n" "n < 2 ^ 31" using p by (auto simp: n_def params_ok_def DEFAULT_HASH_TBL_SIZE_def)
  define t where "t = (case rank_tbl st of None \<Rightarrow> qhash_init n | Some t \<Rightarrow> t)"
  have t: "mt.table_ok t" "num_qhash_entries st = int (length (concat t))"
    "\<forall>r'. mt.entries_of t (r', a) = (if r' \<in> done then [new_rank a r' p] else [])"
  proof -
    have "r' \<notin> done" if "rank_tbl st = None" for r'
      using view [rule_format, of r'] that by (auto simp: mock_view_def split: if_splits)
    moreover have "length (concat (qhash_init n :: rank_state qhash_table)) = 0" by (simp add: qhash_init_def)
    ultimately show "mt.table_ok t" "num_qhash_entries st = int (length (concat t))"
      "\<forall>r'. mt.entries_of t (r', a) = (if r' \<in> done then [new_rank a r' p] else [])"
      using tbl view mt.init_entries [OF n] by (cases "rank_tbl st"; simp add: t_def mock_view_def)+
  qed
  have "mock_key (new_rank a r p) = (r, a)" by (simp add: mock_key_def new_rank_def)
  then obtain t' where t': "qhash_add rank_hash t (r, a) (new_rank a r p) = Inr t'" "mt.table_ok t'"
    "mt.entries_of t' (r, a) = mt.entries_of t (r, a) @ [new_rank a r p]"
    "\<And>k'. k' \<noteq> (r, a) \<Longrightarrow> mt.entries_of t' k' = mt.entries_of t k'"
    using mt.add_entries [OF t(1)] by metis
  note len = mt.add_length [OF t(1) t'(1)]
  have fp: "find_params (app_params_list st) a p = Inr (if rank_tbl st = None then None else Some p)"
    "(if rank_tbl st = None then app_params_list st @ [(a, p)] else app_params_list st) = [(a, p)]"
    using tbl by (auto split: option.splits)
  have "iomock_workload_load p a r st = Inr (0, st\<lparr>app_params_list := [(a, p)], rank_tbl := Some t',
      num_qhash_entries := int (length (concat t'))\<rparr>)"
    using fp t'(1) len t(2) unfolding iomock_workload_load_def n_def [symmetric] t_def [symmetric]
    by (cases "rank_tbl st") (simp_all add: Let_def)
  moreover have "\<forall>r'. mt.entries_of t' (r', a) = (if r' \<in> insert r done then [new_rank a r' p] else [])"
  proof
    show "mt.entries_of t' (r', a) = (if r' \<in> insert r done then [new_rank a r' p] else [])" for r'
      using t'(3) t'(4) [of "(r', a)"] t(3) r by (cases "r' = r") auto
  qed
  ultimately show ?thesis using t'(2) by blast
qed

lemma find_iomock:
  assumes "\<forall>m \<in> set others. method_name m \<noteq> ''iomock_workload''"
  shows "find_method (method_array_default others) ''iomock_workload'' 0 = Some (length others + 2, iomock_workload_method)"
proof -
  have "find_method (others @ [checkpoint_workload_method, iomock_workload_method]) ''iomock_workload'' i =
      Some (i + length others + 1, iomock_workload_method)" for i
    using assms by (induction others arbitrary: i) (auto simp: checkpoint_workload_method_def iomock_workload_method_def)
  from this [of 1] show ?thesis by (simp add: method_array_default_def test_workload_method_def)
qed

lemma mock_load:
  assumes o: "\<forall>m \<in> set others. method_name m \<noteq> ''iomock_workload''" and p: "params_ok p"
    and w: "mock_loaded others p a done w" and r: "r \<notin> done"
  shows "\<exists>w'. codes_workload_load (method_array_default others) ''iomock_workload'' (Some (P_mock p)) a r w =
    Inr (int (length others) + 2, w') \<and> mock_loaded others p a (insert r done) w'"
proof -
  let ?w = "init_workload_methods (method_array_default others) w" and ?st = "st_mock (gen_state w)"
  have i: "method_array ?w = method_array_default others" "gen_state ?w = gen_state w" "ranks ?w = ranks w" "is_workloads_init ?w"
    using w by (simp_all add: mock_loaded_def init_workload_methods_def)
  obtain t where t: "iomock_workload_load p a r ?st = Inr (0, ?st\<lparr>app_params_list := [(a, p)], rank_tbl := Some t,
      num_qhash_entries := int (length (concat t))\<rparr>)" "mt.table_ok t"
    "\<forall>r'. mt.entries_of t (r', a) = (if r' \<in> insert r done then [new_rank a r' p] else [])"
    using mock_load_static [OF p _ _ r, of a ?st] w by (auto simp: mock_loaded_def)
  let ?w' = "?w\<lparr>gen_state := (gen_state w)\<lparr>st_mock := ?st\<lparr>app_params_list := [(a, p)], rank_tbl := Some t,
      num_qhash_entries := int (length (concat t))\<rparr>\<rparr>, ranks := track_rank (ranks w) a r\<rparr>"
  have "codes_workload_load (method_array_default others) ''iomock_workload'' (Some (P_mock p)) a r w =
      Inr (int (length others) + 2, ?w')"
    using find_iomock [OF o] i t(1) by (simp add: codes_workload_load_def iomock_workload_method_def Let_def)
  moreover have "mock_loaded others p a (insert r done) ?w'"
    using w i t(2,3) r by (auto simp: mock_loaded_def track_rank_def init_workload_methods_def mock_view_def)
  ultimately show ?thesis by blast
qed

lemma mock_load_ranks:
  assumes "\<forall>m \<in> set others. method_name m \<noteq> ''iomock_workload''" and "params_ok p"
    and "mock_loaded others p a done w" and "distinct rs" and "set rs \<inter> done = {}"
  shows "\<exists>w'. load_ranks (method_array_default others) ''iomock_workload'' (Some (P_mock p)) a rs w = Inr w' \<and>
    mock_loaded others p a (set rs \<union> done) w' \<and> (rs \<noteq> [] \<longrightarrow> is_workloads_init w')"
  using assms(3-5)
proof (induction rs arbitrary: w "done")
  case (Cons r rs)
  obtain w1 where w1: "codes_workload_load (method_array_default others) ''iomock_workload'' (Some (P_mock p)) a r w =
    Inr (int (length others) + 2, w1)" "mock_loaded others p a (insert r done) w1"
    using mock_load [OF assms(1,2) Cons.prems(1), of r] Cons.prems(3) by auto
  have init: "is_workloads_init w1"
    using w1(1) by (auto simp: codes_workload_load_def Let_def init_workload_methods_def result_iff split: option.splits if_splits)
  obtain w' where w': "load_ranks (method_array_default others) ''iomock_workload'' (Some (P_mock p)) a rs w1 = Inr w'"
    "mock_loaded others p a (set rs \<union> insert r done) w'" "rs \<noteq> [] \<longrightarrow> is_workloads_init w'"
    using Cons.IH [OF w1(2)] Cons.prems(2,3) by auto
  then show ?case using w1(1) init by (cases rs) auto
qed auto

subsection \<open>Properties\<close>

lemma start_loaded: "mock_loaded others p a {} workloads_start"
  by (simp add: mock_loaded_def workloads_start_def init_workload_methods_def mock_view_def)

text \<open>C26: Operations and rollback of the mock workload: load any set of ranks of an application, then
  let the model ask for operations and take them back in any interleaving, as long as it takes
  back only what is in force and no rank has more operations in force than the workload has.
  Every call succeeds, and at each moment the operations in force of a rank are a beginning of
  its workload: open, the requests at consecutive offsets, close, end, whatever was rolled back
  and issued again in between.\<close>

theorem iomock_replays:
  assumes others: "\<forall>m \<in> set others. method_name m \<noteq> ''iomock_workload''" and p: "params_ok p"
    and rs: "distinct rs" "rs \<noteq> []"
    and legal: "legal_steps (\<lambda>b r n. b = a \<and> r \<in> set rs \<and> n < length (mock_ops p r)) xs (\<lambda>b r. 0)"
  shows "\<exists>w w' h. load_ranks (method_array_default others) ''iomock_workload'' (Some (P_mock p)) a rs workloads_start = Inr w \<and>
    run_workload (int (length others) + 2) xs w (\<lambda>b r. []) = Inr (w', h) \<and>
    (\<forall>r \<in> set rs. \<exists>n. rev (h a r) = take n (mock_ops p r))"
proof -
  obtain w where w: "load_ranks (method_array_default others) ''iomock_workload'' (Some (P_mock p)) a rs workloads_start = Inr w"
    "mock_loaded others p a (set rs) w" "is_workloads_init w"
    using mock_load_ranks [OF others p start_loaded rs(1)] rs(2) by auto
  let ?v0 = "\<lambda>b r. [new_rank b r p]" and ?T = "{a} \<times> set rs"
  have rep: "mock.replays ?v0 ?T w (\<lambda>b r. [])"
    using w(2) by (auto simp: mock.replays_def mock_loaded_def)
  have pre: "\<exists>v. mock.gen_ops k (?v0 b r) = Some (take k (mock_ops p r), v)" if "k \<le> length (mock_ops p r)" for k b r
    using mock.gen_ops_prefix [OF mock_stream that] p by (auto simp: params_ok_def)
  have "mock.avail_in ?v0 ?T b r n" if "b = a \<and> r \<in> set rs \<and> n < length (mock_ops p r)" for b r n
    unfolding mock.avail_in_def using that pre [of "Suc n" r b] by (metis Suc_leI mem_Sigma_iff option.distinct(1) singletonI)
  then have lg: "legal_steps (mock.avail_in ?v0 ?T) xs (\<lambda>b r. length ((\<lambda>b r. [] :: codes_workload_op list) b r))"
    using legal_steps_mono [OF legal] by simp
  have "method_array w = method_array_default others"
    using w(2,3) by (simp add: mock_loaded_def init_workload_methods_def)
  then have m: "method_at w (int (length others) + 2) = Inr iomock_workload_method"
    by (simp add: method_at_def method_array_default_def nat_add_distrib nth_append)
  from mock.run_replays [OF rep lg _ m refl] obtain w' h where
    r: "run_workload (int (length others) + 2) xs w (\<lambda>b r. []) = Inr (w', h)" "mock.replays ?v0 ?T w' h" by auto
  have "\<exists>n. rev (h a r) = take n (mock_ops p r)" if "r \<in> set rs" for r
    using mock.replays_prefix [OF r(2) _ mock_stream] p that by (auto simp: params_ok_def mock_step_def)
  then show ?thesis using w(1) r(1) by blast
qed

definition ex_mock :: iomock_params where
  "ex_mock = \<lparr>mp_file_id = 5, use_uniq_file_ids = 1, is_write = 1, num_requests = 2, request_size = 100, rank_table_size = 8\<rparr>"

theorem iomock_replays_witness:
  "\<exists>w w' h. load_ranks (method_array_default []) ''iomock_workload'' (Some (P_mock ex_mock)) 0 [0, 3] workloads_start = Inr w \<and>
    run_workload 2 [WNext 0 3, WNext 0 3, WUndo 0 3, WNext 0 0, WNext 0 3] w (\<lambda>b r. []) = Inr (w', h) \<and>
    (\<forall>r \<in> set [0, 3]. \<exists>n. rev (h 0 r) = take n (mock_ops ex_mock r))"
proof -
  have p: "params_ok ex_mock" by (simp add: params_ok_def ex_mock_def)
  have l: "length (mock_ops ex_mock r) = 5" for r by (simp add: mock_ops_def ex_mock_def)
  have "legal_steps (\<lambda>b r n. b = 0 \<and> r \<in> set [0, 3] \<and> n < length (mock_ops ex_mock r))
      [WNext 0 3, WNext 0 3, WUndo 0 3, WNext 0 0, WNext 0 3] (\<lambda>b r. 0)"
    by (simp add: l upd_count_def)
  from iomock_replays [of "[]", OF _ p _ _ this] show ?thesis by simp
qed

subsection \<open>What the checkpoint workload issues\<close>

text \<open>The writes of one checkpoint of \<open>io\<close> bytes: full buffers, and the rest.\<close>

definition cp_chunks :: "int \<Rightarrow> nat" where
  "cp_chunks io = (if io = 0 then 1 else nat ((io + DEFAULT_WR_BUF_SIZE - 1) div DEFAULT_WR_BUF_SIZE))"

definition cp_size :: "int \<Rightarrow> nat \<Rightarrow> int" where
  "cp_size io i = min DEFAULT_WR_BUF_SIZE (io - int i * DEFAULT_WR_BUF_SIZE)"

definition cp_write :: "int \<Rightarrow> int \<Rightarrow> nat \<Rightarrow> codes_workload_op" where
  "cp_write c io i = CODES_WK_WRITE WK_POSIX (word_of_int c) (word_of_int (int i * DEFAULT_WR_BUF_SIZE)) (word_of_int (cp_size io i))"

definition cp_round :: "real \<Rightarrow> int \<Rightarrow> int \<Rightarrow> codes_workload_op list" where
  "cp_round iv io c = [CODES_WK_DELAY iv, CODES_WK_OPEN WK_POSIX (word_of_int c) 1] @
     map (cp_write c io) [0..<cp_chunks io] @ [CODES_WK_CLOSE WK_POSIX (word_of_int c)]"

definition cp_ops :: "checkpoint_state \<Rightarrow> codes_workload_op list" where
  "cp_ops s = concat (map (\<lambda>i. cp_round (checkpoint_interval s) (io_per_checkpoint s) (1 + int i))
     [0..<nat (max 1 (cs_total_checkpoints s))])"

text \<open>The writes of a checkpoint cover it: their sizes add up to \<open>io\<close>.\<close>

lemma cp_chunks_bounds:
  assumes "0 \<le> io"
  shows "0 < cp_chunks io" and "(int (cp_chunks io) - 1) * DEFAULT_WR_BUF_SIZE \<le> io"
    and "io \<le> int (cp_chunks io) * DEFAULT_WR_BUF_SIZE"
    and "\<lbrakk>Suc i < cp_chunks io\<rbrakk> \<Longrightarrow> int (Suc i) * DEFAULT_WR_BUF_SIZE < io"
proof -
  define q where "q = (io + DEFAULT_WR_BUF_SIZE - 1) div DEFAULT_WR_BUF_SIZE"
  have q: "q * DEFAULT_WR_BUF_SIZE \<le> io + DEFAULT_WR_BUF_SIZE - 1" "io + DEFAULT_WR_BUF_SIZE - 1 < (q + 1) * DEFAULT_WR_BUF_SIZE"
    by (simp_all add: q_def DEFAULT_WR_BUF_SIZE_def)
  have c: "cp_chunks io = (if io = 0 then 1 else nat q)" by (simp add: cp_chunks_def q_def)
  have qpos: "0 < q" if "io \<noteq> 0" using q assms that by (auto simp: DEFAULT_WR_BUF_SIZE_def)
  show "0 < cp_chunks io" "(int (cp_chunks io) - 1) * DEFAULT_WR_BUF_SIZE \<le> io" "io \<le> int (cp_chunks io) * DEFAULT_WR_BUF_SIZE"
    using c q qpos assms by (auto simp: DEFAULT_WR_BUF_SIZE_def split: if_splits)
  show "int (Suc i) * DEFAULT_WR_BUF_SIZE < io" if "Suc i < cp_chunks io"
    using that c q qpos by (auto simp: DEFAULT_WR_BUF_SIZE_def split: if_splits)
qed

lemma cp_sizes_cover:
  assumes "0 \<le> io"
  shows "sum_list (map (cp_size io) [0..<cp_chunks io]) = io"
proof -
  have "sum_list (map (cp_size io) [0..<n]) = int n * DEFAULT_WR_BUF_SIZE" if "n < cp_chunks io" for n
    using that
  proof (induction n)
    case (Suc n)
    then show ?case using cp_chunks_bounds(4) [OF assms, of n] by (simp add: cp_size_def algebra_simps)
  qed simp
  from this [of "cp_chunks io - 1"] cp_chunks_bounds [OF assms] show ?thesis
    by (cases "cp_chunks io") (auto simp: cp_size_def algebra_simps)
qed

definition cp_same :: "checkpoint_state \<Rightarrow> checkpoint_state \<Rightarrow> bool" where
  "cp_same s s' \<longleftrightarrow> checkpoint_interval s' = checkpoint_interval s \<and> io_per_checkpoint s' = io_per_checkpoint s \<and>
     cs_total_checkpoints s' = cs_total_checkpoints s"

lemma cp_same_trans: "cp_same s s' \<Longrightarrow> cp_same s' s'' \<Longrightarrow> cp_same s s''"
  by (simp add: cp_same_def)

lemma cp_step: "checkpoint_advance s = Inr (x, s') \<Longrightarrow> chk.gen_ops 1 (Some [s]) = Some ([x], Some [s'])"
  by (simp add: checkpoint_step_def)

lemma cp_write_phase:
  assumes "cs_status s = CHECKPOINT_WRITE" and "cur_checkpoint_sz s = Some (int i * DEFAULT_WR_BUF_SIZE)"
    and "0 \<le> io_per_checkpoint s" and "i < cp_chunks (io_per_checkpoint s)"
  shows "\<exists>s'. chk.gen_ops (cp_chunks (io_per_checkpoint s) - i) (Some [s]) =
      Some (map (cp_write (cur_checkpoint s) (io_per_checkpoint s)) [i..<cp_chunks (io_per_checkpoint s)], Some [s']) \<and>
    cs_status s' = CHECKPOINT_CLOSE_FILE \<and> cur_checkpoint s' = cur_checkpoint s \<and> cp_same s s'"
  using assms
proof (induction "cp_chunks (io_per_checkpoint s) - i" arbitrary: s i)
  case (Suc k)
  let ?io = "io_per_checkpoint s" and ?B = DEFAULT_WR_BUF_SIZE
  let ?s = "s\<lparr>saved_cur_checkpoint_sz := Some (int i * ?B), cur_checkpoint_sz := Some (int i * ?B + cp_size ?io i),
    cs_status := (if int i * ?B + cp_size ?io i = ?io then CHECKPOINT_CLOSE_FILE else CHECKPOINT_WRITE)\<rparr>"
  have adv: "checkpoint_advance s = Inr (cp_write (cur_checkpoint s) ?io i, ?s)"
    using Suc.prems(1,2) by (simp add: checkpoint_advance_def cp_write_def cp_size_def Let_def min_def)
  note one = cp_step [OF adv]
  note b = cp_chunks_bounds [OF Suc.prems(3)]
  have k: "cp_chunks ?io - Suc i = k" using Suc.hyps(2) by simp
  have n: "cp_chunks ?io - i = 1 + k" "[i..<cp_chunks ?io] = i # [Suc i..<cp_chunks ?io]"
    using Suc.hyps(2) Suc.prems(4) by (simp_all add: upt_conv_Cons)
  show ?case
  proof (cases "Suc i < cp_chunks ?io")
    case True
    have sz: "cp_size ?io i = ?B" "int i * ?B + ?B \<noteq> ?io" using b(4) [OF True] by (auto simp: cp_size_def algebra_simps)
    have "\<exists>s'. chk.gen_ops (cp_chunks (io_per_checkpoint ?s) - Suc i) (Some [?s]) =
        Some (map (cp_write (cur_checkpoint ?s) (io_per_checkpoint ?s)) [Suc i..<cp_chunks (io_per_checkpoint ?s)], Some [s']) \<and>
      cs_status s' = CHECKPOINT_CLOSE_FILE \<and> cur_checkpoint s' = cur_checkpoint ?s \<and> cp_same ?s s'"
      using Suc.hyps(2) Suc.prems(3) True sz by (intro Suc.hyps(1)) (auto simp: algebra_simps)
    then obtain s' where s': "chk.gen_ops k (Some [?s]) = Some (map (cp_write (cur_checkpoint s) ?io) [Suc i..<cp_chunks ?io], Some [s'])"
      "cs_status s' = CHECKPOINT_CLOSE_FILE" "cur_checkpoint s' = cur_checkpoint s" "cp_same ?s s'"
      using k by auto
    then show ?thesis unfolding n using chk.gen_ops_add [OF one, of k] by (auto simp: cp_same_def)
  next
    case False
    then have last: "Suc i = cp_chunks ?io" "k = 0" using Suc.prems(4) n(1) by auto
    then have "int i * ?B \<le> ?io" "?io \<le> int i * ?B + ?B" using b(2,3) by (auto simp: last(1) [symmetric] algebra_simps)
    then have "int i * ?B + cp_size ?io i = ?io" by (auto simp: cp_size_def)
    then show ?thesis unfolding n using one last by (auto simp: cp_same_def)
  qed
qed simp

lemma cp_round_ops:
  assumes "cs_status s = CHECKPOINT_COMPUTE" and "0 \<le> io_per_checkpoint s"
  shows "\<exists>s'. chk.gen_ops (length (cp_round (checkpoint_interval s) (io_per_checkpoint s) (cur_checkpoint s))) (Some [s]) =
      Some (cp_round (checkpoint_interval s) (io_per_checkpoint s) (cur_checkpoint s), Some [s']) \<and>
    cs_status s' = (if cur_checkpoint s + 1 > cs_total_checkpoints s then CHECKPOINT_INACTIVE else CHECKPOINT_COMPUTE) \<and>
    cur_checkpoint s' = cur_checkpoint s + 1 \<and> cp_same s s'"
proof -
  let ?io = "io_per_checkpoint s" and ?c = "cur_checkpoint s"
  let ?s1 = "s\<lparr>cs_status := CHECKPOINT_OPEN_FILE\<rparr>"
  let ?s2 = "?s1\<lparr>saved_prev_checkpoint_sz := cur_checkpoint_sz s, cur_checkpoint_sz := Some 0, cs_status := CHECKPOINT_WRITE\<rparr>"
  have a: "chk.gen_ops 1 (Some [s]) = Some ([CODES_WK_DELAY (checkpoint_interval s)], Some [?s1])"
    using assms(1) by (intro cp_step) (simp add: checkpoint_advance_def)
  have b: "chk.gen_ops 1 (Some [?s1]) = Some ([CODES_WK_OPEN WK_POSIX (word_of_int ?c) 1], Some [?s2])"
    by (intro cp_step) (simp add: checkpoint_advance_def)
  obtain s3 where s3: "chk.gen_ops (cp_chunks ?io) (Some [?s2]) = Some (map (cp_write ?c ?io) [0..<cp_chunks ?io], Some [s3])"
    "cs_status s3 = CHECKPOINT_CLOSE_FILE" "cur_checkpoint s3 = ?c" "cp_same ?s2 s3"
    using cp_write_phase [of ?s2 0] assms(2) cp_chunks_bounds(1) by auto
  let ?s4 = "s3\<lparr>cur_checkpoint := ?c + 1,
    cs_status := (if ?c + 1 > cs_total_checkpoints s then CHECKPOINT_INACTIVE else CHECKPOINT_COMPUTE)\<rparr>"
  have e: "chk.gen_ops 1 (Some [s3]) = Some ([CODES_WK_CLOSE WK_POSIX (word_of_int ?c)], Some [?s4])"
    using s3 by (intro cp_step) (simp add: checkpoint_advance_def cp_same_def)
  have "chk.gen_ops (1 + (1 + (cp_chunks ?io + 1))) (Some [s]) =
      Some (cp_round (checkpoint_interval s) ?io ?c, Some [?s4])"
    using chk.gen_ops_add [OF a, of "1 + (cp_chunks ?io + 1)"] chk.gen_ops_add [OF b, of "cp_chunks ?io + 1"]
      chk.gen_ops_add [OF s3(1), of 1] e by (simp add: cp_round_def del: chk.gen_ops.simps)
  moreover have "length (cp_round (checkpoint_interval s) ?io ?c) = 1 + (1 + (cp_chunks ?io + 1))"
    by (simp add: cp_round_def)
  ultimately show ?thesis using s3 by (intro exI [of _ ?s4]) (auto simp: cp_same_def)
qed

lemma cp_rounds:
  assumes "cs_status s = CHECKPOINT_COMPUTE" and "0 \<le> io_per_checkpoint s"
    and "k = nat (max 1 (cs_total_checkpoints s - cur_checkpoint s + 1))"
  shows "\<exists>s'. chk.gen_ops (length (concat (map (\<lambda>i. cp_round (checkpoint_interval s) (io_per_checkpoint s) (cur_checkpoint s + int i)) [0..<k])))
      (Some [s]) =
    Some (concat (map (\<lambda>i. cp_round (checkpoint_interval s) (io_per_checkpoint s) (cur_checkpoint s + int i)) [0..<k]), Some [s']) \<and>
    cs_status s' = CHECKPOINT_INACTIVE"
  using assms
proof (induction k arbitrary: s)
  case (Suc k)
  let ?iv = "checkpoint_interval s" and ?io = "io_per_checkpoint s" and ?c = "cur_checkpoint s"
  obtain s1 where s1: "chk.gen_ops (length (cp_round ?iv ?io ?c)) (Some [s]) = Some (cp_round ?iv ?io ?c, Some [s1])"
    "cs_status s1 = (if ?c + 1 > cs_total_checkpoints s then CHECKPOINT_INACTIVE else CHECKPOINT_COMPUTE)"
    "cur_checkpoint s1 = ?c + 1" "cp_same s s1" using cp_round_ops [OF Suc.prems(1,2)] by blast
  have u: "[0..<Suc k] = 0 # map Suc [0..<k]" by (simp add: upt_conv_Cons map_Suc_upt)
  have rest: "concat (map (\<lambda>i. cp_round ?iv ?io (?c + int i)) [0..<Suc k]) =
      cp_round ?iv ?io ?c @ concat (map (\<lambda>i. cp_round ?iv ?io (?c + 1 + int i)) [0..<k])"
    unfolding u by (simp add: comp_def algebra_simps)
  show ?case
  proof (cases "k = 0")
    case True
    then have "?c + 1 > cs_total_checkpoints s" using Suc.prems(3) by (auto simp: max_def split: if_splits)
    then show ?thesis using s1 True by auto
  next
    case False
    then have k: "\<not> ?c + 1 > cs_total_checkpoints s" "k = nat (max 1 (cs_total_checkpoints s1 - cur_checkpoint s1 + 1))"
      using Suc.prems(3) s1(3,4) by (auto simp: max_def cp_same_def split: if_splits)
    obtain s2 where "chk.gen_ops (length (concat (map (\<lambda>i. cp_round ?iv ?io (?c + 1 + int i)) [0..<k]))) (Some [s1]) =
        Some (concat (map (\<lambda>i. cp_round ?iv ?io (?c + 1 + int i)) [0..<k]), Some [s2])" "cs_status s2 = CHECKPOINT_INACTIVE"
      using Suc.IH [of s1] s1 k Suc.prems(2) by (auto simp: cp_same_def)
    then show ?thesis unfolding rest length_append
      using chk.gen_ops_add [OF s1(1)] by auto
  qed
qed simp

lemma cp_end:
  assumes "cs_status s = CHECKPOINT_INACTIVE"
  shows "chk.gen_ops m (Some [s]) = Some (replicate m CODES_WK_END, Some [s])"
  using assms by (induction m) (simp_all add: checkpoint_step_def checkpoint_advance_def replicate_append_same)

lemma checkpoint_stream:
  assumes "0 \<le> io_per_checkpoint (checkpoint_new p a r)"
  shows "\<exists>v. chk.gen_ops (length (cp_ops (checkpoint_new p a r)) + m) (Some [checkpoint_new p a r]) =
    Some (cp_ops (checkpoint_new p a r) @ replicate m CODES_WK_END, v)"
proof -
  let ?s = "checkpoint_new p a r"
  have f: "cs_status ?s = CHECKPOINT_COMPUTE" "cur_checkpoint ?s = 1" by (simp_all add: checkpoint_new_def Let_def)
  have "nat (max 1 (cs_total_checkpoints ?s)) = nat (max 1 (cs_total_checkpoints ?s - cur_checkpoint ?s + 1))" by (simp add: f)
  from cp_rounds [OF f(1) assms this] obtain s' where
    "chk.gen_ops (length (cp_ops ?s)) (Some [?s]) = Some (cp_ops ?s, Some [s'])" "cs_status s' = CHECKPOINT_INACTIVE"
    unfolding cp_ops_def f(2) by blast
  then show ?thesis using chk.gen_ops_add [of _ _ _ "Some [s']" m] cp_end by fastforce
qed

subsection \<open>Loading the checkpoint workload\<close>

definition cp_loaded ::
    "(wk_static, wk_params) codes_workload_method list \<Rightarrow> checkpoint_wrkld_params \<Rightarrow> int set \<Rightarrow> (wk_static, wk_params) workloads \<Rightarrow> bool" where
  "cp_loaded others p done w \<longleftrightarrow>
     method_array (init_workload_methods (method_array_default others) w) = method_array_default others \<and>
     (\<forall>r. get_queue (ranks w) 0 r = (if r \<in> done then Some [] else None)) \<and>
     (case st_checkpoint (gen_state w) of None \<Rightarrow> done = {}
      | Some t \<Rightarrow> ct.table_ok t \<and> (\<forall>r. ct.entries_of t (r, 0) = (if r \<in> done then [checkpoint_new p 0 r] else [])))"

definition cp_params_ok :: "checkpoint_wrkld_params \<Rightarrow> bool" where
  "cp_params_ok p \<longleftrightarrow> 0 < nprocs p \<and> 0 \<le> checkpoint_sz p \<and> checkpoint_wr_bw p \<noteq> 0"

lemma cp_io_nonneg:
  assumes "cp_params_ok p"
  shows "0 \<le> io_per_checkpoint (checkpoint_new p a r)"
proof -
  have "0 \<le> checkpoint_sz p * 1024 ^ 4 / of_int (nprocs p)" using assms by (auto simp: cp_params_ok_def)
  then show ?thesis by (simp add: checkpoint_new_def double_to_int_def Let_def)
qed

lemma cp_load_static:
  assumes p: "cp_params_ok p" and r: "r \<notin> done"
    and tbl: "case st of None \<Rightarrow> done = {}
      | Some t \<Rightarrow> ct.table_ok t \<and> (\<forall>r. ct.entries_of t (r, 0) = (if r \<in> done then [checkpoint_new p 0 r] else []))"
  shows "\<exists>t. checkpoint_workload_load (Some p) 0 r st = Inr (0, Some t) \<and> ct.table_ok t \<and>
    (\<forall>r'. ct.entries_of t (r', 0) = (if r' \<in> insert r done then [checkpoint_new p 0 r'] else []))"
proof -
  have n: "0 < CHECKPOINT_HASH_TABLE_SIZE" "CHECKPOINT_HASH_TABLE_SIZE < 2 ^ 31" by (simp_all add: CHECKPOINT_HASH_TABLE_SIZE_def)
  define t where "t = (case st of None \<Rightarrow> qhash_init CHECKPOINT_HASH_TABLE_SIZE | Some t \<Rightarrow> t)"
  have t: "ct.table_ok t" "\<forall>r'. ct.entries_of t (r', 0) = (if r' \<in> done then [checkpoint_new p 0 r'] else [])"
    using tbl ct.init_entries [OF n] by (cases st; simp add: t_def)+
  have "checkpoint_key (checkpoint_new p 0 r) = (r, 0)" by (simp add: checkpoint_key_def checkpoint_new_def Let_def)
  then obtain t' where t': "qhash_add rank_hash t (r, 0) (checkpoint_new p 0 r) = Inr t'" "ct.table_ok t'"
    "ct.entries_of t' (r, 0) = ct.entries_of t (r, 0) @ [checkpoint_new p 0 r]"
    "\<And>k'. k' \<noteq> (r, 0) \<Longrightarrow> ct.entries_of t' k' = ct.entries_of t k'"
    using ct.add_entries [OF t(1)] by metis
  have "checkpoint_workload_load (Some p) 0 r st = Inr (0, Some t')"
    using p t'(1) by (simp add: checkpoint_workload_load_def cp_params_ok_def t_def [symmetric] Let_def)
  moreover have "ct.entries_of t' (r', 0) = (if r' \<in> insert r done then [checkpoint_new p 0 r'] else [])" for r'
    using t'(3) t'(4) [of "(r', 0)"] t(2) r by (cases "r' = r") auto
  ultimately show ?thesis using t'(2) by blast
qed

lemma find_checkpoint:
  assumes "\<forall>m \<in> set others. method_name m \<noteq> ''checkpoint_io_workload''"
  shows "find_method (method_array_default others) ''checkpoint_io_workload'' 0 = Some (length others + 1, checkpoint_workload_method)"
proof -
  have "find_method (others @ [checkpoint_workload_method, iomock_workload_method]) ''checkpoint_io_workload'' i =
      Some (i + length others, checkpoint_workload_method)" for i
    using assms by (induction others arbitrary: i) (auto simp: checkpoint_workload_method_def)
  from this [of 1] show ?thesis by (simp add: method_array_default_def test_workload_method_def)
qed

lemma cp_load:
  assumes o: "\<forall>m \<in> set others. method_name m \<noteq> ''checkpoint_io_workload''" and p: "cp_params_ok p"
    and w: "cp_loaded others p done w" and r: "r \<notin> done"
  shows "\<exists>w'. codes_workload_load (method_array_default others) ''checkpoint_io_workload'' (Some (P_checkpoint p)) 0 r w =
    Inr (int (length others) + 1, w') \<and> cp_loaded others p (insert r done) w' \<and> is_workloads_init w'"
proof -
  let ?w = "init_workload_methods (method_array_default others) w"
  have i: "method_array ?w = method_array_default others" "gen_state ?w = gen_state w" "ranks ?w = ranks w" "is_workloads_init ?w"
    using w by (simp_all add: cp_loaded_def init_workload_methods_def)
  obtain t where t: "checkpoint_workload_load (Some p) 0 r (st_checkpoint (gen_state w)) = Inr (0, Some t)" "ct.table_ok t"
    "\<forall>r'. ct.entries_of t (r', 0) = (if r' \<in> insert r done then [checkpoint_new p 0 r'] else [])"
    using cp_load_static [OF p r] w unfolding cp_loaded_def by blast
  let ?w' = "?w\<lparr>gen_state := (gen_state w)\<lparr>st_checkpoint := Some t\<rparr>, ranks := track_rank (ranks w) 0 r\<rparr>"
  have "codes_workload_load (method_array_default others) ''checkpoint_io_workload'' (Some (P_checkpoint p)) 0 r w =
      Inr (int (length others) + 1, ?w')"
    using find_checkpoint [OF o] i t(1) by (simp add: codes_workload_load_def checkpoint_workload_method_def Let_def)
  moreover have "cp_loaded others p (insert r done) ?w'"
    using w i t(2,3) r by (auto simp: cp_loaded_def track_rank_def init_workload_methods_def)
  ultimately show ?thesis using i(4) by auto
qed

lemma cp_load_ranks:
  assumes "\<forall>m \<in> set others. method_name m \<noteq> ''checkpoint_io_workload''" and "cp_params_ok p"
    and "cp_loaded others p done w" and "distinct rs" and "set rs \<inter> done = {}"
  shows "\<exists>w'. load_ranks (method_array_default others) ''checkpoint_io_workload'' (Some (P_checkpoint p)) 0 rs w = Inr w' \<and>
    cp_loaded others p (set rs \<union> done) w' \<and> (rs \<noteq> [] \<longrightarrow> is_workloads_init w')"
  using assms(3-5)
proof (induction rs arbitrary: w "done")
  case (Cons r rs)
  obtain w1 where w1: "codes_workload_load (method_array_default others) ''checkpoint_io_workload'' (Some (P_checkpoint p)) 0 r w =
    Inr (int (length others) + 1, w1)" "cp_loaded others p (insert r done) w1" "is_workloads_init w1"
    using cp_load [OF assms(1,2) Cons.prems(1), of r] Cons.prems(3) by auto
  obtain w' where w': "load_ranks (method_array_default others) ''checkpoint_io_workload'' (Some (P_checkpoint p)) 0 rs w1 = Inr w'"
    "cp_loaded others p (set rs \<union> insert r done) w'" "rs \<noteq> [] \<longrightarrow> is_workloads_init w'"
    using Cons.IH [OF w1(2)] Cons.prems(2,3) by auto
  then show ?case using w1(1,3) by (cases rs) auto
qed auto

text \<open>C27: Operations and rollback of the checkpoint workload: load any set of ranks, then let the model
  ask for operations and take them back in any interleaving. Every call succeeds, and the
  operations in force of a rank are a beginning of its workload: for each checkpoint a delay, the
  opening of its file, writes at consecutive offsets and the closing, and the end marker from
  then on. The sizes of the writes of a checkpoint add up to the share of the rank.\<close>

theorem checkpoint_replays:
  assumes others: "\<forall>m \<in> set others. method_name m \<noteq> ''checkpoint_io_workload''" and p: "cp_params_ok p"
    and rs: "distinct rs" "rs \<noteq> []" and legal: "legal_steps (\<lambda>b r n. b = 0 \<and> r \<in> set rs) xs (\<lambda>b r. 0)"
  shows "\<exists>w w' h. load_ranks (method_array_default others) ''checkpoint_io_workload'' (Some (P_checkpoint p)) 0 rs workloads_start = Inr w \<and>
    run_workload (int (length others) + 1) xs w (\<lambda>b r. []) = Inr (w', h) \<and>
    (\<forall>r \<in> set rs. rev (h 0 r) =
       take (length (h 0 r)) (cp_ops (checkpoint_new p 0 r) @ replicate (length (h 0 r)) CODES_WK_END) \<and>
       sum_list (map (cp_size (io_per_checkpoint (checkpoint_new p 0 r))) [0..<cp_chunks (io_per_checkpoint (checkpoint_new p 0 r))]) =
         io_per_checkpoint (checkpoint_new p 0 r))"
proof -
  have "cp_loaded others p {} workloads_start" by (simp add: cp_loaded_def workloads_start_def init_workload_methods_def)
  from cp_load_ranks [OF others p this rs(1)] rs(2) obtain w where
    w: "load_ranks (method_array_default others) ''checkpoint_io_workload'' (Some (P_checkpoint p)) 0 rs workloads_start = Inr w"
    "cp_loaded others p (set rs) w" "is_workloads_init w" by auto
  let ?v0 = "\<lambda>b r. Some [checkpoint_new p b r]" and ?T = "{0} \<times> set rs"
  note stream = checkpoint_stream [OF cp_io_nonneg [OF p]]
  have "st_checkpoint (gen_state w) \<noteq> None" using w(2) rs(2) by (auto simp: cp_loaded_def split: option.splits)
  then have rep: "chk.replays ?v0 ?T w (\<lambda>b r. [])"
    unfolding chk.replays_def using w(2) by (auto simp: cp_loaded_def checkpoint_view_def split: option.splits)
  have "chk.avail_in ?v0 ?T b r n" if "b = 0 \<and> r \<in> set rs" for b r n
  proof -
    have "n < length (cp_ops (checkpoint_new p b r)) + Suc n" by simp
    with stream [of b r "Suc n"] chk.gen_ops_prefix [of _ _ _ _ "Suc n"] show ?thesis
      unfolding chk.avail_in_def using that by (metis Suc_leI SigmaI option.distinct(1) singletonI)
  qed
  then have lg: "legal_steps (chk.avail_in ?v0 ?T) xs (\<lambda>b r. length ((\<lambda>b r. [] :: codes_workload_op list) b r))"
    using legal_steps_mono [OF legal] by simp
  have "method_array w = method_array_default others"
    using w(2,3) by (simp add: cp_loaded_def init_workload_methods_def)
  then have m: "method_at w (int (length others) + 1) = Inr checkpoint_workload_method"
    by (simp add: method_at_def method_array_default_def nat_add_distrib nth_append)
  from chk.run_replays [OF rep lg _ m refl] obtain w' h where
    r: "run_workload (int (length others) + 1) xs w (\<lambda>b r. []) = Inr (w', h)" "chk.replays ?v0 ?T w' h" by auto
  have "rev (h 0 r) = take (length (h 0 r)) (cp_ops (checkpoint_new p 0 r) @ replicate (length (h 0 r)) CODES_WK_END)"
    if rr: "r \<in> set rs" for r
  proof -
    obtain v where "chk.gen_ops (length (cp_ops (checkpoint_new p 0 r)) + length (h 0 r)) (Some [checkpoint_new p 0 r]) =
        Some (cp_ops (checkpoint_new p 0 r) @ replicate (length (h 0 r)) CODES_WK_END, v)" using stream by blast
    from chk.replays_prefix [OF r(2) _ this] rr show ?thesis by simp
  qed
  then show ?thesis using w(1) r(1) cp_sizes_cover [OF cp_io_nonneg [OF p]] by blast
qed

definition ex_cp :: checkpoint_wrkld_params where
  "ex_cp = \<lparr>nprocs = 4, checkpoint_sz = 1, checkpoint_wr_bw = 2, cp_total_checkpoints = 3, mtti = 10\<rparr>"

theorem checkpoint_replays_witness:
  "\<exists>w w' h. load_ranks (method_array_default []) ''checkpoint_io_workload'' (Some (P_checkpoint ex_cp)) 0 [0, 1] workloads_start = Inr w \<and>
    run_workload 1 [WNext 0 1, WNext 0 0, WNext 0 1, WUndo 0 1, WNext 0 1] w (\<lambda>b r. []) = Inr (w', h) \<and>
    rev (h 0 1) = take (length (h 0 1)) (cp_ops (checkpoint_new ex_cp 0 1) @ replicate (length (h 0 1)) CODES_WK_END)"
proof -
  have p: "cp_params_ok ex_cp" by (simp add: cp_params_ok_def ex_cp_def)
  have "legal_steps (\<lambda>b r n. b = 0 \<and> r \<in> set [0, 1]) [WNext 0 1, WNext 0 0, WNext 0 1, WUndo 0 1, WNext 0 1] (\<lambda>b r. 0)"
    by (simp add: upd_count_def)
  from checkpoint_replays [of "[]", OF _ p _ _ this] show ?thesis by auto
qed

text \<open>C28: The second reverse function of the checkpoint workload does not undo an operation: it looks
  at the status that \<open>get_next\<close> has already advanced, so that after a delay that is rolled back
  the next operation is the opening of the file, and the delay is lost.\<close>

theorem checkpoint_rc2_loses_operations:
  assumes "cs_status s = CHECKPOINT_COMPUTE" and "checkpoint_advance s = Inr (x, s')"
  shows "x = CODES_WK_DELAY (checkpoint_interval s) \<and> cs_status (checkpoint_retract s') = CHECKPOINT_OPEN_FILE \<and>
    (\<exists>s''. checkpoint_advance (checkpoint_retract s') = Inr (CODES_WK_OPEN WK_POSIX (word_of_int (cur_checkpoint s)) 1, s''))"
  using assms by (auto simp: checkpoint_advance_def checkpoint_retract_def Let_def)

theorem checkpoint_rc2_loses_operations_witness:
  "\<exists>s'' s'. checkpoint_advance (checkpoint_new ex_cp 0 0) = Inr (CODES_WK_DELAY (checkpoint_interval (checkpoint_new ex_cp 0 0)), s') \<and>
    checkpoint_advance (checkpoint_retract s') = Inr (CODES_WK_OPEN WK_POSIX 1 1, s'')"
proof -
  let ?s = "checkpoint_new ex_cp 0 0"
  have s: "cs_status ?s = CHECKPOINT_COMPUTE" "cur_checkpoint ?s = 1" by (simp_all add: checkpoint_new_def Let_def)
  then have "checkpoint_advance ?s = Inr (CODES_WK_DELAY (checkpoint_interval ?s), ?s\<lparr>cs_status := CHECKPOINT_OPEN_FILE\<rparr>)"
    by (simp add: checkpoint_advance_def)
  with checkpoint_rc2_loses_operations [OF s(1) this] s(2) show ?thesis by auto
qed

end
