(* ===== verification/Latency_Predictor.thy ===== *)
theory Latency_Predictor
  imports Codes_Prelude
begin

text \<open>
  The packet latency predictor of the network surrogate
  (src/surrogate/packet-latency-predictor/average.c). In the detailed phase it is fed the
  latency of every delivered packet; in the surrogate phase it predicts the latency of a
  packet from the sums it keeps, one pair of sum and count for each destination terminal and
  one over all of them. The lemmas relate the sums to the list of packets that were fed: the
  prediction is the arithmetic mean, with no overflow of a counter below \<open>2 ^ 32\<close> packets.
\<close>

subsection \<open>Data\<close>

record packet_start =
  ps_packet_ID :: u64
  ps_dest_terminal_lpid :: u64
  dfdally_dest_terminal_id :: u32
  ps_travel_start_time :: tw_stime
  workload_injection_time :: tw_stime
  processing_packet_delay :: real
  ps_packet_size :: u32
  is_there_another_pckt_in_queue :: bool
  caller_lp_gid :: u64
  src_router_id :: u32
  src_group_id :: u32
  dst_router_id :: u32
  dst_group_id :: u32
  terminal_queue_length :: u32
  terminal_vc_occupancy :: u32

record packet_end =
  pe_travel_end_time :: tw_stime
  next_packet_delay :: real

record aggregated_latency_one_terminal =
  sum_latency :: real
  total_msgs :: u32

record latency_surrogate =
  aggregated_next_packet_delay :: aggregated_latency_one_terminal
  aggregated_latency_for_all :: aggregated_latency_one_terminal
  aggregated_latency :: "aggregated_latency_one_terminal list"

text \<open>The two static variables of the file that are set by the configuration.\<close>

record latency_settings =
  ignore_until :: tw_stime
  num_terminals :: int

subsection \<open>Operations\<close>

definition zero_aggregate :: aggregated_latency_one_terminal where
  "zero_aggregate = \<lparr>sum_latency = 0, total_msgs = 0\<rparr>"

text \<open>\<open>sum += x; count++\<close>: the counter is an \<open>unsigned int\<close> and wraps.\<close>

definition aggregate :: "aggregated_latency_one_terminal \<Rightarrow> real \<Rightarrow> aggregated_latency_one_terminal" where
  "aggregate a x = a\<lparr>sum_latency := sum_latency a + x, total_msgs := total_msgs a + 1\<rparr>"

text \<open>The constructor: it returns the size of the data of one terminal, here the zeroed block
  that the model allocates with it.\<close>

definition average_latency_predictor ::
  "latency_settings \<Rightarrow> int \<Rightarrow> (latency_settings \<times> latency_surrogate) result" where
  "average_latency_predictor st n =
     bind_res (c_assert (n \<ge> 0)) (\<lambda>_.
     Inr (st\<lparr>num_terminals := n\<rparr>,
          \<lparr>aggregated_next_packet_delay = zero_aggregate,
           aggregated_latency_for_all = zero_aggregate,
           aggregated_latency = replicate (nat n) zero_aggregate\<rparr>))"

definition init_pred :: "latency_surrogate \<Rightarrow> unit result" where
  "init_pred d =
     bind_res (c_assert (sum_latency (aggregated_latency_for_all d) = 0)) (\<lambda>_.
     bind_res (c_assert (total_msgs (aggregated_latency_for_all d) = 0)) (\<lambda>_.
     bind_res (rd (aggregated_latency d) 0) (\<lambda>a.
     bind_res (c_assert (sum_latency a = 0)) (\<lambda>_.
     bind_res (c_assert (total_msgs a = 0)) (\<lambda>_.
     bind_res (c_assert (total_msgs (aggregated_next_packet_delay d) = 0)) (\<lambda>_.
     c_assert (sum_latency (aggregated_next_packet_delay d) = 0)))))))"

definition feed_pred ::
  "latency_settings \<Rightarrow> latency_surrogate \<Rightarrow> packet_start \<Rightarrow> packet_end \<Rightarrow> latency_surrogate result" where
  "feed_pred st d s e =
     (if pe_travel_end_time e < ignore_until st then Inr d
      else
        let dest = unat (dfdally_dest_terminal_id s);
            latency = pe_travel_end_time e - ps_travel_start_time s in
        bind_res (c_assert (int dest < num_terminals st)) (\<lambda>_.
        bind_res (c_assert (pe_travel_end_time e > ps_travel_start_time s)) (\<lambda>_.
        bind_res (rd (aggregated_latency d) dest) (\<lambda>a.
        bind_res (wr (aggregated_latency d) dest (aggregate a latency)) (\<lambda>per_terminal.
        Inr (d\<lparr>aggregated_latency := per_terminal,
               aggregated_latency_for_all := aggregate (aggregated_latency_for_all d) latency,
               aggregated_next_packet_delay :=
                 (if is_there_another_pckt_in_queue s
                  then aggregate (aggregated_next_packet_delay d) (next_packet_delay e)
                  else aggregated_next_packet_delay d)\<rparr>))))))"

definition average_of :: "aggregated_latency_one_terminal \<Rightarrow> real" where
  "average_of a = sum_latency a / real (unat (total_msgs a))"

definition predict_latency ::
  "latency_settings \<Rightarrow> latency_surrogate \<Rightarrow> packet_start \<Rightarrow> packet_end result" where
  "predict_latency st d p =
     (let dest = unat (dfdally_dest_terminal_id p) in
      bind_res (c_assert (int dest < num_terminals st)) (\<lambda>_.
      if total_msgs (aggregated_latency_for_all d) = 0 then Inl TwError
      else
        bind_res (rd (aggregated_latency d) dest) (\<lambda>a.
        let latency = (if total_msgs a > 0 then average_of a
                       else average_of (aggregated_latency_for_all d)) in
        bind_res (c_assert (latency \<ge> 0)) (\<lambda>_.
        Inr \<lparr>pe_travel_end_time = ps_travel_start_time p + latency,
             next_packet_delay =
               (if total_msgs (aggregated_next_packet_delay d) = 0 then 10
                else average_of (aggregated_next_packet_delay d))\<rparr>))))"

definition predict_latency_rc :: "latency_surrogate \<Rightarrow> latency_surrogate" where
  "predict_latency_rc d = d"

fun clear_terminals :: "nat \<Rightarrow> aggregated_latency_one_terminal list \<Rightarrow> aggregated_latency_one_terminal list result" where
  "clear_terminals 0 as = Inr as"
| "clear_terminals (Suc n) as =
     bind_res (clear_terminals n as) (\<lambda>bs. wr bs n zero_aggregate)"

definition reset_pred :: "latency_settings \<Rightarrow> latency_surrogate \<Rightarrow> latency_surrogate result" where
  "reset_pred st d =
     bind_res (clear_terminals (nat (num_terminals st)) (aggregated_latency d)) (\<lambda>cleared.
     Inr (d\<lparr>aggregated_next_packet_delay := zero_aggregate,
            aggregated_latency_for_all := zero_aggregate,
            aggregated_latency := cleared\<rparr>))"

subsection \<open>What the sums stand for\<close>

type_synonym delivered = "packet_start \<times> packet_end"

definition packet_latency :: "delivered \<Rightarrow> real" where
  "packet_latency p = pe_travel_end_time (snd p) - ps_travel_start_time (fst p)"

definition bound_for :: "nat \<Rightarrow> delivered \<Rightarrow> bool" where
  "bound_for t p \<longleftrightarrow> unat (dfdally_dest_terminal_id (fst p)) = t"

definition counted :: "latency_settings \<Rightarrow> delivered list \<Rightarrow> delivered list" where
  "counted st ps = filter (\<lambda>p. ignore_until st \<le> pe_travel_end_time (snd p)) ps"

definition has_follower :: "delivered \<Rightarrow> bool" where
  "has_follower p \<longleftrightarrow> is_there_another_pckt_in_queue (fst p)"

definition plausible :: "latency_settings \<Rightarrow> delivered \<Rightarrow> bool" where
  "plausible st p \<longleftrightarrow> int (unat (dfdally_dest_terminal_id (fst p))) < num_terminals st \<and> 0 < packet_latency p"

definition total_of :: "real list \<Rightarrow> aggregated_latency_one_terminal" where
  "total_of xs = \<lparr>sum_latency = sum_list xs, total_msgs = of_nat (length xs)\<rparr>"

definition mean :: "real list \<Rightarrow> real" where
  "mean xs = sum_list xs / real (length xs)"

definition learned :: "latency_settings \<Rightarrow> delivered list \<Rightarrow> latency_surrogate" where
  "learned st ps =
     \<lparr>aggregated_next_packet_delay =
        total_of (map (next_packet_delay \<circ> snd) (filter has_follower (counted st ps))),
      aggregated_latency_for_all = total_of (map packet_latency (counted st ps)),
      aggregated_latency =
        map (\<lambda>t. total_of (map packet_latency (filter (bound_for t) (counted st ps))))
          [0..<nat (num_terminals st)]\<rparr>"

fun feed_all :: "latency_settings \<Rightarrow> latency_surrogate \<Rightarrow> delivered list \<Rightarrow> latency_surrogate result" where
  "feed_all st d [] = Inr d"
| "feed_all st d (p # ps) = bind_res (feed_pred st d (fst p) (snd p)) (\<lambda>d'. feed_all st d' ps)"

lemma aggregate_total [simp]: "aggregate (total_of xs) x = total_of (xs @ [x])"
  by (simp add: aggregate_def total_of_def)

lemma total_Nil [simp]: "total_of [] = zero_aggregate"
  by (simp add: total_of_def zero_aggregate_def)

lemma counted_append [simp]: "counted st (ps @ qs) = counted st ps @ counted st qs"
  by (simp add: counted_def)

lemma length_counted: "length (counted st ps) \<le> length ps"
  by (simp add: counted_def)

lemma feed_learned:
  assumes "plausible st p"
  shows "feed_pred st (learned st ps) (fst p) (snd p) = Inr (learned st (ps @ [p]))"
proof (cases "pe_travel_end_time (snd p) < ignore_until st")
  case True
  then show ?thesis by (simp add: feed_pred_def learned_def counted_def)
next
  case False
  define t where "t = unat (dfdally_dest_terminal_id (fst p))"
  have t: "int t < num_terminals st" "t < nat (num_terminals st)"
    and late: "pe_travel_end_time (snd p) > ps_travel_start_time (fst p)"
    using assms by (auto simp: plausible_def t_def packet_latency_def zless_nat_eq_int_zless)
  have kept: "counted st [p] = [p]"
    using False by (simp add: counted_def)
  have slots: "(aggregated_latency (learned st ps))[t := total_of (map packet_latency (filter (bound_for t) (counted st ps)) @ [packet_latency p])]
      = aggregated_latency (learned st (ps @ [p]))"
    using t by (intro nth_equalityI) (auto simp: learned_def kept nth_list_update bound_for_def t_def)
  show ?thesis
    using False t late slots
    by (simp add: feed_pred_def Let_def t_def [symmetric] packet_latency_def [symmetric] learned_def
        kept has_follower_def)
qed

lemma feed_all_learned:
  assumes "\<forall>p\<in>set qs. plausible st p"
  shows "feed_all st (learned st ps) qs = Inr (learned st (ps @ qs))"
  using assms by (induction qs arbitrary: ps) (simp_all add: feed_learned)

lemma clear_terminals_result:
  "n \<le> length as \<Longrightarrow> clear_terminals n as = Inr (replicate n zero_aggregate @ drop n as)"
proof (induction n)
  case (Suc n)
  then have "(replicate n zero_aggregate @ drop n as)[n := zero_aggregate] =
      replicate (Suc n) zero_aggregate @ drop (Suc n) as"
    by (simp add: list_update_append replicate_append_same [symmetric] Cons_nth_drop_Suc [symmetric])
  then show ?case using Suc by simp
qed simp

lemma reset_forgets:
  "reset_pred st (learned st ps) = Inr (learned st [])"
  by (simp add: reset_pred_def learned_def counted_def clear_terminals_result map_replicate_const)

lemma average_total:
  assumes "length xs < 2 ^ 32"
  shows "average_of (total_of xs) = mean xs"
    and "total_msgs (total_of xs) = 0 \<longleftrightarrow> xs = []"
    and "total_msgs (total_of xs) > 0 \<longleftrightarrow> xs \<noteq> []"
proof -
  have n: "unat (of_nat (length xs) :: u32) = length xs"
    using assms by (simp add: unat_of_nat)
  show "average_of (total_of xs) = mean xs" by (simp add: average_of_def total_of_def mean_def n)
  show z: "total_msgs (total_of xs) = 0 \<longleftrightarrow> xs = []"
  proof -
    have "(of_nat (length xs) :: u32) = 0 \<longleftrightarrow> length xs = 0"
      using unat_eq_zero [of "of_nat (length xs) :: u32"] n by (simp only:)
    then show ?thesis by (simp add: total_of_def)
  qed
  show "total_msgs (total_of xs) > 0 \<longleftrightarrow> xs \<noteq> []"
    using z unfolding word_gt_0 by metis
qed

lemma mean_nonneg: "\<forall>x\<in>set xs. 0 \<le> x \<Longrightarrow> 0 \<le> mean xs"
  by (simp add: mean_def sum_list_nonneg)

lemma new_predictor_learned:
  assumes "average_latency_predictor st n = Inr (st', d)"
  shows "d = learned st' []" and "num_terminals st' = n" and "0 \<le> n"
  using assms
  by (auto simp: average_latency_predictor_def result_iff learned_def counted_def map_replicate_const)

text \<open>The latency that the mean of the delivered packets suggests.\<close>

definition expected_latency :: "latency_settings \<Rightarrow> delivered list \<Rightarrow> nat \<Rightarrow> real" where
  "expected_latency st ps t =
     (let to_t = filter (bound_for t) (counted st ps) in
      mean (map packet_latency (if to_t = [] then counted st ps else to_t)))"

definition expected_delay :: "latency_settings \<Rightarrow> delivered list \<Rightarrow> real" where
  "expected_delay st ps =
     (let followed = filter has_follower (counted st ps) in
      if followed = [] then 10 else mean (map (next_packet_delay \<circ> snd) followed))"

lemma expected_latency_nonneg:
  assumes "\<forall>p\<in>set ps. plausible st p"
  shows "0 \<le> expected_latency st ps t"
  unfolding expected_latency_def Let_def
  using assms by (intro mean_nonneg) (auto simp: counted_def plausible_def intro: less_imp_le)

lemma predict_learned:
  assumes ok: "\<forall>q\<in>set ps. plausible st q" and few: "length ps < 2 ^ 32"
    and some: "counted st ps \<noteq> []"
    and dest: "int (unat (dfdally_dest_terminal_id p)) < num_terminals st"
  shows "predict_latency st (learned st ps) p =
    Inr \<lparr>pe_travel_end_time =
           ps_travel_start_time p + expected_latency st ps (unat (dfdally_dest_terminal_id p)),
         next_packet_delay = expected_delay st ps\<rparr>"
proof -
  define t where "t = unat (dfdally_dest_terminal_id p)"
  define to_t where "to_t = filter (bound_for t) (counted st ps)"
  define fo where "fo = filter has_follower (counted st ps)"
  have t: "int t < num_terminals st" "t < nat (num_terminals st)"
    using dest by (auto simp: t_def zless_nat_eq_int_zless)
  have len: "length (counted st ps) < 2 ^ 32" "length to_t < 2 ^ 32" "length fo < 2 ^ 32"
    using few length_counted [of st ps] length_filter_le [of "bound_for t" "counted st ps"]
      length_filter_le [of has_follower "counted st ps"]
    unfolding to_t_def fo_def by linarith+
  have slot: "rd (aggregated_latency (learned st ps)) t = Inr (total_of (map packet_latency to_t))"
    using t by (simp add: learned_def to_t_def)
  have all: "aggregated_latency_for_all (learned st ps) = total_of (map packet_latency (counted st ps))"
    and fol: "aggregated_next_packet_delay (learned st ps) = total_of (map (next_packet_delay \<circ> snd) fo)"
    by (simp_all add: learned_def fo_def)
  have lat: "(if to_t \<noteq> [] then mean (map packet_latency to_t) else mean (map packet_latency (counted st ps)))
      = expected_latency st ps t"
    by (simp add: expected_latency_def to_t_def)
  show ?thesis
    using some len t lat expected_latency_nonneg [OF ok, of t]
    by (cases "to_t = []"; cases "fo = []";
        simp add: predict_latency_def t_def [symmetric] slot all fol average_total expected_delay_def
        fo_def [symmetric] Let_def zero_aggregate_def)
qed

subsection \<open>Properties\<close>

definition sample_delivered :: "delivered list" where
  "sample_delivered =
     [(\<lparr>ps_packet_ID = 1, ps_dest_terminal_lpid = 7, dfdally_dest_terminal_id = 1,
        ps_travel_start_time = 10, workload_injection_time = 9, processing_packet_delay = 0,
        ps_packet_size = 512, is_there_another_pckt_in_queue = True, caller_lp_gid = 3,
        src_router_id = 0, src_group_id = 0, dst_router_id = 1, dst_group_id = 0,
        terminal_queue_length = 0, terminal_vc_occupancy = 0\<rparr>,
       \<lparr>pe_travel_end_time = 14, next_packet_delay = 2\<rparr>),
      (\<lparr>ps_packet_ID = 2, ps_dest_terminal_lpid = 7, dfdally_dest_terminal_id = 1,
        ps_travel_start_time = 20, workload_injection_time = 9, processing_packet_delay = 0,
        ps_packet_size = 512, is_there_another_pckt_in_queue = False, caller_lp_gid = 3,
        src_router_id = 0, src_group_id = 0, dst_router_id = 1, dst_group_id = 0,
        terminal_queue_length = 0, terminal_vc_occupancy = 0\<rparr>,
       \<lparr>pe_travel_end_time = 28, next_packet_delay = 5\<rparr>)]"

definition sample_settings :: latency_settings where
  "sample_settings = \<lparr>ignore_until = -1, num_terminals = 0\<rparr>"

text \<open>C38: the average predictor predicts the mean, up to the rounding of doubles, which are real numbers
  here. After any sequence of fewer than \<open>2 ^ 32\<close>
  delivered packets of which at least one ends after \<open>ignore_until\<close>, no call fails and the
  prediction for a packet is its start time plus the arithmetic mean of the latencies of the
  counted packets with the same destination, or of all of them if there is none; the delay of
  the next packet is the mean over the packets that had a successor in the queue, or 10.
  Resetting the predictor gives the state it was created with.\<close>
theorem latency_predictor_averages:
  assumes "average_latency_predictor st n = Inr (st', d0)"
    and "\<forall>q\<in>set ps. plausible st' q" and "length ps < 2 ^ 32" and "counted st' ps \<noteq> []"
    and "int (unat (dfdally_dest_terminal_id p)) < n"
  shows "\<exists>d. feed_all st' d0 ps = Inr d \<and>
    predict_latency st' d p =
      Inr \<lparr>pe_travel_end_time = ps_travel_start_time p +
              expected_latency st' ps (unat (dfdally_dest_terminal_id p)),
           next_packet_delay = expected_delay st' ps\<rparr> \<and>
    reset_pred st' d = Inr d0"
proof -
  note new = new_predictor_learned [OF assms(1)]
  have "feed_all st' d0 ps = Inr (learned st' ps)"
    using feed_all_learned [OF assms(2), of "[]"] by (simp add: new(1))
  then show ?thesis
    using predict_learned [OF assms(2-4), of p] assms(5) reset_forgets [of st' ps] new by simp
qed

theorem latency_predictor_averages_witness:
  "\<exists>d. feed_all (sample_settings\<lparr>num_terminals := 2\<rparr>)
       \<lparr>aggregated_next_packet_delay = zero_aggregate, aggregated_latency_for_all = zero_aggregate,
        aggregated_latency = [zero_aggregate, zero_aggregate]\<rparr> sample_delivered = Inr d \<and>
     predict_latency (sample_settings\<lparr>num_terminals := 2\<rparr>) d (fst (hd sample_delivered)) =
       Inr \<lparr>pe_travel_end_time = 16, next_packet_delay = 2\<rparr>"
proof -
  let ?st = "sample_settings\<lparr>num_terminals := 2\<rparr>"
  have new: "average_latency_predictor sample_settings 2 = Inr (?st,
      \<lparr>aggregated_next_packet_delay = zero_aggregate, aggregated_latency_for_all = zero_aggregate,
       aggregated_latency = [zero_aggregate, zero_aggregate]\<rparr>)"
    by (simp add: average_latency_predictor_def numeral_2_eq_2)
  have c: "counted ?st sample_delivered = sample_delivered"
    and pl: "\<forall>q\<in>set sample_delivered. plausible ?st q"
    by (simp_all add: sample_delivered_def counted_def sample_settings_def plausible_def packet_latency_def)
  have vals: "expected_latency ?st sample_delivered 1 = 6" "expected_delay ?st sample_delivered = 2"
    by (simp_all add: expected_latency_def expected_delay_def c mean_def)
      (simp_all add: sample_delivered_def bound_for_def has_follower_def packet_latency_def mean_def)
  have p: "unat (dfdally_dest_terminal_id (fst (hd sample_delivered))) = 1"
    "ps_travel_start_time (fst (hd sample_delivered)) = 10" "length sample_delivered < 2 ^ 32"
    "sample_delivered \<noteq> []"
    by (simp_all add: sample_delivered_def)
  show ?thesis
    using latency_predictor_averages [OF new pl, of "fst (hd sample_delivered)"] vals p c by auto
qed

end
