(* ===== verification/App_Predictor.thy ===== *)
theory App_Predictor
  imports Codes_Prelude
begin

text \<open>
  The application iteration predictor of the surrogate
  (src/surrogate/app-iteration-predictor/average.c). The compute nodes of a PE report when
  they finish an iteration of their application. When every node has reported enough of them,
  the director, which runs on all PEs together, computes from the average iteration time how
  many iterations each application can skip.

  The static variables of the file are the record \<open>predictor_pe\<close>, one for each PE. The calls of
  the model work on one PE; the calls of the director contain all-reduces and work on the list
  of all PEs. MPI is a parameter, \<open>mpi_ops\<close>: an operation takes the arrays contributed by the
  PEs, in the order of the PEs, and gives the array that every PE receives; what the MPI
  standard documents of it is \<open>mpi_documented\<close>.
\<close>

subsection \<open>Data\<close>

datatype NODE_TYPE = NODE_TYPE_unassigned | NODE_TYPE_background_noise | NODE_TYPE_app

fun node_type_int :: "NODE_TYPE \<Rightarrow> int" where
  "node_type_int NODE_TYPE_unassigned = 0"
| "node_type_int NODE_TYPE_background_noise = 1"
| "node_type_int NODE_TYPE_app = 2"

text \<open>A maximum of numbers of types is the number of a type.\<close>

definition node_type_of :: "int \<Rightarrow> NODE_TYPE" where
  "node_type_of k = (if k = 0 then NODE_TYPE_unassigned
     else if k = 1 then NODE_TYPE_background_noise else NODE_TYPE_app)"

datatype APP_STATUS =
  APP_STATUS_running | APP_STATUS_just_completed | APP_STATUS_completed_everywhere

record app_iter_node_config =
  nc_app_id :: int
  nc_type :: NODE_TYPE
  app_ending_iter :: int

record avg_app_config =
  num_apps :: nat
  num_nodes_in_pe :: nat
  num_iters_to_collect :: int

record node_data =
  nd_app_id :: int
  acc_iteration_time :: real
  prev_iteration_time :: tw_stime
  acc_iters :: int
  last_iter :: int

record iteration_jump =
  jump_at_iter :: int
  resume_at_iter :: int
  restart_at :: tw_stime

record app_data =
  ad_type :: NODE_TYPE
  num_nodes :: int
  nodes_with_enough_iters :: int
  ending_iteration :: int
  nodes_that_have_ended :: int
  ad_status :: APP_STATUS
  ad_pred :: iteration_jump

record predictor_pe =
  my_config :: avg_app_config
  arr_node_data :: "node_data list"
  arr_app_data :: "app_data list"
  ready_to_skip :: bool
  shown_warning :: bool

datatype FAST_FORWARD = FAST_FORWARD_switching | FAST_FORWARD_restart

record fast_forward_values =
  ff_status :: FAST_FORWARD
  restarting_at :: tw_stime

definition INT_MIN :: int where "INT_MIN = - (2 ^ 31)"

definition DBL_MAX :: real where "DBL_MAX = (2 - 1 / 2 ^ 52) * 2 ^ 1023"

subsection \<open>MPI\<close>

record mpi_ops =
  int_max :: "int list list \<Rightarrow> int list"
  int_sum :: "int list list \<Rightarrow> int list"
  double_sum :: "real list list \<Rightarrow> real list"
  bool_and :: "bool list list \<Rightarrow> bool list"

text \<open>The documented result of an all-reduce: each element of the result is the reduction of
  the elements at that place.\<close>

definition elementwise :: "('a list \<Rightarrow> 'a) \<Rightarrow> ('a list list \<Rightarrow> 'a list) \<Rightarrow> bool" where
  "elementwise red f \<longleftrightarrow>
     (\<forall>xss n. xss \<noteq> [] \<and> (\<forall>xs\<in>set xss. length xs = n) \<longrightarrow>
        f xss = map (\<lambda>k. red (map (\<lambda>xs. xs ! k) xss)) [0..<n])"

definition mpi_documented :: "mpi_ops \<Rightarrow> bool" where
  "mpi_documented mpi \<longleftrightarrow>
     elementwise (\<lambda>xs. Max (set xs)) (int_max mpi) \<and> elementwise sum_list (int_sum mpi) \<and>
     elementwise sum_list (double_sum mpi) \<and> elementwise (\<lambda>xs. \<forall>x\<in>set xs. x) (bool_and mpi)"

subsection \<open>Calls of the model\<close>

definition new_node_data :: node_data where
  "new_node_data = \<lparr>nd_app_id = -1, acc_iteration_time = 0, prev_iteration_time = 0, acc_iters = 0,
     last_iter = INT_MIN\<rparr>"

definition new_app_data :: app_data where
  "new_app_data = \<lparr>ad_type = NODE_TYPE_unassigned, num_nodes = 0, nodes_with_enough_iters = 0,
     ending_iteration = INT_MIN, nodes_that_have_ended = 0, ad_status = APP_STATUS_running,
     ad_pred = \<lparr>jump_at_iter = 0, resume_at_iter = 0, restart_at = 0\<rparr>\<rparr>"

definition avg_app_iteration_predictor :: "avg_app_config \<Rightarrow> predictor_pe" where
  "avg_app_iteration_predictor cfg =
     \<lparr>my_config = cfg, arr_node_data = replicate (num_nodes_in_pe cfg) new_node_data,
      arr_app_data = replicate (num_apps cfg) new_app_data, ready_to_skip = False,
      shown_warning = False\<rparr>"

definition app_at :: "predictor_pe \<Rightarrow> int \<Rightarrow> app_data result" where
  "app_at pe a = (if a < 0 then Inl OutOfBounds else rd (arr_app_data pe) (nat a))"

definition set_app :: "int \<Rightarrow> app_data \<Rightarrow> predictor_pe \<Rightarrow> predictor_pe" where
  "set_app a d pe = pe\<lparr>arr_app_data := (arr_app_data pe)[nat a := d]\<rparr>"

definition set_node :: "nat \<Rightarrow> node_data \<Rightarrow> predictor_pe \<Rightarrow> predictor_pe" where
  "set_node i d pe = pe\<lparr>arr_node_data := (arr_node_data pe)[i := d]\<rparr>"

definition app_id_for :: "predictor_pe \<Rightarrow> nat \<Rightarrow> int result" where
  "app_id_for pe i = bind_res (rd (arr_node_data pe) i) (\<lambda>n. Inr (nd_app_id n))"

text \<open>The type and the ending iteration of an application are those of its first node; the
  other nodes have to agree.\<close>

definition agree_type :: "NODE_TYPE \<Rightarrow> app_data \<Rightarrow> app_data result" where
  "agree_type ty d =
     (if ad_type d = NODE_TYPE_unassigned then Inr (d\<lparr>ad_type := ty\<rparr>)
      else if ad_type d \<noteq> ty then Inl TwError else Inr d)"

definition agree_ending :: "int \<Rightarrow> app_data \<Rightarrow> app_data result" where
  "agree_ending e d =
     (if ending_iteration d = INT_MIN then Inr (d\<lparr>ending_iteration := e\<rparr>)
      else if ending_iteration d \<noteq> e then Inl TwError else Inr d)"

definition model_calls_init :: "predictor_pe \<Rightarrow> nat \<Rightarrow> app_iter_node_config \<Rightarrow> predictor_pe result" where
  "model_calls_init pe i c =
     (if num_nodes_in_pe (my_config pe) \<le> i then Inl TwError
      else
        bind_res (rd (arr_node_data pe) i) (\<lambda>n.
        let pe1 = set_node i (n\<lparr>nd_app_id := nc_app_id c, last_iter := INT_MIN\<rparr>) pe in
        bind_res (app_at pe1 (nc_app_id c)) (\<lambda>d.
        bind_res (agree_type (nc_type c) (d\<lparr>num_nodes := num_nodes d + 1\<rparr>)) (\<lambda>d1.
        if nc_type c = NODE_TYPE_background_noise then Inr (set_app (nc_app_id c) d1 pe1)
        else bind_res (agree_ending (app_ending_iter c) d1) (\<lambda>d2.
             Inr (set_app (nc_app_id c) d2 pe1))))))"

text \<open>The test of a node without application reads the entry before the array of
  applications.\<close>

definition assert_app_initialized :: "predictor_pe \<Rightarrow> nat \<Rightarrow> unit result" where
  "assert_app_initialized pe i =
     bind_res (app_id_for pe i) (\<lambda>a.
     if a = -1
     then bind_res (app_at pe a) (\<lambda>d.
          bind_res (c_assert (ad_type d = NODE_TYPE_unassigned)) (\<lambda>_. Inl TwError))
     else Inr ())"

definition fed_node :: "int \<Rightarrow> tw_stime \<Rightarrow> node_data \<Rightarrow> node_data" where
  "fed_node iter time n =
     n\<lparr>acc_iteration_time := acc_iteration_time n + (time - prev_iteration_time n),
       prev_iteration_time := time, acc_iters := acc_iters n + 1, last_iter := iter\<rparr>"

definition model_calls_feed :: "predictor_pe \<Rightarrow> nat \<Rightarrow> int \<Rightarrow> tw_stime \<Rightarrow> predictor_pe result" where
  "model_calls_feed pe i iter time =
     bind_res (c_assert (num_nodes_in_pe (my_config pe) > i)) (\<lambda>_.
     bind_res (assert_app_initialized pe i) (\<lambda>_.
     bind_res (app_id_for pe i) (\<lambda>a.
     bind_res (app_at pe a) (\<lambda>d.
     if \<not> shown_warning pe \<and> ad_type d = NODE_TYPE_background_noise
     then Inr (pe\<lparr>shown_warning := True\<rparr>)
     else
       bind_res (c_assert (ad_type d = NODE_TYPE_app)) (\<lambda>_.
       bind_res (rd (arr_node_data pe) i) (\<lambda>n.
       if last_iter n \<ge> iter then Inr pe
       else
         let n' = fed_node iter time n; pe1 = set_node i n' pe in
         if acc_iters n' = num_iters_to_collect (my_config pe)
         then Inr (set_app a (d\<lparr>nodes_with_enough_iters := nodes_with_enough_iters d + 1\<rparr>) pe1)
         else Inr pe1))))))"

definition model_calls_ended :: "predictor_pe \<Rightarrow> nat \<Rightarrow> predictor_pe result" where
  "model_calls_ended pe i =
     bind_res (assert_app_initialized pe i) (\<lambda>_.
     bind_res (app_id_for pe i) (\<lambda>a.
     bind_res (app_at pe a) (\<lambda>d.
     let d1 = d\<lparr>nodes_that_have_ended := nodes_that_have_ended d + 1\<rparr> in
     Inr (set_app a
       (if nodes_that_have_ended d1 = num_nodes d1 then d1\<lparr>ad_status := APP_STATUS_just_completed\<rparr>
        else d1) pe))))"

definition model_calls_predict :: "predictor_pe \<Rightarrow> nat \<Rightarrow> (int \<times> tw_stime) result" where
  "model_calls_predict pe i =
     bind_res (c_assert (num_nodes_in_pe (my_config pe) > i)) (\<lambda>_.
     bind_res (assert_app_initialized pe i) (\<lambda>_.
     bind_res (app_id_for pe i) (\<lambda>a.
     bind_res (app_at pe a) (\<lambda>d.
     Inr (resume_at_iter (ad_pred d), restart_at (ad_pred d))))))"

definition model_calls_have_we_hit_switch :: "predictor_pe \<Rightarrow> nat \<Rightarrow> int \<Rightarrow> bool result" where
  "model_calls_have_we_hit_switch pe i iter =
     bind_res (c_assert (num_nodes_in_pe (my_config pe) > i)) (\<lambda>_.
     bind_res (assert_app_initialized pe i) (\<lambda>_.
     if \<not> ready_to_skip pe then Inr False
     else
       bind_res (app_id_for pe i) (\<lambda>a.
       bind_res (app_at pe a) (\<lambda>d.
       Inr (case ad_type d of
              NODE_TYPE_background_noise \<Rightarrow> True
            | NODE_TYPE_app \<Rightarrow> iter = jump_at_iter (ad_pred d)
            | NODE_TYPE_unassigned \<Rightarrow> False)))))"

subsection \<open>Calls of the director\<close>

text \<open>The loops over the nodes of a PE fill an array with one entry for each application;
  nodes without application are skipped.\<close>

fun accumulate :: "(node_data \<Rightarrow> 'a \<Rightarrow> 'a) \<Rightarrow> node_data list \<Rightarrow> 'a list \<Rightarrow> 'a list result" where
  "accumulate f [] acc = Inr acc"
| "accumulate f (n # ns) acc =
     (if nd_app_id n = -1 then accumulate f ns acc
      else if nd_app_id n < 0 then Inl OutOfBounds
      else bind_res (rd acc (nat (nd_app_id n))) (\<lambda>x.
           bind_res (wr acc (nat (nd_app_id n)) (f n x)) (accumulate f ns)))"

fun on_each :: "('a \<Rightarrow> 'b result) \<Rightarrow> 'a list \<Rightarrow> 'b list result" where
  "on_each f [] = Inr []"
| "on_each f (x # xs) = bind_res (f x) (\<lambda>y. bind_res (on_each f xs) (\<lambda>ys. Inr (y # ys)))"

definition per_app :: "(node_data \<Rightarrow> 'a \<Rightarrow> 'a) \<Rightarrow> 'a \<Rightarrow> predictor_pe \<Rightarrow> 'a list result" where
  "per_app f x pe = accumulate f (arr_node_data pe) (replicate (num_apps (my_config pe)) x)"

definition find_max_iter_per_app :: "mpi_ops \<Rightarrow> predictor_pe list \<Rightarrow> int list result" where
  "find_max_iter_per_app mpi pes =
     bind_res (on_each (per_app (\<lambda>n m. if m < last_iter n then last_iter n else m) INT_MIN) pes)
       (\<lambda>xss. Inr (int_max mpi xss))"

text \<open>\<open>save_avg_time\<close> is only written for applications that have reported an iteration; \<open>None\<close> is
  an element that was not written.\<close>

definition find_avg_iteration_time :: "mpi_ops \<Rightarrow> predictor_pe list \<Rightarrow> real option list result" where
  "find_avg_iteration_time mpi pes =
     bind_res (on_each (per_app (\<lambda>n x. x + acc_iteration_time n) 0) pes) (\<lambda>times.
     bind_res (on_each (per_app (\<lambda>n k. k + acc_iters n) 0) pes) (\<lambda>iters.
     Inr (map2 (\<lambda>t k. if k \<noteq> 0 then Some (t / of_int k) else None)
       (double_sum mpi times) (int_sum mpi iters))))"

definition find_avg_time_for_max_iter ::
  "mpi_ops \<Rightarrow> predictor_pe list \<Rightarrow> int list \<Rightarrow> real list result" where
  "find_avg_time_for_max_iter mpi pes lasts =
     bind_res (on_each (per_app
       (\<lambda>n x. if last_iter n = lasts ! nat (nd_app_id n) then x + prev_iteration_time n else x) 0) pes) (\<lambda>times.
     bind_res (on_each (per_app
       (\<lambda>n k. if last_iter n = lasts ! nat (nd_app_id n) then k + 1 else k) 0) pes) (\<lambda>counts.
     Inr (map2 (\<lambda>t k. if k > 0 then t / of_int k else t) (double_sum mpi times) (int_sum mpi counts))))"

text \<open>\<open>reset_with\<close>, first for one PE with the last iteration of each application.\<close>

definition reset_node :: "int list \<Rightarrow> app_data list \<Rightarrow> node_data \<Rightarrow> node_data" where
  "reset_node lasts apps n =
     (if nd_app_id n = -1 then n
      else
        let n1 = n\<lparr>acc_iters := 0, acc_iteration_time := 0\<rparr>; d = apps ! nat (nd_app_id n) in
        if last_iter n < resume_at_iter (ad_pred d)
        then n1\<lparr>last_iter := lasts ! nat (nd_app_id n), prev_iteration_time := restart_at (ad_pred d)\<rparr>
        else n1)"

definition reset_app :: "app_data \<Rightarrow> bool \<Rightarrow> app_data" where
  "reset_app d ended =
     (let d1 = d\<lparr>nodes_with_enough_iters := 0\<rparr> in
      if ended then d1\<lparr>ad_status := APP_STATUS_completed_everywhere\<rparr> else d1)"

definition reset_pe :: "int list \<Rightarrow> bool list \<Rightarrow> predictor_pe \<Rightarrow> predictor_pe" where
  "reset_pe lasts just_ended pe =
     pe\<lparr>ready_to_skip := False,
        arr_node_data := map (reset_node lasts (arr_app_data pe)) (arr_node_data pe),
        arr_app_data := map2 reset_app (arr_app_data pe) just_ended\<rparr>"

definition reset_with :: "mpi_ops \<Rightarrow> bool list \<Rightarrow> predictor_pe list \<Rightarrow> predictor_pe list result" where
  "reset_with mpi just_ended pes =
     bind_res (find_max_iter_per_app mpi pes) (\<lambda>lasts.
     Inr (map (reset_pe lasts just_ended) pes))"

definition find_app_types :: "mpi_ops \<Rightarrow> predictor_pe list \<Rightarrow> NODE_TYPE list" where
  "find_app_types mpi pes =
     map node_type_of (int_max mpi (map (map (node_type_int \<circ> ad_type) \<circ> arr_app_data) pes))"

definition share_app :: "NODE_TYPE \<Rightarrow> int \<Rightarrow> app_data \<Rightarrow> app_data result" where
  "share_app ty ending d =
     (case ty of
        NODE_TYPE_unassigned \<Rightarrow>
          bind_res (c_assert (ad_type d = NODE_TYPE_unassigned)) (\<lambda>_.
          Inr (d\<lparr>ad_status := APP_STATUS_completed_everywhere\<rparr>))
      | NODE_TYPE_background_noise \<Rightarrow>
          if ad_type d = NODE_TYPE_app then Inl TwError
          else Inr (d\<lparr>ad_status := APP_STATUS_completed_everywhere, ad_type := NODE_TYPE_background_noise\<rparr>)
      | NODE_TYPE_app \<Rightarrow>
          if ad_type d = NODE_TYPE_unassigned
          then Inr (d\<lparr>ad_status := APP_STATUS_just_completed, ending_iteration := ending,
                      ad_type := NODE_TYPE_app\<rparr>)
          else if ad_type d = NODE_TYPE_background_noise then Inl TwError
          else if ending \<noteq> ending_iteration d then Inl TwError
          else Inr (d\<lparr>ending_iteration := ending, ad_type := NODE_TYPE_app\<rparr>))"

fun share_apps :: "NODE_TYPE list \<Rightarrow> int list \<Rightarrow> app_data list \<Rightarrow> app_data list result" where
  "share_apps (ty # tys) (e # es) (d # ds) =
     bind_res (share_app ty e d) (\<lambda>d'. bind_res (share_apps tys es ds) (\<lambda>ds'. Inr (d' # ds')))"
| "share_apps tys es ds = Inr []"

definition post_init_share_ending_iteration :: "mpi_ops \<Rightarrow> predictor_pe list \<Rightarrow> predictor_pe list result" where
  "post_init_share_ending_iteration mpi pes =
     (let ending = int_max mpi (map (map ending_iteration \<circ> arr_app_data) pes);
          types = find_app_types mpi pes in
      on_each (\<lambda>pe. bind_res (share_apps types ending (arr_app_data pe)) (\<lambda>ds.
        Inr (pe\<lparr>arr_app_data := ds\<rparr>))) pes)"

definition has_any_app_ended :: "mpi_ops \<Rightarrow> predictor_pe list \<Rightarrow> bool list" where
  "has_any_app_ended mpi pes =
     bool_and mpi (map (map (\<lambda>d. ad_status d = APP_STATUS_just_completed) \<circ> arr_app_data) pes)"

definition all_apps_ended :: "predictor_pe \<Rightarrow> bool" where
  "all_apps_ended pe \<longleftrightarrow>
     list_all (\<lambda>d. ad_status d = APP_STATUS_completed_everywhere) (arr_app_data pe)"

definition has_everyone_accumulated_enough :: "predictor_pe \<Rightarrow> bool" where
  "has_everyone_accumulated_enough pe \<longleftrightarrow>
     list_all (\<lambda>d. num_nodes d > 0 \<and> ad_status d \<noteq> APP_STATUS_completed_everywhere \<longrightarrow>
       nodes_with_enough_iters d = num_nodes d) (arr_app_data pe)"

text \<open>All PEs together; the flag \<open>post_init_done\<close> changes on all of them at once. The test
  \<open>all_apps_ended\<close> is local: if the PEs disagree, those that go on wait for ever in the
  all-reduce that the others do not enter. This is the outcome \<open>None\<close>.\<close>

record predictor_world =
  pw_pes :: "predictor_pe list"
  post_init_done :: bool

definition director_calls_is_predictor_ready ::
  "mpi_ops \<Rightarrow> predictor_world \<Rightarrow> (predictor_world \<times> bool) option result" where
  "director_calls_is_predictor_ready mpi w =
     bind_res (if post_init_done w then Inr (pw_pes w)
               else post_init_share_ending_iteration mpi (pw_pes w)) (\<lambda>pes.
     let just_ended = has_any_app_ended mpi pes in
     if list_ex (\<lambda>b. b) just_ended
     then bind_res (reset_with mpi just_ended pes) (\<lambda>pes'.
          Inr (Some (\<lparr>pw_pes = pes', post_init_done = True\<rparr>, False)))
     else if list_all all_apps_ended pes
     then Inr (Some (\<lparr>pw_pes = pes, post_init_done = True\<rparr>, False))
     else if list_ex all_apps_ended pes then Inr None
     else Inr (Some (\<lparr>pw_pes = pes, post_init_done = True\<rparr>,
            hd (bool_and mpi (map (\<lambda>pe. [has_everyone_accumulated_enough pe]) pes)))))"

definition director_calls_reset :: "mpi_ops \<Rightarrow> predictor_world \<Rightarrow> predictor_world result" where
  "director_calls_reset mpi w =
     bind_res (reset_with mpi (has_any_app_ended mpi (pw_pes w)) (pw_pes w)) (\<lambda>pes.
     Inr (w\<lparr>pw_pes := pes\<rparr>))"

subsection \<open>The jump\<close>

text \<open>C's \<open>lround\<close>: to the nearest integer, halves away from zero.\<close>

definition lround :: "real \<Rightarrow> int" where
  "lround x = (if x \<ge> 0 then \<lfloor>x + 1 / 2\<rfloor> else - \<lfloor>- x + 1 / 2\<rfloor>)"

definition get_running_apps :: "predictor_pe \<Rightarrow> bool list" where
  "get_running_apps pe =
     map (\<lambda>d. ad_status d \<noteq> APP_STATUS_completed_everywhere) (arr_app_data pe)"

text \<open>What the director knows of an application when it computes the jump: the entries of
  \<open>is_running\<close>, \<open>avg_iter_time\<close>, \<open>last_iter\<close> and \<open>last_iter_time\<close>, and its ending iteration.\<close>

record app_progress =
  ap_running :: bool
  ap_avg :: "real option"
  ap_last :: int
  ap_time :: tw_stime
  ap_ending :: int

definition apps_end_time :: "app_progress \<Rightarrow> tw_stime option" where
  "apps_end_time p =
     (case ap_avg p of
        None \<Rightarrow> None
      | Some avg \<Rightarrow> Some (ap_time p + of_int (s32 (ap_ending p - ap_last p)) * avg))"

fun earliest :: "tw_stime \<Rightarrow> (bool \<times> tw_stime option) list \<Rightarrow> tw_stime result" where
  "earliest t [] = Inr t"
| "earliest t ((r, x) # xs) =
     (if r then (case x of None \<Rightarrow> Inl Uninitialised | Some y \<Rightarrow> earliest (if t > y then y else t) xs)
      else earliest t xs)"

fun latest :: "tw_stime \<Rightarrow> (bool \<times> tw_stime option) list \<Rightarrow> tw_stime result" where
  "latest t [] = Inr t"
| "latest t ((r, x) # xs) =
     (if r then (case x of None \<Rightarrow> Inl Uninitialised | Some y \<Rightarrow> latest (if t < y then y else t) xs)
      else latest t xs)"

definition compute_earliest_end_time :: "app_progress list \<Rightarrow> tw_stime result" where
  "compute_earliest_end_time ps = earliest DBL_MAX (map (\<lambda>p. (ap_running p, apps_end_time p)) ps)"

text \<open>An average of 0 makes the quotient infinite, which \<open>lround\<close> cannot represent.\<close>

definition restart_params :: "tw_stime \<Rightarrow> app_progress \<Rightarrow> (tw_stime \<times> int \<times> bool) option result" where
  "restart_params switch_time p =
     (if \<not> ap_running p then Inr None
      else case ap_avg p of
        None \<Rightarrow> Inl Uninitialised
      | Some avg \<Rightarrow>
          if avg = 0 then Inl DivByZero
          else
            let skip = s32 (lround ((switch_time - ap_time p) / avg)) in
            Inr (Some (ap_time p + of_int skip * avg, s32 (ap_last p + skip), skip > 1)))"

definition compute_restart_params ::
  "tw_stime \<Rightarrow> app_progress list \<Rightarrow> ((tw_stime \<times> int \<times> bool) option list \<times> bool) result" where
  "compute_restart_params switch_time ps =
     bind_res (on_each (restart_params switch_time) ps) (\<lambda>rs.
     Inr (rs, list_all (\<lambda>r. case r of None \<Rightarrow> True | Some (_, _, worth) \<Rightarrow> worth) rs))"

definition restart_times :: "app_progress list \<Rightarrow> (tw_stime \<times> int \<times> bool) option list \<Rightarrow> (bool \<times> tw_stime option) list" where
  "restart_times ps rs = map2 (\<lambda>p r. (ap_running p, map_option fst r)) ps rs"

definition find_latest_restart_time where
  "find_latest_restart_time ps rs = latest 0 (restart_times ps rs)"

definition find_earliest_restart_time where
  "find_earliest_restart_time ps rs = earliest DBL_MAX (restart_times ps rs)"

definition set_app_prediction ::
  "tw_stime \<Rightarrow> app_data \<Rightarrow> app_progress \<Rightarrow> (tw_stime \<times> int \<times> bool) option \<Rightarrow> app_data" where
  "set_app_prediction earliest_restart d p r =
     (case ad_type d of
        NODE_TYPE_unassigned \<Rightarrow> d
      | NODE_TYPE_background_noise \<Rightarrow> d\<lparr>ad_pred := (ad_pred d)\<lparr>restart_at := earliest_restart\<rparr>\<rparr>
      | NODE_TYPE_app \<Rightarrow>
          (case r of
             None \<Rightarrow> d
           | Some (time, iter, _) \<Rightarrow>
               d\<lparr>ad_pred := \<lparr>jump_at_iter = s32 (ap_last p + 1), resume_at_iter = iter, restart_at = time\<rparr>\<rparr>))"

fun set_app_prediction_data ::
  "tw_stime \<Rightarrow> app_data list \<Rightarrow> app_progress list \<Rightarrow> (tw_stime \<times> int \<times> bool) option list \<Rightarrow> app_data list" where
  "set_app_prediction_data t (d # ds) (p # ps) (r # rs) =
     set_app_prediction t d p r # set_app_prediction_data t ds ps rs"
| "set_app_prediction_data t ds ps rs = []"

fun progress_of ::
  "bool list \<Rightarrow> real option list \<Rightarrow> int list \<Rightarrow> tw_stime list \<Rightarrow> app_data list \<Rightarrow> app_progress list" where
  "progress_of (r # rs) (a # avgs) (l # ls) (t # ts) (d # ds) =
     \<lparr>ap_running = r, ap_avg = a, ap_last = l, ap_time = t, ap_ending = ending_iteration d\<rparr> #
     progress_of rs avgs ls ts ds"
| "progress_of rs avgs ls ts ds = []"

text \<open>The part of \<open>prepare_fast_forward_jump\<close> that a PE computes for itself.\<close>

definition plan_jump :: "app_progress list \<Rightarrow> predictor_pe \<Rightarrow> (predictor_pe \<times> fast_forward_values) result" where
  "plan_jump ps pe =
     bind_res (compute_earliest_end_time ps) (\<lambda>switch_time.
     bind_res (compute_restart_params switch_time ps) (\<lambda>(rs, worth_switching).
     bind_res (find_latest_restart_time ps rs) (\<lambda>last_to_finish.
     bind_res (find_earliest_restart_time ps rs) (\<lambda>first_to_finish.
     if \<not> worth_switching
     then Inr (pe, \<lparr>ff_status = FAST_FORWARD_restart, restarting_at = last_to_finish\<rparr>)
     else Inr (pe\<lparr>arr_app_data := set_app_prediction_data first_to_finish (arr_app_data pe) ps rs,
                  ready_to_skip := True\<rparr>,
               \<lparr>ff_status = FAST_FORWARD_switching, restarting_at = last_to_finish\<rparr>)))))"

definition director_calls_prepare_fast_forward_jump ::
  "mpi_ops \<Rightarrow> predictor_world \<Rightarrow> (predictor_world \<times> fast_forward_values list) result" where
  "director_calls_prepare_fast_forward_jump mpi w =
     bind_res (find_avg_iteration_time mpi (pw_pes w)) (\<lambda>avgs.
     bind_res (find_max_iter_per_app mpi (pw_pes w)) (\<lambda>lasts.
     bind_res (find_avg_time_for_max_iter mpi (pw_pes w) lasts) (\<lambda>times.
     bind_res (on_each (\<lambda>pe. plan_jump
       (progress_of (get_running_apps pe) avgs lasts times (arr_app_data pe)) pe) (pw_pes w)) (\<lambda>rs.
     Inr (w\<lparr>pw_pes := map fst rs\<rparr>, map snd rs)))))"

subsection \<open>Counting the nodes of an application\<close>

definition count_if :: "('a \<Rightarrow> bool) \<Rightarrow> 'a list \<Rightarrow> int" where
  "count_if P xs = int (length (filter P xs))"

lemma count_if_simps [simp]:
  "count_if P [] = 0"
  "count_if P (x # xs) = of_bool (P x) + count_if P xs"
  by (simp_all add: count_if_def)

lemma count_if_nonneg: "0 \<le> count_if P xs"
  by (simp add: count_if_def)

lemma count_if_update:
  "i < length xs \<Longrightarrow> count_if P (xs[i := y]) = count_if P xs - of_bool (P (xs ! i)) + of_bool (P y)"
proof (induction xs arbitrary: i)
  case (Cons x xs)
  then show ?case by (cases i) simp_all
qed simp

lemma count_if_all: "count_if P xs = count_if (\<lambda>x. P x \<and> Q x) xs \<longleftrightarrow> (\<forall>x\<in>set xs. P x \<longrightarrow> Q x)"
proof (induction xs)
  case (Cons x xs)
  have "count_if (\<lambda>x. P x \<and> Q x) xs \<le> count_if P xs"
    by (induction xs) auto
  with Cons show ?case by auto
qed simp

lemma count_if_zero: "(\<And>x. x \<in> set xs \<Longrightarrow> \<not> P x) \<Longrightarrow> count_if P xs = 0"
  by (induction xs) auto

lemma count_if_map: "count_if P (map f xs) = count_if (P \<circ> f) xs"
  by (induction xs) auto

lemma count_if_cong: "(\<And>x. x \<in> set xs \<Longrightarrow> P x = Q x) \<Longrightarrow> count_if P xs = count_if Q xs"
  by (induction xs) auto

definition in_app :: "nat \<Rightarrow> node_data \<Rightarrow> bool" where
  "in_app a n \<longleftrightarrow> nd_app_id n = int a"

text \<open>The arrays of a PE have their sizes, nodes belong to existing applications and the two
  counters of an application are right.\<close>

definition pe_inv :: "predictor_pe \<Rightarrow> bool" where
  "pe_inv pe \<longleftrightarrow>
     length (arr_node_data pe) = num_nodes_in_pe (my_config pe) \<and>
     length (arr_app_data pe) = num_apps (my_config pe) \<and>
     0 < num_iters_to_collect (my_config pe) \<and>
     (\<forall>n\<in>set (arr_node_data pe).
        (nd_app_id n = -1 \<or> 0 \<le> nd_app_id n \<and> nd_app_id n < int (num_apps (my_config pe))) \<and>
        0 \<le> acc_iters n) \<and>
     (\<forall>a<num_apps (my_config pe).
        num_nodes (arr_app_data pe ! a) = count_if (in_app a) (arr_node_data pe) \<and>
        nodes_with_enough_iters (arr_app_data pe ! a) =
          count_if (\<lambda>n. in_app a n \<and> num_iters_to_collect (my_config pe) \<le> acc_iters n) (arr_node_data pe))"

lemma pe_invD:
  assumes "pe_inv pe"
  shows "length (arr_node_data pe) = num_nodes_in_pe (my_config pe)"
    and "length (arr_app_data pe) = num_apps (my_config pe)"
    and "0 < num_iters_to_collect (my_config pe)"
    and "n \<in> set (arr_node_data pe) \<Longrightarrow>
      nd_app_id n = -1 \<or> 0 \<le> nd_app_id n \<and> nd_app_id n < int (num_apps (my_config pe))"
    and "n \<in> set (arr_node_data pe) \<Longrightarrow> 0 \<le> acc_iters n"
    and "a < num_apps (my_config pe) \<Longrightarrow>
      num_nodes (arr_app_data pe ! a) = count_if (in_app a) (arr_node_data pe)"
    and "a < num_apps (my_config pe) \<Longrightarrow> nodes_with_enough_iters (arr_app_data pe ! a) =
      count_if (\<lambda>n. in_app a n \<and> num_iters_to_collect (my_config pe) \<le> acc_iters n) (arr_node_data pe)"
  using assms by (auto simp: pe_inv_def)

lemma new_predictor_inv:
  "0 < num_iters_to_collect cfg \<Longrightarrow> pe_inv (avg_app_iteration_predictor cfg)"
  by (auto simp: pe_inv_def avg_app_iteration_predictor_def new_node_data_def new_app_data_def
      in_app_def intro!: count_if_zero)

lemma app_at_Inr_iff [result_iff]:
  "app_at pe a = Inr d \<longleftrightarrow> 0 \<le> a \<and> nat a < length (arr_app_data pe) \<and> d = arr_app_data pe ! nat a"
  by (auto simp: app_at_def rd_def)

lemma set_fields [simp]:
  "my_config (set_node i n pe) = my_config pe" "arr_app_data (set_node i n pe) = arr_app_data pe"
  "arr_node_data (set_node i n pe) = (arr_node_data pe)[i := n]"
  "my_config (set_app a d pe) = my_config pe" "arr_node_data (set_app a d pe) = arr_node_data pe"
  "arr_app_data (set_app a d pe) = (arr_app_data pe)[nat a := d]"
  "ready_to_skip (set_node i n pe) = ready_to_skip pe" "ready_to_skip (set_app a d pe) = ready_to_skip pe"
  by (simp_all add: set_node_def set_app_def)

lemma agree_type_fields:
  assumes "agree_type ty d = Inr d'"
  shows "num_nodes d' = num_nodes d" "nodes_with_enough_iters d' = nodes_with_enough_iters d"
    "ad_status d' = ad_status d" "nodes_that_have_ended d' = nodes_that_have_ended d" "ad_type d' = ty"
  using assms by (auto simp: agree_type_def split: if_splits)

lemma agree_ending_fields:
  assumes "agree_ending e d = Inr d'"
  shows "num_nodes d' = num_nodes d" "nodes_with_enough_iters d' = nodes_with_enough_iters d"
    "ad_status d' = ad_status d" "nodes_that_have_ended d' = nodes_that_have_ended d" "ad_type d' = ad_type d"
  using assms by (auto simp: agree_ending_def split: if_splits)

text \<open>What a successful \<open>init\<close> does: the node joins the application.\<close>

lemma model_calls_init_outcome:
  assumes "model_calls_init pe i c = Inr pe'"
  obtains a d where "nc_app_id c = int a" and "a < length (arr_app_data pe)"
    and "i < length (arr_node_data pe)"
    and "pe' = set_app (int a) d (set_node i
      ((arr_node_data pe ! i)\<lparr>nd_app_id := int a, last_iter := INT_MIN\<rparr>) pe)"
    and "num_nodes d = num_nodes (arr_app_data pe ! a) + 1"
    and "nodes_with_enough_iters d = nodes_with_enough_iters (arr_app_data pe ! a)"
    and "ad_status d = ad_status (arr_app_data pe ! a)"
    and "nodes_that_have_ended d = nodes_that_have_ended (arr_app_data pe ! a)"
    and "ad_type d = nc_type c"
proof -
  obtain a where a: "nc_app_id c = int a" "a < length (arr_app_data pe)" and i: "i < length (arr_node_data pe)"
    using assms by (auto simp: model_calls_init_def result_iff Let_def split: if_splits dest: nonneg_int_cases)
  obtain d1 where d1: "agree_type (nc_type c) ((arr_app_data pe ! a)\<lparr>num_nodes := num_nodes (arr_app_data pe ! a) + 1\<rparr>) = Inr d1"
    and last: "pe' = set_app (int a) d1 (set_node i ((arr_node_data pe ! i)\<lparr>nd_app_id := int a, last_iter := INT_MIN\<rparr>) pe) \<or>
      (\<exists>d2. agree_ending (app_ending_iter c) d1 = Inr d2 \<and>
        pe' = set_app (int a) d2 (set_node i ((arr_node_data pe ! i)\<lparr>nd_app_id := int a, last_iter := INT_MIN\<rparr>) pe))"
    using assms a i by (auto simp: model_calls_init_def result_iff Let_def split: if_splits)
  from last show ?thesis
  proof
    assume "pe' = set_app (int a) d1 (set_node i ((arr_node_data pe ! i)\<lparr>nd_app_id := int a, last_iter := INT_MIN\<rparr>) pe)"
    then show ?thesis using that [OF a i] agree_type_fields [OF d1] by simp
  next
    assume "\<exists>d2. agree_ending (app_ending_iter c) d1 = Inr d2 \<and>
        pe' = set_app (int a) d2 (set_node i ((arr_node_data pe ! i)\<lparr>nd_app_id := int a, last_iter := INT_MIN\<rparr>) pe)"
    then show ?thesis using that [OF a i] agree_type_fields [OF d1] agree_ending_fields [of _ d1] by fastforce
  qed
qed

text \<open>A node that is replaced changes the counters by what it counts for.\<close>

lemma pe_inv_update:
  assumes inv: "pe_inv pe" and i: "i < length (arr_node_data pe)"
    and id: "nd_app_id n' = int a" and a: "a < num_apps (my_config pe)" and acc: "0 \<le> acc_iters n'"
    and old: "nd_app_id (arr_node_data pe ! i) = -1 \<or> nd_app_id (arr_node_data pe ! i) = int a"
    and nodes: "num_nodes d' = num_nodes (arr_app_data pe ! a) + 1 - of_bool (in_app a (arr_node_data pe ! i))"
    and enough: "nodes_with_enough_iters d' = nodes_with_enough_iters (arr_app_data pe ! a)
      + of_bool (num_iters_to_collect (my_config pe) \<le> acc_iters n')
      - of_bool (in_app a (arr_node_data pe ! i) \<and>
          num_iters_to_collect (my_config pe) \<le> acc_iters (arr_node_data pe ! i))"
  shows "pe_inv (set_app (int a) d' (set_node i n' pe))"
proof -
  note D = pe_invD [OF inv]
  have other: "\<not> in_app b (arr_node_data pe ! i) \<and> \<not> in_app b n'" if "b \<noteq> a" for b
    using that id old by (auto simp: in_app_def)
  have in_n': "in_app a n'" using id by (simp add: in_app_def)
  have counters: "num_nodes (((arr_app_data pe)[a := d']) ! b) = count_if (in_app b) ((arr_node_data pe)[i := n'])"
    "nodes_with_enough_iters (((arr_app_data pe)[a := d']) ! b) =
      count_if (\<lambda>n. in_app b n \<and> num_iters_to_collect (my_config pe) \<le> acc_iters n) ((arr_node_data pe)[i := n'])"
    if b: "b < num_apps (my_config pe)" for b
    using b a i D(2) D(6) [OF b] D(7) [OF b] nodes enough in_n' other [of b]
    by (cases "b = a"; simp add: count_if_update)+
  show ?thesis
    unfolding pe_inv_def
    using D(1-3) D(4,5) id a acc i counters by (auto dest!: set_update_subset_insert [THEN subsetD])
qed

lemma model_calls_init_inv:
  assumes "model_calls_init pe i c = Inr pe'" and "pe_inv pe"
    and new: "nd_app_id (arr_node_data pe ! i) = -1" "acc_iters (arr_node_data pe ! i) = 0"
  shows "pe_inv pe'"
proof -
  obtain a d where o: "a < length (arr_app_data pe)" "i < length (arr_node_data pe)"
    "pe' = set_app (int a) d (set_node i ((arr_node_data pe ! i)\<lparr>nd_app_id := int a, last_iter := INT_MIN\<rparr>) pe)"
    "num_nodes d = num_nodes (arr_app_data pe ! a) + 1"
    "nodes_with_enough_iters d = nodes_with_enough_iters (arr_app_data pe ! a)"
    by (rule model_calls_init_outcome [OF assms(1)])
  show ?thesis
    unfolding o(3)
    by (rule pe_inv_update [OF assms(2) o(2)])
      (use o new pe_invD(2,3) [OF assms(2)] in \<open>simp_all add: in_app_def\<close>)
qed

text \<open>A report either changes nothing but the warning flag or adds an iteration to the node.\<close>

lemma model_calls_feed_outcome:
  assumes "model_calls_feed pe i iter time = Inr pe'"
  obtains (ignored) w where "pe' = pe\<lparr>shown_warning := w\<rparr>"
  | (counted) a d where "i < length (arr_node_data pe)" and "a < length (arr_app_data pe)"
    and "nd_app_id (arr_node_data pe ! i) = int a"
    and "last_iter (arr_node_data pe ! i) < iter"
    and "pe' = set_app (int a) d (set_node i (fed_node iter time (arr_node_data pe ! i)) pe)"
    and "d = (arr_app_data pe ! a)\<lparr>nodes_with_enough_iters := nodes_with_enough_iters (arr_app_data pe ! a) +
      of_bool (acc_iters (arr_node_data pe ! i) + 1 = num_iters_to_collect (my_config pe))\<rparr>"
proof -
  define n where "n = arr_node_data pe ! i"
  obtain a where a: "nd_app_id n = int a" "a < length (arr_app_data pe)" "i < length (arr_node_data pe)"
    using assms
    by (auto simp: model_calls_feed_def app_id_for_def result_iff n_def split: if_splits dest: nonneg_int_cases)
  define d where "d = arr_app_data pe ! a"
  consider "pe' = pe\<lparr>shown_warning := True\<rparr>" | "pe' = pe"
    | "last_iter n < iter" "acc_iters n + 1 = num_iters_to_collect (my_config pe)"
      "pe' = set_app (int a) (d\<lparr>nodes_with_enough_iters := nodes_with_enough_iters d + 1\<rparr>) (set_node i (fed_node iter time n) pe)"
    | "last_iter n < iter" "acc_iters n + 1 \<noteq> num_iters_to_collect (my_config pe)"
      "pe' = set_node i (fed_node iter time n) pe"
    using assms a
    by (auto simp: model_calls_feed_def app_id_for_def result_iff n_def [symmetric] d_def [symmetric]
        fed_node_def Let_def split: if_splits)
  then show ?thesis
  proof cases
    case 1
    then show ?thesis by (rule ignored)
  next
    case 2
    then show ?thesis using ignored [of "shown_warning pe"] by simp
  next
    case 3
    then show ?thesis using counted [of a] a by (simp add: n_def d_def)
  next
    case 4
    have "set_node i m pe = set_app (int a) d (set_node i m pe)" for m
      using a(2) by (simp add: set_app_def set_node_def d_def)
    with 4 show ?thesis using counted [of a d] a by (simp add: n_def d_def)
  qed
qed

lemma model_calls_feed_inv:
  assumes "model_calls_feed pe i iter time = Inr pe'" and inv: "pe_inv pe"
  shows "pe_inv pe'"
  using assms(1)
proof (cases rule: model_calls_feed_outcome)
  case (ignored w)
  then show ?thesis using inv by (simp add: pe_inv_def)
next
  case (counted a d)
  have "0 \<le> acc_iters (arr_node_data pe ! i)" using pe_invD(5) [OF inv nth_mem] counted(1) by blast
  then show ?thesis
    unfolding counted(5)
    by (intro pe_inv_update [OF inv counted(1)])
      (use counted pe_invD(2,3) [OF inv] in \<open>auto simp: fed_node_def in_app_def\<close>)
qed

lemma model_calls_ended_outcome:
  assumes "model_calls_ended pe i = Inr pe'"
  obtains a d where "i < length (arr_node_data pe)" and "a < length (arr_app_data pe)"
    and "nd_app_id (arr_node_data pe ! i) = int a" and "pe' = set_app (int a) d pe"
    and "d = (let d1 = (arr_app_data pe ! a)\<lparr>nodes_that_have_ended := nodes_that_have_ended (arr_app_data pe ! a) + 1\<rparr>
      in if nodes_that_have_ended d1 = num_nodes d1 then d1\<lparr>ad_status := APP_STATUS_just_completed\<rparr> else d1)"
  using assms
  by (auto simp: model_calls_ended_def app_id_for_def result_iff Let_def dest: nonneg_int_cases
      split: if_splits elim!: nonneg_int_cases)

lemma set_app_same_counters:
  assumes "pe_inv pe" and "a < num_apps (my_config pe)"
    and "num_nodes d = num_nodes (arr_app_data pe ! a)"
    and "nodes_with_enough_iters d = nodes_with_enough_iters (arr_app_data pe ! a)"
  shows "pe_inv (set_app (int a) d pe)"
  using assms pe_invD(2) [OF assms(1)] by (auto simp: pe_inv_def nth_list_update)

lemma model_calls_ended_inv:
  assumes "model_calls_ended pe i = Inr pe'" and "pe_inv pe"
  shows "pe_inv pe'"
proof -
  obtain a d where o: "i < length (arr_node_data pe)" "a < length (arr_app_data pe)"
    "nd_app_id (arr_node_data pe ! i) = int a" "pe' = set_app (int a) d pe"
    "d = (let d1 = (arr_app_data pe ! a)\<lparr>nodes_that_have_ended := nodes_that_have_ended (arr_app_data pe ! a) + 1\<rparr>
      in if nodes_that_have_ended d1 = num_nodes d1 then d1\<lparr>ad_status := APP_STATUS_just_completed\<rparr> else d1)"
    by (rule model_calls_ended_outcome [OF assms(1)])
  show ?thesis
    unfolding o(4) by (rule set_app_same_counters [OF assms(2)])
      (use o pe_invD(2) [OF assms(2)] in \<open>simp_all add: Let_def\<close>)
qed

subsection \<open>Collective operations\<close>

lemma on_each_Inr_iff [result_iff]:
  "on_each f xs = Inr ys \<longleftrightarrow> list_all2 (\<lambda>x y. f x = Inr y) xs ys"
  by (induction xs arbitrary: ys) (auto simp: result_iff list_all2_Cons1)

lemma on_each_map: "(\<And>x. x \<in> set xs \<Longrightarrow> f x = Inr (g x)) \<Longrightarrow> on_each f xs = Inr (map g xs)"
  by (induction xs) auto

lemma accumulate_result:
  assumes "\<forall>n\<in>set ns. nd_app_id n = -1 \<or> 0 \<le> nd_app_id n \<and> nd_app_id n < int (length acc)"
  shows "accumulate f ns acc =
    Inr (map (\<lambda>a. fold f (filter (in_app a) ns) (acc ! a)) [0..<length acc])"
  using assms
proof (induction ns arbitrary: acc)
  case Nil
  then show ?case by (simp add: map_nth)
next
  case (Cons n ns)
  show ?case
  proof (cases "nd_app_id n = -1")
    case True
    then show ?thesis using Cons by (simp add: in_app_def)
  next
    case False
    with Cons.prems obtain a where a: "nd_app_id n = int a" "a < length acc"
      by (auto elim!: nonneg_int_cases)
    have tail: "\<forall>m\<in>set ns. nd_app_id m = -1 \<or> 0 \<le> nd_app_id m \<and> nd_app_id m < int (length (acc[a := f n (acc ! a)]))"
      using Cons.prems by simp
    show ?thesis using a Cons.IH [OF tail] by (simp add: in_app_def nth_list_update)
  qed
qed

lemma per_app_result:
  assumes "pe_inv pe"
  shows "per_app f x pe =
    Inr (map (\<lambda>a. fold f (filter (in_app a) (arr_node_data pe)) x) [0..<num_apps (my_config pe)])"
proof -
  have ids: "\<forall>n\<in>set (arr_node_data pe). nd_app_id n = -1 \<or>
      0 \<le> nd_app_id n \<and> nd_app_id n < int (length (replicate (num_apps (my_config pe)) x))"
    using pe_invD(4) [OF assms] by simp
  show ?thesis unfolding per_app_def accumulate_result [OF ids] by simp
qed

lemma elementwiseD:
  "elementwise red f \<Longrightarrow> xss \<noteq> [] \<Longrightarrow> (\<And>xs. xs \<in> set xss \<Longrightarrow> length xs = n) \<Longrightarrow>
    f xss = map (\<lambda>k. red (map (\<lambda>xs. xs ! k) xss)) [0..<n]"
  by (simp add: elementwise_def)

text \<open>The PEs of a simulation know the same applications.\<close>

definition pes_inv :: "nat \<Rightarrow> predictor_pe list \<Rightarrow> bool" where
  "pes_inv A pes \<longleftrightarrow> pes \<noteq> [] \<and> (\<forall>pe\<in>set pes. pe_inv pe \<and> num_apps (my_config pe) = A)"

lemma pes_invD:
  "pes_inv A pes \<Longrightarrow> pes \<noteq> []"
  "pes_inv A pes \<Longrightarrow> pe \<in> set pes \<Longrightarrow> pe_inv pe"
  "pes_inv A pes \<Longrightarrow> pe \<in> set pes \<Longrightarrow> num_apps (my_config pe) = A"
  "pes_inv A pes \<Longrightarrow> pe \<in> set pes \<Longrightarrow> length (arr_app_data pe) = A"
  by (auto simp: pes_inv_def dest: pe_invD(2))

lemma per_app_each:
  assumes "pes_inv A pes"
  shows "on_each (per_app f x) pes =
    Inr (map (\<lambda>pe. map (\<lambda>a. fold f (filter (in_app a) (arr_node_data pe)) x) [0..<A]) pes)"
  using assms by (intro on_each_map) (simp add: per_app_result pes_invD)

lemma reduce_per_app:
  assumes "pes_inv A pes" and "elementwise red op"
  shows "op (map (\<lambda>pe. map (\<lambda>a. g a pe) [0..<A]) pes) = map (\<lambda>a. red (map (g a) pes)) [0..<A]"
proof -
  have "op (map (\<lambda>pe. map (\<lambda>a. g a pe) [0..<A]) pes) =
      map (\<lambda>k. red (map (\<lambda>xs. xs ! k) (map (\<lambda>pe. map (\<lambda>a. g a pe) [0..<A]) pes))) [0..<A]"
    by (rule elementwiseD [OF assms(2)]) (use assms(1) in \<open>auto simp: pes_inv_def\<close>)
  also have "\<dots> = map (\<lambda>a. red (map (g a) pes)) [0..<A]"
    by (intro map_cong refl arg_cong [of _ _ red]) (auto simp: comp_def)
  finally show ?thesis .
qed

lemma reduce_apps:
  assumes "pes_inv A pes" and "elementwise red op"
  shows "op (map (map f \<circ> arr_app_data) pes) = map (\<lambda>a. red (map (\<lambda>pe. f (arr_app_data pe ! a)) pes)) [0..<A]"
proof -
  have "map (map f \<circ> arr_app_data) pes = map (\<lambda>pe. map (\<lambda>a. f (arr_app_data pe ! a)) [0..<A]) pes"
    by (intro map_cong refl) (auto simp: pes_invD(4) [OF assms(1)] intro!: nth_equalityI)
  then show ?thesis using reduce_per_app [OF assms, of "\<lambda>a pe. f (arr_app_data pe ! a)"] by (simp only:)
qed

lemma mpi_documentedD:
  assumes "mpi_documented mpi"
  shows "elementwise (\<lambda>xs. Max (set xs)) (int_max mpi)" and "elementwise sum_list (int_sum mpi)"
    and "elementwise sum_list (double_sum mpi)" and "elementwise (\<lambda>xs. \<forall>x\<in>set xs. x) (bool_and mpi)"
  using assms by (simp_all add: mpi_documented_def)

lemma find_max_iter_total:
  assumes "pes_inv A pes" and "mpi_documented mpi"
  shows "\<exists>lasts. find_max_iter_per_app mpi pes = Inr lasts \<and> length lasts = A"
  by (simp add: find_max_iter_per_app_def per_app_each [OF assms(1)]
      reduce_per_app [OF assms(1) mpi_documentedD(1) [OF assms(2)]])

lemma app_ended_everywhere:
  assumes "pes_inv A pes" and "mpi_documented mpi"
  shows "has_any_app_ended mpi pes =
    map (\<lambda>a. \<forall>pe\<in>set pes. ad_status (arr_app_data pe ! a) = APP_STATUS_just_completed) [0..<A]"
  by (simp add: has_any_app_ended_def reduce_apps [OF assms(1) mpi_documentedD(4) [OF assms(2)]])

subsection \<open>The PEs agree\<close>

text \<open>What the PEs have to agree on: the type of an application, whether it has ended
  everywhere, and its ending iteration.\<close>

definition shared_view :: "app_data \<Rightarrow> NODE_TYPE \<times> bool \<times> int" where
  "shared_view d = (ad_type d, ad_status d = APP_STATUS_completed_everywhere,
     if ad_type d = NODE_TYPE_app then ending_iteration d else 0)"

definition app_ok :: "app_data \<Rightarrow> bool" where
  "app_ok d \<longleftrightarrow>
     (ad_type d = NODE_TYPE_app \<and> ad_status d \<noteq> APP_STATUS_running \<longrightarrow> nodes_that_have_ended d = num_nodes d) \<and>
     (ad_type d = NODE_TYPE_unassigned \<longrightarrow> num_nodes d = 0 \<and> nodes_that_have_ended d = 0)"

definition agreement :: "(NODE_TYPE \<times> bool \<times> int) list \<Rightarrow> predictor_pe list \<Rightarrow> bool" where
  "agreement vs pes \<longleftrightarrow> (\<forall>pe\<in>set pes. map shared_view (arr_app_data pe) = vs) \<and>
     (\<forall>v\<in>set vs. fst v = NODE_TYPE_app \<or> fst (snd v))"

definition world_inv :: "nat \<Rightarrow> predictor_world \<Rightarrow> bool" where
  "world_inv A w \<longleftrightarrow>
     pes_inv A (pw_pes w) \<and>
     (\<forall>pe\<in>set (pw_pes w). \<forall>d\<in>set (arr_app_data pe). app_ok d) \<and>
     (if post_init_done w then \<exists>vs. agreement vs (pw_pes w)
      else \<forall>pe\<in>set (pw_pes w). \<forall>d\<in>set (arr_app_data pe). ad_status d \<noteq> APP_STATUS_completed_everywhere)"

text \<open>An operation of one PE that keeps the views keeps the invariant of all of them.\<close>

lemma world_inv_update:
  assumes inv: "world_inv A w" and k: "k < length (pw_pes w)"
    and pe: "pe_inv pe'" "my_config pe' = my_config (pw_pes w ! k)"
    and ok: "\<forall>d\<in>set (arr_app_data pe'). app_ok d"
    and view: "map shared_view (arr_app_data pe') = map shared_view (arr_app_data (pw_pes w ! k))"
  shows "world_inv A (w\<lparr>pw_pes := (pw_pes w)[k := pe']\<rparr>)"
proof -
  have upd: "pe \<in> set ((pw_pes w)[k := pe']) \<Longrightarrow> pe = pe' \<or> pe \<in> set (pw_pes w)" for pe
    using set_update_subset_insert [of "pw_pes w" k pe'] by auto
  have old: "pw_pes w ! k \<in> set (pw_pes w)" using k by simp
  have shape: "pes_inv A ((pw_pes w)[k := pe'])"
    using inv pe old upd k unfolding world_inv_def pes_inv_def
    by (metis list_update_nonempty)
  have ended: "(\<forall>d\<in>set (arr_app_data pe'). ad_status d \<noteq> APP_STATUS_completed_everywhere) \<longleftrightarrow>
      (\<forall>d\<in>set (arr_app_data (pw_pes w ! k)). ad_status d \<noteq> APP_STATUS_completed_everywhere)"
  proof -
    have "(\<forall>d\<in>set ds. ad_status d \<noteq> APP_STATUS_completed_everywhere) \<longleftrightarrow>
        (\<forall>v\<in>set (map shared_view ds). \<not> fst (snd v))" for ds
      by (auto simp: shared_view_def)
    then show ?thesis using view by (simp only:)
  qed
  have apps: "\<forall>pe\<in>set ((pw_pes w)[k := pe']). \<forall>d\<in>set (arr_app_data pe). app_ok d"
    using inv upd ok unfolding world_inv_def by blast
  show ?thesis
  proof (cases "post_init_done w")
    case True
    with inv obtain vs where vs: "agreement vs (pw_pes w)" by (auto simp: world_inv_def)
    have "map shared_view (arr_app_data pe) = vs" if "pe \<in> set ((pw_pes w)[k := pe'])" for pe
      using upd [OF that] vs old view by (auto simp: agreement_def)
    with vs have "agreement vs ((pw_pes w)[k := pe'])" by (simp add: agreement_def)
    then show ?thesis using True shape apps by (auto simp: world_inv_def)
  next
    case False
    have "\<forall>pe\<in>set ((pw_pes w)[k := pe']). \<forall>d\<in>set (arr_app_data pe).
        ad_status d \<noteq> APP_STATUS_completed_everywhere"
      using inv False upd ended old unfolding world_inv_def by metis
    then show ?thesis using False shape apps by (simp add: world_inv_def)
  qed
qed

lemma app_ok_update:
  assumes "\<forall>d\<in>set ds. app_ok d" and "app_ok d'"
  shows "\<forall>d\<in>set (ds[a := d']). app_ok d"
  using assms set_update_subset_insert [of ds a d'] by auto

lemma same_view_update:
  assumes "a < length ds" and "shared_view d' = shared_view (ds ! a)"
  shows "map shared_view (ds[a := d']) = map shared_view ds"
  using assms by (simp add: map_update) (metis list_update_id map_update nth_map)

text \<open>The same for an operation that replaces one application and perhaps a node.\<close>

lemma world_inv_set_app:
  assumes inv: "world_inv A w" and k: "k < length (pw_pes w)"
    and pe': "pe_inv pe'" "my_config pe' = my_config (pw_pes w ! k)"
      "arr_app_data pe' = (arr_app_data (pw_pes w ! k))[a := d]"
    and a: "a < length (arr_app_data (pw_pes w ! k))"
    and d: "app_ok d" "shared_view d = shared_view (arr_app_data (pw_pes w ! k) ! a)"
  shows "world_inv A (w\<lparr>pw_pes := (pw_pes w)[k := pe']\<rparr>)"
proof (rule world_inv_update [OF inv k pe'(1,2)])
  have "\<forall>d\<in>set (arr_app_data (pw_pes w ! k)). app_ok d"
    using inv k by (auto simp: world_inv_def)
  then show "\<forall>d\<in>set (arr_app_data pe'). app_ok d"
    unfolding pe'(3) using d(1) by (rule app_ok_update)
  show "map shared_view (arr_app_data pe') = map shared_view (arr_app_data (pw_pes w ! k))"
    unfolding pe'(3) by (rule same_view_update [OF a d(2)])
qed

lemma world_inv_pe:
  assumes "world_inv A w" and "k < length (pw_pes w)"
  shows "pe_inv (pw_pes w ! k)" and "a < length (arr_app_data (pw_pes w ! k)) \<Longrightarrow> app_ok (arr_app_data (pw_pes w ! k) ! a)"
  using assms unfolding world_inv_def pes_inv_def by (blast intro: nth_mem)+

lemma feed_world_inv:
  assumes inv: "world_inv A w" and k: "k < length (pw_pes w)"
    and run: "model_calls_feed (pw_pes w ! k) i iter time = Inr pe'"
  shows "world_inv A (w\<lparr>pw_pes := (pw_pes w)[k := pe']\<rparr>)"
proof -
  have pe': "pe_inv pe'" by (rule model_calls_feed_inv [OF run world_inv_pe(1) [OF inv k]])
  show ?thesis
    using run
  proof (cases rule: model_calls_feed_outcome)
    case (ignored v)
    show ?thesis
      by (rule world_inv_update [OF inv k pe'])
        (use ignored inv k in \<open>auto simp: world_inv_def\<close>)
  next
    case (counted a d)
    show ?thesis
      by (rule world_inv_set_app [OF inv k pe', of a d])
        (use counted world_inv_pe(2) [OF inv k counted(2)] in \<open>simp_all add: app_ok_def shared_view_def\<close>)
  qed
qed

text \<open>A node that ends while its application runs; it ends once, so that the application has
  nodes that have not ended.\<close>

definition may_end :: "predictor_pe \<Rightarrow> nat \<Rightarrow> bool" where
  "may_end pe i \<longleftrightarrow>
     (let d = arr_app_data pe ! nat (nd_app_id (arr_node_data pe ! i)) in
      ad_type d = NODE_TYPE_app \<and> nodes_that_have_ended d < num_nodes d)"

lemma ended_world_inv:
  assumes inv: "world_inv A w" and k: "k < length (pw_pes w)" and may: "may_end (pw_pes w ! k) i"
    and run: "model_calls_ended (pw_pes w ! k) i = Inr pe'"
  shows "world_inv A (w\<lparr>pw_pes := (pw_pes w)[k := pe']\<rparr>)"
proof -
  let ?pe = "pw_pes w ! k"
  have pe': "pe_inv pe'" by (rule model_calls_ended_inv [OF run world_inv_pe(1) [OF inv k]])
  obtain a d where o: "i < length (arr_node_data ?pe)" "a < length (arr_app_data ?pe)"
    "nd_app_id (arr_node_data ?pe ! i) = int a" "pe' = set_app (int a) d ?pe"
    "d = (let d1 = (arr_app_data ?pe ! a)\<lparr>nodes_that_have_ended := nodes_that_have_ended (arr_app_data ?pe ! a) + 1\<rparr>
      in if nodes_that_have_ended d1 = num_nodes d1 then d1\<lparr>ad_status := APP_STATUS_just_completed\<rparr> else d1)"
    by (rule model_calls_ended_outcome [OF run])
  have run': "ad_type (arr_app_data ?pe ! a) = NODE_TYPE_app" "ad_status (arr_app_data ?pe ! a) = APP_STATUS_running"
    using may world_inv_pe(2) [OF inv k o(2)] o(3) by (auto simp: may_end_def app_ok_def Let_def)
  show ?thesis
    by (rule world_inv_set_app [OF inv k pe', of a d])
      (use o run' in \<open>simp_all add: Let_def app_ok_def shared_view_def\<close>)
qed

lemma reset_app_fields [simp]:
  "num_nodes (reset_app d b) = num_nodes d" "nodes_with_enough_iters (reset_app d b) = 0"
  "nodes_that_have_ended (reset_app d b) = nodes_that_have_ended d" "ad_type (reset_app d b) = ad_type d"
  "ending_iteration (reset_app d b) = ending_iteration d"
  "ad_status (reset_app d b) = (if b then APP_STATUS_completed_everywhere else ad_status d)"
  by (simp_all add: reset_app_def Let_def)

lemma reset_node_fields [simp]:
  "nd_app_id (reset_node lasts apps n) = nd_app_id n"
  "acc_iters (reset_node lasts apps n) = (if nd_app_id n = -1 then acc_iters n else 0)"
  by (simp_all add: reset_node_def Let_def)

lemma reset_pe_fields [simp]:
  "my_config (reset_pe lasts b pe) = my_config pe"
  "arr_app_data (reset_pe lasts b pe) = map2 reset_app (arr_app_data pe) b"
  "arr_node_data (reset_pe lasts b pe) = map (reset_node lasts (arr_app_data pe)) (arr_node_data pe)"
  by (simp_all add: reset_pe_def)

lemma reset_pe_inv:
  assumes inv: "pe_inv pe" and len: "length b = num_apps (my_config pe)"
  shows "pe_inv (reset_pe lasts b pe)"
proof -
  note D = pe_invD [OF inv]
  have keep: "count_if (in_app a) (map (reset_node lasts apps) ns) = count_if (in_app a) ns" for a apps ns
    unfolding count_if_map by (rule count_if_cong) (simp add: in_app_def)
  have zero: "count_if (\<lambda>n. in_app a n \<and> num_iters_to_collect (my_config pe) \<le> acc_iters n)
      (map (reset_node lasts apps) ns) = 0" for a apps ns
    using D(3) by (intro count_if_zero) (auto simp: in_app_def)
  show ?thesis
    unfolding pe_inv_def using D(1-3) D(4,5,6) len by (auto simp: keep zero)
qed

lemma reset_world_inv:
  assumes inv: "world_inv A w" and mpi: "mpi_documented mpi" and init: "post_init_done w"
    and run: "reset_with mpi (has_any_app_ended mpi (pw_pes w)) (pw_pes w) = Inr pes"
  shows "world_inv A (w\<lparr>pw_pes := pes\<rparr>)"
proof -
  let ?b = "has_any_app_ended mpi (pw_pes w)"
  have shape: "pes_inv A (pw_pes w)" and oks: "\<forall>pe\<in>set (pw_pes w). \<forall>d\<in>set (arr_app_data pe). app_ok d"
    using inv by (auto simp: world_inv_def)
  have b: "?b = map (\<lambda>a. \<forall>pe\<in>set (pw_pes w). ad_status (arr_app_data pe ! a) = APP_STATUS_just_completed) [0..<A]"
    by (rule app_ended_everywhere [OF shape mpi])
  obtain lasts where pes: "pes = map (reset_pe lasts ?b) (pw_pes w)"
    using run by (auto simp: reset_with_def result_iff)
  have shape': "pes_inv A pes"
    unfolding pes using shape by (auto simp: pes_inv_def b intro!: reset_pe_inv)
  have "app_ok d" if pe: "pe \<in> set (pw_pes w)" and d: "d \<in> set (map2 reset_app (arr_app_data pe) ?b)" for pe d
  proof -
    obtain a where a: "a < A" "d = reset_app (arr_app_data pe ! a) (?b ! a)"
      using d pes_invD(4) [OF shape pe] by (auto simp: in_set_conv_nth b)
    have "app_ok (arr_app_data pe ! a)" using oks pe a(1) pes_invD(4) [OF shape pe] by auto
    moreover have "?b ! a \<Longrightarrow> ad_status (arr_app_data pe ! a) = APP_STATUS_just_completed"
      using a(1) pe by (simp add: b)
    ultimately show ?thesis unfolding a(2) app_ok_def by auto
  qed
  then have ok': "\<forall>pe\<in>set pes. \<forall>d\<in>set (arr_app_data pe). app_ok d"
    unfolding pes by simp
  obtain vs where vs: "agreement vs (pw_pes w)" using inv init by (auto simp: world_inv_def)
  let ?vs = "map2 (\<lambda>(ty, ended, e) b. (ty, ended \<or> b, e)) vs ?b"
  have "map shared_view (map2 reset_app ds ?b) =
      map2 (\<lambda>(ty, ended, e) b. (ty, ended \<or> b, e)) (map shared_view ds) ?b" for ds
    by (rule nth_equalityI) (auto simp: shared_view_def)
  moreover have "\<forall>v\<in>set ?vs. fst v = NODE_TYPE_app \<or> fst (snd v)"
  proof
    fix v assume "v \<in> set ?vs"
    then obtain u b where "u \<in> set vs" "v = (fst u, fst (snd u) \<or> b, snd (snd u))"
      by (auto dest!: set_zip_leftD)
    then show "fst v = NODE_TYPE_app \<or> fst (snd v)" using vs by (auto simp: agreement_def)
  qed
  ultimately have "agreement ?vs pes"
    using vs unfolding pes agreement_def by simp
  then show ?thesis using shape' ok' init by (auto simp: world_inv_def)
qed

lemma share_app_outcome:
  assumes "share_app ty e d = Inr d'" and "ad_status d \<noteq> APP_STATUS_completed_everywhere"
  shows "shared_view d' = (ty, ty \<noteq> NODE_TYPE_app, if ty = NODE_TYPE_app then e else 0)"
    and "num_nodes d' = num_nodes d" and "nodes_with_enough_iters d' = nodes_with_enough_iters d"
    and "app_ok d \<Longrightarrow> app_ok d'"
  using assms
  by (cases "ad_type d"; auto simp: share_app_def shared_view_def app_ok_def result_iff
      split: NODE_TYPE.splits if_splits)+

lemma share_apps_outcome:
  assumes "share_apps tys es ds = Inr ds'" and "length tys = length ds" and "length es = length ds"
  shows "length ds' = length ds \<and> (\<forall>a<length ds. share_app (tys ! a) (es ! a) (ds ! a) = Inr (ds' ! a))"
  using assms
proof (induction tys es ds arbitrary: ds' rule: share_apps.induct)
  case (1 ty tys e es d ds)
  then show ?case by (auto simp: result_iff nth_Cons split: nat.splits)
qed auto

lemma share_pe_inv:
  assumes run: "share_apps tys es (arr_app_data pe) = Inr ds" and inv: "pe_inv pe"
    and len: "length tys = length (arr_app_data pe)" "length es = length (arr_app_data pe)"
    and fresh: "\<forall>d\<in>set (arr_app_data pe). ad_status d \<noteq> APP_STATUS_completed_everywhere"
    and ok: "\<forall>d\<in>set (arr_app_data pe). app_ok d"
  shows "pe_inv (pe\<lparr>arr_app_data := ds\<rparr>)" and "\<forall>d\<in>set ds. app_ok d"
    and "map shared_view ds =
      map2 (\<lambda>ty e. (ty, ty \<noteq> NODE_TYPE_app, if ty = NODE_TYPE_app then e else 0)) tys es"
proof -
  have o: "length ds = length (arr_app_data pe)"
    "\<And>a. a < length (arr_app_data pe) \<Longrightarrow> share_app (tys ! a) (es ! a) (arr_app_data pe ! a) = Inr (ds ! a)"
    using share_apps_outcome [OF run len] by auto
  have f: "\<And>a. a < length (arr_app_data pe) \<Longrightarrow> ad_status (arr_app_data pe ! a) \<noteq> APP_STATUS_completed_everywhere"
    using fresh by auto
  show "pe_inv (pe\<lparr>arr_app_data := ds\<rparr>)"
    using inv o(1) share_app_outcome(2,3) [OF o(2) f] by (auto simp: pe_inv_def)
  show "\<forall>d\<in>set ds. app_ok d"
    using o(1) share_app_outcome(4) [OF o(2) f] ok by (metis in_set_conv_nth)
  show "map shared_view ds =
      map2 (\<lambda>ty e. (ty, ty \<noteq> NODE_TYPE_app, if ty = NODE_TYPE_app then e else 0)) tys es"
    using o(1) len share_app_outcome(1) [OF o(2) f] by (intro nth_equalityI) auto
qed

lemma post_init_world_inv:
  assumes inv: "world_inv A w" and mpi: "mpi_documented mpi" and init: "\<not> post_init_done w"
    and run: "post_init_share_ending_iteration mpi (pw_pes w) = Inr pes"
  shows "world_inv A \<lparr>pw_pes = pes, post_init_done = True\<rparr>"
proof -
  let ?es = "int_max mpi (map (map ending_iteration \<circ> arr_app_data) (pw_pes w))"
  let ?tys = "find_app_types mpi (pw_pes w)"
  let ?vs = "map2 (\<lambda>ty e. (ty, ty \<noteq> NODE_TYPE_app, if ty = NODE_TYPE_app then e else 0)) ?tys ?es"
  have shape: "pes_inv A (pw_pes w)" using inv by (simp add: world_inv_def)
  have len: "length ?es = A" "length ?tys = A"
    by (simp_all add: find_app_types_def reduce_apps [OF shape mpi_documentedD(1) [OF mpi]])
  have each: "list_all2 (\<lambda>pe pe'. \<exists>ds. share_apps ?tys ?es (arr_app_data pe) = Inr ds \<and> pe' = pe\<lparr>arr_app_data := ds\<rparr>)
      (pw_pes w) pes"
    using run by (auto simp: post_init_share_ending_iteration_def Let_def result_iff elim!: list_all2_mono)
  have one: "pe_inv pe' \<and> num_apps (my_config pe') = A \<and> (\<forall>d\<in>set (arr_app_data pe'). app_ok d) \<and>
      map shared_view (arr_app_data pe') = ?vs" if pe': "pe' \<in> set pes" for pe'
  proof -
    obtain pe ds where pe: "pe \<in> set (pw_pes w)" "share_apps ?tys ?es (arr_app_data pe) = Inr ds"
      "pe' = pe\<lparr>arr_app_data := ds\<rparr>"
      using each pe' unfolding list_all2_conv_all_nth by (metis in_set_conv_nth)
    have h: "pe_inv pe" "length ?tys = length (arr_app_data pe)" "length ?es = length (arr_app_data pe)"
      "\<forall>d\<in>set (arr_app_data pe). ad_status d \<noteq> APP_STATUS_completed_everywhere"
      "\<forall>d\<in>set (arr_app_data pe). app_ok d"
      using inv init pe(1) len pes_invD(2,4) [OF shape pe(1)] by (simp_all add: world_inv_def)
    show ?thesis using share_pe_inv [OF pe(2) h] pe(3) pes_invD(3) [OF shape pe(1)] by simp
  qed
  have "pes \<noteq> []" using each pes_invD(1) [OF shape] by auto
  with one have "pes_inv A pes" "\<forall>pe\<in>set pes. \<forall>d\<in>set (arr_app_data pe). app_ok d"
    by (simp_all add: pes_inv_def)
  moreover have "agreement ?vs pes" using one by (auto simp: agreement_def)
  ultimately show ?thesis by (auto simp: world_inv_def)
qed

lemma ready_cases:
  assumes inv: "world_inv A w" and mpi: "mpi_documented mpi"
    and run: "director_calls_is_predictor_ready mpi w = Inr r"
  obtains w1 where "world_inv A w1" and "post_init_done w1"
    and "pw_pes w1 = (if post_init_done w then pw_pes w
      else projr (post_init_share_ending_iteration mpi (pw_pes w)))"
    and "r = (let just_ended = has_any_app_ended mpi (pw_pes w1) in
      if list_ex (\<lambda>b. b) just_ended
      then Some (w1\<lparr>pw_pes := projr (reset_with mpi just_ended (pw_pes w1))\<rparr>, False)
      else if list_all all_apps_ended (pw_pes w1) then Some (w1, False)
      else if list_ex all_apps_ended (pw_pes w1) then None
      else Some (w1, hd (bool_and mpi (map (\<lambda>pe. [has_everyone_accumulated_enough pe]) (pw_pes w1)))))"
proof -
  obtain pes where pes: "(if post_init_done w then Inr (pw_pes w)
      else post_init_share_ending_iteration mpi (pw_pes w)) = Inr pes"
    using run by (auto simp: director_calls_is_predictor_ready_def result_iff)
  define w1 where "w1 = \<lparr>pw_pes = pes, post_init_done = True\<rparr>"
  have inv1: "world_inv A w1"
  proof (cases "post_init_done w")
    case True
    with pes have "w1 = w" by (simp add: w1_def)
    with inv show ?thesis by simp
  next
    case False
    then show ?thesis
      using post_init_world_inv [OF inv mpi False] pes by (simp add: w1_def)
  qed
  have "\<exists>x. reset_with mpi b pes = Inr x" for b
    using inv1 find_max_iter_total [of A pes mpi] mpi by (auto simp: world_inv_def w1_def reset_with_def)
  then show ?thesis
    using run pes inv1
    by (intro that [of w1]) (auto simp: director_calls_is_predictor_ready_def w1_def Let_def result_iff split: if_splits)
qed

lemma all_apps_ended_agree:
  assumes "agreement vs pes" and "pe \<in> set pes" and "pe' \<in> set pes"
  shows "all_apps_ended pe \<longleftrightarrow> all_apps_ended pe'"
proof -
  have "all_apps_ended q \<longleftrightarrow> (\<forall>v\<in>set (map shared_view (arr_app_data q)). fst (snd v))" for q
    by (simp add: all_apps_ended_def shared_view_def list_all_iff)
  then show ?thesis using assms by (simp only: agreement_def)
qed

lemma ready_world_inv:
  assumes inv: "world_inv A w" and mpi: "mpi_documented mpi"
    and run: "director_calls_is_predictor_ready mpi w = Inr r"
  shows "\<exists>w' b. r = Some (w', b) \<and> world_inv A w' \<and> post_init_done w' \<and>
    (b \<longrightarrow> (\<forall>pe\<in>set (pw_pes w'). has_everyone_accumulated_enough pe))"
proof -
  obtain w1 where w1: "world_inv A w1" "post_init_done w1"
    "r = (let just_ended = has_any_app_ended mpi (pw_pes w1) in
      if list_ex (\<lambda>b. b) just_ended
      then Some (w1\<lparr>pw_pes := projr (reset_with mpi just_ended (pw_pes w1))\<rparr>, False)
      else if list_all all_apps_ended (pw_pes w1) then Some (w1, False)
      else if list_ex all_apps_ended (pw_pes w1) then None
      else Some (w1, hd (bool_and mpi (map (\<lambda>pe. [has_everyone_accumulated_enough pe]) (pw_pes w1)))))"
    by (rule ready_cases [OF inv mpi run])
  have shape: "pes_inv A (pw_pes w1)" using w1(1) by (simp add: world_inv_def)
  obtain vs where vs: "agreement vs (pw_pes w1)" using w1(1,2) by (auto simp: world_inv_def)
  obtain pes where pes: "reset_with mpi (has_any_app_ended mpi (pw_pes w1)) (pw_pes w1) = Inr pes"
    using find_max_iter_total [OF shape mpi] by (auto simp: reset_with_def)
  have reset: "world_inv A (w1\<lparr>pw_pes := pes\<rparr>)" by (rule reset_world_inv [OF w1(1) mpi w1(2) pes])
  have same: "list_ex all_apps_ended (pw_pes w1) \<Longrightarrow> list_all all_apps_ended (pw_pes w1)"
    unfolding list_all_iff list_ex_iff by (blast dest: all_apps_ended_agree [OF vs])
  have "bool_and mpi (map (\<lambda>pe. [has_everyone_accumulated_enough pe]) (pw_pes w1)) =
      map (\<lambda>k. \<forall>x\<in>set (map (\<lambda>xs. xs ! k) (map (\<lambda>pe. [has_everyone_accumulated_enough pe]) (pw_pes w1))). x) [0..<1]"
    by (rule elementwiseD [OF mpi_documentedD(4) [OF mpi]]) (use pes_invD(1) [OF shape] in auto)
  then have all: "hd (bool_and mpi (map (\<lambda>pe. [has_everyone_accumulated_enough pe]) (pw_pes w1))) \<longleftrightarrow>
      (\<forall>pe\<in>set (pw_pes w1). has_everyone_accumulated_enough pe)"
    by simp
  consider "list_ex (\<lambda>b. b) (has_any_app_ended mpi (pw_pes w1))"
    | "\<not> list_ex (\<lambda>b. b) (has_any_app_ended mpi (pw_pes w1))" "list_all all_apps_ended (pw_pes w1)"
    | "\<not> list_ex (\<lambda>b. b) (has_any_app_ended mpi (pw_pes w1))" "\<not> list_ex all_apps_ended (pw_pes w1)"
      "\<not> list_all all_apps_ended (pw_pes w1)"
    using same by blast
  then show ?thesis
  proof cases
    case 1
    then have "r = Some (w1\<lparr>pw_pes := pes\<rparr>, False)" unfolding w1(3) by (simp add: pes Let_def)
    then show ?thesis using reset w1(2) by auto
  next
    case 2
    then have "r = Some (w1, False)" unfolding w1(3) by (simp add: Let_def)
    then show ?thesis using w1(1,2) by auto
  next
    case 3
    then have "r = Some (w1, \<forall>pe\<in>set (pw_pes w1). has_everyone_accumulated_enough pe)"
      unfolding w1(3) all [symmetric] by (simp add: Let_def)
    then show ?thesis using w1(1,2) by simp
  qed
qed

lemma progress_of_nth:
  assumes "length rs = A" "length avgs = A" "length ls = A" "length ts = A" "length ds = A"
  shows "length (progress_of rs avgs ls ts ds) = A"
    and "a < A \<Longrightarrow> progress_of rs avgs ls ts ds ! a = \<lparr>ap_running = rs ! a, ap_avg = avgs ! a,
      ap_last = ls ! a, ap_time = ts ! a, ap_ending = ending_iteration (ds ! a)\<rparr>"
proof -
  have "length (progress_of rs avgs ls ts ds) = A \<and> (\<forall>a<A. progress_of rs avgs ls ts ds ! a = \<lparr>ap_running = rs ! a,
      ap_avg = avgs ! a, ap_last = ls ! a, ap_time = ts ! a, ap_ending = ending_iteration (ds ! a)\<rparr>)"
    using assms
  proof (induction rs avgs ls ts ds arbitrary: A rule: progress_of.induct)
    case (1 r rs a avgs l ls t ts d ds)
    then show ?case by (cases A) (auto simp: nth_Cons split: nat.splits)
  qed auto
  then show "length (progress_of rs avgs ls ts ds) = A"
    and "a < A \<Longrightarrow> progress_of rs avgs ls ts ds ! a = \<lparr>ap_running = rs ! a, ap_avg = avgs ! a,
      ap_last = ls ! a, ap_time = ts ! a, ap_ending = ending_iteration (ds ! a)\<rparr>"
    by auto
qed

lemma set_app_prediction_data_nth:
  assumes "length ps = length ds" "length rs = length ds"
  shows "length (set_app_prediction_data t ds ps rs) = length ds"
    and "a < length ds \<Longrightarrow> set_app_prediction_data t ds ps rs ! a = set_app_prediction t (ds ! a) (ps ! a) (rs ! a)"
proof -
  have "length (set_app_prediction_data t ds ps rs) = length ds \<and> (\<forall>a<length ds.
      set_app_prediction_data t ds ps rs ! a = set_app_prediction t (ds ! a) (ps ! a) (rs ! a))"
    using assms
  proof (induction t ds ps rs rule: set_app_prediction_data.induct)
    case (1 t d ds p ps r rs)
    then show ?case by (auto simp: nth_Cons split: nat.splits)
  qed auto
  then show "length (set_app_prediction_data t ds ps rs) = length ds"
    and "a < length ds \<Longrightarrow> set_app_prediction_data t ds ps rs ! a = set_app_prediction t (ds ! a) (ps ! a) (rs ! a)"
    by auto
qed

lemma set_app_prediction_keeps:
  "num_nodes (set_app_prediction t d p r) = num_nodes d"
  "nodes_with_enough_iters (set_app_prediction t d p r) = nodes_with_enough_iters d"
  "app_ok (set_app_prediction t d p r) = app_ok d"
  "shared_view (set_app_prediction t d p r) = shared_view d"
  by (simp_all add: set_app_prediction_def app_ok_def shared_view_def split: NODE_TYPE.splits option.splits prod.splits)

lemma plan_jump_outcome:
  assumes "plan_jump ps pe = Inr (pe', ff)" and "pe_inv pe" and "length ps = num_apps (my_config pe)"
  shows "pe_inv pe'" and "my_config pe' = my_config pe"
    and "(\<forall>d\<in>set (arr_app_data pe). app_ok d) \<Longrightarrow> \<forall>d\<in>set (arr_app_data pe'). app_ok d"
    and "map shared_view (arr_app_data pe') = map shared_view (arr_app_data pe)"
proof -
  note D = pe_invD [OF assms(2)]
  consider "pe' = pe"
    | t rs where "length rs = length ps"
      "pe' = pe\<lparr>arr_app_data := set_app_prediction_data t (arr_app_data pe) ps rs, ready_to_skip := True\<rparr>"
    using assms(1)
    by (auto simp: plan_jump_def compute_restart_params_def result_iff list_all2_lengthD split: if_splits prod.splits)
  then have "pe_inv pe' \<and> my_config pe' = my_config pe \<and>
    ((\<forall>d\<in>set (arr_app_data pe). app_ok d) \<longrightarrow> (\<forall>d\<in>set (arr_app_data pe'). app_ok d)) \<and>
    map shared_view (arr_app_data pe') = map shared_view (arr_app_data pe)"
  proof cases
    case 1
    with assms(2) show ?thesis by simp
  next
    case 2
    let ?ds = "set_app_prediction_data t (arr_app_data pe) ps rs"
    have len: "length ps = length (arr_app_data pe)" "length rs = length (arr_app_data pe)"
      using 2(1) assms(3) D(2) by simp_all
    note nth = set_app_prediction_data_nth [OF len, where t = t]
    have "pe_inv pe'"
      using assms(2) D(2) by (simp add: 2(2) pe_inv_def nth set_app_prediction_keeps)
    moreover have "app_ok d" if oks: "\<forall>d\<in>set (arr_app_data pe). app_ok d" and mem: "d \<in> set ?ds" for d
    proof -
      obtain a where a: "a < length (arr_app_data pe)" "d = ?ds ! a"
        using mem nth(1) by (metis in_set_conv_nth)
      then show ?thesis using oks by (simp add: nth(2) set_app_prediction_keeps)
    qed
    moreover have "map shared_view ?ds = map shared_view (arr_app_data pe)"
      by (rule nth_equalityI) (simp_all add: nth set_app_prediction_keeps)
    ultimately show ?thesis by (simp add: 2(2))
  qed
  then show "pe_inv pe'" "my_config pe' = my_config pe"
    "(\<forall>d\<in>set (arr_app_data pe). app_ok d) \<Longrightarrow> \<forall>d\<in>set (arr_app_data pe'). app_ok d"
    "map shared_view (arr_app_data pe') = map shared_view (arr_app_data pe)"
    by simp_all
qed

subsection \<open>All PEs plan the same jump\<close>

lemma averages:
  assumes "pes_inv A pes" and "mpi_documented mpi"
  shows "find_avg_iteration_time mpi pes = Inr (map (\<lambda>a.
    let t = sum_list (map (\<lambda>pe. fold (\<lambda>n x. x + acc_iteration_time n) (filter (in_app a) (arr_node_data pe)) 0) pes);
        k = sum_list (map (\<lambda>pe. fold (\<lambda>n k. k + acc_iters n) (filter (in_app a) (arr_node_data pe)) 0) pes)
    in if k \<noteq> 0 then Some (t / of_int k) else None) [0..<A])"
  by (simp add: find_avg_iteration_time_def per_app_each [OF assms(1)]
      reduce_per_app [OF assms(1) mpi_documentedD(2) [OF assms(2)]]
      reduce_per_app [OF assms(1) mpi_documentedD(3) [OF assms(2)]] zip_map1 zip_map2 zip_same_conv_map
      comp_def Let_def)

lemma averages_total:
  assumes "pes_inv A pes" and "mpi_documented mpi"
  shows "\<exists>avgs. find_avg_iteration_time mpi pes = Inr avgs \<and> length avgs = A"
    and "\<exists>ts. find_avg_time_for_max_iter mpi pes lasts = Inr ts \<and> length ts = A"
  by (simp_all add: averages [OF assms] find_avg_time_for_max_iter_def per_app_each [OF assms(1)]
      reduce_per_app [OF assms(1) mpi_documentedD(2) [OF assms(2)]]
      reduce_per_app [OF assms(1) mpi_documentedD(3) [OF assms(2)]])

text \<open>The numbers that all PEs use.\<close>

lemma prepare_outcome:
  assumes shape: "pes_inv A (pw_pes w)" and mpi: "mpi_documented mpi"
    and run: "director_calls_prepare_fast_forward_jump mpi w = Inr (w', ffs)"
  obtains avgs lasts ts pes where "find_avg_iteration_time mpi (pw_pes w) = Inr avgs" and "length avgs = A"
    and "length lasts = A" and "length ts = A"
    and "w' = w\<lparr>pw_pes := pes\<rparr>" and "length pes = length (pw_pes w)" and "length ffs = length (pw_pes w)"
    and "\<forall>k<length (pw_pes w).
      plan_jump (progress_of (get_running_apps (pw_pes w ! k)) avgs lasts ts (arr_app_data (pw_pes w ! k)))
        (pw_pes w ! k) = Inr (pes ! k, ffs ! k)"
proof -
  obtain avgs where avgs: "find_avg_iteration_time mpi (pw_pes w) = Inr avgs" "length avgs = A"
    using averages_total(1) [OF shape mpi] by auto
  obtain lasts where lasts: "find_max_iter_per_app mpi (pw_pes w) = Inr lasts" "length lasts = A"
    using find_max_iter_total [OF shape mpi] by auto
  obtain ts where ts: "find_avg_time_for_max_iter mpi (pw_pes w) lasts = Inr ts" "length ts = A"
    using averages_total(2) [OF shape mpi] by auto
  obtain rs where rs: "list_all2 (\<lambda>pe r. plan_jump (progress_of (get_running_apps pe) avgs lasts ts (arr_app_data pe)) pe = Inr r)
      (pw_pes w) rs" "w' = w\<lparr>pw_pes := map fst rs\<rparr>" "ffs = map snd rs"
    using run by (auto simp: director_calls_prepare_fast_forward_jump_def avgs lasts ts result_iff)
  show ?thesis
    by (rule that [OF avgs lasts(2) ts(2), of "map fst rs"])
      (use rs in \<open>auto simp: list_all2_conv_all_nth\<close>)
qed

lemma progress_length:
  assumes "pes_inv A pes" "pe \<in> set pes" "length avgs = A" "length lasts = A" "length ts = A"
  shows "length (progress_of (get_running_apps pe) avgs lasts ts (arr_app_data pe)) = A"
  using assms pes_invD(4) [OF assms(1,2)] by (intro progress_of_nth) (simp_all add: get_running_apps_def)

lemma prepare_world_inv:
  assumes inv: "world_inv A w" and mpi: "mpi_documented mpi" and init: "post_init_done w"
    and run: "director_calls_prepare_fast_forward_jump mpi w = Inr (w', ffs)"
  shows "world_inv A w'"
proof -
  have shape: "pes_inv A (pw_pes w)" using inv by (simp add: world_inv_def)
  obtain avgs lasts ts pes where o: "find_avg_iteration_time mpi (pw_pes w) = Inr avgs" "length avgs = A"
    "length lasts = A" "length ts = A" "w' = w\<lparr>pw_pes := pes\<rparr>" "length pes = length (pw_pes w)"
    "length ffs = length (pw_pes w)"
    "\<forall>k<length (pw_pes w).
      plan_jump (progress_of (get_running_apps (pw_pes w ! k)) avgs lasts ts (arr_app_data (pw_pes w ! k)))
        (pw_pes w ! k) = Inr (pes ! k, ffs ! k)"
    by (rule prepare_outcome [OF shape mpi run])
  obtain vs where vs: "agreement vs (pw_pes w)" using inv init by (auto simp: world_inv_def)
  have one: "pe_inv pe \<and> num_apps (my_config pe) = A \<and> (\<forall>d\<in>set (arr_app_data pe). app_ok d) \<and>
      map shared_view (arr_app_data pe) = vs" if pe: "pe \<in> set pes" for pe
  proof -
    obtain k where k: "k < length (pw_pes w)" "pe = pes ! k" using pe o(6) by (metis in_set_conv_nth)
    have mem: "pw_pes w ! k \<in> set (pw_pes w)" using k(1) by simp
    have len: "length (progress_of (get_running_apps (pw_pes w ! k)) avgs lasts ts (arr_app_data (pw_pes w ! k))) =
        num_apps (my_config (pw_pes w ! k))"
      using progress_length [OF shape mem o(2-4)] pes_invD(3) [OF shape mem] by simp
    note plan = plan_jump_outcome [OF o(8) [rule_format, OF k(1)] world_inv_pe(1) [OF inv k(1)] len]
    show ?thesis
      using plan pes_invD(3) [OF shape mem] mem inv vs by (simp add: k(2) world_inv_def agreement_def)
  qed
  have "pes \<noteq> []" using o(6) pes_invD(1) [OF shape] by auto
  with one have "pes_inv A pes" "\<forall>pe\<in>set pes. \<forall>d\<in>set (arr_app_data pe). app_ok d"
    by (simp_all add: pes_inv_def)
  moreover have "agreement vs pes" using one vs by (simp add: agreement_def)
  ultimately show ?thesis using init by (auto simp: world_inv_def o(5))
qed

text \<open>The ending iteration of an application that does not run has no influence.\<close>

definition hide_ended :: "app_progress \<Rightarrow> app_progress" where
  "hide_ended p = (if ap_running p then p else p\<lparr>ap_ending := 0\<rparr>)"

lemma earliest_hide:
  "earliest t (map (\<lambda>p. (ap_running (hide_ended p), apps_end_time (hide_ended p))) ps) =
   earliest t (map (\<lambda>p. (ap_running p, apps_end_time p)) ps)"
  by (induction ps arbitrary: t) (auto simp: hide_ended_def split: option.splits)

lemma restart_params_hide: "restart_params t (hide_ended p) = restart_params t p"
  by (simp add: restart_params_def hide_ended_def)

lemma on_each_hide: "on_each (restart_params t) (map hide_ended ps) = on_each (restart_params t) ps"
  by (induction ps) (simp_all add: restart_params_hide)

lemma restart_times_hide: "restart_times (map hide_ended ps) rs = restart_times ps rs"
  by (simp add: restart_times_def zip_map1 split_def comp_def hide_ended_def)

definition jump_values :: "app_progress list \<Rightarrow> fast_forward_values result" where
  "jump_values ps =
     bind_res (compute_earliest_end_time ps) (\<lambda>t.
     bind_res (compute_restart_params t ps) (\<lambda>(rs, worth).
     bind_res (find_latest_restart_time ps rs) (\<lambda>last_to_finish.
     bind_res (find_earliest_restart_time ps rs) (\<lambda>_.
     Inr \<lparr>ff_status = (if worth then FAST_FORWARD_switching else FAST_FORWARD_restart),
          restarting_at = last_to_finish\<rparr>))))"

lemma plan_jump_values: "plan_jump ps pe = Inr (pe', ff) \<Longrightarrow> jump_values ps = Inr ff"
  by (auto simp: plan_jump_def jump_values_def result_iff split: if_splits prod.splits)

lemma jump_values_hide: "jump_values (map hide_ended ps) = jump_values ps"
  by (simp add: jump_values_def compute_earliest_end_time_def comp_def earliest_hide
      compute_restart_params_def on_each_hide find_latest_restart_time_def
      find_earliest_restart_time_def restart_times_hide)

lemma agreed_progress:
  assumes shape: "pes_inv A pes" and vs: "agreement vs pes" and pe: "pe \<in> set pes" "pe' \<in> set pes"
    and len: "length avgs = A" "length lasts = A" "length ts = A"
  shows "map hide_ended (progress_of (get_running_apps pe) avgs lasts ts (arr_app_data pe)) =
    map hide_ended (progress_of (get_running_apps pe') avgs lasts ts (arr_app_data pe'))"
proof (rule nth_equalityI)
  note L = pes_invD(4) [OF shape pe(1)] pes_invD(4) [OF shape pe(2)]
  show "length (map hide_ended (progress_of (get_running_apps pe) avgs lasts ts (arr_app_data pe))) =
      length (map hide_ended (progress_of (get_running_apps pe') avgs lasts ts (arr_app_data pe')))"
    using progress_length [OF shape pe(1) len] progress_length [OF shape pe(2) len] by simp
  fix a assume "a < length (map hide_ended (progress_of (get_running_apps pe) avgs lasts ts (arr_app_data pe)))"
  then have a: "a < A" using progress_length [OF shape pe(1) len] by simp
  let ?d = "arr_app_data pe ! a" and ?d' = "arr_app_data pe' ! a"
  have view: "shared_view ?d = vs ! a" "shared_view ?d' = vs ! a" "a < length vs"
    using vs pe L a by (auto simp: agreement_def)
  have "fst (vs ! a) = NODE_TYPE_app \<or> fst (snd (vs ! a))"
    using vs view(3) by (simp add: agreement_def)
  then have "(ad_status ?d = APP_STATUS_completed_everywhere \<longleftrightarrow> ad_status ?d' = APP_STATUS_completed_everywhere) \<and>
      (ad_status ?d \<noteq> APP_STATUS_completed_everywhere \<longrightarrow> ending_iteration ?d = ending_iteration ?d')"
    unfolding view(1) [symmetric] using view(1,2) [THEN sym] by (auto simp: shared_view_def split: if_splits)
  then show "map hide_ended (progress_of (get_running_apps pe) avgs lasts ts (arr_app_data pe)) ! a =
      map hide_ended (progress_of (get_running_apps pe') avgs lasts ts (arr_app_data pe')) ! a"
    using a len L progress_length [OF shape pe(1) len] progress_length [OF shape pe(2) len]
    by (simp add: progress_of_nth get_running_apps_def hide_ended_def)
qed

subsection \<open>Runs of the predictor\<close>

text \<open>The nodes are initialised once, before any other call on their PE; every node ends at most
  once; the director asks for a jump or a reset after it has asked whether the predictor is
  ready.\<close>

definition setting_up :: "predictor_pe \<Rightarrow> bool" where
  "setting_up pe \<longleftrightarrow>
     (\<forall>n\<in>set (arr_node_data pe). acc_iters n = 0) \<and>
     (\<forall>d\<in>set (arr_app_data pe). nodes_that_have_ended d = 0 \<and> ad_status d = APP_STATUS_running)"

inductive predictor_run :: "mpi_ops \<Rightarrow> nat \<Rightarrow> predictor_world \<Rightarrow> bool"
  for mpi :: mpi_ops and A :: nat where
  run_start: "cfgs \<noteq> [] \<Longrightarrow> \<forall>c\<in>set cfgs. num_apps c = A \<and> 0 < num_iters_to_collect c \<Longrightarrow>
    predictor_run mpi A \<lparr>pw_pes = map avg_app_iteration_predictor cfgs, post_init_done = False\<rparr>"
| run_init: "predictor_run mpi A w \<Longrightarrow> \<not> post_init_done w \<Longrightarrow> k < length (pw_pes w) \<Longrightarrow>
    setting_up (pw_pes w ! k) \<Longrightarrow> nd_app_id (arr_node_data (pw_pes w ! k) ! i) = -1 \<Longrightarrow>
    nc_type c \<noteq> NODE_TYPE_unassigned \<Longrightarrow> model_calls_init (pw_pes w ! k) i c = Inr pe \<Longrightarrow>
    predictor_run mpi A (w\<lparr>pw_pes := (pw_pes w)[k := pe]\<rparr>)"
| run_feed: "predictor_run mpi A w \<Longrightarrow> k < length (pw_pes w) \<Longrightarrow>
    model_calls_feed (pw_pes w ! k) i iter time = Inr pe \<Longrightarrow>
    predictor_run mpi A (w\<lparr>pw_pes := (pw_pes w)[k := pe]\<rparr>)"
| run_ended: "predictor_run mpi A w \<Longrightarrow> k < length (pw_pes w) \<Longrightarrow> may_end (pw_pes w ! k) i \<Longrightarrow>
    model_calls_ended (pw_pes w ! k) i = Inr pe \<Longrightarrow>
    predictor_run mpi A (w\<lparr>pw_pes := (pw_pes w)[k := pe]\<rparr>)"
| run_ready: "predictor_run mpi A w \<Longrightarrow>
    director_calls_is_predictor_ready mpi w = Inr (Some (w', b)) \<Longrightarrow> predictor_run mpi A w'"
| run_jump: "predictor_run mpi A w \<Longrightarrow> post_init_done w \<Longrightarrow>
    director_calls_prepare_fast_forward_jump mpi w = Inr (w', ffs) \<Longrightarrow> predictor_run mpi A w'"
| run_reset: "predictor_run mpi A w \<Longrightarrow> post_init_done w \<Longrightarrow>
    director_calls_reset mpi w = Inr w' \<Longrightarrow> predictor_run mpi A w'"

lemma init_world_inv:
  assumes inv: "world_inv A w" and init: "\<not> post_init_done w" and k: "k < length (pw_pes w)"
    and up: "setting_up (pw_pes w ! k)" and new: "nd_app_id (arr_node_data (pw_pes w ! k) ! i) = -1"
    and ty: "nc_type c \<noteq> NODE_TYPE_unassigned" and run: "model_calls_init (pw_pes w ! k) i c = Inr pe"
  shows "world_inv A (w\<lparr>pw_pes := (pw_pes w)[k := pe]\<rparr>)"
proof -
  let ?pe = "pw_pes w ! k"
  have old: "pe_inv ?pe" by (rule world_inv_pe(1) [OF inv k])
  obtain a d where o: "nc_app_id c = int a" "a < length (arr_app_data ?pe)" "i < length (arr_node_data ?pe)"
    "pe = set_app (int a) d (set_node i ((arr_node_data ?pe ! i)\<lparr>nd_app_id := int a, last_iter := INT_MIN\<rparr>) ?pe)"
    "num_nodes d = num_nodes (arr_app_data ?pe ! a) + 1"
    "nodes_with_enough_iters d = nodes_with_enough_iters (arr_app_data ?pe ! a)"
    "ad_status d = ad_status (arr_app_data ?pe ! a)"
    "nodes_that_have_ended d = nodes_that_have_ended (arr_app_data ?pe ! a)" "ad_type d = nc_type c"
    by (rule model_calls_init_outcome [OF run])
  have st: "ad_status d = APP_STATUS_running" using up o(2,7) by (auto simp: setting_up_def)
  have pe: "pe_inv pe"
    by (rule model_calls_init_inv [OF run old new]) (use up o(3) in \<open>auto simp: setting_up_def\<close>)
  have ok: "app_ok d" using st ty o(9) by (simp add: app_ok_def)
  have upd: "q \<in> set ((pw_pes w)[k := pe]) \<Longrightarrow> q = pe \<or> q \<in> set (pw_pes w)" for q
    using set_update_subset_insert [of "pw_pes w" k pe] by auto
  have mem: "e \<in> set (arr_app_data pe) \<Longrightarrow> e = d \<or> e \<in> set (arr_app_data ?pe)" for e
    using set_update_subset_insert [of "arr_app_data ?pe" a d] by (auto simp: o(4))
  have cfg: "my_config pe = my_config ?pe" by (simp add: o(4))
  have kmem: "?pe \<in> set (pw_pes w)" using k by simp
  have "pes_inv A ((pw_pes w)[k := pe])"
    using inv pe cfg upd kmem unfolding world_inv_def pes_inv_def by (metis list_update_nonempty)
  moreover have "\<forall>q\<in>set ((pw_pes w)[k := pe]). \<forall>e\<in>set (arr_app_data q).
      app_ok e \<and> ad_status e \<noteq> APP_STATUS_completed_everywhere"
    using inv init upd mem ok st kmem unfolding world_inv_def by (metis APP_STATUS.distinct(3))
  ultimately show ?thesis using init by (simp add: world_inv_def)
qed

lemma predictor_run_inv:
  assumes "predictor_run mpi A w" and mpi: "mpi_documented mpi"
  shows "world_inv A w"
  using assms(1)
proof induction
  case (run_start cfgs)
  then have "pes_inv A (map avg_app_iteration_predictor cfgs)"
    by (auto simp: pes_inv_def intro!: new_predictor_inv) (auto simp: avg_app_iteration_predictor_def)
  then show ?case
    by (auto simp: world_inv_def avg_app_iteration_predictor_def new_app_data_def app_ok_def)
next
  case (run_init w k i c pe)
  then show ?case by (intro init_world_inv)
next
  case (run_feed w k i iter time pe)
  then show ?case by (intro feed_world_inv)
next
  case (run_ended w k i pe)
  then show ?case by (intro ended_world_inv)
next
  case (run_ready w w' b)
  then show ?case using ready_world_inv [OF run_ready.IH mpi] by fastforce
next
  case (run_jump w w' ffs)
  then show ?case using prepare_world_inv [OF run_jump.IH mpi] by blast
next
  case (run_reset w w')
  then obtain pes where "reset_with mpi (has_any_app_ended mpi (pw_pes w)) (pw_pes w) = Inr pes" "w' = w\<lparr>pw_pes := pes\<rparr>"
    by (auto simp: director_calls_reset_def result_iff)
  then show ?case using reset_world_inv [OF run_reset.IH mpi run_reset.hyps(2)] by simp
qed

subsection \<open>Where the jump lands\<close>

lemma lround_le: "x \<le> of_int k \<Longrightarrow> lround x \<le> k"
  by (auto simp: lround_def floor_le_iff le_floor_iff minus_le_iff)

lemma lround_ge:
  assumes "of_int k \<le> x"
  shows "k \<le> lround x"
proof (cases "x \<ge> 0")
  case True
  then show ?thesis using assms by (simp add: lround_def le_floor_iff)
next
  case False
  have "\<lfloor>- x + 1 / 2\<rfloor> \<le> - k" using assms by (simp add: floor_le_iff)
  then show ?thesis using False by (simp add: lround_def)
qed

lemma lround_of_int: "lround (of_int k) = k"
  by (rule antisym) (simp_all add: lround_le lround_ge)

lemma lround_near: "\<bar>of_int (lround x) - x\<bar> \<le> 1 / 2"
proof (cases "x \<ge> 0")
  case True
  then have "lround x = \<lfloor>x + 1 / 2\<rfloor>" by (simp add: lround_def)
  then show ?thesis using floor_correct [of "x + 1 / 2"] unfolding abs_le_iff by linarith
next
  case False
  then have "lround x = - \<lfloor>- x + 1 / 2\<rfloor>" by (simp add: lround_def)
  then show ?thesis using floor_correct [of "- x + 1 / 2"] unfolding abs_le_iff by linarith
qed

lemma earliest_spec:
  assumes "\<forall>(r, x)\<in>set xs. r \<longrightarrow> x \<noteq> None"
  shows "\<exists>m. earliest t xs = Inr m \<and> m \<le> t \<and> (\<forall>y. (True, Some y) \<in> set xs \<longrightarrow> m \<le> y) \<and>
    (m = t \<or> (True, Some m) \<in> set xs)"
  using assms
proof (induction xs arbitrary: t)
  case (Cons rx xs)
  obtain r x where rx: "rx = (r, x)" by (cases rx)
  show ?case
  proof (cases r)
    case True
    with Cons.prems rx obtain y where y: "x = Some y" by auto
    have tail: "\<forall>(r, x)\<in>set xs. r \<longrightarrow> x \<noteq> None" using Cons.prems by simp
    from Cons.IH [OF tail, of "if t > y then y else t"] show ?thesis
      using True rx y by (auto split: if_splits)
  next
    case False
    then show ?thesis using Cons rx by auto
  qed
qed simp

lemma latest_spec:
  assumes "\<forall>(r, x)\<in>set xs. r \<longrightarrow> x \<noteq> None"
  shows "\<exists>m. latest t xs = Inr m \<and> t \<le> m \<and> (\<forall>y. (True, Some y) \<in> set xs \<longrightarrow> y \<le> m)"
  using assms
proof (induction xs arbitrary: t)
  case (Cons rx xs)
  obtain r x where rx: "rx = (r, x)" by (cases rx)
  show ?case
  proof (cases r)
    case True
    with Cons.prems rx obtain y where y: "x = Some y" by auto
    have tail: "\<forall>(r, x)\<in>set xs. r \<longrightarrow> x \<noteq> None" using Cons.prems by simp
    from Cons.IH [OF tail, of "if t < y then y else t"] show ?thesis
      using True rx y by (auto split: if_splits)
  next
    case False
    then show ?thesis using Cons rx by auto
  qed
qed simp

text \<open>The progress of the applications is plausible: a running application has a positive
  average, its iterations are in the range of an \<open>int\<close>, it ends before the largest \<open>double\<close>,
  and the last reports of two applications are less than \<open>2 ^ 30\<close> iterations apart.\<close>

definition plausible_progress :: "app_progress list \<Rightarrow> bool" where
  "plausible_progress ps \<longleftrightarrow>
     (\<exists>p\<in>set ps. ap_running p) \<and>
     (\<forall>p\<in>set ps. ap_running p \<longrightarrow>
        (\<exists>avg. ap_avg p = Some avg \<and> 0 < avg \<and>
           ap_time p + of_int (ap_ending p - ap_last p) * avg < DBL_MAX \<and>
           (\<forall>q\<in>set ps. ap_running q \<longrightarrow> ap_time p \<le> ap_time q + 2 ^ 30 * avg)) \<and>
        0 \<le> ap_last p \<and> ap_last p \<le> ap_ending p \<and> ap_ending p < 2 ^ 31)"

text \<open>The time at which the first application ends, if all go on at their average pace.\<close>

definition first_end :: "app_progress list \<Rightarrow> tw_stime" where
  "first_end ps = Min {ap_time p + of_int (ap_ending p - ap_last p) * the (ap_avg p) |p. p \<in> set ps \<and> ap_running p}"

definition skipped :: "app_progress list \<Rightarrow> app_progress \<Rightarrow> int" where
  "skipped ps p = lround ((first_end ps - ap_time p) / the (ap_avg p))"

lemma plausible_progressD:
  assumes "plausible_progress ps" and "p \<in> set ps" and "ap_running p"
  shows "ap_avg p = Some (the (ap_avg p))" and "0 < the (ap_avg p)"
    and "ap_time p + of_int (ap_ending p - ap_last p) * the (ap_avg p) < DBL_MAX"
    and "q \<in> set ps \<Longrightarrow> ap_running q \<Longrightarrow> ap_time p \<le> ap_time q + 2 ^ 30 * the (ap_avg p)"
    and "0 \<le> ap_last p" and "ap_last p \<le> ap_ending p" and "ap_ending p < 2 ^ 31"
    and "apps_end_time p = Some (ap_time p + of_int (ap_ending p - ap_last p) * the (ap_avg p))"
proof -
  obtain avg where h: "ap_avg p = Some avg" "0 < avg" "ap_time p + of_int (ap_ending p - ap_last p) * avg < DBL_MAX"
    "\<forall>q\<in>set ps. ap_running q \<longrightarrow> ap_time p \<le> ap_time q + 2 ^ 30 * avg"
    "0 \<le> ap_last p" "ap_last p \<le> ap_ending p" "ap_ending p < 2 ^ 31"
    using assms unfolding plausible_progress_def by blast
  then show "ap_avg p = Some (the (ap_avg p))" "0 < the (ap_avg p)"
    "ap_time p + of_int (ap_ending p - ap_last p) * the (ap_avg p) < DBL_MAX"
    "q \<in> set ps \<Longrightarrow> ap_running q \<Longrightarrow> ap_time p \<le> ap_time q + 2 ^ 30 * the (ap_avg p)"
    "0 \<le> ap_last p" "ap_last p \<le> ap_ending p" "ap_ending p < 2 ^ 31"
    by auto
  have "s32 (ap_ending p - ap_last p) = ap_ending p - ap_last p"
    using h by (intro s32_id) auto
  then show "apps_end_time p = Some (ap_time p + of_int (ap_ending p - ap_last p) * the (ap_avg p))"
    by (simp add: apps_end_time_def h(1))
qed

lemma first_end_props:
  assumes "plausible_progress ps"
  shows "\<exists>p\<in>set ps. ap_running p \<and> first_end ps = ap_time p + of_int (ap_ending p - ap_last p) * the (ap_avg p)"
    and "p \<in> set ps \<Longrightarrow> ap_running p \<Longrightarrow>
      first_end ps \<le> ap_time p + of_int (ap_ending p - ap_last p) * the (ap_avg p)"
proof -
  let ?E = "{ap_time p + of_int (ap_ending p - ap_last p) * the (ap_avg p) |p. p \<in> set ps \<and> ap_running p}"
  have "?E = (\<lambda>p. ap_time p + of_int (ap_ending p - ap_last p) * the (ap_avg p)) ` {p \<in> set ps. ap_running p}"
    by auto
  then have fin: "finite ?E" by simp
  have ne: "?E \<noteq> {}" using assms by (auto simp: plausible_progress_def)
  show "\<exists>p\<in>set ps. ap_running p \<and> first_end ps = ap_time p + of_int (ap_ending p - ap_last p) * the (ap_avg p)"
    using Min_in [OF fin ne] by (auto simp: first_end_def)
  show "p \<in> set ps \<Longrightarrow> ap_running p \<Longrightarrow>
      first_end ps \<le> ap_time p + of_int (ap_ending p - ap_last p) * the (ap_avg p)"
    unfolding first_end_def by (rule Min_le [OF fin]) blast
qed

lemma earliest_end_is_first:
  assumes ok: "plausible_progress ps"
  shows "compute_earliest_end_time ps = Inr (first_end ps)"
proof -
  let ?xs = "map (\<lambda>p. (ap_running p, apps_end_time p)) ps"
  have "\<forall>(r, x)\<in>set ?xs. r \<longrightarrow> x \<noteq> None"
    using plausible_progressD(8) [OF ok] by auto
  from earliest_spec [OF this, of DBL_MAX] obtain m where m: "earliest DBL_MAX ?xs = Inr m"
    "\<forall>y. (True, Some y) \<in> set ?xs \<longrightarrow> m \<le> y" "m \<le> DBL_MAX" "m = DBL_MAX \<or> (True, Some m) \<in> set ?xs" by auto
  obtain p where p: "p \<in> set ps" "ap_running p"
    "first_end ps = ap_time p + of_int (ap_ending p - ap_last p) * the (ap_avg p)"
    using first_end_props(1) [OF ok] by auto
  have end_p: "(True, Some (first_end ps)) \<in> set ?xs"
    using plausible_progressD(8) [OF ok p(1,2)] p by force
  have "m \<le> first_end ps" using m(2) end_p by blast
  moreover have "first_end ps < DBL_MAX" using plausible_progressD(3) [OF ok p(1,2)] p(3) by simp
  ultimately have "(True, Some m) \<in> set ?xs" using m(4) by auto
  then obtain q where "q \<in> set ps" "ap_running q" "apps_end_time q = Some m" by auto
  with plausible_progressD(8) [OF ok, of q] first_end_props(2) [OF ok, of q] have "first_end ps \<le> m" by simp
  with \<open>m \<le> first_end ps\<close> m(1) show ?thesis by (simp add: compute_earliest_end_time_def)
qed

lemma skipped_bounds:
  assumes ok: "plausible_progress ps" and p: "p \<in> set ps" "ap_running p"
  shows "skipped ps p \<le> ap_ending p - ap_last p" and "- (2 ^ 30) \<le> skipped ps p"
    and "\<bar>ap_time p + of_int (skipped ps p) * the (ap_avg p) - first_end ps\<bar> \<le> the (ap_avg p) / 2"
proof -
  let ?avg = "the (ap_avg p)"
  note D = plausible_progressD [OF ok p]
  have "(first_end ps - ap_time p) / ?avg \<le> of_int (ap_ending p - ap_last p)"
    using first_end_props(2) [OF ok p] D(2) by (simp add: field_simps)
  then show "skipped ps p \<le> ap_ending p - ap_last p" unfolding skipped_def by (rule lround_le)
  obtain q where q: "q \<in> set ps" "ap_running q" "first_end ps = ap_time q + of_int (ap_ending q - ap_last q) * the (ap_avg q)"
    using first_end_props(1) [OF ok] by auto
  have "ap_time q \<le> first_end ps"
    using plausible_progressD(2,6) [OF ok q(1,2)] by (simp add: q(3))
  then have "of_int (- (2 ^ 30)) \<le> (first_end ps - ap_time p) / ?avg"
    using D(4) [OF q(1,2)] D(2) by (simp add: field_simps)
  then show "- (2 ^ 30) \<le> skipped ps p" unfolding skipped_def by (rule lround_ge)
  have "\<bar>of_int (skipped ps p) - (first_end ps - ap_time p) / ?avg\<bar> * ?avg \<le> 1 / 2 * ?avg"
    using lround_near [of "(first_end ps - ap_time p) / ?avg"] D(2) unfolding skipped_def
    by (intro mult_right_mono) simp_all
  also have "\<bar>of_int (skipped ps p) - (first_end ps - ap_time p) / ?avg\<bar> * ?avg =
      \<bar>(of_int (skipped ps p) - (first_end ps - ap_time p) / ?avg) * ?avg\<bar>"
    using D(2) by (simp add: abs_mult)
  also have "(of_int (skipped ps p) - (first_end ps - ap_time p) / ?avg) * ?avg =
      ap_time p + of_int (skipped ps p) * ?avg - first_end ps"
    using D(2) by (simp add: field_simps)
  finally show "\<bar>ap_time p + of_int (skipped ps p) * ?avg - first_end ps\<bar> \<le> ?avg / 2" by simp
qed

lemma restart_params_result:
  assumes ok: "plausible_progress ps" and p: "p \<in> set ps"
  shows "restart_params (first_end ps) p =
    Inr (if ap_running p
         then Some (ap_time p + of_int (skipped ps p) * the (ap_avg p), ap_last p + skipped ps p, skipped ps p > 1)
         else None)"
proof (cases "ap_running p")
  case True
  note D = plausible_progressD [OF ok p True] and S = skipped_bounds [OF ok p True]
  have "s32 (skipped ps p) = skipped ps p" using S(1,2) D(5-7) by (intro s32_id) auto
  moreover have "s32 (ap_last p + skipped ps p) = ap_last p + skipped ps p"
    using S(1,2) D(5-7) by (intro s32_id) auto
  moreover obtain avg where "ap_avg p = Some avg" using D(1) by auto
  ultimately show ?thesis using True D(2) by (simp add: restart_params_def Let_def skipped_def)
next
  case False
  then show ?thesis by (simp add: restart_params_def)
qed

lemma plan_jump_result:
  assumes ok: "plausible_progress ps"
  defines "rs \<equiv> map (\<lambda>p. if ap_running p
      then Some (ap_time p + of_int (skipped ps p) * the (ap_avg p), ap_last p + skipped ps p, skipped ps p > 1)
      else None) ps"
  obtains first late where
    "\<forall>p\<in>set ps. ap_running p \<longrightarrow> ap_time p + of_int (skipped ps p) * the (ap_avg p) \<le> late"
    and "plan_jump ps pe =
      (if \<forall>p\<in>set ps. ap_running p \<longrightarrow> skipped ps p > 1
       then Inr (pe\<lparr>arr_app_data := set_app_prediction_data first (arr_app_data pe) ps rs, ready_to_skip := True\<rparr>,
          \<lparr>ff_status = FAST_FORWARD_switching, restarting_at = late\<rparr>)
       else Inr (pe, \<lparr>ff_status = FAST_FORWARD_restart, restarting_at = late\<rparr>))"
proof -
  have params: "on_each (restart_params (first_end ps)) ps = Inr rs"
    unfolding rs_def by (rule on_each_map [OF restart_params_result [OF ok]])
  have worth: "list_all (\<lambda>r. case r of None \<Rightarrow> True | Some (_, _, w) \<Rightarrow> w) rs \<longleftrightarrow>
      (\<forall>p\<in>set ps. ap_running p \<longrightarrow> skipped ps p > 1)"
    unfolding rs_def list.pred_map by (auto simp: list_all_iff split: if_splits)
  have times: "restart_times ps rs = map (\<lambda>p. (ap_running p,
      if ap_running p then Some (ap_time p + of_int (skipped ps p) * the (ap_avg p)) else None)) ps"
    by (simp add: restart_times_def rs_def zip_map2 zip_same_conv_map comp_def)
  have some: "\<forall>(r, x)\<in>set (restart_times ps rs). r \<longrightarrow> x \<noteq> None" by (auto simp: times)
  obtain late where late: "latest 0 (restart_times ps rs) = Inr late"
    "\<forall>y. (True, Some y) \<in> set (restart_times ps rs) \<longrightarrow> y \<le> late"
    using latest_spec [OF some, of 0] by auto
  obtain first where first: "earliest DBL_MAX (restart_times ps rs) = Inr first"
    using earliest_spec [OF some, of DBL_MAX] by auto
  show ?thesis
  proof (rule that [of late first])
    show "\<forall>p\<in>set ps. ap_running p \<longrightarrow> ap_time p + of_int (skipped ps p) * the (ap_avg p) \<le> late"
      using late(2) by (force simp: times)
    show "plan_jump ps pe = (if \<forall>p\<in>set ps. ap_running p \<longrightarrow> skipped ps p > 1
       then Inr (pe\<lparr>arr_app_data := set_app_prediction_data first (arr_app_data pe) ps rs, ready_to_skip := True\<rparr>,
          \<lparr>ff_status = FAST_FORWARD_switching, restarting_at = late\<rparr>)
       else Inr (pe, \<lparr>ff_status = FAST_FORWARD_restart, restarting_at = late\<rparr>))"
      using params worth late(1) first
      by (simp add: plan_jump_def earliest_end_is_first [OF ok] compute_restart_params_def
          find_latest_restart_time_def find_earliest_restart_time_def)
  qed
qed

text \<open>What a good jump is for one PE.\<close>

definition good_jump :: "app_progress list \<Rightarrow> predictor_pe \<Rightarrow> predictor_pe \<Rightarrow> fast_forward_values \<Rightarrow> bool" where
  "good_jump ps pe pe' ff \<longleftrightarrow>
     (ff_status ff = FAST_FORWARD_switching \<longleftrightarrow> (\<forall>p\<in>set ps. ap_running p \<longrightarrow> 1 < skipped ps p)) \<and>
     (ff_status ff = FAST_FORWARD_restart \<longrightarrow> pe' = pe) \<and>
     (ff_status ff = FAST_FORWARD_switching \<longrightarrow>
        ready_to_skip pe' \<and>
        (\<forall>a<length ps. ap_running (ps ! a) \<and> ad_type (arr_app_data pe ! a) = NODE_TYPE_app \<longrightarrow>
           (let p = ps ! a; j = ad_pred (arr_app_data pe' ! a) in
            jump_at_iter j = ap_last p + 1 \<and> jump_at_iter j < resume_at_iter j \<and>
            resume_at_iter j \<le> ap_ending p \<and>
            restart_at j = ap_time p + of_int (resume_at_iter j - ap_last p) * the (ap_avg p) \<and>
            \<bar>restart_at j - first_end ps\<bar> \<le> the (ap_avg p) / 2 \<and> restart_at j \<le> restarting_at ff)))"

lemma plan_jump_good:
  assumes ok: "plausible_progress ps" and len: "length ps = length (arr_app_data pe)"
  shows "\<exists>pe' ff. plan_jump ps pe = Inr (pe', ff) \<and> good_jump ps pe pe' ff"
proof -
  let ?rs = "map (\<lambda>p. if ap_running p
      then Some (ap_time p + of_int (skipped ps p) * the (ap_avg p), ap_last p + skipped ps p, skipped ps p > 1)
      else None) ps"
  obtain first late where late: "\<forall>p\<in>set ps. ap_running p \<longrightarrow> ap_time p + of_int (skipped ps p) * the (ap_avg p) \<le> late"
    and plan: "plan_jump ps pe = (if \<forall>p\<in>set ps. ap_running p \<longrightarrow> skipped ps p > 1
       then Inr (pe\<lparr>arr_app_data := set_app_prediction_data first (arr_app_data pe) ps ?rs, ready_to_skip := True\<rparr>,
          \<lparr>ff_status = FAST_FORWARD_switching, restarting_at = late\<rparr>)
       else Inr (pe, \<lparr>ff_status = FAST_FORWARD_restart, restarting_at = late\<rparr>))"
    by (rule plan_jump_result [OF ok])
  show ?thesis
  proof (cases "\<forall>p\<in>set ps. ap_running p \<longrightarrow> skipped ps p > 1")
    case False
    then show ?thesis using plan by (auto simp: good_jump_def)
  next
    case True
    let ?pe' = "pe\<lparr>arr_app_data := set_app_prediction_data first (arr_app_data pe) ps ?rs, ready_to_skip := True\<rparr>"
    have entry: "ad_pred (arr_app_data ?pe' ! a) = \<lparr>jump_at_iter = ap_last p + 1, resume_at_iter = ap_last p + skipped ps p,
          restart_at = ap_time p + of_int (skipped ps p) * the (ap_avg p)\<rparr>"
      if a: "a < length ps" "p = ps ! a" "ap_running p" "ad_type (arr_app_data pe ! a) = NODE_TYPE_app" for a p
    proof -
      have p: "p \<in> set ps" using a(1,2) by simp
      have "1 < skipped ps p" using True p a(3) by blast
      then have "s32 (ap_last p + 1) = ap_last p + 1"
        using plausible_progressD(5-7) [OF ok p a(3)] skipped_bounds(1) [OF ok p a(3)] by (intro s32_id) auto
      then show ?thesis
        using a len by (simp add: set_app_prediction_data_nth set_app_prediction_def)
    qed
    have "good_jump ps pe ?pe' \<lparr>ff_status = FAST_FORWARD_switching, restarting_at = late\<rparr>"
      unfolding good_jump_def
    proof (intro conjI impI allI)
      fix a assume a: "a < length ps" "ap_running (ps ! a) \<and> ad_type (arr_app_data pe ! a) = NODE_TYPE_app"
      have p: "ps ! a \<in> set ps" using a(1) by simp
      show "let p = ps ! a; j = ad_pred (arr_app_data ?pe' ! a) in
          jump_at_iter j = ap_last p + 1 \<and> jump_at_iter j < resume_at_iter j \<and> resume_at_iter j \<le> ap_ending p \<and>
          restart_at j = ap_time p + of_int (resume_at_iter j - ap_last p) * the (ap_avg p) \<and>
          \<bar>restart_at j - first_end ps\<bar> \<le> the (ap_avg p) / 2 \<and>
          restart_at j \<le> restarting_at \<lparr>ff_status = FAST_FORWARD_switching, restarting_at = late\<rparr>"
        unfolding Let_def entry [OF a(1) refl conjunct1 [OF a(2)] conjunct2 [OF a(2)]]
        using True p a(2) late skipped_bounds [OF ok p conjunct1 [OF a(2)]] by auto
    qed (use True in simp_all)
    then show ?thesis using plan True by auto
  qed
qed

text \<open>The numbers that PE \<open>k\<close> computes the jump from.\<close>

definition pe_progress :: "mpi_ops \<Rightarrow> predictor_world \<Rightarrow> nat \<Rightarrow> app_progress list" where
  "pe_progress mpi w k =
     (let lasts = projr (find_max_iter_per_app mpi (pw_pes w)) in
      progress_of (get_running_apps (pw_pes w ! k)) (projr (find_avg_iteration_time mpi (pw_pes w))) lasts
        (projr (find_avg_time_for_max_iter mpi (pw_pes w) lasts)) (arr_app_data (pw_pes w ! k)))"

lemma prepare_total:
  assumes shape: "pes_inv A (pw_pes w)" and mpi: "mpi_documented mpi"
    and ok: "\<forall>k<length (pw_pes w). plausible_progress (pe_progress mpi w k)"
  shows "\<exists>w' ffs. director_calls_prepare_fast_forward_jump mpi w = Inr (w', ffs) \<and>
    length (pw_pes w') = length (pw_pes w) \<and> length ffs = length (pw_pes w) \<and>
    (\<forall>k<length (pw_pes w). good_jump (pe_progress mpi w k) (pw_pes w ! k) (pw_pes w' ! k) (ffs ! k))"
proof -
  obtain avgs where avgs: "find_avg_iteration_time mpi (pw_pes w) = Inr avgs" "length avgs = A"
    using averages_total(1) [OF shape mpi] by auto
  obtain lasts where lasts: "find_max_iter_per_app mpi (pw_pes w) = Inr lasts" "length lasts = A"
    using find_max_iter_total [OF shape mpi] by auto
  obtain ts where ts: "find_avg_time_for_max_iter mpi (pw_pes w) lasts = Inr ts" "length ts = A"
    using averages_total(2) [OF shape mpi] by auto
  let ?prog = "\<lambda>pe. progress_of (get_running_apps pe) avgs lasts ts (arr_app_data pe)"
  have prog: "pe_progress mpi w k = ?prog (pw_pes w ! k)" for k
    by (simp add: pe_progress_def avgs lasts ts Let_def)
  have each: "\<exists>r. plan_jump (?prog pe) pe = Inr r \<and> good_jump (?prog pe) pe (fst r) (snd r)"
    if pe: "pe \<in> set (pw_pes w)" for pe
  proof -
    have "plausible_progress (?prog pe)" using ok prog pe by (metis in_set_conv_nth)
    moreover have "length (?prog pe) = length (arr_app_data pe)"
      using progress_length [OF shape pe avgs(2) lasts(2) ts(2)] pes_invD(4) [OF shape pe] by simp
    ultimately show ?thesis using plan_jump_good [of "?prog pe" pe] by auto
  qed
  then obtain g where g: "\<And>pe. pe \<in> set (pw_pes w) \<Longrightarrow> plan_jump (?prog pe) pe = Inr (g pe) \<and>
      good_jump (?prog pe) pe (fst (g pe)) (snd (g pe))"
    by metis
  have "on_each (\<lambda>pe. plan_jump (?prog pe) pe) (pw_pes w) = Inr (map g (pw_pes w))"
    by (rule on_each_map) (use g in blast)
  then have "director_calls_prepare_fast_forward_jump mpi w =
      Inr (w\<lparr>pw_pes := map fst (map g (pw_pes w))\<rparr>, map snd (map g (pw_pes w)))"
    by (simp add: director_calls_prepare_fast_forward_jump_def avgs lasts ts)
  then show ?thesis using g by (auto simp: prog)
qed

lemma first_to_end_resumes_at_end:
  assumes "plausible_progress ps"
  shows "\<exists>p\<in>set ps. ap_running p \<and> skipped ps p = ap_ending p - ap_last p"
proof -
  obtain p where p: "p \<in> set ps" "ap_running p"
    "first_end ps = ap_time p + of_int (ap_ending p - ap_last p) * the (ap_avg p)"
    using first_end_props(1) [OF assms] by auto
  have "(first_end ps - ap_time p) / the (ap_avg p) = of_int (ap_ending p - ap_last p)"
    using plausible_progressD(2) [OF assms p(1,2)] by (simp add: p(3))
  then have "skipped ps p = ap_ending p - ap_last p"
    unfolding skipped_def by (simp only: lround_of_int)
  with p show ?thesis by blast
qed

lemma fold_add: "fold (\<lambda>n x. x + f n) ns (x::int) = x + sum_list (map f ns)"
  by (induction ns arbitrary: x) simp_all

lemma sum_list_member_le: "(\<And>x. x \<in> set xs \<Longrightarrow> 0 \<le> f x) \<Longrightarrow> x \<in> set xs \<Longrightarrow> f x \<le> sum_list (map f xs)"
  for f :: "'a \<Rightarrow> int"
proof (induction xs)
  case (Cons y ys)
  have "0 \<le> sum_list (map f ys)" "0 \<le> f y" using Cons.prems(1) by (auto intro!: sum_list_nonneg)
  then show ?case using Cons by fastforce
qed simp

lemma reported_iterations:
  assumes shape: "pes_inv A pes" and pe: "pe \<in> set pes" and n: "n \<in> set (arr_node_data pe)" "in_app a n"
  shows "acc_iters n \<le>
    sum_list (map (\<lambda>pe. fold (\<lambda>n k. k + acc_iters n) (filter (in_app a) (arr_node_data pe)) 0) pes)"
proof -
  let ?here = "\<lambda>pe. sum_list (map acc_iters (filter (in_app a) (arr_node_data pe)))"
  have pos: "0 \<le> ?here q" if "q \<in> set pes" for q
    using pe_invD(5) [OF pes_invD(2) [OF shape that]] by (intro sum_list_nonneg) auto
  have "acc_iters n \<le> ?here pe"
    using n pe_invD(5) [OF pes_invD(2) [OF shape pe]] by (intro sum_list_member_le) auto
  also have "\<dots> \<le> sum_list (map ?here pes)" using pos pe by (rule sum_list_member_le)
  finally show ?thesis by (simp add: fold_add)
qed

lemma count_if_pos: "x \<in> set xs \<Longrightarrow> P x \<Longrightarrow> 0 < count_if P xs"
  by (auto simp: count_if_def filter_empty_conv)

lemma enough_reports:
  assumes "pe_inv pe" and "has_everyone_accumulated_enough pe"
    and n: "n \<in> set (arr_node_data pe)" "in_app a n"
    and run: "ad_status (arr_app_data pe ! a) \<noteq> APP_STATUS_completed_everywhere"
  shows "num_iters_to_collect (my_config pe) \<le> acc_iters n"
proof -
  note D = pe_invD [OF assms(1)]
  have a: "a < num_apps (my_config pe)" using D(4) [OF n(1)] n(2) by (auto simp: in_app_def)
  have "0 < num_nodes (arr_app_data pe ! a)" using D(6) [OF a] count_if_pos [of n _ "in_app a", OF n] by simp
  then have "nodes_with_enough_iters (arr_app_data pe ! a) = num_nodes (arr_app_data pe ! a)"
    using assms(2) run a D(2) by (simp add: has_everyone_accumulated_enough_def list_all_length)
  then show ?thesis
    using D(6,7) [OF a] count_if_all [of "in_app a" "arr_node_data pe"] n by metis
qed

text \<open>A report for a background application is ignored with a warning the first time; the guard
  tests the warning flag too, so that the next report fails the assertion behind it.\<close>

lemma second_background_report_fails:
  assumes "i < length (arr_node_data pe)" and "length (arr_node_data pe) = num_nodes_in_pe (my_config pe)"
    and "nd_app_id (arr_node_data pe ! i) = int a" and "a < length (arr_app_data pe)"
    and "ad_type (arr_app_data pe ! a) = NODE_TYPE_background_noise"
  shows "shown_warning pe \<Longrightarrow> model_calls_feed pe i iter time = Inl AssertFailed"
    and "\<not> shown_warning pe \<Longrightarrow> model_calls_feed pe i iter time = Inr (pe\<lparr>shown_warning := True\<rparr>)"
  using assms by (simp_all add: model_calls_feed_def assert_app_initialized_def app_id_for_def app_at_def)

text \<open>The check for a node without application reads before the array of applications.\<close>

lemma uninitialised_node_reads_out_of_bounds:
  assumes "i < length (arr_node_data pe)" and "length (arr_node_data pe) = num_nodes_in_pe (my_config pe)"
    and "nd_app_id (arr_node_data pe ! i) = -1"
  shows "model_calls_predict pe i = Inl OutOfBounds"
  using assms by (simp add: model_calls_predict_def assert_app_initialized_def app_id_for_def app_at_def)

subsection \<open>Properties\<close>

text \<open>An MPI for examples.\<close>

definition allreduce :: "('a list \<Rightarrow> 'a) \<Rightarrow> 'a list list \<Rightarrow> 'a list" where
  "allreduce red xss = map (\<lambda>k. red (map (\<lambda>xs. xs ! k) xss)) [0..<length (hd xss)]"

definition sample_mpi :: mpi_ops where
  "sample_mpi = \<lparr>int_max = allreduce (\<lambda>xs. Max (set xs)), int_sum = allreduce sum_list,
     double_sum = allreduce sum_list, bool_and = allreduce (\<lambda>xs. \<forall>x\<in>set xs. x)\<rparr>"

lemma allreduce_elementwise: "elementwise red (allreduce red)"
  by (simp add: elementwise_def allreduce_def)

lemma sample_mpi_documented: "mpi_documented sample_mpi"
  by (simp add: mpi_documented_def sample_mpi_def allreduce_elementwise)

text \<open>One PE with one node of an application of ten iterations; it has reported the iterations
  1 and 2 at the times 10 and 30, and the director has asked once.\<close>

definition sample_node :: node_data where
  "sample_node = \<lparr>nd_app_id = 0, acc_iteration_time = 30, prev_iteration_time = 30, acc_iters = 2, last_iter = 2\<rparr>"

definition sample_app :: app_data where
  "sample_app = \<lparr>ad_type = NODE_TYPE_app, num_nodes = 1, nodes_with_enough_iters = 1, ending_iteration = 10,
     nodes_that_have_ended = 0, ad_status = APP_STATUS_running,
     ad_pred = \<lparr>jump_at_iter = 0, resume_at_iter = 0, restart_at = 0\<rparr>\<rparr>"

definition sample_pe :: predictor_pe where
  "sample_pe = \<lparr>my_config = \<lparr>num_apps = 1, num_nodes_in_pe = 1, num_iters_to_collect = 2\<rparr>,
     arr_node_data = [sample_node], arr_app_data = [sample_app], ready_to_skip = False, shown_warning = False\<rparr>"

definition sample_world :: "bool \<Rightarrow> predictor_world" where
  "sample_world b = \<lparr>pw_pes = [sample_pe], post_init_done = b\<rparr>"

lemma sample_reports:
  "bind_res (model_calls_init (avg_app_iteration_predictor (my_config sample_pe)) 0
     \<lparr>nc_app_id = 0, nc_type = NODE_TYPE_app, app_ending_iter = 10\<rparr>) (\<lambda>pe1.
   bind_res (model_calls_feed pe1 0 1 10) (\<lambda>pe2. model_calls_feed pe2 0 2 30)) = Inr sample_pe"
  by code_simp

lemma sample_run: "predictor_run sample_mpi 1 (sample_world False)"
proof -
  let ?cfg = "my_config sample_pe" and ?c = "\<lparr>nc_app_id = 0, nc_type = NODE_TYPE_app, app_ending_iter = 10\<rparr>"
  let ?w = "\<lambda>pe. \<lparr>pw_pes = [pe], post_init_done = False\<rparr>"
  obtain pe1 pe2 where steps: "model_calls_init (avg_app_iteration_predictor ?cfg) 0 ?c = Inr pe1"
    "model_calls_feed pe1 0 1 10 = Inr pe2" "model_calls_feed pe2 0 2 30 = Inr sample_pe"
    using sample_reports by (auto simp: bind_res_Inr_iff)
  have "predictor_run sample_mpi 1 (?w (avg_app_iteration_predictor ?cfg))"
    using run_start [of "[?cfg]" 1 sample_mpi] by (simp add: sample_pe_def)
  then have "predictor_run sample_mpi 1 (?w pe1)"
    using run_init [of sample_mpi 1 "?w (avg_app_iteration_predictor ?cfg)" 0 0 ?c pe1] steps(1)
    by (simp add: setting_up_def avg_app_iteration_predictor_def new_node_data_def new_app_data_def sample_pe_def)
  then have "predictor_run sample_mpi 1 (?w pe2)"
    using run_feed [of sample_mpi 1 "?w pe1" 0 0 1 10 pe2] steps(2) by simp
  then show ?thesis
    using run_feed [of sample_mpi 1 "?w pe2" 0 0 2 30 sample_pe] steps(3) by (simp add: sample_world_def)
qed

lemma sample_ready:
  "director_calls_is_predictor_ready sample_mpi (sample_world False) = Inr (Some (sample_world True, True))"
  by code_simp

lemma sample_run_ready: "predictor_run sample_mpi 1 (sample_world True)"
  by (rule run_ready [OF sample_run sample_ready])

text \<open>C39: the PEs never disagree on what the director does. In every state that the model and
  the director can reach from the start of PEs with the same number of applications (nodes are set up
  once, before they report and before the director asks for the first time, end once, and at least
  one iteration is to be collected), \<open>is_predictor_ready\<close> does not leave some PEs waiting in an all-reduce
  that the others do not enter, and if the PEs compute a jump they all get the same answer:
  the same decision and the same time of restart.\<close>
theorem predictor_pes_agree:
  assumes "mpi_documented mpi" and "predictor_run mpi A w"
  shows "director_calls_is_predictor_ready mpi w \<noteq> Inr None \<and>
    (post_init_done w \<longrightarrow> (\<forall>w' ffs. director_calls_prepare_fast_forward_jump mpi w = Inr (w', ffs) \<longrightarrow>
       length ffs = length (pw_pes w) \<and> (\<forall>ff\<in>set ffs. \<forall>ff'\<in>set ffs. ff = ff')))"
proof (intro conjI impI allI)
  have inv: "world_inv A w" by (rule predictor_run_inv [OF assms(2,1)])
  show "director_calls_is_predictor_ready mpi w \<noteq> Inr None"
    using ready_world_inv [OF inv assms(1)] by fastforce
  fix w' ffs assume init: "post_init_done w"
    and run: "director_calls_prepare_fast_forward_jump mpi w = Inr (w', ffs)"
  have shape: "pes_inv A (pw_pes w)" using inv by (simp add: world_inv_def)
  obtain vs where vs: "agreement vs (pw_pes w)" using inv init by (auto simp: world_inv_def)
  obtain avgs lasts ts pes where o: "find_avg_iteration_time mpi (pw_pes w) = Inr avgs" "length avgs = A"
    "length lasts = A" "length ts = A" "w' = w\<lparr>pw_pes := pes\<rparr>" "length pes = length (pw_pes w)"
    "length ffs = length (pw_pes w)"
    "\<forall>k<length (pw_pes w).
      plan_jump (progress_of (get_running_apps (pw_pes w ! k)) avgs lasts ts (arr_app_data (pw_pes w ! k)))
        (pw_pes w ! k) = Inr (pes ! k, ffs ! k)"
    by (rule prepare_outcome [OF shape assms(1) run])
  show "length ffs = length (pw_pes w)" by (rule o(7))
  have val: "jump_values (map hide_ended (progress_of (get_running_apps (pw_pes w ! k)) avgs lasts ts
      (arr_app_data (pw_pes w ! k)))) = Inr (ffs ! k)" if "k < length (pw_pes w)" for k
    using plan_jump_values [OF o(8) [rule_format, OF that]] by (simp add: jump_values_hide)
  have "ffs ! i = ffs ! j" if "i < length ffs" "j < length ffs" for i j
    using val [of i] val [of j] that agreed_progress [OF shape vs nth_mem nth_mem o(2-4), of i j] by (simp add: o(7))
  then show "\<forall>ff\<in>set ffs. \<forall>ff'\<in>set ffs. ff = ff'" by (metis in_set_conv_nth)
qed

theorem predictor_pes_agree_witness:
  "director_calls_is_predictor_ready sample_mpi (sample_world True) \<noteq> Inr None"
  using predictor_pes_agree [OF sample_mpi_documented sample_run_ready] by blast

text \<open>The predictor is ready only with enough data. If \<open>is_predictor_ready\<close> answers yes in a
  reachable state, every node of every application that has not ended has reported at least
  \<open>num_iters_to_collect\<close> iterations since the last reset, and the average iteration time of its
  application, which is left uninitialised without reports, has been computed.\<close>
theorem ready_means_enough_reports:
  assumes "mpi_documented mpi" and "predictor_run mpi A w"
    and "director_calls_is_predictor_ready mpi w = Inr (Some (w', True))"
    and "pe \<in> set (pw_pes w')" and "n \<in> set (arr_node_data pe)" and "nd_app_id n = int a"
    and "ad_status (arr_app_data pe ! a) \<noteq> APP_STATUS_completed_everywhere"
  shows "num_iters_to_collect (my_config pe) \<le> acc_iters n \<and>
    (\<exists>avgs. find_avg_iteration_time mpi (pw_pes w') = Inr avgs \<and> a < length avgs \<and> avgs ! a \<noteq> None)"
proof -
  have w': "world_inv A w'" "has_everyone_accumulated_enough pe"
    using ready_world_inv [OF predictor_run_inv [OF assms(2,1)] assms(1,3)] assms(4) by auto
  have shape: "pes_inv A (pw_pes w')" using w'(1) by (simp add: world_inv_def)
  note inv = pes_invD(2) [OF shape assms(4)]
  have in_a: "in_app a n" using assms(6) by (simp add: in_app_def)
  have enough: "num_iters_to_collect (my_config pe) \<le> acc_iters n"
    by (rule enough_reports [OF inv w'(2) assms(5) in_a assms(7)])
  have a: "a < A" using pe_invD(4) [OF inv assms(5)] assms(6) pes_invD(3) [OF shape assms(4)] by auto
  have "0 < sum_list (map (\<lambda>pe. fold (\<lambda>n k. k + acc_iters n) (filter (in_app a) (arr_node_data pe)) 0) (pw_pes w'))"
    using reported_iterations [where a = a, OF shape assms(4,5) in_a] enough pe_invD(3) [OF inv] by linarith
  then show ?thesis using enough a by (auto simp: averages [OF shape assms(1)] Let_def)
qed

theorem ready_means_enough_reports_witness:
  "num_iters_to_collect (my_config sample_pe) \<le> acc_iters sample_node"
  using ready_means_enough_reports [OF sample_mpi_documented sample_run sample_ready, of sample_pe sample_node 0]
  by (simp add: sample_world_def sample_pe_def sample_node_def sample_app_def)

text \<open>C40: the jump brings the applications to the time at which the first of them ends (times are real
  numbers, without rounding). In every reachable state whose progress is plausible (some application
  runs; each that does has a positive average iteration time, iterations in the range of an int and an
  end before the largest double; no two of them have last reports \<open>2 ^ 30\<close> or more iterations apart)
  the computation succeeds. The director switches exactly
  if every running application can skip more than one iteration; then each application jumps at
  its next iteration and resumes at a later one that is not after its last, the time of its
  restart is the time it reaches that iteration at its average pace, at most half an average
  iteration from the end of the first application and not after the time the director
  announces. The application that ends first resumes at its last iteration. If the director does
  not switch, nothing changes.\<close>
theorem jump_lands_at_first_end:
  assumes "mpi_documented mpi" and "predictor_run mpi A w"
    and "\<forall>k<length (pw_pes w). plausible_progress (pe_progress mpi w k)"
  shows "(\<exists>w' ffs. director_calls_prepare_fast_forward_jump mpi w = Inr (w', ffs) \<and>
      length (pw_pes w') = length (pw_pes w) \<and> length ffs = length (pw_pes w) \<and>
      (\<forall>k<length (pw_pes w). good_jump (pe_progress mpi w k) (pw_pes w ! k) (pw_pes w' ! k) (ffs ! k))) \<and>
    (\<forall>k<length (pw_pes w). \<exists>p\<in>set (pe_progress mpi w k).
      ap_running p \<and> skipped (pe_progress mpi w k) p = ap_ending p - ap_last p)"
proof -
  have "pes_inv A (pw_pes w)" using predictor_run_inv [OF assms(2,1)] by (simp add: world_inv_def)
  then show ?thesis
    using prepare_total [OF _ assms(1,3)] first_to_end_resumes_at_end assms(3) by blast
qed

theorem jump_lands_at_first_end_witness:
  "\<exists>w' ffs. director_calls_prepare_fast_forward_jump sample_mpi (sample_world True) = Inr (w', ffs) \<and>
     good_jump (pe_progress sample_mpi (sample_world True) 0) sample_pe (pw_pes w' ! 0) (ffs ! 0)"
proof -
  have prog: "pe_progress sample_mpi (sample_world True) 0 =
      [\<lparr>ap_running = True, ap_avg = Some 15, ap_last = 2, ap_time = 30, ap_ending = 10\<rparr>]"
    by code_simp
  have "(1000::real) < DBL_MAX" by (simp add: DBL_MAX_def)
  then have "\<forall>k<length (pw_pes (sample_world True)). plausible_progress (pe_progress sample_mpi (sample_world True) k)"
    by (auto simp: sample_world_def [of True] prog [unfolded sample_world_def] plausible_progress_def)
  from jump_lands_at_first_end [OF sample_mpi_documented sample_run_ready this] show ?thesis
    by (auto simp: sample_world_def)
qed

end
