(* ===== verification/Spec2Isabelle.thy ===== *)
theory Spec2Isabelle
  imports Resource_LP LP_Type_Lookup Mapping_PEs Mapping_Relative Sched_Rounds Simplep2p LogGP Torus_Events
    Local_Storage Jobmap RC_Stack Workload_Methods Latency_Predictor App_Predictor
begin

text \<open>
  CODES: a library for the simulation of networks and storage systems on ROSS, a parallel
  discrete event simulator. A simulation is a set of logical processes (LPs) that exchange
  events in virtual time. Under optimistic synchronisation an LP handles events early and
  undoes them when an earlier event arrives, so every event handler of the program has a
  reverse handler, and the main obligation of the code is that the pair restores the state.
  This development models the core of the library and proves that obligation and the
  functional behaviour around it.

  Conventions. Every operation is a HOL function on the state it reads and writes; a failed
  \<open>assert\<close>, \<open>tw_error\<close>, NULL dereference, out-of-range access or division by zero is a value
  of the error type \<open>c_error\<close> (theory \<open>Codes_Prelude\<close>), so that a theorem that an operation
  returns shows that none of them happens. 64-bit quantities that the code lets wrap are
  words; LP ids and \<open>int\<close> values are mathematical integers where the code keeps them in
  range, with the wrap-around written out (\<open>u64\<close>, \<open>s32\<close>) where it does not. Times are real
  numbers: rounding of doubles is not modelled. Where a reverse handler restores a time it
  has saved, this makes no difference; where it subtracts what the handler has added (the
  torus does so for two statistics), the theorem leaves the sum out. The random generator
  belongs to ROSS: an LP carries the position of its stream, and the delay of a draw is an
  argument. Pointers into lists are modelled as addresses in \<open>Quicklist\<close> and as HOL lists
  above it.

  Parts, theories and sources.

  \<^item> Mapping (src/util/codes_mapping.c, codes-mapping-context.c, the structures of
    codes/configuration.h): theories \<open>LP_Conf\<close>, \<open>Codes_Mapping\<close> (definitions),
    \<open>Mapping_Ids\<close> (names to global ids and back), \<open>Mapping_Relative\<close> (relative ids),
    \<open>Mapping_PEs\<close> (distribution of the LPs over processes), \<open>Mapping_Context\<close> (which LP of
    another type a sender talks to).
  \<^item> LP types (src/util/lp-type-lookup.c): \<open>LP_Type_Lookup\<close>.
  \<^item> Configuration (src/modelconfig/configstore.c, configstoreadapter.c, configfile.c,
    configuration.c): \<open>Config_Store\<close>, the tree of sections and keys in an array, \<open>Configuration\<close>,
    the values of keys and the parsing of the section LPGROUPS, \<open>C_Text\<close>, \<open>sscanf\<close> and
    numbers of the C library.
  \<^item> Resources (src/util/resource.c, resource-lp.c): \<open>Resource_Pool\<close> (capacity accounting with
    64-bit words), \<open>Resource_LP\<close> (the LP that grants, refuses and queues requests, with
    rollback of sequences of events).
  \<^item> Storage (src/util/local-storage-model.c): \<open>Local_Storage\<close>, disks with and without request
    lanes.
  \<^item> Containers: \<open>Quicklist\<close> (codes/quicklist.h), pointer operations on a memory of \<open>next\<close> and
    \<open>prev\<close> fields, refined to HOL lists; \<open>Quickhash\<close> (codes/quickhash.h and the message tables
    of common-net.c); \<open>RC_Stack\<close> (src/util/rc-stack.c), the data kept for rollback.
  \<^item> Jobs and workloads: \<open>Jobmap\<close> (src/util/codes-jobmap.c, jobmap-impl/), \<open>Workload\<close>
    (src/workload/codes-workload.c) and \<open>Workload_Methods\<close> (the iomock, checkpoint and test
    generators of src/workload/methods).
  \<^item> Model-net, the network layer (src/networks/model-net/core): \<open>MN_Sched\<close> (the packet
    schedulers and their checkpoints), \<open>Model_Net\<close> (the calls of users), \<open>Model_Net_LP\<close> (queues
    and scheduler loops of a network device), \<open>Model_Net_Base\<close> (its event dispatcher, the
    switch to the surrogate), \<open>Sched_Rounds\<close> (executions of a device with its rounds in flight).
  \<^item> Networks (src/networks/model-net): \<open>Simplenet\<close> (simplenet-upd.c), \<open>Simplep2p\<close>
    (simplep2p.c), \<open>LogGP\<close> (loggp.c) and the torus (torus.c) in \<open>Torus_Routing\<close>, \<open>Torus\<close> (state
    and handlers), \<open>Torus_Links\<close> (flow control of one link) and \<open>Torus_Events\<close> (the
    properties of all events).
  \<^item> Surrogate (src/surrogate): \<open>Latency_Predictor\<close> (packet-latency-predictor/average.c) and
    \<open>App_Predictor\<close> (app-iteration-predictor/average.c), over all PEs at once, with MPI as a
    parameter.

  Interfaces. \<open>qlist_contract\<close> (lists), \<open>config_table\<close> (configuration), \<open>jobmap\<close>,
  \<open>hash_client\<close> and \<open>workload_generator\<close> state what the clients of these components rely on.
  The network below model-net is a parameter of the upper layers; \<open>reversible_method\<close>,
  \<open>draw_method\<close> and \<open>reversible_network\<close> state its obligations, and simplenet (\<open>sn\<close>, \<open>snd_draw\<close>,
  \<open>snet\<close>), simplep2p (\<open>p2p\<close>, \<open>p2p_draw\<close>, \<open>p2pnet\<close>) and LogGP (\<open>lg\<close>, \<open>lg_draw\<close>, \<open>lgnet\<close>)
  discharge all of them, the torus (\<open>tor\<close>, \<open>tor_draw\<close>) those of its packet function.

  What the lemmas show. Mapping: the translations between names and ids are inverse to each
  other, relative ids count the LPs of a type, every LP lives on exactly one process.
  Configuration: comparison of stores decides equality of what can be read, and LPGROUPS is
  parsed as it is written. Resources: legitimate events conserve capacity and can be rolled
  back, requests are served in order. Storage: no request is lost, a disk without scheduler
  serves in order, events can be undone up to stated differences. Containers: the pointer
  operations implement a double-ended queue, the hash table a map, the rollback stack
  returns what a legal optimistic run has pushed. Jobs and workloads: ids round-trip, a
  generator replays the same operations under any interleaving of rollbacks. Schedulers:
  every byte of a message is handed to the network exactly once and in order, and each step
  can be undone. Base LP: a queue with something to send has exactly one round in flight,
  and every event can be undone if the network keeps its contract. Networks: links are
  found where they were configured, messages are serialised, packets reach their
  destination in the torus, no chunk is stranded by flow control, and handlers can be undone.
  Surrogate: predictions are the averages of what was reported, the PEs agree on every
  decision, a jump lands at the end of the first application.

  Fuel. \<open>fcfs_drain\<close> runs a given number of scheduler rounds; the number of packets left in
  the queue is enough (\<open>fcfs_sends_everything\<close>). A route through the torus takes at most half
  the length of each dimension, added up over the dimensions, and that is the bound of
  \<open>torus_packets_arrive\<close>. Loops over pointer lists have no fuel: they are total on well-formed
  lists, shown with the list they follow.

  Not modelled. The networks dragonfly (all variants), slimfly, fat tree, express mesh and
  net-template with the congestion controller; MPI replay and synthetic traffic programs;
  workloads that read traces (Darshan, DUMPI, Recorder), run online or interpret the I/O
  kernel language; the directors of the surrogate, which move events inside ROSS, the learned
  predictors and the director client; the lexers and parsers of configuration files; lp-io and
  other output; MPI start-up. Of the modelled files, printing and freeing of structures and
  registration with ROSS have no effect on the modelled state and are left out.
\<close>

end
